(* ===== verification/Prelude.thy ===== *)
theory Prelude
  imports Complex_Main "HOL-Library.Word" "HOL-Library.List_Lexorder" "HOL-Library.Char_ord"
begin

text \<open>
  What every component shares: Rust strings as UTF-8 byte strings with the standard-library
  operations the crate calls on them, decimal printing and parsing of unsigned integers,
  saturating arithmetic, \<open>serde_json::Value\<close> as a datatype, and the fallible state-passing
  actions in which the asynchronous functions of the crate are written.
\<close>

named_theorems act_simps \<open>equations of the action combinators\<close>
named_theorems text_simps \<open>evaluation of the string operations\<close>

section \<open>Machine integers\<close>

type_synonym u16 = "16 word"
type_synonym u32 = "32 word"
type_synonym u64 = "64 word"

text \<open>Rust's \<open>saturating_add\<close>, \<open>saturating_sub\<close> and \<open>Ord::clamp\<close> on unsigned words.\<close>

definition sat_add :: "'a::len word \<Rightarrow> 'a word \<Rightarrow> 'a word" where
  "sat_add x y = (if unat x + unat y < 2 ^ LENGTH('a) then x + y else - 1)"

definition sat_sub :: "'a::len word \<Rightarrow> 'a word \<Rightarrow> 'a word" where
  "sat_sub x y = (if x < y then 0 else x - y)"

definition clamp :: "'a::linorder \<Rightarrow> 'a \<Rightarrow> 'a \<Rightarrow> 'a" where
  "clamp x lo hi = (if x < lo then lo else if hi < x then hi else x)"

lemma unat_minus_one_word: "unat (- 1 :: 'a::len word) = 2 ^ LENGTH('a) - 1"
  by (simp only: unsigned_minus_1_eq_mask mask_eq_exp_minus_1)

lemma unat_sat_add:
  "unat (sat_add x (y :: 'a::len word)) = min (unat x + unat y) (2 ^ LENGTH('a) - 1)"
proof (cases "unat x + unat y < 2 ^ LENGTH('a)")
  case True
  then have "unat (x + y) = unat x + unat y"
    by (simp add: unat_word_ariths)
  with True show ?thesis
    by (simp add: sat_add_def)
next
  case False
  then show ?thesis
    by (simp add: sat_add_def unat_minus_one_word)
qed

lemma unat_sat_sub: "unat (sat_sub x (y :: 'a::len word)) = unat x - unat y"
proof (cases "x < y")
  case True
  then have "unat x < unat y" by (simp add: word_less_nat_alt)
  with True show ?thesis by (simp add: sat_sub_def)
next
  case False
  then have "y \<le> x" by simp
  with False show ?thesis
    by (simp add: sat_sub_def unat_sub word_le_nat_alt)
qed

lemma clamp_bounds: "lo \<le> hi \<Longrightarrow> lo \<le> clamp x lo hi \<and> clamp x lo hi \<le> hi"
  by (auto simp: clamp_def)

lemma clamp_id: "lo \<le> x \<Longrightarrow> x \<le> hi \<Longrightarrow> clamp x lo hi = x"
  by (auto simp: clamp_def)

section \<open>Strings\<close>

text \<open>
  A Rust \<open>String\<close> is its UTF-8 byte sequence, a \<open>string\<close> of Isabelle. Non-ASCII letters of
  the crate's French messages are written as their bytes.
\<close>

definition e_acute :: string where "e_acute = [char_of (195::nat), char_of (169::nat)]"
definition a_grave :: string where "a_grave = [char_of (195::nat), char_of (160::nat)]"
definition ellipsis :: string where
  "ellipsis = [char_of (226::nat), char_of (128::nat), char_of (166::nat)]"

text \<open>\<open>str::split(c)\<close>: always at least one segment.\<close>

fun split_on :: "char \<Rightarrow> string \<Rightarrow> string list" where
  "split_on c [] = [[]]"
| "split_on c (x # xs) =
     (if x = c then [] # split_on c xs
      else (case split_on c xs of [] \<Rightarrow> [[x]] | seg # rest \<Rightarrow> (x # seg) # rest))"

text \<open>\<open>str::split_once(c)\<close>: around the first occurrence.\<close>

fun split_once :: "char \<Rightarrow> string \<Rightarrow> (string \<times> string) option" where
  "split_once c [] = None"
| "split_once c (x # xs) =
     (if x = c then Some ([], xs)
      else map_option (\<lambda>(a, b). (x # a, b)) (split_once c xs))"

text \<open>\<open>str::splitn(n, c)\<close>: at most \<open>n\<close> segments, the last one holds the rest.\<close>

fun splitn :: "nat \<Rightarrow> char \<Rightarrow> string \<Rightarrow> string list" where
  "splitn 0 c s = []"
| "splitn (Suc 0) c s = [s]"
| "splitn (Suc (Suc n)) c s =
     (case split_once c s of None \<Rightarrow> [s] | Some (a, b) \<Rightarrow> a # splitn (Suc n) c b)"

definition starts_with :: "string \<Rightarrow> string \<Rightarrow> bool" where
  "starts_with p s \<longleftrightarrow> take (length p) s = p"

definition ends_with :: "string \<Rightarrow> string \<Rightarrow> bool" where
  "ends_with p s \<longleftrightarrow> length p \<le> length s \<and> drop (length s - length p) s = p"

definition strip_prefix :: "string \<Rightarrow> string \<Rightarrow> string option" where
  "strip_prefix p s = (if starts_with p s then Some (drop (length p) s) else None)"

definition strip_suffix :: "string \<Rightarrow> string \<Rightarrow> string option" where
  "strip_suffix p s = (if ends_with p s then Some (take (length s - length p) s) else None)"

fun contains_sub :: "string \<Rightarrow> string \<Rightarrow> bool" where
  "contains_sub p [] = (p = [])"
| "contains_sub p (x # xs) = (starts_with p (x # xs) \<or> contains_sub p xs)"

definition ascii_lower :: "char \<Rightarrow> char" where
  "ascii_lower c = (if 65 \<le> (of_char c :: nat) \<and> (of_char c :: nat) \<le> 90
                    then char_of ((of_char c :: nat) + 32) else c)"

text \<open>\<open>str::trim\<close> on the ASCII strings of header values (space and control whitespace).\<close>

definition ascii_ws :: "char \<Rightarrow> bool" where
  "ascii_ws c \<longleftrightarrow> (of_char c :: nat) \<in> {9, 10, 11, 12, 13, 32}"

definition trim_ascii :: "string \<Rightarrow> string" where
  "trim_ascii s = rev (dropWhile ascii_ws (rev (dropWhile ascii_ws s)))"

text \<open>
  \<open>s.trim().is_empty()\<close> on any string: only Unicode \<open>White_Space\<close> characters, read on the
  UTF-8 bytes.
\<close>

fun all_white :: "nat list \<Rightarrow> bool" where
  "all_white [] = True"
| "all_white (a # bs) =
     (if a \<in> {9, 10, 11, 12, 13, 32} then all_white bs
      else if a = 194 then
        (case bs of b # cs \<Rightarrow> b \<in> {133, 160} \<and> all_white cs | _ \<Rightarrow> False)
      else if a = 225 then
        (case bs of b # c # cs \<Rightarrow> b = 154 \<and> c = 128 \<and> all_white cs | _ \<Rightarrow> False)
      else if a = 226 then
        (case bs of
           b # c # cs \<Rightarrow>
             (b = 128 \<and> (128 \<le> c \<and> c \<le> 138 \<or> c \<in> {168, 169, 175}) \<or> b = 129 \<and> c = 159)
             \<and> all_white cs
         | _ \<Rightarrow> False)
      else if a = 227 then
        (case bs of b # c # cs \<Rightarrow> b = 128 \<and> c = 128 \<and> all_white cs | _ \<Rightarrow> False)
      else False)"

definition is_blank :: "string \<Rightarrow> bool" where
  "is_blank s \<longleftrightarrow> all_white (map of_char s)"

text \<open>\<open>str::is_char_boundary\<close>: a position that is not inside a multi-byte character.\<close>

definition cont_byte :: "char \<Rightarrow> bool" where
  "cont_byte c \<longleftrightarrow> 128 \<le> (of_char c :: nat) \<and> (of_char c :: nat) < 192"

definition is_char_boundary :: "string \<Rightarrow> nat \<Rightarrow> bool" where
  "is_char_boundary s i \<longleftrightarrow> i = 0 \<or> i = length s \<or> (i < length s \<and> \<not> cont_byte (s ! i))"

text \<open>\<open>str::get(..i)\<close>: None out of range or off a character boundary.\<close>

definition get_to :: "string \<Rightarrow> nat \<Rightarrow> string option" where
  "get_to s i = (if i \<le> length s \<and> is_char_boundary s i then Some (take i s) else None)"

definition get_from :: "string \<Rightarrow> nat \<Rightarrow> string option" where
  "get_from s i = (if i \<le> length s \<and> is_char_boundary s i then Some (drop i s) else None)"

lemma split_on_not_Nil [simp]: "split_on c s \<noteq> []"
  by (induction s) (auto split: list.split)

lemma split_once_append:
  "c \<notin> set a \<Longrightarrow> split_once c (a @ c # b) = Some (a, b)"
  by (induction a) auto

lemma split_once_None: "split_once c s = None \<longleftrightarrow> c \<notin> set s"
  by (induction s) auto

lemma split_on_no_sep: "c \<notin> set s \<Longrightarrow> split_on c s = [s]"
  by (induction s) auto

lemma split_on_append: "c \<notin> set a \<Longrightarrow> split_on c (a @ c # b) = a # split_on c b"
  by (induction a) auto

lemma length_split_on: "length (split_on c s) = Suc (count_list s c)"
proof (induction s)
  case (Cons x xs)
  then show ?case by (cases "split_on c xs") auto
qed simp

lemma strip_suffix_append [simp]: "strip_suffix p (s @ p) = Some s"
  by (simp add: strip_suffix_def ends_with_def)

lemma strip_suffix_Some: "strip_suffix p s = Some r \<longleftrightarrow> s = r @ p"
proof
  assume "strip_suffix p s = Some r"
  then have "ends_with p s" and r: "r = take (length s - length p) s"
    by (auto simp: strip_suffix_def split: if_splits)
  then have "drop (length s - length p) s = p" by (simp add: ends_with_def)
  with r show "s = r @ p" by (metis append_take_drop_id)
qed simp

lemma strip_prefix_Some: "strip_prefix p s = Some r \<longleftrightarrow> s = p @ r"
  by (auto simp: strip_prefix_def starts_with_def) (metis append_take_drop_id)

section \<open>Decimal text of unsigned integers\<close>

definition digit_char :: "nat \<Rightarrow> char" where
  "digit_char d = char_of (48 + d)"

fun show_nat :: "nat \<Rightarrow> string" where
  "show_nat n = (if n < 10 then [digit_char n] else show_nat (n div 10) @ [digit_char (n mod 10)])"

declare show_nat.simps [simp del]

definition digit_value :: "char \<Rightarrow> nat option" where
  "digit_value c = (let n = of_char c :: nat in if 48 \<le> n \<and> n \<le> 57 then Some (n - 48) else None)"

fun parse_digits :: "nat \<Rightarrow> string \<Rightarrow> nat option" where
  "parse_digits acc [] = Some acc"
| "parse_digits acc (c # cs) =
     (case digit_value c of None \<Rightarrow> None | Some d \<Rightarrow> parse_digits (10 * acc + d) cs)"

text \<open>
  \<open>u32::from_str\<close> and its kin: at least one digit after an optional plus sign, and a value
  below \<open>2 ^ w\<close>.
\<close>

definition parse_unsigned :: "nat \<Rightarrow> string \<Rightarrow> nat option" where
  "parse_unsigned w s =
     (let body = (case s of c # cs \<Rightarrow> if c = CHR ''+'' then cs else s | [] \<Rightarrow> []) in
      if body = [] then None
      else case parse_digits 0 body of
             None \<Rightarrow> None
           | Some n \<Rightarrow> if n < 2 ^ w then Some n else None)"

lemma digit_value_digit_char: "d < 10 \<Longrightarrow> digit_value (digit_char d) = Some d"
  by (simp add: digit_value_def digit_char_def Let_def)

lemma parse_digits_append:
  "parse_digits acc (xs @ ys) =
     (case parse_digits acc xs of None \<Rightarrow> None | Some a \<Rightarrow> parse_digits a ys)"
  by (induction xs arbitrary: acc) (auto split: option.splits)

lemma parse_digits_show_nat:
  "\<exists>k. \<forall>acc. parse_digits acc (show_nat n) = Some (acc * 10 ^ k + n)"
proof (induction n rule: show_nat.induct)
  case (1 n)
  show ?case
  proof (cases "n < 10")
    case True
    then have "parse_digits acc (show_nat n) = Some (acc * 10 ^ 1 + n)" for acc
      by (simp add: show_nat.simps [of n] digit_value_digit_char)
    then show ?thesis by blast
  next
    case False
    then obtain k where k: "\<And>acc. parse_digits acc (show_nat (n div 10)) = Some (acc * 10 ^ k + n div 10)"
      using "1.IH" by blast
    have "parse_digits acc (show_nat n) = Some (acc * 10 ^ Suc k + n)" for acc
      using False
      by (simp add: show_nat.simps [of n] parse_digits_append k digit_value_digit_char algebra_simps)
    then show ?thesis by blast
  qed
qed

lemma show_nat_not_Nil [simp]: "show_nat n \<noteq> []"
  by (subst show_nat.simps) simp

lemma show_nat_digits: "set (show_nat n) \<subseteq> digit_char ` {..<10}"
proof (induction n rule: show_nat.induct)
  case (1 n)
  then show ?case by (subst show_nat.simps) auto
qed

lemma digit_char_inj: "d < 10 \<Longrightarrow> digit_char d = c \<Longrightarrow> digit_value c = Some d"
  using digit_value_digit_char by blast

lemma show_nat_no_nondigit: "digit_value c = None \<Longrightarrow> c \<notin> set (show_nat n)"
  using show_nat_digits [of n] digit_value_digit_char by fastforce

lemma parse_unsigned_show_nat: "n < 2 ^ w \<Longrightarrow> parse_unsigned w (show_nat n) = Some n"
proof -
  assume n: "n < 2 ^ w"
  have p: "parse_digits 0 (show_nat n) = Some n"
    using parse_digits_show_nat [of n] by auto
  obtain c cs where s: "show_nat n = c # cs" by (cases "show_nat n") auto
  have "c \<noteq> CHR ''+''"
    using show_nat_no_nondigit [of "CHR ''+''" n] s by (auto simp: digit_value_def)
  with n p s show ?thesis by (simp add: parse_unsigned_def)
qed

lemma show_nat_inj: "show_nat m = show_nat n \<longleftrightarrow> m = n"
proof
  assume e: "show_nat m = show_nat n"
  have "m < 2 ^ (m + n)" "n < 2 ^ (m + n)"
    using less_exp [of "m + n"] by linarith+
  then have "parse_unsigned (m + n) (show_nat m) = Some m" "parse_unsigned (m + n) (show_nat n) = Some n"
    by (blast intro: parse_unsigned_show_nat)+
  then have "Some m = Some n" unfolding e by (rule trans [OF sym])
  then show "m = n" by (rule option.inject [THEN iffD1])
qed (rule arg_cong)

lemma parse_unsigned_bound: "parse_unsigned w s = Some n \<Longrightarrow> n < 2 ^ w"
  by (auto simp: parse_unsigned_def Let_def split: if_splits option.splits)

section \<open>JSON values\<close>

text \<open>
  \<open>serde_json::Value\<close>. An object is its entries in iteration order, without duplicate keys;
  a number is an integer (of the 64-bit ranges) or a finite double.
\<close>

datatype number = Int_Num int | Float_Num rat

datatype json =
    JNull
  | JBool bool
  | JNumber number
  | JString string
  | JArray "json list"
  | JObject "(string \<times> json) list"

fun as_str :: "json \<Rightarrow> string option" where
  "as_str (JString s) = Some s" | "as_str _ = None"

lemma as_str_Some: "as_str v = Some s \<longleftrightarrow> v = JString s"
  by (cases v) auto

lemma those_map_Some: "(\<And>x. x \<in> set xs \<Longrightarrow> f x = Some (g x)) \<Longrightarrow> those (map f xs) = Some (map g xs)"
  by (induction xs) auto

fun as_array :: "json \<Rightarrow> json list option" where
  "as_array (JArray xs) = Some xs" | "as_array _ = None"

fun as_object :: "json \<Rightarrow> (string \<times> json) list option" where
  "as_object (JObject kvs) = Some kvs" | "as_object _ = None"

text \<open>\<open>Value::get(key)\<close>: None on anything but an object.\<close>

definition json_get :: "json \<Rightarrow> string \<Rightarrow> json option" where
  "json_get v k = (case v of JObject kvs \<Rightarrow> map_of kvs k | _ \<Rightarrow> None)"

definition json_obj_keys_distinct :: "(string \<times> json) list \<Rightarrow> bool" where
  "json_obj_keys_distinct kvs \<longleftrightarrow> distinct (map fst kvs)"

text \<open>A \<open>serde_json\<close> object: a \<open>BTreeMap\<close>, in the order of its keys.\<close>

definition obj :: "(string \<times> json) list \<Rightarrow> json" where
  "obj kvs = JObject (sort_key fst kvs)"

text \<open>Every object below a value has distinct keys (what the parser and the maps guarantee).\<close>

fun json_wf :: "json \<Rightarrow> bool" where
  "json_wf (JArray xs) = (\<forall>x\<in>set xs. json_wf x)"
| "json_wf (JObject kvs) = (distinct (map fst kvs) \<and> (\<forall>kv\<in>set kvs. json_wf (snd kv)))"
| "json_wf _ = True"

text \<open>
  A derived \<open>Deserialize\<close> of a struct: fields by name from an object, or by position from an array.
\<close>

fun struct_fields :: "string list \<Rightarrow> json \<Rightarrow> json option list option" where
  "struct_fields names (JObject kvs) = Some (map (map_of kvs) names)"
| "struct_fields names (JArray xs) =
     (if length xs \<le> length names
      then Some (map Some xs @ replicate (length names - length xs) None) else None)"
| "struct_fields names _ = None"

fun json_to_unsigned :: "nat \<Rightarrow> json \<Rightarrow> nat option" where
  "json_to_unsigned w (JNumber (Int_Num i)) = (if 0 \<le> i \<and> i < 2 ^ w then Some (nat i) else None)"
| "json_to_unsigned w _ = None"

fun json_to_i32 :: "json \<Rightarrow> int option" where
  "json_to_i32 (JNumber (Int_Num i)) = (if - (2 ^ 31) \<le> i \<and> i < 2 ^ 31 then Some i else None)"
| "json_to_i32 _ = None"

text \<open>An \<open>Option<T>\<close> field with \<open>#[serde(default)]\<close>: absent and null are None.\<close>

fun optional_field :: "(json \<Rightarrow> 'a option) \<Rightarrow> json option \<Rightarrow> 'a option option" where
  "optional_field f None = Some None"
| "optional_field f (Some JNull) = Some None"
| "optional_field f (Some v) = map_option Some (f v)"

section \<open>Fallible actions over a state\<close>

text \<open>
  An asynchronous function of the crate is an action: it takes the state, and returns an error
  or a value with the new state. \<open>and_then\<close> is the \<open>?\<close> operator.
\<close>

type_synonym ('w, 'e, 'a) act = "'w \<Rightarrow> ('e + 'a) \<times> 'w"

definition return_ok :: "'a \<Rightarrow> ('w, 'e, 'a) act" where
  "return_ok x = (\<lambda>w. (Inr x, w))"

definition fail_with :: "'e \<Rightarrow> ('w, 'e, 'a) act" where
  "fail_with e = (\<lambda>w. (Inl e, w))"

definition and_then :: "('w, 'e, 'a) act \<Rightarrow> ('a \<Rightarrow> ('w, 'e, 'b) act) \<Rightarrow> ('w, 'e, 'b) act" where
  "and_then m f = (\<lambda>w. case m w of (Inl e, w') \<Rightarrow> (Inl e, w') | (Inr x, w') \<Rightarrow> f x w')"

definition map_err :: "('e \<Rightarrow> 'f) \<Rightarrow> ('w, 'e, 'a) act \<Rightarrow> ('w, 'f, 'a) act" where
  "map_err g m = (\<lambda>w. case m w of (Inl e, w') \<Rightarrow> (Inl (g e), w') | (Inr x, w') \<Rightarrow> (Inr x, w'))"

definition lift_result :: "'e + 'a \<Rightarrow> ('w, 'e, 'a) act" where
  "lift_result r = (\<lambda>w. (r, w))"

text \<open>A \<open>match\<close> on the result that continues after an error.\<close>

definition on_error :: "('w, 'e, 'a) act \<Rightarrow> ('e \<Rightarrow> ('w, 'f, 'a) act) \<Rightarrow> ('w, 'f, 'a) act" where
  "on_error m h = (\<lambda>w. case m w of (Inl e, w') \<Rightarrow> h e w' | (Inr x, w') \<Rightarrow> (Inr x, w'))"

text \<open>A \<open>for\<close> loop over a list whose body may fail.\<close>

fun for_each :: "'a list \<Rightarrow> ('a \<Rightarrow> ('w, 'e, 'b) act) \<Rightarrow> ('w, 'e, 'b list) act" where
  "for_each [] f = return_ok []"
| "for_each (x # xs) f =
     and_then (f x) (\<lambda>y. and_then (for_each xs f) (\<lambda>ys. return_ok (y # ys)))"

lemma return_ok_apply [act_simps]: "return_ok x w = (Inr x, w)"
  by (simp add: return_ok_def)

lemma fail_with_apply [act_simps]: "fail_with e w = (Inl e, w)"
  by (simp add: fail_with_def)

lemma lift_result_apply [act_simps]: "lift_result r w = (r, w)"
  by (simp add: lift_result_def)

lemma and_then_Inr [act_simps]: "m w = (Inr x, w') \<Longrightarrow> and_then m f w = f x w'"
  by (simp add: and_then_def)

lemma and_then_Inl [act_simps]: "m w = (Inl e, w') \<Longrightarrow> and_then m f w = (Inl e, w')"
  by (simp add: and_then_def)

lemma and_then_eq_Inr:
  "and_then m f w = (Inr y, w'') \<longleftrightarrow> (\<exists>x w'. m w = (Inr x, w') \<and> f x w' = (Inr y, w''))"
  by (auto simp: and_then_def split: prod.splits sum.splits)

lemma and_then_eq_Inl:
  "and_then m f w = (Inl e, w'') \<longleftrightarrow>
     m w = (Inl e, w'') \<or> (\<exists>x w'. m w = (Inr x, w') \<and> f x w' = (Inl e, w''))"
  by (auto simp: and_then_def split: prod.splits sum.splits)

lemma map_err_eq_Inr: "map_err g m w = (Inr y, w') \<longleftrightarrow> m w = (Inr y, w')"
  by (auto simp: map_err_def split: prod.splits sum.splits)

lemma map_err_eq_Inl: "map_err g m w = (Inl e, w') \<longleftrightarrow> (\<exists>d. m w = (Inl d, w') \<and> e = g d)"
  by (auto simp: map_err_def split: prod.splits sum.splits)

lemma map_err_Inr [act_simps]: "m w = (Inr y, w') \<Longrightarrow> map_err g m w = (Inr y, w')"
  by (simp add: map_err_eq_Inr)

lemma map_err_Inl [act_simps]: "m w = (Inl d, w') \<Longrightarrow> map_err g m w = (Inl (g d), w')"
  by (simp add: map_err_def)

lemma on_error_Inr [act_simps]: "m w = (Inr y, w') \<Longrightarrow> on_error m h w = (Inr y, w')"
  by (simp add: on_error_def)

lemma on_error_Inl [act_simps]: "m w = (Inl e, w') \<Longrightarrow> on_error m h w = h e w'"
  by (simp add: on_error_def)

lemma on_error_eq:
  "on_error m h w = (r, w'') \<longleftrightarrow>
     (\<exists>y. m w = (Inr y, w'') \<and> r = Inr y) \<or> (\<exists>e w'. m w = (Inl e, w') \<and> h e w' = (r, w''))"
  by (auto simp: on_error_def split: prod.splits sum.splits)

text \<open>Inversion of actions that are known to have succeeded or failed.\<close>

lemmas act_inv = and_then_eq_Inr and_then_eq_Inl map_err_eq_Inr map_err_eq_Inl on_error_eq
  return_ok_def fail_with_def lift_result_def

text \<open>The same facts as unfolding equations, for evaluation.\<close>

lemmas act_eval = and_then_def on_error_def map_err_def return_ok_def fail_with_def lift_result_def

lemma and_then_return [simp]: "and_then m return_ok = m"
  by (rule ext) (auto simp: and_then_def return_ok_def split: prod.splits sum.splits)

lemma and_then_assoc:
  "and_then (and_then m f) g = and_then m (\<lambda>x. and_then (f x) g)"
  by (rule ext) (auto simp: and_then_def split: prod.splits sum.splits)

section \<open>Lists\<close>

text \<open>\<open>HashMap::entry(k).or_default().push(v)\<close>\<close>

definition push_entry :: "'k \<Rightarrow> 'v \<Rightarrow> ('k \<rightharpoonup> 'v list) \<Rightarrow> ('k \<rightharpoonup> 'v list)" where
  "push_entry k v m = m(k \<mapsto> (case m k of None \<Rightarrow> [] | Some vs \<Rightarrow> vs) @ [v])"

lemma find_Some_mem: "find P xs = Some x \<Longrightarrow> x \<in> set xs \<and> P x"
  by (induction xs) (auto split: if_splits)

lemma find_append:
  "find P (xs @ ys) = (case find P xs of None \<Rightarrow> find P ys | Some x \<Rightarrow> Some x)"
  by (induction xs) auto

lemma find_map_fst: "find (\<lambda>x. f x = k) xs = None \<longleftrightarrow> k \<notin> f ` set xs"
  by (induction xs) auto

lemma find_distinct:
  assumes "distinct (map f xs)" and "x \<in> set xs"
  shows "find (\<lambda>y. f y = f x) xs = Some x"
  using assms by (induction xs) (auto simp: rev_image_eqI)

lemma filter_distinct_map: "distinct (map f xs) \<Longrightarrow> distinct (map f (filter P xs))"
  by (induction xs) auto

lemma map_filter_cong2:
  "(\<And>x. x \<in> set xs \<Longrightarrow> f x = g x) \<Longrightarrow> List.map_filter f xs = List.map_filter g xs"
  by (induction xs) (auto simp: map_filter_simps split: option.split)

lemma set_map_filter: "set (List.map_filter f xs) = {y. \<exists>x\<in>set xs. f x = Some y}"
  by (induction xs) (auto simp: map_filter_simps split: option.split)

end
