(* ===== verification/Database.thy ===== *)
theory Database
  imports Prelude
begin

text \<open>
  The database connection as the crate sees it. The tables are those of the migrations under
  \<open>src/src/migration\<close>; a statement is a function on them, run by \<open>statement\<close> in a world that also
  holds what the crate does not control: before each statement other sessions may have committed
  changes (\<open>others\<close>), time has passed (\<open>advance\<close>), and the statement itself may fail
  (\<open>fails\<close>). The worlds of a theorem are therefore all the interleavings of a request with
  other requests and all its infrastructure failures. The locale \<open>get_or_create\<close> states once
  what the select, insert, select-again idiom of the crate guarantees.
\<close>

section \<open>Errors and worlds\<close>

text \<open>\<open>sea_orm::DbErr\<close>: the two variants the crate distinguishes, and every other one.\<close>

datatype dberr = RecordNotFound string | RecordNotUpdated | ExecErr string

datatype dialect = Sqlite | Postgres

record 't env_step =
  others :: "'t \<Rightarrow> 't"
  advance :: nat
  fails :: "dberr option"

record 't world =
  tabs :: 't
  snap :: "'t option"
  aborted :: bool
  dialect :: dialect
  clock :: int
  env :: "'t env_step list"

text \<open>
  One exchange with the server: the environment moves first. A change of another session is
  seen both by the open transaction and by the state a rollback would return to.
\<close>

definition arrive :: "'t world \<Rightarrow> dberr option \<times> 't world" where
  "arrive w =
     (case env w of
        [] \<Rightarrow> (None, w)
      | s # ss \<Rightarrow>
          (fails s,
           w\<lparr>tabs := others s (tabs w), snap := map_option (others s) (snap w),
             clock := clock w + int (advance s), env := ss\<rparr>))"

definition aborted_err :: dberr where
  "aborted_err = ExecErr ''current transaction is aborted''"

text \<open>A failed statement aborts the open transaction of a Postgres server, not of SQLite.\<close>

definition taint :: "'t world \<Rightarrow> 't world" where
  "taint w = (if dialect w = Postgres \<and> snap w \<noteq> None then w\<lparr>aborted := True\<rparr> else w)"

definition statement :: "('t \<Rightarrow> dberr + ('a \<times> 't)) \<Rightarrow> ('t world, dberr, 'a) act" where
  "statement f w =
     (case arrive w of
        (flt, w1) \<Rightarrow>
          if aborted w1 then (Inl aborted_err, w1)
          else case flt of
            Some e \<Rightarrow> (Inl e, taint w1)
          | None \<Rightarrow>
              (case f (tabs w1) of
                 Inl e \<Rightarrow> (Inl e, taint w1)
               | Inr (x, t') \<Rightarrow> (Inr x, w1\<lparr>tabs := t'\<rparr>)))"

text \<open>A \<open>SELECT\<close> changes nothing.\<close>

definition select :: "('t \<Rightarrow> 'a) \<Rightarrow> ('t world, dberr, 'a) act" where
  "select q = statement (\<lambda>t. Inr (q t, t))"

definition begin_txn :: "('t world, dberr, unit) act" where
  "begin_txn w =
     (case arrive w of
        (Some e, w1) \<Rightarrow> (Inl e, w1)
      | (None, w1) \<Rightarrow> (Inr (), w1\<lparr>snap := Some (tabs w1), aborted := False\<rparr>))"

definition leave_txn :: "'t world \<Rightarrow> 't world" where
  "leave_txn w =
     (case snap w of None \<Rightarrow> w
      | Some t \<Rightarrow> w\<lparr>tabs := t, snap := None, aborted := False\<rparr>)"

text \<open>
  A commit that fails, and the commit of an aborted transaction, leave nothing behind; so does
  a rollback, whether or not the server acknowledged it (the connection is dropped).
\<close>

definition commit_txn :: "('t world, dberr, unit) act" where
  "commit_txn w =
     (case arrive w of
        (Some e, w1) \<Rightarrow> (Inl e, leave_txn w1)
      | (None, w1) \<Rightarrow>
          if aborted w1 then (Inr (), leave_txn w1)
          else (Inr (), w1\<lparr>snap := None\<rparr>))"

definition rollback_txn :: "('t world, dberr, unit) act" where
  "rollback_txn w =
     (case arrive w of
        (Some e, w1) \<Rightarrow> (Inl e, leave_txn w1)
      | (None, w1) \<Rightarrow> (Inr (), leave_txn w1))"

text \<open>\<open>Utc::now()\<close> reads the clock; it does not talk to the server.\<close>

definition utc_now :: "('t world, 'e, int) act" where
  "utc_now w = (Inr (clock w), w)"

text \<open>No failure, no other session, no transaction left aborted.\<close>

definition quiet :: "'t world \<Rightarrow> bool" where
  "quiet w \<longleftrightarrow> env w = [] \<and> \<not> aborted w"

definition set_tabs :: "'t \<Rightarrow> 't world \<Rightarrow> 't world" where
  "set_tabs t w = w\<lparr>tabs := t\<rparr>"

section \<open>Statements\<close>

lemma arrive_quiet [act_simps]: "quiet w \<Longrightarrow> arrive w = (None, w)"
  by (simp add: quiet_def arrive_def)

lemma statement_quiet_Inr [act_simps]:
  "quiet w \<Longrightarrow> f (tabs w) = Inr (x, t') \<Longrightarrow> statement f w = (Inr x, set_tabs t' w)"
  by (simp add: statement_def arrive_quiet) (simp add: quiet_def set_tabs_def)

lemma statement_quiet_Inl [act_simps]:
  "quiet w \<Longrightarrow> f (tabs w) = Inl e \<Longrightarrow> statement f w = (Inl e, taint w)"
  by (simp add: statement_def arrive_quiet) (simp add: quiet_def)

lemma set_tabs_simps [simp]:
  "tabs (set_tabs t w) = t"
  "snap (set_tabs t w) = snap w"
  "clock (set_tabs t w) = clock w"
  "quiet (set_tabs t w) = quiet w"
  "set_tabs t (set_tabs t' w) = set_tabs t w"
  "dialect (set_tabs t w) = dialect w"
  "env (set_tabs t w) = env w"
  "aborted (set_tabs t w) = aborted w"
  by (simp_all add: set_tabs_def quiet_def)

lemma set_tabs_same [simp]: "set_tabs (tabs w) w = w"
  by (simp add: set_tabs_def)

lemma select_quiet [act_simps]: "quiet w \<Longrightarrow> select q w = (Inr (q (tabs w)), w)"
  by (simp add: select_def statement_quiet_Inr)

lemma taint_simps [simp]:
  "tabs (taint w) = tabs w" "env (taint w) = env w" "clock (taint w) = clock w"
  "snap (taint w) = snap w" "dialect (taint w) = dialect w"
  by (simp_all add: taint_def)

lemma taint_no_txn: "snap w = None \<Longrightarrow> taint w = w"
  by (simp add: taint_def)

lemma taint_sqlite: "dialect w = Sqlite \<Longrightarrow> taint w = w"
  by (simp add: taint_def)

text \<open>The state in which a statement runs, whatever it does.\<close>

definition arrived :: "'t world \<Rightarrow> 't world" where
  "arrived w = snd (arrive w)"

lemma arrived_quiet [simp]: "quiet w \<Longrightarrow> arrived w = w"
  by (simp add: arrived_def arrive_quiet)

lemma statement_Inr_iff:
  "statement f w = (Inr x, w') \<longleftrightarrow>
     (\<exists>t'. fst (arrive w) = None \<and> \<not> aborted (arrived w) \<and> f (tabs (arrived w)) = Inr (x, t') \<and>
        w' = set_tabs t' (arrived w))"
  by (auto simp: statement_def arrived_def set_tabs_def split: prod.splits option.splits sum.splits)

lemma select_Inr_iff:
  "select q w = (Inr x, w') \<longleftrightarrow>
     fst (arrive w) = None \<and> \<not> aborted (arrived w) \<and> x = q (tabs (arrived w)) \<and> w' = arrived w"
  by (auto simp: select_def statement_Inr_iff)

lemma statement_Inl_tabs:
  "statement f w = (Inl e, w') \<Longrightarrow> tabs w' = tabs (arrived w)"
  by (auto simp: statement_def arrived_def split: prod.splits option.splits sum.splits if_splits)

text \<open>
  The tables only move by the environment and by the statement's own effect: an invariant that
  both keep is kept by the action.
\<close>

definition env_keeps :: "('t \<Rightarrow> bool) \<Rightarrow> 't world \<Rightarrow> bool" where
  "env_keeps P w \<longleftrightarrow> (\<forall>s\<in>set (env w). \<forall>t. P t \<longrightarrow> P (others s t))"

definition inv_world :: "('t \<Rightarrow> bool) \<Rightarrow> 't world \<Rightarrow> bool" where
  "inv_world P w \<longleftrightarrow> P (tabs w) \<and> (\<forall>t. snap w = Some t \<longrightarrow> P t) \<and> env_keeps P w"

definition act_keeps :: "('t \<Rightarrow> bool) \<Rightarrow> ('t world, 'e, 'a) act \<Rightarrow> bool" where
  "act_keeps P m \<longleftrightarrow> (\<forall>w. inv_world P w \<longrightarrow> inv_world P (snd (m w)))"

lemma inv_world_set_tabs: "inv_world P w \<Longrightarrow> P t \<Longrightarrow> inv_world P (set_tabs t w)"
  by (simp add: inv_world_def set_tabs_def env_keeps_def)

lemma inv_world_taint [simp]: "inv_world P (taint w) = inv_world P w"
  by (simp add: inv_world_def env_keeps_def)

lemma inv_world_arrived: "inv_world P w \<Longrightarrow> inv_world P (arrived w)"
  by (auto simp: inv_world_def arrived_def arrive_def env_keeps_def split: list.splits)

lemma inv_world_arrive: "arrive w = (flt, w1) \<Longrightarrow> inv_world P w \<Longrightarrow> inv_world P w1"
  using inv_world_arrived [of P w] by (simp add: arrived_def)

lemma inv_world_begin:
  "inv_world P w \<Longrightarrow> inv_world P (w\<lparr>snap := Some (tabs w), aborted := False\<rparr>)"
  by (simp add: inv_world_def env_keeps_def)

lemma inv_world_commit: "inv_world P w \<Longrightarrow> inv_world P (w\<lparr>snap := None\<rparr>)"
  by (simp add: inv_world_def env_keeps_def)

lemma inv_world_leave: "inv_world P w \<Longrightarrow> inv_world P (leave_txn w)"
  by (auto simp: inv_world_def leave_txn_def env_keeps_def split: option.splits)

lemma act_keepsD: "act_keeps P m \<Longrightarrow> m w = (r, w') \<Longrightarrow> inv_world P w \<Longrightarrow> inv_world P w'"
  unfolding act_keeps_def by (metis snd_conv)

lemma act_keepsI: "(\<And>w r w'. inv_world P w \<Longrightarrow> m w = (r, w') \<Longrightarrow> inv_world P w') \<Longrightarrow> act_keeps P m"
  unfolding act_keeps_def by (metis prod.collapse)

named_theorems keeps \<open>actions that keep an invariant of the tables\<close>

lemma keeps_return [keeps]: "act_keeps P (return_ok x)"
  by (simp add: act_keeps_def return_ok_def)

lemma keeps_fail [keeps]: "act_keeps P (fail_with e)"
  by (simp add: act_keeps_def fail_with_def)

lemma keeps_lift [keeps]: "act_keeps P (lift_result r)"
  by (simp add: act_keeps_def lift_result_def)

lemma keeps_now [keeps]: "act_keeps P utc_now"
  by (simp add: act_keeps_def utc_now_def)

lemma keeps_and_then [keeps]:
  assumes m: "act_keeps P m" and f: "\<And>x. act_keeps P (f x)"
  shows "act_keeps P (and_then m f)"
proof (rule act_keepsI)
  fix w r w'
  assume inv: "inv_world P w" and run: "and_then m f w = (r, w')"
  obtain r1 w1 where m1: "m w = (r1, w1)" by fastforce
  then have inv1: "inv_world P w1" using m inv act_keepsD by blast
  show "inv_world P w'"
  proof (cases r1)
    case (Inl e)
    with run m1 inv1 show ?thesis by (simp add: and_then_def)
  next
    case (Inr x)
    with run m1 have "f x w1 = (r, w')" by (simp add: and_then_def)
    then show ?thesis using f inv1 act_keepsD by blast
  qed
qed

lemma keeps_map_err [keeps]:
  assumes m: "act_keeps P m"
  shows "act_keeps P (map_err g m)"
proof (rule act_keepsI)
  fix w r w'
  assume inv: "inv_world P w" and run: "map_err g m w = (r, w')"
  obtain r1 w1 where m1: "m w = (r1, w1)" by fastforce
  with run have "w' = w1" by (cases r1) (auto simp: map_err_def)
  then show "inv_world P w'" using m m1 inv act_keepsD by blast
qed

lemma keeps_on_error [keeps]:
  assumes m: "act_keeps P m" and h: "\<And>e. act_keeps P (h e)"
  shows "act_keeps P (on_error m h)"
proof (rule act_keepsI)
  fix w r w'
  assume inv: "inv_world P w" and run: "on_error m h w = (r, w')"
  then show "inv_world P w'"
    using act_keepsD [OF m _ inv] act_keepsD [OF h] by (auto simp: on_error_eq)
qed

lemma keeps_for_each [keeps]: "(\<And>x. act_keeps P (f x)) \<Longrightarrow> act_keeps P (for_each xs f)"
  by (induction xs) (auto intro!: keeps)

lemma keeps_statement:
  assumes "\<And>t x t'. P t \<Longrightarrow> f t = Inr (x, t') \<Longrightarrow> P t'"
  shows "act_keeps P (statement f)"
proof (rule act_keepsI)
  fix w r w'
  assume inv: "inv_world P w" and run: "statement f w = (r, w')"
  have inv1: "inv_world P (arrived w)" by (rule inv_world_arrived [OF inv])
  show "inv_world P w'"
  proof (cases r)
    case (Inl e)
    with run have "w' = arrived w \<or> w' = taint (arrived w)"
      by (auto simp: statement_def arrived_def split: prod.splits option.splits sum.splits if_splits)
    with inv1 show ?thesis by auto
  next
    case (Inr x)
    with run obtain t' where f: "f (tabs (arrived w)) = Inr (x, t')" and w': "w' = set_tabs t' (arrived w)"
      by (auto simp: statement_Inr_iff)
    have "P (tabs (arrived w))" using inv1 by (simp add: inv_world_def)
    then have "P t'" using f by (rule assms)
    then show ?thesis unfolding w' by (rule inv_world_set_tabs [OF inv1])
  qed
qed

lemma keeps_select [keeps]: "act_keeps P (select q)"
  by (auto simp: select_def intro!: keeps_statement)

lemma keeps_begin [keeps]: "act_keeps P begin_txn"
proof (rule act_keepsI)
  fix w r w'
  assume inv: "inv_world P w" and run: "begin_txn w = (r, w')"
  obtain flt w1 where a: "arrive w = (flt, w1)" by fastforce
  then have inv1: "inv_world P w1" using inv inv_world_arrive by blast
  show "inv_world P w'"
    using run a inv1 inv_world_begin [OF inv1]
    by (cases flt) (auto simp: begin_txn_def)
qed

lemma keeps_commit [keeps]: "act_keeps P commit_txn"
proof (rule act_keepsI)
  fix w r w'
  assume inv: "inv_world P w" and run: "commit_txn w = (r, w')"
  obtain flt w1 where a: "arrive w = (flt, w1)" by fastforce
  then have inv1: "inv_world P w1" using inv inv_world_arrive by blast
  show "inv_world P w'"
    using run a inv1 inv_world_leave [OF inv1] inv_world_commit [OF inv1]
    by (cases flt) (auto simp: commit_txn_def split: if_splits)
qed

lemma keeps_rollback [keeps]: "act_keeps P rollback_txn"
proof (rule act_keepsI)
  fix w r w'
  assume inv: "inv_world P w" and run: "rollback_txn w = (r, w')"
  obtain flt w1 where a: "arrive w = (flt, w1)" by fastforce
  then have inv1: "inv_world P w1" using inv inv_world_arrive by blast
  show "inv_world P w'"
    using run a inv1 inv_world_leave [OF inv1]
    by (cases flt) (auto simp: rollback_txn_def)
qed

section \<open>Transactions\<close>

text \<open>
  With no other session at work (statements may still fail, time may pass), what a transaction
  would roll back to does not move, and a statement outside one touches nothing when it fails.
\<close>

definition solo :: "'t world \<Rightarrow> bool" where
  "solo w \<longleftrightarrow> (\<forall>s\<in>set (env w). others s = (\<lambda>t. t))"

definition in_txn :: "('t world, 'e, 'a) act \<Rightarrow> bool" where
  "in_txn m \<longleftrightarrow> (\<forall>w r w'. solo w \<longrightarrow> m w = (r, w') \<longrightarrow> solo w' \<and> snap w' = snap w)"

named_theorems txn_intros \<open>actions that stay inside the open transaction\<close>

lemma solo_arrive: "solo w \<Longrightarrow> arrive w = (f, w1) \<Longrightarrow> solo w1 \<and> snap w1 = snap w \<and> tabs w1 = tabs w"
  by (auto simp: solo_def arrive_def option.map_id [unfolded id_def] split: list.splits)

lemma in_txnD: "in_txn m \<Longrightarrow> m w = (r, w') \<Longrightarrow> solo w \<Longrightarrow> solo w' \<and> snap w' = snap w"
  unfolding in_txn_def by blast

lemma in_txn_return [txn_intros]: "in_txn (return_ok x)"
  by (simp add: in_txn_def return_ok_def)

lemma in_txn_fail [txn_intros]: "in_txn (fail_with e)"
  by (simp add: in_txn_def fail_with_def)

lemma in_txn_now [txn_intros]: "in_txn utc_now"
  by (simp add: in_txn_def utc_now_def)

lemma in_txn_and_then [txn_intros]:
  assumes m: "in_txn m" and f: "\<And>x. in_txn (f x)"
  shows "in_txn (and_then m f)"
  unfolding in_txn_def
proof (intro allI impI)
  fix w r w'
  assume w: "solo w" and run: "and_then m f w = (r, w')"
  obtain r1 w1 where m1: "m w = (r1, w1)" by fastforce
  note s1 = in_txnD [OF m m1 w]
  show "solo w' \<and> snap w' = snap w"
    using run m1 s1 in_txnD [OF f] by (cases r1) (auto simp: and_then_def)
qed

lemma in_txn_on_error [txn_intros]:
  assumes m: "in_txn m" and h: "\<And>e. in_txn (h e)"
  shows "in_txn (on_error m h)"
  unfolding in_txn_def
proof (intro allI impI)
  fix w r w'
  assume w: "solo w" and run: "on_error m h w = (r, w')"
  obtain r1 w1 where m1: "m w = (r1, w1)" by fastforce
  note s1 = in_txnD [OF m m1 w]
  show "solo w' \<and> snap w' = snap w"
    using run m1 s1 in_txnD [OF h] by (cases r1) (auto simp: on_error_def)
qed

lemma in_txn_for_each [txn_intros]: "(\<And>x. in_txn (f x)) \<Longrightarrow> in_txn (for_each xs f)"
  by (induction xs) (auto intro!: txn_intros)

lemma in_txn_statement [txn_intros]: "in_txn (statement f)"
  unfolding in_txn_def
proof (intro allI impI)
  fix w r w'
  assume w: "solo w" and run: "statement f w = (r, w')"
  obtain flt w1 where a: "arrive w = (flt, w1)" by fastforce
  note s1 = solo_arrive [OF w a]
  have "w' = w1 \<or> w' = taint w1 \<or> (\<exists>t. w' = w1\<lparr>tabs := t\<rparr>)"
    using run a by (auto simp: statement_def split: option.splits sum.splits if_splits)
  with s1 show "solo w' \<and> snap w' = snap w" by (auto simp: solo_def)
qed

lemma in_txn_select [txn_intros]: "in_txn (select q)"
  by (simp add: select_def txn_intros)

lemma leave_txn_tabs: "snap w = Some t \<Longrightarrow> tabs (leave_txn w) = t"
  by (simp add: leave_txn_def)

lemma begin_txn_solo:
  assumes "solo w" "begin_txn w = (r, w')"
  shows "solo w' \<and> tabs w' = tabs w \<and> (\<forall>u. r = Inr u \<longrightarrow> snap w' = Some (tabs w))"
proof -
  obtain flt w1 where a: "arrive w = (flt, w1)" by fastforce
  note s1 = solo_arrive [OF assms(1) a]
  show ?thesis using assms(2) a s1 by (cases flt) (auto simp: begin_txn_def solo_def)
qed

lemma commit_txn_solo_Inl:
  assumes "solo w" "commit_txn w = (Inl e, w')" "snap w = Some t"
  shows "tabs w' = t"
proof -
  obtain flt w1 where a: "arrive w = (flt, w1)" by fastforce
  note s1 = solo_arrive [OF assms(1) a]
  show ?thesis
    using assms(2,3) a s1 by (cases flt) (auto simp: commit_txn_def leave_txn_tabs split: if_splits)
qed

lemma rollback_txn_solo:
  assumes "solo w" "rollback_txn w = (r, w')" "snap w = Some t"
  shows "tabs w' = t"
proof -
  obtain flt w1 where a: "arrive w = (flt, w1)" by fastforce
  note s1 = solo_arrive [OF assms(1) a]
  show ?thesis
    using assms(2,3) a s1 by (cases flt) (auto simp: rollback_txn_def leave_txn_tabs)
qed

text \<open>The body of a transaction under a quiet environment.\<close>

lemma begin_txn_quiet [act_simps]:
  "quiet w \<Longrightarrow> begin_txn w = (Inr (), w\<lparr>snap := Some (tabs w), aborted := False\<rparr>)"
  by (simp add: begin_txn_def arrive_quiet)

lemma commit_txn_quiet [act_simps]:
  "quiet w \<Longrightarrow> commit_txn w = (Inr (), w\<lparr>snap := None\<rparr>)"
  by (simp add: commit_txn_def arrive_quiet) (simp add: quiet_def)

lemma rollback_txn_quiet [act_simps]:
  "quiet w \<Longrightarrow> rollback_txn w = (Inr (), leave_txn w)"
  by (simp add: rollback_txn_def arrive_quiet)

section \<open>Get or create\<close>

text \<open>
  The idiom of \<open>resolve_user\<close> and \<open>ensure_group\<close>: select by a unique key; insert when there is
  no row; when the insert fails, select again and return the row of whoever won the race, or
  else the error of the insert.
\<close>

locale get_or_create =
  fixes lookup :: "'t \<Rightarrow> 'r option"
    and insert_row :: "int \<Rightarrow> 't \<Rightarrow> dberr + ('r \<times> 't)"
    and proj :: "'r \<Rightarrow> 'a"
    and op :: "('t world, dberr, 'a) act"
  assumes op_eq:
      "op = and_then (select lookup)
              (\<lambda>r. case r of Some x \<Rightarrow> return_ok (proj x)
                 | None \<Rightarrow> and_then utc_now (\<lambda>now.
                     on_error (and_then (statement (insert_row now)) (\<lambda>x. return_ok (proj x)))
                       (\<lambda>e. and_then (select lookup)
                          (\<lambda>r2. case r2 of Some x \<Rightarrow> return_ok (proj x) | None \<Rightarrow> fail_with e))))"
    and insert_new: "lookup t = None \<Longrightarrow> \<exists>r t'. insert_row now t = Inr (r, t')"
    and insert_found: "insert_row now t = Inr (r, t') \<Longrightarrow> lookup t = None \<and> lookup t' = Some r"
begin

lemma present_quiet:
  "quiet w \<Longrightarrow> lookup (tabs w) = Some r \<Longrightarrow> op w = (Inr (proj r), w)"
  by (simp add: op_eq act_simps)

lemma absent_quiet:
  assumes "quiet w" "insert_row (clock w) (tabs w) = Inr (r, t')"
  shows "op w = (Inr (proj r), set_tabs t' w)"
proof -
  have "lookup (tabs w) = None" using insert_found assms(2) by blast
  with assms show ?thesis
    by (simp add: op_eq act_simps utc_now_def and_then_def on_error_def)
qed

lemma found_after:
  assumes "op w = (Inr a, w')"
  shows "\<exists>r. lookup (tabs w') = Some r \<and> proj r = a"
  using assms unfolding op_eq
  by (auto simp: act_inv select_Inr_iff statement_Inr_iff utc_now_def
      split: option.splits dest!: insert_found)

lemma idempotent_quiet:
  assumes "quiet w" "op w = (Inr a, w')"
  shows "quiet w' \<and> op w' = (Inr a, w')"
proof -
  obtain r where r: "lookup (tabs w') = Some r" "proj r = a"
    using found_after [OF assms(2)] by blast
  have "quiet w'"
  proof (cases "lookup (tabs w)")
    case (Some x)
    with assms present_quiet show ?thesis by simp
  next
    case None
    then obtain x t' where "insert_row (clock w) (tabs w) = Inr (x, t')"
      using insert_new by blast
    with assms absent_quiet show ?thesis by auto
  qed
  with r present_quiet show ?thesis by blast
qed

lemma total_quiet: "quiet w \<Longrightarrow> \<exists>a t'. op w = (Inr a, set_tabs t' w)"
  by (metis absent_quiet insert_new not_Some_eq present_quiet set_tabs_same)

text \<open>
  A race alone never surfaces: outside a transaction, if no statement fails by itself and no
  other session removes the row, the operation returns.
\<close>

lemma race_free_Inr:
  assumes ok: "\<forall>s\<in>set (env w). fails s = None"
    and keep: "\<forall>s\<in>set (env w). \<forall>t. lookup t \<noteq> None \<longrightarrow> lookup (others s t) \<noteq> None"
    and free: "snap w = None" "\<not> aborted w"
  shows "\<exists>a w'. op w = (Inr a, w')"
proof -
  obtain f1 w1 where a1: "arrive w = (f1, w1)" by fastforce
  have w1: "f1 = None" "snap w1 = None" "\<not> aborted w1" "set (env w1) \<subseteq> set (env w)"
    using a1 ok free by (auto simp: arrive_def split: list.splits)
  have sel1: "select lookup w = (Inr (lookup (tabs w1)), w1)"
    using a1 w1 by (simp add: select_Inr_iff arrived_def)
  show ?thesis
  proof (cases "lookup (tabs w1)")
    case (Some r)
    with sel1 show ?thesis by (simp add: op_eq act_simps)
  next
    case None
    obtain f2 w2 where a2: "arrive w1 = (f2, w2)" by fastforce
    have w2: "f2 = None" "snap w2 = None" "\<not> aborted w2" "set (env w2) \<subseteq> set (env w)"
      using a2 ok w1 by (auto simp: arrive_def split: list.splits)
    show ?thesis
    proof (cases "insert_row (clock w1) (tabs w2)")
      case (Inr p)
      then obtain r t' where "insert_row (clock w1) (tabs w2) = Inr (r, t')" by (cases p) auto
      with a2 w2 None sel1 show ?thesis
        by (auto simp: op_eq act_eval utc_now_def statement_def)
    next
      case (Inl e)
      then have present: "lookup (tabs w2) \<noteq> None"
        using insert_new [of "tabs w2" "clock w1"] by auto
      obtain f3 w3 where a3: "arrive w2 = (f3, w3)" by fastforce
      have w3: "f3 = None" "\<not> aborted w3" "lookup (tabs w3) \<noteq> None"
        using a3 ok keep w2 present by (auto simp: arrive_def split: list.splits)
      have "taint w2 = w2" using w2 by (simp add: taint_no_txn)
      with a2 a3 w2 w3 None Inl sel1 show ?thesis
        by (auto simp: op_eq act_eval utc_now_def statement_def select_def)
    qed
  qed
qed

text \<open>
  Inside a Postgres transaction the second select cannot help: the failed insert has aborted
  the transaction.
\<close>

lemma aborted_race:
  assumes "dialect w = Postgres" "snap w = Some t0" "\<not> aborted w"
    and "env w = [\<lparr>others = (\<lambda>t. t), advance = 0, fails = None\<rparr>, s]"
    and "fails s = None" "lookup (tabs w) = None" "lookup (others s (tabs w)) \<noteq> None"
  shows "fst (op w) = Inl aborted_err"
proof -
  have "\<exists>e. insert_row (clock w) (others s (tabs w)) = Inl e"
  proof (cases "insert_row (clock w) (others s (tabs w))")
    case (Inr p)
    with insert_found assms(7) show ?thesis by (cases p) fastforce
  qed blast
  with assms show ?thesis
    by (auto simp: op_eq act_eval utc_now_def statement_def select_def arrive_def taint_def)
qed

end

end
