(* ===== verification/Accounts.thy ===== *)
theory Accounts
  imports Database
begin

text \<open>
  Users, groups and memberships (\<open>src/src/users/user.rs\<close>, \<open>group.rs\<close>, \<open>membership.rs\<close>): the rows
  of the tables, the queries on them, get-or-create by key as instances of the locale
  \<open>get_or_create\<close>, the membership tests, and the reconciliation of a user's groups with the
  \<open>groups\<close> claim inside one transaction.
\<close>

section \<open>Tables\<close>

record user_row =
  u_id :: int
  u_subject :: string
  u_email :: "string option"
  u_display_name :: "string option"
  u_created_at :: int

record group_row =
  g_id :: int
  g_name :: string
  g_created_at :: int

record membership_row =
  m_id :: int
  m_user :: int
  m_group :: int

record token_row =
  t_id :: int
  t_subject :: string
  t_name :: string
  t_hash :: string
  t_created_at :: int
  t_expires_at :: "int option"
  t_last_used_at :: "int option"

text \<open>\<open>rows\<close> is the table of one resource of the application, of any row type.\<close>

record 'm tables =
  users :: "user_row list"
  groups :: "group_row list"
  memberships :: "membership_row list"
  tokens :: "token_row list"
  rows :: "'m list"

text \<open>An auto-increment key: what matters is that the key is not in use.\<close>

definition fresh_id :: "int list \<Rightarrow> int" where
  "fresh_id ids = fold max ids 0 + 1"

lemma fold_max_ge: "(x::int) \<in> set ids \<or> x \<le> a \<Longrightarrow> x \<le> fold max ids a"
proof (induction ids arbitrary: a)
  case (Cons i ids)
  have "x \<in> set ids \<or> x \<le> max i a" using Cons.prems by auto
  then show ?case using Cons.IH by simp
qed simp

lemma fresh_id_fresh: "fresh_id ids \<notin> set ids"
  using fold_max_ge [of "fresh_id ids" ids 0] by (auto simp: fresh_id_def)

definition unique_err :: "string \<Rightarrow> dberr" where
  "unique_err c = ExecErr (''UNIQUE constraint failed: '' @ c)"

definition fk_err :: dberr where
  "fk_err = ExecErr ''FOREIGN KEY constraint failed''"

definition find_user :: "string \<Rightarrow> 'm tables \<Rightarrow> user_row option" where
  "find_user subject t = find (\<lambda>u. u_subject u = subject) (users t)"

definition find_group :: "string \<Rightarrow> 'm tables \<Rightarrow> group_row option" where
  "find_group name t = find (\<lambda>g. g_name g = name) (groups t)"

definition find_membership :: "int \<Rightarrow> int \<Rightarrow> 'm tables \<Rightarrow> membership_row option" where
  "find_membership uid gid t = find (\<lambda>m. m_user m = uid \<and> m_group m = gid) (memberships t)"

definition memberships_of :: "int \<Rightarrow> 'm tables \<Rightarrow> membership_row list" where
  "memberships_of uid t = filter (\<lambda>m. m_user m = uid) (memberships t)"

definition new_user :: "string \<Rightarrow> string option \<Rightarrow> int \<Rightarrow> 'm tables \<Rightarrow> user_row" where
  "new_user subject email now t =
     \<lparr>u_id = fresh_id (map u_id (users t)), u_subject = subject, u_email = email,
      u_display_name = None, u_created_at = now\<rparr>"

definition insert_user ::
    "string \<Rightarrow> string option \<Rightarrow> int \<Rightarrow> 'm tables \<Rightarrow> dberr + (user_row \<times> 'm tables)" where
  "insert_user subject email now t =
     (if find_user subject t \<noteq> None then Inl (unique_err ''miryad_users.subject'')
      else Inr (new_user subject email now t, t\<lparr>users := users t @ [new_user subject email now t]\<rparr>))"

definition new_group :: "string \<Rightarrow> int \<Rightarrow> 'm tables \<Rightarrow> group_row" where
  "new_group name now t =
     \<lparr>g_id = fresh_id (map g_id (groups t)), g_name = name, g_created_at = now\<rparr>"

definition insert_group :: "string \<Rightarrow> int \<Rightarrow> 'm tables \<Rightarrow> dberr + (group_row \<times> 'm tables)" where
  "insert_group name now t =
     (if find_group name t \<noteq> None then Inl (unique_err ''miryad_groups.name'')
      else Inr (new_group name now t, t\<lparr>groups := groups t @ [new_group name now t]\<rparr>))"

definition delete_membership :: "int \<Rightarrow> 'm tables \<Rightarrow> dberr + (unit \<times> 'm tables)" where
  "delete_membership mid t =
     Inr ((), t\<lparr>memberships := filter (\<lambda>m. m_id m \<noteq> mid) (memberships t)\<rparr>)"

text \<open>\<open>INSERT ... ON CONFLICT (user_id, group_id) DO NOTHING\<close>, with both foreign keys.\<close>

definition insert_membership :: "int \<Rightarrow> int \<Rightarrow> 'm tables \<Rightarrow> dberr + (unit \<times> 'm tables)" where
  "insert_membership uid gid t =
     (if find_membership uid gid t \<noteq> None then Inr ((), t)
      else if uid \<notin> u_id ` set (users t) \<or> gid \<notin> g_id ` set (groups t) then Inl fk_err
      else Inr ((), t\<lparr>memberships := memberships t @
             [\<lparr>m_id = fresh_id (map m_id (memberships t)), m_user = uid, m_group = gid\<rparr>]\<rparr>))"

text \<open>What the migrations' primary keys, unique indexes and foreign keys enforce.\<close>

definition wf_accounts :: "'m tables \<Rightarrow> bool" where
  "wf_accounts t \<longleftrightarrow>
     distinct (map u_id (users t)) \<and> distinct (map u_subject (users t)) \<and>
     distinct (map g_id (groups t)) \<and> distinct (map g_name (groups t)) \<and>
     distinct (map m_id (memberships t)) \<and>
     distinct (map (\<lambda>m. (m_user m, m_group m)) (memberships t)) \<and>
     (\<forall>m\<in>set (memberships t). m_group m \<in> g_id ` set (groups t))"

section \<open>Users: get or create by subject\<close>

definition resolve_user ::
    "string \<Rightarrow> string option \<Rightarrow> ('m tables world, dberr, user_row) act" where
  "resolve_user subject email =
     and_then (select (find_user subject))
       (\<lambda>existing. case existing of Some u \<Rightarrow> return_ok u
        | None \<Rightarrow> and_then utc_now (\<lambda>now.
            on_error (statement (insert_user subject email now))
              (\<lambda>insert_err. and_then (select (find_user subject))
                 (\<lambda>again. case again of Some u \<Rightarrow> return_ok u | None \<Rightarrow> fail_with insert_err))))"

lemma find_user_append:
  "find_user s t = None \<Longrightarrow> u_subject u = s \<Longrightarrow>
     find_user s (t\<lparr>users := users t @ [u]\<rparr>) = Some u"
  by (simp add: find_user_def find_append)

interpretation user_goc:
  get_or_create "find_user s" "insert_user s em" "\<lambda>u. u" "resolve_user s em" for s em
proof unfold_locales
  show "resolve_user s em =
      and_then (select (find_user s)) (\<lambda>r. case r of Some x \<Rightarrow> return_ok x
         | None \<Rightarrow> and_then utc_now (\<lambda>now.
             on_error (and_then (statement (insert_user s em now)) (\<lambda>x. return_ok x))
               (\<lambda>e. and_then (select (find_user s))
                  (\<lambda>r2. case r2 of Some x \<Rightarrow> return_ok x | None \<Rightarrow> fail_with e))))"
    by (simp only: resolve_user_def and_then_return)
qed (auto simp: insert_user_def find_user_append new_user_def split: if_splits)

section \<open>Groups\<close>

definition admin_group_name :: string where
  "admin_group_name = ''admin''"

definition ensure_group :: "string \<Rightarrow> ('m tables world, dberr, int) act" where
  "ensure_group name =
     and_then (select (find_group name))
       (\<lambda>existing. case existing of Some g \<Rightarrow> return_ok (g_id g)
        | None \<Rightarrow> and_then utc_now (\<lambda>now.
            on_error (and_then (statement (insert_group name now)) (\<lambda>g. return_ok (g_id g)))
              (\<lambda>insert_err. and_then (select (find_group name))
                 (\<lambda>again. case again of Some g \<Rightarrow> return_ok (g_id g)
                  | None \<Rightarrow> fail_with insert_err))))"

definition is_member :: "int \<Rightarrow> string \<Rightarrow> ('m tables world, dberr, bool) act" where
  "is_member uid group_name =
     and_then (select (find_group group_name))
       (\<lambda>group. case group of None \<Rightarrow> return_ok False
        | Some g \<Rightarrow> and_then (select (find_membership uid (g_id g)))
            (\<lambda>m. return_ok (m \<noteq> None)))"

definition is_admin :: "int \<Rightarrow> ('m tables world, dberr, bool) act" where
  "is_admin uid = is_member uid admin_group_name"

lemma find_group_append:
  "find_group n t = None \<Longrightarrow> g_name g = n \<Longrightarrow>
     find_group n (t\<lparr>groups := groups t @ [g]\<rparr>) = Some g"
  by (simp add: find_group_def find_append)

interpretation group_goc:
  get_or_create "find_group n" "insert_group n" g_id "ensure_group n" for n
  by unfold_locales
    (auto simp: ensure_group_def insert_group_def find_group_append new_group_def split: if_splits)

text \<open>What the membership tests decide, on the tables.\<close>

definition in_group :: "int \<Rightarrow> string \<Rightarrow> 'm tables \<Rightarrow> bool" where
  "in_group uid n t =
     (case find_group n t of None \<Rightarrow> False | Some g \<Rightarrow> find_membership uid (g_id g) t \<noteq> None)"

definition membership_pairs :: "'m tables \<Rightarrow> (int \<times> int) set" where
  "membership_pairs t = (\<lambda>m. (m_user m, m_group m)) ` set (memberships t)"

definition member_names :: "int \<Rightarrow> 'm tables \<Rightarrow> string set" where
  "member_names uid t = {g_name g |g. g \<in> set (groups t) \<and> (uid, g_id g) \<in> membership_pairs t}"

lemma find_membership_iff:
  "find_membership uid gid t \<noteq> None \<longleftrightarrow> (uid, gid) \<in> membership_pairs t"
  by (auto simp: find_membership_def membership_pairs_def find_None_iff)

lemma find_group_iff:
  "distinct (map g_name (groups t)) \<Longrightarrow>
     find_group n t = Some g \<longleftrightarrow> g \<in> set (groups t) \<and> g_name g = n"
  using find_distinct [of g_name "groups t" g]
  by (auto simp: find_group_def dest: find_Some_mem)

lemma in_group_iff: "wf_accounts t \<Longrightarrow> in_group uid n t \<longleftrightarrow> n \<in> member_names uid t"
proof -
  assume wf: "wf_accounts t"
  then have fg: "find_group n t = Some h \<longleftrightarrow> h \<in> set (groups t) \<and> g_name h = n" for h
    by (simp add: wf_accounts_def find_group_iff)
  show ?thesis
  proof (cases "find_group n t")
    case None
    then have "n \<notin> g_name ` set (groups t)"
      by (auto simp: find_group_def find_None_iff)
    with None show ?thesis by (auto simp: in_group_def member_names_def)
  next
    case (Some g)
    with fg have g: "h \<in> set (groups t) \<and> g_name h = n \<longleftrightarrow> h = g" for h
      by (metis option.inject)
    with Some show ?thesis
      unfolding in_group_def member_names_def
      by (simp add: find_membership_iff del: not_None_eq) (metis (no_types, lifting))
  qed
qed

lemma is_member_quiet [act_simps]:
  "quiet w \<Longrightarrow> is_member uid n w = (Inr (in_group uid n (tabs w)), w)"
  by (auto simp: is_member_def in_group_def act_simps and_then_def split: option.splits)

lemma is_admin_quiet [act_simps]:
  "quiet w \<Longrightarrow> is_admin uid w = (Inr (in_group uid admin_group_name (tabs w)), w)"
  by (simp add: is_admin_def is_member_quiet)

lemma statement_fault:
  "fst (arrive w) = Some e \<Longrightarrow> \<not> aborted (arrived w) \<Longrightarrow> \<exists>w'. statement f w = (Inl e, w')"
  by (auto simp: statement_def arrived_def split: prod.splits)

lemma select_fault:
  "fst (arrive w) = Some e \<Longrightarrow> \<not> aborted (arrived w) \<Longrightarrow> \<exists>w'. select q w = (Inl e, w')"
  by (simp add: select_def statement_fault)

lemma is_member_fault:
  "fst (arrive w) = Some e \<Longrightarrow> \<not> aborted (arrived w) \<Longrightarrow> \<exists>w'. is_member uid n w = (Inl e, w')"
  using select_fault [of w e "find_group n"] by (auto simp: is_member_def act_simps)

text \<open>The rows of the users and groups only grow, and keep their keys.\<close>

lemma wf_insert_user: "wf_accounts t \<Longrightarrow> insert_user s em now t = Inr (u, t') \<Longrightarrow> wf_accounts t'"
  using fresh_id_fresh [of "map u_id (users t)"]
  by (auto simp: wf_accounts_def insert_user_def new_user_def find_user_def find_None_iff
      split: if_splits)

lemma wf_insert_group: "wf_accounts t \<Longrightarrow> insert_group n now t = Inr (g, t') \<Longrightarrow> wf_accounts t'"
  using fresh_id_fresh [of "map g_id (groups t)"]
  by (auto simp: wf_accounts_def insert_group_def new_group_def find_group_def find_None_iff
      split: if_splits)

lemma wf_delete_membership:
  "wf_accounts t \<Longrightarrow> delete_membership i t = Inr (u, t') \<Longrightarrow> wf_accounts t'"
  by (auto simp: wf_accounts_def delete_membership_def filter_distinct_map)

lemma wf_insert_membership:
  "wf_accounts t \<Longrightarrow> insert_membership u g t = Inr (x, t') \<Longrightarrow> wf_accounts t'"
  using fresh_id_fresh [of "map m_id (memberships t)"]
  by (auto 4 3 simp: wf_accounts_def insert_membership_def find_membership_def find_None_iff
      split: if_splits)

lemma keeps_insert_user [keeps]: "act_keeps wf_accounts (statement (insert_user s em now))"
  by (rule keeps_statement) (rule wf_insert_user)

lemma keeps_insert_group [keeps]: "act_keeps wf_accounts (statement (insert_group n now))"
  by (rule keeps_statement) (rule wf_insert_group)

lemma keeps_delete_membership [keeps]: "act_keeps wf_accounts (statement (delete_membership i))"
  by (rule keeps_statement) (rule wf_delete_membership)

lemma keeps_insert_membership [keeps]: "act_keeps wf_accounts (statement (insert_membership u g))"
  by (rule keeps_statement) (rule wf_insert_membership)

lemma keeps_resolve_user [keeps]: "act_keeps wf_accounts (resolve_user s em)"
  unfolding resolve_user_def
  by (auto intro!: keeps split: option.splits)

lemma keeps_ensure_group [keeps]: "act_keeps wf_accounts (ensure_group n)"
  unfolding ensure_group_def
  by (auto intro!: keeps split: option.splits)

lemma keeps_is_member [keeps]: "act_keeps P (is_member u n)"
  unfolding is_member_def by (auto intro!: keeps split: option.splits)

lemma keeps_is_admin [keeps]: "act_keeps P (is_admin u)"
  by (simp add: is_admin_def keeps)

section \<open>Reconciling the memberships of a user\<close>

definition reconcile_group_memberships ::
    "int \<Rightarrow> string list \<Rightarrow> ('m tables world, dberr, nat \<times> nat) act" where
  "reconcile_group_memberships uid wanted_names =
     and_then (for_each wanted_names ensure_group) (\<lambda>wanted_group_ids.
     and_then (select (memberships_of uid)) (\<lambda>current.
       let stale = filter (\<lambda>m. m_group m \<notin> set wanted_group_ids) current in
     and_then (for_each stale (\<lambda>m. statement (delete_membership (m_id m)))) (\<lambda>_.
       let current_group_ids = map m_group current;
           missing = filter (\<lambda>g. g \<notin> set current_group_ids) wanted_group_ids in
     and_then (for_each missing (\<lambda>g. statement (insert_membership uid g))) (\<lambda>_.
       return_ok (length missing, length stale)))))"

definition sync_group_memberships ::
    "int \<Rightarrow> string list \<Rightarrow> ('m tables world, dberr, unit) act" where
  "sync_group_memberships uid claim =
     (let wanted_names = filter (\<lambda>n. \<not> is_blank n) claim in
      and_then begin_txn (\<lambda>_.
        and_then
          (on_error (reconcile_group_memberships uid wanted_names)
             (\<lambda>err. and_then rollback_txn (\<lambda>_. fail_with err)))
          (\<lambda>counts. commit_txn)))"

lemma keeps_reconcile [keeps]: "act_keeps wf_accounts (reconcile_group_memberships uid ns)"
  unfolding reconcile_group_memberships_def Let_def
  by (intro keeps)

lemma keeps_sync [keeps]: "act_keeps wf_accounts (sync_group_memberships uid gs)"
  unfolding sync_group_memberships_def Let_def by (intro keeps)

lemma in_txn_ensure_group [txn_intros]: "in_txn (ensure_group n)"
  unfolding ensure_group_def by (auto intro!: txn_intros split: option.splits)

lemma in_txn_reconcile [txn_intros]: "in_txn (reconcile_group_memberships uid ns)"
  unfolding reconcile_group_memberships_def Let_def by (intro txn_intros)


subsection \<open>What a reconciliation computes\<close>

text \<open>The same steps as functions on the tables, for a quiet world.\<close>

definition with_group :: "int \<Rightarrow> string \<Rightarrow> 'm tables \<Rightarrow> 'm tables" where
  "with_group now n t =
     (if find_group n t = None then t\<lparr>groups := groups t @ [new_group n now t]\<rparr> else t)"

definition group_id_of :: "string \<Rightarrow> 'm tables \<Rightarrow> int" where
  "group_id_of n t = (case find_group n t of Some g \<Rightarrow> g_id g | None \<Rightarrow> 0)"

lemma find_group_with_group:
  "find_group n t = Some g \<Longrightarrow> find_group n (with_group now m t) = Some g"
  by (simp add: with_group_def find_group_def find_append)

lemma find_group_with_group_same: "find_group n (with_group now n t) \<noteq> None"
  by (simp add: with_group_def find_group_def find_append new_group_def)

lemma with_group_frame [simp]:
  "users (with_group now n t) = users t" "memberships (with_group now n t) = memberships t"
  "tokens (with_group now n t) = tokens t" "rows (with_group now n t) = rows t"
  by (simp_all add: with_group_def)

lemma ensure_group_quiet:
  assumes "quiet w"
  shows "ensure_group n w =
    (Inr (group_id_of n (with_group (clock w) n (tabs w))), set_tabs (with_group (clock w) n (tabs w)) w)"
proof (cases "find_group n (tabs w)")
  case None
  have "insert_group n (clock w) (tabs w) =
      Inr (new_group n (clock w) (tabs w), with_group (clock w) n (tabs w))"
    using None by (simp add: insert_group_def with_group_def)
  from group_goc.absent_quiet [OF assms this] show ?thesis
    using None by (simp add: group_id_of_def with_group_def find_group_append new_group_def)
next
  case (Some g)
  from group_goc.present_quiet [OF assms Some] show ?thesis
    using Some by (simp add: with_group_def group_id_of_def)
qed

lemma find_group_fold_with_group:
  "find_group n t = Some g \<Longrightarrow> find_group n (fold (with_group now) ms t) = Some g"
  by (induction ms arbitrary: t) (auto simp: find_group_with_group)

lemma fold_with_group_frame [simp]:
  "users (fold (with_group now) ns t) = users t"
  "memberships (fold (with_group now) ns t) = memberships t"
  "tokens (fold (with_group now) ns t) = tokens t"
  "rows (fold (with_group now) ns t) = rows t"
  by (induction ns arbitrary: t) auto

lemma for_each_ensure_group_quiet:
  "quiet w \<Longrightarrow> for_each ns ensure_group w =
     (Inr (map (\<lambda>n. group_id_of n (fold (with_group (clock w)) ns (tabs w))) ns),
      set_tabs (fold (with_group (clock w)) ns (tabs w)) w)"
proof (induction ns arbitrary: w)
  case Nil
  then show ?case by (simp add: act_simps)
next
  case (Cons n ns)
  let ?t = "with_group (clock w) n (tabs w)"
  obtain g where g: "find_group n ?t = Some g"
    using find_group_with_group_same by blast
  have "group_id_of n (fold (with_group (clock w)) ns ?t) = group_id_of n ?t"
    using find_group_fold_with_group [OF g] g by (simp add: group_id_of_def)
  then show ?case
    using Cons.prems Cons.IH [of "set_tabs ?t w"]
    by (simp add: act_simps ensure_group_quiet)
qed

lemma for_each_delete_quiet:
  "quiet w \<Longrightarrow> \<exists>us. for_each ms (\<lambda>m. statement (delete_membership (m_id m))) w =
     (Inr us, set_tabs ((tabs w)\<lparr>memberships :=
        filter (\<lambda>m. m_id m \<notin> m_id ` set ms) (memberships (tabs w))\<rparr>) w)"
proof (induction ms arbitrary: w)
  case Nil
  then show ?case by (simp add: act_simps)
next
  case (Cons m ms)
  let ?t = "(tabs w)\<lparr>memberships := filter (\<lambda>x. m_id x \<noteq> m_id m) (memberships (tabs w))\<rparr>"
  have st: "statement (delete_membership (m_id m)) w = (Inr (), set_tabs ?t w)"
    using Cons.prems by (simp add: act_simps delete_membership_def)
  obtain us where us: "for_each ms (\<lambda>m. statement (delete_membership (m_id m))) (set_tabs ?t w) =
      (Inr us, set_tabs (?t\<lparr>memberships :=
        filter (\<lambda>m. m_id m \<notin> m_id ` set ms) (memberships ?t)\<rparr>) w)"
    using Cons.IH [of "set_tabs ?t w"] Cons.prems by auto
  show ?case
    by (simp add: act_simps st us conj_commute)
qed

lemma insert_membership_effect:
  assumes "uid \<in> u_id ` set (users t)" "gid \<in> g_id ` set (groups t)"
  shows "\<exists>M. insert_membership uid gid t = Inr ((), t\<lparr>memberships := M\<rparr>) \<and>
    membership_pairs (t\<lparr>memberships := M\<rparr>) = insert (uid, gid) (membership_pairs t)"
proof (cases "find_membership uid gid t")
  case None
  let ?m = "\<lparr>m_id = fresh_id (map m_id (memberships t)), m_user = uid, m_group = gid\<rparr>"
  show ?thesis
    using None assms
    by (intro exI [of _ "memberships t @ [?m]"]) (simp add: insert_membership_def membership_pairs_def)
next
  case (Some m)
  then have "(uid, gid) \<in> membership_pairs t" by (simp flip: find_membership_iff)
  then show ?thesis
    using Some by (intro exI [of _ "memberships t"]) (auto simp: insert_membership_def)
qed

lemma for_each_insert_quiet:
  "quiet w \<Longrightarrow> uid \<in> u_id ` set (users (tabs w)) \<Longrightarrow> set gids \<subseteq> g_id ` set (groups (tabs w)) \<Longrightarrow>
     \<exists>us M. for_each gids (\<lambda>g. statement (insert_membership uid g)) w =
       (Inr us, set_tabs ((tabs w)\<lparr>memberships := M\<rparr>) w) \<and>
     membership_pairs ((tabs w)\<lparr>memberships := M\<rparr>) =
       membership_pairs (tabs w) \<union> {uid} \<times> set gids"
proof (induction gids arbitrary: w)
  case Nil
  then show ?case by (auto simp: act_simps intro!: exI [of _ "memberships (tabs w)"])
next
  case (Cons g gids)
  from insert_membership_effect [of uid "tabs w" g] Cons.prems
  obtain M1 where M1: "insert_membership uid g (tabs w) = Inr ((), (tabs w)\<lparr>memberships := M1\<rparr>)"
    "membership_pairs ((tabs w)\<lparr>memberships := M1\<rparr>) = insert (uid, g) (membership_pairs (tabs w))"
    by auto
  let ?w = "set_tabs ((tabs w)\<lparr>memberships := M1\<rparr>) w"
  from Cons.IH [of ?w] Cons.prems obtain us M where
    us: "for_each gids (\<lambda>g. statement (insert_membership uid g)) ?w =
       (Inr us, set_tabs ((tabs w)\<lparr>memberships := M\<rparr>) w)"
    and M: "membership_pairs ((tabs w)\<lparr>memberships := M\<rparr>) =
       membership_pairs ((tabs w)\<lparr>memberships := M1\<rparr>) \<union> {uid} \<times> set gids"
    by auto
  have "for_each (g # gids) (\<lambda>g. statement (insert_membership uid g)) w =
      (Inr (() # us), set_tabs ((tabs w)\<lparr>memberships := M\<rparr>) w)"
    using Cons.prems(1) M1(1) us by (simp add: act_simps)
  moreover have "membership_pairs ((tabs w)\<lparr>memberships := M\<rparr>) =
      membership_pairs (tabs w) \<union> {uid} \<times> set (g # gids)"
    using M M1(2) by auto
  ultimately show ?case by blast
qed

lemma wf_with_group: "wf_accounts t \<Longrightarrow> wf_accounts (with_group now n t)"
  using wf_insert_group [of t n now "new_group n now t"]
  by (auto simp: with_group_def insert_group_def split: if_splits)

lemma wf_fold_with_group: "wf_accounts t \<Longrightarrow> wf_accounts (fold (with_group now) ns t)"
  by (induction ns arbitrary: t) (auto simp: wf_with_group)

lemma fold_with_group_found: "n \<in> set ns \<Longrightarrow> find_group n (fold (with_group now) ns t) \<noteq> None"
proof (induction ns arbitrary: t)
  case (Cons m ns)
  show ?case
  proof (cases "n = m")
    case True
    obtain g where "find_group n (with_group now m t) = Some g"
      using find_group_with_group_same [of n now t] True by auto
    then show ?thesis using find_group_fold_with_group by fastforce
  next
    case False
    with Cons show ?thesis by simp
  qed
qed simp

lemma groups_with_group: "set (groups t) \<subseteq> set (groups (with_group now n t))"
  by (auto simp: with_group_def)

lemma groups_fold_with_group: "set (groups t) \<subseteq> set (groups (fold (with_group now) ns t))"
proof (induction ns arbitrary: t)
  case (Cons n ns)
  then show ?case using groups_with_group [of t now n] by fastforce
qed simp

lemma group_id_of_mem:
  assumes "find_group n t \<noteq> None"
  shows "\<exists>g. g \<in> set (groups t) \<and> g_name g = n \<and> g_id g = group_id_of n t"
proof -
  obtain g where "find_group n t = Some g" using assms by blast
  then show ?thesis
    using find_Some_mem by (fastforce simp: group_id_of_def find_group_def)
qed

lemma distinct_inj: "distinct (map f xs) \<Longrightarrow> x \<in> set xs \<Longrightarrow> y \<in> set xs \<Longrightarrow> f x = f y \<Longrightarrow> x = y"
  by (metis distinct_map inj_onD)

lemma pairs_after_delete:
  assumes "distinct (map m_id (memberships t))"
  shows "membership_pairs (t\<lparr>memberships := filter (\<lambda>m. m_id m \<notin> m_id `
        set (filter (\<lambda>m. m_group m \<notin> G) (memberships_of uid t))) (memberships t)\<rparr>) =
     {p \<in> membership_pairs t. fst p = uid \<longrightarrow> snd p \<in> G}"
proof -
  have "m_id m \<notin> m_id ` set (filter (\<lambda>m. m_group m \<notin> G) (memberships_of uid t)) \<longleftrightarrow>
      (m_user m = uid \<longrightarrow> m_group m \<in> G)" if "m \<in> set (memberships t)" for m
    using that distinct_inj [OF assms that] by (auto simp: memberships_of_def)
  then show ?thesis by (auto simp: membership_pairs_def)
qed

text \<open>A quiet reconciliation: the user's pairs become exactly the wanted groups.\<close>

lemma reconcile_quiet:
  fixes ns :: "string list"
  assumes q: "quiet w" and wf: "wf_accounts (tabs w)" and u: "uid \<in> u_id ` set (users (tabs w))"
  defines "t1 \<equiv> fold (with_group (clock w)) ns (tabs w)"
  shows "\<exists>r M. reconcile_group_memberships uid ns w = (Inr r, set_tabs (t1\<lparr>memberships := M\<rparr>) w) \<and>
    membership_pairs (t1\<lparr>memberships := M\<rparr>) =
      {p \<in> membership_pairs (tabs w). fst p \<noteq> uid} \<union> {uid} \<times> ((\<lambda>n. group_id_of n t1) ` set ns)"
proof -
  let ?ids = "map (\<lambda>n. group_id_of n t1) ns"
  let ?cur = "memberships_of uid t1"
  let ?stale = "filter (\<lambda>m. m_group m \<notin> set ?ids) ?cur"
  let ?missing = "filter (\<lambda>g. g \<notin> set (map m_group ?cur)) ?ids"
  let ?t2 = "t1\<lparr>memberships := filter (\<lambda>m. m_id m \<notin> m_id ` set ?stale) (memberships t1)\<rparr>"
  have wf1: "wf_accounts t1" using wf by (simp add: t1_def wf_fold_with_group)
  obtain us where del: "for_each ?stale (\<lambda>m. statement (delete_membership (m_id m))) (set_tabs t1 w) =
      (Inr us, set_tabs ?t2 w)"
    using for_each_delete_quiet [of "set_tabs t1 w" ?stale] q by auto
  have "group_id_of n t1 \<in> g_id ` set (groups t1)" if "n \<in> set ns" for n
    using group_id_of_mem [of n t1] fold_with_group_found [OF that] by (metis image_eqI t1_def)
  then have "set ?missing \<subseteq> g_id ` set (groups t1)" by auto
  then obtain vs M where ins: "for_each ?missing (\<lambda>g. statement (insert_membership uid g)) (set_tabs ?t2 w) =
      (Inr vs, set_tabs (?t2\<lparr>memberships := M\<rparr>) w)"
    and M: "membership_pairs (?t2\<lparr>memberships := M\<rparr>) = membership_pairs ?t2 \<union> {uid} \<times> set ?missing"
    using for_each_insert_quiet [of "set_tabs ?t2 w" uid ?missing] q u by (auto simp: t1_def)
  have run: "reconcile_group_memberships uid ns w =
      (Inr (length ?missing, length ?stale), set_tabs (t1\<lparr>memberships := M\<rparr>) w)"
    using q for_each_ensure_group_quiet [OF q, of ns] del ins
    by (simp add: reconcile_group_memberships_def act_simps Let_def flip: t1_def)
  have p2: "membership_pairs ?t2 = {p \<in> membership_pairs t1. fst p = uid \<longrightarrow> snd p \<in> set ?ids}"
    using pairs_after_delete [of t1 "set ?ids" uid] wf1 by (simp add: wf_accounts_def)
  have p1: "membership_pairs t1 = membership_pairs (tabs w)"
    by (simp add: t1_def membership_pairs_def)
  have cur: "m_group ` set ?cur = {g. (uid, g) \<in> membership_pairs t1}"
    by (auto simp: memberships_of_def membership_pairs_def)
  have "membership_pairs (t1\<lparr>memberships := M\<rparr>) =
      {p \<in> membership_pairs (tabs w). fst p \<noteq> uid} \<union> {uid} \<times> set ?ids"
    using M p2 cur unfolding p1 by auto
  with run show ?thesis by auto
qed

lemma member_names_other:
  assumes wf: "wf_accounts t" and wf1: "wf_accounts t1" and gs: "set (groups t) \<subseteq> set (groups t1)"
    and eq: "\<And>g. (v, g) \<in> membership_pairs t1 \<longleftrightarrow> (v, g) \<in> membership_pairs t"
  shows "member_names v t1 = member_names v t"
proof -
  have "g \<in> set (groups t)" if g: "g \<in> set (groups t1)" "(v, g_id g) \<in> membership_pairs t" for g
  proof -
    obtain h where h: "h \<in> set (groups t)" "g_id h = g_id g"
      using g wf by (fastforce simp: wf_accounts_def membership_pairs_def)
    then have "h = g" using distinct_inj [of g_id "groups t1" h g] wf1 gs g by (auto simp: wf_accounts_def)
    with h show ?thesis by simp
  qed
  then show ?thesis using gs eq by (auto simp: member_names_def)
qed

lemma member_names_exact:
  assumes wf1: "wf_accounts t1"
    and found: "\<And>n. n \<in> S \<Longrightarrow> find_group n t1 \<noteq> None"
    and pairs: "\<And>g. (uid, g) \<in> membership_pairs t2 \<longleftrightarrow> g \<in> (\<lambda>n. group_id_of n t1) ` S"
    and gs: "groups t2 = groups t1"
  shows "member_names uid t2 = S"
proof -
  have key: "g_id g = group_id_of n t1 \<longleftrightarrow> g_name g = n"
    if g: "g \<in> set (groups t1)" and n: "n \<in> S" for g n
  proof -
    obtain h where h: "h \<in> set (groups t1)" "g_name h = n" "g_id h = group_id_of n t1"
      using group_id_of_mem [OF found [OF n]] by blast
    show ?thesis
      using h g wf1 distinct_inj [of g_id "groups t1" g h] distinct_inj [of g_name "groups t1" g h]
      by (auto simp: wf_accounts_def)
  qed
  show ?thesis
  proof (intro subset_antisym subsetI)
    fix n assume "n \<in> member_names uid t2"
    then show "n \<in> S" using key gs pairs by (auto simp: member_names_def)
  next
    fix n assume n: "n \<in> S"
    from group_id_of_mem [OF found [OF n]] obtain g where
      "g \<in> set (groups t1)" "g_name g = n" "g_id g = group_id_of n t1" by blast
    with n gs pairs show "n \<in> member_names uid t2" by (auto simp: member_names_def)
  qed
qed

lemma sync_quiet:
  assumes q: "quiet w" "snap w = None" and wf: "wf_accounts (tabs w)"
    and u: "uid \<in> u_id ` set (users (tabs w))"
  shows "\<exists>t'. sync_group_memberships uid claim w = (Inr (), set_tabs t' w) \<and> wf_accounts t' \<and>
    users t' = users (tabs w) \<and> tokens t' = tokens (tabs w) \<and> rows t' = rows (tabs w) \<and>
    member_names uid t' = {n \<in> set claim. \<not> is_blank n} \<and>
    (\<forall>v. v \<noteq> uid \<longrightarrow> member_names v t' = member_names v (tabs w))"
proof -
  let ?ns = "filter (\<lambda>n. \<not> is_blank n) claim"
  let ?w = "w\<lparr>snap := Some (tabs w), aborted := False\<rparr>"
  let ?t1 = "fold (with_group (clock w)) ?ns (tabs w)"
  have qw: "quiet ?w" using q by (simp add: quiet_def)
  obtain r M where run: "reconcile_group_memberships uid ?ns ?w = (Inr r, set_tabs (?t1\<lparr>memberships := M\<rparr>) ?w)"
    and M: "membership_pairs (?t1\<lparr>memberships := M\<rparr>) =
      {p \<in> membership_pairs (tabs w). fst p \<noteq> uid} \<union> {uid} \<times> ((\<lambda>n. group_id_of n ?t1) ` set ?ns)"
    using reconcile_quiet [OF qw, of uid ?ns] wf u by auto
  let ?t2 = "?t1\<lparr>memberships := M\<rparr>"
  have same: "(set_tabs ?t2 ?w)\<lparr>snap := None\<rparr> = set_tabs ?t2 w"
    using q by (cases w) (simp add: set_tabs_def quiet_def)
  have res: "sync_group_memberships uid claim w = (Inr (), set_tabs ?t2 w)"
    using q qw run by (simp add: sync_group_memberships_def act_simps same)
  have wf1: "wf_accounts ?t1" using wf by (rule wf_fold_with_group)
  have "inv_world wf_accounts w"
    using q wf by (simp add: inv_world_def env_keeps_def quiet_def)
  with res have "inv_world wf_accounts (set_tabs ?t2 w)" by (rule act_keepsD [OF keeps_sync])
  then have wf2: "wf_accounts ?t2" by (simp add: inv_world_def)
  have "member_names uid ?t2 = set ?ns"
    using M by (intro member_names_exact [OF wf1] fold_with_group_found) auto
  moreover have "member_names v ?t2 = member_names v (tabs w)" if "v \<noteq> uid" for v
    using M that groups_fold_with_group [of "tabs w" "clock w" ?ns]
    by (intro member_names_other [OF wf wf2]) auto
  ultimately show ?thesis using res wf2 by auto
qed

lemma resolve_user_quiet:
  assumes "quiet w"
  shows "\<exists>u t'. resolve_user s em w = (Inr u, set_tabs t' w) \<and> find_user s t' = Some u \<and>
    tokens t' = tokens (tabs w) \<and> groups t' = groups (tabs w) \<and>
    memberships t' = memberships (tabs w) \<and> rows t' = rows (tabs w)"
proof (cases "find_user s (tabs w)")
  case None
  then have ins: "insert_user s em (clock w) (tabs w) = Inr (new_user s em (clock w) (tabs w),
      (tabs w)\<lparr>users := users (tabs w) @ [new_user s em (clock w) (tabs w)]\<rparr>)"
    by (simp add: insert_user_def)
  show ?thesis
    using user_goc.absent_quiet [OF assms ins] None by (auto simp: find_user_append new_user_def)
next
  case (Some u)
  have "resolve_user s em w = (Inr u, set_tabs (tabs w) w)"
    using user_goc.present_quiet [OF assms Some] by simp
  with Some show ?thesis by blast
qed

section \<open>Properties\<close>

text \<open>
  C26: a successful reconciliation makes the user a member of exactly the non-blank groups of the
  claim, creating those never seen, and leaves every other user's memberships as they were.
\<close>

theorem sync_group_memberships_exact:
  assumes "quiet w" "snap w = None" and "wf_accounts (tabs w)" and "uid \<in> u_id ` set (users (tabs w))"
  shows "\<exists>w'. sync_group_memberships uid claim w = (Inr (), w') \<and> wf_accounts (tabs w') \<and>
    member_names uid (tabs w') = {n \<in> set claim. \<not> is_blank n} \<and>
    (\<forall>v. v \<noteq> uid \<longrightarrow> member_names v (tabs w') = member_names v (tabs w))"
  using sync_quiet [OF assms] by fastforce

text \<open>A small database for the witnesses: one user in one group, and the admin group.\<close>

definition demo_tables :: "'m list \<Rightarrow> 'm tables" where
  "demo_tables rs =
     \<lparr>users = [\<lparr>u_id = 1, u_subject = ''ana'', u_email = None, u_display_name = None, u_created_at = 0\<rparr>,
               \<lparr>u_id = 2, u_subject = ''bob'', u_email = None, u_display_name = None, u_created_at = 0\<rparr>],
      groups = [\<lparr>g_id = 1, g_name = ''admin'', g_created_at = 0\<rparr>,
                \<lparr>g_id = 2, g_name = ''editors'', g_created_at = 0\<rparr>],
      memberships = [\<lparr>m_id = 1, m_user = 1, m_group = 1\<rparr>, \<lparr>m_id = 2, m_user = 2, m_group = 2\<rparr>],
      tokens = [], rows = rs\<rparr>"

definition demo_world :: "'m list \<Rightarrow> 'm tables world" where
  "demo_world rs =
     \<lparr>tabs = demo_tables rs, snap = None, aborted = False, dialect = Sqlite, clock = 100, env = []\<rparr>"

lemma demo_world_simps [simp]:
  "quiet (demo_world rs)" "snap (demo_world rs) = None" "tabs (demo_world rs) = demo_tables rs"
  "clock (demo_world rs) = 100" "env (demo_world rs) = []" "aborted (demo_world rs) = False"
  by (simp_all add: demo_world_def quiet_def)

lemma demo_tables_wf [simp]: "wf_accounts (demo_tables rs)"
  by (simp add: demo_tables_def wf_accounts_def)

lemma demo_users [simp]: "u_id ` set (users (demo_tables rs)) = {1, 2}"
  by (simp add: demo_tables_def)

theorem sync_group_memberships_exact_witness:
  "\<exists>w'. sync_group_memberships 2 [''readers'', '' ''] (demo_world ([] :: unit list)) = (Inr (), w') \<and>
    member_names 2 (tabs w') = {''readers''} \<and> member_names 1 (tabs w') = {''admin''}"
proof -
  have blank: "{n \<in> set [''readers'', '' '']. \<not> is_blank n} = {''readers''}"
    by (auto simp: is_blank_def)
  have admin: "member_names 1 (demo_tables ([] :: unit list)) = {''admin''}"
    by (force simp: member_names_def demo_tables_def membership_pairs_def)
  show ?thesis
    using sync_group_memberships_exact
      [of "demo_world ([] :: unit list)" 2 "[''readers'', '' '']", unfolded blank] admin
    by simp fastforce
qed

text \<open>
  Areconciliation that fails, at whatever statement, leaves the tables exactly as they were:
  no user is ever half reconciled.
\<close>

theorem sync_group_memberships_atomic:
  assumes solo: "solo w" and res: "sync_group_memberships uid claim w = (Inl e, w')"
  shows "tabs w' = tabs w"
proof -
  obtain r1 w1 where b: "begin_txn w = (r1, w1)" by fastforce
  note s1 = begin_txn_solo [OF solo b]
  show ?thesis
  proof (cases r1)
    case (Inl e1)
    with b res s1 show ?thesis by (auto simp: sync_group_memberships_def act_inv)
  next
    case (Inr x)
    obtain r2 w2 where m: "reconcile_group_memberships uid (filter (\<lambda>n. \<not> is_blank n) claim) w1 = (r2, w2)"
      by fastforce
    note s2 = in_txnD [OF in_txn_reconcile m]
    have snap2: "solo w2" "snap w2 = Some (tabs w)" using s1 s2 Inr by auto
    show ?thesis
    proof (cases r2)
      case (Inl e2)
      then have "sync_group_memberships uid claim w =
          and_then (and_then rollback_txn (\<lambda>_. fail_with e2)) (\<lambda>_ :: nat \<times> nat. commit_txn) w2"
        using b m \<open>r1 = Inr x\<close> by (simp add: sync_group_memberships_def and_then_def on_error_def)
      with res obtain r where "rollback_txn w2 = (r, w')"
        by (auto simp: and_then_eq_Inl and_then_eq_Inr fail_with_def)
      then show ?thesis by (rule rollback_txn_solo [OF snap2(1) _ snap2(2)])
    next
      case (Inr c)
      then have "sync_group_memberships uid claim w = commit_txn w2"
        using b m \<open>r1 = Inr x\<close> by (simp add: sync_group_memberships_def and_then_def on_error_def)
      with res show ?thesis using commit_txn_solo_Inl snap2 by metis
    qed
  qed
qed

theorem sync_group_memberships_atomic_witness:
  "\<exists>w'. sync_group_memberships 2 [''readers'']
       ((demo_world ([] :: unit list))\<lparr>env :=
          [\<lparr>others = (\<lambda>t. t), advance = 0, fails = None\<rparr>,
           \<lparr>others = (\<lambda>t. t), advance = 0, fails = Some RecordNotUpdated\<rparr>]\<rparr>) =
     (Inl RecordNotUpdated, w') \<and> tabs w' = demo_tables []"
proof -
  let ?w = "(demo_world ([] :: unit list))\<lparr>env :=
          [\<lparr>others = (\<lambda>t. t), advance = 0, fails = None\<rparr>,
           \<lparr>others = (\<lambda>t. t), advance = 0, fails = Some RecordNotUpdated\<rparr>]\<rparr>"
  have solo: "solo ?w" by (simp add: solo_def)
  have "fst (sync_group_memberships 2 [''readers''] ?w) = Inl RecordNotUpdated"
    by code_simp
  then obtain w' where w': "sync_group_memberships 2 [''readers''] ?w = (Inl RecordNotUpdated, w')"
    by (metis prod.collapse)
  show ?thesis
    using sync_group_memberships_atomic [OF solo w'] w' by simp
qed

text \<open>
  Two first logins of the same subject may race; as long as no statement fails by itself and no
  other session deletes users, both resolve to a row of that subject that is in the table.
\<close>

theorem resolve_user_race:
  assumes "\<forall>s\<in>set (env w). fails s = None"
    and "\<forall>s\<in>set (env w). \<forall>t. find_user subject t \<noteq> None \<longrightarrow> find_user subject (others s t) \<noteq> None"
    and "snap w = None" "\<not> aborted w"
  shows "\<exists>u w'. resolve_user subject email w = (Inr u, w') \<and> find_user subject (tabs w') = Some u \<and>
    u_subject u = subject"
proof -
  obtain u w' where u: "resolve_user subject email w = (Inr u, w')"
    using user_goc.race_free_Inr [OF assms] by blast
  then have "find_user subject (tabs w') = Some u" using user_goc.found_after [OF u] by auto
  with u show ?thesis by (auto simp: find_user_def dest: find_Some_mem)
qed

definition race_step :: "('t \<Rightarrow> 't) \<Rightarrow> 't env_step" where
  "race_step f = \<lparr>others = f, advance = 0, fails = None\<rparr>"

text \<open>The other login of the race: it commits the same subject between our select and insert.\<close>

definition other_login :: "string \<Rightarrow> 'm tables \<Rightarrow> 'm tables" where
  "other_login s t = (case insert_user s None 7 t of Inr (u, t') \<Rightarrow> t' | Inl e \<Rightarrow> t)"

lemma other_login_keeps: "find_user s t \<noteq> None \<Longrightarrow> find_user s (other_login s' t) \<noteq> None"
  by (auto simp: other_login_def insert_user_def find_user_def find_append split: if_splits option.splits)

theorem resolve_user_race_witness:
  "\<exists>u w'. resolve_user ''eve'' None
      ((demo_world ([] :: unit list))\<lparr>env := [race_step (\<lambda>t. t), race_step (other_login ''eve'')]\<rparr>) =
    (Inr u, w') \<and> find_user ''eve'' (tabs w') = Some u \<and> u_subject u = ''eve''"
  by (rule resolve_user_race) (auto simp: race_step_def other_login_keeps simp del: not_None_eq)

text \<open>
  Inside a Postgres transaction the fall-back of the group get-or-create cannot work: when another
  session creates the group between the select and the insert, the failed insert aborts the
  transaction and the second select fails, so the login that lost the race fails too.
\<close>

theorem ensure_group_postgres_race:
  assumes "dialect w = Postgres" "snap w = Some t0" "\<not> aborted w"
    and "env w = [\<lparr>others = (\<lambda>t. t), advance = 0, fails = None\<rparr>, s]" "fails s = None"
    and "find_group name (tabs w) = None" "find_group name (others s (tabs w)) \<noteq> None"
  shows "fst (ensure_group name w) = Inl aborted_err"
  using assms by (rule group_goc.aborted_race)

definition other_group :: "string \<Rightarrow> 'm tables \<Rightarrow> 'm tables" where
  "other_group n t = with_group 7 n t"

theorem ensure_group_postgres_race_witness:
  "fst (ensure_group ''readers'' ((demo_world ([] :: unit list))\<lparr>dialect := Postgres,
      snap := Some (demo_tables []), env := [race_step (\<lambda>t. t), race_step (other_group ''readers'')]\<rparr>)) =
    Inl aborted_err"
proof (rule ensure_group_postgres_race)
  show "find_group ''readers'' (others (race_step (other_group ''readers''))
      (tabs ((demo_world ([] :: unit list))\<lparr>dialect := Postgres, snap := Some (demo_tables []),
        env := [race_step (\<lambda>t. t), race_step (other_group ''readers'')]\<rparr>))) \<noteq> None"
    by (simp add: race_step_def other_group_def find_group_with_group_same)
qed (auto simp: race_step_def find_group_def demo_tables_def)

end
