(* ===== verification/Auth_Tokens.thy ===== *)
theory Auth_Tokens
  imports Accounts
begin

text \<open>
  Authentication errors and their HTTP status (\<open>src/src/auth/error.rs\<close>), principals
  (\<open>auth/principal.rs\<close>), API tokens (\<open>auth/token.rs\<close>) and service accounts
  (\<open>users/service_account.rs\<close>). HMAC-SHA256, base64 and the random generator are not code of the
  repository: \<open>hmac pepper token\<close> is the hexadecimal digest (None if the key is refused),
  \<open>b64\<close> the encoder, and the random bytes are an argument.
\<close>

section \<open>Errors\<close>

datatype auth_error =
    NotAuthenticated
  | InvalidSession
  | InvalidCallback
  | CsrfMismatch
  | Oidc string
  | InvalidToken
  | TokenExpired
  | TokenHashConflict
  | InvalidBearer
  | BearerExpired
  | Auth_Database dberr
  | Auth_Internal string

text \<open>The \<open>Display\<close> text; \<open>db_text\<close> is the one of \<open>sea_orm::DbErr\<close>.\<close>

fun auth_error_text :: "(dberr \<Rightarrow> string) \<Rightarrow> auth_error \<Rightarrow> string" where
  "auth_error_text db_text NotAuthenticated = ''MRD-AUTH-001: not authenticated (no session cookie)''"
| "auth_error_text db_text InvalidSession = ''MRD-AUTH-002: invalid or expired session''"
| "auth_error_text db_text InvalidCallback = ''MRD-AUTH-012: invalid or missing OIDC callback state''"
| "auth_error_text db_text CsrfMismatch = ''MRD-AUTH-013: CSRF state mismatch''"
| "auth_error_text db_text (Oidc s) = ''MRD-AUTH-003: OIDC error: '' @ s"
| "auth_error_text db_text InvalidToken = ''MRD-AUTH-014: invalid or unknown API token''"
| "auth_error_text db_text TokenExpired = ''MRD-AUTH-015: expired API token''"
| "auth_error_text db_text TokenHashConflict = ''MRD-AUTH-017: token hash already provisioned for another subject''"
| "auth_error_text db_text InvalidBearer = ''MRD-AUTH-019: invalid bearer token''"
| "auth_error_text db_text BearerExpired = ''MRD-AUTH-020: expired bearer token''"
| "auth_error_text db_text (Auth_Database e) = ''MRD-AUTH-016: database error: '' @ db_text e"
| "auth_error_text db_text (Auth_Internal s) = ''MRD-AUTH-018: internal error: '' @ s"

fun auth_error_status :: "auth_error \<Rightarrow> nat" where
  "auth_error_status NotAuthenticated = 401"
| "auth_error_status InvalidSession = 401"
| "auth_error_status InvalidToken = 401"
| "auth_error_status TokenExpired = 401"
| "auth_error_status InvalidCallback = 400"
| "auth_error_status CsrfMismatch = 400"
| "auth_error_status (Oidc _) = 502"
| "auth_error_status TokenHashConflict = 409"
| "auth_error_status InvalidBearer = 401"
| "auth_error_status BearerExpired = 401"
| "auth_error_status (Auth_Database _) = 500"
| "auth_error_status (Auth_Internal _) = 500"

text \<open>The response: status and body.\<close>

definition auth_error_response :: "(dberr \<Rightarrow> string) \<Rightarrow> auth_error \<Rightarrow> nat \<times> string" where
  "auth_error_response db_text e = (auth_error_status e, auth_error_text db_text e)"

section \<open>Principals\<close>

datatype principal_source =
    Session string
  | ApiToken int
  | Bearer string
  | Agent

record auth_principal =
  subject :: string
  email :: "string option"
  preferred_username :: "string option"
  source :: principal_source

text \<open>The manual \<open>Debug\<close> implementations, as the fields they print.\<close>

fun debug_source :: "principal_source \<Rightarrow> string \<times> (string \<times> string) list" where
  "debug_source (Session _) = (''Session'', [(''id_token'', ''[REDACTED]'')])"
| "debug_source (ApiToken i) = (''ApiToken'', [(''token_id'', if i < 0 then ''-'' @ show_nat (nat (- i)) else show_nat (nat i))])"
| "debug_source (Bearer _) = (''Bearer'', [(''jwt'', ''[REDACTED]'')])"
| "debug_source Agent = (''Agent'', [])"

definition debug_principal ::
    "auth_principal \<Rightarrow> string \<times> string option \<times> string option \<times> string \<times> (string \<times> string) list" where
  "debug_principal p = (subject p, email p, preferred_username p, debug_source (source p))"

section \<open>Tokens\<close>

record issued_token =
  it_id :: int
  it_token :: string

definition generate_token :: "(nat list \<Rightarrow> string) \<Rightarrow> nat list \<Rightarrow> string" where
  "generate_token b64 bytes = ''mrd_'' @ b64 bytes"

definition hash_token :: "(string \<Rightarrow> string \<Rightarrow> string option) \<Rightarrow> string \<Rightarrow> string \<Rightarrow> auth_error + string" where
  "hash_token hmac token pepper =
     (case hmac pepper token of
        None \<Rightarrow> Inl (Auth_Internal ''token hash construction failed'')
      | Some h \<Rightarrow> Inr h)"

definition find_token_by_hash :: "string \<Rightarrow> 'm tables \<Rightarrow> token_row option" where
  "find_token_by_hash h t = find (\<lambda>r. t_hash r = h) (tokens t)"

definition find_token_by_id :: "int \<Rightarrow> 'm tables \<Rightarrow> token_row option" where
  "find_token_by_id i t = find (\<lambda>r. t_id r = i) (tokens t)"

definition insert_token ::
    "string \<Rightarrow> string \<Rightarrow> string \<Rightarrow> int option \<Rightarrow> int \<Rightarrow> 'm tables \<Rightarrow> dberr + (token_row \<times> 'm tables)" where
  "insert_token subj name h expires now t =
     (if find_token_by_hash h t \<noteq> None then Inl (unique_err ''miryad_api_tokens.token_hash'')
      else let r = \<lparr>t_id = fresh_id (map t_id (tokens t)), t_subject = subj, t_name = name,
                    t_hash = h, t_created_at = now, t_expires_at = expires, t_last_used_at = None\<rparr>
           in Inr (r, t\<lparr>tokens := tokens t @ [r]\<rparr>))"

text \<open>\<open>ActiveModel::update\<close>: an \<open>UPDATE\<close> by key that matches no row is \<open>RecordNotUpdated\<close>.\<close>

definition update_last_used :: "int \<Rightarrow> int \<Rightarrow> 'm tables \<Rightarrow> dberr + (unit \<times> 'm tables)" where
  "update_last_used i now t =
     (if find_token_by_id i t = None then Inl RecordNotUpdated
      else Inr ((), t\<lparr>tokens :=
             map (\<lambda>r. if t_id r = i then r\<lparr>t_last_used_at := Some now\<rparr> else r) (tokens t)\<rparr>))"

definition delete_token :: "int \<Rightarrow> 'm tables \<Rightarrow> dberr + (unit \<times> 'm tables)" where
  "delete_token i t = Inr ((), t\<lparr>tokens := filter (\<lambda>r. t_id r \<noteq> i) (tokens t)\<rparr>)"

definition wf_tokens :: "'m tables \<Rightarrow> bool" where
  "wf_tokens t \<longleftrightarrow> distinct (map t_id (tokens t)) \<and> distinct (map t_hash (tokens t))"

definition issue_token ::
    "(string \<Rightarrow> string \<Rightarrow> string option) \<Rightarrow> (nat list \<Rightarrow> string) \<Rightarrow> nat list \<Rightarrow>
     string \<Rightarrow> string \<Rightarrow> int option \<Rightarrow> string \<Rightarrow> ('m tables world, auth_error, issued_token) act" where
  "issue_token hmac b64 bytes subj name expires pepper =
     (let token = generate_token b64 bytes in
      and_then (lift_result (hash_token hmac token pepper)) (\<lambda>h.
      and_then utc_now (\<lambda>now.
      and_then (map_err Auth_Database (statement (insert_token subj name h expires now))) (\<lambda>r.
        return_ok \<lparr>it_id = t_id r, it_token = token\<rparr>))))"

definition validate_token ::
    "(string \<Rightarrow> string \<Rightarrow> string option) \<Rightarrow> string \<Rightarrow> string \<Rightarrow>
     ('m tables world, auth_error, auth_principal) act" where
  "validate_token hmac token pepper =
     and_then (lift_result (hash_token hmac token pepper)) (\<lambda>h.
     and_then (map_err Auth_Database (select (find_token_by_hash h))) (\<lambda>found.
     case found of
       None \<Rightarrow> fail_with InvalidToken
     | Some record \<Rightarrow>
         and_then utc_now (\<lambda>now.
         if (case t_expires_at record of Some e \<Rightarrow> e \<le> now | None \<Rightarrow> False)
         then fail_with TokenExpired
         else
           and_then
             (on_error (statement (update_last_used (t_id record) now))
                (\<lambda>err. case err of
                   RecordNotUpdated \<Rightarrow> fail_with InvalidToken
                 | RecordNotFound _ \<Rightarrow> fail_with InvalidToken
                 | _ \<Rightarrow> return_ok ()))
             (\<lambda>_. return_ok
               \<lparr>subject = t_subject record, email = None, preferred_username = None,
                source = ApiToken (t_id record)\<rparr>))))"

definition revoke_token :: "int \<Rightarrow> ('m tables world, auth_error, unit) act" where
  "revoke_token i = map_err Auth_Database (statement (delete_token i))"

definition ensure_token ::
    "(string \<Rightarrow> string \<Rightarrow> string option) \<Rightarrow> string \<Rightarrow> string \<Rightarrow> string \<Rightarrow> int option \<Rightarrow> string \<Rightarrow>
     ('m tables world, auth_error, unit) act" where
  "ensure_token hmac subj name token expires pepper =
     and_then (lift_result (hash_token hmac token pepper)) (\<lambda>h.
     and_then (map_err Auth_Database (select (find_token_by_hash h))) (\<lambda>existing.
     case existing of
       Some r \<Rightarrow> if t_subject r \<noteq> subj then fail_with TokenHashConflict else return_ok ()
     | None \<Rightarrow>
         and_then utc_now (\<lambda>now.
         and_then (map_err Auth_Database (statement (insert_token subj name h expires now))) (\<lambda>_.
           return_ok ()))))"

section \<open>Service accounts\<close>

definition ensure_service_account ::
    "(string \<Rightarrow> string \<Rightarrow> string option) \<Rightarrow> string \<Rightarrow> string \<Rightarrow> string \<Rightarrow> string list \<Rightarrow>
     int option \<Rightarrow> string \<Rightarrow> ('m tables world, auth_error, unit) act" where
  "ensure_service_account hmac subj token token_name claim expires pepper =
     and_then (map_err Auth_Database (select (find_user subj))) (\<lambda>existing.
     and_then (map_err Auth_Database (resolve_user subj None)) (\<lambda>account.
     and_then (map_err Auth_Database (sync_group_memberships (u_id account) claim)) (\<lambda>_.
     ensure_token hmac subj token_name token expires pepper)))"

section \<open>Lemmas\<close>

lemma find_token_after_insert:
  "insert_token subj name h expires now t = Inr (r, t') \<Longrightarrow>
     find_token_by_hash h t = None \<and> find_token_by_hash h t' = Some r \<and>
     t_subject r = subj \<and> t_expires_at r = expires \<and> t_hash r = h"
  by (auto simp: insert_token_def find_token_by_hash_def find_append Let_def split: if_splits)

lemma wf_insert_token: "wf_tokens t \<Longrightarrow> insert_token s n h e now t = Inr (r, t') \<Longrightarrow> wf_tokens t'"
  using fresh_id_fresh [of "map t_id (tokens t)"]
  by (auto simp: wf_tokens_def insert_token_def find_token_by_hash_def find_None_iff Let_def
      split: if_splits)

lemma wf_update_last_used: "wf_tokens t \<Longrightarrow> update_last_used i now t = Inr (r, t') \<Longrightarrow> wf_tokens t'"
proof -
  have "map t_id (map (\<lambda>r. if t_id r = i then r\<lparr>t_last_used_at := Some now\<rparr> else r) rs) = map t_id rs"
    "map t_hash (map (\<lambda>r. if t_id r = i then r\<lparr>t_last_used_at := Some now\<rparr> else r) rs) = map t_hash rs"
    for rs :: "token_row list" by simp_all
  then show "wf_tokens t \<Longrightarrow> update_last_used i now t = Inr (r, t') \<Longrightarrow> wf_tokens t'"
    by (auto simp: wf_tokens_def update_last_used_def split: if_splits simp del: map_map)
qed

lemma wf_delete_token: "wf_tokens t \<Longrightarrow> delete_token i t = Inr (r, t') \<Longrightarrow> wf_tokens t'"
  by (auto simp: wf_tokens_def delete_token_def filter_distinct_map)

lemma keeps_insert_token [keeps]: "act_keeps wf_tokens (statement (insert_token s n h e now))"
  by (rule keeps_statement) (rule wf_insert_token)

lemma keeps_update_last_used [keeps]: "act_keeps wf_tokens (statement (update_last_used i now))"
  by (rule keeps_statement) (rule wf_update_last_used)

lemma keeps_delete_token [keeps]: "act_keeps wf_tokens (statement (delete_token i))"
  by (rule keeps_statement) (rule wf_delete_token)

lemma keeps_issue_token [keeps]: "act_keeps wf_tokens (issue_token hm b bs s n e p)"
  unfolding issue_token_def Let_def by (intro keeps)

lemma keeps_validate_token [keeps]: "act_keeps wf_tokens (validate_token hm tok p)"
  unfolding validate_token_def by (auto intro!: keeps split: option.splits dberr.splits)

lemma keeps_revoke_token [keeps]: "act_keeps wf_tokens (revoke_token i)"
  unfolding revoke_token_def by (intro keeps)

lemma keeps_ensure_token [keeps]: "act_keeps wf_tokens (ensure_token hm s n tok e p)"
  unfolding ensure_token_def by (auto intro!: keeps split: option.splits)

lemma insert_token_new:
  "find_token_by_hash h t = None \<Longrightarrow> \<exists>r t'. insert_token subj name h expires now t = Inr (r, t')"
  by (simp add: insert_token_def Let_def)

lemma find_token_by_hash_mem: "find_token_by_hash h t = Some r \<Longrightarrow> r \<in> set (tokens t) \<and> t_hash r = h"
  unfolding find_token_by_hash_def by (rule find_Some_mem)

lemma find_token_by_id_mem: "r \<in> set (tokens t) \<Longrightarrow> find_token_by_id (t_id r) t \<noteq> None"
  by (auto simp: find_token_by_id_def find_None_iff)

definition principal_of :: "token_row \<Rightarrow> auth_principal" where
  "principal_of r = \<lparr>subject = t_subject r, email = None, preferred_username = None,
                     source = ApiToken (t_id r)\<rparr>"

definition unexpired :: "int \<Rightarrow> token_row \<Rightarrow> bool" where
  "unexpired now r \<longleftrightarrow> (case t_expires_at r of Some e \<Rightarrow> now < e | None \<Rightarrow> True)"

lemma validate_token_quiet:
  assumes q: "quiet w" and h: "hmac pepper tok = Some h"
    and r: "find_token_by_hash h (tabs w) = Some r"
  shows "if unexpired (clock w) r
    then \<exists>t'. validate_token hmac tok pepper w = (Inr (principal_of r), set_tabs t' w) \<and>
           map t_id (tokens t') = map t_id (tokens (tabs w)) \<and>
           map t_hash (tokens t') = map t_hash (tokens (tabs w))
    else validate_token hmac tok pepper w = (Inl TokenExpired, w)"
proof (cases "unexpired (clock w) r")
  case True
  have "find_token_by_id (t_id r) (tabs w) \<noteq> None"
    using find_token_by_hash_mem [OF r] find_token_by_id_mem by blast
  then have upd: "statement (update_last_used (t_id r) (clock w)) w =
      (Inr (), set_tabs ((tabs w)\<lparr>tokens := map (\<lambda>x. if t_id x = t_id r
         then x\<lparr>t_last_used_at := Some (clock w)\<rparr> else x) (tokens (tabs w))\<rparr>) w)"
    using q by (intro statement_quiet_Inr) (auto simp: update_last_used_def)
  have "\<not> (case t_expires_at r of Some e \<Rightarrow> e \<le> clock w | None \<Rightarrow> False)"
    using True by (auto simp: unexpired_def split: option.splits)
  then have "validate_token hmac tok pepper w = (Inr (principal_of r), set_tabs ((tabs w)\<lparr>tokens :=
      map (\<lambda>x. if t_id x = t_id r then x\<lparr>t_last_used_at := Some (clock w)\<rparr> else x) (tokens (tabs w))\<rparr>) w)"
    using q h r upd
    by (simp add: validate_token_def hash_token_def act_simps utc_now_def and_then_def principal_of_def
        split: option.splits)
  with True show ?thesis by (auto simp: o_def)
next
  case False
  then have "case t_expires_at r of Some e \<Rightarrow> e \<le> clock w | None \<Rightarrow> False"
    by (auto simp: unexpired_def split: option.splits)
  with False q h r show ?thesis
    by (simp add: validate_token_def hash_token_def act_simps utc_now_def and_then_def
        split: option.splits)
qed

lemma validate_token_unknown:
  assumes "quiet w" "hmac pepper tok = Some h" "find_token_by_hash h (tabs w) = None"
  shows "validate_token hmac tok pepper w = (Inl InvalidToken, w)"
  using assms by (simp add: validate_token_def hash_token_def act_simps and_then_def)

lemma revoke_token_quiet:
  "quiet w \<Longrightarrow> revoke_token i w =
     (Inr (), set_tabs ((tabs w)\<lparr>tokens := filter (\<lambda>r. t_id r \<noteq> i) (tokens (tabs w))\<rparr>) w)"
  by (simp add: revoke_token_def act_simps delete_token_def)

section \<open>Properties\<close>

text \<open>
  The life of an API token: once issued, its plaintext authenticates its subject until it is
  revoked; after the revocation the same plaintext is an invalid token.
\<close>

theorem token_lifecycle:
  assumes q: "quiet w" and wf: "wf_tokens (tabs w)"
    and h: "hmac pepper (generate_token b64 bytes) = Some h"
    and new: "find_token_by_hash h (tabs w) = None"
    and exp: "\<forall>e. expires = Some e \<longrightarrow> clock w < e"
  shows "\<exists>it w1 w2 w3. issue_token hmac b64 bytes subj name expires pepper w = (Inr it, w1) \<and>
    validate_token hmac (it_token it) pepper w1 =
      (Inr \<lparr>subject = subj, email = None, preferred_username = None, source = ApiToken (it_id it)\<rparr>, w2) \<and>
    revoke_token (it_id it) w2 = (Inr (), w3) \<and>
    validate_token hmac (it_token it) pepper w3 = (Inl InvalidToken, w3)"
proof -
  obtain r t1 where ins: "insert_token subj name h expires (clock w) (tabs w) = Inr (r, t1)"
    using insert_token_new [OF new] by blast
  note fnd = find_token_after_insert [OF ins]
  let ?w1 = "set_tabs t1 w"
  have iss: "issue_token hmac b64 bytes subj name expires pepper w =
      (Inr \<lparr>it_id = t_id r, it_token = generate_token b64 bytes\<rparr>, ?w1)"
    using q h ins by (simp add: issue_token_def hash_token_def act_simps utc_now_def and_then_def)
  have "unexpired (clock ?w1) r" using exp fnd by (auto simp: unexpired_def split: option.splits)
  then obtain t2 where val: "validate_token hmac (generate_token b64 bytes) pepper ?w1 =
      (Inr (principal_of r), set_tabs t2 w)"
    and ids: "map t_id (tokens t2) = map t_id (tokens t1)" "map t_hash (tokens t2) = map t_hash (tokens t1)"
    using validate_token_quiet [of ?w1 hmac pepper "generate_token b64 bytes" h r] q h fnd by auto
  let ?t3 = "t2\<lparr>tokens := filter (\<lambda>x. t_id x \<noteq> t_id r) (tokens t2)\<rparr>"
  have rev: "revoke_token (t_id r) (set_tabs t2 w) = (Inr (), set_tabs ?t3 w)"
    using q by (simp add: revoke_token_quiet)
  have r1: "r \<in> set (tokens t1)" "t_hash r = h" using fnd find_token_by_hash_mem by blast+
  have wf1: "wf_tokens t1" using wf_insert_token [OF wf ins] .
  have wf2: "wf_tokens t2" using wf1 ids by (simp add: wf_tokens_def)
  have "t_id x = t_id r" if x: "x \<in> set (tokens t2)" "t_hash x = h" for x
  proof -
    obtain k where k: "k < length (tokens t2)" "tokens t2 ! k = x" using x by (auto simp: in_set_conv_nth)
    obtain l where l: "l < length (tokens t1)" "tokens t1 ! l = r" using r1 by (auto simp: in_set_conv_nth)
    have len: "length (tokens t2) = length (tokens t1)" using ids(1) by (metis length_map)
    have "map t_hash (tokens t1) ! k = map t_hash (tokens t1) ! l"
      using ids(2) k l len x r1 by (metis nth_map)
    then have "k = l"
      using wf1 k l len by (simp add: wf_tokens_def nth_eq_iff_index_eq del: nth_map)
    then show ?thesis using ids(1) k l len by (metis nth_map)
  qed
  then have gone: "find_token_by_hash h ?t3 = None"
    by (auto simp: find_token_by_hash_def find_None_iff)
  have "validate_token hmac (generate_token b64 bytes) pepper (set_tabs ?t3 w) = (Inl InvalidToken, set_tabs ?t3 w)"
    using validate_token_unknown [of "set_tabs ?t3 w" hmac pepper _ h] q h gone by simp
  with iss val rev fnd show ?thesis by (auto simp: principal_of_def)
qed

definition demo_hmac :: "string \<Rightarrow> string \<Rightarrow> string option" where
  "demo_hmac pepper token = Some (rev pepper @ token)"

definition demo_b64 :: "nat list \<Rightarrow> string" where
  "demo_b64 bytes = map (\<lambda>b. char_of (97 + b mod 26)) bytes"

theorem token_lifecycle_witness:
  "\<exists>it w1 w2 w3.
    issue_token demo_hmac demo_b64 [1, 2, 3] ''ana'' ''ci'' (Some 200) ''pepper'' (demo_world ([] :: unit list)) =
      (Inr it, w1) \<and>
    validate_token demo_hmac (it_token it) ''pepper'' w1 =
      (Inr \<lparr>subject = ''ana'', email = None, preferred_username = None, source = ApiToken (it_id it)\<rparr>, w2) \<and>
    revoke_token (it_id it) w2 = (Inr (), w3) \<and>
    validate_token demo_hmac (it_token it) ''pepper'' w3 = (Inl InvalidToken, w3)"
  by (rule token_lifecycle)
    (auto simp: demo_hmac_def demo_tables_def wf_tokens_def find_token_by_hash_def)

text \<open>
  Whatever the other sessions and the failures of the server, a token is only accepted when, at
  the moment it was read, a row with its hash was in the table and had not expired, and the
  principal is that row's subject.
\<close>

theorem validate_token_sound:
  assumes "validate_token hmac tok pepper w = (Inr p, w')"
  shows "\<exists>h r. hmac pepper tok = Some h \<and> r \<in> set (tokens (tabs (arrived w))) \<and> t_hash r = h \<and>
    unexpired (clock (arrived w)) r \<and> p = principal_of r"
proof -
  obtain h r where h: "hmac pepper tok = Some h"
    and r: "find_token_by_hash h (tabs (arrived w)) = Some r"
    and ne: "\<not> (case t_expires_at r of Some e \<Rightarrow> e \<le> clock (arrived w) | None \<Rightarrow> False)"
    and p: "p = principal_of r"
    using assms unfolding validate_token_def hash_token_def
    by (auto simp: act_inv utc_now_def select_Inr_iff principal_of_def
        split: option.splits if_splits dberr.splits)
  have "unexpired (clock (arrived w)) r" using ne by (auto simp: unexpired_def split: option.splits)
  with h r p show ?thesis using find_token_by_hash_mem [OF r] by blast
qed

theorem validate_token_sound_witness:
  "\<exists>r w'. validate_token demo_hmac ''k'' ''p''
      ((demo_world ([] :: unit list))\<lparr>tabs := (demo_tables [])\<lparr>tokens :=
         [\<lparr>t_id = 4, t_subject = ''bob'', t_name = ''n'', t_hash = ''pk'', t_created_at = 0,
           t_expires_at = None, t_last_used_at = None\<rparr>]\<rparr>\<rparr>) = (Inr (principal_of r), w') \<and>
    t_hash r = ''pk'' \<and> unexpired 100 r"
proof -
  let ?r = "\<lparr>t_id = 4, t_subject = ''bob'', t_name = ''n'', t_hash = ''pk'', t_created_at = 0,
           t_expires_at = None, t_last_used_at = None\<rparr>"
  let ?w = "(demo_world ([] :: unit list))\<lparr>tabs := (demo_tables [])\<lparr>tokens := [?r]\<rparr>\<rparr>"
  have q: "quiet ?w" by (simp add: quiet_def)
  have "\<exists>w'. validate_token demo_hmac ''k'' ''p'' ?w = (Inr (principal_of ?r), w')"
    using validate_token_quiet [OF q, of demo_hmac "''p''" "''k''" "''pk''" ?r]
    by (auto simp: demo_hmac_def find_token_by_hash_def unexpired_def)
  then obtain w' where v: "validate_token demo_hmac ''k'' ''p'' ?w = (Inr (principal_of ?r), w')" by blast
  obtain h r where "demo_hmac ''p'' ''k'' = Some h" "t_hash r = h" "unexpired (clock (arrived ?w)) r"
    "principal_of ?r = principal_of r"
    using validate_token_sound [OF v] by blast
  then show ?thesis using v q by (auto simp: demo_hmac_def)
qed

text \<open>
  The plaintext of an issued token is never stored: two tokens with the same hash leave the same
  database, so what is stored depends on the token through its hash only.
\<close>

theorem issue_token_stores_hash_only:
  assumes "hmac pepper (generate_token b64 bs1) = hmac pepper (generate_token b64 bs2)"
  shows "snd (issue_token hmac b64 bs1 subj name expires pepper w) =
         snd (issue_token hmac b64 bs2 subj name expires pepper w)"
  using assms
  by (simp add: issue_token_def hash_token_def act_eval utc_now_def split: option.splits prod.splits sum.splits)

theorem issue_token_stores_hash_only_witness:
  "snd (issue_token (\<lambda>p t. Some (take 1 t)) demo_b64 [1] ''ana'' ''n'' None ''p'' (demo_world ([] :: unit list))) =
   snd (issue_token (\<lambda>p t. Some (take 1 t)) demo_b64 [2] ''ana'' ''n'' None ''p'' (demo_world []))"
  by (rule issue_token_stores_hash_only) (simp add: generate_token_def)

lemma ensure_token_present:
  assumes "quiet w" "hmac pepper tok = Some h" "find_token_by_hash h (tabs w) = Some r"
  shows "ensure_token hmac subj name tok expires pepper w =
    (if t_subject r = subj then Inr () else Inl TokenHashConflict, w)"
  using assms by (simp add: ensure_token_def hash_token_def act_simps and_then_def)

lemma ensure_token_new:
  assumes "quiet w" "hmac pepper tok = Some h" "insert_token subj name h expires (clock w) (tabs w) = Inr (r, t')"
  shows "ensure_token hmac subj name tok expires pepper w = (Inr (), set_tabs t' w)"
proof -
  have "find_token_by_hash h (tabs w) = None" using find_token_after_insert [OF assms(3)] by blast
  with assms show ?thesis
    by (simp add: ensure_token_def hash_token_def act_simps and_then_def utc_now_def)
qed

text \<open>
  Provisioning a known secret: a hash held by another subject is refused without a write, one
  already held by the subject is left alone, and a new one is added next to the existing tokens,
  after which the same call does nothing.
\<close>

theorem ensure_token_provisions:
  assumes q: "quiet w" and h: "hmac pepper tok = Some h"
  shows "case find_token_by_hash h (tabs w) of
      Some r \<Rightarrow> ensure_token hmac subj name tok expires pepper w =
        (if t_subject r = subj then Inr () else Inl TokenHashConflict, w)
    | None \<Rightarrow> \<exists>t' r. ensure_token hmac subj name tok expires pepper w = (Inr (), set_tabs t' w) \<and>
        tokens t' = tokens (tabs w) @ [r] \<and> t_subject r = subj \<and> t_hash r = h \<and>
        ensure_token hmac subj name tok expires pepper (set_tabs t' w) = (Inr (), set_tabs t' w)"
proof (cases "find_token_by_hash h (tabs w)")
  case None
  then obtain r t' where ins: "insert_token subj name h expires (clock w) (tabs w) = Inr (r, t')"
    using insert_token_new by blast
  note fnd = find_token_after_insert [OF ins]
  have "tokens t' = tokens (tabs w) @ [r]" using ins by (auto simp: insert_token_def Let_def split: if_splits)
  moreover have "ensure_token hmac subj name tok expires pepper (set_tabs t' w) = (Inr (), set_tabs t' w)"
    using ensure_token_present [of "set_tabs t' w" hmac pepper tok h r] q h fnd by auto
  ultimately show ?thesis using None fnd ensure_token_new [of w hmac pepper tok h] q h ins by auto
next
  case (Some r)
  then show ?thesis using ensure_token_present [of w hmac pepper tok h r] q h by simp
qed

theorem ensure_token_provisions_witness:
  "\<exists>t' r. ensure_token demo_hmac ''ana'' ''deploy'' ''s3cret'' None ''p'' (demo_world ([] :: unit list)) =
      (Inr (), set_tabs t' (demo_world [])) \<and> tokens t' = [r] \<and> t_subject r = ''ana''"
  using ensure_token_provisions [of "demo_world ([] :: unit list)" demo_hmac "''p''" "''s3cret''" "''ps3cret''"
      "''ana''" "''deploy''" None]
  by (auto simp: demo_hmac_def find_token_by_hash_def demo_tables_def)

text \<open>
  Provisioning a service account is replayable: after a first success the account exists, is in
  exactly the non-blank groups and owns the secret; a second call succeeds and adds no user and no
  token.
\<close>

theorem ensure_service_account_replay:
  assumes q: "quiet w" "snap w = None" and wf: "wf_accounts (tabs w)"
    and h: "hmac pepper tok = Some h" and new: "find_token_by_hash h (tabs w) = None"
  shows "\<exists>w1 w2 u r. ensure_service_account hmac subj tok name claim expires pepper w = (Inr (), w1) \<and>
    find_user subj (tabs w1) = Some u \<and> find_token_by_hash h (tabs w1) = Some r \<and> t_subject r = subj \<and>
    member_names (u_id u) (tabs w1) = {n \<in> set claim. \<not> is_blank n} \<and>
    ensure_service_account hmac subj tok name claim expires pepper w1 = (Inr (), w2) \<and>
    users (tabs w2) = users (tabs w1) \<and> tokens (tabs w2) = tokens (tabs w1) \<and>
    member_names (u_id u) (tabs w2) = {n \<in> set claim. \<not> is_blank n}"
proof -
  obtain u ta where ra: "resolve_user subj None w = (Inr u, set_tabs ta w)"
    and fa: "find_user subj ta = Some u" and tka: "tokens ta = tokens (tabs w)"
    using resolve_user_quiet [OF q(1)] by blast
  let ?wa = "set_tabs ta w"
  have "inv_world wf_accounts w" using q wf by (simp add: inv_world_def env_keeps_def quiet_def)
  then have "inv_world wf_accounts ?wa" by (rule act_keepsD [OF keeps_resolve_user ra])
  then have wfa: "wf_accounts (tabs ?wa)" by (simp add: inv_world_def)
  have ua: "u_id u \<in> u_id ` set (users ta)"
    using fa by (auto simp: find_user_def dest!: find_Some_mem)
  obtain tb where sb: "sync_group_memberships (u_id u) claim ?wa = (Inr (), set_tabs tb w)"
    and wfb: "wf_accounts tb" and mb: "member_names (u_id u) tb = {n \<in> set claim. \<not> is_blank n}"
    and frb: "users tb = users ta" "tokens tb = tokens ta"
    using sync_quiet [of ?wa "u_id u" claim] q wfa ua by auto
  have "find_token_by_hash h tb = None" using new frb tka by (simp add: find_token_by_hash_def)
  then obtain r tc where ins: "insert_token subj name h expires (clock w) tb = Inr (r, tc)"
    using insert_token_new by blast
  note fc = find_token_after_insert [OF ins]
  have frc: "users tc = users tb" "groups tc = groups tb" "memberships tc = memberships tb"
    using ins by (auto simp: insert_token_def Let_def split: if_splits)
  let ?wc = "set_tabs tc w"
  have ec: "ensure_token hmac subj name tok expires pepper (set_tabs tb w) = (Inr (), ?wc)"
    using ensure_token_new [of "set_tabs tb w" hmac pepper tok h] q h ins by simp
  have run1: "ensure_service_account hmac subj tok name claim expires pepper w = (Inr (), ?wc)"
    using q ra sb ec by (simp add: ensure_service_account_def act_simps and_then_def map_err_def)
  have fuc: "find_user subj tc = Some u" using fa frb frc by (simp add: find_user_def)
  have rc: "resolve_user subj None ?wc = (Inr u, ?wc)"
    using user_goc.present_quiet [of ?wc subj u] q fuc by simp
  have wfc: "wf_accounts tc" using wfb frc by (simp add: wf_accounts_def)
  have uc: "u_id u \<in> u_id ` set (users tc)" using ua frb frc by simp
  obtain td where sd: "sync_group_memberships (u_id u) claim ?wc = (Inr (), set_tabs td w)"
    and md: "member_names (u_id u) td = {n \<in> set claim. \<not> is_blank n}"
    and frd: "users td = users tc" "tokens td = tokens tc"
    using sync_quiet [of ?wc "u_id u" claim] q wfc uc by auto
  have "find_token_by_hash h td = Some r" using fc frd by (simp add: find_token_by_hash_def)
  then have ed: "ensure_token hmac subj name tok expires pepper (set_tabs td w) = (Inr (), set_tabs td w)"
    using ensure_token_present [of "set_tabs td w" hmac pepper tok h r] q h fc by simp
  have run2: "ensure_service_account hmac subj tok name claim expires pepper ?wc = (Inr (), set_tabs td w)"
    using q rc sd ed by (simp add: ensure_service_account_def act_simps and_then_def map_err_def)
  have "member_names (u_id u) tc = member_names (u_id u) tb"
    using frc by (simp add: member_names_def membership_pairs_def)
  with run1 run2 fuc fc mb md frd show ?thesis by auto
qed

theorem ensure_service_account_replay_witness:
  "\<exists>w1 w2 u r. ensure_service_account demo_hmac ''system:ci'' ''s3cret'' ''deploy'' [''admin''] None ''p''
       (demo_world ([] :: unit list)) = (Inr (), w1) \<and>
    find_user ''system:ci'' (tabs w1) = Some u \<and> find_token_by_hash ''ps3cret'' (tabs w1) = Some r \<and>
    t_subject r = ''system:ci'' \<and>
    member_names (u_id u) (tabs w1) = {n \<in> set [''admin'']. \<not> is_blank n} \<and>
    ensure_service_account demo_hmac ''system:ci'' ''s3cret'' ''deploy'' [''admin''] None ''p'' w1 = (Inr (), w2) \<and>
    users (tabs w2) = users (tabs w1) \<and> tokens (tabs w2) = tokens (tabs w1) \<and>
    member_names (u_id u) (tabs w2) = {n \<in> set [''admin'']. \<not> is_blank n}"
  by (rule ensure_service_account_replay)
    (simp_all add: demo_hmac_def find_token_by_hash_def, simp add: demo_tables_def)

end
