(* ===== verification/Resource.thy ===== *)
theory Resource
  imports Auth_Tokens
begin

text \<open>
  The contract of a resource (\<open>src/src/resource.rs\<close>): policies, columns and hooks, as a record of
  what an \<open>impl MiryadResource\<close> provides; rows and active models of its table; pagination
  (\<open>query.rs\<close>) and the REST errors with their responses (\<open>rest/error.rs\<close>).
\<close>

section \<open>Rows\<close>

text \<open>\<open>sea_orm::Value\<close> of a column: integers, texts and the rest; None is SQL \<open>NULL\<close>.\<close>

datatype db_value = VInt "int option" | VText "string option" | VJson "json option"

type_synonym row = "string \<Rightarrow> db_value"

datatype active_value = Set db_value | Unchanged db_value | NotSet

type_synonym active_model = "string \<Rightarrow> active_value"

fun into_value :: "active_value \<Rightarrow> db_value option" where
  "into_value (Set v) = Some v"
| "into_value (Unchanged v) = Some v"
| "into_value NotSet = None"

section \<open>Hooks and policies\<close>

record hook_error =
  he_code :: "string option"
  he_message :: string

definition hook_error_new :: "string \<Rightarrow> hook_error" where
  "hook_error_new message = \<lparr>he_code = None, he_message = message\<rparr>"

definition hook_error_with_code :: "string \<Rightarrow> string \<Rightarrow> hook_error" where
  "hook_error_with_code code message = \<lparr>he_code = Some code, he_message = message\<rparr>"

datatype access_policy = Public | OwnerOnly | Group string | AdminOnly

text \<open>
  The methods of \<open>MiryadResource\<close> and the columns of the entity; \<open>column_default\<close> is the value the
  database gives to a column the statement does not set.
\<close>

record resource =
  resource_name :: string
  read_policy :: access_policy
  write_policy :: access_policy
  owner_column :: "string option"
  filter_column :: "string option"
  label_column :: "string option"
  columns :: "string list"
  primary_key :: string
  column_default :: "string \<Rightarrow> db_value"
  before_create :: "active_model \<Rightarrow> auth_principal \<Rightarrow> hook_error + active_model"
  before_update :: "active_model \<Rightarrow> row \<Rightarrow> auth_principal \<Rightarrow> hook_error + active_model"
  before_delete :: "row \<Rightarrow> auth_principal \<Rightarrow> hook_error + unit"

text \<open>The provided methods of the trait.\<close>

definition default_before_create :: "active_model \<Rightarrow> auth_principal \<Rightarrow> hook_error + active_model" where
  "default_before_create active p = Inr active"

definition default_before_update :: "active_model \<Rightarrow> row \<Rightarrow> auth_principal \<Rightarrow> hook_error + active_model" where
  "default_before_update active existing p = Inr active"

definition default_before_delete :: "row \<Rightarrow> auth_principal \<Rightarrow> hook_error + unit" where
  "default_before_delete existing p = Inr ()"

section \<open>Pagination\<close>

definition default_per_page :: u64 where "default_per_page = 100"
definition max_per_page :: u64 where "max_per_page = 1000"

text \<open>\<open>u64::MAX / MAX_PER_PAGE\<close>\<close>

definition max_page :: u64 where "max_page = (- 1) div max_per_page"

record pagination =
  page :: u64
  per_page :: u64

definition from_raw :: "u64 option \<Rightarrow> u64 option \<Rightarrow> pagination" where
  "from_raw p pp =
     \<lparr>page = clamp (case p of Some x \<Rightarrow> x | None \<Rightarrow> 1) 1 max_page,
      per_page = clamp (case pp of Some x \<Rightarrow> x | None \<Rightarrow> default_per_page) 1 max_per_page\<rparr>"

record 'm paged_result =
  items :: "'m list"
  pr_page :: u64
  pr_per_page :: u64
  total_items :: nat
  total_pages :: nat

section \<open>REST errors\<close>

datatype rest_error =
    NotFound
  | Forbidden
  | Rest_Database dberr
  | Application hook_error
  | Rest_Internal string
  | InvalidInput string
  | Conflict

text \<open>Body of a response: a text, or the JSON of an application error.\<close>

datatype rest_body = Text_Body string | Application_Body "string option" string

fun rest_error_response :: "rest_error \<Rightarrow> nat \<times> rest_body" where
  "rest_error_response NotFound = (404, Text_Body ''MRD-REST-001: resource not found'')"
| "rest_error_response Forbidden = (403, Text_Body ''MRD-REST-002: access denied'')"
| "rest_error_response (Rest_Database _) = (500, Text_Body ''MRD-REST-003: database error'')"
| "rest_error_response (Rest_Internal _) = (500, Text_Body ''MRD-REST-004: internal error'')"
| "rest_error_response (Application e) = (422, Application_Body (he_code e) (he_message e))"
| "rest_error_response (InvalidInput s) = (422, Text_Body (''MRD-REST-005: invalid input: '' @ s))"
| "rest_error_response Conflict = (409, Text_Body ''MRD-REST-006: conflict'')"

section \<open>Lemmas\<close>

lemma max_page_value: "unat max_page = (2 ^ 64 - 1) div 1000"
  by (simp add: max_page_def max_per_page_def unat_div unat_minus_one_word)

lemma from_raw_bounds:
  "1 \<le> page (from_raw p pp) \<and> page (from_raw p pp) \<le> max_page \<and>
   1 \<le> per_page (from_raw p pp) \<and> per_page (from_raw p pp) \<le> max_per_page"
proof -
  have "(1::u64) \<le> max_page" by (simp add: word_le_nat_alt max_page_value)
  moreover have "(1::u64) \<le> max_per_page" by (simp add: max_per_page_def word_le_nat_alt)
  ultimately show ?thesis
    using clamp_bounds [of 1 max_page] clamp_bounds [of 1 max_per_page]
    by (simp add: from_raw_def)
qed

section \<open>Properties\<close>

text \<open>
  Whatever page and size a client asks for, both are in range, and the offset of the page,
  \<open>(page - 1) * per_page\<close>, and its end are computed without wrapping around 64 bits.
\<close>

theorem pagination_offset_fits:
  "1 \<le> unat (page (from_raw p pp)) \<and> 1 \<le> unat (per_page (from_raw p pp)) \<and>
   unat (per_page (from_raw p pp)) \<le> 1000 \<and>
   unat ((page (from_raw p pp) - 1) * per_page (from_raw p pp)) =
     (unat (page (from_raw p pp)) - 1) * unat (per_page (from_raw p pp)) \<and>
   (unat (page (from_raw p pp)) - 1) * unat (per_page (from_raw p pp)) + unat (per_page (from_raw p pp)) < 2 ^ 64"
proof -
  let ?p = "page (from_raw p pp)" and ?n = "per_page (from_raw p pp)"
  have p1: "1 \<le> unat ?p" and p2: "unat ?p \<le> (2 ^ 64 - 1) div 1000"
    and n1: "1 \<le> unat ?n" and n2: "unat ?n \<le> 1000"
    using from_raw_bounds [of p pp]
    by (simp_all add: word_le_nat_alt max_page_value) (simp add: max_per_page_def)
  have sub: "unat (?p - 1) = unat ?p - 1"
    using p1 by (simp add: unat_sub word_le_nat_alt)
  have "unat ?p * unat ?n \<le> ((2 ^ 64 - 1) div 1000) * 1000"
    using p2 n2 by (rule mult_le_mono)
  then have le: "unat ?p * unat ?n < 2 ^ 64" by simp
  have fit: "(unat ?p - 1) * unat ?n + unat ?n = unat ?p * unat ?n"
    using p1 by (cases "unat ?p") simp_all
  then have "(unat ?p - 1) * unat ?n < 2 ^ 64" using le by linarith
  then have "unat ((?p - 1) * ?n) = (unat ?p - 1) * unat ?n"
    by (simp add: unat_word_ariths sub)
  with p1 n1 n2 fit le show ?thesis by simp
qed

end
