(* ===== verification/Rbac.thy ===== *)
theory Rbac
  imports Resource
begin

text \<open>
  Row-level access control (\<open>src/src/rbac.rs\<close>): the static verdict, the decision on a loaded record,
  creation and the restriction of a listing. \<open>may_access\<close> is the decision table the design promises,
  stated on the tables; the lemmas show that each function computes it, that no database failure is
  turned into a verdict, and that the branches without an owner column refuse.
\<close>

section \<open>Definitions\<close>

definition static_verdict ::
    "access_policy \<Rightarrow> user_row \<Rightarrow> ('m tables world, dberr, bool option) act" where
  "static_verdict policy user =
     (if policy = Public then return_ok (Some True)
      else and_then (is_admin (u_id user)) (\<lambda>admin.
        if admin then return_ok (Some True)
        else (case policy of
           Public \<Rightarrow> return_ok (Some True)
         | AdminOnly \<Rightarrow> return_ok (Some False)
         | Group name \<Rightarrow> and_then (is_member (u_id user) name) (\<lambda>b. return_ok (Some b))
         | OwnerOnly \<Rightarrow> return_ok None)))"

definition evaluate ::
    "access_policy \<Rightarrow> string option \<Rightarrow> user_row \<Rightarrow> row \<Rightarrow> ('m tables world, dberr, bool) act" where
  "evaluate policy owner_col user record =
     and_then (static_verdict policy user) (\<lambda>verdict. case verdict of
        Some v \<Rightarrow> return_ok v
      | None \<Rightarrow> (case owner_col of
            None \<Rightarrow> return_ok False
          | Some col \<Rightarrow> return_ok (record col = VInt (Some (u_id user)))))"

definition can_read :: "resource \<Rightarrow> user_row \<Rightarrow> row \<Rightarrow> ('m tables world, dberr, bool) act" where
  "can_read E user record = evaluate (read_policy E) (owner_column E) user record"

definition can_write :: "resource \<Rightarrow> user_row \<Rightarrow> row \<Rightarrow> ('m tables world, dberr, bool) act" where
  "can_write E user record = evaluate (write_policy E) (owner_column E) user record"

definition can_create :: "resource \<Rightarrow> user_row \<Rightarrow> ('m tables world, dberr, bool) act" where
  "can_create E user =
     (case write_policy E of
        Public \<Rightarrow> return_ok True
      | OwnerOnly \<Rightarrow> if owner_column E \<noteq> None then return_ok True else is_admin (u_id user)
      | AdminOnly \<Rightarrow> is_admin (u_id user)
      | Group name \<Rightarrow> and_then (is_admin (u_id user)) (\<lambda>admin.
          if admin then return_ok True else is_member (u_id user) name))"

text \<open>A query condition: every listed column equals the (non-null) value.\<close>

type_synonym condition = "(string \<times> db_value) list"

definition holds :: "condition \<Rightarrow> row \<Rightarrow> bool" where
  "holds c r \<longleftrightarrow> (\<forall>(col, v) \<in> set c. r col = v)"

datatype listing_access = Unrestricted | FilterByOwner condition | List_Forbidden

definition list_access :: "resource \<Rightarrow> user_row \<Rightarrow> ('m tables world, dberr, listing_access) act" where
  "list_access E user =
     (if read_policy E = Public then return_ok Unrestricted
      else and_then (is_admin (u_id user)) (\<lambda>admin.
        if admin then return_ok Unrestricted
        else (case read_policy E of
           Public \<Rightarrow> return_ok Unrestricted
         | AdminOnly \<Rightarrow> return_ok List_Forbidden
         | Group name \<Rightarrow> and_then (is_member (u_id user) name) (\<lambda>b.
             if b then return_ok Unrestricted else return_ok List_Forbidden)
         | OwnerOnly \<Rightarrow> (case owner_column E of
             Some col \<Rightarrow> return_ok (FilterByOwner [(col, VInt (Some (u_id user)))])
           | None \<Rightarrow> return_ok List_Forbidden))))"

section \<open>The decision table\<close>

definition admin :: "user_row \<Rightarrow> 'm tables \<Rightarrow> bool" where
  "admin user t = in_group (u_id user) admin_group_name t"

definition verdict_of :: "access_policy \<Rightarrow> user_row \<Rightarrow> 'm tables \<Rightarrow> bool option" where
  "verdict_of policy user t =
     (if policy = Public \<or> admin user t then Some True
      else case policy of
        AdminOnly \<Rightarrow> Some False
      | Group name \<Rightarrow> Some (in_group (u_id user) name t)
      | _ \<Rightarrow> None)"

definition may_access ::
    "access_policy \<Rightarrow> string option \<Rightarrow> user_row \<Rightarrow> row \<Rightarrow> 'm tables \<Rightarrow> bool" where
  "may_access policy owner_col user r t \<longleftrightarrow>
     policy = Public \<or> admin user t \<or>
     (\<exists>name. policy = Group name \<and> in_group (u_id user) name t) \<or>
     (policy = OwnerOnly \<and> (\<exists>col. owner_col = Some col \<and> r col = VInt (Some (u_id user))))"

lemma verdict_agrees: "verdict_of policy user t = Some b \<Longrightarrow> may_access policy oc user r t = b"
  by (auto simp: verdict_of_def may_access_def split: if_splits access_policy.splits)

lemma verdict_None: "verdict_of policy user t = None \<longleftrightarrow> policy = OwnerOnly \<and> \<not> admin user t"
  by (auto simp: verdict_of_def split: access_policy.splits)

lemma static_verdict_quiet [act_simps]:
  "quiet w \<Longrightarrow> static_verdict policy user w = (Inr (verdict_of policy user (tabs w)), w)"
  by (auto simp: static_verdict_def verdict_of_def act_simps and_then_def admin_def
      split: access_policy.splits)

lemma evaluate_quiet [act_simps]:
  "quiet w \<Longrightarrow> evaluate policy oc user r w = (Inr (may_access policy oc user r (tabs w)), w)"
  using verdict_agrees [of policy user "tabs w" _ oc r]
  by (auto simp: evaluate_def act_simps and_then_def verdict_None may_access_def
      split: option.splits)

lemma can_create_quiet [act_simps]:
  "quiet w \<Longrightarrow> can_create E user w =
     (Inr (case write_policy E of
             Public \<Rightarrow> True
           | OwnerOnly \<Rightarrow> owner_column E \<noteq> None \<or> admin user (tabs w)
           | AdminOnly \<Rightarrow> admin user (tabs w)
           | Group name \<Rightarrow> admin user (tabs w) \<or> in_group (u_id user) name (tabs w)), w)"
  by (auto simp: can_create_def act_simps and_then_def admin_def split: access_policy.splits)

definition list_access_of :: "resource \<Rightarrow> user_row \<Rightarrow> 'm tables \<Rightarrow> listing_access" where
  "list_access_of E user t =
     (case verdict_of (read_policy E) user t of
        Some True \<Rightarrow> Unrestricted
      | Some False \<Rightarrow> List_Forbidden
      | None \<Rightarrow> (case owner_column E of
            Some col \<Rightarrow> FilterByOwner [(col, VInt (Some (u_id user)))]
          | None \<Rightarrow> List_Forbidden))"

lemma list_access_quiet [act_simps]:
  "quiet w \<Longrightarrow> list_access E user w = (Inr (list_access_of E user (tabs w)), w)"
  by (auto simp: list_access_def list_access_of_def verdict_of_def act_simps and_then_def admin_def
      split: access_policy.splits option.splits bool.splits)

lemma keeps_static_verdict [keeps]: "act_keeps P (static_verdict p u)"
  unfolding static_verdict_def by (auto intro!: keeps split: access_policy.splits)

lemma keeps_evaluate [keeps]: "act_keeps P (evaluate p oc u r)"
  unfolding evaluate_def by (auto intro!: keeps split: option.splits)

text \<open>Which rows a listing may show.\<close>

fun listed :: "listing_access \<Rightarrow> row \<Rightarrow> bool" where
  "listed Unrestricted r = True"
| "listed (FilterByOwner c) r = holds c r"
| "listed List_Forbidden r = False"

lemma listed_iff:
  "listed (list_access_of E user t) r \<longleftrightarrow> may_access (read_policy E) (owner_column E) user r t"
  by (auto simp: list_access_of_def verdict_of_def may_access_def holds_def
      split: option.splits bool.splits access_policy.splits if_splits)

section \<open>Properties\<close>

text \<open>
  Reading, writing and listing follow one decision table: \<open>can_read\<close> and \<open>can_write\<close> compute
  \<open>may_access\<close> of their policy, and a listing shows exactly the records \<open>can_read\<close> accepts.
\<close>

theorem access_decision_table:
  assumes "quiet w"
  shows "can_read E user r w = (Inr (may_access (read_policy E) (owner_column E) user r (tabs w)), w) \<and>
    can_write E user r w = (Inr (may_access (write_policy E) (owner_column E) user r (tabs w)), w) \<and>
    (\<exists>la. list_access E user w = (Inr la, w) \<and>
       (\<forall>r. listed la r \<longleftrightarrow> may_access (read_policy E) (owner_column E) user r (tabs w)))"
  using assms by (auto simp: can_read_def can_write_def act_simps listed_iff)

definition demo_resource :: resource where
  "demo_resource =
     \<lparr>resource_name = ''recipes'', read_policy = OwnerOnly, write_policy = OwnerOnly,
      owner_column = Some ''owner_id'', filter_column = Some ''title'', label_column = Some ''title'',
      columns = [''id'', ''title'', ''owner_id''], primary_key = ''id'',
      column_default = (\<lambda>_. VText None),
      before_create = default_before_create, before_update = default_before_update,
      before_delete = default_before_delete\<rparr>"

definition demo_row :: "int \<Rightarrow> int \<Rightarrow> row" where
  "demo_row i owner = (\<lambda>_. VText None)(''id'' := VInt (Some i), ''owner_id'' := VInt (Some owner))"

definition demo_user :: "int \<Rightarrow> user_row" where
  "demo_user i = \<lparr>u_id = i, u_subject = (if i = 1 then ''ana'' else ''bob''), u_email = None,
                  u_display_name = None, u_created_at = 0\<rparr>"

abbreviation empty_db :: "row tables world" where
  "empty_db \<equiv> demo_world []"

lemma demo_resource_simps [simp]:
  "resource_name demo_resource = ''recipes''" "read_policy demo_resource = OwnerOnly"
  "write_policy demo_resource = OwnerOnly" "owner_column demo_resource = Some ''owner_id''"
  "columns demo_resource = [''id'', ''title'', ''owner_id'']" "primary_key demo_resource = ''id''"
  "column_default demo_resource = (\<lambda>_. VText None)"
  "before_create demo_resource = default_before_create"
  "before_update demo_resource = default_before_update"
  "before_delete demo_resource = default_before_delete"
  by (simp_all add: demo_resource_def)

lemma demo_user_id [simp]: "u_id (demo_user i) = i"
  by (simp add: demo_user_def)

lemma demo_row_simps [simp]:
  "demo_row i owner ''id'' = VInt (Some i)" "demo_row i owner ''owner_id'' = VInt (Some owner)"
  by (simp_all add: demo_row_def)

lemma demo_bob_not_admin: "\<not> admin (demo_user 2) (demo_tables rs)"
  by (simp add: admin_def in_group_def find_group_def find_membership_def demo_tables_def
      admin_group_name_def demo_user_def)

theorem access_decision_table_witness:
  "can_read demo_resource (demo_user 2) (demo_row 7 2) (empty_db) = (Inr True, empty_db) \<and>
   can_write demo_resource (demo_user 2) (demo_row 7 1) (empty_db) = (Inr False, empty_db)"
  using access_decision_table [of "empty_db" demo_resource "demo_user 2" "demo_row 7 2"]
    access_decision_table [of "empty_db" demo_resource "demo_user 2" "demo_row 7 1"]
  by (simp add: may_access_def demo_bob_not_admin)

text \<open>
  \<open>OwnerOnly\<close> without an owner column is fail-closed everywhere: for a user who is not an
  administrator, reading, writing and creating are refused and a listing is forbidden.
\<close>

theorem owner_only_without_column_refuses:
  assumes "quiet w" "\<not> admin user (tabs w)" "owner_column E = None"
    and "read_policy E = OwnerOnly" "write_policy E = OwnerOnly"
  shows "can_read E user r w = (Inr False, w) \<and> can_write E user r w = (Inr False, w) \<and>
    can_create E user w = (Inr False, w) \<and> list_access E user w = (Inr List_Forbidden, w)"
  using assms
  by (simp add: can_read_def can_write_def act_simps may_access_def list_access_of_def verdict_of_def)

theorem owner_only_without_column_refuses_witness:
  "can_read (demo_resource\<lparr>owner_column := None\<rparr>) (demo_user 2) (demo_row 7 2) (empty_db) =
    (Inr False, empty_db)"
  using owner_only_without_column_refuses
    [of "empty_db" "demo_user 2" "demo_resource\<lparr>owner_column := None\<rparr>" "demo_row 7 2"]
  by (simp add: demo_bob_not_admin)

text \<open>
  Adatabase failure is never degraded into a refusal: when the first statement of a decision
  that needs the database fails, every decision function returns that very error.
\<close>

theorem access_failure_propagates:
  assumes "fst (arrive w) = Some e" "\<not> aborted (arrived w)"
    and "read_policy E \<noteq> Public" "write_policy E \<noteq> Public"
    and "write_policy E = OwnerOnly \<Longrightarrow> owner_column E = None"
  shows "fst (can_read E user r w) = Inl e \<and> fst (can_write E user r w) = Inl e \<and>
    fst (can_create E user w) = Inl e \<and> fst (list_access E user w) = Inl e"
proof -
  obtain w' where "is_admin (u_id user) w = (Inl e, w')"
    using is_member_fault [OF assms(1,2)] by (auto simp: is_admin_def)
  then show ?thesis
    using assms(3-5)
    by (cases "write_policy E")
      (auto simp: can_read_def can_write_def can_create_def list_access_def evaluate_def
        static_verdict_def act_simps and_then_Inl)
qed

theorem access_failure_propagates_witness:
  "fst (can_read (demo_resource\<lparr>write_policy := AdminOnly\<rparr>) (demo_user 1) (demo_row 7 2)
     ((empty_db)\<lparr>env := [\<lparr>others = (\<lambda>t. t), advance = 0, fails = Some (ExecErr ''down'')\<rparr>]\<rparr>)) =
   Inl (ExecErr ''down'')"
  using access_failure_propagates
    [of "(empty_db)\<lparr>env := [\<lparr>others = (\<lambda>t. t), advance = 0, fails = Some (ExecErr ''down'')\<rparr>]\<rparr>"
        "ExecErr ''down''" "demo_resource\<lparr>write_policy := AdminOnly\<rparr>" "demo_user 1" "demo_row 7 2"]
  by (simp add: arrive_def arrived_def)

end
