(* ===== verification/Rest_Core.thy ===== *)
theory Rest_Core
  imports Rbac
begin

text \<open>
  The generic CRUD of a resource (\<open>src/src/rest/core.rs\<close>, \<open>rest/mod.rs\<close>): the statements SeaORM
  runs on the rows of the table, pagination, the five operations behind the routes, and the
  declarations the router refuses to mount. The guard that loads a record under a policy is the
  locale \<open>guarded_load\<close>, interpreted for reading and for writing.
\<close>

section \<open>Statements on the rows of a resource\<close>

definition primary_key_column :: "resource \<Rightarrow> string" where
  "primary_key_column E = primary_key E"

text \<open>\<open>Model::into_active_model\<close>: every field of the model, unchanged.\<close>

definition into_active_model :: "row \<Rightarrow> active_model" where
  "into_active_model body = (\<lambda>col. Unchanged (body col))"

definition mark_all_set :: "resource \<Rightarrow> active_model \<Rightarrow> active_model" where
  "mark_all_set E active = (\<lambda>col. if col \<in> set (columns E)
     then (case into_value (active col) of Some v \<Rightarrow> Set v | None \<Rightarrow> active col)
     else active col)"

definition find_row :: "resource \<Rightarrow> int \<Rightarrow> row tables \<Rightarrow> row option" where
  "find_row E i t = find (\<lambda>r. r (primary_key E) = VInt (Some i)) (rows t)"

fun row_int :: "db_value \<Rightarrow> int" where
  "row_int (VInt (Some i)) = i"
| "row_int _ = 0"

definition row_id :: "resource \<Rightarrow> row \<Rightarrow> int" where
  "row_id E r = row_int (r (primary_key E))"

text \<open>
  \<open>INSERT\<close> of the set and unchanged columns: a key that is not set is generated, other columns
  that are not set take the default of the table.
\<close>

definition inserted_row :: "resource \<Rightarrow> active_model \<Rightarrow> row tables \<Rightarrow> row" where
  "inserted_row E active t = (\<lambda>col. case into_value (active col) of
       Some v \<Rightarrow> v
     | None \<Rightarrow> if col = primary_key E then VInt (Some (fresh_id (map (row_id E) (rows t))))
              else column_default E col)"

definition insert_row :: "resource \<Rightarrow> active_model \<Rightarrow> row tables \<Rightarrow> dberr + (row \<times> row tables)" where
  "insert_row E active t =
     (let r = inserted_row E active t in
      if \<exists>r'\<in>set (rows t). r' (primary_key E) = r (primary_key E)
      then Inl (unique_err (primary_key E))
      else Inr (r, t\<lparr>rows := rows t @ [r]\<rparr>))"

text \<open>\<open>UPDATE ... WHERE key = value\<close>: the columns that are \<open>Set\<close>, the key excepted.\<close>

definition updated_row :: "resource \<Rightarrow> active_model \<Rightarrow> row \<Rightarrow> row" where
  "updated_row E active r = (\<lambda>col. if col = primary_key E \<or> col \<notin> set (columns E) then r col
     else (case active col of Set v \<Rightarrow> v | _ \<Rightarrow> r col))"

definition update_row :: "resource \<Rightarrow> active_model \<Rightarrow> row tables \<Rightarrow> dberr + (row \<times> row tables)" where
  "update_row E active t =
     (case into_value (active (primary_key E)) of
        None \<Rightarrow> Inl (ExecErr ''primary key is not set'')
      | Some k \<Rightarrow>
          (case find (\<lambda>r. r (primary_key E) = k) (rows t) of
             None \<Rightarrow> Inl RecordNotUpdated
           | Some r \<Rightarrow> Inr (updated_row E active r,
               t\<lparr>rows := map (\<lambda>r. if r (primary_key E) = k then updated_row E active r else r) (rows t)\<rparr>)))"

text \<open>\<open>DELETE ... WHERE key = id\<close>, with the number of rows affected.\<close>

definition delete_row :: "resource \<Rightarrow> int \<Rightarrow> row tables \<Rightarrow> dberr + (nat \<times> row tables)" where
  "delete_row E i t =
     (let hit = (\<lambda>r. r (primary_key E) = VInt (Some i)) in
      Inr (length (filter hit (rows t)), t\<lparr>rows := filter (\<lambda>r. \<not> hit r) (rows t)\<rparr>))"

text \<open>The rows of a condition in ascending order of the key.\<close>

definition select_rows :: "resource \<Rightarrow> condition \<Rightarrow> row tables \<Rightarrow> row list" where
  "select_rows E c t = sort_key (row_id E) (filter (holds c) (rows t))"

section \<open>Pages\<close>

text \<open>\<open>Paginator::num_items_and_pages\<close>, then \<open>fetch_page(page - 1)\<close>: two statements.\<close>

definition pages_number :: "nat \<Rightarrow> nat \<Rightarrow> nat" where
  "pages_number n sz = n div sz + (if 0 < n mod sz then 1 else 0)"

definition fetch_page :: "nat \<Rightarrow> nat \<Rightarrow> 'r list \<Rightarrow> 'r list" where
  "fetch_page sz k xs = take sz (drop (sz * k) xs)"

definition paginate ::
    "('t \<Rightarrow> 'r list) \<Rightarrow> pagination \<Rightarrow> ('t world, dberr, 'r paged_result) act" where
  "paginate query pg =
     and_then (select (\<lambda>t. length (query t))) (\<lambda>n.
     and_then (select (\<lambda>t. fetch_page (unat (per_page pg)) (unat (sat_sub (page pg) 1)) (query t)))
       (\<lambda>its. return_ok \<lparr>items = its, pr_page = page pg, pr_per_page = per_page pg, total_items = n,
                         total_pages = pages_number n (unat (per_page pg))\<rparr>))"

section \<open>The operations\<close>

definition resolve_principal ::
    "auth_principal \<Rightarrow> ('m tables world, rest_error, user_row) act" where
  "resolve_principal p = map_err Rest_Database (resolve_user (subject p) (email p))"

text \<open>
  The guard of \<open>get\<close>, \<open>update\<close> and \<open>delete\<close>, written out three times in the source: the static
  verdict first, so that a refusal does not depend on the row; then the row; then, only when the
  verdict depends on it, the row-level test.
\<close>

definition load_authorized ::
    "access_policy \<Rightarrow> (user_row \<Rightarrow> row \<Rightarrow> (row tables world, dberr, bool) act) \<Rightarrow> resource \<Rightarrow>
     user_row \<Rightarrow> int \<Rightarrow> (row tables world, rest_error, row) act" where
  "load_authorized policy can E user i =
     and_then (map_err Rest_Database (static_verdict policy user)) (\<lambda>verdict.
       if verdict = Some False then fail_with Forbidden
       else and_then (map_err Rest_Database (select (find_row E i))) (\<lambda>found. case found of
          None \<Rightarrow> fail_with NotFound
        | Some record \<Rightarrow>
            if verdict = None
            then and_then (map_err Rest_Database (can user record)) (\<lambda>ok.
                   if ok then return_ok record else fail_with Forbidden)
            else return_ok record))"

definition rest_list ::
    "resource \<Rightarrow> auth_principal \<Rightarrow> u64 option \<Rightarrow> u64 option \<Rightarrow> string option \<Rightarrow>
     (row tables world, rest_error, row paged_result) act" where
  "rest_list E p pg ppg filter_value =
     and_then (resolve_principal p) (\<lambda>user.
     and_then (map_err Rest_Database (list_access E user)) (\<lambda>access.
       case (case access of
               Unrestricted \<Rightarrow> Some []
             | FilterByOwner condition \<Rightarrow> Some condition
             | List_Forbidden \<Rightarrow> None) of
         None \<Rightarrow> fail_with Forbidden
       | Some condition \<Rightarrow>
           (let condition = (case (filter_column E, filter_value) of
                 (Some col, Some value) \<Rightarrow> condition @ [(col, VText (Some value))]
               | _ \<Rightarrow> condition)
            in map_err Rest_Database (paginate (select_rows E condition) (from_raw pg ppg)))))"

definition rest_get ::
    "resource \<Rightarrow> auth_principal \<Rightarrow> int \<Rightarrow> (row tables world, rest_error, row) act" where
  "rest_get E p i =
     and_then (resolve_principal p) (\<lambda>user. load_authorized (read_policy E) (can_read E) E user i)"

definition rest_create ::
    "resource \<Rightarrow> auth_principal \<Rightarrow> row \<Rightarrow> (row tables world, rest_error, row) act" where
  "rest_create E p body =
     and_then (resolve_principal p) (\<lambda>user.
     and_then (map_err Rest_Database (can_create E user)) (\<lambda>allowed.
       if \<not> allowed then fail_with Forbidden
       else and_then
         (map_err Application (lift_result (before_create E (mark_all_set E (into_active_model body)) p)))
         (\<lambda>active.
           let active = active(primary_key_column E := NotSet);
               active = (case owner_column E of
                   Some owner_col \<Rightarrow> active(owner_col := Set (VInt (Some (u_id user))))
                 | None \<Rightarrow> active)
           in map_err Rest_Database (statement (insert_row E active)))))"

fun update_error :: "dberr \<Rightarrow> rest_error" where
  "update_error RecordNotUpdated = NotFound"
| "update_error (RecordNotFound _) = NotFound"
| "update_error e = Rest_Database e"

definition rest_update ::
    "resource \<Rightarrow> auth_principal \<Rightarrow> int \<Rightarrow> row \<Rightarrow> (row tables world, rest_error, row) act" where
  "rest_update E p i body =
     and_then (resolve_principal p) (\<lambda>user.
     and_then (load_authorized (write_policy E) (can_write E) E user i) (\<lambda>existing.
     and_then
       (map_err Application
         (lift_result (before_update E (mark_all_set E (into_active_model body)) existing p)))
       (\<lambda>active.
         let active = active(primary_key_column E := Set (VInt (Some i)));
             active = (case owner_column E of
                 Some owner_col \<Rightarrow> active(owner_col := Set (existing owner_col))
               | None \<Rightarrow> active)
         in map_err update_error (statement (update_row E active)))))"

definition rest_delete ::
    "resource \<Rightarrow> auth_principal \<Rightarrow> int \<Rightarrow> (row tables world, rest_error, unit) act" where
  "rest_delete E p i =
     and_then (resolve_principal p) (\<lambda>user.
     and_then (load_authorized (write_policy E) (can_write E) E user i) (\<lambda>existing.
     and_then (map_err Application (lift_result (before_delete E existing p))) (\<lambda>_.
     and_then (map_err Rest_Database (statement (delete_row E i))) (\<lambda>affected.
       if affected = 0 then fail_with NotFound else return_ok ()))))"

section \<open>Mounting\<close>

datatype column_type = Column_Integer | Column_String | Column_Text | Column_Other

datatype mount_panic = Owner_Only_Without_Column | Filter_Column_Not_Text | Owner_Column_Not_Integer

text \<open>\<open>resource_router\<close>: the three assertions, in order, then the two paths it mounts.\<close>

definition resource_router ::
    "(string \<Rightarrow> column_type) \<Rightarrow> resource \<Rightarrow> mount_panic + (string \<times> string)" where
  "resource_router type_of E =
     (if (read_policy E = OwnerOnly \<or> write_policy E = OwnerOnly) \<and> owner_column E = None
      then Inl Owner_Only_Without_Column
      else if (case filter_column E of
                 Some col \<Rightarrow> type_of col \<noteq> Column_String \<and> type_of col \<noteq> Column_Text
               | None \<Rightarrow> False)
      then Inl Filter_Column_Not_Text
      else if (case owner_column E of Some col \<Rightarrow> type_of col \<noteq> Column_Integer | None \<Rightarrow> False)
      then Inl Owner_Column_Not_Integer
      else Inr (''/api/v1/'' @ resource_name E, ''/api/v1/'' @ resource_name E @ ''/{id}''))"


section \<open>Pages of a listing\<close>

definition page_of :: "pagination \<Rightarrow> 'r list \<Rightarrow> 'r paged_result" where
  "page_of pg xs =
     \<lparr>items = fetch_page (unat (per_page pg)) (unat (page pg) - 1) xs, pr_page = page pg,
      pr_per_page = per_page pg, total_items = length xs,
      total_pages = pages_number (length xs) (unat (per_page pg))\<rparr>"

lemma paginate_quiet [act_simps]:
  "quiet w \<Longrightarrow> paginate query pg w = (Inr (page_of pg (query (tabs w))), w)"
  by (simp add: paginate_def and_then_def act_simps page_of_def unat_sat_sub)

lemma pages_number_Suc: "0 < sz \<Longrightarrow> sz \<le> n \<Longrightarrow> pages_number n sz = Suc (pages_number (n - sz) sz)"
  by (simp add: pages_number_def le_div_geq le_mod_geq)

lemma pages_number_small: "0 < n \<Longrightarrow> n < sz \<Longrightarrow> pages_number n sz = 1"
  by (simp add: pages_number_def)

lemma pages_number_0 [simp]: "pages_number 0 sz = 0"
  by (simp add: pages_number_def)

lemma pages_number_le: "0 < sz \<Longrightarrow> pages_number n sz \<le> n"
proof (induction n rule: less_induct)
  case (less n)
  show ?case
  proof (cases "sz \<le> n")
    case True
    then have "pages_number (n - sz) sz \<le> n - sz" using less by simp
    then show ?thesis using True less.prems by (simp add: pages_number_Suc)
  next
    case False
    then show ?thesis by (cases "n = 0") (simp_all add: pages_number_small)
  qed
qed

lemma fetch_page_Suc: "fetch_page sz (Suc k) xs = fetch_page sz k (drop sz xs)"
  by (simp add: fetch_page_def algebra_simps)

lemma pages_cover_list:
  "0 < sz \<Longrightarrow> concat (map (\<lambda>k. fetch_page sz k xs) [0..<pages_number (length xs) sz]) = xs"
proof (induction "length xs" arbitrary: xs rule: less_induct)
  case less
  show ?case
  proof (cases "xs = []")
    case False
    let ?n = "pages_number (length (drop sz xs)) sz"
    have "length (drop sz xs) < length xs" using False less.prems by simp
    then have ih: "concat (map (\<lambda>k. fetch_page sz k (drop sz xs)) [0..<?n]) = drop sz xs"
      using less by blast
    have "pages_number (length xs) sz = Suc ?n"
      using False less.prems
      by (cases "sz \<le> length xs") (simp_all add: pages_number_Suc pages_number_small)
    then have "concat (map (\<lambda>k. fetch_page sz k xs) [0..<pages_number (length xs) sz]) =
        fetch_page sz 0 xs @ concat (map (\<lambda>k. fetch_page sz (Suc k) xs) [0..<?n])"
      by (simp only: upt_conv_Cons zero_less_Suc map_Suc_upt [symmetric]) (simp add: comp_def)
    also have "\<dots> = take sz xs @ drop sz xs"
      by (simp only: fetch_page_Suc ih) (simp add: fetch_page_def)
    finally show ?thesis by simp
  qed simp
qed

lemma length_fetch_page: "length (fetch_page sz k xs) \<le> sz"
  by (simp add: fetch_page_def)

text \<open>Asking for page \<open>k\<close> of at most \<open>2 ^ 32\<close> rows with a size the crate accepts is not clamped.\<close>

lemma from_raw_exact:
  assumes "1 \<le> k" "k \<le> 2 ^ 32" "1 \<le> n" "n \<le> 1000"
  shows "unat (page (from_raw (Some (of_nat k)) (Some (of_nat n)))) = k"
    and "unat (per_page (from_raw pg (Some (of_nat n)))) = n"
proof -
  have k: "unat (of_nat k :: u64) = k" and n: "unat (of_nat n :: u64) = n"
    using assms by (simp_all add: unsigned_of_nat take_bit_nat_eq_self)
  have "clamp (of_nat k :: u64) 1 max_page = of_nat k"
    using assms k by (intro clamp_id) (simp_all add: word_le_nat_alt max_page_value)
  moreover have "clamp (of_nat n :: u64) 1 max_per_page = of_nat n"
    using assms n by (intro clamp_id) (simp_all add: word_le_nat_alt max_per_page_def)
  ultimately show "unat (page (from_raw (Some (of_nat k)) (Some (of_nat n)))) = k"
    and "unat (per_page (from_raw pg (Some (of_nat n)))) = n"
    using k n by (simp_all add: from_raw_def)
qed

text \<open>
  What every paged listing of the crate promises: in the states \<open>ok\<close> the operation returns the
  requested page of \<open>content\<close>.
\<close>

locale paged_listing =
  fixes op :: "u64 option \<Rightarrow> u64 option \<Rightarrow> ('w, 'e, 'r paged_result) act"
    and content :: "'w \<Rightarrow> 'r list"
    and ok :: "'w \<Rightarrow> bool"
  assumes op_page: "ok w \<Longrightarrow> \<exists>w'. op pg ppg w = (Inr (page_of (from_raw pg ppg) (content w)), w')"
begin

definition nth_page :: "nat \<Rightarrow> nat \<Rightarrow> 'w \<Rightarrow> 'r list" where
  "nth_page n k w = (case op (Some (of_nat k)) (Some (of_nat n)) w of
     (Inr r, _) \<Rightarrow> items r | (Inl _, _) \<Rightarrow> [])"

lemma page_bounded: "ok w \<Longrightarrow> op pg ppg w = (Inr r, w') \<Longrightarrow> length (items r) \<le> 1000"
  using op_page [of w pg ppg] from_raw_bounds [of pg ppg]
  by (auto simp: page_of_def word_le_nat_alt max_per_page_def intro: order_trans [OF length_fetch_page])

lemma page_subset: "ok w \<Longrightarrow> op pg ppg w = (Inr r, w') \<Longrightarrow> set (items r) \<subseteq> set (content w)"
  using op_page [of w pg ppg]
  by (auto simp: page_of_def fetch_page_def dest!: in_set_takeD in_set_dropD)

lemma nth_page_eq:
  assumes "ok w" "k < 2 ^ 32" "1 \<le> n" "n \<le> 1000"
  shows "nth_page n (Suc k) w = fetch_page n k (content w)"
proof -
  have b: "1 \<le> Suc k" "Suc k \<le> 2 ^ 32" using assms by simp_all
  obtain w' where "op (Some (of_nat (Suc k))) (Some (of_nat n)) w =
      (Inr (page_of (from_raw (Some (of_nat (Suc k))) (Some (of_nat n))) (content w)), w')"
    using op_page [OF assms(1)] by blast
  then show ?thesis
    unfolding nth_page_def page_of_def using from_raw_exact [OF b assms(3,4)] by simp
qed

lemma pages_cover:
  assumes "ok w" "length (content w) \<le> 2 ^ 32" "1 \<le> n" "n \<le> 1000"
  shows "concat (map (\<lambda>k. nth_page n (Suc k) w) [0..<pages_number (length (content w)) n]) = content w"
proof -
  have "map (\<lambda>k. nth_page n (Suc k) w) [0..<pages_number (length (content w)) n] =
        map (\<lambda>k. fetch_page n k (content w)) [0..<pages_number (length (content w)) n]"
    using assms pages_number_le [of n "length (content w)"] by (auto intro!: nth_page_eq)
  then show ?thesis by (simp only: pages_cover_list [of n "content w"] assms(3) Suc_le_lessD [OF assms(3) [unfolded One_nat_def]])
qed

end


section \<open>The caller\<close>

lemma resolve_principal_quiet:
  assumes "quiet w" "resolve_principal p w = (r, w1)"
  shows "\<exists>u. r = Inr u \<and> quiet w1 \<and> snap w1 = snap w \<and> dialect w1 = dialect w \<and> clock w1 = clock w \<and>
    rows (tabs w1) = rows (tabs w) \<and> tokens (tabs w1) = tokens (tabs w) \<and>
    groups (tabs w1) = groups (tabs w) \<and> memberships (tabs w1) = memberships (tabs w) \<and>
    find_user (subject p) (tabs w1) = Some u"
  using resolve_user_quiet [OF assms(1), of "subject p" "email p"] assms
  by (auto simp: resolve_principal_def map_err_def)

lemma keeps_insert_user_rows:
  "insert_user s em now t = Inr (u, t') \<Longrightarrow> rows t' = rows t"
  by (auto simp: insert_user_def split: if_splits)

section \<open>The guarded load\<close>

definition guard_outcome ::
    "access_policy \<Rightarrow> resource \<Rightarrow> user_row \<Rightarrow> int \<Rightarrow> row tables \<Rightarrow> rest_error + row" where
  "guard_outcome policy E user i t =
     (if verdict_of policy user t = Some False then Inl Forbidden
      else case find_row E i t of
             None \<Rightarrow> Inl NotFound
           | Some r \<Rightarrow> if may_access policy (owner_column E) user r t then Inr r else Inl Forbidden)"

locale guarded_load =
  fixes policy :: access_policy
    and can :: "user_row \<Rightarrow> row \<Rightarrow> (row tables world, dberr, bool) act"
    and E :: resource
  assumes can_quiet:
      "quiet w \<Longrightarrow> can user r w = (Inr (may_access policy (owner_column E) user r (tabs w)), w)"
    and can_keeps: "act_keeps P (can user r)"
begin

lemma load_quiet:
  assumes "quiet w"
  shows "load_authorized policy can E user i w = (guard_outcome policy E user i (tabs w), w)"
  using assms verdict_agrees [of policy user "tabs w" True "owner_column E"]
  by (cases "verdict_of policy user (tabs w)")
    (auto simp: load_authorized_def guard_outcome_def act_eval static_verdict_quiet select_quiet
      can_quiet split: option.splits)

lemma load_keeps: "act_keeps P (load_authorized policy can E user i)"
  unfolding load_authorized_def by (auto intro!: keeps can_keeps split: option.splits)

end

interpretation reading: guarded_load "read_policy E" "can_read E" E for E
  by unfold_locales (simp_all add: can_read_def act_simps keeps)

interpretation writing: guarded_load "write_policy E" "can_write E" E for E
  by unfold_locales (simp_all add: can_write_def act_simps keeps)

lemma guard_outcome_Inr:
  "guard_outcome policy E user i t = Inr r \<longleftrightarrow>
     find_row E i t = Some r \<and> may_access policy (owner_column E) user r t"
  using verdict_agrees [of policy user t False "owner_column E" r]
  by (auto simp: guard_outcome_def split: option.splits if_splits)

lemma guard_outcome_static:
  assumes "policy \<noteq> OwnerOnly" "\<not> may_access policy oc user r t"
  shows "guard_outcome policy E user i t = Inl Forbidden"
proof -
  obtain b where "verdict_of policy user t = Some b"
    using assms(1) verdict_None by (metis option.exhaust)
  moreover have "b = False"
    using verdict_agrees [OF calculation] assms(2) by auto
  ultimately show ?thesis by (simp add: guard_outcome_def)
qed

section \<open>The operations under a quiet environment\<close>

lemma rest_get_quiet:
  assumes "quiet w" "resolve_principal p w = (Inr u, w1)"
  shows "rest_get E p i w = (guard_outcome (read_policy E) E u i (tabs w1), w1)"
  using assms resolve_principal_quiet [OF assms]
  by (simp add: rest_get_def and_then_Inr reading.load_quiet)

definition create_allowed :: "resource \<Rightarrow> user_row \<Rightarrow> 'm tables \<Rightarrow> bool" where
  "create_allowed E u t =
     (case write_policy E of
        Public \<Rightarrow> True
      | OwnerOnly \<Rightarrow> owner_column E \<noteq> None \<or> admin u t
      | AdminOnly \<Rightarrow> admin u t
      | Group name \<Rightarrow> admin u t \<or> in_group (u_id u) name t)"

definition stamp_new :: "resource \<Rightarrow> user_row \<Rightarrow> active_model \<Rightarrow> active_model" where
  "stamp_new E u active =
     (case owner_column E of
        Some oc \<Rightarrow> (active(primary_key E := NotSet))(oc := Set (VInt (Some (u_id u))))
      | None \<Rightarrow> active(primary_key E := NotSet))"

definition stamp_existing :: "resource \<Rightarrow> int \<Rightarrow> row \<Rightarrow> active_model \<Rightarrow> active_model" where
  "stamp_existing E i existing active =
     (case owner_column E of
        Some oc \<Rightarrow> (active(primary_key E := Set (VInt (Some i))))(oc := Set (existing oc))
      | None \<Rightarrow> active(primary_key E := Set (VInt (Some i))))"

lemma rest_create_eq:
  "rest_create E p body =
     and_then (resolve_principal p) (\<lambda>user.
     and_then (map_err Rest_Database (can_create E user)) (\<lambda>allowed.
       if \<not> allowed then fail_with Forbidden
       else and_then
         (map_err Application (lift_result (before_create E (mark_all_set E (into_active_model body)) p)))
         (\<lambda>active. map_err Rest_Database (statement (insert_row E (stamp_new E user active))))))"
  by (simp add: rest_create_def stamp_new_def primary_key_column_def Let_def cong: if_cong option.case_cong)

lemma rest_update_eq:
  "rest_update E p i body =
     and_then (resolve_principal p) (\<lambda>user.
     and_then (load_authorized (write_policy E) (can_write E) E user i) (\<lambda>existing.
     and_then
       (map_err Application
         (lift_result (before_update E (mark_all_set E (into_active_model body)) existing p)))
       (\<lambda>active. map_err update_error (statement (update_row E (stamp_existing E i existing active))))))"
  by (simp add: rest_update_def stamp_existing_def primary_key_column_def Let_def)

text \<open>Keys of a table: every row has an integer key, and no two rows have the same.\<close>

definition wf_rows :: "resource \<Rightarrow> row tables \<Rightarrow> bool" where
  "wf_rows E t \<longleftrightarrow> (\<forall>r\<in>set (rows t). \<exists>k. r (primary_key E) = VInt (Some k)) \<and>
     distinct (map (\<lambda>r. r (primary_key E)) (rows t))"

lemma wf_row_id: "wf_rows E t \<Longrightarrow> r \<in> set (rows t) \<Longrightarrow> r (primary_key E) = VInt (Some (row_id E r))"
  by (auto simp: wf_rows_def row_id_def dest!: bspec)

lemma find_row_Some:
  "find_row E i t = Some r \<Longrightarrow> r \<in> set (rows t) \<and> r (primary_key E) = VInt (Some i)"
  by (auto simp: find_row_def dest: find_Some_mem)

lemma find_row_None: "find_row E i t = None \<longleftrightarrow> (\<forall>r\<in>set (rows t). r (primary_key E) \<noteq> VInt (Some i))"
  by (auto simp: find_row_def find_None_iff)

lemma insert_row_fresh:
  assumes wf: "wf_rows E t" and k: "into_value (active (primary_key E)) = None"
  shows "insert_row E active t =
    Inr (inserted_row E active t, t\<lparr>rows := rows t @ [inserted_row E active t]\<rparr>)"
proof -
  have "inserted_row E active t (primary_key E) = VInt (Some (fresh_id (map (row_id E) (rows t))))"
    using k by (simp add: inserted_row_def)
  moreover have "fresh_id (map (row_id E) (rows t)) \<notin> row_id E ` set (rows t)"
    using fresh_id_fresh [of "map (row_id E) (rows t)"] by simp
  ultimately have "\<not> (\<exists>r'\<in>set (rows t). r' (primary_key E) = inserted_row E active t (primary_key E))"
    using wf_row_id [OF wf] by (metis db_value.inject(1) imageI option.inject)
  then show ?thesis by (simp add: insert_row_def Let_def)
qed

lemma wf_insert_row:
  assumes wf: "wf_rows E t" and k: "into_value (active (primary_key E)) \<in> {None, Some (VInt (Some k))}"
    and ins: "insert_row E active t = Inr (r, t')"
  shows "wf_rows E t'"
proof -
  have r: "r (primary_key E) \<notin> (\<lambda>r. r (primary_key E)) ` set (rows t)"
    and t': "t' = t\<lparr>rows := rows t @ [r]\<rparr>" and eq: "r = inserted_row E active t"
    using ins by (auto simp: insert_row_def Let_def split: if_splits)
  have "\<exists>k. r (primary_key E) = VInt (Some k)"
    using k by (auto simp: eq inserted_row_def)
  with wf r show ?thesis by (auto simp: t' wf_rows_def)
qed

lemma updated_row_key [simp]: "updated_row E active r (primary_key E) = r (primary_key E)"
  by (simp add: updated_row_def)

lemma wf_update_row: "wf_rows E t \<Longrightarrow> update_row E active t = Inr (r, t') \<Longrightarrow> wf_rows E t'"
  by (auto simp: update_row_def wf_rows_def comp_def if_distrib [of "\<lambda>f. f (primary_key E)"]
      split: option.splits cong: if_cong)

lemma wf_delete_row: "wf_rows E t \<Longrightarrow> delete_row E i t = Inr (n, t') \<Longrightarrow> wf_rows E t'"
  by (auto simp: delete_row_def Let_def wf_rows_def intro: filter_distinct_map)


text \<open>What the last statement of each operation does to the rows.\<close>

lemma update_row_stamped:
  assumes f: "find_row E i t = Some old" and other: "owner_column E \<noteq> Some (primary_key E)"
    and dist: "distinct (map (\<lambda>r. r (primary_key E)) (rows t))"
  shows "\<exists>r. update_row E (stamp_existing E i old active) t = Inr (r,
      t\<lparr>rows := map (\<lambda>x. if x (primary_key E) = VInt (Some i) then r else x) (rows t)\<rparr>) \<and>
    r (primary_key E) = VInt (Some i) \<and> (\<forall>oc. owner_column E = Some oc \<longrightarrow> r oc = old oc)"
proof -
  let ?a = "stamp_existing E i old active" and ?r = "updated_row E (stamp_existing E i old active) old"
  have key: "into_value (?a (primary_key E)) = Some (VInt (Some i))"
    using other by (auto simp: stamp_existing_def split: option.split)
  have old: "old \<in> set (rows t)" "old (primary_key E) = VInt (Some i)"
    using find_row_Some [OF f] by simp_all
  have same: "x = old" if "x \<in> set (rows t)" "x (primary_key E) = VInt (Some i)" for x
    using dist old that by (metis (mono_tags, lifting) distinct_map inj_onD)
  have "map (\<lambda>x. if x (primary_key E) = VInt (Some i) then updated_row E ?a x else x) (rows t) =
        map (\<lambda>x. if x (primary_key E) = VInt (Some i) then ?r else x) (rows t)"
    using same by auto
  then have "update_row E ?a t = Inr (?r,
      t\<lparr>rows := map (\<lambda>x. if x (primary_key E) = VInt (Some i) then ?r else x) (rows t)\<rparr>)"
    using key f by (simp add: update_row_def find_row_def)
  moreover have "?r (primary_key E) = VInt (Some i)" using old by simp
  moreover have "\<forall>oc. owner_column E = Some oc \<longrightarrow> ?r oc = old oc"
    by (auto simp: updated_row_def stamp_existing_def)
  ultimately show ?thesis by blast
qed

lemma rest_update_ok:
  assumes "quiet w" "resolve_principal p w = (Inr u, w1)" "wf_rows E (tabs w)"
    and "owner_column E \<noteq> Some (primary_key E)"
    and guard: "guard_outcome (write_policy E) E u i (tabs w1) = Inr old"
    and hook: "before_update E (mark_all_set E (into_active_model body)) old p = Inr active"
  shows "\<exists>r. rest_update E p i body w = (Inr r, set_tabs ((tabs w1)\<lparr>rows :=
      map (\<lambda>x. if x (primary_key E) = VInt (Some i) then r else x) (rows (tabs w))\<rparr>) w1) \<and>
    r (primary_key E) = VInt (Some i) \<and> (\<forall>oc. owner_column E = Some oc \<longrightarrow> r oc = old oc)"
proof -
  have rows1: "rows (tabs w1) = rows (tabs w)" and q1: "quiet w1"
    using resolve_principal_quiet [OF assms(1,2)] by auto
  have f: "find_row E i (tabs w1) = Some old" using guard by (simp add: guard_outcome_Inr)
  have dist: "distinct (map (\<lambda>r. r (primary_key E)) (rows (tabs w1)))"
    using assms(3) rows1 by (simp add: wf_rows_def)
  obtain r where r: "update_row E (stamp_existing E i old active) (tabs w1) = Inr (r,
      (tabs w1)\<lparr>rows := map (\<lambda>x. if x (primary_key E) = VInt (Some i) then r else x) (rows (tabs w1))\<rparr>)"
    "r (primary_key E) = VInt (Some i)" "\<forall>oc. owner_column E = Some oc \<longrightarrow> r oc = old oc"
    using update_row_stamped [OF f assms(4) dist, of active] by blast
  show ?thesis
    using guard hook r rows1
      statement_quiet_Inr [of w1 "update_row E (stamp_existing E i old active)", OF q1 r(1)]
    by (simp add: rest_update_eq assms(2) and_then_Inr writing.load_quiet [OF q1]
        map_err_def lift_result_def and_then_def)
qed

lemma stamp_new_key: "into_value (stamp_new E u a (primary_key E)) \<in> {None, Some (VInt (Some (u_id u)))}"
  by (auto simp: stamp_new_def split: option.split)

lemma stamp_new_owner:
  "owner_column E = Some oc \<Longrightarrow> inserted_row E (stamp_new E u a) t oc = VInt (Some (u_id u))"
  by (simp add: inserted_row_def stamp_new_def)

lemma rest_create_ok:
  assumes "quiet w" "resolve_principal p w = (Inr u, w1)" "wf_rows E (tabs w)"
    and "owner_column E \<noteq> Some (primary_key E)" and allowed: "create_allowed E u (tabs w1)"
    and hook: "before_create E (mark_all_set E (into_active_model body)) p = Inr active"
  shows "\<exists>w2. rest_create E p body w = (Inr (inserted_row E (stamp_new E u active) (tabs w1)), w2) \<and>
    rows (tabs w2) = rows (tabs w) @ [inserted_row E (stamp_new E u active) (tabs w1)] \<and>
    (\<forall>x\<in>set (rows (tabs w)). x (primary_key E) \<noteq>
       inserted_row E (stamp_new E u active) (tabs w1) (primary_key E))"
proof -
  let ?a = "stamp_new E u active" and ?t = "tabs w1"
  let ?r = "inserted_row E ?a ?t"
  note R = resolve_principal_quiet [OF assms(1,2)]
  have q1: "quiet w1" and rows1: "rows (tabs w1) = rows (tabs w)" using R by auto
  have can: "can_create E u w1 = (Inr True, w1)"
    using allowed by (simp add: can_create_quiet [OF q1] create_allowed_def)
  have wf1: "wf_rows E ?t" using assms(3) rows1 by (simp add: wf_rows_def)
  have key: "into_value (?a (primary_key E)) = None"
    using assms(4) by (auto simp: stamp_new_def split: option.split)
  have ins: "insert_row E ?a ?t = Inr (?r, ?t\<lparr>rows := rows ?t @ [?r]\<rparr>)"
    by (rule insert_row_fresh [of E ?t ?a, OF wf1 key])
  then have fresh: "\<forall>x\<in>set (rows ?t). x (primary_key E) \<noteq> ?r (primary_key E)"
    by (auto simp: insert_row_def Let_def split: if_splits)
  have "statement (insert_row E ?a) w1 = (Inr ?r, set_tabs (?t\<lparr>rows := rows ?t @ [?r]\<rparr>) w1)"
    by (rule statement_quiet_Inr [of w1 "insert_row E ?a", OF q1 ins])
  then have "rest_create E p body w = (Inr ?r, set_tabs (?t\<lparr>rows := rows ?t @ [?r]\<rparr>) w1)"
    using can hook
    by (simp add: rest_create_eq assms(2) and_then_Inr map_err_def lift_result_def and_then_def)
  with fresh rows1 show ?thesis by simp
qed

section \<open>Properties\<close>

text \<open>
  C1: a caller whose refusal does not depend on the row (every policy but \<open>OwnerOnly\<close>) gets 403 for
  every id, whether or not a row exists there: reading, updating and deleting are no oracle of
  existence, and the attempt changes no row.
\<close>

theorem refusal_hides_rows:
  assumes "quiet w" "resolve_principal p w = (Inr u, w1)"
    and "read_policy E \<noteq> OwnerOnly" "\<not> may_access (read_policy E) (owner_column E) u r (tabs w1)"
    and "write_policy E \<noteq> OwnerOnly" "\<not> may_access (write_policy E) (owner_column E) u r (tabs w1)"
  shows "rest_get E p i w = (Inl Forbidden, w1) \<and> rest_update E p i body w = (Inl Forbidden, w1) \<and>
    rest_delete E p i w = (Inl Forbidden, w1) \<and> rows (tabs w1) = rows (tabs w)"
  using resolve_principal_quiet [OF assms(1,2)]
  by (simp add: rest_get_quiet [OF assms(1,2)] rest_update_def rest_delete_def assms(2) and_then_Inr
      and_then_Inl writing.load_quiet guard_outcome_static [OF assms(3,4)]
      guard_outcome_static [OF assms(5,6)])

definition bob :: auth_principal where
  "bob = \<lparr>subject = ''bob'', email = None, preferred_username = None, source = ApiToken 1\<rparr>"

definition demo_store :: "row tables world" where
  "demo_store = demo_world [demo_row 7 2, demo_row 8 1]"

lemma demo_store_quiet [simp]: "quiet demo_store" by (simp add: demo_store_def)

lemma demo_bob: "resolve_principal bob demo_store = (Inr (demo_user 2), demo_store)"
  by (simp add: resolve_principal_def demo_store_def map_err_def user_goc.present_quiet
      bob_def find_user_def demo_tables_def demo_user_def)

lemma demo_store_tabs [simp]: "tabs demo_store = demo_tables [demo_row 7 2, demo_row 8 1]"
  by (simp add: demo_store_def)

theorem refusal_hides_rows_witness:
  "fst (rest_get (demo_resource\<lparr>read_policy := AdminOnly, write_policy := AdminOnly\<rparr>) bob 7 demo_store) =
     Inl Forbidden \<and>
   fst (rest_get (demo_resource\<lparr>read_policy := AdminOnly, write_policy := AdminOnly\<rparr>) bob 99 demo_store) =
     Inl Forbidden"
  using refusal_hides_rows
      [of demo_store bob "demo_user 2" demo_store "demo_resource\<lparr>read_policy := AdminOnly, write_policy := AdminOnly\<rparr>"
        "demo_row 7 2" 7 "demo_row 7 2"]
    refusal_hides_rows
      [of demo_store bob "demo_user 2" demo_store "demo_resource\<lparr>read_policy := AdminOnly, write_policy := AdminOnly\<rparr>"
        "demo_row 7 2" 99 "demo_row 7 2"]
  by (simp add: demo_bob may_access_def demo_bob_not_admin)

text \<open>
  Reading one record: 404 exactly when the id is absent and the caller is not refused for every
  row, the record exactly when the policy grants it, 403 otherwise.
\<close>

theorem rest_get_outcome:
  assumes "quiet w" "resolve_principal p w = (Inr u, w1)"
  shows "\<exists>res. rest_get E p i w = (res, w1) \<and>
    (\<forall>r. res = Inr r \<longleftrightarrow> find_row E i (tabs w) = Some r \<and>
       may_access (read_policy E) (owner_column E) u r (tabs w1)) \<and>
    (res = Inl NotFound \<longleftrightarrow> find_row E i (tabs w) = None \<and>
       (read_policy E = OwnerOnly \<or> (\<exists>r. may_access (read_policy E) (owner_column E) u r (tabs w1)))) \<and>
    (\<forall>e. res = Inl e \<longrightarrow> e = NotFound \<or> e = Forbidden)"
proof -
  have same: "find_row E i (tabs w1) = find_row E i (tabs w)"
    using resolve_principal_quiet [OF assms] by (simp add: find_row_def)
  have nf: "guard_outcome (read_policy E) E u i (tabs w1) = Inl NotFound \<longleftrightarrow> find_row E i (tabs w) = None \<and>
       (read_policy E = OwnerOnly \<or> (\<exists>r. may_access (read_policy E) (owner_column E) u r (tabs w1)))"
    using verdict_agrees [of "read_policy E" u "tabs w1" _ "owner_column E"]
      verdict_None [of "read_policy E" u "tabs w1"]
    by (cases "verdict_of (read_policy E) u (tabs w1)")
      (auto simp: guard_outcome_def same may_access_def split: option.splits if_splits)
  have err: "guard_outcome (read_policy E) E u i (tabs w1) = Inl e \<Longrightarrow> e = NotFound \<or> e = Forbidden" for e
    by (auto simp: guard_outcome_def split: option.splits if_splits)
  show ?thesis
    using nf err guard_outcome_Inr [of "read_policy E" E u i "tabs w1"]
    by (simp add: rest_get_quiet [OF assms] same)
qed

theorem rest_get_outcome_witness:
  "rest_get demo_resource bob 7 demo_store = (Inr (demo_row 7 2), demo_store)"
proof -
  have "find_row demo_resource 7 (tabs demo_store) = Some (demo_row 7 2)"
    by (simp add: find_row_def demo_tables_def)
  moreover have "may_access OwnerOnly (Some ''owner_id'') (demo_user 2) (demo_row 7 2) (tabs demo_store)"
    by (simp add: may_access_def)
  ultimately show ?thesis
    using rest_get_outcome [OF demo_store_quiet demo_bob, of demo_resource 7] by auto
qed

text \<open>
  C22: a successful update is authorized, keeps the key and the owner of the record whatever the body
  and the hook say, and touches no other row; a failed one changes no row.
\<close>

theorem rest_update_frame:
  assumes "quiet w" "snap w = None" "resolve_principal p w = (Inr u, w1)" "wf_rows E (tabs w)"
    and "owner_column E \<noteq> Some (primary_key E)"
    and run: "rest_update E p i body w = (res, w2)"
  shows "case res of
      Inl e \<Rightarrow> rows (tabs w2) = rows (tabs w)
    | Inr r \<Rightarrow> \<exists>old. find_row E i (tabs w) = Some old \<and>
        may_access (write_policy E) (owner_column E) u old (tabs w1) \<and>
        r (primary_key E) = VInt (Some i) \<and> (\<forall>oc. owner_column E = Some oc \<longrightarrow> r oc = old oc) \<and>
        rows (tabs w2) = map (\<lambda>x. if x (primary_key E) = VInt (Some i) then r else x) (rows (tabs w))"
proof -
  note R = resolve_principal_quiet [OF assms(1,3)]
  have rows1: "rows (tabs w1) = rows (tabs w)" and q1: "quiet w1" using R by auto
  show ?thesis
  proof (cases "guard_outcome (write_policy E) E u i (tabs w1)")
    case (Inl e)
    then have "res = Inl e \<and> w2 = w1"
      using run q1 by (simp add: rest_update_eq assms(3) and_then_Inr and_then_Inl writing.load_quiet)
    with rows1 show ?thesis by simp
  next
    case (Inr old)
    then have f: "find_row E i (tabs w1) = Some old"
      and ok: "may_access (write_policy E) (owner_column E) u old (tabs w1)"
      by (simp_all add: guard_outcome_Inr)
    have f0: "find_row E i (tabs w) = Some old" using f rows1 by (simp add: find_row_def)
    let ?hook = "before_update E (mark_all_set E (into_active_model body)) old p"
    show ?thesis
    proof (cases ?hook)
      case (Inl h)
      with run rows1 q1 Inr show ?thesis
        by (auto simp: rest_update_eq assms(3) and_then_Inr and_then_Inl writing.load_quiet
            map_err_def lift_result_def and_then_def)
    next
      case hook: (Inr active)
      show ?thesis
        using rest_update_ok [OF assms(1,3,4,5) Inr hook] run f0 ok by auto
    qed
  qed
qed


theorem rest_update_frame_witness:
  "\<exists>r w2. rest_update demo_resource bob 7 (demo_row 99 1) demo_store = (Inr r, w2) \<and>
    r ''id'' = VInt (Some 7) \<and> r ''owner_id'' = VInt (Some 2)"
proof -
  have wf: "wf_rows demo_resource (tabs demo_store)"
    by (simp add: wf_rows_def demo_tables_def)
  have found: "find_row demo_resource 7 (tabs demo_store) = Some (demo_row 7 2)"
    by (simp add: find_row_def demo_tables_def)
  then have guard: "guard_outcome (write_policy demo_resource) demo_resource (demo_user 2) 7 (tabs demo_store) =
      Inr (demo_row 7 2)"
    by (simp only: guard_outcome_Inr) (simp add: may_access_def)
  have hook: "before_update demo_resource a (demo_row 7 2) bob = Inr a" for a
    by (simp add: default_before_update_def)
  obtain r w2 where run: "rest_update demo_resource bob 7 (demo_row 99 1) demo_store = (Inr r, w2)"
    using rest_update_ok [OF demo_store_quiet demo_bob wf _ guard hook, of "demo_row 99 1"] by auto
  show ?thesis
    using rest_update_frame [OF demo_store_quiet _ demo_bob wf _ run] run found
    by (auto simp: demo_store_def)
qed




text \<open>
  Deleting: without authorization, or when the hook rejects, no row changes; otherwise exactly the
  row of that id is gone.
\<close>

theorem rest_delete_outcome:
  assumes "quiet w" "resolve_principal p w = (Inr u, w1)" "rest_delete E p i w = (res, w2)"
  shows "case guard_outcome (write_policy E) E u i (tabs w1) of
      Inl e \<Rightarrow> res = Inl e \<and> rows (tabs w2) = rows (tabs w)
    | Inr old \<Rightarrow>
        (case before_delete E old p of
           Inl h \<Rightarrow> res = Inl (Application h) \<and> rows (tabs w2) = rows (tabs w)
         | Inr _ \<Rightarrow> res = Inr () \<and>
             rows (tabs w2) = filter (\<lambda>r. r (primary_key E) \<noteq> VInt (Some i)) (rows (tabs w)))"
proof -
  have q1: "quiet w1" and rows1: "rows (tabs w1) = rows (tabs w)"
    using resolve_principal_quiet [OF assms(1,2)] by auto
  show ?thesis
  proof (cases "guard_outcome (write_policy E) E u i (tabs w1)")
    case (Inl e)
    then have "res = Inl e \<and> w2 = w1"
      using assms(3) q1 by (simp add: rest_delete_def assms(2) and_then_Inr and_then_Inl writing.load_quiet)
    with Inl rows1 show ?thesis by simp
  next
    case (Inr old)
    then have old: "old \<in> set (rows (tabs w1))" "old (primary_key E) = VInt (Some i)"
      using find_row_Some by (auto simp: guard_outcome_Inr)
    let ?hit = "\<lambda>r. r (primary_key E) = VInt (Some i)"
    have del: "delete_row E i (tabs w1) = Inr (length (filter ?hit (rows (tabs w1))),
        (tabs w1)\<lparr>rows := filter (\<lambda>r. \<not> ?hit r) (rows (tabs w1))\<rparr>)"
      by (simp add: delete_row_def Let_def)
    have pos: "filter ?hit (rows (tabs w1)) \<noteq> []" using old by (auto simp: filter_empty_conv)
    show ?thesis
      using assms(3) Inr rows1 pos statement_quiet_Inr [of w1 "delete_row E i", OF q1 del]
      by (cases "before_delete E old p")
        (auto simp: rest_delete_def assms(2) and_then_Inr and_then_Inl writing.load_quiet [OF q1]
          map_err_def lift_result_def and_then_def return_ok_def)
  qed
qed

theorem rest_delete_outcome_witness:
  "\<exists>w2. rest_delete demo_resource bob 7 demo_store = (Inr (), w2) \<and> rows (tabs w2) = [demo_row 8 1]"
proof -
  obtain res w2 where run: "rest_delete demo_resource bob 7 demo_store = (res, w2)" by fastforce
  have guard: "guard_outcome OwnerOnly demo_resource (demo_user 2) 7 (tabs demo_store) =
      Inr (demo_row 7 2)"
    by (simp only: guard_outcome_Inr) (simp add: may_access_def find_row_def demo_tables_def)
  show ?thesis
    using rest_delete_outcome [OF demo_store_quiet demo_bob run, unfolded demo_resource_simps guard] run
    by (simp add: default_before_delete_def demo_tables_def)
qed

text \<open>
  Arow deleted by another session between the load and the statement: \<open>delete\<close> and \<open>update\<close>
  answer 404, not a database error, and change nothing.
\<close>

theorem lost_race_is_not_found:
  assumes load: "load_authorized (write_policy E) (can_write E) E u i w1 = (Inr old, w2)"
    and me: "resolve_principal p w = (Inr u, w1)"
    and s: "env w2 = [s]" "fails s = None" "find_row E i (others s (tabs w2)) = None"
    and free: "\<not> aborted w2" "snap w2 = None"
    and hooks: "before_delete E old p = Inr ()"
      "before_update E (mark_all_set E (into_active_model body)) old p = Inr active"
    and other: "owner_column E \<noteq> Some (primary_key E)"
  shows "fst (rest_delete E p i w) = Inl NotFound \<and> fst (rest_update E p i body w) = Inl NotFound \<and>
    rows (tabs (snd (rest_delete E p i w))) = rows (others s (tabs w2)) \<and>
    rows (tabs (snd (rest_update E p i body w))) = rows (others s (tabs w2))"
proof -
  let ?w3 = "w2\<lparr>tabs := others s (tabs w2), snap := None, clock := clock w2 + int (advance s), env := []\<rparr>"
  have arr: "arrive w2 = (None, ?w3)" using s free by (simp add: arrive_def)
  have none: "\<forall>r\<in>set (rows (others s (tabs w2))). r (primary_key E) \<noteq> VInt (Some i)"
    using s(3) by (simp add: find_row_None)
  have del: "delete_row E i (others s (tabs w2)) = Inr (0, others s (tabs w2))"
    using none by (simp add: delete_row_def Let_def filter_id_conv)
  have key: "into_value (stamp_existing E i old active (primary_key E)) = Some (VInt (Some i))"
    using other by (auto simp: stamp_existing_def split: option.split)
  have upd: "update_row E (stamp_existing E i old active) (others s (tabs w2)) = Inl RecordNotUpdated"
    using key s(3) by (simp add: update_row_def find_row_def)
  have "rest_delete E p i w = (Inl NotFound, ?w3)"
    using arr del free hooks(1)
    by (simp add: rest_delete_def me load and_then_Inr map_err_def lift_result_def statement_def
        and_then_def fail_with_def)
  moreover have "rest_update E p i body w = (Inl NotFound, ?w3)"
    using arr upd free hooks(2)
    by (simp add: rest_update_eq me load and_then_Inr map_err_def lift_result_def statement_def
        and_then_def taint_no_txn)
  ultimately show ?thesis by simp
qed


definition drop_rows :: "row tables \<Rightarrow> row tables" where
  "drop_rows t = t\<lparr>rows := []\<rparr>"

theorem lost_race_is_not_found_witness:
  "fst (rest_delete (demo_resource\<lparr>write_policy := Public\<rparr>) bob 7
     (demo_store\<lparr>env := [race_step (\<lambda>t. t), race_step (\<lambda>t. t), race_step drop_rows]\<rparr>)) = Inl NotFound"
proof -
  let ?E = "demo_resource\<lparr>write_policy := Public\<rparr>"
  let ?w = "\<lambda>ss. demo_store\<lparr>env := ss\<rparr>"
  have me: "resolve_principal bob (?w [race_step (\<lambda>t. t), race_step (\<lambda>t. t), race_step drop_rows]) =
      (Inr (demo_user 2), ?w [race_step (\<lambda>t. t), race_step drop_rows])"
    by (simp add: resolve_principal_def resolve_user_def map_err_def and_then_def select_def statement_def
        arrive_def race_step_def bob_def demo_store_def demo_world_def demo_tables_def find_user_def
        demo_user_def return_ok_def)
  have load: "load_authorized (write_policy ?E) (can_write ?E) ?E (demo_user 2) 7
      (?w [race_step (\<lambda>t. t), race_step drop_rows]) = (Inr (demo_row 7 2), ?w [race_step drop_rows])"
    by (simp add: load_authorized_def static_verdict_def map_err_def and_then_def select_def statement_def
        arrive_def race_step_def demo_store_def demo_world_def demo_tables_def find_row_def return_ok_def)
  show ?thesis
    using lost_race_is_not_found [OF load me, where s = "race_step drop_rows" and body = "demo_row 7 2"]
    by (simp add: race_step_def demo_store_def demo_world_def drop_rows_def find_row_def
        default_before_delete_def default_before_update_def)
qed

section \<open>The invariant of the keys\<close>

lemma keeps_rows_resolve [keeps]: "act_keeps (wf_rows E) (resolve_principal p)"
  unfolding resolve_principal_def resolve_user_def
  by (auto intro!: keeps keeps_statement split: option.splits dest!: keeps_insert_user_rows
      simp: wf_rows_def)

lemma keeps_insert_row [keeps]: "act_keeps (wf_rows E) (statement (insert_row E (stamp_new E u a)))"
  using wf_insert_row [of E _ "stamp_new E u a" "u_id u"] stamp_new_key [of E u a]
  by (auto intro!: keeps_statement)

lemma keeps_update_row [keeps]: "act_keeps (wf_rows E) (statement (update_row E a))"
  using wf_update_row by (blast intro: keeps_statement)

lemma keeps_delete_row [keeps]: "act_keeps (wf_rows E) (statement (delete_row E i))"
  using wf_delete_row by (blast intro: keeps_statement)

lemma keeps_can_create [keeps]: "act_keeps P (can_create E u)"
  unfolding can_create_def by (auto intro!: keeps split: access_policy.splits)

text \<open>
  Every writing operation keeps the keys of the table well formed (an integer in every row, no key
  twice), in every world: whatever fails, whatever the other sessions do that keeps it too, and
  whatever the hooks of the resource write.
\<close>

theorem writes_keep_keys:
  "act_keeps (wf_rows E) (rest_create E p body) \<and> act_keeps (wf_rows E) (rest_update E p i body) \<and>
   act_keeps (wf_rows E) (rest_delete E p i)"
  unfolding rest_create_eq rest_update_eq rest_delete_def
  by (auto intro!: keeps writing.load_keeps)

section \<open>Listing\<close>

definition filter_condition :: "resource \<Rightarrow> string option \<Rightarrow> condition" where
  "filter_condition E v = (case (filter_column E, v) of
     (Some col, Some value) \<Rightarrow> [(col, VText (Some value))] | _ \<Rightarrow> [])"

text \<open>The rows a listing pages through: readable, matching the filter, in the order of the key.\<close>

definition visible_rows :: "resource \<Rightarrow> user_row \<Rightarrow> string option \<Rightarrow> row tables \<Rightarrow> row list" where
  "visible_rows E u v t = sort_key (row_id E) (filter (\<lambda>r.
     may_access (read_policy E) (owner_column E) u r t \<and> holds (filter_condition E v) r) (rows t))"

lemma holds_append: "holds (c @ d) r \<longleftrightarrow> holds c r \<and> holds d r"
  by (simp add: holds_def ball_Un)

lemma select_rows_visible:
  assumes "list_access_of E u t = Unrestricted \<and> c = [] \<or> list_access_of E u t = FilterByOwner c"
  shows "select_rows E (c @ filter_condition E v) t = visible_rows E u v t"
proof -
  have "holds c r \<longleftrightarrow> may_access (read_policy E) (owner_column E) u r t" for r
    using assms listed_iff [of E u t r] by (auto simp: holds_def)
  then have "holds (c @ filter_condition E v) =
      (\<lambda>r. may_access (read_policy E) (owner_column E) u r t \<and> holds (filter_condition E v) r)"
    by (simp add: fun_eq_iff holds_append)
  then show ?thesis by (simp add: select_rows_def visible_rows_def)
qed

lemma rest_list_quiet:
  assumes "quiet w" "resolve_principal p w = (Inr u, w1)"
  shows "rest_list E p pg ppg v w =
    (if list_access_of E u (tabs w1) = List_Forbidden then Inl Forbidden
     else Inr (page_of (from_raw pg ppg) (visible_rows E u v (tabs w1))), w1)"
proof -
  have q1: "quiet w1" using resolve_principal_quiet [OF assms] by auto
  have cond: "(case filter_column E of None \<Rightarrow> c | Some col \<Rightarrow>
      (case v of None \<Rightarrow> c | Some value \<Rightarrow> c @ [(col, VText (Some value))])) = c @ filter_condition E v" for c
    by (auto simp: filter_condition_def split: option.splits)
  show ?thesis
    using select_rows_visible [of E u "tabs w1" "[]" v] select_rows_visible [of E u "tabs w1" _ v]
    by (cases "list_access_of E u (tabs w1)")
      (simp_all add: rest_list_def assms(2) and_then_Inr map_err_def list_access_quiet [OF q1] cond
        paginate_quiet [OF q1] fail_with_apply Let_def)
qed

text \<open>A listing of a resource is a paged listing of its visible rows.\<close>

definition list_content :: "resource \<Rightarrow> auth_principal \<Rightarrow> string option \<Rightarrow> row tables world \<Rightarrow> row list" where
  "list_content E p v w = (case resolve_principal p w of
     (Inr u, w1) \<Rightarrow> visible_rows E u v (tabs w1) | (Inl _, _) \<Rightarrow> [])"

definition list_ok :: "resource \<Rightarrow> auth_principal \<Rightarrow> row tables world \<Rightarrow> bool" where
  "list_ok E p w \<longleftrightarrow> quiet w \<and> (case resolve_principal p w of
     (Inr u, w1) \<Rightarrow> list_access_of E u (tabs w1) \<noteq> List_Forbidden | (Inl _, _) \<Rightarrow> False)"

interpretation resource_list:
  paged_listing "\<lambda>pg ppg. rest_list E p pg ppg v" "list_content E p v" "list_ok E p" for E p v
proof unfold_locales
  fix w :: "row tables world" and pg ppg
  assume ok: "list_ok E p w"
  then obtain u w1 where u: "resolve_principal p w = (Inr u, w1)"
    by (auto simp: list_ok_def split: prod.splits sum.splits)
  show "\<exists>w'. rest_list E p pg ppg v w = (Inr (page_of (from_raw pg ppg) (list_content E p v w)), w')"
    using ok u rest_list_quiet [OF _ u] by (simp add: list_ok_def list_content_def)
qed

text \<open>
  C25: paging through a listing with any accepted page size shows every visible record once, in the
  order of the keys, and only records the caller may read.
\<close>

theorem rest_list_pages_cover:
  assumes "quiet w" "resolve_principal p w = (Inr u, w1)" "wf_rows E (tabs w)"
    and "list_access_of E u (tabs w1) \<noteq> List_Forbidden" "length (rows (tabs w)) \<le> 2 ^ 32"
    and "1 \<le> n" "n \<le> 1000"
  shows "concat (map (\<lambda>k. case rest_list E p (Some (of_nat (Suc k))) (Some (of_nat n)) v w of
        (Inr r, _) \<Rightarrow> items r | (Inl _, _) \<Rightarrow> [])
      [0..<pages_number (length (visible_rows E u v (tabs w1))) n]) = visible_rows E u v (tabs w1) \<and>
    (\<forall>r\<in>set (visible_rows E u v (tabs w1)). rest_get E p (row_id E r) w = (Inr r, w1))"
proof -
  have rows1: "rows (tabs w1) = rows (tabs w)" using resolve_principal_quiet [OF assms(1,2)] by auto
  have ok: "list_ok E p w" using assms(1,2,4) by (simp add: list_ok_def)
  have content: "list_content E p v w = visible_rows E u v (tabs w1)"
    using assms(2) by (simp add: list_content_def)
  have "length (visible_rows E u v (tabs w1)) \<le> length (rows (tabs w))"
    by (simp add: visible_rows_def rows1)
  with assms(5) have "length (list_content E p v w) \<le> 2 ^ 32" by (simp add: content)
  note cover = resource_list.pages_cover [OF ok this assms(6,7), unfolded resource_list.nth_page_def content]
  have "rest_get E p (row_id E r) w = (Inr r, w1)"
    if "r \<in> set (visible_rows E u v (tabs w1))" for r
  proof -
    have r: "r \<in> set (rows (tabs w))" "may_access (read_policy E) (owner_column E) u r (tabs w1)"
      using that by (auto simp: visible_rows_def rows1)
    have "find_row E (row_id E r) (tabs w1) = Some r"
      using find_distinct [of "\<lambda>r. r (primary_key E)" "rows (tabs w)" r] assms(3) r(1)
        wf_row_id [OF assms(3) r(1)] by (simp add: wf_rows_def find_row_def rows1)
    with r show ?thesis by (simp add: rest_get_quiet [OF assms(1,2)] guard_outcome_Inr)
  qed
  with cover show ?thesis by blast
qed

theorem rest_list_pages_cover_witness:
  "(case rest_list demo_resource bob (Some 1) (Some 10) None demo_store of
      (Inr r, _) \<Rightarrow> items r | (Inl _, _) \<Rightarrow> []) = [demo_row 7 2]"
proof -
  have la: "list_access_of demo_resource (demo_user 2) (tabs demo_store) \<noteq> List_Forbidden"
    by (simp add: list_access_of_def verdict_of_def demo_bob_not_admin)
  have other: "\<not> may_access OwnerOnly (Some ''owner_id'') (demo_user 2) (demo_row 8 1) (tabs demo_store)"
    by (simp add: may_access_def demo_bob_not_admin)
  have mine: "may_access OwnerOnly (Some ''owner_id'') (demo_user 2) (demo_row 7 2) (tabs demo_store)"
    by (simp add: may_access_def)
  have vis: "visible_rows demo_resource (demo_user 2) None (tabs demo_store) = [demo_row 7 2]"
    using mine other
    by (simp add: visible_rows_def filter_condition_def holds_def) (simp add: demo_tables_def)
  have pn: "pages_number (Suc 0) 10 = Suc 0" by (simp add: pages_number_def)
  have wf: "wf_rows demo_resource (tabs demo_store)"
    by (simp add: wf_rows_def demo_tables_def)
  have "length (rows (tabs demo_store)) \<le> 2 ^ 32" by (simp add: demo_tables_def)
  from rest_list_pages_cover [OF demo_store_quiet demo_bob wf la this, of 10 None]
  show ?thesis by (simp add: vis [unfolded demo_store_tabs] pn)
qed

section \<open>Mounting\<close>

text \<open>
  Aresource that mounts never reaches the fail-closed branches without an owner column: when a
  policy is \<open>OwnerOnly\<close> there is an integer owner column, the listing of an authenticated caller is
  never forbidden by it, and creation is open to every caller.
\<close>

theorem mounted_owner_only_is_usable:
  assumes "resource_router type_of E = Inr paths"
    and "quiet w" "read_policy E = OwnerOnly" "write_policy E = OwnerOnly"
  shows "\<exists>oc. owner_column E = Some oc \<and> type_of oc = Column_Integer \<and>
    (\<exists>la. list_access E user w = (Inr la, w) \<and> la \<noteq> List_Forbidden) \<and>
    can_create E user w = (Inr True, w)"
  using assms
  by (auto simp: resource_router_def list_access_quiet can_create_quiet list_access_of_def verdict_of_def
      split: if_splits option.splits)

definition demo_types :: "string \<Rightarrow> column_type" where
  "demo_types c = (if c = ''title'' then Column_Text else Column_Integer)"

theorem mounted_owner_only_is_usable_witness:
  "can_create demo_resource (demo_user 2) empty_db = (Inr True, empty_db)"
proof -
  have "resource_router demo_types demo_resource = Inr (''/api/v1/recipes'', ''/api/v1/recipes/{id}'')"
    by (simp add: resource_router_def demo_types_def demo_resource_def)
  from mounted_owner_only_is_usable [OF this, of empty_db "demo_user 2"] show ?thesis by auto
qed

end
