(* ===== verification/Rest_Accounts.thy ===== *)
theory Rest_Accounts
  imports Rest_Core
begin

text \<open>
  The account endpoints: the caller's own tokens (\<open>src/src/rest/tokens.rs\<close>), the caller's profile
  (\<open>rest/me.rs\<close>) and the administrators' list of users (\<open>rest/admin.rs\<close>).
\<close>

section \<open>Tokens\<close>

fun to_rest_error :: "(dberr \<Rightarrow> string) \<Rightarrow> auth_error \<Rightarrow> rest_error" where
  "to_rest_error db_text (Auth_Database d) = Rest_Database d"
| "to_rest_error db_text TokenHashConflict = Conflict"
| "to_rest_error db_text other = Rest_Internal (auth_error_text db_text other)"

record token_summary =
  ts_id :: int
  ts_name :: string
  ts_created_at :: int
  ts_expires_at :: "int option"
  ts_last_used_at :: "int option"

definition token_summary_from :: "token_row \<Rightarrow> token_summary" where
  "token_summary_from model =
     \<lparr>ts_id = t_id model, ts_name = t_name model, ts_created_at = t_created_at model,
      ts_expires_at = t_expires_at model, ts_last_used_at = t_last_used_at model\<rparr>"

definition map_items :: "('a \<Rightarrow> 'b) \<Rightarrow> 'a paged_result \<Rightarrow> 'b paged_result" where
  "map_items f r =
     \<lparr>items = map f (items r), pr_page = pr_page r, pr_per_page = pr_per_page r,
      total_items = total_items r, total_pages = total_pages r\<rparr>"

definition tokens_of :: "string \<Rightarrow> 'm tables \<Rightarrow> token_row list" where
  "tokens_of subj t = sort_key t_id (filter (\<lambda>r. t_subject r = subj) (tokens t))"

definition list_tokens_handler ::
    "auth_principal \<Rightarrow> u64 option \<Rightarrow> u64 option \<Rightarrow>
     ('m tables world, rest_error, token_summary paged_result) act" where
  "list_tokens_handler p pg ppg =
     and_then (map_err Rest_Database (paginate (tokens_of (subject p)) (from_raw pg ppg)))
       (\<lambda>r. return_ok (map_items token_summary_from r))"

record create_token_body =
  ct_name :: string
  ct_expires_at :: "int option"

definition create_token_handler ::
    "(string \<Rightarrow> string \<Rightarrow> string option) \<Rightarrow> (nat list \<Rightarrow> string) \<Rightarrow> (dberr \<Rightarrow> string) \<Rightarrow> nat list \<Rightarrow>
     string \<Rightarrow> auth_principal \<Rightarrow> create_token_body \<Rightarrow> ('m tables world, rest_error, issued_token) act" where
  "create_token_handler hmac b64 db_text bytes pepper p body =
     and_then utc_now (\<lambda>now.
       if (case ct_expires_at body of Some expires_at \<Rightarrow> expires_at \<le> now | None \<Rightarrow> False)
       then fail_with (InvalidInput ''expires_at must be in the future'')
       else map_err (to_rest_error db_text)
              (issue_token hmac b64 bytes (subject p) (ct_name body) (ct_expires_at body) pepper))"

definition delete_token_handler ::
    "(dberr \<Rightarrow> string) \<Rightarrow> auth_principal \<Rightarrow> int \<Rightarrow> ('m tables world, rest_error, unit) act" where
  "delete_token_handler db_text p i =
     and_then (map_err Rest_Database
         (select (\<lambda>t. find (\<lambda>r. t_id r = i \<and> t_subject r = subject p) (tokens t) \<noteq> None)))
       (\<lambda>owned. if \<not> owned then fail_with NotFound
                else map_err (to_rest_error db_text) (revoke_token i))"

section \<open>Groups of users\<close>

fun collect_groups ::
    "(int \<rightharpoonup> string) \<Rightarrow> membership_row list \<Rightarrow> (int \<rightharpoonup> string list) \<Rightarrow> (int \<rightharpoonup> string list)" where
  "collect_groups names [] m = m"
| "collect_groups names (x # xs) m =
     (case names (m_group x) of
        Some name \<Rightarrow> collect_groups names xs (push_entry (m_user x) name m)
      | None \<Rightarrow> collect_groups names xs m)"

definition groups_by_user ::
    "int list \<Rightarrow> ('m tables world, dberr, int \<rightharpoonup> string list) act" where
  "groups_by_user user_ids =
     (if user_ids = [] then return_ok Map.empty
      else and_then (select (\<lambda>t. filter (\<lambda>m. m_user m \<in> set user_ids) (memberships t))) (\<lambda>ms.
        if ms = [] then return_ok Map.empty
        else and_then (select (\<lambda>t. filter (\<lambda>g. g_id g \<in> set (map m_group ms)) (groups t))) (\<lambda>gs.
          return_ok (collect_groups (map_of (rev (map (\<lambda>g. (g_id g, g_name g)) gs))) ms Map.empty))))"

section \<open>Profile and users\<close>

record me_response =
  me_subject :: string
  me_email :: "string option"
  me_groups :: "string list"

definition me_handler :: "auth_principal \<Rightarrow> ('m tables world, rest_error, me_response) act" where
  "me_handler p =
     and_then (resolve_principal p) (\<lambda>caller.
     and_then (map_err Rest_Database (groups_by_user [u_id caller])) (\<lambda>m.
       let names = (case m (u_id caller) of Some ns \<Rightarrow> ns | None \<Rightarrow> []) in
       return_ok \<lparr>me_subject = u_subject caller, me_email = u_email caller, me_groups = sort names\<rparr>))"

record user_summary =
  us_id :: int
  us_subject :: string
  us_email :: "string option"
  us_groups :: "string list"

text \<open>Each summary takes its groups out of the map (\<open>HashMap::remove\<close>).\<close>

fun summarize_users :: "user_row list \<Rightarrow> (int \<rightharpoonup> string list) \<Rightarrow> user_summary list" where
  "summarize_users [] m = []"
| "summarize_users (u # us) m =
     \<lparr>us_id = u_id u, us_subject = u_subject u, us_email = u_email u,
      us_groups = (case m (u_id u) of Some ns \<Rightarrow> ns | None \<Rightarrow> [])\<rparr> # summarize_users us (m(u_id u := None))"

definition users_by_id :: "'m tables \<Rightarrow> user_row list" where
  "users_by_id t = sort_key u_id (users t)"

definition list_users_handler ::
    "auth_principal \<Rightarrow> u64 option \<Rightarrow> u64 option \<Rightarrow>
     ('m tables world, rest_error, user_summary paged_result) act" where
  "list_users_handler p pg ppg =
     and_then (resolve_principal p) (\<lambda>caller.
     and_then (map_err Rest_Database (is_admin (u_id caller))) (\<lambda>adm.
       if \<not> adm then fail_with Forbidden
       else and_then (map_err Rest_Database (paginate users_by_id (from_raw pg ppg))) (\<lambda>r.
         and_then (map_err Rest_Database (groups_by_user (map u_id (items r)))) (\<lambda>m.
           return_ok \<lparr>items = summarize_users (items r) m, pr_page = pr_page r,
             pr_per_page = pr_per_page r, total_items = total_items r, total_pages = total_pages r\<rparr>))))"

section \<open>Lemmas\<close>

lemma map_items_page: "map_items f (page_of pg xs) = page_of pg (map f xs)"
  by (simp add: map_items_def page_of_def fetch_page_def take_map drop_map)

lemma list_tokens_quiet:
  "quiet w \<Longrightarrow> list_tokens_handler p pg ppg w =
     (Inr (page_of (from_raw pg ppg) (map token_summary_from (tokens_of (subject p) (tabs w)))), w)"
  by (simp add: list_tokens_handler_def and_then_def map_err_def paginate_quiet return_ok_def map_items_page)

interpretation token_list:
  paged_listing "list_tokens_handler p" "\<lambda>w. map token_summary_from (tokens_of (subject p) (tabs w))" quiet
  for p
  by unfold_locales (simp add: list_tokens_quiet)

text \<open>The map of groups holds, for each user, the names of the user's memberships in order.\<close>

lemma collect_groups_spec:
  "collect_groups names ms m u = (let new = List.map_filter (\<lambda>x. names (m_group x)) (filter (\<lambda>x. m_user x = u) ms)
     in if new = [] then m u else Some ((case m u of None \<Rightarrow> [] | Some vs \<Rightarrow> vs) @ new))"
proof (induction ms arbitrary: m)
  case (Cons x xs)
  then show ?case
    by (cases "names (m_group x)")
      (auto simp: Let_def push_entry_def map_filter_simps split: option.splits)
qed (simp add: map_filter_simps)

definition groups_of :: "int \<Rightarrow> 'm tables \<Rightarrow> string list" where
  "groups_of uid t = List.map_filter (\<lambda>x. map_of (rev (map (\<lambda>g. (g_id g, g_name g)) (groups t))) (m_group x))
     (filter (\<lambda>x. m_user x = uid) (memberships t))"

lemma map_of_rev_filter:
  "k \<in> S \<Longrightarrow> map_of (rev (map (\<lambda>g. (f g, h g)) (filter (\<lambda>g. f g \<in> S) gs))) k =
     map_of (rev (map (\<lambda>g. (f g, h g)) gs)) k"
  by (induction gs rule: rev_induct) (auto simp: map_of_append)

lemma groups_by_user_quiet:
  assumes "quiet w"
  shows "\<exists>m. groups_by_user ids w = (Inr m, w) \<and>
    (\<forall>u\<in>set ids. (case m u of Some ns \<Rightarrow> ns | None \<Rightarrow> []) = groups_of u (tabs w))"
proof -
  let ?ms = "filter (\<lambda>m. m_user m \<in> set ids) (memberships (tabs w))"
  let ?gs = "filter (\<lambda>g. g_id g \<in> set (map m_group ?ms)) (groups (tabs w))"
  let ?names = "map_of (rev (map (\<lambda>g. (g_id g, g_name g)) ?gs))"
  have mine: "filter (\<lambda>x. m_user x = u) ?ms = filter (\<lambda>x. m_user x = u) (memberships (tabs w))"
    if "u \<in> set ids" for u
    using that by (auto intro: filter_cong)
  have names: "List.map_filter (\<lambda>x. ?names (m_group x)) (filter (\<lambda>x. m_user x = u) ?ms) = groups_of u (tabs w)"
    if "u \<in> set ids" for u
    unfolding groups_of_def mine [OF that, symmetric]
    by (rule map_filter_cong2) (auto intro!: map_of_rev_filter)
  show ?thesis
  proof (cases "ids = [] \<or> ?ms = []")
    case True
    then have "groups_by_user ids w = (Inr Map.empty, w)"
      using assms by (auto simp: groups_by_user_def return_ok_def and_then_def select_quiet)
    moreover have "groups_of u (tabs w) = []" if "u \<in> set ids" for u
    proof -
      have "filter (\<lambda>x. m_user x = u) ?ms = []" using True that by (auto simp: filter_empty_conv)
      then show ?thesis unfolding groups_of_def mine [OF that, symmetric] by (simp add: map_filter_simps)
    qed
    ultimately show ?thesis by auto
  next
    case False
    then have "groups_by_user ids w = (Inr (collect_groups ?names ?ms Map.empty), w)"
      using assms by (simp add: groups_by_user_def return_ok_def and_then_def select_quiet)
    moreover have "(case collect_groups ?names ?ms Map.empty u of Some ns \<Rightarrow> ns | None \<Rightarrow> []) =
        groups_of u (tabs w)" if "u \<in> set ids" for u
      using names [OF that] by (simp add: collect_groups_spec Let_def)
    ultimately show ?thesis by blast
  qed
qed

lemma set_groups_of:
  assumes "wf_accounts t"
  shows "set (groups_of uid t) = member_names uid t"
proof -
  have dist: "distinct (map fst (rev (map (\<lambda>g. (g_id g, g_name g)) (groups t))))"
    using assms by (simp add: wf_accounts_def rev_map [symmetric] comp_def)
  have "map_of (rev (map (\<lambda>g. (g_id g, g_name g)) (groups t))) i = Some n \<longleftrightarrow>
      (\<exists>g\<in>set (groups t). g_id g = i \<and> g_name g = n)" for i n
    using dist by (auto simp: map_of_eq_Some_iff)
  then have "set (groups_of uid t) = {n. \<exists>x\<in>set (memberships t). m_user x = uid \<and>
      (\<exists>g\<in>set (groups t). g_id g = m_group x \<and> g_name g = n)}"
    by (auto simp: groups_of_def set_map_filter)
  then show ?thesis by (fastforce simp: member_names_def membership_pairs_def)
qed

lemma summarize_users_eq:
  "distinct (map u_id us) \<Longrightarrow> summarize_users us m = map (\<lambda>u.
     \<lparr>us_id = u_id u, us_subject = u_subject u, us_email = u_email u,
      us_groups = (case m (u_id u) of Some ns \<Rightarrow> ns | None \<Rightarrow> [])\<rparr>) us"
proof (induction us m rule: summarize_users.induct)
  case (2 u us m)
  have "u_id u \<notin> u_id ` set us" using 2 by simp
  then have "x \<in> set us \<Longrightarrow> (m(u_id u := None)) (u_id x) = m (u_id x)" for x
    by (metis fun_upd_other imageI)
  then show ?case using 2 by (simp del: fun_upd_apply cong: map_cong)
qed simp


lemma groups_by_user_page:
  assumes "quiet w" "distinct (map u_id us)"
  shows "\<exists>m. groups_by_user (map u_id us) w = (Inr m, w) \<and> summarize_users us m = map (\<lambda>u.
     \<lparr>us_id = u_id u, us_subject = u_subject u, us_email = u_email u,
      us_groups = groups_of (u_id u) (tabs w)\<rparr>) us"
proof -
  obtain m where m: "groups_by_user (map u_id us) w = (Inr m, w)"
    "\<forall>u\<in>set (map u_id us). (case m u of Some ns \<Rightarrow> ns | None \<Rightarrow> []) = groups_of u (tabs w)"
    using groups_by_user_quiet [OF assms(1)] by blast
  then show ?thesis using summarize_users_eq [OF assms(2), of m] by auto
qed

definition user_summary_of :: "'m tables \<Rightarrow> user_row \<Rightarrow> user_summary" where
  "user_summary_of t u = \<lparr>us_id = u_id u, us_subject = u_subject u, us_email = u_email u,
                          us_groups = groups_of (u_id u) t\<rparr>"

lemma distinct_fetch_page:
  "distinct (map f xs) \<Longrightarrow> distinct (map f (fetch_page sz k xs))"
  by (simp add: fetch_page_def take_map [symmetric] drop_map [symmetric] distinct_take distinct_drop)

lemma list_users_quiet:
  assumes "quiet w" "resolve_principal p w = (Inr u, w1)" "distinct (map u_id (users (tabs w1)))"
  shows "list_users_handler p pg ppg w =
    (if admin u (tabs w1)
     then Inr (page_of (from_raw pg ppg) (map (user_summary_of (tabs w1)) (users_by_id (tabs w1))))
     else Inl Forbidden, w1)"
proof -
  have q1: "quiet w1" using resolve_principal_quiet [OF assms(1,2)] by auto
  have adm: "is_admin (u_id u) w1 = (Inr (admin u (tabs w1)), w1)"
    by (simp add: is_admin_def is_member_quiet [OF q1] admin_def)
  have "distinct (map u_id (users_by_id (tabs w1)))"
    using assms(3) by (simp add: users_by_id_def distinct_map)
  then have dist: "distinct (map u_id (items (page_of (from_raw pg ppg) (users_by_id (tabs w1)))))"
    by (simp add: page_of_def distinct_fetch_page)
  obtain m where m: "groups_by_user (map u_id (items (page_of (from_raw pg ppg) (users_by_id (tabs w1))))) w1 =
      (Inr m, w1)"
    "summarize_users (items (page_of (from_raw pg ppg) (users_by_id (tabs w1)))) m =
      map (user_summary_of (tabs w1)) (items (page_of (from_raw pg ppg) (users_by_id (tabs w1))))"
    using groups_by_user_page [OF q1 dist] by (auto simp: user_summary_of_def [abs_def])
  show ?thesis
    using m map_items_page [of "user_summary_of (tabs w1)" "from_raw pg ppg" "users_by_id (tabs w1)"]
    by (simp add: list_users_handler_def assms(2) and_then_Inr map_err_def adm fail_with_apply
        paginate_quiet [OF q1] and_then_def return_ok_def map_items_def)
qed

section \<open>Properties\<close>

text \<open>
  Tokens are private to their subject: a listing pages through exactly the caller's own tokens, and
  deleting an id succeeds exactly when the caller owns it; anyone else's id answers 404, like an id
  that does not exist, and removes nothing.
\<close>

theorem tokens_are_private:
  assumes "quiet w"
  shows "list_tokens_handler p pg ppg w =
      (Inr (page_of (from_raw pg ppg) (map token_summary_from (tokens_of (subject p) (tabs w)))), w) \<and>
    delete_token_handler db_text p i w =
      (if \<exists>r\<in>set (tokens (tabs w)). t_id r = i \<and> t_subject r = subject p
       then (Inr (), set_tabs ((tabs w)\<lparr>tokens := filter (\<lambda>r. t_id r \<noteq> i) (tokens (tabs w))\<rparr>) w)
       else (Inl NotFound, w)) \<and>
    (\<forall>r\<in>set (tokens_of (subject p) (tabs w)). t_subject r = subject p)"
proof -
  have "(find (\<lambda>r. t_id r = i \<and> t_subject r = subject p) (tokens (tabs w)) \<noteq> None) \<longleftrightarrow>
      (\<exists>r\<in>set (tokens (tabs w)). t_id r = i \<and> t_subject r = subject p)"
    by (auto simp: find_None_iff simp del: not_None_eq)
  then have "delete_token_handler db_text p i w =
      (if \<exists>r\<in>set (tokens (tabs w)). t_id r = i \<and> t_subject r = subject p
       then (Inr (), set_tabs ((tabs w)\<lparr>tokens := filter (\<lambda>r. t_id r \<noteq> i) (tokens (tabs w))\<rparr>) w)
       else (Inl NotFound, w))"
    using assms
    by (simp add: delete_token_handler_def and_then_def map_err_def select_quiet revoke_token_quiet
        fail_with_apply del: not_None_eq)
  then show ?thesis using assms by (simp add: list_tokens_quiet) (simp add: tokens_of_def)
qed

definition demo_token :: "int \<Rightarrow> string \<Rightarrow> token_row" where
  "demo_token i subj = \<lparr>t_id = i, t_subject = subj, t_name = ''ci'', t_hash = show_nat (nat i),
                        t_created_at = 0, t_expires_at = None, t_last_used_at = None\<rparr>"

definition token_store :: "unit tables world" where
  "token_store = set_tabs ((demo_tables [])\<lparr>tokens := [demo_token 1 ''ana'', demo_token 2 ''bob'']\<rparr>) (demo_world [])"

theorem tokens_are_private_witness:
  "delete_token_handler (\<lambda>_. ''db'') bob 1 token_store = (Inl NotFound, token_store) \<and>
   tokens (tabs (snd (delete_token_handler (\<lambda>_. ''db'') bob 2 token_store))) = [demo_token 1 ''ana'']"
proof -
  have q: "quiet token_store" by (simp add: token_store_def)
  show ?thesis
    using tokens_are_private [OF q, of bob None None "\<lambda>_. ''db''" 1]
      tokens_are_private [OF q, of bob None None "\<lambda>_. ''db''" 2]
    by (simp add: token_store_def demo_token_def bob_def)
qed

text \<open>
  Atoken that would already have expired is refused before anything is hashed or stored;
  otherwise the token issued to the caller authenticates the caller with the returned plaintext.
\<close>

theorem created_token_works:
  assumes "quiet w" "hmac pepper (generate_token b64 bytes) = Some h"
    and "find_token_by_hash h (tabs w) = None"
  shows "if \<exists>e. ct_expires_at body = Some e \<and> e \<le> clock w
    then \<exists>m. create_token_handler hmac b64 db_text bytes pepper p body w = (Inl (InvalidInput m), w)
    else \<exists>it w1. create_token_handler hmac b64 db_text bytes pepper p body w = (Inr it, w1) \<and>
      (\<exists>q w2. validate_token hmac (it_token it) pepper w1 = (Inr q, w2) \<and> subject q = subject p \<and>
         source q = ApiToken (it_id it))"
proof (cases "\<exists>e. ct_expires_at body = Some e \<and> e \<le> clock w")
  case True
  then show ?thesis
    by (auto simp: create_token_handler_def and_then_def utc_now_def fail_with_def)
next
  case False
  let ?r = "\<lparr>t_id = fresh_id (map t_id (tokens (tabs w))), t_subject = subject p, t_name = ct_name body,
      t_hash = h, t_created_at = clock w, t_expires_at = ct_expires_at body, t_last_used_at = None\<rparr>"
  let ?t = "(tabs w)\<lparr>tokens := tokens (tabs w) @ [?r]\<rparr>"
  have ins: "insert_token (subject p) (ct_name body) h (ct_expires_at body) (clock w) (tabs w) = Inr (?r, ?t)"
    using assms(3) by (simp add: insert_token_def Let_def)
  have st: "statement (insert_token (subject p) (ct_name body) h (ct_expires_at body) (clock w)) w =
      (Inr ?r, set_tabs ?t w)"
    by (rule statement_quiet_Inr [of w "insert_token (subject p) (ct_name body) h (ct_expires_at body) (clock w)",
          OF assms(1) ins])
  have run: "create_token_handler hmac b64 db_text bytes pepper p body w =
      (Inr \<lparr>it_id = t_id ?r, it_token = generate_token b64 bytes\<rparr>, set_tabs ?t w)"
    using False st assms(2)
    by (auto simp: create_token_handler_def issue_token_def hash_token_def and_then_def utc_now_def
        lift_result_def map_err_def return_ok_def Let_def split: option.splits)
  have f: "find_token_by_hash h (tabs (set_tabs ?t w)) = Some ?r"
    using assms(3) by (simp add: find_token_by_hash_def find_append)
  have live: "unexpired (clock (set_tabs ?t w)) ?r"
    using False by (auto simp: unexpired_def split: option.splits)
  obtain t' where "validate_token hmac (generate_token b64 bytes) pepper (set_tabs ?t w) =
      (Inr (principal_of ?r), set_tabs t' (set_tabs ?t w))"
    using validate_token_quiet [of "set_tabs ?t w" hmac pepper "generate_token b64 bytes" h ?r, OF _ assms(2) f]
      live assms(1) by auto
  with run False show ?thesis by (auto simp: principal_of_def)
qed

theorem created_token_works_witness:
  "\<exists>it w1 q w2. create_token_handler demo_hmac demo_b64 (\<lambda>_. ''db'') [1, 2] ''pepper'' bob
      \<lparr>ct_name = ''ci'', ct_expires_at = Some 200\<rparr> token_store = (Inr it, w1) \<and>
    validate_token demo_hmac (it_token it) ''pepper'' w1 = (Inr q, w2) \<and> subject q = ''bob''"
proof -
  have q: "quiet token_store" and now: "clock token_store = 100" by (simp_all add: token_store_def)
  have h: "demo_hmac ''pepper'' (generate_token demo_b64 [1, 2]) = Some ''reppepmrd_bc''"
    by code_simp
  have new: "find_token_by_hash ''reppepmrd_bc'' (tabs token_store) = None"
    by (simp add: token_store_def find_token_by_hash_def demo_token_def show_nat.simps)
  have bob: "subject bob = ''bob''" by (simp add: bob_def)
  show ?thesis
    using created_token_works [of token_store demo_hmac "''pepper''" demo_b64 "[1, 2]", OF q h new,
        of "\<lparr>ct_name = ''ci'', ct_expires_at = Some 200\<rparr>" "\<lambda>_. ''db''" bob]
    by (simp only: now bob create_token_body.simps) auto
qed

text \<open>
  The list of users is for administrators only, and pages through every user with exactly the
  groups the user is a member of; a caller's own profile shows exactly the caller's groups, sorted.
\<close>

theorem user_listing_outcome:
  assumes "quiet w" "resolve_principal p w = (Inr u, w1)" "wf_accounts (tabs w1)"
  shows "list_users_handler p pg ppg w =
      (if admin u (tabs w1)
       then Inr (page_of (from_raw pg ppg) (map (user_summary_of (tabs w1)) (users_by_id (tabs w1))))
       else Inl Forbidden, w1) \<and>
    (\<forall>v. set (us_groups (user_summary_of (tabs w1) v)) = member_names (u_id v) (tabs w1)) \<and>
    (\<exists>me. me_handler p w = (Inr me, w1) \<and> me_subject me = u_subject u \<and> sorted (me_groups me) \<and>
       set (me_groups me) = member_names (u_id u) (tabs w1))"
proof -
  have q1: "quiet w1" using resolve_principal_quiet [OF assms(1,2)] by auto
  have dist: "distinct (map u_id (users (tabs w1)))" using assms(3) by (simp add: wf_accounts_def)
  obtain m where m: "groups_by_user [u_id u] w1 = (Inr m, w1)"
    "(case m (u_id u) of Some ns \<Rightarrow> ns | None \<Rightarrow> []) = groups_of (u_id u) (tabs w1)"
    using groups_by_user_quiet [OF q1, of "[u_id u]"] by auto
  have "me_handler p w = (Inr \<lparr>me_subject = u_subject u, me_email = u_email u,
      me_groups = sort (groups_of (u_id u) (tabs w1))\<rparr>, w1)"
    using m by (simp add: me_handler_def assms(2) and_then_Inr map_err_def return_ok_apply Let_def)
  then show ?thesis
    using list_users_quiet [OF assms(1,2) dist] set_groups_of [OF assms(3)]
    by (simp add: user_summary_of_def)
qed

theorem user_listing_outcome_witness:
  "fst (list_users_handler bob None None demo_store) = Inl Forbidden \<and>
   (\<exists>me. me_handler bob demo_store = (Inr me, demo_store) \<and> set (me_groups me) = {''editors''})"
proof -
  have wf: "wf_accounts (tabs demo_store)"
    by (simp add: wf_accounts_def demo_tables_def)
  have "member_names 2 (tabs demo_store) = {''editors''}"
    by (force simp: member_names_def demo_tables_def membership_pairs_def)
  then show ?thesis
    using user_listing_outcome [OF demo_store_quiet demo_bob wf, of None None]
    by (auto simp: demo_bob_not_admin)
qed

end
