(* ===== verification/Mcp.thy ===== *)
theory Mcp
  imports Rest_Accounts
begin

text \<open>
  The MCP server (\<open>src/src/mcp\<close>): JSON-RPC requests and their classification (\<open>protocol.rs\<close>), errors
  and what of them goes on the wire (\<open>error.rs\<close>), the registry of entities and their five operations
  (\<open>registry.rs\<close>), output formats (\<open>format.rs\<close>) and the dispatch of a request (\<open>handler.rs\<close>).
  Parameters: serde's JSON parser and its error texts, the (de)serialization of an entity's model,
  and the Handlebars engine.
\<close>

section \<open>Protocol\<close>

record json_rpc_request =
  rq_id :: json
  rq_method :: string
  rq_params :: json

datatype parsed_request = Call json_rpc_request | Notification

datatype protocol_rejection = Parse_Rejected | Invalid_Request_Rejected

text \<open>\<open>from_slice\<close> is \<open>serde_json::from_slice::<Value>\<close>, None on any error.\<close>

definition parse_request ::
    "(nat list \<Rightarrow> json option) \<Rightarrow> nat list \<Rightarrow> protocol_rejection + parsed_request" where
  "parse_request from_slice body =
     (case from_slice body of None \<Rightarrow> Inl Parse_Rejected
      | Some value \<Rightarrow> (case as_object value of None \<Rightarrow> Inl Invalid_Request_Rejected
      | Some members \<Rightarrow>
          if Option.bind (map_of members ''jsonrpc'') as_str \<noteq> Some ''2.0''
          then Inl Invalid_Request_Rejected
          else (case Option.bind (map_of members ''method'') as_str of
                  None \<Rightarrow> Inl Invalid_Request_Rejected
                | Some m \<Rightarrow>
                    (case map_of members ''id'' of
                       Some (JString s) \<Rightarrow> Inr (Call \<lparr>rq_id = JString s, rq_method = m,
                         rq_params = (case map_of members ''params'' of Some p \<Rightarrow> p | None \<Rightarrow> JNull)\<rparr>)
                     | Some (JNumber n) \<Rightarrow> Inr (Call \<lparr>rq_id = JNumber n, rq_method = m,
                         rq_params = (case map_of members ''params'' of Some p \<Rightarrow> p | None \<Rightarrow> JNull)\<rparr>)
                     | Some _ \<Rightarrow> Inl Invalid_Request_Rejected
                     | None \<Rightarrow> Inr Notification))))"

record rpc_error =
  re_code :: int
  re_message :: string
  re_data :: "json option"

record json_rpc_response =
  rs_id :: json
  rs_result :: "json option"
  rs_error :: "rpc_error option"

definition rpc_ok :: "json \<Rightarrow> json \<Rightarrow> json_rpc_response" where
  "rpc_ok i result = \<lparr>rs_id = i, rs_result = Some result, rs_error = None\<rparr>"

definition rpc_err_with_data :: "json \<Rightarrow> int \<Rightarrow> string \<Rightarrow> json option \<Rightarrow> json_rpc_response" where
  "rpc_err_with_data i code message data =
     \<lparr>rs_id = i, rs_result = None,
      rs_error = Some \<lparr>re_code = code, re_message = message, re_data = data\<rparr>\<rparr>"

definition rpc_err :: "json \<Rightarrow> int \<Rightarrow> string \<Rightarrow> json_rpc_response" where
  "rpc_err i code message = rpc_err_with_data i code message None"

record tool_declaration =
  td_name :: string
  td_description :: string
  td_input_schema :: json

section \<open>Errors\<close>

datatype mcp_error =
    Mcp_Forbidden
  | Mcp_NotFound
  | Mcp_Database dberr
  | Mcp_Render string
  | InvalidParams string
  | UnknownTool string
  | Mcp_Internal string
  | Mcp_Application hook_error
  | MethodNotFound string
  | ParseError
  | InvalidRequest

text \<open>The \<open>Display\<close> text, with the text of a database error as a parameter.\<close>

fun mcp_error_text :: "(dberr \<Rightarrow> string) \<Rightarrow> mcp_error \<Rightarrow> string" where
  "mcp_error_text db_text Mcp_Forbidden = ''MRD-MCP-001: forbidden''"
| "mcp_error_text db_text Mcp_NotFound = ''MRD-MCP-002: resource not found''"
| "mcp_error_text db_text (Mcp_Database d) = ''MRD-MCP-003: database error: '' @ db_text d"
| "mcp_error_text db_text (Mcp_Render s) = ''MRD-MCP-004: output rendering error: '' @ s"
| "mcp_error_text db_text (InvalidParams s) = ''MRD-MCP-005: invalid params: '' @ s"
| "mcp_error_text db_text (UnknownTool s) = ''MRD-MCP-006: unknown tool: '' @ s"
| "mcp_error_text db_text (Mcp_Internal s) = ''MRD-MCP-007: internal error: '' @ s"
| "mcp_error_text db_text (Mcp_Application e) = he_message e"
| "mcp_error_text db_text (MethodNotFound s) = ''MRD-MCP-008: method not found: '' @ s"
| "mcp_error_text db_text ParseError = ''MRD-MCP-009: parse error''"
| "mcp_error_text db_text InvalidRequest = ''MRD-MCP-010: invalid request''"

fun rpc_code :: "mcp_error \<Rightarrow> int" where
  "rpc_code (Mcp_Application _) = -32000"
| "rpc_code Mcp_Forbidden = -32001"
| "rpc_code Mcp_NotFound = -32002"
| "rpc_code (UnknownTool _) = -32601"
| "rpc_code (MethodNotFound _) = -32601"
| "rpc_code InvalidRequest = -32600"
| "rpc_code (InvalidParams _) = -32602"
| "rpc_code ParseError = -32700"
| "rpc_code (Mcp_Database _) = -32603"
| "rpc_code (Mcp_Render _) = -32603"
| "rpc_code (Mcp_Internal _) = -32603"

fun wire_message :: "(dberr \<Rightarrow> string) \<Rightarrow> mcp_error \<Rightarrow> string" where
  "wire_message db_text (Mcp_Database _) = ''MRD-MCP-003: database error''"
| "wire_message db_text (Mcp_Render _) = ''MRD-MCP-004: output rendering error''"
| "wire_message db_text (Mcp_Internal _) = ''MRD-MCP-007: internal error''"
| "wire_message db_text e = mcp_error_text db_text e"

fun mcp_error_data :: "mcp_error \<Rightarrow> json option" where
  "mcp_error_data (Mcp_Application e) =
     Some (obj [(''code'', case he_code e of Some c \<Rightarrow> JString c | None \<Rightarrow> JNull)])"
| "mcp_error_data _ = None"

fun mcp_error_from_rest :: "rest_error \<Rightarrow> mcp_error" where
  "mcp_error_from_rest NotFound = Mcp_NotFound"
| "mcp_error_from_rest Forbidden = Mcp_Forbidden"
| "mcp_error_from_rest (Rest_Database e) = Mcp_Database e"
| "mcp_error_from_rest (Application e) = Mcp_Application e"
| "mcp_error_from_rest (Rest_Internal s) = Mcp_Internal s"
| "mcp_error_from_rest (InvalidInput s) = InvalidParams s"
| "mcp_error_from_rest Conflict = Mcp_Internal ''MRD-REST-006: conflict''"

section \<open>Parameters of a call\<close>

record list_params =
  lp_page :: "u64 option"
  lp_per_page :: "u64 option"
  lp_filter :: "string option"

definition list_params_from :: "(string \<Rightarrow> json \<Rightarrow> string) \<Rightarrow> json \<Rightarrow> mcp_error + list_params" where
  "list_params_from bad v =
     (case struct_fields [''page'', ''per_page'', ''filter''] v of
        Some [p, pp, f] \<Rightarrow>
          (case (optional_field (json_to_unsigned 64) p, optional_field (json_to_unsigned 64) pp,
                 optional_field as_str f) of
             (Some p, Some pp, Some f) \<Rightarrow>
               Inr \<lparr>lp_page = map_option of_nat p, lp_per_page = map_option of_nat pp, lp_filter = f\<rparr>
           | _ \<Rightarrow> Inl (InvalidParams (bad ''ListParams'' v)))
      | _ \<Rightarrow> Inl (InvalidParams (bad ''ListParams'' v)))"

definition id_params_from :: "(string \<Rightarrow> json \<Rightarrow> string) \<Rightarrow> json \<Rightarrow> mcp_error + int" where
  "id_params_from bad v =
     (case struct_fields [''id''] v of
        Some [Some x] \<Rightarrow> (case json_to_i32 x of
            Some i \<Rightarrow> Inr i | None \<Rightarrow> Inl (InvalidParams (bad ''IdParams'' v)))
      | _ \<Rightarrow> Inl (InvalidParams (bad ''IdParams'' v)))"

section \<open>Entities\<close>

datatype mcp_op = Op_List | Op_Get | Op_Create | Op_Update | Op_Delete

record 'w mcp_entity =
  me_resource_name :: string
  me_call :: "mcp_op \<Rightarrow> auth_principal \<Rightarrow> json \<Rightarrow> ('w, mcp_error, json) act"

text \<open>\<open>serde_json::to_value\<close> of a page, with \<open>ser\<close> for the model.\<close>

fun to_values :: "('r \<Rightarrow> string + json) \<Rightarrow> 'r list \<Rightarrow> string + json list" where
  "to_values ser [] = Inr []"
| "to_values ser (r # rs) =
     (case ser r of Inl e \<Rightarrow> Inl e
      | Inr v \<Rightarrow> (case to_values ser rs of Inl e \<Rightarrow> Inl e | Inr vs \<Rightarrow> Inr (v # vs)))"

definition page_to_value :: "('r \<Rightarrow> string + json) \<Rightarrow> 'r paged_result \<Rightarrow> string + json" where
  "page_to_value ser r =
     (case to_values ser (items r) of Inl e \<Rightarrow> Inl e
      | Inr vs \<Rightarrow> Inr (obj [(''items'', JArray vs),
          (''page'', JNumber (Int_Num (uint (pr_page r)))),
          (''per_page'', JNumber (Int_Num (uint (pr_per_page r)))),
          (''total_items'', JNumber (Int_Num (int (total_items r)))),
          (''total_pages'', JNumber (Int_Num (int (total_pages r))))]))"

definition rendered :: "string + 'a \<Rightarrow> ('w, mcp_error, 'a) act" where
  "rendered r = map_err Mcp_Render (lift_result r)"

text \<open>
  \<open>de\<close> and \<open>ser\<close> are the entity's \<open>Deserialize\<close> and \<open>Serialize\<close> for its model.
\<close>

definition entity_call ::
    "(string \<Rightarrow> json \<Rightarrow> string) \<Rightarrow> (json \<Rightarrow> string + row) \<Rightarrow> (row \<Rightarrow> string + json) \<Rightarrow> resource \<Rightarrow>
     mcp_op \<Rightarrow> auth_principal \<Rightarrow> json \<Rightarrow> (row tables world, mcp_error, json) act" where
  "entity_call bad de ser E op p params =
     (case op of
        Op_List \<Rightarrow>
          and_then (lift_result (list_params_from bad params)) (\<lambda>lp.
          and_then (map_err mcp_error_from_rest
              (rest_list E p (lp_page lp) (lp_per_page lp) (lp_filter lp))) (\<lambda>pg.
            rendered (page_to_value ser pg)))
      | Op_Get \<Rightarrow>
          and_then (lift_result (id_params_from bad params)) (\<lambda>i.
          and_then (map_err mcp_error_from_rest (rest_get E p i)) (\<lambda>record. rendered (ser record)))
      | Op_Create \<Rightarrow>
          and_then (map_err InvalidParams (lift_result (de params))) (\<lambda>body.
          and_then (map_err mcp_error_from_rest (rest_create E p body)) (\<lambda>created. rendered (ser created)))
      | Op_Update \<Rightarrow>
          and_then (lift_result (id_params_from bad params)) (\<lambda>i.
          and_then (map_err InvalidParams (lift_result (de params))) (\<lambda>body.
          and_then (map_err mcp_error_from_rest (rest_update E p i body)) (\<lambda>updated. rendered (ser updated))))
      | Op_Delete \<Rightarrow>
          and_then (lift_result (id_params_from bad params)) (\<lambda>i.
          and_then (map_err mcp_error_from_rest (rest_delete E p i)) (\<lambda>_. return_ok JNull)))"

definition mcp_entity_impl ::
    "(string \<Rightarrow> json \<Rightarrow> string) \<Rightarrow> (json \<Rightarrow> string + row) \<Rightarrow> (row \<Rightarrow> string + json) \<Rightarrow> resource \<Rightarrow>
     row tables world mcp_entity" where
  "mcp_entity_impl bad de ser E =
     \<lparr>me_resource_name = resource_name E, me_call = entity_call bad de ser E\<rparr>"

section \<open>Registry and formats\<close>

datatype output_format = Json_Format | Yaml_Format | Markdown_Format | Custom_Format string

datatype render_shape = Record_Shape | List_Shape

text \<open>The registry's \<open>BTreeMap\<close>, as its entries in the order of the names.\<close>

record 'w mcp_registry =
  mr_format :: output_format
  mr_entities :: "(string \<times> 'w mcp_entity) list"

definition registry_new :: "output_format \<Rightarrow> 'w mcp_registry" where
  "registry_new f = \<lparr>mr_format = f, mr_entities = []\<rparr>"

text \<open>\<open>register\<close> panics (None) on a name that is already there.\<close>

definition register :: "'w mcp_entity \<Rightarrow> 'w mcp_registry \<Rightarrow> 'w mcp_registry option" where
  "register e r =
     (if map_of (mr_entities r) (me_resource_name e) \<noteq> None then None
      else Some (r\<lparr>mr_entities := insort_key fst (me_resource_name e, e) (mr_entities r)\<rparr>))"

definition default_json_template :: string where
  "default_json_template = ''{{json_to_str this format=\"json_pretty\"}}''"

definition default_yaml_template :: string where
  "default_yaml_template = ''{{json_to_str this format=\"yaml\"}}''"

definition newline :: string where "newline = [char_of (10::nat)]"

definition default_markdown_record_template :: string where
  "default_markdown_record_template =
     ''{{#each this}}'' @ newline @ ''- **{{@key}}**: {{this}}'' @ newline @ ''{{/each}}'' @ newline"

definition default_markdown_list_template :: string where
  "default_markdown_list_template =
     ''{{#each items}}'' @ newline @ ''- {{#each this}}{{@key}}={{this}} {{/each}}'' @ newline @
     ''{{/each}}'' @ newline @ ''_page {{page}}/{{total_pages}}, {{total_items}} item(s) au total_'' @ newline"

fun format_template :: "output_format \<Rightarrow> render_shape \<Rightarrow> string" where
  "format_template (Custom_Format template) _ = template"
| "format_template Json_Format _ = default_json_template"
| "format_template Yaml_Format _ = default_yaml_template"
| "format_template Markdown_Format Record_Shape = default_markdown_record_template"
| "format_template Markdown_Format List_Shape = default_markdown_list_template"

text \<open>\<open>engine\<close> is the Handlebars engine of \<open>vynil_core\<close>.\<close>

definition render ::
    "(string \<Rightarrow> json \<Rightarrow> string + string) \<Rightarrow> output_format \<Rightarrow> render_shape \<Rightarrow> json \<Rightarrow> mcp_error + string" where
  "render engine f shape data =
     (case engine (format_template f shape) data of Inl e \<Rightarrow> Inl (Mcp_Render e) | Inr s \<Rightarrow> Inr s)"

section \<open>Dispatch\<close>

definition operations :: "(string \<times> mcp_op) list" where
  "operations = [(''_list'', Op_List), (''_get'', Op_Get), (''_create'', Op_Create),
                 (''_update'', Op_Update), (''_delete'', Op_Delete)]"

definition json_content_type :: "string option \<Rightarrow> bool" where
  "json_content_type raw =
     (case raw of None \<Rightarrow> False
      | Some raw \<Rightarrow>
          (let primary = map ascii_lower (trim_ascii (hd (split_on (CHR '';'') raw))) in
           primary = ''application/json'' \<or>
           (case strip_prefix ''application/'' primary of
              Some subtype \<Rightarrow> ends_with ''+json'' subtype | None \<Rightarrow> False)))"

definition error_response :: "(dberr \<Rightarrow> string) \<Rightarrow> json \<Rightarrow> mcp_error \<Rightarrow> json_rpc_response" where
  "error_response db_text i err =
     (case mcp_error_data err of
        Some data \<Rightarrow> rpc_err_with_data i (rpc_code err) (wire_message db_text err) (Some data)
      | None \<Rightarrow> rpc_err i (rpc_code err) (wire_message db_text err))"

definition rejection_response :: "(dberr \<Rightarrow> string) \<Rightarrow> protocol_rejection \<Rightarrow> json_rpc_response" where
  "rejection_response db_text rej =
     error_response db_text JNull
       (case rej of Parse_Rejected \<Rightarrow> ParseError | Invalid_Request_Rejected \<Rightarrow> InvalidRequest)"

definition protocol_version :: string where "protocol_version = ''2024-11-05''"

definition handle_initialize :: "json \<Rightarrow> json_rpc_response" where
  "handle_initialize i =
     rpc_ok i (obj [(''protocolVersion'', JString protocol_version),
                    (''capabilities'', obj [(''tools'', obj [])]),
                    (''serverInfo'', obj [(''name'', JString ''miryad-core''), (''version'', JString ''0.2.0'')])])"

definition type_schema :: "string \<Rightarrow> json" where
  "type_schema t = obj [(''type'', JString t)]"

definition id_schema :: json where
  "id_schema = obj [(''type'', JString ''object''), (''properties'', obj [(''id'', type_schema ''integer'')]),
                    (''required'', JArray [JString ''id''])]"

definition tools_of :: "string \<Rightarrow> tool_declaration list" where
  "tools_of name =
     [\<lparr>td_name = name @ ''_list'', td_description = ''List '' @ name @ '', paginated'',
       td_input_schema = obj [(''type'', JString ''object''), (''properties'',
         obj [(''page'', type_schema ''integer''), (''per_page'', type_schema ''integer''),
              (''filter'', type_schema ''string'')])]\<rparr>,
      \<lparr>td_name = name @ ''_get'', td_description = ''Get a single '' @ name @ '' by id'',
       td_input_schema = id_schema\<rparr>,
      \<lparr>td_name = name @ ''_create'', td_description = ''Create a new '' @ name,
       td_input_schema = type_schema ''object''\<rparr>,
      \<lparr>td_name = name @ ''_update'', td_description = ''Update an existing '' @ name @ '' by id'',
       td_input_schema = id_schema\<rparr>,
      \<lparr>td_name = name @ ''_delete'', td_description = ''Delete a '' @ name @ '' by id'',
       td_input_schema = id_schema\<rparr>]"

definition tool_to_value :: "tool_declaration \<Rightarrow> json" where
  "tool_to_value t = obj [(''name'', JString (td_name t)), (''description'', JString (td_description t)),
                          (''inputSchema'', td_input_schema t)]"

definition handle_tools_list :: "json \<Rightarrow> 'w mcp_registry \<Rightarrow> json_rpc_response" where
  "handle_tools_list i registry =
     (let names = sort (map (\<lambda>kv. me_resource_name (snd kv)) (mr_entities registry)) in
      rpc_ok i (obj [(''tools'', JArray (map tool_to_value (concat (map tools_of names))))]))"

definition empty_arguments :: json where "empty_arguments = JObject []"

definition tool_call_params :: "(string \<Rightarrow> json \<Rightarrow> string) \<Rightarrow> json \<Rightarrow> mcp_error + (string \<times> json)" where
  "tool_call_params bad v =
     (case struct_fields [''name'', ''arguments''] v of
        Some [Some (JString name), args] \<Rightarrow>
          Inr (name, (case args of Some a \<Rightarrow> a | None \<Rightarrow> empty_arguments))
      | _ \<Rightarrow> Inl (InvalidParams (bad ''ToolCallParams'' v)))"

fun find_suffix :: "(string \<times> mcp_op) list \<Rightarrow> string \<Rightarrow> (string \<times> mcp_op) option" where
  "find_suffix [] name = None"
| "find_suffix ((suffix, op) # ops) name =
     (case strip_suffix suffix name of Some res \<Rightarrow> Some (res, op) | None \<Rightarrow> find_suffix ops name)"

definition parse_tool_name :: "string \<Rightarrow> (string \<times> mcp_op) option" where
  "parse_tool_name = find_suffix operations"

definition text_content :: "string \<Rightarrow> json" where
  "text_content s = obj [(''content'', JArray [obj [(''type'', JString ''text''), (''text'', JString s)]])]"

definition handle_tools_call ::
    "(string \<Rightarrow> json \<Rightarrow> string) \<Rightarrow> (dberr \<Rightarrow> string) \<Rightarrow> (string \<Rightarrow> json \<Rightarrow> string + string) \<Rightarrow>
     json \<Rightarrow> json \<Rightarrow> 'w mcp_registry \<Rightarrow> auth_principal \<Rightarrow> 'w \<Rightarrow> json_rpc_response \<times> 'w" where
  "handle_tools_call bad db_text engine i params registry p w =
     (case tool_call_params bad params of
        Inl err \<Rightarrow> (error_response db_text i err, w)
      | Inr (name, arguments) \<Rightarrow>
     (case parse_tool_name name of
        None \<Rightarrow> (error_response db_text i (UnknownTool name), w)
      | Some (res, op) \<Rightarrow>
     (case map_of (mr_entities registry) res of
        None \<Rightarrow> (error_response db_text i (UnknownTool name), w)
      | Some entity \<Rightarrow>
          let arguments = (case arguments of JNull \<Rightarrow> empty_arguments | a \<Rightarrow> a) in
          (case me_call entity op p arguments w of
             (Inl err, w') \<Rightarrow> (error_response db_text i err, w')
           | (Inr data, w') \<Rightarrow>
               if op = Op_Delete then (rpc_ok i (text_content ''deleted''), w')
               else (case render engine (mr_format registry)
                            (if op = Op_List then List_Shape else Record_Shape) data of
                       Inr text \<Rightarrow> (rpc_ok i (text_content text), w')
                     | Inl err \<Rightarrow> (error_response db_text i err, w'))))))"

datatype mcp_http_response = Http_Json json_rpc_response | Http_Status nat

definition mcp_handler ::
    "(nat list \<Rightarrow> json option) \<Rightarrow> (string \<Rightarrow> json \<Rightarrow> string) \<Rightarrow> (dberr \<Rightarrow> string) \<Rightarrow>
     (string \<Rightarrow> json \<Rightarrow> string + string) \<Rightarrow> 'w mcp_registry \<Rightarrow> auth_principal \<Rightarrow> nat list \<Rightarrow>
     'w \<Rightarrow> mcp_http_response \<times> 'w" where
  "mcp_handler from_slice bad db_text engine registry p body w =
     (case parse_request from_slice body of
        Inl rej \<Rightarrow> (Http_Json (rejection_response db_text rej), w)
      | Inr Notification \<Rightarrow> (Http_Status 202, w)
      | Inr (Call rq) \<Rightarrow>
          if rq_method rq = ''initialize'' then (Http_Json (handle_initialize (rq_id rq)), w)
          else if rq_method rq = ''tools/list''
          then (Http_Json (handle_tools_list (rq_id rq) registry), w)
          else if rq_method rq = ''tools/call''
          then (case handle_tools_call bad db_text engine (rq_id rq) (rq_params rq) registry p w of
                  (r, w') \<Rightarrow> (Http_Json r, w'))
          else (Http_Json (error_response db_text (rq_id rq) (MethodNotFound (rq_method rq))), w))"


section \<open>Lemmas\<close>

lemma as_object_Some: "as_object v = Some kvs \<longleftrightarrow> v = JObject kvs"
  by (cases v) auto

lemma parse_request_Call:
  "parse_request from_slice body = Inr (Call rq) \<longleftrightarrow>
     (\<exists>kvs. from_slice body = Some (JObject kvs) \<and> map_of kvs ''jsonrpc'' = Some (JString ''2.0'') \<and>
       map_of kvs ''method'' = Some (JString (rq_method rq)) \<and> map_of kvs ''id'' = Some (rq_id rq) \<and>
       ((\<exists>s. rq_id rq = JString s) \<or> (\<exists>n. rq_id rq = JNumber n)) \<and>
       rq_params rq = (case map_of kvs ''params'' of Some v \<Rightarrow> v | None \<Rightarrow> JNull))"
  unfolding parse_request_def
  by (cases rq) (auto simp: bind_eq_Some_conv as_str_Some as_object_Some split: option.splits json.splits if_splits)

lemma parse_request_Notification:
  "parse_request from_slice body = Inr Notification \<longleftrightarrow>
     (\<exists>kvs m. from_slice body = Some (JObject kvs) \<and> map_of kvs ''jsonrpc'' = Some (JString ''2.0'') \<and>
       map_of kvs ''method'' = Some (JString m) \<and> map_of kvs ''id'' = None)"
  unfolding parse_request_def
  by (auto simp: bind_eq_Some_conv as_str_Some as_object_Some split: option.splits json.splits if_splits)

text \<open>No suffix of an operation is a suffix of another: names are read back as they were built.\<close>

lemma rev_suffix: "n @ a = r @ b \<longleftrightarrow> rev a @ rev n = rev b @ rev r"
  by (metis rev_append rev_rev_ident)

lemma strip_suffix_other:
  "\<forall>r n. rev a @ n \<noteq> rev b @ r \<Longrightarrow> strip_suffix b (n @ a) = None"
  using strip_suffix_Some [of b "n @ a"] rev_suffix [of n a _ b] by (metis option.exhaust)

lemma parse_tool_name_of: "(suffix, op) \<in> set operations \<Longrightarrow> parse_tool_name (n @ suffix) = Some (n, op)"
  by (auto simp: parse_tool_name_def operations_def strip_suffix_other)

lemma find_suffix_Some:
  "find_suffix ops name = Some (res, op) \<Longrightarrow> \<exists>suffix. (suffix, op) \<in> set ops \<and> name = res @ suffix"
  by (induction ops name rule: find_suffix.induct) (auto simp: strip_suffix_Some split: option.splits)

lemma tool_names: "td_name ` set (tools_of n) = (\<lambda>so. n @ fst so) ` set operations"
  by (simp add: tools_of_def operations_def)

text \<open>A registry built by \<open>register\<close>: sorted, each entity under its own name, no name twice.\<close>

definition wf_registry :: "'w mcp_registry \<Rightarrow> bool" where
  "wf_registry r \<longleftrightarrow> sorted (map fst (mr_entities r)) \<and> distinct (map fst (mr_entities r)) \<and>
     (\<forall>kv\<in>set (mr_entities r). me_resource_name (snd kv) = fst kv)"

lemma wf_registry_new: "wf_registry (registry_new f)"
  by (simp add: wf_registry_def registry_new_def)

lemma distinct_insort: "distinct (map f (insort_key g x xs)) \<longleftrightarrow> f x \<notin> f ` set xs \<and> distinct (map f xs)"
  by (induction xs) (auto simp: set_insort_key)

lemma wf_register: "wf_registry r \<Longrightarrow> register e r = Some r' \<Longrightarrow> wf_registry r'"
  by (auto simp: register_def wf_registry_def sorted_insort_key set_insort_key distinct_insort
      map_of_eq_None_iff split: if_splits)

lemma registered_names:
  assumes "wf_registry r"
  shows "set (map (\<lambda>kv. me_resource_name (snd kv)) (mr_entities r)) = dom (map_of (mr_entities r))"
  using assms by (force simp: wf_registry_def dom_map_of_conv_image_fst)

text \<open>The tools a response of \<open>tools/list\<close> declares.\<close>

definition declared_tools :: "'w mcp_registry \<Rightarrow> tool_declaration list" where
  "declared_tools r = concat (map tools_of (sort (map (\<lambda>kv. me_resource_name (snd kv)) (mr_entities r))))"

lemma tools_list_declares:
  "handle_tools_list i r = rpc_ok i (obj [(''tools'', JArray (map tool_to_value (declared_tools r)))])"
  by (simp add: handle_tools_list_def declared_tools_def Let_def)

lemma error_response_shape:
  "error_response db_text i e = rpc_err_with_data i (rpc_code e) (wire_message db_text e) (mcp_error_data e)"
  by (simp add: error_response_def rpc_err_def split: option.split)

lemma wire_message_db_free: "wire_message t1 e = wire_message t2 e"
  by (cases e) simp_all

section \<open>Properties\<close>

text \<open>
  The tools that \<open>tools/list\<close> declares are exactly the names a \<open>tools/call\<close> dispatches: a name is
  declared iff it reads back as a registered resource and an operation, and the built-in suffixes
  never clash, whatever the resource is called.
\<close>

theorem declared_tools_callable:
  assumes "wf_registry r"
  shows "(\<exists>t\<in>set (declared_tools r). td_name t = name) \<longleftrightarrow>
    (\<exists>res op e. parse_tool_name name = Some (res, op) \<and> map_of (mr_entities r) res = Some e)"
proof -
  have "(\<exists>t\<in>set (declared_tools r). td_name t = name) \<longleftrightarrow>
      (\<exists>res\<in>dom (map_of (mr_entities r)). name \<in> td_name ` set (tools_of res))"
    using registered_names [OF assms] by (auto simp: declared_tools_def)
  also have "\<dots> \<longleftrightarrow> (\<exists>res\<in>dom (map_of (mr_entities r)). \<exists>so\<in>set operations. name = res @ fst so)"
    by (auto simp: tool_names)
  also have "\<dots> \<longleftrightarrow> (\<exists>res op e. parse_tool_name name = Some (res, op) \<and> map_of (mr_entities r) res = Some e)"
  proof
    assume "\<exists>res\<in>dom (map_of (mr_entities r)). \<exists>so\<in>set operations. name = res @ fst so"
    then show "\<exists>res op e. parse_tool_name name = Some (res, op) \<and> map_of (mr_entities r) res = Some e"
      using parse_tool_name_of by (metis domD prod.collapse)
  next
    assume "\<exists>res op e. parse_tool_name name = Some (res, op) \<and> map_of (mr_entities r) res = Some e"
    then show "\<exists>res\<in>dom (map_of (mr_entities r)). \<exists>so\<in>set operations. name = res @ fst so"
      using find_suffix_Some unfolding parse_tool_name_def by (metis domI fst_conv)
  qed
  finally show ?thesis .
qed

definition demo_ser :: "row \<Rightarrow> string + json" where
  "demo_ser r = Inr (obj [(''id'', JNumber (Int_Num (row_int (r ''id''))))])"

definition demo_de :: "json \<Rightarrow> string + row" where
  "demo_de v = (case json_get v ''id'' of
     Some (JNumber (Int_Num i)) \<Rightarrow> Inr (demo_row i 0) | _ \<Rightarrow> Inl ''missing field'')"

definition demo_bad :: "string \<Rightarrow> json \<Rightarrow> string" where
  "demo_bad name v = ''invalid type for '' @ name"

definition demo_registry :: "row tables world mcp_registry" where
  "demo_registry = \<lparr>mr_format = Json_Format,
     mr_entities = [(''recipes'', mcp_entity_impl demo_bad demo_de demo_ser demo_resource)]\<rparr>"

theorem declared_tools_callable_witness:
  "\<exists>t\<in>set (declared_tools demo_registry). td_name t = ''recipes_get''"
proof -
  have wf: "wf_registry demo_registry"
    by (simp add: wf_registry_def demo_registry_def mcp_entity_impl_def)
  have "parse_tool_name ''recipes_get'' = Some (''recipes'', Op_Get)" by code_simp
  then show ?thesis
    using declared_tools_callable [OF wf, of "''recipes_get''"] by (simp add: demo_registry_def)
qed



text \<open>
  No text of the database engine reaches an MCP client: the whole answer to any request is the
  same whatever the texts of its database errors.
\<close>

theorem mcp_hides_database_text:
  "mcp_handler from_slice bad db_text1 engine registry p body w =
   mcp_handler from_slice bad db_text2 engine registry p body w"
proof -
  have eq: "error_response db_text1 = error_response db_text2"
    by (intro ext) (simp add: error_response_shape wire_message_db_free [of db_text1 _ db_text2])
  show ?thesis
    by (simp only: mcp_handler_def handle_tools_call_def rejection_response_def eq)
qed

text \<open>
  Arequest changes the database only through a registered tool: whenever the world changes, the
  body is a well-formed call of \<open>tools/call\<close> with an id, naming a registered resource and an
  operation, and the change is the one of that operation. Every answer to a call carries the id of
  its request and exactly one of a result and an error.
\<close>

theorem mcp_effects_through_tools:
  "(snd (mcp_handler from_slice bad db_text engine registry p body w) = w \<or>
     (\<exists>rq name args res op e. parse_request from_slice body = Inr (Call rq) \<and> rq_method rq = ''tools/call'' \<and>
        tool_call_params bad (rq_params rq) = Inr (name, args) \<and> parse_tool_name name = Some (res, op) \<and>
        map_of (mr_entities registry) res = Some e \<and>
        snd (mcp_handler from_slice bad db_text engine registry p body w) =
          snd (me_call e op p (if args = JNull then JObject [] else args) w))) \<and>
   (case fst (mcp_handler from_slice bad db_text engine registry p body w) of
      Http_Status c \<Rightarrow> c = 202 \<and> parse_request from_slice body = Inr Notification
    | Http_Json r \<Rightarrow> (rs_result r = None) \<noteq> (rs_error r = None) \<and>
        rs_id r = (case parse_request from_slice body of Inr (Call rq) \<Rightarrow> rq_id rq | _ \<Rightarrow> JNull))"
proof -
  have args: "(case args of JNull \<Rightarrow> empty_arguments | a \<Rightarrow> a) = (if args = JNull then JObject [] else args)" for args
    by (cases args) (simp_all add: empty_arguments_def)
  have call_shape: "rs_id (fst (handle_tools_call bad db_text engine i params registry p w)) = i \<and>
      (rs_result (fst (handle_tools_call bad db_text engine i params registry p w)) = None) \<noteq>
      (rs_error (fst (handle_tools_call bad db_text engine i params registry p w)) = None)" for i params
    by (simp add: handle_tools_call_def error_response_shape rpc_err_with_data_def rpc_ok_def Let_def
        split: sum.split option.split prod.split)
  have call_effect: "snd (handle_tools_call bad db_text engine i params registry p w) = w \<or>
      (\<exists>name args res op e. tool_call_params bad params = Inr (name, args) \<and>
        parse_tool_name name = Some (res, op) \<and> map_of (mr_entities registry) res = Some e \<and>
        snd (handle_tools_call bad db_text engine i params registry p w) =
          snd (me_call e op p (if args = JNull then JObject [] else args) w))" for i params
  proof (cases "\<exists>name args res op e. tool_call_params bad params = Inr (name, args) \<and>
      parse_tool_name name = Some (res, op) \<and> map_of (mr_entities registry) res = Some e")
    case True
    then obtain name args res op e where c: "tool_call_params bad params = Inr (name, args)"
      "parse_tool_name name = Some (res, op)" "map_of (mr_entities registry) res = Some e" by blast
    have "snd (handle_tools_call bad db_text engine i params registry p w) =
        snd (me_call e op p (if args = JNull then JObject [] else args) w)"
      by (simp add: handle_tools_call_def c args Let_def split: sum.split prod.split)
    with c show ?thesis by blast
  next
    case False
    then show ?thesis
      by (auto simp: handle_tools_call_def split: sum.split option.split prod.split)
  qed
  show ?thesis
  proof (cases "parse_request from_slice body")
    case (Inl rej)
    then show ?thesis
      by (simp add: mcp_handler_def rejection_response_def error_response_shape rpc_err_with_data_def)
  next
    case (Inr parsed)
    show ?thesis
    proof (cases parsed)
      case Notification
      with Inr show ?thesis by (simp add: mcp_handler_def)
    next
      case (Call rq)
      then show ?thesis
        using Inr call_shape [of "rq_id rq" "rq_params rq"] call_effect [of "rq_id rq" "rq_params rq"]
        by (cases "handle_tools_call bad db_text engine (rq_id rq) (rq_params rq) registry p w")
          (simp add: mcp_handler_def handle_initialize_def handle_tools_list_def error_response_shape
            rpc_err_with_data_def rpc_ok_def Let_def)
    qed
  qed
qed

end
