(* ===== verification/Sessions.thy ===== *)
theory Sessions
  imports Auth_Tokens
begin

text \<open>
  Browser sessions and the sources of authentication: the sealed cookies
  (\<open>src/src/auth/cookie.rs\<close>), the extractors (\<open>auth/dual.rs\<close>, \<open>auth/middleware.rs\<close>), the OIDC client
  (\<open>auth/oidc.rs\<close>), and the handlers of login, callback and logout (\<open>auth/mod.rs\<close>). The libraries
  these files call are the fields of \<open>auth_lib\<close>: the private cookie jar (its random nonce is an
  argument), base64, \<open>serde_json\<close> and HMAC. The clock of a world counts nanoseconds.
\<close>

section \<open>Libraries, identities and state\<close>

text \<open>
  \<open>al_seal key nonce name value\<close> and \<open>al_unseal key name text\<close>: \<open>PrivateJar\<close>, which authenticates
  the name of the cookie. \<open>al_value\<close> parses a \<open>serde_json::Value\<close>; \<open>al_struct\<close> parses for a derived
  struct, where a repeated field is an error too.
\<close>

record auth_lib =
  al_seal :: "string \<Rightarrow> nat \<Rightarrow> string \<Rightarrow> string \<Rightarrow> string"
  al_unseal :: "string \<Rightarrow> string \<Rightarrow> string \<Rightarrow> string option"
  al_b64url :: "string \<Rightarrow> string option"
  al_value :: "string \<Rightarrow> json option"
  al_struct :: "string \<Rightarrow> json option"
  al_print :: "json \<Rightarrow> string"
  al_hmac :: "string \<Rightarrow> string \<Rightarrow> string option"
  al_header_error :: string

record oidc_identity =
  oi_id_token :: string
  oi_subject :: string
  oi_email :: "string option"
  oi_preferred_username :: "string option"

record oidc_login_result =
  lr_identity :: oidc_identity
  lr_groups :: "string list"

text \<open>\<open>OidcClientTrait\<close>: the address of the provider with the three fresh secrets, the exchange, the check.\<close>

record oidc_client =
  oc_authorization_url :: "string \<times> string \<times> string \<times> string"
  oc_exchange_code :: "string \<Rightarrow> string \<Rightarrow> string \<Rightarrow> auth_error + oidc_login_result"
  oc_verify_bearer :: "string \<Rightarrow> auth_error + oidc_identity"

record auth_state =
  as_oidc_client :: oidc_client
  as_cookie_key :: string
  as_post_login_redirect :: string
  as_post_logout_redirect :: string
  as_secure_cookies :: bool
  as_token_pepper :: string

record auth_headers =
  hd_authorization :: "string option"
  hd_cookie :: "string option"

text \<open>\<open>HeaderValue::to_str\<close> and \<open>HeaderValue::from_str\<close>.\<close>

definition to_str :: "string \<Rightarrow> string option" where
  "to_str s = (if \<forall>c\<in>set s. c = CHR 0x09 \<or> 32 \<le> (of_char c :: nat) \<and> (of_char c :: nat) < 127
               then Some s else None)"

definition header_ok :: "string \<Rightarrow> bool" where
  "header_ok s \<longleftrightarrow> (\<forall>c\<in>set s. c = CHR 0x09 \<or> 32 \<le> (of_char c :: nat) \<and> (of_char c :: nat) \<noteq> 127)"

text \<open>\<open>duration_since(UNIX_EPOCH)\<close> in seconds: None before the epoch.\<close>

definition unix_secs :: "int \<Rightarrow> nat option" where
  "unix_secs t = (if t < 0 then None else Some (nat (t div 10 ^ 9)))"

section \<open>The expiry of an \<open>id_token\<close>\<close>

text \<open>The nearest double of an integer, ties to even: 53 bits are kept.\<close>

fun bit_length :: "nat \<Rightarrow> nat" where
  "bit_length n = (if n = 0 then 0 else Suc (bit_length (n div 2)))"

declare bit_length.simps [simp del]

definition round_53 :: "nat \<Rightarrow> nat" where
  "round_53 n =
     (if n < 2 ^ 53 then n
      else let k = bit_length n - 53; q = n div 2 ^ k; r = n mod 2 ^ k; h = 2 ^ (k - 1)
           in (if h < r \<or> h = r \<and> odd q then q + 1 else q) * 2 ^ k)"

fun to_f64 :: "number \<Rightarrow> rat" where
  "to_f64 (Int_Num i) = (if 0 \<le> i then of_nat (round_53 (nat i)) else - of_nat (round_53 (nat (- i))))"
| "to_f64 (Float_Num q) = q"

definition trunc_rat :: "rat \<Rightarrow> int" where
  "trunc_rat q = (if q < 0 then \<lceil>q\<rceil> else \<lfloor>q\<rfloor>)"

text \<open>A number of a JSON text is finite. Only an exact number of seconds below \<open>2 ^ 53\<close> is kept.\<close>

definition exact_seconds :: "rat \<Rightarrow> nat option" where
  "exact_seconds q = (if q = of_int (trunc_rat q) \<and> 0 \<le> q \<and> q < 2 ^ 53 then Some (nat \<lfloor>q\<rfloor>) else None)"

text \<open>A derived struct, of an object or of an array of all its fields.\<close>

definition struct_of :: "string list \<Rightarrow> json \<Rightarrow> json option list option" where
  "struct_of names v =
     (case v of
        JArray xs \<Rightarrow> if length xs = length names then struct_fields names v else None
      | _ \<Rightarrow> struct_fields names v)"

definition exp_field :: "json \<Rightarrow> rat option" where
  "exp_field v =
     (case struct_of [''exp''] v of
        Some [Some (JNumber n)] \<Rightarrow> Some (to_f64 n)
      | _ \<Rightarrow> None)"

definition extract_exp_claim :: "auth_lib \<Rightarrow> string \<Rightarrow> nat option" where
  "extract_exp_claim L jwt =
     (case split_on CHR ''.'' jwt of
        [_, payload, _] \<Rightarrow>
          Option.bind (al_b64url L payload) (\<lambda>bytes.
          Option.bind (al_struct L bytes) (\<lambda>v.
          Option.bind (exp_field v) exact_seconds))
      | _ \<Rightarrow> None)"

section \<open>Cookies\<close>

definition session_cookie_name :: string where "session_cookie_name = ''miryad_session''"
definition pending_cookie_name :: string where "pending_cookie_name = ''miryad_oidc_pending''"

definition opt_string :: "string option \<Rightarrow> json" where
  "opt_string s = (case s of None \<Rightarrow> JNull | Some x \<Rightarrow> JString x)"

definition payload_fields :: "string list" where
  "payload_fields = [''id_token'', ''subject'', ''email'', ''preferred_username'']"

definition payload_json :: "oidc_identity \<Rightarrow> json" where
  "payload_json i = JObject (zip payload_fields
     [JString (oi_id_token i), JString (oi_subject i), opt_string (oi_email i), opt_string (oi_preferred_username i)])"

definition payload_identity :: "json \<Rightarrow> oidc_identity option" where
  "payload_identity v =
     (case struct_of payload_fields v of
        Some [Some (JString tok), Some (JString subj), em, pu] \<Rightarrow>
          (case (optional_field as_str em, optional_field as_str pu) of
             (Some em', Some pu') \<Rightarrow>
               Some \<lparr>oi_id_token = tok, oi_subject = subj, oi_email = em', oi_preferred_username = pu'\<rparr>
           | _ \<Rightarrow> None)
      | _ \<Rightarrow> None)"

definition secure_attr :: "bool \<Rightarrow> string" where
  "secure_attr secure = (if secure then ''; Secure'' else '''')"

definition build_set_cookie :: "auth_lib \<Rightarrow> nat \<Rightarrow> int \<Rightarrow> oidc_identity \<Rightarrow> string \<Rightarrow> bool \<Rightarrow> string" where
  "build_set_cookie L nonce now identity k secure =
     (let expiry = (case extract_exp_claim L (oi_id_token identity) of None \<Rightarrow> 0 | Some e \<Rightarrow> e);
          secs = (case unix_secs now of None \<Rightarrow> 0 | Some s \<Rightarrow> s);
          max_age = expiry - secs;
          encrypted = al_seal L k nonce session_cookie_name (al_print L (payload_json identity))
      in session_cookie_name @ ''='' @ encrypted @ ''; HttpOnly'' @ secure_attr secure
           @ ''; SameSite=Strict; Path=/; Max-Age='' @ show_nat max_age)"

definition find_sealed_cookie :: "auth_lib \<Rightarrow> string option \<Rightarrow> string \<Rightarrow> string \<Rightarrow> auth_error + string" where
  "find_sealed_cookie L header name k =
     (case header of
        None \<Rightarrow> Inl NotAuthenticated
      | Some h \<Rightarrow>
          (case List.map_filter
                  (\<lambda>segment. case split_once CHR ''='' segment of
                     Some (n, v) \<Rightarrow> if n = name then Some v else None
                   | None \<Rightarrow> None)
                  (filter (\<lambda>s. s \<noteq> []) (map trim_ascii (split_on CHR '';'' h))) of
             [] \<Rightarrow> Inl NotAuthenticated
           | v # _ \<Rightarrow>
               (case al_unseal L k name v of
                  None \<Rightarrow> Inl InvalidSession
                | Some clear \<Rightarrow> Inr clear)))"

definition extract_session :: "auth_lib \<Rightarrow> int \<Rightarrow> string option \<Rightarrow> string \<Rightarrow> auth_error + oidc_identity" where
  "extract_session L now header k =
     (case find_sealed_cookie L header session_cookie_name k of
        Inl e \<Rightarrow> Inl e
      | Inr clear \<Rightarrow>
          (case Option.bind (al_struct L clear) payload_identity of
             None \<Rightarrow> Inl InvalidSession
           | Some payload \<Rightarrow>
               (case extract_exp_claim L (oi_id_token payload) of
                  None \<Rightarrow> Inl InvalidSession
                | Some expiry \<Rightarrow>
                    (case unix_secs now of
                       None \<Rightarrow> Inl InvalidSession
                     | Some secs \<Rightarrow> if expiry \<le> secs then Inl InvalidSession else Inr payload))))"

definition clear_cookie :: "bool \<Rightarrow> string" where
  "clear_cookie secure =
     session_cookie_name @ ''=; HttpOnly'' @ secure_attr secure @ ''; SameSite=Strict; Path=/; Max-Age=0''"

section \<open>Extractors\<close>

definition bearer_token_material :: "string \<Rightarrow> string option" where
  "bearer_token_material v =
     (case get_to v 6 of
        Some prefix \<Rightarrow>
          (if map ascii_lower prefix = map ascii_lower ''Bearer''
           then Option.bind (get_from v 6) (strip_prefix '' '') else None)
      | None \<Rightarrow> None)"

definition is_jwt_shaped :: "string \<Rightarrow> bool" where
  "is_jwt_shaped material \<longleftrightarrow> count_list material CHR ''.'' = 2"

definition verify_bearer_jwt :: "auth_state \<Rightarrow> string \<Rightarrow> auth_error + auth_principal" where
  "verify_bearer_jwt st jwt =
     (case oc_verify_bearer (as_oidc_client st) jwt of
        Inl e \<Rightarrow> Inl e
      | Inr i \<Rightarrow> Inr \<lparr>subject = oi_subject i, email = oi_email i,
                      preferred_username = oi_preferred_username i, source = Bearer (oi_id_token i)\<rparr>)"

definition authenticate_api_token ::
    "auth_lib \<Rightarrow> auth_state \<Rightarrow> string \<Rightarrow> ('m tables world, auth_error, auth_principal) act" where
  "authenticate_api_token L st tok = validate_token (al_hmac L) tok (as_token_pepper st)"

definition session_principal :: "oidc_identity \<Rightarrow> auth_principal" where
  "session_principal i =
     \<lparr>subject = oi_subject i, email = oi_email i, preferred_username = oi_preferred_username i,
      source = Session (oi_id_token i)\<rparr>"

text \<open>\<open>AuthPrincipal::from_request_parts\<close>\<close>

definition principal_from_request ::
    "auth_lib \<Rightarrow> auth_state \<Rightarrow> auth_headers \<Rightarrow> ('m tables world, auth_error, auth_principal) act" where
  "principal_from_request L st hs =
     (case Option.bind (Option.bind (hd_authorization hs) to_str) bearer_token_material of
        Some material \<Rightarrow>
          (if is_jwt_shaped material then lift_result (verify_bearer_jwt st material)
           else authenticate_api_token L st material)
      | None \<Rightarrow>
          and_then utc_now (\<lambda>now.
            case extract_session L now (Option.bind (hd_cookie hs) to_str) (as_cookie_key st) of
              Inl e \<Rightarrow> fail_with e
            | Inr i \<Rightarrow> return_ok (session_principal i)))"

record auth_user =
  au_subject :: string
  au_email :: "string option"
  au_id_token :: string

text \<open>\<open>AuthUser::from_request_parts\<close>\<close>

definition user_from_request ::
    "auth_lib \<Rightarrow> auth_state \<Rightarrow> auth_headers \<Rightarrow> ('m tables world, auth_error, auth_user) act" where
  "user_from_request L st hs =
     and_then utc_now (\<lambda>now.
       case extract_session L now (Option.bind (hd_cookie hs) to_str) (as_cookie_key st) of
         Inl e \<Rightarrow> fail_with e
       | Inr i \<Rightarrow> return_ok \<lparr>au_subject = oi_subject i, au_email = oi_email i, au_id_token = oi_id_token i\<rparr>)"

section \<open>The OIDC client\<close>

text \<open>
  \<open>pem_items\<close> are the results of the iterator over the PEM certificates of the bundle. The HTTP
  client is built by \<open>reqwest\<close>: from the certificate, if any, then as a whole.
\<close>

fun first_cert :: "(string + 'c) list \<Rightarrow> string option \<Rightarrow> string option + unit" where
  "first_cert [] err = Inl err"
| "first_cert (Inr _ # items) err = Inr ()"
| "first_cert (Inl e # items) err = first_cert items (if err = None then Some e else err)"

definition validate_ca_cert_pem :: "(string + 'c) list \<Rightarrow> auth_error + unit" where
  "validate_ca_cert_pem pem_items =
     (case first_cert pem_items None of
        Inr _ \<Rightarrow> Inr ()
      | Inl err \<Rightarrow> Inl (Oidc (''MRD-AUTH-007: invalid OIDC CA cert: '' @
          (case err of None \<Rightarrow> ''no decodable PEM CERTIFICATE block'' | Some e \<Rightarrow> e))))"

definition build_http_client ::
    "(string \<Rightarrow> (string + 'c) list) \<Rightarrow> (string \<Rightarrow> string + 'd) \<Rightarrow> ('d option \<Rightarrow> string + 'h) \<Rightarrow>
     string option \<Rightarrow> auth_error + 'h" where
  "build_http_client pem_items from_pem build ca_cert =
     (let built = (\<lambda>cert. case build cert of
            Inl e \<Rightarrow> Inl (Oidc (''MRD-AUTH-008: failed to build OIDC HTTP client: '' @ e))
          | Inr client \<Rightarrow> Inr client)
      in case ca_cert of
           None \<Rightarrow> built None
         | Some pem \<Rightarrow>
             (case validate_ca_cert_pem (pem_items pem) of
                Inl e \<Rightarrow> Inl e
              | Inr _ \<Rightarrow>
                  (case from_pem pem of
                     Inl e \<Rightarrow> Inl (Oidc (''MRD-AUTH-007: invalid OIDC CA cert: '' @ e))
                   | Inr cert \<Rightarrow> built (Some cert))))"

definition string_items :: "json list \<Rightarrow> string list" where
  "string_items xs = List.map_filter as_str xs"

definition extract_groups_claim :: "auth_lib \<Rightarrow> string \<Rightarrow> string list" where
  "extract_groups_claim L jwt =
     (case split_on CHR ''.'' jwt of
        [_, payload_segment, _] \<Rightarrow>
          (case al_b64url L payload_segment of
             None \<Rightarrow> []
           | Some payload \<Rightarrow>
               (case al_value L payload of
                  None \<Rightarrow> []
                | Some v \<Rightarrow>
                    (case Option.bind (json_get v ''groups'') as_array of
                       None \<Rightarrow> []
                     | Some arr \<Rightarrow> string_items arr)))
      | _ \<Rightarrow> [])"

text \<open>
  What \<open>openidconnect\<close> does for the client: the claims of a verified token (with the expected nonce,
  or without one) and the answer of the token endpoint. The texts are those of its errors.
\<close>

datatype claims_error = Claims_Expired string | No_Matching_Key string | Other_Claims_Error string

fun claims_error_text :: "claims_error \<Rightarrow> string" where
  "claims_error_text (Claims_Expired s) = s"
| "claims_error_text (No_Matching_Key s) = s"
| "claims_error_text (Other_Claims_Error s) = s"

datatype exchange_failure = Exchange_Config string | Exchange_Request string

record id_claims =
  ic_subject :: string
  ic_email :: "string option"
  ic_preferred_username :: "string option"

record oidc_backend =
  ob_authorize :: "string list \<Rightarrow> string \<times> string \<times> string \<times> string"
  ob_exchange :: "string \<Rightarrow> string \<Rightarrow> exchange_failure + string option"
  ob_parses :: "string \<Rightarrow> bool"
  ob_claims :: "string \<Rightarrow> string option \<Rightarrow> claims_error + id_claims"

text \<open>The scopes added to the request; the library adds \<open>openid\<close> itself.\<close>

definition authorization_url ::
    "oidc_backend \<Rightarrow> string list \<Rightarrow> string \<times> string \<times> string \<times> string" where
  "authorization_url B scopes = ob_authorize B (filter (\<lambda>s. s \<noteq> ''openid'') scopes)"

text \<open>The second component is the flag \<open>jwks_rotation_needed\<close> after the call.\<close>

definition exchange_code ::
    "auth_lib \<Rightarrow> oidc_backend \<Rightarrow> bool \<Rightarrow> string \<Rightarrow> string \<Rightarrow> string \<Rightarrow> (auth_error + oidc_login_result) \<times> bool" where
  "exchange_code L B rot code expected_nonce pkce_verifier =
     (case ob_exchange B code pkce_verifier of
        Inl (Exchange_Config e) \<Rightarrow> (Inl (Oidc (''MRD-AUTH-009: OIDC code exchange config error: '' @ e)), rot)
      | Inl (Exchange_Request e) \<Rightarrow> (Inl (Oidc (''MRD-AUTH-009: OIDC code exchange failed: '' @ e)), rot)
      | Inr None \<Rightarrow> (Inl (Oidc ''MRD-AUTH-010: no id_token in response''), rot)
      | Inr (Some tok) \<Rightarrow>
          (case ob_claims B tok (Some expected_nonce) of
             Inl e \<Rightarrow>
               (Inl (Oidc (''MRD-AUTH-011: token verification failed: '' @ claims_error_text e)),
                (case e of No_Matching_Key _ \<Rightarrow> True | _ \<Rightarrow> rot))
           | Inr c \<Rightarrow>
               (Inr \<lparr>lr_identity = \<lparr>oi_id_token = tok, oi_subject = ic_subject c, oi_email = ic_email c,
                                   oi_preferred_username = ic_preferred_username c\<rparr>,
                     lr_groups = extract_groups_claim L tok\<rparr>, rot)))"

definition verify_bearer ::
    "oidc_backend \<Rightarrow> bool \<Rightarrow> string \<Rightarrow> (auth_error + oidc_identity) \<times> bool" where
  "verify_bearer B rot jwt =
     (if \<not> ob_parses B jwt then (Inl InvalidBearer, rot)
      else case ob_claims B jwt None of
             Inl (Claims_Expired _) \<Rightarrow> (Inl BearerExpired, rot)
           | Inl (No_Matching_Key _) \<Rightarrow> (Inl InvalidBearer, True)
           | Inl (Other_Claims_Error _) \<Rightarrow> (Inl InvalidBearer, rot)
           | Inr c \<Rightarrow>
               (Inr \<lparr>oi_id_token = jwt, oi_subject = ic_subject c, oi_email = ic_email c,
                     oi_preferred_username = ic_preferred_username c\<rparr>, rot))"

text \<open>The client as an object of the trait.\<close>

definition core_client :: "auth_lib \<Rightarrow> oidc_backend \<Rightarrow> string list \<Rightarrow> oidc_client" where
  "core_client L B scopes =
     \<lparr>oc_authorization_url = authorization_url B scopes,
      oc_exchange_code = (\<lambda>code nonce verifier. fst (exchange_code L B False code nonce verifier)),
      oc_verify_bearer = (\<lambda>jwt. fst (verify_bearer B False jwt))\<rparr>"

section \<open>Login, callback and logout\<close>

text \<open>A redirect (302): the location and the \<open>Set-Cookie\<close> headers, in order.\<close>

record redirect =
  rd_location :: string
  rd_set_cookies :: "string list"

definition respond_found :: "auth_lib \<Rightarrow> string \<Rightarrow> string list \<Rightarrow> auth_error + redirect" where
  "respond_found L location cookies =
     (if header_ok location \<and> list_all header_ok cookies
      then Inr \<lparr>rd_location = location, rd_set_cookies = cookies\<rparr>
      else Inl (Oidc (al_header_error L)))"

definition pending_set_cookie :: "string \<Rightarrow> bool \<Rightarrow> nat \<Rightarrow> string" where
  "pending_set_cookie v secure max_age =
     pending_cookie_name @ ''='' @ v @ ''; HttpOnly'' @ secure_attr secure
       @ ''; SameSite=Lax; Path=/; Max-Age='' @ show_nat max_age"

definition handler_login :: "auth_lib \<Rightarrow> nat \<Rightarrow> auth_state \<Rightarrow> auth_error + redirect" where
  "handler_login L nonce st =
     (case oc_authorization_url (as_oidc_client st) of
        (url, csrf_token, oidc_nonce, pkce_verifier) \<Rightarrow>
          (let pending_value = csrf_token @ '':'' @ oidc_nonce @ '':'' @ pkce_verifier;
               encrypted = al_seal L (as_cookie_key st) nonce pending_cookie_name pending_value
           in respond_found L url [pending_set_cookie encrypted (as_secure_cookies st) 300]))"

record callback_params =
  cp_code :: string
  cp_state :: string

definition handler_callback ::
    "auth_lib \<Rightarrow> nat \<Rightarrow> auth_state \<Rightarrow> callback_params \<Rightarrow> auth_headers \<Rightarrow> ('m tables world, auth_error, redirect) act" where
  "handler_callback L nonce st params hs =
     (case find_sealed_cookie L (Option.bind (hd_cookie hs) to_str) pending_cookie_name (as_cookie_key st) of
        Inl _ \<Rightarrow> fail_with InvalidCallback
      | Inr v \<Rightarrow>
          (case splitn 3 CHR '':'' v of
             [expected_csrf, nonce_part, verifier_part] \<Rightarrow>
               (if cp_state params \<noteq> expected_csrf then fail_with CsrfMismatch
                else case oc_exchange_code (as_oidc_client st) (cp_code params) nonce_part verifier_part of
                  Inl e \<Rightarrow> fail_with e
                | Inr login_result \<Rightarrow>
                    (let identity = lr_identity login_result in
                     and_then (map_err Auth_Database (resolve_user (oi_subject identity) (oi_email identity))) (\<lambda>user.
                     and_then (map_err Auth_Database (sync_group_memberships (u_id user) (lr_groups login_result))) (\<lambda>_.
                     and_then utc_now (\<lambda>now.
                       lift_result (respond_found L (as_post_login_redirect st)
                         [build_set_cookie L nonce now identity (as_cookie_key st) (as_secure_cookies st),
                          pending_set_cookie '''' (as_secure_cookies st) 0]))))))
           | _ \<Rightarrow> fail_with InvalidCallback))"

definition handler_logout :: "auth_lib \<Rightarrow> auth_state \<Rightarrow> auth_error + redirect" where
  "handler_logout L st =
     respond_found L (as_post_logout_redirect st) [clear_cookie (as_secure_cookies st)]"

section \<open>The contract of a bearer check\<close>

text \<open>
  What \<open>dual.rs\<close> relies on in \<open>OidcClientTrait::verify_bearer\<close>: the identity carries the token that
  was checked, and a refusal is one of the two bearer errors.
\<close>

locale bearer_verifier =
  fixes verify :: "string \<Rightarrow> auth_error + oidc_identity"
  assumes keeps_jwt: "verify jwt = Inr i \<Longrightarrow> oi_id_token i = jwt"
    and refusals: "verify jwt = Inl e \<Longrightarrow> e = InvalidBearer \<or> e = BearerExpired"
begin

lemma accepted:
  "oc_verify_bearer (as_oidc_client st) = verify \<Longrightarrow> verify_bearer_jwt st jwt = Inr p \<Longrightarrow>
     \<exists>i. verify jwt = Inr i \<and> subject p = oi_subject i \<and> source p = Bearer jwt"
  using keeps_jwt by (auto simp: verify_bearer_jwt_def split: sum.splits)

lemma refused:
  "oc_verify_bearer (as_oidc_client st) = verify \<Longrightarrow> verify_bearer_jwt st jwt = Inl e \<Longrightarrow>
     auth_error_status e = 401"
  using refusals by (fastforce simp: verify_bearer_jwt_def split: sum.splits)

end

lemma verify_bearer_Inr:
  "fst (verify_bearer B rot jwt) = Inr i \<longleftrightarrow>
     ob_parses B jwt \<and> (\<exists>c. ob_claims B jwt None = Inr c \<and> i = \<lparr>oi_id_token = jwt, oi_subject = ic_subject c,
       oi_email = ic_email c, oi_preferred_username = ic_preferred_username c\<rparr>)"
  by (auto simp: verify_bearer_def split: sum.splits claims_error.splits)

lemma verify_bearer_Inl:
  "fst (verify_bearer B rot jwt) = Inl e \<Longrightarrow> e = InvalidBearer \<or> e = BearerExpired"
  by (auto simp: verify_bearer_def split: sum.splits claims_error.splits if_splits)

lemma core_client_simps [simp]:
  "oc_verify_bearer (core_client L B scopes) = (\<lambda>jwt. fst (verify_bearer B False jwt))"
  "oc_exchange_code (core_client L B scopes) = (\<lambda>code n v. fst (exchange_code L B False code n v))"
  "oc_authorization_url (core_client L B scopes) = authorization_url B scopes"
  by (simp_all add: core_client_def)

interpretation core_bearer: bearer_verifier "\<lambda>jwt. fst (verify_bearer B False jwt)" for B
  by unfold_locales (auto simp: verify_bearer_Inr dest: verify_bearer_Inl)

section \<open>Lemmas on cookies\<close>

text \<open>A \<open>Cookie\<close> header as a client writes it, and the pair it stores from a \<open>Set-Cookie\<close> header.\<close>

fun cookie_header :: "(string \<times> string) list \<Rightarrow> string" where
  "cookie_header [] = []"
| "cookie_header [(n, v)] = n @ CHR ''='' # v"
| "cookie_header ((n, v) # cs) = n @ CHR ''='' # v @ CHR '';'' # CHR '' '' # cookie_header cs"

definition stored_cookie :: "string \<Rightarrow> (string \<times> string) option" where
  "stored_cookie s = split_once CHR ''='' (hd (split_on CHR '';'' s))"

definition cookie_text :: "string \<Rightarrow> bool" where
  "cookie_text s \<longleftrightarrow> list_all (\<lambda>c. c \<noteq> CHR '';'' \<and> \<not> ascii_ws c) s"

definition cookie_pairs_ok :: "(string \<times> string) list \<Rightarrow> bool" where
  "cookie_pairs_ok cs \<longleftrightarrow> list_all (\<lambda>(n, v). cookie_text n \<and> cookie_text v \<and> CHR ''='' \<notin> set n) cs"

lemma cookie_text_no_sep: "cookie_text s \<Longrightarrow> CHR '';'' \<notin> set s"
  by (auto simp: cookie_text_def list_all_iff)

lemma dropWhile_none: "\<forall>c\<in>set s. \<not> P c \<Longrightarrow> dropWhile P s = s"
  by (cases s) auto

lemma trim_plain: "\<forall>c\<in>set s. \<not> ascii_ws c \<Longrightarrow> trim_ascii s = s"
  by (simp add: trim_ascii_def dropWhile_none)

lemma trim_space: "trim_ascii (CHR '' '' # s) = trim_ascii s"
  by (simp add: trim_ascii_def ascii_ws_def)

lemma trim_split_space:
  "map trim_ascii (split_on CHR '';'' (CHR '' '' # s)) = map trim_ascii (split_on CHR '';'' s)"
  by (cases "split_on CHR '';'' s") (auto simp: trim_space)

lemma pair_plain:
  assumes "cookie_text n" "cookie_text v"
  shows "CHR '';'' \<notin> set (n @ CHR ''='' # v)" "trim_ascii (n @ CHR ''='' # v) = n @ CHR ''='' # v"
proof -
  have "\<not> ascii_ws CHR ''=''" by (simp add: ascii_ws_def)
  then have "\<forall>c\<in>set (n @ CHR ''='' # v). \<not> ascii_ws c"
    using assms unfolding cookie_text_def list_all_iff by (metis Un_iff set_ConsD set_append)
  then show "trim_ascii (n @ CHR ''='' # v) = n @ CHR ''='' # v" by (rule trim_plain)
qed (use assms in \<open>simp add: cookie_text_def list_all_iff; blast\<close>)

lemma header_segments:
  "cookie_pairs_ok cs \<Longrightarrow> filter (\<lambda>s. s \<noteq> []) (map trim_ascii (split_on CHR '';'' (cookie_header cs))) =
     map (\<lambda>(n, v). n @ CHR ''='' # v) cs"
proof (induction cs rule: cookie_header.induct)
  case 1
  then show ?case by (simp add: trim_ascii_def)
next
  case (2 n v)
  then have ok: "cookie_text n" "cookie_text v" by (simp_all add: cookie_pairs_ok_def)
  show ?case using pair_plain [OF ok] by (simp add: split_on_no_sep)
next
  case (3 n v c cs)
  then have ok: "cookie_text n" "cookie_text v" and rest: "cookie_pairs_ok (c # cs)"
    by (simp_all add: cookie_pairs_ok_def)
  have "split_on CHR '';'' (cookie_header ((n, v) # c # cs)) =
      (n @ CHR ''='' # v) # split_on CHR '';'' (CHR '' '' # cookie_header (c # cs))"
    using split_on_append [OF pair_plain(1) [OF ok], of "CHR '' '' # cookie_header (c # cs)"] by simp
  then show ?case
    using "3.IH" [OF rest] pair_plain(2) [OF ok] by (simp only: list.map trim_split_space) simp
qed

lemma named_values:
  "cookie_pairs_ok cs \<Longrightarrow> List.map_filter
     (\<lambda>segment. case split_once CHR ''='' segment of
        Some (n, v) \<Rightarrow> if n = name then Some v else None | None \<Rightarrow> None)
     (map (\<lambda>(n, v). n @ CHR ''='' # v) cs) = map snd (filter (\<lambda>p. fst p = name) cs)"
proof (induction cs)
  case (Cons p cs)
  obtain n v where p: "p = (n, v)" by force
  have "split_once CHR ''='' (n @ CHR ''='' # v) = Some (n, v)"
    using Cons.prems p by (intro split_once_append) (simp add: cookie_pairs_ok_def)
  with Cons p show ?case by (simp add: map_filter_simps cookie_pairs_ok_def)
qed (simp add: map_filter_simps)

lemma find_sealed_cookie_header:
  assumes "cookie_pairs_ok cs"
  shows "find_sealed_cookie L (Some (cookie_header cs)) name k =
    (case map_of cs name of
       None \<Rightarrow> Inl NotAuthenticated
     | Some v \<Rightarrow> (case al_unseal L k name v of None \<Rightarrow> Inl InvalidSession | Some c \<Rightarrow> Inr c))"
proof -
  have first: "(case map snd (filter (\<lambda>p. fst p = name) cs) of [] \<Rightarrow> d | v # _ \<Rightarrow> f v) =
      (case map_of cs name of None \<Rightarrow> d | Some v \<Rightarrow> f v)" for d :: "auth_error + string" and f
    by (induction cs) auto
  show ?thesis
    unfolding find_sealed_cookie_def option.case header_segments [OF assms] named_values [OF assms]
    by (rule first)
qed

lemma stored_cookie_pair:
  assumes "cookie_text n" "cookie_text v" "CHR ''='' \<notin> set n"
  shows "stored_cookie (n @ CHR ''='' # v @ CHR '';'' # rest) = Some (n, v)"
  using split_on_append [OF pair_plain(1) [OF assms(1,2)], of rest] assms(3)
  by (simp add: stored_cookie_def split_once_append)

lemma names_plain:
  "cookie_text session_cookie_name" "CHR ''='' \<notin> set session_cookie_name"
  "cookie_text pending_cookie_name" "CHR ''='' \<notin> set pending_cookie_name"
  by (simp_all add: session_cookie_name_def pending_cookie_name_def cookie_text_def ascii_ws_def)

lemma stored_session_cookie:
  "cookie_text (al_seal L k nonce session_cookie_name (al_print L (payload_json i))) \<Longrightarrow>
     stored_cookie (build_set_cookie L nonce now i k secure) =
       Some (session_cookie_name, al_seal L k nonce session_cookie_name (al_print L (payload_json i)))"
  unfolding build_set_cookie_def Let_def append_Cons append_Nil
  by (rule stored_cookie_pair [OF names_plain(1) _ names_plain(2)])

lemma stored_pending_cookie:
  "cookie_text v \<Longrightarrow> stored_cookie (pending_set_cookie v secure age) = Some (pending_cookie_name, v)"
  unfolding pending_set_cookie_def append_Cons append_Nil
  by (rule stored_cookie_pair [OF names_plain(3) _ names_plain(4)])

lemma payload_roundtrip: "payload_identity (payload_json i) = Some i"
  by (simp add: payload_identity_def payload_json_def struct_of_def payload_fields_def opt_string_def
      split: option.split)

section \<open>Lemmas on the expiry\<close>

lemma bit_length_bounds: "0 < n \<Longrightarrow> 2 ^ (bit_length n - 1) \<le> n \<and> 0 < bit_length n"
proof (induction n rule: bit_length.induct)
  case (1 n)
  show ?case
  proof (cases "n div 2 = 0")
    case True
    then have "n = 1" using "1.prems" by simp
    then show ?thesis by (simp add: bit_length.simps)
  next
    case False
    then have ih: "2 ^ (bit_length (n div 2) - 1) \<le> n div 2" "0 < bit_length (n div 2)"
      using "1.IH" "1.prems" by auto
    have "bit_length n - 1 = Suc (bit_length (n div 2) - 1)"
      using ih(2) "1.prems" by (subst bit_length.simps) simp
    moreover have "2 ^ bit_length (n div 2) = 2 * (2::nat) ^ (bit_length (n div 2) - 1)"
      using ih(2) by (cases "bit_length (n div 2)") simp_all
    moreover have "2 * (n div 2) \<le> n" by simp
    moreover have "0 < bit_length n" using "1.prems" by (subst bit_length.simps) simp
    ultimately show ?thesis using ih by (metis Suc_pred' diff_Suc_1 le_trans mult_le_mono2)
  qed
qed

lemma bit_length_upper: "n < 2 ^ bit_length n"
proof (induction n rule: bit_length.induct)
  case (1 n)
  then show ?case by (cases "n = 0"; subst bit_length.simps) simp_all
qed

lemma round_53_large: "2 ^ 53 \<le> n \<Longrightarrow> 2 ^ 53 \<le> round_53 n"
proof -
  assume n: "2 ^ 53 \<le> n"
  let ?k = "bit_length n - 53" and ?q = "n div 2 ^ (bit_length n - 53)"
  have "(2::nat) ^ 53 < 2 ^ bit_length n" using bit_length_upper [of n] n by linarith
  then have k: "53 < bit_length n" by (simp only: power_strict_increasing_iff)
  have "2 ^ (bit_length n - 1) \<le> n" using bit_length_bounds [of n] n by simp
  then have le: "(2::nat) ^ (bit_length n - 1) div 2 ^ ?k \<le> ?q" by (rule div_le_mono)
  have "bit_length n - 1 = 52 + ?k" using k by simp
  then have "(2::nat) ^ (bit_length n - 1) div 2 ^ ?k = 2 ^ 52"
    by (simp only: power_add nonzero_mult_div_cancel_right power_not_zero zero_neq_numeral not_False_eq_True)
  with le have q: "2 ^ 52 \<le> ?q" by (simp only:)
  have "(2::nat) ^ 53 \<le> 2 ^ 52 * 2 ^ ?k"
    using k power_increasing [of 53 "52 + ?k" "2::nat"] by (simp only: power_add)
  also have "\<dots> \<le> ?q * 2 ^ ?k" using q by (rule mult_le_mono1)
  also have "\<dots> \<le> round_53 n"
  proof -
    have eq: "\<not> n < 2 ^ 53" using n by (simp only: not_less)
    show ?thesis
      unfolding round_53_def Let_def if_not_P [OF eq] by (rule mult_le_mono1) simp
  qed
  finally show ?thesis .
qed

lemma exact_seconds_of_nat: "exact_seconds (of_nat n) = (if n < 2 ^ 53 then Some n else None)"
proof -
  have lt: "(of_nat n < (2 ^ 53 :: rat)) \<longleftrightarrow> n < 2 ^ 53"
    using of_nat_less_iff [of n "2 ^ 53", where ?'a = rat] by simp
  have t: "trunc_rat (of_nat n) = int n" by (simp add: trunc_rat_def)
  show ?thesis
    unfolding exact_seconds_def lt t by simp
qed

lemma exact_seconds_Some: "exact_seconds q = Some n \<longleftrightarrow> q = of_nat n \<and> n < 2 ^ 53"
proof
  assume s: "exact_seconds q = Some n"
  then have "q = of_int (trunc_rat q)" "0 \<le> q" "n = nat \<lfloor>q\<rfloor>"
    by (auto simp: exact_seconds_def split: if_splits)
  moreover from this have "trunc_rat q = int n" by (simp add: trunc_rat_def)
  ultimately have q: "q = of_nat n" by simp
  with s exact_seconds_of_nat [of n] show "q = of_nat n \<and> n < 2 ^ 53" by (auto split: if_splits)
qed (simp add: exact_seconds_of_nat)

lemma exact_seconds_int:
  "exact_seconds (to_f64 (Int_Num i)) = (if 0 \<le> i \<and> i < 2 ^ 53 then Some (nat i) else None)"
proof (cases "0 \<le> i")
  case True
  then obtain n where i: "i = int n" by (metis nonneg_int_cases)
  have lt: "int n < 2 ^ 53 \<longleftrightarrow> n < 2 ^ 53" by simp
  show ?thesis
  proof (cases "n < 2 ^ 53")
    case True
    then have "round_53 n = n" by (simp add: round_53_def)
    with True i exact_seconds_of_nat [of n] show ?thesis by simp
  next
    case False
    then have "\<not> round_53 n < 2 ^ 53" using round_53_large [of n] by (simp add: not_less)
    with False i exact_seconds_of_nat [of "round_53 n"] show ?thesis by simp
  qed
next
  case False
  then have pos: "0 < nat (- i)" by simp
  have "0 < round_53 (nat (- i))"
    using pos round_53_large [of "nat (- i)"] by (cases "nat (- i) < 2 ^ 53") (simp_all add: round_53_def)
  then have "\<not> (0 \<le> (- of_nat (round_53 (nat (- i))) :: rat))" by simp
  with False show ?thesis by (simp add: exact_seconds_def)
qed

section \<open>Lemmas on the handlers\<close>

definition bearer_of :: "auth_headers \<Rightarrow> string option" where
  "bearer_of hs = Option.bind (Option.bind (hd_authorization hs) to_str) bearer_token_material"

definition visible :: "string \<Rightarrow> bool" where
  "visible s \<longleftrightarrow> to_str s = Some s"

lemma to_str_Some: "to_str s = Some t \<Longrightarrow> t = s \<and> visible s"
  by (auto simp: to_str_def visible_def split: if_splits)

lemma bearer_material_Some:
  "bearer_token_material v = Some m \<Longrightarrow> \<exists>sch. v = sch @ CHR '' '' # m \<and> map ascii_lower sch = ''bearer''"
proof -
  assume a: "bearer_token_material v = Some m"
  then obtain sch where s: "get_to v 6 = Some sch" "map ascii_lower sch = map ascii_lower ''Bearer''"
    and r: "Option.bind (get_from v 6) (strip_prefix '' '') = Some m"
    by (auto simp: bearer_token_material_def split: option.splits if_splits)
  have "sch = take 6 v" using s(1) by (auto simp: get_to_def split: if_splits)
  moreover have "drop 6 v = CHR '' '' # m"
    using r by (auto simp: get_from_def strip_prefix_Some bind_eq_Some_conv split: if_splits)
  ultimately have "v = sch @ CHR '' '' # m" by (metis append_take_drop_id)
  moreover have "map ascii_lower ''Bearer'' = ''bearer''" by code_simp
  ultimately show ?thesis using s(2) by auto
qed

lemma bearer_material_written:
  "visible m \<Longrightarrow> bearer_token_material (''Bearer '' @ m) = Some m"
proof -
  have "\<not> cont_byte CHR '' ''" by code_simp
  then have b: "is_char_boundary (''Bearer '' @ m) 6" by (simp add: is_char_boundary_def)
  have d: "drop 6 (''Bearer '' @ m) = CHR '' '' # m" "take 6 (''Bearer '' @ m) = ''Bearer''" by simp_all
  have g: "get_from (''Bearer '' @ m) 6 = Some (CHR '' '' # m)" "get_to (''Bearer '' @ m) 6 = Some ''Bearer''"
    using b d unfolding get_from_def get_to_def by simp_all
  have "strip_prefix '' '' (CHR '' '' # m) = Some m" by (simp add: strip_prefix_Some)
  then show ?thesis unfolding bearer_token_material_def g by simp
qed

lemma extract_session_header:
  assumes "cookie_pairs_ok cs" "map_of cs session_cookie_name = Some v"
    and "al_unseal L k session_cookie_name v = Some text" "al_struct L text = Some (payload_json i)"
  shows "extract_session L now (Some (cookie_header cs)) k =
    (case (extract_exp_claim L (oi_id_token i), unix_secs now) of
       (Some e, Some s) \<Rightarrow> if e \<le> s then Inl InvalidSession else Inr i
     | _ \<Rightarrow> Inl InvalidSession)"
  using find_sealed_cookie_header [OF assms(1), of L session_cookie_name k] assms(2-4)
  by (simp add: extract_session_def payload_roundtrip split: option.split)

lemma extract_session_Inr:
  assumes "extract_session L now header k = Inr i"
  shows "\<exists>v text e s. (\<exists>h. header = Some h) \<and> al_unseal L k session_cookie_name v = Some text \<and>
    Option.bind (al_struct L text) payload_identity = Some i \<and>
    extract_exp_claim L (oi_id_token i) = Some e \<and> unix_secs now = Some s \<and> s < e"
  using assms
  by (auto simp: extract_session_def find_sealed_cookie_def not_le
      split: option.splits sum.splits list.splits if_splits)

lemma principal_from_request_bearer:
  "bearer_of hs = Some m \<Longrightarrow> principal_from_request L st hs w =
     (if is_jwt_shaped m then (verify_bearer_jwt st m, w) else authenticate_api_token L st m w)"
  by (simp add: principal_from_request_def bearer_of_def lift_result_def)

lemma principal_from_request_session:
  "bearer_of hs = None \<Longrightarrow> principal_from_request L st hs w =
     (case extract_session L (clock w) (Option.bind (hd_cookie hs) to_str) (as_cookie_key st) of
        Inl e \<Rightarrow> (Inl e, w) | Inr i \<Rightarrow> (Inr (session_principal i), w))"
  by (simp add: principal_from_request_def bearer_of_def and_then_def utc_now_def fail_with_def
      return_ok_def split: sum.split)

lemma splitn_pending:
  assumes "CHR '':'' \<notin> set a" "CHR '':'' \<notin> set b"
  shows "splitn 3 CHR '':'' (a @ '':'' @ b @ '':'' @ c) = [a, b, c]"
proof -
  have "splitn (Suc (Suc (Suc 0))) CHR '':'' (a @ CHR '':'' # b @ CHR '':'' # c) = [a, b, c]"
    using split_once_append [OF assms(1), of "b @ CHR '':'' # c"] split_once_append [OF assms(2), of c] by simp
  then show ?thesis by (simp add: numeral_3_eq_3)
qed

lemma callback_pending:
  assumes "cookie_pairs_ok cs" "visible (cookie_header cs)" "map_of cs pending_cookie_name = Some v"
    and "al_unseal L (as_cookie_key st) pending_cookie_name v = Some (csrf @ '':'' @ nonce @ '':'' @ verifier)"
    and "CHR '':'' \<notin> set csrf" "CHR '':'' \<notin> set nonce" "hd_cookie hs = Some (cookie_header cs)"
  shows "handler_callback L rnd st params hs w =
    (if cp_state params \<noteq> csrf then (Inl CsrfMismatch, w)
     else case oc_exchange_code (as_oidc_client st) (cp_code params) nonce verifier of
       Inl e \<Rightarrow> (Inl e, w)
     | Inr lr \<Rightarrow>
         and_then (map_err Auth_Database (resolve_user (oi_subject (lr_identity lr)) (oi_email (lr_identity lr)))) (\<lambda>user.
         and_then (map_err Auth_Database (sync_group_memberships (u_id user) (lr_groups lr))) (\<lambda>_.
         and_then utc_now (\<lambda>now. lift_result (respond_found L (as_post_login_redirect st)
           [build_set_cookie L rnd now (lr_identity lr) (as_cookie_key st) (as_secure_cookies st),
            pending_set_cookie '''' (as_secure_cookies st) 0])))) w)"
proof -
  have f: "find_sealed_cookie L (Option.bind (hd_cookie hs) to_str) pending_cookie_name (as_cookie_key st) =
      Inr (csrf @ '':'' @ nonce @ '':'' @ verifier)"
    using find_sealed_cookie_header [OF assms(1), of L pending_cookie_name] assms(2-4,7)
    by (simp add: visible_def)
  show ?thesis
    unfolding handler_callback_def f sum.case splitn_pending [OF assms(5,6)] list.case
    by (simp add: fail_with_def Let_def split: sum.split)
qed

lemma header_ok_append: "header_ok (a @ b) \<longleftrightarrow> header_ok a \<and> header_ok b"
  by (auto simp: header_ok_def)

lemma header_ok_show_nat: "header_ok (show_nat n)"
proof -
  have "list_all (\<lambda>d. header_ok [digit_char d]) [0..<10]" by code_simp
  then have "header_ok [digit_char d]" if "d < 10" for d using that by (simp add: list_all_iff del: upt_Suc)
  then show ?thesis using show_nat_digits [of n] by (fastforce simp: header_ok_def)
qed

lemma header_ok_cookies:
  assumes "header_ok (al_seal L k rnd session_cookie_name (al_print L (payload_json i)))"
  shows "header_ok (build_set_cookie L rnd now i k secure)" "header_ok (pending_set_cookie '''' secure age)"
proof -
  have lit: "header_ok session_cookie_name" "header_ok ''=''" "header_ok ''; HttpOnly''" "header_ok pending_cookie_name"
    "header_ok ''; SameSite=Strict; Path=/; Max-Age=''" "header_ok ''; SameSite=Lax; Path=/; Max-Age=''"
    "header_ok ''''"
    by code_simp+
  have sec: "header_ok (secure_attr secure)"
  proof -
    have "header_ok ''; Secure''" by code_simp
    then show ?thesis using lit(7) by (simp add: secure_attr_def)
  qed
  show "header_ok (build_set_cookie L rnd now i k secure)" "header_ok (pending_set_cookie '''' secure age)"
    unfolding build_set_cookie_def pending_set_cookie_def Let_def header_ok_append
    using lit sec assms header_ok_show_nat by blast+
qed

lemma account_after_login:
  assumes "quiet w" "snap w = None" "wf_accounts (tabs w)" "resolve_user s em w = (Inr u, set_tabs t1 w)"
  shows "wf_accounts t1"
  using act_keepsD [OF keeps_resolve_user assms(4)] assms(1-3)
  by (auto simp: inv_world_def env_keeps_def quiet_def)

section \<open>Properties\<close>

text \<open>
  Asession lives exactly as long as its \<open>id_token\<close>: the cookie set after a login, sent back among
  any other cookies, gives back the identity at every instant before the expiry the token states, and
  is an invalid session from that second on; a token whose expiry is not an exact number of seconds
  never gives a session.
\<close>

theorem session_lifetime:
  assumes "al_unseal L k session_cookie_name (al_seal L k rnd session_cookie_name (al_print L (payload_json i))) =
      Some (al_print L (payload_json i))"
    and "cookie_text (al_seal L k rnd session_cookie_name (al_print L (payload_json i)))"
    and "al_struct L (al_print L (payload_json i)) = Some (payload_json i)"
    and "stored_cookie (build_set_cookie L rnd issued i k secure) = Some p"
    and "cookie_pairs_ok cs" "map_of cs (fst p) = Some (snd p)"
  shows "extract_session L now (Some (cookie_header cs)) k =
    (case (extract_exp_claim L (oi_id_token i), unix_secs now) of
       (Some e, Some s) \<Rightarrow> if e \<le> s then Inl InvalidSession else Inr i
     | _ \<Rightarrow> Inl InvalidSession)"
  using assms(1-4,6) stored_session_cookie [of L k rnd i issued secure]
  by (intro extract_session_header [OF assms(5)]) auto

definition demo_identity :: oidc_identity where
  "demo_identity = \<lparr>oi_id_token = ''h.p.s'', oi_subject = ''ana'', oi_email = None, oi_preferred_username = Some ''Ana''\<rparr>"

text \<open>A small library: the seal of a text is the name of the cookie before it.\<close>

definition demo_lib :: auth_lib where
  "demo_lib =
     \<lparr>al_seal = (\<lambda>k n name v. name @ v), al_unseal = (\<lambda>k name v. strip_prefix name v),
      al_b64url = (\<lambda>s. if s = ''p'' then Some ''claims'' else None),
      al_value = (\<lambda>s. Some (JObject [(''groups'', JArray [JString ''editors'', JNull, JString ''ops''])])),
      al_struct = (\<lambda>s. if s = ''P'' then Some (payload_json demo_identity)
                      else Some (JObject [(''exp'', JNumber (Int_Num 100))])),
      al_print = (\<lambda>v. ''P''), al_hmac = (\<lambda>pepper tok. Some (pepper @ tok)), al_header_error = ''bad header''\<rparr>"

theorem session_lifetime_witness:
  "extract_session demo_lib (99 * 10 ^ 9) (Some ''theme=dark; miryad_session=miryad_sessionP'') ''key'' = Inr demo_identity \<and>
   extract_session demo_lib (100 * 10 ^ 9) (Some ''theme=dark; miryad_session=miryad_sessionP'') ''key'' = Inl InvalidSession"
proof -
  let ?cs = "[(''theme'', ''dark''), (''miryad_session'', ''miryad_sessionP'')]"
  have h: "cookie_header ?cs = ''theme=dark; miryad_session=miryad_sessionP''" by simp
  have e: "extract_exp_claim demo_lib (oi_id_token demo_identity) = Some 100"
    using exact_seconds_int [of 100]
    by (simp add: extract_exp_claim_def demo_lib_def demo_identity_def exp_field_def struct_of_def)
  have ok: "cookie_pairs_ok ?cs" by code_simp
  have plain: "cookie_text ''miryad_sessionP''" by code_simp
  have seal: "al_seal demo_lib ''key'' 0 session_cookie_name (al_print demo_lib (payload_json demo_identity)) = ''miryad_sessionP''"
    "al_unseal demo_lib ''key'' session_cookie_name ''miryad_sessionP'' = Some (al_print demo_lib (payload_json demo_identity))"
    "al_struct demo_lib (al_print demo_lib (payload_json demo_identity)) = Some (payload_json demo_identity)"
    by (simp_all add: demo_lib_def session_cookie_name_def strip_prefix_def starts_with_def)
  have stored: "stored_cookie (build_set_cookie demo_lib 0 0 demo_identity ''key'' False) = Some (session_cookie_name, ''miryad_sessionP'')"
    using stored_session_cookie [of demo_lib "''key''" 0 demo_identity 0 False] plain unfolding seal by blast
  have mem: "map_of ?cs (fst (session_cookie_name, ''miryad_sessionP'')) = Some (snd (session_cookie_name, ''miryad_sessionP''))"
    by (simp add: session_cookie_name_def)
  have life: "extract_session demo_lib now (Some (cookie_header ?cs)) ''key'' =
      (case (Some 100, unix_secs now) of (Some e, Some s) \<Rightarrow> if e \<le> s then Inl InvalidSession else Inr demo_identity
       | _ \<Rightarrow> Inl InvalidSession)" for now
    using session_lifetime [OF _ _ seal(3) stored ok mem, of now] seal(1,2) plain unfolding e by simp
  show ?thesis using life [of "99 * 10 ^ 9"] life [of "100 * 10 ^ 9"] unfolding h by (simp add: unix_secs_def)
qed

text \<open>
  C21: nobody is authenticated without a checked credential, whatever the other sessions and failures:
  a bearer principal comes from a token with two dots that the provider's keys verified, a token principal
  from an unexpired row with the hash of the presented text, a session principal from a sealed session
  cookie whose token has not expired, and only when the request presents no bearer credential.
\<close>

theorem authenticated_principal_sound:
  assumes "as_oidc_client st = core_client L B scopes" "principal_from_request L st hs w = (Inr p, w')"
  shows "case source p of
      Bearer jwt \<Rightarrow> bearer_of hs = Some jwt \<and> is_jwt_shaped jwt \<and> w' = w \<and>
        (\<exists>c. ob_claims B jwt None = Inr c \<and> subject p = ic_subject c)
    | ApiToken n \<Rightarrow> (\<exists>tok h r. bearer_of hs = Some tok \<and> al_hmac L (as_token_pepper st) tok = Some h \<and>
        r \<in> set (tokens (tabs (arrived w))) \<and> t_hash r = h \<and> unexpired (clock (arrived w)) r \<and> p = principal_of r)
    | Session tok \<Rightarrow> bearer_of hs = None \<and> w' = w \<and> (\<exists>v clear i e s. al_unseal L (as_cookie_key st) session_cookie_name v = Some clear \<and>
        Option.bind (al_struct L clear) payload_identity = Some i \<and> p = session_principal i \<and> oi_id_token i = tok \<and>
        extract_exp_claim L tok = Some e \<and> unix_secs (clock w) = Some s \<and> s < e)
    | Agent \<Rightarrow> False"
proof (cases "bearer_of hs")
  case None
  then obtain i where i: "extract_session L (clock w) (Option.bind (hd_cookie hs) to_str) (as_cookie_key st) = Inr i"
    and p: "p = session_principal i" "w' = w"
    using assms(2) by (auto simp: principal_from_request_session split: sum.splits)
  have src: "source p = Session (oi_id_token i)" by (simp add: p session_principal_def)
  show ?thesis
    unfolding src principal_source.case using extract_session_Inr [OF i] None p by blast
next
  case (Some m)
  show ?thesis
  proof (cases "is_jwt_shaped m")
    case True
    then have v: "verify_bearer_jwt st m = Inr p" "w' = w"
      using assms(2) Some by (auto simp: principal_from_request_bearer)
    have "oc_verify_bearer (as_oidc_client st) = (\<lambda>jwt. fst (verify_bearer B False jwt))" using assms(1) by simp
    from core_bearer.accepted [OF this v(1)] Some True v(2) show ?thesis by (auto simp: verify_bearer_Inr)
  next
    case False
    then have "validate_token (al_hmac L) m (as_token_pepper st) w = (Inr p, w')"
      using assms(2) Some by (simp add: principal_from_request_bearer authenticate_api_token_def)
    from validate_token_sound [OF this] Some show ?thesis by (auto simp: principal_of_def)
  qed
qed

text \<open>A backend that knows one token, and the state over it.\<close>

definition demo_backend :: oidc_backend where
  "demo_backend =
     \<lparr>ob_authorize = (\<lambda>scopes. (''https://idp/'', ''csrf1'', ''nonce1'', ''verifier1'')),
      ob_exchange = (\<lambda>code v. if code = ''code1'' \<and> v = ''verifier1'' then Inr (Some ''h.p.s'') else Inl (Exchange_Request ''denied'')),
      ob_parses = (\<lambda>s. s = ''h.p.s''),
      ob_claims = (\<lambda>s n. if n = None \<or> n = Some ''nonce1''
        then Inr \<lparr>ic_subject = ''ana'', ic_email = None, ic_preferred_username = Some ''Ana''\<rparr>
        else Inl (Other_Claims_Error ''nonce''))\<rparr>"

definition demo_auth_state :: auth_state where
  "demo_auth_state =
     \<lparr>as_oidc_client = core_client demo_lib demo_backend [''openid'', ''groups''], as_cookie_key = ''key'',
      as_post_login_redirect = ''/app'', as_post_logout_redirect = ''/'', as_secure_cookies = True,
      as_token_pepper = ''pepper''\<rparr>"

lemma demo_auth_state_simps [simp]:
  "as_oidc_client demo_auth_state = core_client demo_lib demo_backend [''openid'', ''groups'']"
  "as_cookie_key demo_auth_state = ''key''" "as_token_pepper demo_auth_state = ''pepper''"
  "as_post_login_redirect demo_auth_state = ''/app''" "as_secure_cookies demo_auth_state"
  by (simp_all add: demo_auth_state_def)

lemma demo_bearer: "bearer_of \<lparr>hd_authorization = Some ''bEARER h.p.s'', hd_cookie = c\<rparr> = Some ''h.p.s''"
  by (simp add: bearer_of_def) code_simp

theorem authenticated_principal_sound_witness:
  "\<exists>p. principal_from_request demo_lib demo_auth_state \<lparr>hd_authorization = Some ''bEARER h.p.s'', hd_cookie = None\<rparr>
      (demo_world ([] :: unit list)) = (Inr p, demo_world []) \<and> source p = Bearer ''h.p.s'' \<and>
    (\<exists>c. ob_claims demo_backend ''h.p.s'' None = Inr c \<and> subject p = ic_subject c)"
proof -
  let ?hs = "\<lparr>hd_authorization = Some ''bEARER h.p.s'', hd_cookie = None\<rparr>"
  have "is_jwt_shaped ''h.p.s''" by code_simp
  then have "principal_from_request demo_lib demo_auth_state ?hs (demo_world ([] :: unit list)) =
      (Inr \<lparr>subject = ''ana'', email = None, preferred_username = Some ''Ana'', source = Bearer ''h.p.s''\<rparr>, demo_world [])"
    by (simp add: principal_from_request_bearer [OF demo_bearer] verify_bearer_jwt_def verify_bearer_def demo_backend_def)
  with authenticated_principal_sound [OF demo_auth_state_simps(1) this] show ?thesis by auto
qed

text \<open>
  C27: an API token that was just issued, presented in an \<open>Authorization\<close> header, authenticates its
  subject, whatever the cookie header; once revoked it is refused, and the session cookie of the same request
  is not tried instead.
\<close>

theorem issued_token_authenticates:
  assumes "quiet w" "wf_tokens (tabs w)"
    and "al_hmac L (as_token_pepper st) (generate_token b64 bytes) = Some h"
    and "find_token_by_hash h (tabs w) = None" "\<forall>e. expires = Some e \<longrightarrow> clock w < e"
    and "visible (''Bearer '' @ generate_token b64 bytes)" "CHR ''.'' \<notin> set (b64 bytes)"
  shows "\<exists>it w1 w2 w3.
    issue_token (al_hmac L) b64 bytes subj name expires (as_token_pepper st) w = (Inr it, w1) \<and>
    principal_from_request L st \<lparr>hd_authorization = Some (''Bearer '' @ it_token it), hd_cookie = c\<rparr> w1 =
      (Inr \<lparr>subject = subj, email = None, preferred_username = None, source = ApiToken (it_id it)\<rparr>, w2) \<and>
    revoke_token (it_id it) w2 = (Inr (), w3) \<and>
    principal_from_request L st \<lparr>hd_authorization = Some (''Bearer '' @ it_token it), hd_cookie = c\<rparr> w3 =
      (Inl InvalidToken, w3)"
proof -
  obtain it w1 w2 w3 where life: "issue_token (al_hmac L) b64 bytes subj name expires (as_token_pepper st) w = (Inr it, w1)"
    "validate_token (al_hmac L) (it_token it) (as_token_pepper st) w1 =
      (Inr \<lparr>subject = subj, email = None, preferred_username = None, source = ApiToken (it_id it)\<rparr>, w2)"
    "revoke_token (it_id it) w2 = (Inr (), w3)"
    "validate_token (al_hmac L) (it_token it) (as_token_pepper st) w3 = (Inl InvalidToken, w3)"
    using token_lifecycle [where hmac = "al_hmac L" and pepper = "as_token_pepper st" and subj = subj and name = name, OF assms(1-5)] by blast
  have tok: "it_token it = generate_token b64 bytes"
    using life(1) by (auto simp: issue_token_def act_inv Let_def)
  have "visible (it_token it)"
    using assms(6) unfolding tok visible_def to_str_def by (auto split: if_splits)
  then have b: "bearer_of \<lparr>hd_authorization = Some (''Bearer '' @ it_token it), hd_cookie = c\<rparr> = Some (it_token it)"
    using bearer_material_written assms(6) tok by (simp add: bearer_of_def visible_def)
  have "count_list (it_token it) CHR ''.'' = 0"
    using assms(7) unfolding tok generate_token_def by (simp add: count_list_0_iff)
  then have nj: "\<not> is_jwt_shaped (it_token it)" by (simp add: is_jwt_shaped_def)
  have run: "principal_from_request L st \<lparr>hd_authorization = Some (''Bearer '' @ it_token it), hd_cookie = c\<rparr> v =
      validate_token (al_hmac L) (it_token it) (as_token_pepper st) v" for v
    unfolding principal_from_request_bearer [OF b] authenticate_api_token_def if_not_P [OF nj] ..
  show ?thesis
    by (intro exI conjI) (rule life(1), unfold run, rule life(2), rule life(3), rule life(4))
qed

theorem issued_token_authenticates_witness:
  "\<exists>it w1 w2 w3.
    issue_token (al_hmac demo_lib) demo_b64 [1, 2, 3] ''ana'' ''ci'' (Some 200) ''pepper'' (demo_world ([] :: unit list)) =
      (Inr it, w1) \<and>
    principal_from_request demo_lib demo_auth_state \<lparr>hd_authorization = Some (''Bearer '' @ it_token it), hd_cookie = None\<rparr> w1 =
      (Inr \<lparr>subject = ''ana'', email = None, preferred_username = None, source = ApiToken (it_id it)\<rparr>, w2) \<and>
    revoke_token (it_id it) w2 = (Inr (), w3) \<and>
    principal_from_request demo_lib demo_auth_state \<lparr>hd_authorization = Some (''Bearer '' @ it_token it), hd_cookie = None\<rparr> w3 =
      (Inl InvalidToken, w3)"
proof -
  have vis: "visible (''Bearer '' @ generate_token demo_b64 [1, 2, 3])"
    unfolding visible_def by code_simp
  have dot: "CHR ''.'' \<notin> set (demo_b64 [1, 2, 3])" by code_simp
  show ?thesis
    using issued_token_authenticates [of "demo_world ([] :: unit list)" demo_lib demo_auth_state demo_b64 "[1, 2, 3]" _ "Some 200",
        OF _ _ _ _ _ vis dot]
    by (auto simp: demo_lib_def demo_tables_def wf_tokens_def find_token_by_hash_def)
qed

text \<open>
  The callback accepts what the login handed out and nothing else: with the cookie the login set, a
  request with another state is refused before the code is exchanged, and one with that state exchanges its
  code with the nonce and the verifier of that login; a refused exchange changes nothing.
\<close>

theorem callback_matches_login:
  assumes "oc_authorization_url (as_oidc_client st) = (url, csrf, nonce, verifier)"
    and "CHR '':'' \<notin> set csrf" "CHR '':'' \<notin> set nonce"
    and "al_unseal L (as_cookie_key st) pending_cookie_name
        (al_seal L (as_cookie_key st) rnd pending_cookie_name (csrf @ '':'' @ nonce @ '':'' @ verifier)) =
      Some (csrf @ '':'' @ nonce @ '':'' @ verifier)"
    and "cookie_text (al_seal L (as_cookie_key st) rnd pending_cookie_name (csrf @ '':'' @ nonce @ '':'' @ verifier))"
    and "handler_login L rnd st = Inr rd" "stored_cookie (hd (rd_set_cookies rd)) = Some p"
    and "cookie_pairs_ok cs" "visible (cookie_header cs)" "map_of cs (fst p) = Some (snd p)"
    and "hd_cookie hs = Some (cookie_header cs)"
  shows "if cp_state params \<noteq> csrf then handler_callback L rnd' st params hs w = (Inl CsrfMismatch, w)
    else case oc_exchange_code (as_oidc_client st) (cp_code params) nonce verifier of
      Inl e \<Rightarrow> handler_callback L rnd' st params hs w = (Inl e, w)
    | Inr lr \<Rightarrow> \<forall>rd' w'. handler_callback L rnd' st params hs w = (Inr rd', w') \<longrightarrow>
        rd_location rd' = as_post_login_redirect st \<and>
        (\<exists>now. rd_set_cookies rd' =
          [build_set_cookie L rnd' now (lr_identity lr) (as_cookie_key st) (as_secure_cookies st),
           pending_set_cookie '''' (as_secure_cookies st) 0])"
proof -
  have rd: "hd (rd_set_cookies rd) = pending_set_cookie
      (al_seal L (as_cookie_key st) rnd pending_cookie_name (csrf @ '':'' @ nonce @ '':'' @ verifier)) (as_secure_cookies st) 300"
    using assms(6) by (auto simp: handler_login_def assms(1) Let_def respond_found_def split: if_splits)
  have mem: "map_of cs pending_cookie_name =
      Some (al_seal L (as_cookie_key st) rnd pending_cookie_name (csrf @ '':'' @ nonce @ '':'' @ verifier))"
    using assms(7,10) unfolding rd stored_pending_cookie [OF assms(5)] by auto
  note run = callback_pending [OF assms(8,9) mem assms(4,2,3,11), of rnd' params w]
  show ?thesis
    unfolding run
    by (auto simp: act_inv utc_now_def respond_found_def split: sum.split if_splits)
qed

definition demo_pending :: string where
  "demo_pending = ''miryad_oidc_pendingcsrf1:nonce1:verifier1''"

definition demo_callback_headers :: auth_headers where
  "demo_callback_headers = \<lparr>hd_authorization = None, hd_cookie = Some (cookie_header [(''miryad_oidc_pending'', demo_pending)])\<rparr>"

lemma demo_pending_facts:
  "al_seal demo_lib ''key'' n pending_cookie_name (''csrf1'' @ '':'' @ ''nonce1'' @ '':'' @ ''verifier1'') = demo_pending"
  "al_unseal demo_lib ''key'' pending_cookie_name demo_pending = Some (''csrf1'' @ '':'' @ ''nonce1'' @ '':'' @ ''verifier1'')"
  "cookie_text demo_pending" "cookie_pairs_ok [(''miryad_oidc_pending'', demo_pending)]"
  "visible (cookie_header [(''miryad_oidc_pending'', demo_pending)])"
proof -
  show "al_seal demo_lib ''key'' n pending_cookie_name (''csrf1'' @ '':'' @ ''nonce1'' @ '':'' @ ''verifier1'') = demo_pending"
    by (simp add: demo_lib_def demo_pending_def pending_cookie_name_def)
  show "al_unseal demo_lib ''key'' pending_cookie_name demo_pending = Some (''csrf1'' @ '':'' @ ''nonce1'' @ '':'' @ ''verifier1'')"
    by (simp add: demo_lib_def demo_pending_def pending_cookie_name_def strip_prefix_def starts_with_def)
  show "cookie_text demo_pending" "cookie_pairs_ok [(''miryad_oidc_pending'', demo_pending)]"
    by code_simp+
  show "visible (cookie_header [(''miryad_oidc_pending'', demo_pending)])" unfolding visible_def by code_simp
qed

lemma demo_authorization: "oc_authorization_url (as_oidc_client demo_auth_state) = (''https://idp/'', ''csrf1'', ''nonce1'', ''verifier1'')"
  by (simp add: authorization_url_def demo_backend_def)

lemma demo_login: "handler_login demo_lib 0 demo_auth_state =
    Inr \<lparr>rd_location = ''https://idp/'', rd_set_cookies = [pending_set_cookie demo_pending True 300]\<rparr>"
proof -
  have ok: "header_ok ''https://idp/''" "header_ok (pending_set_cookie demo_pending True 300)" by code_simp+
  show ?thesis
    unfolding handler_login_def demo_authorization prod.case Let_def demo_auth_state_simps(2) demo_pending_facts(1)
    using ok by (simp add: respond_found_def)
qed

theorem callback_matches_login_witness:
  "handler_callback demo_lib 1 demo_auth_state \<lparr>cp_code = ''code1'', cp_state = ''forged''\<rparr> demo_callback_headers
      (demo_world ([] :: unit list)) = (Inl CsrfMismatch, demo_world []) \<and>
   (\<exists>e. handler_callback demo_lib 1 demo_auth_state \<lparr>cp_code = ''stolen'', cp_state = ''csrf1''\<rparr> demo_callback_headers
      (demo_world ([] :: unit list)) = (Inl (Oidc e), demo_world []))"
proof -
  let ?cs = "[(''miryad_oidc_pending'', demo_pending)]"
  have unseal: "al_unseal demo_lib (as_cookie_key demo_auth_state) pending_cookie_name
      (al_seal demo_lib (as_cookie_key demo_auth_state) 0 pending_cookie_name (''csrf1'' @ '':'' @ ''nonce1'' @ '':'' @ ''verifier1'')) =
    Some (''csrf1'' @ '':'' @ ''nonce1'' @ '':'' @ ''verifier1'')"
    unfolding demo_auth_state_simps(2) demo_pending_facts(1) by (rule demo_pending_facts(2))
  have plain: "cookie_text (al_seal demo_lib (as_cookie_key demo_auth_state) 0 pending_cookie_name
      (''csrf1'' @ '':'' @ ''nonce1'' @ '':'' @ ''verifier1''))"
    unfolding demo_auth_state_simps(2) demo_pending_facts(1) by (rule demo_pending_facts(3))
  have stored: "stored_cookie (hd (rd_set_cookies \<lparr>rd_location = ''https://idp/'',
      rd_set_cookies = [pending_set_cookie demo_pending True 300]\<rparr>)) = Some (pending_cookie_name, demo_pending)"
    using stored_pending_cookie [OF demo_pending_facts(3), of True 300] by simp
  have mem: "map_of ?cs (fst (pending_cookie_name, demo_pending)) = Some (snd (pending_cookie_name, demo_pending))"
    by (simp add: pending_cookie_name_def)
  have hdr: "hd_cookie demo_callback_headers = Some (cookie_header ?cs)" by (simp add: demo_callback_headers_def)
  have colon: "CHR '':'' \<notin> set ''csrf1''" "CHR '':'' \<notin> set ''nonce1''" by simp_all
  note run = callback_matches_login [OF demo_authorization colon unseal plain demo_login stored demo_pending_facts(4,5) mem hdr]
  show ?thesis
    using run [of "\<lparr>cp_code = ''code1'', cp_state = ''forged''\<rparr>" 1 "demo_world ([] :: unit list)"]
      run [of "\<lparr>cp_code = ''stolen'', cp_state = ''csrf1''\<rparr>" 1 "demo_world ([] :: unit list)"]
    by (simp add: exchange_code_def demo_backend_def)
qed

text \<open>
  Alogin that goes through leaves the account of the identity, in exactly the non-blank groups of the
  token and without touching anyone else's, and sets the session cookie of that identity.
\<close>

theorem callback_provisions_account:
  assumes "quiet w" "snap w = None" "wf_accounts (tabs w)"
    and "cookie_pairs_ok cs" "visible (cookie_header cs)" "map_of cs pending_cookie_name = Some v"
    and "al_unseal L (as_cookie_key st) pending_cookie_name v = Some (cp_state params @ '':'' @ nonce @ '':'' @ verifier)"
    and "CHR '':'' \<notin> set (cp_state params)" "CHR '':'' \<notin> set nonce" "hd_cookie hs = Some (cookie_header cs)"
    and "oc_exchange_code (as_oidc_client st) (cp_code params) nonce verifier = Inr lr"
    and "header_ok (as_post_login_redirect st)"
    and "header_ok (al_seal L (as_cookie_key st) rnd session_cookie_name (al_print L (payload_json (lr_identity lr))))"
  shows "\<exists>w' u rd. handler_callback L rnd st params hs w = (Inr rd, w') \<and>
    find_user (oi_subject (lr_identity lr)) (tabs w') = Some u \<and>
    member_names (u_id u) (tabs w') = {n \<in> set (lr_groups lr). \<not> is_blank n} \<and>
    (\<forall>x. x \<noteq> u_id u \<longrightarrow> member_names x (tabs w') = member_names x (tabs w)) \<and>
    tokens (tabs w') = tokens (tabs w) \<and> rows (tabs w') = rows (tabs w) \<and>
    hd (rd_set_cookies rd) = build_set_cookie L rnd (clock w) (lr_identity lr) (as_cookie_key st) (as_secure_cookies st)"
proof -
  let ?i = "lr_identity lr"
  obtain u t1 where res: "resolve_user (oi_subject ?i) (oi_email ?i) w = (Inr u, set_tabs t1 w)"
    and u: "find_user (oi_subject ?i) t1 = Some u" and t1: "tokens t1 = tokens (tabs w)" "groups t1 = groups (tabs w)"
      "memberships t1 = memberships (tabs w)" "rows t1 = rows (tabs w)"
    using resolve_user_quiet [OF assms(1)] by blast
  have q1: "quiet (set_tabs t1 w)" "snap (set_tabs t1 w) = None" using assms(1,2) by simp_all
  have wf1: "wf_accounts (tabs (set_tabs t1 w))"
    using account_after_login [OF assms(1-3) res] by simp
  have mem: "u_id u \<in> u_id ` set (users (tabs (set_tabs t1 w)))"
    using find_Some_mem [OF u [unfolded find_user_def]] by simp
  obtain t2 where syn: "sync_group_memberships (u_id u) (lr_groups lr) (set_tabs t1 w) = (Inr (), set_tabs t2 (set_tabs t1 w))"
    and t2: "users t2 = users t1" "tokens t2 = tokens t1" "rows t2 = rows t1"
      "member_names (u_id u) t2 = {n \<in> set (lr_groups lr). \<not> is_blank n}"
      "\<forall>x. x \<noteq> u_id u \<longrightarrow> member_names x t2 = member_names x t1"
    using sync_quiet [OF q1 wf1 mem, of "lr_groups lr"] by auto
  have same: "member_names x t1 = member_names x (tabs w)" for x
    by (simp add: member_names_def membership_pairs_def t1)
  have "find_user (oi_subject ?i) t2 = Some u" using u t2(1) by (simp add: find_user_def)
  moreover have "handler_callback L rnd st params hs w =
      (Inr \<lparr>rd_location = as_post_login_redirect st, rd_set_cookies =
         [build_set_cookie L rnd (clock w) ?i (as_cookie_key st) (as_secure_cookies st),
          pending_set_cookie '''' (as_secure_cookies st) 0]\<rparr>, set_tabs t2 w)"
    unfolding callback_pending [OF assms(4-10)] assms(11) sum.case
    using header_ok_cookies [OF assms(13)] assms(12)
    by (simp add: and_then_def map_err_def res syn utc_now_def lift_result_def respond_found_def)
  ultimately show ?thesis using t2 t1 same by auto
qed

theorem callback_provisions_account_witness:
  "\<exists>w' u rd. handler_callback demo_lib 1 demo_auth_state \<lparr>cp_code = ''code1'', cp_state = ''csrf1''\<rparr> demo_callback_headers
      (demo_world ([] :: unit list)) = (Inr rd, w') \<and>
    find_user ''ana'' (tabs w') = Some u \<and> member_names (u_id u) (tabs w') = {''editors'', ''ops''}"
proof -
  let ?cs = "[(''miryad_oidc_pending'', demo_pending)]"
  let ?p = "\<lparr>cp_code = ''code1'', cp_state = ''csrf1''\<rparr>"
  let ?lr = "\<lparr>lr_identity = demo_identity, lr_groups = [''editors'', ''ops'']\<rparr>"
  have mem: "map_of ?cs pending_cookie_name = Some demo_pending" by (simp add: pending_cookie_name_def)
  have unseal: "al_unseal demo_lib (as_cookie_key demo_auth_state) pending_cookie_name demo_pending =
      Some (cp_state ?p @ '':'' @ ''nonce1'' @ '':'' @ ''verifier1'')"
    unfolding demo_auth_state_simps(2) callback_params.simps by (rule demo_pending_facts(2))
  have colon: "CHR '':'' \<notin> set (cp_state ?p)" "CHR '':'' \<notin> set ''nonce1''" by simp_all
  have hdr: "hd_cookie demo_callback_headers = Some (cookie_header ?cs)" by (simp add: demo_callback_headers_def)
  have groups: "extract_groups_claim demo_lib ''h.p.s'' = [''editors'', ''ops'']"
    by (simp add: extract_groups_claim_def demo_lib_def json_get_def string_items_def map_filter_simps)
  have exch: "oc_exchange_code (as_oidc_client demo_auth_state) (cp_code ?p) ''nonce1'' ''verifier1'' = Inr ?lr"
    by (simp add: exchange_code_def demo_backend_def groups demo_identity_def)
  have seal: "header_ok (al_seal demo_lib (as_cookie_key demo_auth_state) 1 session_cookie_name (al_print demo_lib (payload_json (lr_identity ?lr))))"
    by (simp add: demo_lib_def) code_simp
  have loc: "header_ok (as_post_login_redirect demo_auth_state)" unfolding demo_auth_state_simps(4) by code_simp
  have blank: "\<not> is_blank ''editors''" "\<not> is_blank ''ops''" by code_simp+
  have names: "{n \<in> set (lr_groups ?lr). \<not> is_blank n} = {''editors'', ''ops''}" using blank by auto
  have subj: "oi_subject (lr_identity ?lr) = ''ana''" by (simp add: demo_identity_def)
  show ?thesis
    using callback_provisions_account [OF _ _ _ demo_pending_facts(4,5) mem unseal colon hdr exch loc seal,
        of "demo_world ([] :: unit list)"]
    unfolding names subj by auto
qed

end
