(* ===== verification/Workflow_Definition.thy ===== *)
theory Workflow_Definition
  imports Rest_Core "HOL-Library.While_Combinator"
begin

text \<open>
  Workflow definitions (\<open>src/src/workflow/definition.rs\<close>) and the errors of workflows
  (\<open>workflow/error.rs\<close>): the validation of a DAG with its queue loop (Kahn's algorithm), the policy
  an application configures once, and the resource \<open>workflows\<close> whose hooks run the validation.
  The loop is \<open>while_option\<close>, so that not returning is a value; it is shown to return, and the
  validation to accept exactly the non-empty lists of distinct steps without missing dependency and
  without cycle.
\<close>

section \<open>Errors\<close>

datatype workflow_error =
    RestateUnreachable string
  | RestateRejected nat string
  | Serialization string
  | InvalidDag string
  | PolicyAlreadySet
  | DuplicateStepKind string
  | InvalidConfig string
  | MaxDepthExceeded u32 u32
  | ScriptTimeout u64

text \<open>The loop of \<open>truncated_body\<close>: back to the last character boundary; 0 is one.\<close>

fun last_boundary :: "string \<Rightarrow> nat \<Rightarrow> nat" where
  "last_boundary s 0 = 0"
| "last_boundary s (Suc i) = (if is_char_boundary s (Suc i) then Suc i else last_boundary s i)"

definition max_body_bytes :: nat where "max_body_bytes = 1024"

definition truncated_body :: "string \<Rightarrow> string" where
  "truncated_body body =
     (if length body \<le> max_body_bytes then body
      else case get_to body (last_boundary body max_body_bytes) of
             None \<Rightarrow> ellipsis
           | Some start \<Rightarrow> start @ ellipsis)"

fun workflow_error_text :: "workflow_error \<Rightarrow> string" where
  "workflow_error_text (RestateUnreachable e) = ''MRD-WORKFLOW-001: restate unreachable: '' @ e"
| "workflow_error_text (RestateRejected status body) =
     ''MRD-WORKFLOW-002: restate rejected request (status '' @ show_nat status @ ''): '' @ truncated_body body"
| "workflow_error_text (Serialization e) = ''MRD-WORKFLOW-003: could not decode restate response: '' @ e"
| "workflow_error_text (InvalidDag s) = ''MRD-WORKFLOW-004: '' @ s"
| "workflow_error_text PolicyAlreadySet = ''MRD-WORKFLOW-005: workflow policy already configured''"
| "workflow_error_text (DuplicateStepKind k) = ''MRD-WORKFLOW-006: step kind already registered: '' @ k"
| "workflow_error_text (InvalidConfig s) = ''MRD-WORKFLOW-007: invalid workflow configuration: '' @ s"
| "workflow_error_text (MaxDepthExceeded depth limit) =
     ''MRD-WORKFLOW-008: sub-workflow depth '' @ show_nat (unat depth) @ '' exceeds the maximum of '' @ show_nat (unat limit)"
| "workflow_error_text (ScriptTimeout seconds) =
     ''MRD-WORKFLOW-009: script exceeded its time limit of '' @ show_nat (unat seconds) @ ''s''"

text \<open>A transport error of the HTTP client: whether it is a decoding or body error, and its text.\<close>

definition classify_transport_error :: "bool \<Rightarrow> bool \<Rightarrow> string \<Rightarrow> workflow_error" where
  "classify_transport_error is_decode is_body err =
     (if is_decode \<or> is_body then Serialization err else RestateUnreachable err)"

section \<open>Steps\<close>

record step_definition =
  sd_id :: string
  depends_on :: "string list"
  sd_kind :: string
  sd_config :: json

type_synonym dag_steps = "step_definition list"

section \<open>Validation of a DAG\<close>

text \<open>Steps 2 and 3: the first repeated id, the first dependency outside the list.\<close>

fun first_duplicate :: "string set \<Rightarrow> dag_steps \<Rightarrow> string option" where
  "first_duplicate seen [] = None"
| "first_duplicate seen (e # es) =
     (if sd_id e \<in> seen then Some (sd_id e) else first_duplicate (insert (sd_id e) seen) es)"

fun missing_dep :: "string set \<Rightarrow> string list \<Rightarrow> string option" where
  "missing_dep ids [] = None"
| "missing_dep ids (d # ds) = (if d \<notin> ids then Some d else missing_dep ids ds)"

fun first_missing :: "string set \<Rightarrow> dag_steps \<Rightarrow> (string \<times> string) option" where
  "first_missing ids [] = None"
| "first_missing ids (e # es) =
     (case missing_dep ids (depends_on e) of Some d \<Rightarrow> Some (sd_id e, d) | None \<Rightarrow> first_missing ids es)"

text \<open>Step 4: the variables \<open>degres\<close>, \<open>aval\<close>, \<open>file\<close> (here \<open>queue\<close>) and \<open>traites\<close> of the loop.\<close>

record kahn =
  degres :: "string \<rightharpoonup> nat"
  queue :: "string list"
  traites :: "string set"

definition initial_degrees :: "dag_steps \<Rightarrow> (string \<rightharpoonup> nat)" where
  "initial_degrees steps = fold (\<lambda>e m. m(sd_id e \<mapsto> length (depends_on e))) steps Map.empty"

definition aval_of :: "dag_steps \<Rightarrow> (string \<rightharpoonup> string list)" where
  "aval_of steps = fold (\<lambda>e m. fold (\<lambda>dep m. push_entry dep (sd_id e) m) (depends_on e) m) steps Map.empty"

definition initial_kahn :: "dag_steps \<Rightarrow> kahn" where
  "initial_kahn steps =
     \<lparr>degres = initial_degrees steps,
      queue = map sd_id (filter (\<lambda>e. initial_degrees steps (sd_id e) = Some 0) steps),
      traites = {}\<rparr>"

fun release :: "string list \<Rightarrow> (string \<rightharpoonup> nat) \<times> string list \<Rightarrow> (string \<rightharpoonup> nat) \<times> string list" where
  "release [] (deg, q) = (deg, q)"
| "release (s # ss) (deg, q) =
     (case deg s of
        None \<Rightarrow> release ss (deg, q)
      | Some d \<Rightarrow> release ss (deg(s \<mapsto> d - 1), if d - 1 = 0 then q @ [s] else q))"

definition kahn_step :: "(string \<rightharpoonup> string list) \<Rightarrow> kahn \<Rightarrow> kahn" where
  "kahn_step aval st =
     (case queue st of
        [] \<Rightarrow> st
      | i # q \<Rightarrow>
          (case aval i of
             None \<Rightarrow> st\<lparr>queue := q, traites := insert i (traites st)\<rparr>
           | Some ss \<Rightarrow>
               (case release ss (degres st, q) of
                  (deg, q') \<Rightarrow> \<lparr>degres = deg, queue = q', traites = insert i (traites st)\<rparr>)))"

definition kahn_loop :: "dag_steps \<Rightarrow> kahn option" where
  "kahn_loop steps = while_option (\<lambda>st. queue st \<noteq> []) (kahn_step (aval_of steps)) (initial_kahn steps)"

text \<open>None: the loop does not return.\<close>

definition validate_dag :: "dag_steps \<Rightarrow> (workflow_error + unit) option" where
  "validate_dag steps =
     (if steps = [] then Some (Inl (InvalidDag ''le DAG ne contient aucun step''))
      else case first_duplicate {} steps of
        Some i \<Rightarrow> Some (Inl (InvalidDag (''step id dupliqu'' @ e_acute @ '': '' @ i)))
      | None \<Rightarrow>
          (case first_missing (set (map sd_id steps)) steps of
             Some (i, dep) \<Rightarrow>
               Some (Inl (InvalidDag (''le step '' @ i @ '' d'' @ e_acute @ ''pend de '' @ dep @ '', absent de ce DAG'')))
           | None \<Rightarrow>
               (case kahn_loop steps of
                  None \<Rightarrow> None
                | Some st \<Rightarrow>
                    (if card (traites st) < length steps
                     then (case find (\<lambda>e. sd_id e \<notin> traites st) steps of
                             Some e \<Rightarrow> Some (Inl (InvalidDag
                               (''cycle d'' @ e_acute @ ''tect'' @ e_acute @ '' impliquant le step '' @ sd_id e)))
                           | None \<Rightarrow> Some (Inr ()))
                     else Some (Inr ())))))"

section \<open>Policy\<close>

record workflow_policy =
  wp_read :: access_policy
  wp_write :: access_policy

definition default_workflow_policy :: workflow_policy where
  "default_workflow_policy = \<lparr>wp_read = AdminOnly, wp_write = AdminOnly\<rparr>"

text \<open>The \<open>OnceLock\<close>: None until it is set.\<close>

definition configure_policy ::
    "workflow_policy \<Rightarrow> (workflow_policy option, workflow_error, unit) act" where
  "configure_policy policy cell =
     (case cell of None \<Rightarrow> (Inr (), Some policy) | Some _ \<Rightarrow> (Inl PolicyAlreadySet, cell))"

definition current_policy :: "workflow_policy option \<Rightarrow> workflow_policy" where
  "current_policy cell = (case cell of Some p \<Rightarrow> p | None \<Rightarrow> default_workflow_policy)"

section \<open>The resource\<close>

text \<open>
  \<open>rejeter_si_dag_invalide\<close> on the \<open>steps\<close> of an active model (None for \<open>NotSet\<close>). A validation that
  does not return would be no answer of the hook; \<open>validate_dag_total\<close> excludes it.
\<close>

definition rejeter_si_dag_invalide :: "dag_steps option \<Rightarrow> hook_error + unit" where
  "rejeter_si_dag_invalide steps =
     (case steps of
        None \<Rightarrow> Inr ()
      | Some etapes \<Rightarrow>
          (case validate_dag etapes of
             Some (Inr _) \<Rightarrow> Inr ()
           | Some (Inl (InvalidDag message)) \<Rightarrow> Inl (hook_error_new message)
           | Some (Inl autre) \<Rightarrow> Inl (hook_error_new (workflow_error_text autre))
           | None \<Rightarrow> Inl (hook_error_new '''')))"

text \<open>\<open>decode\<close> is the JSON decoding of the typed column \<open>steps\<close>.\<close>

definition workflow_before_create ::
    "(db_value \<Rightarrow> dag_steps) \<Rightarrow> active_model \<Rightarrow> auth_principal \<Rightarrow> hook_error + active_model" where
  "workflow_before_create decode active p =
     (case rejeter_si_dag_invalide (map_option decode (into_value (active ''steps''))) of
        Inl e \<Rightarrow> Inl e | Inr _ \<Rightarrow> Inr active)"

definition workflow_before_update ::
    "(db_value \<Rightarrow> dag_steps) \<Rightarrow> active_model \<Rightarrow> row \<Rightarrow> auth_principal \<Rightarrow> hook_error + active_model" where
  "workflow_before_update decode active existing p =
     (case rejeter_si_dag_invalide (map_option decode (into_value (active ''steps''))) of
        Inl e \<Rightarrow> Inl e | Inr _ \<Rightarrow> Inr active)"

definition workflow_resource :: "(db_value \<Rightarrow> dag_steps) \<Rightarrow> workflow_policy option \<Rightarrow> resource" where
  "workflow_resource decode cell =
     \<lparr>resource_name = ''workflows'', read_policy = wp_read (current_policy cell),
      write_policy = wp_write (current_policy cell), owner_column = Some ''owner_id'',
      filter_column = Some ''name'', label_column = Some ''name'',
      columns = [''id'', ''name'', ''steps'', ''owner_id'', ''created_at''], primary_key = ''id'',
      column_default = (\<lambda>_. VText None),
      before_create = workflow_before_create decode, before_update = workflow_before_update decode,
      before_delete = default_before_delete\<rparr>"

section \<open>Lemmas on the loop\<close>

text \<open>What a DAG promises.\<close>

definition ids :: "dag_steps \<Rightarrow> string set" where
  "ids steps = sd_id ` set steps"

definition dep_rel :: "dag_steps \<Rightarrow> (string \<times> string) set" where
  "dep_rel steps = {(d, sd_id e) |d e. e \<in> set steps \<and> d \<in> set (depends_on e)}"

definition valid_dag :: "dag_steps \<Rightarrow> bool" where
  "valid_dag steps \<longleftrightarrow> steps \<noteq> [] \<and> distinct (map sd_id steps) \<and>
     (\<forall>e\<in>set steps. set (depends_on e) \<subseteq> ids steps) \<and> acyclic (dep_rel steps)"

lemma first_duplicate_None:
  "first_duplicate seen steps = None \<longleftrightarrow> distinct (map sd_id steps) \<and> ids steps \<inter> seen = {}"
  by (induction steps arbitrary: seen) (auto simp: ids_def)

lemma missing_dep_None: "missing_dep S ds = None \<longleftrightarrow> set ds \<subseteq> S"
  by (induction ds) auto

lemma first_missing_None:
  "first_missing S steps = None \<longleftrightarrow> (\<forall>e\<in>set steps. set (depends_on e) \<subseteq> S)"
  by (induction steps) (auto simp: missing_dep_None [symmetric] split: option.splits)

lemma initial_degrees_other:
  fixes steps :: dag_steps
  shows "i \<notin> ids steps \<Longrightarrow> fold (\<lambda>e m. m(sd_id e \<mapsto> length (depends_on e))) steps m i = m i"
  by (induction steps arbitrary: m) (auto simp: ids_def)

lemma initial_degrees_at:
  fixes steps :: dag_steps
  shows "distinct (map sd_id steps) \<Longrightarrow> e \<in> set steps \<Longrightarrow>
     fold (\<lambda>e m. m(sd_id e \<mapsto> length (depends_on e))) steps m (sd_id e) = Some (length (depends_on e))"
proof (induction steps arbitrary: m)
  case (Cons x xs)
  show ?case
  proof (cases "e = x")
    case True
    then have "sd_id e \<notin> ids xs" using Cons.prems by (auto simp: ids_def)
    with True show ?thesis
      by (simp add: initial_degrees_other [of "sd_id x" xs "m(sd_id x \<mapsto> length (depends_on x))"] del: fun_upd_apply)
        simp
  next
    case False
    then show ?thesis using Cons by (simp del: fun_upd_apply)
  qed
qed simp

text \<open>The successors of a step, one for each time it is cited.\<close>

definition successors :: "dag_steps \<Rightarrow> string \<Rightarrow> string list" where
  "successors steps i = concat (map (\<lambda>e. replicate (count_list (depends_on e) i) (sd_id e)) steps)"

lemma push_deps:
  "(case fold (\<lambda>dep m. push_entry dep v m) deps m i of None \<Rightarrow> [] | Some ss \<Rightarrow> ss) =
     (case m i of None \<Rightarrow> [] | Some ss \<Rightarrow> ss) @ replicate (count_list deps i) v"
  by (induction deps arbitrary: m) (auto simp: push_entry_def split: option.splits)

lemma aval_fold:
  "(case fold (\<lambda>e m. fold (\<lambda>dep m. push_entry dep (sd_id e) m) (depends_on e) m) steps m i of
      None \<Rightarrow> [] | Some ss \<Rightarrow> ss) = (case m i of None \<Rightarrow> [] | Some ss \<Rightarrow> ss) @ successors steps i"
  by (induction steps arbitrary: m) (simp_all add: successors_def push_deps)

lemma aval_successors: "(case aval_of steps i of None \<Rightarrow> [] | Some ss \<Rightarrow> ss) = successors steps i"
  by (simp add: aval_of_def aval_fold)

lemma count_successors:
  "distinct (map sd_id steps) \<Longrightarrow> e \<in> set steps \<Longrightarrow>
     count_list (successors steps i) (sd_id e) = count_list (depends_on e) i"
proof (induction steps)
  case (Cons x xs)
  have rep: "count_list (replicate n a) b = (if a = b then n else 0)" for n and a b :: string
    by (induction n) auto
  have none: "count_list (successors xs i) (sd_id x) = 0"
    using Cons.prems(1) by (auto simp: count_list_0_iff successors_def)
  show ?case
  proof (cases "e = x")
    case True
    then show ?thesis using none by (simp add: successors_def rep)
  next
    case False
    then have "sd_id x \<noteq> sd_id e" "e \<in> set xs" using Cons.prems by auto
    then show ?thesis using Cons by (simp add: successors_def rep)
  qed
qed simp

lemma successors_subset: "set (successors steps i) \<subseteq> ids steps"
  by (auto simp: successors_def ids_def)

text \<open>The inner loop, when no degree would go below zero.\<close>

lemma release_spec:
  assumes "\<And>s. s \<in> set ss \<Longrightarrow> \<exists>d. deg s = Some d \<and> count_list ss s \<le> d"
    and "release ss (deg, q) = (deg', q')"
  shows "deg' = (\<lambda>s. map_option (\<lambda>d. d - count_list ss s) (deg s)) \<and>
    (\<exists>new. q' = q @ new \<and> distinct new \<and> set new = {s \<in> set ss. deg s = Some (count_list ss s)})"
  using assms
proof (induction ss arbitrary: deg q)
  case Nil
  then show ?case by (auto simp: option.map_ident)
next
  case (Cons s ss)
  obtain d where d: "deg s = Some d" "Suc (count_list ss s) \<le> d" using Cons.prems(1) [of s] by auto
  let ?deg = "deg(s \<mapsto> d - 1)" and ?q = "if d - 1 = 0 then q @ [s] else q"
  have pre: "\<exists>d. ?deg x = Some d \<and> count_list ss x \<le> d" if "x \<in> set ss" for x
    using that Cons.prems(1) [of x] d by (auto split: if_splits)
  have run: "release ss (?deg, ?q) = (deg', q')" using Cons.prems(2) d by simp
  obtain new where ih: "deg' = (\<lambda>x. map_option (\<lambda>d. d - count_list ss x) (?deg x))"
    "q' = ?q @ new" "distinct new" "set new = {x \<in> set ss. ?deg x = Some (count_list ss x)}"
    using Cons.IH [OF pre run] by blast
  have deg': "deg' = (\<lambda>x. map_option (\<lambda>d. d - count_list (s # ss) x) (deg x))"
    using ih(1) d by (auto simp: fun_eq_iff)
  show ?case
  proof (cases "d - 1 = 0")
    case True
    then have none: "s \<notin> set ss" using d by (simp add: count_list_0_iff [symmetric])
    have d1: "d = 1" using True d by simp
    have "x \<in> set (s # new) \<longleftrightarrow> x \<in> set (s # ss) \<and> deg x = Some (count_list (s # ss) x)" for x
      using ih(4) none d(1) d1 by (cases "x = s") (simp_all add: count_list_0_iff)
    then have "set (s # new) = {x \<in> set (s # ss). deg x = Some (count_list (s # ss) x)}" by blast
    moreover have "distinct (s # new)" using ih(3,4) none by auto
    ultimately show ?thesis using deg' ih(2) True by (intro conjI exI [of _ "s # new"]) simp_all
  next
    case False
    have pos: "d = Suc (count_list ss s) \<Longrightarrow> s \<in> set ss"
      using False by (cases "s \<in> set ss") (auto simp: count_list_0_iff)
    have "x \<in> set new \<longleftrightarrow> x \<in> set (s # ss) \<and> deg x = Some (count_list (s # ss) x)" for x
    proof (cases "x = s")
      case True
      have "d - 1 = count_list ss s \<longleftrightarrow> d = Suc (count_list ss s)" using d(2) by arith
      then have "s \<in> set new \<longleftrightarrow> s \<in> set ss \<and> d = Suc (count_list ss s)" using ih(4) by simp
      then show ?thesis using True d(1) pos by auto
    next
      case False
      then show ?thesis using ih(4) by simp
    qed
    then have "set new = {x \<in> set (s # ss). deg x = Some (count_list (s # ss) x)}" by blast
    then show ?thesis using deg' ih(2,3) False by (intro conjI exI [of _ new]) simp_all
  qed
qed


text \<open>The invariant of the outer loop.\<close>

definition pending :: "string set \<Rightarrow> string list \<Rightarrow> nat" where
  "pending T ds = length (filter (\<lambda>d. d \<notin> T) ds)"

definition looping :: "dag_steps \<Rightarrow> string set \<Rightarrow> bool" where
  "looping steps C \<longleftrightarrow> (\<forall>c\<in>C. \<exists>d\<in>C. (d, c) \<in> dep_rel steps)"

definition kahn_inv :: "dag_steps \<Rightarrow> kahn \<Rightarrow> bool" where
  "kahn_inv steps st \<longleftrightarrow>
     (\<forall>e\<in>set steps. degres st (sd_id e) = Some (pending (traites st) (depends_on e))) \<and>
     distinct (queue st) \<and> set (queue st) \<inter> traites st = {} \<and>
     traites st \<union> set (queue st) \<subseteq> ids steps \<and>
     (\<forall>e\<in>set steps. pending (traites st) (depends_on e) = 0 \<longleftrightarrow> sd_id e \<in> traites st \<union> set (queue st)) \<and>
     (\<forall>C. looping steps C \<longrightarrow> traites st \<inter> C = {})"

lemma pending_insert: "i \<notin> T \<Longrightarrow> pending T ds = count_list ds i + pending (insert i T) ds"
  by (induction ds) (auto simp: pending_def)

lemma pending_0: "pending T ds = 0 \<longleftrightarrow> set ds \<subseteq> T"
  by (auto simp: pending_def filter_empty_conv)

lemma kahn_inv_init:
  assumes "distinct (map sd_id steps)"
  shows "kahn_inv steps (initial_kahn steps)"
proof -
  have deg: "initial_degrees steps (sd_id e) = Some (length (depends_on e))" if "e \<in> set steps" for e
    using that assms by (simp add: initial_degrees_def initial_degrees_at)
  have full: "pending {} ds = length ds" for ds by (simp add: pending_def)
  have inj: "inj_on sd_id (set steps)" using assms by (simp add: distinct_map)
  have q: "sd_id e \<in> set (queue (initial_kahn steps)) \<longleftrightarrow> depends_on e = []" if "e \<in> set steps" for e
    using that deg inj by (auto simp: initial_kahn_def inj_on_def)
  show ?thesis
    unfolding kahn_inv_def
    using deg full q assms
    by (auto simp: initial_kahn_def ids_def filter_distinct_map)
qed

lemma kahn_step_eq:
  "queue st = i # q \<Longrightarrow> kahn_step (aval_of steps) st =
     (case release (successors steps i) (degres st, q) of
        (deg, q') \<Rightarrow> \<lparr>degres = deg, queue = q', traites = insert i (traites st)\<rparr>)"
  using aval_successors [of steps i] by (cases st) (auto simp: kahn_step_def split: option.splits)

lemma kahn_inv_step:
  assumes wf: "distinct (map sd_id steps)" and inv: "kahn_inv steps st" and q: "queue st = i # q"
  shows "kahn_inv steps (kahn_step (aval_of steps) st) \<and>
    card (ids steps - traites (kahn_step (aval_of steps) st)) < card (ids steps - traites st)"
proof -
  let ?T = "traites st" and ?ss = "successors steps i"
  have deg: "degres st (sd_id e) = Some (pending ?T (depends_on e))" if "e \<in> set steps" for e
    using inv that by (simp add: kahn_inv_def)
  have iT: "i \<notin> ?T" and i: "i \<in> ids steps" and iq: "i \<notin> set q" and dq: "distinct q"
    and qT: "set q \<inter> ?T = {}" and sub: "?T \<union> set q \<subseteq> ids steps"
    using inv q by (auto simp: kahn_inv_def)
  have zero: "pending ?T (depends_on e) = 0 \<longleftrightarrow> sd_id e \<in> insert i (?T \<union> set q)" if "e \<in> set steps" for e
    using inv q that by (auto simp: kahn_inv_def)
  have cnt: "count_list ?ss (sd_id e) = count_list (depends_on e) i" if "e \<in> set steps" for e
    using count_successors [OF wf that] by simp
  obtain deg' q' where rel: "release ?ss (degres st, q) = (deg', q')" by fastforce
  have pre: "\<exists>d. degres st s = Some d \<and> count_list ?ss s \<le> d" if s: "s \<in> set ?ss" for s
  proof -
    obtain e where e: "e \<in> set steps" "s = sd_id e" using subsetD [OF successors_subset s] by (auto simp: ids_def)
    then show ?thesis using deg [of e] cnt [of e] pending_insert [OF iT, of "depends_on e"] by simp
  qed
  obtain new where deg': "deg' = (\<lambda>s. map_option (\<lambda>d. d - count_list ?ss s) (degres st s))"
    and q': "q' = q @ new" and new: "distinct new" "set new = {s \<in> set ?ss. degres st s = Some (count_list ?ss s)}"
    using release_spec [OF pre rel] by blast
  have st': "kahn_step (aval_of steps) st = \<lparr>degres = deg', queue = q', traites = insert i ?T\<rparr>"
    by (simp add: kahn_step_eq [OF q] rel)
  have deg1: "deg' (sd_id e) = Some (pending (insert i ?T) (depends_on e))" if "e \<in> set steps" for e
    using deg [OF that] cnt [OF that] pending_insert [OF iT, of "depends_on e"] by (simp add: deg')
  have in_new: "sd_id e \<in> set new \<longleftrightarrow>
      pending ?T (depends_on e) \<noteq> 0 \<and> pending (insert i ?T) (depends_on e) = 0" if "e \<in> set steps" for e
    using deg [OF that] cnt [OF that] pending_insert [OF iT, of "depends_on e"] count_list_0_iff [of ?ss "sd_id e"]
    by (auto simp: new(2))
  have new_sub: "set new \<subseteq> ids steps" using new(2) successors_subset [of steps i] by auto
  have fresh: "set new \<inter> insert i (?T \<union> set q) = {}"
    using in_new zero new_sub by (fastforce simp: ids_def)
  have zero1: "pending (insert i ?T) (depends_on e) = 0 \<longleftrightarrow> sd_id e \<in> insert i ?T \<union> set q'" if "e \<in> set steps" for e
    using zero [OF that] in_new [OF that] pending_insert [OF iT, of "depends_on e"] by (auto simp: q')
  have loops: "insert i ?T \<inter> C = {}" if C: "looping steps C" for C
  proof -
    have T: "?T \<inter> C = {}" using inv C by (simp add: kahn_inv_def)
    have "i \<notin> C"
    proof
      assume "i \<in> C"
      then obtain d where d: "d \<in> C" "(d, i) \<in> dep_rel steps" using C by (auto simp: looping_def)
      then obtain e where e: "e \<in> set steps" "i = sd_id e" "d \<in> set (depends_on e)" by (auto simp: dep_rel_def)
      then have "set (depends_on e) \<subseteq> ?T" using zero [of e] pending_0 by blast
      with e d T show False by blast
    qed
    with T show ?thesis by simp
  qed
  have "kahn_inv steps \<lparr>degres = deg', queue = q', traites = insert i ?T\<rparr>"
    unfolding kahn_inv_def
    using deg1 zero1 loops new(1) dq fresh iq qT sub i new_sub by (auto simp: q')
  moreover have "card (ids steps - insert i ?T) < card (ids steps - ?T)"
    using i iT by (intro psubset_card_mono) (auto simp: ids_def)
  ultimately show ?thesis by (simp add: st')
qed

text \<open>The loop returns, and what it has treated is everything that no cycle holds back.\<close>

lemma kahn_loop_result:
  assumes "distinct (map sd_id steps)"
  shows "\<exists>st. kahn_loop steps = Some st \<and> kahn_inv steps st \<and> queue st = []"
proof -
  have step: "kahn_inv steps (kahn_step (aval_of steps) st) \<and>
      card (ids steps - traites (kahn_step (aval_of steps) st)) < card (ids steps - traites st)"
    if "kahn_inv steps st" "queue st \<noteq> []" for st
    using kahn_inv_step [OF assms that(1)] that(2) by (cases "queue st") auto
  obtain st where st: "kahn_loop steps = Some st"
    using measure_while_option_Some [of "kahn_inv steps" "\<lambda>st. queue st \<noteq> []" "kahn_step (aval_of steps)"
        "\<lambda>st. card (ids steps - traites st)" "initial_kahn steps"] step kahn_inv_init [OF assms]
    by (auto simp: kahn_loop_def)
  then have "queue st = []" using while_option_stop [of "\<lambda>st. queue st \<noteq> []"] by (auto simp: kahn_loop_def)
  moreover have "kahn_inv steps st"
    using while_option_rule [of "kahn_inv steps" "\<lambda>st. queue st \<noteq> []" "kahn_step (aval_of steps)" "initial_kahn steps" st]
      step kahn_inv_init [OF assms] st by (simp add: kahn_loop_def)
  ultimately show ?thesis using st by blast
qed

lemma dep_rel_UN: "dep_rel steps = (\<Union>e\<in>set steps. (\<lambda>d. (d, sd_id e)) ` set (depends_on e))"
  by (auto simp: dep_rel_def)

lemma dep_rel_finite: "finite (dep_rel steps)"
  by (simp add: dep_rel_UN)

lemma dep_rel_ids: "(d, i) \<in> dep_rel steps \<Longrightarrow> i \<in> ids steps"
  by (auto simp: dep_rel_def ids_def)

lemma kahn_final:
  assumes wf: "distinct (map sd_id steps)" and closed: "\<forall>e\<in>set steps. set (depends_on e) \<subseteq> ids steps"
    and st: "kahn_inv steps st" "queue st = []"
  shows "traites st = ids steps \<longleftrightarrow> acyclic (dep_rel steps)"
proof
  assume acyc: "acyclic (dep_rel steps)"
  show "traites st = ids steps"
  proof (rule ccontr)
    assume neq: "traites st \<noteq> ids steps"
    have wfR: "wf (dep_rel steps)" by (rule finite_acyclic_wf [OF dep_rel_finite acyc])
    obtain u where u: "u \<in> ids steps - traites st"
      and min: "\<And>y. (y, u) \<in> dep_rel steps \<Longrightarrow> y \<notin> ids steps - traites st"
      using wfE_min [OF wfR] neq st(1) unfolding kahn_inv_def by (metis Diff_eq_empty_iff all_not_in_conv le_sup_iff subset_antisym)
    from u obtain e where e: "e \<in> set steps" "u = sd_id e" by (auto simp: ids_def)
    have "set (depends_on e) \<subseteq> traites st"
      using min e closed by (auto simp: dep_rel_def)
    then have "sd_id e \<in> traites st" using st e by (simp add: kahn_inv_def pending_0)
    with u e show False by simp
  qed
next
  assume all: "traites st = ids steps"
  show "acyclic (dep_rel steps)"
  proof (rule acyclicI, intro allI notI)
    fix x assume "(x, x) \<in> (dep_rel steps)\<^sup>+"
    let ?C = "{y. (y, y) \<in> (dep_rel steps)\<^sup>+}"
    have "looping steps ?C"
      unfolding looping_def
    proof
      fix c assume "c \<in> ?C"
      then have "(c, c) \<in> (dep_rel steps)\<^sup>+" by simp
      then obtain d where d: "(c, d) \<in> (dep_rel steps)\<^sup>*" "(d, c) \<in> dep_rel steps"
        by (meson tranclD2)
      then have "(d, d) \<in> (dep_rel steps)\<^sup>+" by (meson rtrancl_into_trancl2)
      with d show "\<exists>d\<in>?C. (d, c) \<in> dep_rel steps" by blast
    qed
    then have "traites st \<inter> ?C = {}" using st(1) by (simp add: kahn_inv_def)
    moreover have "x \<in> ids steps" using \<open>(x, x) \<in> _\<close> by (metis dep_rel_ids tranclD2)
    ultimately show False using all \<open>(x, x) \<in> _\<close> by blast
  qed
qed


lemma validate_dag_eq:
  assumes "steps \<noteq> []" "distinct (map sd_id steps)" "\<forall>e\<in>set steps. set (depends_on e) \<subseteq> ids steps"
    and "kahn_loop steps = Some st" "kahn_inv steps st" "queue st = []"
  shows "validate_dag steps = Some
    (case find (\<lambda>e. sd_id e \<notin> traites st) steps of
       Some e \<Rightarrow> Inl (InvalidDag (''cycle d'' @ e_acute @ ''tect'' @ e_acute @ '' impliquant le step '' @ sd_id e))
     | None \<Rightarrow> Inr ())"
proof -
  have dup: "first_duplicate {} steps = None" using assms(2) by (simp add: first_duplicate_None)
  have mis: "first_missing (set (map sd_id steps)) steps = None"
    using assms(3) by (simp add: first_missing_None ids_def)
  have card: "card (ids steps) = length steps" using assms(2) by (simp add: ids_def distinct_map card_image distinct_card)
  have sub: "traites st \<subseteq> ids steps" using assms(5) by (simp add: kahn_inv_def)
  have "find (\<lambda>e. sd_id e \<notin> traites st) steps = None \<longleftrightarrow> ids steps \<subseteq> traites st"
    by (auto simp: find_None_iff ids_def)
  also have "\<dots> \<longleftrightarrow> \<not> card (traites st) < length steps"
  proof
    assume "ids steps \<subseteq> traites st"
    then have "traites st = ids steps" using sub by blast
    then show "\<not> card (traites st) < length steps" using card by simp
  next
    assume "\<not> card (traites st) < length steps"
    then show "ids steps \<subseteq> traites st"
      using sub card psubset_card_mono [of "ids steps" "traites st"] by (auto simp: ids_def)
  qed
  finally show ?thesis
    using assms(1,4) dup mis by (auto simp: validate_dag_def split: option.split)
qed

lemma validate_dag_total: "\<exists>r. validate_dag steps = Some r"
proof (cases "first_duplicate {} steps")
  case None
  then have "distinct (map sd_id steps)" by (simp add: first_duplicate_None)
  then obtain st where "kahn_loop steps = Some st" using kahn_loop_result by blast
  with None show ?thesis by (auto simp: validate_dag_def split: option.split)
qed (simp add: validate_dag_def)

lemma validate_dag_Ok: "validate_dag steps = Some (Inr ()) \<longleftrightarrow> valid_dag steps"
proof (cases "steps \<noteq> [] \<and> distinct (map sd_id steps) \<and> (\<forall>e\<in>set steps. set (depends_on e) \<subseteq> ids steps)")
  case True
  then obtain st where st: "kahn_loop steps = Some st" "kahn_inv steps st" "queue st = []"
    using kahn_loop_result by blast
  have "validate_dag steps = Some (Inr ()) \<longleftrightarrow> find (\<lambda>e. sd_id e \<notin> traites st) steps = None"
    using validate_dag_eq [OF _ _ _ st] True by (auto split: option.splits)
  also have "\<dots> \<longleftrightarrow> traites st = ids steps"
    using st(2) by (auto simp: find_None_iff ids_def kahn_inv_def)
  also have "\<dots> \<longleftrightarrow> acyclic (dep_rel steps)" using kahn_final [OF _ _ st(2,3)] True by blast
  finally show ?thesis using True by (simp add: valid_dag_def)
next
  case False
  then have "first_duplicate {} steps \<noteq> None \<or> steps = [] \<or> first_missing (set (map sd_id steps)) steps \<noteq> None"
    by (auto simp: first_duplicate_None first_missing_None ids_def simp del: not_None_eq)
  then show ?thesis using False by (auto simp: validate_dag_def valid_dag_def split: option.splits)
qed

lemma rejeter_Ok: "rejeter_si_dag_invalide (Some steps) = Inr () \<longleftrightarrow> valid_dag steps"
  using validate_dag_Ok [of steps]
  by (auto simp: rejeter_si_dag_invalide_def split: option.splits sum.splits workflow_error.splits)

lemma looping_reaches_cycle:
  assumes "looping steps C" "x \<in> C"
  shows "\<exists>c. (c, c) \<in> (dep_rel steps)\<^sup>+ \<and> (c, x) \<in> (dep_rel steps)\<^sup>*"
proof (rule ccontr)
  assume none: "\<not> ?thesis"
  let ?P = "{c \<in> C. (c, x) \<in> (dep_rel steps)\<^sup>*}"
  let ?R = "dep_rel steps \<inter> ?P \<times> ?P"
  have "acyclic ?R"
  proof (rule acyclicI, intro allI notI)
    fix c assume c: "(c, c) \<in> ?R\<^sup>+"
    then have "c \<in> ?P" by (blast dest: tranclD)
    moreover have "(c, c) \<in> (dep_rel steps)\<^sup>+" using c by (rule trancl_mono) blast
    ultimately show False using none by blast
  qed
  then have wf: "wf ?R" by (rule finite_acyclic_wf [rotated]) (simp add: dep_rel_finite)
  have "x \<in> ?P" using assms(2) by simp
  from wfE_min [OF wf this] obtain u where u: "u \<in> ?P" "\<And>y. (y, u) \<in> ?R \<Longrightarrow> y \<notin> ?P" by blast
  then obtain d where "d \<in> C" "(d, u) \<in> dep_rel steps" using assms(1) by (auto simp: looping_def)
  with u have "d \<in> ?P" by (auto intro: converse_rtrancl_into_rtrancl)
  with u \<open>(d, u) \<in> _\<close> show False by blast
qed

section \<open>Lemmas on the hooks\<close>

definition all_valid :: "(db_value \<Rightarrow> dag_steps) \<Rightarrow> row tables \<Rightarrow> bool" where
  "all_valid decode t \<longleftrightarrow> (\<forall>r\<in>set (rows t). valid_dag (decode (r ''steps'')))"

lemma keeps_all_valid_resolve: "act_keeps (all_valid decode) (resolve_principal p)"
  unfolding resolve_principal_def resolve_user_def
  by (auto intro!: keeps keeps_statement split: option.splits dest!: keeps_insert_user_rows
      simp: all_valid_def)

lemma keeps_hooked:
  "(\<And>a. r = Inr a \<Longrightarrow> act_keeps P (f a)) \<Longrightarrow> act_keeps P (and_then (map_err g (lift_result r)) f)"
  by (cases r) (auto simp: act_keeps_def and_then_def map_err_def lift_result_def)

lemma workflow_resource_simps [simp]:
  "columns (workflow_resource decode cell) = [''id'', ''name'', ''steps'', ''owner_id'', ''created_at'']"
  "primary_key (workflow_resource decode cell) = ''id''"
  "owner_column (workflow_resource decode cell) = Some ''owner_id''"
  "before_create (workflow_resource decode cell) = workflow_before_create decode"
  "before_update (workflow_resource decode cell) = workflow_before_update decode"
  "read_policy (workflow_resource decode cell) = wp_read (current_policy cell)"
  "write_policy (workflow_resource decode cell) = wp_write (current_policy cell)"
  by (simp_all add: workflow_resource_def)

lemma marked_steps:
  "mark_all_set (workflow_resource decode cell) (into_active_model body) ''steps'' = Set (body ''steps'')"
  by (simp add: mark_all_set_def into_active_model_def)

lemma workflow_before_create_Inr:
  "workflow_before_create decode active p = Inr a \<Longrightarrow> active ''steps'' = Set v \<Longrightarrow>
     a ''steps'' = Set v \<and> valid_dag (decode v)"
  by (auto simp: workflow_before_create_def rejeter_Ok [symmetric] split: sum.splits)

lemma workflow_before_update_Inr:
  "workflow_before_update decode active old p = Inr a \<Longrightarrow> active ''steps'' = Set v \<Longrightarrow>
     a ''steps'' = Set v \<and> valid_dag (decode v)"
  by (auto simp: workflow_before_update_def rejeter_Ok [symmetric] split: sum.splits)

lemma keeps_valid_insert:
  assumes "into_value (a ''steps'') = Some v" "valid_dag (decode v)"
  shows "act_keeps (all_valid decode) (statement (insert_row (workflow_resource decode cell) (stamp_new (workflow_resource decode cell) u a)))"
  using assms
  by (intro keeps_statement)
    (auto simp: all_valid_def insert_row_def Let_def inserted_row_def stamp_new_def split: if_splits)

lemma keeps_valid_update:
  assumes "a ''steps'' = Set v" "valid_dag (decode v)"
  shows "act_keeps (all_valid decode) (statement (update_row (workflow_resource decode cell) (stamp_existing (workflow_resource decode cell) i old a)))"
  using assms
  by (intro keeps_statement)
    (auto simp: all_valid_def update_row_def updated_row_def stamp_existing_def split: if_splits option.splits)

section \<open>Lemmas on truncation\<close>

lemma last_boundary_le: "last_boundary s i \<le> i"
  by (induction i) (auto simp: le_Suc_eq)

lemma last_boundary_boundary: "is_char_boundary s (last_boundary s i)"
  by (induction i) (auto simp: is_char_boundary_def)

lemma last_boundary_largest: "is_char_boundary s j \<Longrightarrow> j \<le> i \<Longrightarrow> j \<le> last_boundary s i"
  by (induction i) (auto simp: le_Suc_eq)

section \<open>Properties\<close>

text \<open>
  C2: the validation always returns, and accepts exactly the lists that are not empty, repeat no id,
  cite no missing step and have no dependency cycle.
\<close>

theorem validate_dag_correct:
  "(\<exists>r. validate_dag steps = Some r) \<and>
   (validate_dag steps = Some (Inr ()) \<longleftrightarrow>
      steps \<noteq> [] \<and> distinct (map sd_id steps) \<and> (\<forall>e\<in>set steps. set (depends_on e) \<subseteq> sd_id ` set steps) \<and>
      acyclic (dep_rel steps))"
  using validate_dag_total validate_dag_Ok by (simp add: valid_dag_def ids_def)

text \<open>The four kinds of list: a diamond is accepted, a repeated id, a missing step and a loop are not.\<close>

definition plain_step :: "string \<Rightarrow> string list \<Rightarrow> step_definition" where
  "plain_step i ds = \<lparr>sd_id = i, depends_on = ds, sd_kind = ''rhai'', sd_config = JNull\<rparr>"

definition diamond_dag :: dag_steps where
  "diamond_dag = [plain_step ''d'' [''b'', ''c''], plain_step ''b'' [''a''], plain_step ''c'' [''a''], plain_step ''a'' []]"

theorem validate_dag_correct_witness:
  "validate_dag diamond_dag = Some (Inr ()) \<and> acyclic (dep_rel diamond_dag) \<and>
   validate_dag [plain_step ''a'' [''b''], plain_step ''b'' [''a'']] \<noteq> Some (Inr ()) \<and>
   \<not> acyclic (dep_rel [plain_step ''a'' [''b''], plain_step ''b'' [''a'']])"
proof -
  let ?loop = "[plain_step ''a'' [''b''], plain_step ''b'' [''a'']]"
  have ok: "validate_dag diamond_dag = Some (Inr ())" by code_simp
  moreover have "acyclic (dep_rel diamond_dag)" using validate_dag_correct [of diamond_dag] ok by blast
  moreover have no: "validate_dag ?loop \<noteq> Some (Inr ())" by code_simp
  moreover have "\<not> acyclic (dep_rel ?loop)"
    using validate_dag_correct [of ?loop] no by (auto simp: plain_step_def)
  ultimately show ?thesis by blast
qed

definition downstream_dag :: dag_steps where
  "downstream_dag =
     [\<lparr>sd_id = ''report'', depends_on = [''a''], sd_kind = ''rhai'', sd_config = JNull\<rparr>,
      \<lparr>sd_id = ''a'', depends_on = [''b''], sd_kind = ''rhai'', sd_config = JNull\<rparr>,
      \<lparr>sd_id = ''b'', depends_on = [''a''], sd_kind = ''rhai'', sd_config = JNull\<rparr>]"

definition cycle_message :: "string \<Rightarrow> string" where
  "cycle_message i = ''cycle d'' @ e_acute @ ''tect'' @ e_acute @ '' impliquant le step '' @ i"

text \<open>
  Acyclic list is rejected with the message of a cycle, and the step it names depends, directly
  or not, on a step of a cycle. The witness shows that the step named need not be in a cycle itself.
\<close>

theorem cycle_report_reaches_cycle:
  assumes "steps \<noteq> []" "distinct (map sd_id steps)" "\<forall>e\<in>set steps. set (depends_on e) \<subseteq> ids steps"
    and "\<not> acyclic (dep_rel steps)"
  shows "\<exists>e\<in>set steps. validate_dag steps = Some (Inl (InvalidDag (cycle_message (sd_id e)))) \<and>
    (\<exists>c. (c, c) \<in> (dep_rel steps)\<^sup>+ \<and> (c, sd_id e) \<in> (dep_rel steps)\<^sup>*)"
proof -
  obtain st where st: "kahn_loop steps = Some st" "kahn_inv steps st" "queue st = []"
    using kahn_loop_result [OF assms(2)] by blast
  have "traites st \<noteq> ids steps" using kahn_final [OF assms(2,3) st(2,3)] assms(4) by blast
  then have "find (\<lambda>e. sd_id e \<notin> traites st) steps \<noteq> None"
    using st(2) by (auto simp: find_None_iff ids_def kahn_inv_def simp del: not_None_eq)
  then obtain e where f: "find (\<lambda>e. sd_id e \<notin> traites st) steps = Some e" by blast
  then have e: "e \<in> set steps" "sd_id e \<in> ids steps - traites st"
    using find_Some_mem [OF f] by (auto simp: ids_def)
  have "looping steps (ids steps - traites st)"
    unfolding looping_def
  proof
    fix c assume c: "c \<in> ids steps - traites st"
    then obtain s where s: "s \<in> set steps" "c = sd_id s" by (auto simp: ids_def)
    then have "pending (traites st) (depends_on s) \<noteq> 0" using st(2,3) c by (auto simp: kahn_inv_def)
    then obtain d where "d \<in> set (depends_on s)" "d \<notin> traites st" by (auto simp: pending_0)
    then show "\<exists>d\<in>ids steps - traites st. (d, c) \<in> dep_rel steps"
      using s assms(3) by (auto simp: dep_rel_def)
  qed
  then have "\<exists>c. (c, c) \<in> (dep_rel steps)\<^sup>+ \<and> (c, sd_id e) \<in> (dep_rel steps)\<^sup>*"
    using e(2) by (rule looping_reaches_cycle)
  moreover have "validate_dag steps = Some (Inl (InvalidDag (cycle_message (sd_id e))))"
    using validate_dag_eq [OF assms(1-3) st] f by (simp add: cycle_message_def)
  ultimately show ?thesis using e(1) by blast
qed

theorem cycle_report_reaches_cycle_witness:
  "validate_dag downstream_dag = Some (Inl (InvalidDag (cycle_message ''report''))) \<and>
   (''report'', ''report'') \<notin> (dep_rel downstream_dag)\<^sup>+ \<and>
   (\<exists>c. (c, c) \<in> (dep_rel downstream_dag)\<^sup>+)"
proof -
  have rel: "dep_rel downstream_dag = {(''a'', ''report''), (''b'', ''a''), (''a'', ''b'')}"
    by (auto simp: dep_rel_UN downstream_dag_def)
  have "(''a'', ''a'') \<in> (dep_rel downstream_dag)\<^sup>+"
    unfolding rel by (rule trancl_into_trancl [OF r_into_trancl [of "''a''" "''b''"]]) auto
  then have cyc: "\<not> acyclic (dep_rel downstream_dag)" by (auto simp: acyclic_def)
  have "(''report'', y) \<notin> dep_rel downstream_dag" for y by (simp add: rel)
  then have no: "(''report'', ''report'') \<notin> (dep_rel downstream_dag)\<^sup>+" by (meson tranclD)
  have msg: "validate_dag downstream_dag = Some (Inl (InvalidDag (cycle_message ''report'')))" by code_simp
  have "\<exists>e\<in>set downstream_dag. validate_dag downstream_dag = Some (Inl (InvalidDag (cycle_message (sd_id e)))) \<and>
      (\<exists>c. (c, c) \<in> (dep_rel downstream_dag)\<^sup>+ \<and> (c, sd_id e) \<in> (dep_rel downstream_dag)\<^sup>*)"
    using cyc by (intro cycle_report_reaches_cycle) (simp_all add: downstream_dag_def ids_def)
  with msg no show ?thesis by blast
qed

text \<open>
  Aworkflow stored or changed through the REST operations is a valid DAG: in every world whose
  other sessions keep it, every row of the resource \<open>workflows\<close> holds a list the validation accepts.
\<close>

theorem stored_workflows_are_valid:
  "act_keeps (all_valid decode) (rest_create (workflow_resource decode cell) p body) \<and>
   act_keeps (all_valid decode) (rest_update (workflow_resource decode cell) p i body)"
proof (intro conjI)
  let ?E = "workflow_resource decode cell"
  have create: "act_keeps (all_valid decode) (map_err Rest_Database (statement (insert_row ?E (stamp_new ?E u a))))"
    if "before_create ?E (mark_all_set ?E (into_active_model body)) p = Inr a" for a u
    using workflow_before_create_Inr [OF that [unfolded workflow_resource_simps] marked_steps]
    by (intro keeps_map_err keeps_valid_insert) auto
  show "act_keeps (all_valid decode) (rest_create ?E p body)"
    unfolding rest_create_eq
    by (intro keeps_and_then keeps_all_valid_resolve keeps_map_err keeps_can_create)
      (auto intro!: keeps_fail keeps_hooked create)
  have update: "act_keeps (all_valid decode) (map_err update_error (statement (update_row ?E (stamp_existing ?E i old a))))"
    if "before_update ?E (mark_all_set ?E (into_active_model body)) old p = Inr a" for a old
    using workflow_before_update_Inr [OF that [unfolded workflow_resource_simps] marked_steps]
    by (intro keeps_map_err keeps_valid_update) auto
  show "act_keeps (all_valid decode) (rest_update ?E p i body)"
    unfolding rest_update_eq
    by (intro keeps_and_then keeps_all_valid_resolve writing.load_keeps keeps_hooked update)
qed

text \<open>
  Aserver body copied into an error text is cut to at most 1024 bytes and an ellipsis, at a
  character boundary, as late as possible; a shorter body is kept whole.
\<close>

theorem truncated_body_bounded:
  "if length body \<le> 1024 then truncated_body body = body
   else \<exists>n. n \<le> 1024 \<and> is_char_boundary body n \<and> truncated_body body = take n body @ ellipsis \<and>
          length (truncated_body body) \<le> 1027 \<and> (\<forall>m. n < m \<and> m \<le> 1024 \<longrightarrow> \<not> is_char_boundary body m)"
proof (cases "length body \<le> 1024")
  case False
  let ?n = "last_boundary body 1024"
  have n: "?n \<le> 1024" by (rule last_boundary_le)
  then have "get_to body ?n = Some (take ?n body)"
    using False last_boundary_boundary [of body 1024] by (simp add: get_to_def)
  then have t: "truncated_body body = take ?n body @ ellipsis"
    using False by (simp add: truncated_body_def max_body_bytes_def)
  have "length (truncated_body body) \<le> 1027" using n by (simp add: t ellipsis_def)
  moreover have "\<forall>m. ?n < m \<and> m \<le> 1024 \<longrightarrow> \<not> is_char_boundary body m"
    using last_boundary_largest [of body _ 1024] by (meson leD)
  ultimately show ?thesis using False n t last_boundary_boundary [of body 1024] by auto
qed (simp add: truncated_body_def max_body_bytes_def)

text \<open>The cut at byte 1024 would fall inside the two bytes of an accented letter.\<close>

definition split_letter :: string where
  "split_letter = replicate 1023 CHR ''a'' @ e_acute @ ''z''"

theorem truncated_body_bounded_witness:
  "\<not> length split_letter \<le> 1024 \<and> length (truncated_body split_letter) \<le> 1027 \<and>
   (\<exists>n\<le>1024. truncated_body split_letter = take n split_letter @ ellipsis)"
proof -
  have "\<not> length split_letter \<le> 1024" by (simp add: split_letter_def e_acute_def)
  with truncated_body_bounded [of split_letter] show ?thesis by auto
qed

end
