(* ===== verification/Workflow_Steps.thy ===== *)
theory Workflow_Steps
  imports Workflow_Definition
begin

text \<open>
  The steps of a workflow: the registry of kinds (\<open>src/src/workflow/step.rs\<close>), the rendering of a
  configuration (\<open>workflow/template.rs\<close>) and the dispatcher that runs one invocation
  (\<open>workflow/dispatcher.rs\<close>). Parameters: the restricted Handlebars engine, the JSON parser, and
  Restate's \<open>Context::run\<close>. The two registrations share the locale \<open>kind_registry\<close>.
\<close>

section \<open>Steps and their registry\<close>

type_synonym inputs = "(string \<times> json) list"

record run_info =
  ri_run_key :: string
  ri_step_id :: string
  ri_depth :: u32
  ri_vars :: json
  ri_trigger :: "string option"

record step_error =
  se_message :: string
  se_retryable :: bool

text \<open>An implementation of a kind, ordinary or durable; \<open>'w\<close> is the world its effects act on.\<close>

record 'w step_impl =
  st_kind :: string
  st_run :: "run_info \<Rightarrow> json \<Rightarrow> inputs \<Rightarrow> ('w, step_error, json) act"
  st_raw_fields :: "string list"

record 'w step_registry =
  reg_steps :: "string \<rightharpoonup> 'w step_impl"
  reg_durables :: "string \<rightharpoonup> 'w step_impl"

definition registry_empty :: "'w step_registry" where
  "registry_empty = \<lparr>reg_steps = Map.empty, reg_durables = Map.empty\<rparr>"

definition register_step ::
    "'w step_impl \<Rightarrow> 'w step_registry \<Rightarrow> workflow_error + 'w step_registry" where
  "register_step s r =
     (if reg_steps r (st_kind s) \<noteq> None \<or> reg_durables r (st_kind s) \<noteq> None
      then Inl (DuplicateStepKind (st_kind s))
      else Inr (r\<lparr>reg_steps := (reg_steps r)(st_kind s \<mapsto> s)\<rparr>))"

definition register_durable ::
    "'w step_impl \<Rightarrow> 'w step_registry \<Rightarrow> workflow_error + 'w step_registry" where
  "register_durable s r =
     (if reg_steps r (st_kind s) \<noteq> None \<or> reg_durables r (st_kind s) \<noteq> None
      then Inl (DuplicateStepKind (st_kind s))
      else Inr (r\<lparr>reg_durables := (reg_durables r)(st_kind s \<mapsto> s)\<rparr>))"

definition durable_of :: "'w step_registry \<Rightarrow> string \<Rightarrow> 'w step_impl option" where
  "durable_of r k = reg_durables r k"

definition raw_fields_of :: "'w step_registry \<Rightarrow> string \<Rightarrow> string list option" where
  "raw_fields_of r k =
     (case reg_steps r k of
        Some s \<Rightarrow> Some (st_raw_fields s)
      | None \<Rightarrow> map_option st_raw_fields (reg_durables r k))"

definition unknown_kind :: "string \<Rightarrow> step_error" where
  "unknown_kind k = \<lparr>se_message = ''kind inconnu: '' @ k, se_retryable = False\<rparr>"

definition dispatch ::
    "'w step_registry \<Rightarrow> string \<Rightarrow> run_info \<Rightarrow> json \<Rightarrow> inputs \<Rightarrow> step_error + ('w, step_error, json) act" where
  "dispatch r k run config ins =
     (case reg_steps r k of None \<Rightarrow> Inl (unknown_kind k) | Some s \<Rightarrow> Inr (st_run s run config ins))"

section \<open>Templates\<close>

definition max_rendered_bytes :: nat where "max_rendered_bytes = 1048576"

definition template_context :: "run_info \<Rightarrow> inputs \<Rightarrow> json" where
  "template_context run ins =
     obj [(''inputs'', obj ins),
          (''run'', obj [(''run_key'', JString (ri_run_key run)), (''step_id'', JString (ri_step_id run)),
                         (''depth'', JNumber (Int_Num (uint (ri_depth run))))]),
          (''vars'', ri_vars run)]"

definition replace_char :: "char \<Rightarrow> string \<Rightarrow> string \<Rightarrow> string" where
  "replace_char c by s = concat (map (\<lambda>x. if x = c then by else [x]) s)"

definition child_pointer :: "string \<Rightarrow> string \<Rightarrow> string" where
  "child_pointer pointer key =
     pointer @ ''/'' @ replace_char (CHR ''/'') ''~1'' (replace_char (CHR ''~'') ''~0'' key)"

definition invalid_template :: "string \<Rightarrow> string \<Rightarrow> step_error" where
  "invalid_template pointer detail =
     \<lparr>se_message = ''template invalide '' @ a_grave @ '' '' @ pointer @ '': '' @ detail, se_retryable = False\<rparr>"

text \<open>
  \<open>engine\<close> is the restricted Handlebars engine (strict, no escaping, without the denied helpers);
  \<open>from_str\<close> is \<open>serde_json::from_str\<close>.
\<close>

definition render_string ::
    "(string \<Rightarrow> json \<Rightarrow> string + string) \<Rightarrow> string \<Rightarrow> json \<Rightarrow> string \<Rightarrow> step_error + string" where
  "render_string engine template ctx pointer =
     (if \<not> contains_sub ''{{'' template then Inr template
      else case engine template ctx of
        Inl e \<Rightarrow> Inl (invalid_template pointer e)
      | Inr out \<Rightarrow>
          if length out > max_rendered_bytes
          then Inl \<lparr>se_message = ''rendu trop long '' @ a_grave @ '' '' @ pointer, se_retryable = False\<rparr>
          else Inr out)"

fun render_value ::
      "(string \<Rightarrow> json \<Rightarrow> string + string) \<Rightarrow> (string \<Rightarrow> string + json) \<Rightarrow> json \<Rightarrow> string \<Rightarrow> json \<Rightarrow>
       step_error + json"
  and render_items ::
      "(string \<Rightarrow> json \<Rightarrow> string + string) \<Rightarrow> (string \<Rightarrow> string + json) \<Rightarrow> json \<Rightarrow> string \<Rightarrow> nat \<Rightarrow> json list \<Rightarrow>
       step_error + json list"
  and render_entries ::
      "(string \<Rightarrow> json \<Rightarrow> string + string) \<Rightarrow> (string \<Rightarrow> string + json) \<Rightarrow> json \<Rightarrow> string \<Rightarrow> (string \<times> json) list \<Rightarrow>
       step_error + (string \<times> json) list" where
  "render_value engine from_str ctx pointer (JString template) =
     (case render_string engine template ctx pointer of Inl e \<Rightarrow> Inl e | Inr s \<Rightarrow> Inr (JString s))"
| "render_value engine from_str ctx pointer (JArray xs) =
     (case render_items engine from_str ctx pointer 0 xs of Inl e \<Rightarrow> Inl e | Inr ys \<Rightarrow> Inr (JArray ys))"
| "render_value engine from_str ctx pointer (JObject kvs) =
     (case (if length kvs = 1 then map_of kvs ''$raw'' else None) of
        Some raw \<Rightarrow> Inr raw
      | None \<Rightarrow>
          (case (if length kvs = 1 then map_of kvs ''$json'' else None) of
             Some (JString template) \<Rightarrow>
               (case render_string engine template ctx pointer of
                  Inl e \<Rightarrow> Inl e
                | Inr s \<Rightarrow> (case from_str s of Inl e \<Rightarrow> Inl (invalid_template pointer e) | Inr v \<Rightarrow> Inr v))
           | Some _ \<Rightarrow> Inl (invalid_template pointer (''$json doit porter une cha'' @ [char_of (195::nat), char_of (174::nat)] @ ''ne''))
           | None \<Rightarrow>
               (case render_entries engine from_str ctx pointer kvs of
                  Inl e \<Rightarrow> Inl e | Inr out \<Rightarrow> Inr (JObject out))))"
| "render_value engine from_str ctx pointer (JNumber n) = Inr (JNumber n)"
| "render_value engine from_str ctx pointer (JBool b) = Inr (JBool b)"
| "render_value engine from_str ctx pointer JNull = Inr JNull"
| "render_items engine from_str ctx pointer i [] = Inr []"
| "render_items engine from_str ctx pointer i (x # xs) =
     (case render_value engine from_str ctx (pointer @ ''/'' @ show_nat i) x of
        Inl e \<Rightarrow> Inl e
      | Inr y \<Rightarrow> (case render_items engine from_str ctx pointer (Suc i) xs of
                   Inl e \<Rightarrow> Inl e | Inr ys \<Rightarrow> Inr (y # ys)))"
| "render_entries engine from_str ctx pointer [] = Inr []"
| "render_entries engine from_str ctx pointer ((key, item) # rest) =
     (case render_value engine from_str ctx (child_pointer pointer key) item of
        Inl e \<Rightarrow> Inl e
      | Inr v \<Rightarrow> (case render_entries engine from_str ctx pointer rest of
                   Inl e \<Rightarrow> Inl e | Inr out \<Rightarrow> Inr ((key, v) # out)))"

fun render_fields ::
    "(string \<Rightarrow> json \<Rightarrow> string + string) \<Rightarrow> (string \<Rightarrow> string + json) \<Rightarrow> json \<Rightarrow> string list \<Rightarrow>
     (string \<times> json) list \<Rightarrow> step_error + (string \<times> json) list" where
  "render_fields engine from_str ctx raw [] = Inr []"
| "render_fields engine from_str ctx raw ((key, item) # rest) =
     (case (if key \<in> set raw then Inr item
            else render_value engine from_str ctx (child_pointer '''' key) item) of
        Inl e \<Rightarrow> Inl e
      | Inr v \<Rightarrow> (case render_fields engine from_str ctx raw rest of
                   Inl e \<Rightarrow> Inl e | Inr out \<Rightarrow> Inr ((key, v) # out)))"

definition special_object :: "(string \<times> json) list \<Rightarrow> bool" where
  "special_object kvs \<longleftrightarrow> length kvs = 1 \<and> (map_of kvs ''$raw'' \<noteq> None \<or> map_of kvs ''$json'' \<noteq> None)"

definition render_config ::
    "(string \<Rightarrow> json \<Rightarrow> string + string) \<Rightarrow> (string \<Rightarrow> string + json) \<Rightarrow> json \<Rightarrow> run_info \<Rightarrow> inputs \<Rightarrow>
     string list \<Rightarrow> step_error + json" where
  "render_config engine from_str config run ins raw =
     (let ctx = template_context run ins in
      case config of
        JObject kvs \<Rightarrow>
          if \<not> special_object kvs
          then (case render_fields engine from_str ctx raw kvs of Inl e \<Rightarrow> Inl e | Inr out \<Rightarrow> Inr (JObject out))
          else render_value engine from_str ctx '''' config
      | _ \<Rightarrow> render_value engine from_str ctx '''' config)"

definition render_str ::
    "(string \<Rightarrow> json \<Rightarrow> string + string) \<Rightarrow> string \<Rightarrow> run_info \<Rightarrow> inputs \<Rightarrow> step_error + string" where
  "render_str engine template run ins = render_string engine template (template_context run ins) ''''"

section \<open>The dispatcher\<close>

record step_invocation =
  inv_kind :: string
  inv_config :: json
  inv_inputs :: inputs
  inv_run_key :: string
  inv_step_id :: string
  inv_depth :: u32
  inv_vars :: json
  inv_trigger :: "string option"

text \<open>A handler error: terminal with its code (500 unless set), or retried by the engine.\<close>

datatype handler_error = Terminal nat string | Retried step_error

definition kind_inconnu :: "string \<Rightarrow> handler_error" where
  "kind_inconnu k = Terminal 404 (''kind inconnu: '' @ k)"

definition step_error_to_handler_error :: "step_error \<Rightarrow> handler_error" where
  "step_error_to_handler_error e = (if se_retryable e then Retried e else Terminal 500 (se_message e))"

definition render_for_kind ::
    "(string \<Rightarrow> json \<Rightarrow> string + string) \<Rightarrow> (string \<Rightarrow> string + json) \<Rightarrow> 'w step_registry \<Rightarrow> string \<Rightarrow>
     run_info \<Rightarrow> json \<Rightarrow> inputs \<Rightarrow> step_error + json" where
  "render_for_kind engine from_str registry k run config ins =
     (case raw_fields_of registry k of
        None \<Rightarrow> Inl (unknown_kind k)
      | Some raw \<Rightarrow> render_config engine from_str config run ins raw)"

definition run_invocation ::
    "(string \<Rightarrow> json \<Rightarrow> string + string) \<Rightarrow> (string \<Rightarrow> string + json) \<Rightarrow> 'w step_registry \<Rightarrow> string \<Rightarrow>
     run_info \<Rightarrow> json \<Rightarrow> inputs \<Rightarrow> ('w, handler_error, json) act" where
  "run_invocation engine from_str registry k run config ins =
     (if raw_fields_of registry k = None then fail_with (kind_inconnu k)
      else and_then
        (map_err step_error_to_handler_error
           (lift_result (render_for_kind engine from_str registry k run config ins)))
        (\<lambda>rendered. case dispatch registry k run rendered ins of
            Inl _ \<Rightarrow> fail_with (kind_inconnu k)
          | Inr found \<Rightarrow> map_err step_error_to_handler_error found))"

text \<open>\<open>ctx_run\<close> is \<open>Context::run\<close>: it executes and journals its argument, or replays the journal.\<close>

definition run_step ::
    "(string \<Rightarrow> json \<Rightarrow> string + string) \<Rightarrow> (string \<Rightarrow> string + json) \<Rightarrow>
     (('w, handler_error, json) act \<Rightarrow> ('w, handler_error, json) act) \<Rightarrow>
     'w step_registry \<Rightarrow> step_invocation \<Rightarrow> ('w, handler_error, json) act" where
  "run_step engine from_str ctx_run registry req =
     (let run = \<lparr>ri_run_key = inv_run_key req, ri_step_id = inv_step_id req, ri_depth = inv_depth req,
                 ri_vars = inv_vars req, ri_trigger = inv_trigger req\<rparr> in
      case durable_of registry (inv_kind req) of
        Some durable \<Rightarrow>
          and_then
            (ctx_run (map_err step_error_to_handler_error (lift_result
               (render_for_kind engine from_str registry (inv_kind req) run (inv_config req) (inv_inputs req)))))
            (\<lambda>rendered. map_err step_error_to_handler_error (st_run durable run rendered (inv_inputs req)))
      | None \<Rightarrow>
          ctx_run (run_invocation engine from_str registry (inv_kind req) run (inv_config req) (inv_inputs req)))"

definition long_running_kinds :: "string list" where "long_running_kinds = [''subagent'']"

definition handler_name :: "string \<Rightarrow> string" where
  "handler_name k = (if k \<in> set long_running_kinds then ''execute_long'' else ''execute'')"

text \<open>Durations in nanoseconds; the options as the fields the crate sets.\<close>

definition seconds :: "nat \<Rightarrow> nat" where "seconds n = n * 1000000000"

definition default_long_ceiling_secs :: nat where "default_long_ceiling_secs = 3600"
definition long_ceiling_max_secs :: nat where "long_ceiling_max_secs = 14400"

record service_options =
  so_max_attempts :: nat
  so_pause_on_max :: bool
  so_long_inactivity :: nat
  so_long_abort :: nat

definition recommended_options_for :: "nat \<Rightarrow> service_options" where
  "recommended_options_for asked =
     (let c = clamp asked (seconds 1) (seconds long_ceiling_max_secs) in
      \<lparr>so_max_attempts = 5, so_pause_on_max = True,
       so_long_inactivity = c + seconds (5 * 60), so_long_abort = c + seconds (10 * 60)\<rparr>)"

definition recommended_options :: service_options where
  "recommended_options = recommended_options_for (seconds default_long_ceiling_secs)"

section \<open>Registration\<close>

text \<open>
  The contract of a registration: it succeeds exactly on a kind that is known nowhere, after it the
  kind is known with the raw fields of the implementation, and no other kind changes.
\<close>

locale kind_registry =
  fixes add :: "'w step_impl \<Rightarrow> 'w step_registry \<Rightarrow> workflow_error + 'w step_registry"
    and lookup :: "'w step_registry \<Rightarrow> string \<Rightarrow> 'w step_impl option"
  assumes add_fails: "raw_fields_of r (st_kind s) \<noteq> None \<Longrightarrow> add s r = Inl (DuplicateStepKind (st_kind s))"
    and add_ok: "raw_fields_of r (st_kind s) = None \<Longrightarrow> \<exists>r'. add s r = Inr r'"
    and add_lookup: "add s r = Inr r' \<Longrightarrow> lookup r' k = (if k = st_kind s then Some s else lookup r k)"
    and add_raw: "add s r = Inr r' \<Longrightarrow>
      raw_fields_of r' k = (if k = st_kind s then Some (st_raw_fields s) else raw_fields_of r k)"
begin

lemma add_iff: "(\<exists>r'. add s r = Inr r') \<longleftrightarrow> raw_fields_of r (st_kind s) = None"
  using add_fails [of r s] add_ok [of r s] by (cases "raw_fields_of r (st_kind s)") auto

lemma twice: "add s r = Inr r' \<Longrightarrow> st_kind s2 = st_kind s \<Longrightarrow> add s2 r' = Inl (DuplicateStepKind (st_kind s))"
  using add_fails [of r' s2] add_raw [of s r r' "st_kind s"] by simp

lemma keeps_others: "add s r = Inr r' \<Longrightarrow> raw_fields_of r k \<noteq> None \<Longrightarrow> raw_fields_of r' k = raw_fields_of r k"
  using add_raw [of s r r' k] add_fails [of r s] by auto

end

interpretation ordinary: kind_registry register_step reg_steps
  by unfold_locales
    (auto simp: register_step_def raw_fields_of_def split: option.splits if_splits)

interpretation durable: kind_registry register_durable durable_of
  by unfold_locales
    (auto simp: register_durable_def raw_fields_of_def durable_of_def split: option.splits if_splits)


section \<open>Lemmas\<close>

text \<open>The implementation behind a kind, whichever way it was registered.\<close>

definition kind_impl :: "'w step_registry \<Rightarrow> string \<Rightarrow> 'w step_impl option" where
  "kind_impl r k = (case reg_durables r k of Some s \<Rightarrow> Some s | None \<Rightarrow> reg_steps r k)"

text \<open>One namespace: no kind is both ordinary and durable.\<close>

definition one_namespace :: "'w step_registry \<Rightarrow> bool" where
  "one_namespace r \<longleftrightarrow> dom (reg_steps r) \<inter> dom (reg_durables r) = {}"

lemma one_namespace_empty: "one_namespace registry_empty"
  by (simp add: one_namespace_def registry_empty_def)

lemma one_namespace_step: "one_namespace r \<Longrightarrow> register_step s r = Inr r' \<Longrightarrow> one_namespace r'"
  by (auto simp: one_namespace_def register_step_def disjoint_iff domIff split: if_splits)

lemma one_namespace_durable: "one_namespace r \<Longrightarrow> register_durable s r = Inr r' \<Longrightarrow> one_namespace r'"
  by (auto simp: one_namespace_def register_durable_def disjoint_iff domIff split: if_splits)

lemma raw_fields_impl:
  "one_namespace r \<Longrightarrow> raw_fields_of r k = map_option st_raw_fields (kind_impl r k)"
  by (auto simp: one_namespace_def raw_fields_of_def kind_impl_def split: option.splits)

lemma render_string_final: "render_string engine t ctx p = Inl e \<Longrightarrow> \<not> se_retryable e"
  by (auto simp: render_string_def invalid_template_def split: if_splits sum.splits)

lemma render_final:
  "render_value engine from_str ctx p v = Inl e \<Longrightarrow> \<not> se_retryable e"
  "render_items engine from_str ctx p i vs = Inl e \<Longrightarrow> \<not> se_retryable e"
  "render_entries engine from_str ctx p kvs = Inl e \<Longrightarrow> \<not> se_retryable e"
  by (induction engine from_str ctx p v and engine from_str ctx p i vs and engine from_str ctx p kvs
      arbitrary: e and e and e rule: render_value_render_items_render_entries.induct)
    (auto dest: render_string_final simp: invalid_template_def
      split: if_splits sum.splits option.splits json.splits)

lemma render_fields_final: "render_fields engine from_str ctx raw kvs = Inl e \<Longrightarrow> \<not> se_retryable e"
  by (induction engine from_str ctx raw kvs arbitrary: e rule: render_fields.induct)
    (auto dest: render_final split: if_splits sum.splits)

lemma render_config_final: "render_config engine from_str c run ins raw = Inl e \<Longrightarrow> \<not> se_retryable e"
  unfolding render_config_def Let_def
  by (cases c) (auto simp del: render_value.simps dest: render_final(1) render_fields_final
      split: if_splits sum.splits)

text \<open>A value without a template anywhere.\<close>

fun plain :: "json \<Rightarrow> bool" where
  "plain (JString s) = (\<not> contains_sub ''{{'' s)"
| "plain (JArray xs) = (\<forall>x\<in>set xs. plain x)"
| "plain (JObject kvs) = (\<not> special_object kvs \<and> (\<forall>kv\<in>set kvs. plain (snd kv)))"
| "plain _ = True"

lemma render_plain:
  "plain v \<Longrightarrow> render_value engine from_str ctx p v = Inr v"
  "\<forall>x\<in>set vs. plain x \<Longrightarrow> render_items engine from_str ctx p i vs = Inr vs"
  "\<forall>kv\<in>set kvs. plain (snd kv) \<Longrightarrow> render_entries engine from_str ctx p kvs = Inr kvs"
  by (induction engine from_str ctx p v and engine from_str ctx p i vs and engine from_str ctx p kvs
      rule: render_value_render_items_render_entries.induct)
    (auto simp: render_string_def special_object_def)

lemma render_fields_frame:
  assumes "render_fields engine from_str ctx raw kvs = Inr out"
  shows "map fst out = map fst kvs \<and> (\<forall>k v. map_of kvs k = Some v \<and> (k \<in> set raw \<or> plain v) \<longrightarrow> map_of out k = Some v)"
  using assms
  by (induction engine from_str ctx raw kvs arbitrary: out rule: render_fields.induct)
    (auto simp: render_plain split: if_splits sum.splits)

lemma replace_char_no: "c \<notin> set by \<Longrightarrow> c \<notin> set (replace_char c by s)"
  by (induction s) (auto simp: replace_char_def)

lemma escape_no_slash: "CHR ''/'' \<notin> set (replace_char (CHR ''/'') ''~1'' s)"
  by (rule replace_char_no) simp

definition escaped :: "char \<Rightarrow> string" where
  "escaped x = (if x = CHR ''~'' then ''~0'' else if x = CHR ''/'' then ''~1'' else [x])"

lemma escape_escaped:
  "replace_char (CHR ''/'') ''~1'' (replace_char (CHR ''~'') ''~0'' s) = concat (map escaped s)"
  by (induction s) (auto simp: replace_char_def escaped_def)

lemma escaped_inj: "escaped x @ u = escaped y @ v \<Longrightarrow> x = y \<and> u = v"
  by (auto simp: escaped_def split: if_splits)

lemma escape_inj: "concat (map escaped s) = concat (map escaped t) \<Longrightarrow> s = t"
proof (induction s arbitrary: t)
  case Nil
  then show ?case by (cases t) (auto simp: escaped_def split: if_splits)
next
  case step: (Cons x xs)
  show ?case
  proof (cases t)
    case Nil
    with step.prems show ?thesis by (auto simp: escaped_def split: if_splits)
  next
    case (Cons y ys)
    with step.prems have "escaped x @ concat (map escaped xs) = escaped y @ concat (map escaped ys)" by simp
    then have "x = y" "concat (map escaped xs) = concat (map escaped ys)" using escaped_inj by blast+
    with Cons step.IH show ?thesis by simp
  qed
qed

lemma last_slash_unique:
  "CHR ''/'' \<notin> set a \<Longrightarrow> CHR ''/'' \<notin> set b \<Longrightarrow> p @ CHR ''/'' # a = q @ CHR ''/'' # b \<Longrightarrow> p = q \<and> a = b"
proof (induction p arbitrary: q)
  case Nil
  then show ?case by (cases q) auto
next
  case (Cons x p)
  then show ?case by (cases q) auto
qed

section \<open>Properties\<close>

text \<open>
  Rendering a configuration keeps its keys and their order, copies every raw field verbatim, and
  leaves every field without a template as it is, whatever the engine does.
\<close>

theorem render_config_frame:
  assumes "render_config engine from_str (JObject kvs) run ins raw = Inr v" "\<not> special_object kvs"
  shows "\<exists>out. v = JObject out \<and> map fst out = map fst kvs \<and>
    (\<forall>k x. map_of kvs k = Some x \<and> (k \<in> set raw \<or> plain x) \<longrightarrow> map_of out k = Some x)"
  using assms render_fields_frame [of engine from_str "template_context run ins" raw kvs]
  by (auto simp: render_config_def Let_def split: sum.splits)

definition demo_engine :: "string \<Rightarrow> json \<Rightarrow> string + string" where
  "demo_engine t ctx = Inr ''42''"

definition demo_run :: run_info where
  "demo_run = \<lparr>ri_run_key = ''k'', ri_step_id = ''s'', ri_depth = 0, ri_vars = JObject [], ri_trigger = None\<rparr>"

theorem render_config_frame_witness:
  "\<exists>out. render_config demo_engine (\<lambda>_. Inl ''e'')
      (JObject [(''script'', JString ''{{x}}''), (''url'', JString ''{{y}}''), (''n'', JBool True)])
      demo_run [] [''script''] = Inr (JObject out) \<and>
    map_of out ''script'' = Some (JString ''{{x}}'') \<and> map_of out ''n'' = Some (JBool True) \<and>
    map_of out ''url'' = Some (JString ''42'')"
proof -
  let ?kvs = "[(''script'', JString ''{{x}}''), (''url'', JString ''{{y}}''), (''n'', JBool True)]"
  have run: "render_config demo_engine (\<lambda>_. Inl ''e'') (JObject ?kvs) demo_run [] [''script''] =
      Inr (JObject [(''script'', JString ''{{x}}''), (''url'', JString ''42''), (''n'', JBool True)])"
    by (simp add: render_config_def special_object_def render_string_def demo_engine_def starts_with_def
        max_rendered_bytes_def)
  from render_config_frame [OF run] show ?thesis using run by (simp add: special_object_def)
qed

text \<open>
  The pointer of an error names one place: two children have the same pointer only when they are
  the same key of the same parent, even when keys contain slashes and tildes.
\<close>

theorem child_pointer_injective:
  "child_pointer p k = child_pointer q l \<longleftrightarrow> p = q \<and> k = l"
proof
  assume eq: "child_pointer p k = child_pointer q l"
  have no: "CHR ''/'' \<notin> set (concat (map escaped k))" for k
    using escape_no_slash [of "replace_char (CHR ''~'') ''~0'' k"] by (simp only: escape_escaped not_False_eq_True)
  have "p @ CHR ''/'' # concat (map escaped k) = q @ CHR ''/'' # concat (map escaped l)"
    using eq by (simp add: child_pointer_def escape_escaped)
  from last_slash_unique [OF no no this] escape_inj show "p = q \<and> k = l" by blast
qed simp

text \<open>
  One invocation of the dispatcher, on its first execution: an unknown kind is a terminal 404 that
  runs nothing; a configuration that does not render is a terminal error that runs nothing; otherwise
  the implementation of that kind runs once on the rendered configuration, and its errors are
  terminal unless it says they can be retried.
\<close>

theorem run_step_outcome:
  assumes "one_namespace r" "\<And>m. ctx_run m = m"
    and "run = \<lparr>ri_run_key = inv_run_key req, ri_step_id = inv_step_id req, ri_depth = inv_depth req,
                ri_vars = inv_vars req, ri_trigger = inv_trigger req\<rparr>"
  shows "run_step engine from_str ctx_run r req w =
    (case kind_impl r (inv_kind req) of
       None \<Rightarrow> (Inl (Terminal 404 (''kind inconnu: '' @ inv_kind req)), w)
     | Some s \<Rightarrow>
         (case render_config engine from_str (inv_config req) run (inv_inputs req) (st_raw_fields s) of
            Inl e \<Rightarrow> (Inl (Terminal 500 (se_message e)), w)
          | Inr config \<Rightarrow>
              (case st_run s run config (inv_inputs req) w of
                 (Inr v, w') \<Rightarrow> (Inr v, w')
               | (Inl e, w') \<Rightarrow> (Inl (if se_retryable e then Retried e else Terminal 500 (se_message e)), w'))))"
proof -
  let ?k = "inv_kind req"
  have raw: "raw_fields_of r ?k = map_option st_raw_fields (kind_impl r ?k)" by (rule raw_fields_impl [OF assms(1)])
  have final: "render_config engine from_str c ru i ra = Inl e \<Longrightarrow> \<not> se_retryable e" for c ru i ra e
    by (rule render_config_final)
  show ?thesis
  proof (cases "reg_durables r ?k")
    case (Some s)
    then have "kind_impl r ?k = Some s" by (simp add: kind_impl_def)
    with Some raw show ?thesis
      by (auto simp: run_step_def durable_of_def assms(2,3) render_for_kind_def Let_def map_err_def and_then_def
          lift_result_def step_error_to_handler_error_def dest: final split: sum.split prod.split)
  next
    case None
    then have "kind_impl r ?k = reg_steps r ?k" by (simp add: kind_impl_def)
    with None raw show ?thesis
      by (cases "reg_steps r ?k")
        (auto simp: run_step_def durable_of_def assms(2,3) render_for_kind_def run_invocation_def Let_def map_err_def
          and_then_def lift_result_def fail_with_def dispatch_def kind_inconnu_def step_error_to_handler_error_def
          dest: final split: sum.split prod.split)
  qed
qed

definition demo_step :: "nat step_impl" where
  "demo_step = \<lparr>st_kind = ''count'', st_run = (\<lambda>run c ins n. (Inr c, n + 1)), st_raw_fields = [''script'']\<rparr>"

definition demo_steps :: "nat step_registry" where
  "demo_steps = registry_empty\<lparr>reg_steps := [''count'' \<mapsto> demo_step]\<rparr>"

definition demo_invocation :: "string \<Rightarrow> step_invocation" where
  "demo_invocation k = \<lparr>inv_kind = k, inv_config = JObject [(''n'', JBool True)], inv_inputs = [], inv_run_key = ''k'',
     inv_step_id = ''s'', inv_depth = 0, inv_vars = JObject [], inv_trigger = None\<rparr>"

theorem run_step_outcome_witness:
  "run_step demo_engine (\<lambda>_. Inl ''e'') (\<lambda>m. m) demo_steps (demo_invocation ''count'') 0 =
     (Inr (JObject [(''n'', JBool True)]), 1) \<and>
   run_step demo_engine (\<lambda>_. Inl ''e'') (\<lambda>m. m) demo_steps (demo_invocation ''nope'') 0 =
     (Inl (Terminal 404 ''kind inconnu: nope''), 0)"
proof -
  have one: "one_namespace demo_steps" by (simp add: one_namespace_def demo_steps_def registry_empty_def)
  show ?thesis
    using run_step_outcome [OF one, of "\<lambda>m. m" _ "demo_invocation ''count''" demo_engine "\<lambda>_. Inl ''e''" 0]
      run_step_outcome [OF one, of "\<lambda>m. m" _ "demo_invocation ''nope''" demo_engine "\<lambda>_. Inl ''e''" 0]
    by (simp add: kind_impl_def demo_steps_def registry_empty_def demo_step_def demo_invocation_def
        render_config_def special_object_def)
qed

end
