(* ===== verification/Workflow_Run.thy ===== *)
theory Workflow_Run
  imports Workflow_Steps
begin

text \<open>
  Running a workflow: the interpreter of a DAG (\<open>src/src/workflow/interpreter.rs\<close>) as a step relation
  whose choices are the order in which the durable futures resolve, child runs
  (\<open>workflow/durable.rs\<close>, \<open>workflow/subworkflow.rs\<close>) and the HTTP client that registers deployments
  and triggers runs (\<open>workflow/client.rs\<close>). The answer of the dispatcher to an invocation, HTTP and
  the URL parser are parameters.
\<close>

section \<open>JSON of a run\<close>

definition string_list_from_json :: "json \<Rightarrow> string list option" where
  "string_list_from_json v = (case v of JArray xs \<Rightarrow> those (map as_str xs) | _ \<Rightarrow> None)"

definition step_from_json :: "json \<Rightarrow> step_definition option" where
  "step_from_json v =
     (case struct_fields [''id'', ''depends_on'', ''kind'', ''config''] v of
        Some [Some (JString i), Some deps, Some (JString k), Some config] \<Rightarrow>
          map_option (\<lambda>ds. \<lparr>sd_id = i, depends_on = ds, sd_kind = k, sd_config = config\<rparr>) (string_list_from_json deps)
      | _ \<Rightarrow> None)"

definition dag_from_json :: "json \<Rightarrow> dag_steps option" where
  "dag_from_json v = (case v of JArray xs \<Rightarrow> those (map step_from_json xs) | _ \<Rightarrow> None)"

definition step_to_json :: "step_definition \<Rightarrow> json" where
  "step_to_json s = obj [(''id'', JString (sd_id s)), (''depends_on'', JArray (map JString (depends_on s))),
                         (''kind'', JString (sd_kind s)), (''config'', sd_config s)]"

definition dag_to_json :: "dag_steps \<Rightarrow> json" where
  "dag_to_json steps = JArray (map step_to_json steps)"

record run_input =
  rin_dag :: dag_steps
  rin_vars :: "(string \<times> json) list"
  rin_trigger :: "string option"

text \<open>A defaulted map field: absent is the empty map, null is an error.\<close>

definition map_field :: "json option \<Rightarrow> (string \<times> json) list option" where
  "map_field v = (case v of None \<Rightarrow> Some [] | Some (JObject kvs) \<Rightarrow> Some kvs | _ \<Rightarrow> None)"

definition run_input_from_json :: "json \<Rightarrow> run_input option" where
  "run_input_from_json v =
     (case struct_fields [''dag'', ''vars'', ''trigger''] v of
        Some [Some dag, vars, trigger] \<Rightarrow>
          (case (dag_from_json dag, map_field vars, optional_field as_str trigger) of
             (Some dag, Some vars, Some trigger) \<Rightarrow>
               Some \<lparr>rin_dag = dag, rin_vars = vars, rin_trigger = trigger\<rparr>
           | _ \<Rightarrow> None)
      | _ \<Rightarrow> None)"

definition run_input_to_json :: "run_input \<Rightarrow> json" where
  "run_input_to_json r =
     obj ([(''dag'', dag_to_json (rin_dag r)), (''vars'', JObject (rin_vars r))] @
          (case rin_trigger r of None \<Rightarrow> [] | Some t \<Rightarrow> [(''trigger'', JString t)]))"

section \<open>The interpreter\<close>

definition depth_header :: string where "depth_header = ''x-miryad-depth''"

definition parse_depth :: "string option \<Rightarrow> u32" where
  "parse_depth raw =
     (case raw of None \<Rightarrow> 0
      | Some s \<Rightarrow> (case parse_unsigned 32 s of None \<Rightarrow> 0 | Some n \<Rightarrow> of_nat n))"

definition ready_steps :: "dag_steps \<Rightarrow> string set \<Rightarrow> step_definition list" where
  "ready_steps dag completed =
     filter (\<lambda>s. \<forall>dep\<in>set (depends_on s). dep \<in> completed) (filter (\<lambda>s. sd_id s \<notin> completed) dag)"

text \<open>The collected map, without repeated keys.\<close>

definition build_inputs :: "step_definition \<Rightarrow> (string \<rightharpoonup> json) \<Rightarrow> inputs" where
  "build_inputs s results =
     List.map_filter (\<lambda>i. map_option (\<lambda>v. (i, v)) (results i)) (remdups (depends_on s))"

definition build_invocation ::
    "step_definition \<Rightarrow> inputs \<Rightarrow> string \<Rightarrow> u32 \<Rightarrow> (string \<times> json) list \<Rightarrow> string option \<Rightarrow> step_invocation" where
  "build_invocation s ins run_key depth vars trigger =
     \<lparr>inv_kind = sd_kind s, inv_config = sd_config s, inv_inputs = ins, inv_run_key = run_key,
      inv_step_id = sd_id s, inv_depth = depth, inv_vars = JObject vars, inv_trigger = trigger\<rparr>"

datatype run_phase =
    Deciding
  | Awaiting "(string \<times> step_invocation) list"
  | Done "handler_error + (string \<rightharpoonup> json)"

record run_state =
  completed :: "string set"
  results :: "string \<rightharpoonup> json"
  run_phase :: run_phase

text \<open>The parameters of one run: its input, the workflow key and the depth of the header.\<close>

record run_env =
  re_input :: run_input
  re_key :: string
  re_depth :: u32

definition invocation_of :: "run_env \<Rightarrow> step_definition \<Rightarrow> (string \<rightharpoonup> json) \<Rightarrow> step_invocation" where
  "invocation_of en s res =
     build_invocation s (build_inputs s res) (re_key en) (re_depth en)
       (rin_vars (re_input en)) (rin_trigger (re_input en))"

definition start_run :: "dag_steps \<Rightarrow> run_state option" where
  "start_run dag =
     (case validate_dag dag of
        None \<Rightarrow> None
      | Some (Inl e) \<Rightarrow> Some \<lparr>completed = {}, results = Map.empty,
                            run_phase = Done (Inl (Terminal 400 (workflow_error_text e)))\<rparr>
      | Some (Inr _) \<Rightarrow> Some \<lparr>completed = {}, results = Map.empty, run_phase = Deciding\<rparr>)"

text \<open>
  \<open>answer rq r\<close>: the dispatcher may answer \<open>r\<close> to the invocation \<open>rq\<close>. Any pending future may
  resolve next; the first error returns from the handler.
\<close>

inductive run_walk ::
    "run_env \<Rightarrow> (step_invocation \<Rightarrow> handler_error + json \<Rightarrow> bool) \<Rightarrow> run_state \<Rightarrow> run_state \<Rightarrow> bool"
  for en answer where
  launch: "run_phase st = Deciding \<Longrightarrow> card (completed st) \<noteq> length (rin_dag (re_input en)) \<Longrightarrow>
     run_walk en answer st (st\<lparr>run_phase := Awaiting (map (\<lambda>s. (sd_id s, invocation_of en s (results st)))
       (ready_steps (rin_dag (re_input en)) (completed st)))\<rparr>)"
| finish: "run_phase st = Deciding \<Longrightarrow> card (completed st) = length (rin_dag (re_input en)) \<Longrightarrow>
     run_walk en answer st (st\<lparr>run_phase := Done (Inr (results st))\<rparr>)"
| receive: "run_phase st = Awaiting (xs @ (i, rq) # ys) \<Longrightarrow> answer rq (Inr v) \<Longrightarrow>
     run_walk en answer st
       \<lparr>completed = insert i (completed st), results = (results st)(i \<mapsto> v), run_phase = Awaiting (xs @ ys)\<rparr>"
| abort: "run_phase st = Awaiting (xs @ (i, rq) # ys) \<Longrightarrow> answer rq (Inl e) \<Longrightarrow>
     run_walk en answer st (st\<lparr>run_phase := Done (Inl e)\<rparr>)"
| drained: "run_phase st = Awaiting [] \<Longrightarrow> run_walk en answer st (st\<lparr>run_phase := Deciding\<rparr>)"

inductive_cases run_walkE: "run_walk en answer st st'"

section \<open>Child runs\<close>

definition child_run_key :: "string \<Rightarrow> string \<Rightarrow> string" where
  "child_run_key run_key step_id = run_key @ '':'' @ step_id"

text \<open>The request of \<open>run_child_dag\<close>: the key, the input and the value of the depth header.\<close>

definition child_request ::
    "run_info \<Rightarrow> dag_steps \<Rightarrow> (string \<times> json) list \<Rightarrow> string \<times> run_input \<times> string" where
  "child_request run dag vars =
     (child_run_key (ri_run_key run) (ri_step_id run),
      \<lparr>rin_dag = dag, rin_vars = vars, rin_trigger = ri_trigger run\<rparr>,
      show_nat (unat (sat_add (ri_depth run) 1)))"

definition run_child_dag ::
    "(string \<Rightarrow> run_input \<Rightarrow> string \<Rightarrow> ('w, string, inputs) act) \<Rightarrow> run_info \<Rightarrow> dag_steps \<Rightarrow>
     (string \<times> json) list \<Rightarrow> ('w, step_error, inputs) act" where
  "run_child_dag request run dag vars =
     (case child_request run dag vars of (key, input, header) \<Rightarrow>
        map_err (\<lambda>e. \<lparr>se_message = e, se_retryable = False\<rparr>) (request key input header))"

definition default_max_depth :: u32 where "default_max_depth = 4"

text \<open>\<open>SubWorkflowConfig\<close>; unknown fields are ignored. \<open>bad\<close> is serde's text of the error.\<close>

definition subworkflow_config ::
    "(string \<Rightarrow> json \<Rightarrow> string) \<Rightarrow> json \<Rightarrow> string + (dag_steps \<times> (string \<times> json) list)" where
  "subworkflow_config bad v =
     (case struct_fields [''dag'', ''vars''] v of
        Some [Some dag, vars] \<Rightarrow>
          (case (dag_from_json dag, map_field vars) of
             (Some dag, Some vars) \<Rightarrow> Inr (dag, vars)
           | _ \<Rightarrow> Inl (bad ''SubWorkflowConfig'' v))
      | _ \<Rightarrow> Inl (bad ''SubWorkflowConfig'' v))"

definition prepare ::
    "(string \<Rightarrow> json \<Rightarrow> string) \<Rightarrow> run_info \<Rightarrow> json \<Rightarrow> u32 \<Rightarrow> step_error + (dag_steps \<times> (string \<times> json) list)" where
  "prepare bad run config max_depth =
     (case subworkflow_config bad config of
        Inl e \<Rightarrow> Inl \<lparr>se_message = ''config subworkflow invalide: '' @ e, se_retryable = False\<rparr>
      | Inr (dag, vars) \<Rightarrow>
          (let child_depth = sat_add (ri_depth run) 1 in
           if child_depth > max_depth
           then Inl \<lparr>se_message = workflow_error_text (MaxDepthExceeded child_depth max_depth), se_retryable = False\<rparr>
           else case validate_dag dag of
                  Some (Inl e) \<Rightarrow> Inl \<lparr>se_message = workflow_error_text e, se_retryable = False\<rparr>
                | Some (Inr _) \<Rightarrow> Inr (dag, vars)
                | None \<Rightarrow> Inl \<lparr>se_message = '''', se_retryable = False\<rparr>))"

definition subworkflow_run ::
    "(string \<Rightarrow> json \<Rightarrow> string) \<Rightarrow> (string \<Rightarrow> run_input \<Rightarrow> string \<Rightarrow> ('w, string, inputs) act) \<Rightarrow> u32 \<Rightarrow>
     run_info \<Rightarrow> json \<Rightarrow> inputs \<Rightarrow> ('w, step_error, json) act" where
  "subworkflow_run bad request max_depth run config ins =
     and_then (lift_result (prepare bad run config max_depth)) (\<lambda>(dag, vars).
     and_then (run_child_dag request run dag vars) (\<lambda>outs. return_ok (obj outs)))"

definition subworkflow_step ::
    "(string \<Rightarrow> json \<Rightarrow> string) \<Rightarrow> (string \<Rightarrow> run_input \<Rightarrow> string \<Rightarrow> ('w, string, inputs) act) \<Rightarrow> u32 \<Rightarrow> 'w step_impl" where
  "subworkflow_step bad request max_depth =
     \<lparr>st_kind = ''subworkflow'', st_run = subworkflow_run bad request max_depth, st_raw_fields = [''dag'']\<rparr>"

section \<open>The client\<close>

record workflow_config =
  admin_url :: string
  ingress_url :: string
  deployment_url :: string

text \<open>\<open>scheme\<close> is \<open>reqwest::Url::parse\<close> followed by \<open>Url::scheme\<close>.\<close>

definition validate_http_url :: "(string \<Rightarrow> string option) \<Rightarrow> string \<Rightarrow> string \<Rightarrow> workflow_error + unit" where
  "validate_http_url scheme field value =
     (if value = [] then Inl (InvalidConfig (field @ '' is empty, expected an absolute http or https URL''))
      else if scheme value = Some ''http'' \<or> scheme value = Some ''https'' then Inr ()
      else Inl (InvalidConfig (field @ '' is not an absolute http or https URL: '' @ value)))"

definition validate_config :: "(string \<Rightarrow> string option) \<Rightarrow> workflow_config \<Rightarrow> workflow_error + unit" where
  "validate_config scheme c =
     (case validate_http_url scheme ''admin_url'' (admin_url c) of
        Inl e \<Rightarrow> Inl e
      | Inr _ \<Rightarrow> validate_http_url scheme ''ingress_url'' (ingress_url c))"

text \<open>A transport error: \<open>is_decode\<close>, \<open>is_body\<close> and its text.\<close>

type_synonym transport_error = "bool \<times> bool \<times> string"

record http_response =
  hr_status :: nat
  hr_text :: "transport_error + string"
  hr_invocation_id :: "transport_error + string"

definition classify :: "transport_error \<Rightarrow> workflow_error" where
  "classify e = (case e of (d, b, t) \<Rightarrow> classify_transport_error d b t)"

definition rejected_or :: "http_response \<Rightarrow> ('w, workflow_error, 'a) act \<Rightarrow> ('w, workflow_error, 'a) act" where
  "rejected_or r k =
     (if 200 \<le> hr_status r \<and> hr_status r < 300 then k
      else and_then (map_err classify (lift_result (hr_text r)))
             (\<lambda>body. fail_with (RestateRejected (hr_status r) body)))"

definition register_deployment ::
    "(string \<Rightarrow> string option) \<Rightarrow> (string \<Rightarrow> json \<Rightarrow> ('w, transport_error, http_response) act) \<Rightarrow>
     workflow_config \<Rightarrow> ('w, workflow_error, unit) act" where
  "register_deployment scheme post c =
     and_then (lift_result (validate_config scheme c)) (\<lambda>_.
     and_then (map_err classify (post (admin_url c @ ''/deployments'')
         (obj [(''uri'', JString (deployment_url c)), (''force'', JBool True)]))) (\<lambda>r.
       rejected_or r (return_ok ())))"

record run_handle =
  rh_run_key :: string
  rh_invocation_id :: string

text \<open>\<open>uuid\<close> is the key \<open>Uuid::new_v4\<close> draws.\<close>

definition trigger_run ::
    "(string \<Rightarrow> string option) \<Rightarrow> (string \<Rightarrow> json \<Rightarrow> ('w, transport_error, http_response) act) \<Rightarrow> string \<Rightarrow>
     workflow_config \<Rightarrow> dag_steps \<Rightarrow> (string \<times> json) list \<Rightarrow> string option \<Rightarrow>
     ('w, workflow_error, run_handle) act" where
  "trigger_run scheme post uuid c dag vars trigger =
     and_then (lift_result (validate_config scheme c)) (\<lambda>_.
     and_then (map_err classify (post (ingress_url c @ ''/DagInterpreter/'' @ uuid @ ''/run/send'')
         (run_input_to_json \<lparr>rin_dag = dag, rin_vars = vars, rin_trigger = trigger\<rparr>))) (\<lambda>r.
     rejected_or r
       (and_then (map_err classify (lift_result (hr_invocation_id r)))
         (\<lambda>rq. return_ok \<lparr>rh_run_key = uuid, rh_invocation_id = rq\<rparr>))))"


section \<open>Lemmas on JSON\<close>

lemma map_of_insort:
  "k \<notin> fst ` set xs \<Longrightarrow> map_of (insort_key fst (k, v) xs) = (map_of xs)(k \<mapsto> v)"
proof (induction xs)
  case (Cons x xs)
  then show ?case by (cases x) (auto simp: fun_eq_iff)
qed simp

lemma map_of_sort: "distinct (map fst kvs) \<Longrightarrow> map_of (sort_key fst kvs) = map_of kvs"
proof (induction kvs)
  case (Cons x xs)
  then show ?case using map_of_insort [of "fst x" "sort_key fst xs" "snd x"] by auto
qed simp

lemma step_json_roundtrip: "step_from_json (step_to_json s) = Some s"
proof -
  have "those (map as_str (map JString (depends_on s))) = Some (depends_on s)"
    using those_map_Some [of "depends_on s" "as_str \<circ> JString" id] by (simp add: comp_def)
  then show ?thesis
    by (simp add: step_from_json_def step_to_json_def obj_def map_of_sort string_list_from_json_def)
qed

lemma dag_json_roundtrip: "dag_from_json (dag_to_json steps) = Some steps"
  using those_map_Some [of steps "step_from_json \<circ> step_to_json" id]
  by (simp add: dag_from_json_def dag_to_json_def step_json_roundtrip comp_def)

section \<open>Lemmas on the walk\<close>

lemma build_inputs_map_of: "map_of (build_inputs s res) i = (if i \<in> set (depends_on s) then res i else None)"
proof -
  have "map_of (List.map_filter (\<lambda>i. map_option (\<lambda>v. (i, v)) (res i)) is) i =
      (if i \<in> set is then res i else None)" for "is"
    by (induction "is") (auto simp: map_filter_simps split: option.splits)
  then show ?thesis by (simp add: build_inputs_def)
qed

lemma build_inputs_cong:
  "(\<And>i. i \<in> set (depends_on s) \<Longrightarrow> res i = res' i) \<Longrightarrow> build_inputs s res = build_inputs s res'"
  by (auto simp: build_inputs_def intro!: map_filter_cong2)

text \<open>What holds in every state of a run of a valid DAG.\<close>

fun inflight :: "run_phase \<Rightarrow> (string \<times> step_invocation) list" where
  "inflight (Awaiting xs) = xs"
| "inflight _ = []"

definition run_inv :: "run_env \<Rightarrow> (step_invocation \<Rightarrow> handler_error + json \<Rightarrow> bool) \<Rightarrow> run_state \<Rightarrow> bool" where
  "run_inv en answer st \<longleftrightarrow> (let dag = rin_dag (re_input en) in
     completed st \<subseteq> ids dag \<and> dom (results st) = completed st \<and>
     distinct (map fst (inflight (run_phase st))) \<and>
     (\<forall>i rq. (i, rq) \<in> set (inflight (run_phase st)) \<longrightarrow> i \<notin> completed st \<and>
        (\<exists>s\<in>set dag. sd_id s = i \<and> set (depends_on s) \<subseteq> completed st \<and> rq = invocation_of en s (results st))) \<and>
     (\<forall>s\<in>set dag. sd_id s \<in> completed st \<longrightarrow> set (depends_on s) \<subseteq> completed st \<and>
        (\<exists>v. results st (sd_id s) = Some v \<and> answer (invocation_of en s (results st)) (Inr v))) \<and>
     (\<forall>res. run_phase st = Done (Inr res) \<longrightarrow> res = results st \<and> completed st = ids dag))"

lemma run_invD:
  assumes "run_inv en answer st"
  shows "completed st \<subseteq> ids (rin_dag (re_input en))" "dom (results st) = completed st"
    "distinct (map fst (inflight (run_phase st)))"
    "(i, rq) \<in> set (inflight (run_phase st)) \<Longrightarrow> i \<notin> completed st \<and> (\<exists>s\<in>set (rin_dag (re_input en)).
        sd_id s = i \<and> set (depends_on s) \<subseteq> completed st \<and> rq = invocation_of en s (results st))"
    "s \<in> set (rin_dag (re_input en)) \<Longrightarrow> sd_id s \<in> completed st \<Longrightarrow> set (depends_on s) \<subseteq> completed st \<and>
        (\<exists>v. results st (sd_id s) = Some v \<and> answer (invocation_of en s (results st)) (Inr v))"
    "run_phase st = Done (Inr res) \<Longrightarrow> res = results st \<and> completed st = ids (rin_dag (re_input en))"
  using assms unfolding run_inv_def Let_def by blast+

lemma invocation_of_stable:
  "set (depends_on s) \<subseteq> C \<Longrightarrow> i \<notin> C \<Longrightarrow> invocation_of en s (res(i \<mapsto> v)) = invocation_of en s res"
proof -
  assume "set (depends_on s) \<subseteq> C" "i \<notin> C"
  then have "build_inputs s (res(i \<mapsto> v)) = build_inputs s res" by (intro build_inputs_cong) auto
  then show ?thesis by (simp add: invocation_of_def)
qed

lemma run_inv_start:
  "valid_dag (rin_dag (re_input en)) \<Longrightarrow> start_run (rin_dag (re_input en)) = Some st \<Longrightarrow> run_inv en answer st"
  using validate_dag_Ok [of "rin_dag (re_input en)"]
  by (auto simp: start_run_def run_inv_def Let_def split: option.splits sum.splits)

lemma valid_dag_distinct: "valid_dag dag \<Longrightarrow> distinct (map sd_id dag)"
  by (simp add: valid_dag_def)

lemma valid_dag_same: "valid_dag dag \<Longrightarrow> s \<in> set dag \<Longrightarrow> t \<in> set dag \<Longrightarrow> sd_id s = sd_id t \<Longrightarrow> s = t"
  using valid_dag_distinct by (auto simp: distinct_map inj_on_def)

lemma card_ids: "valid_dag dag \<Longrightarrow> card (ids dag) = length dag"
  by (metis valid_dag_distinct ids_def distinct_card length_map list.set_map)

lemma completed_all:
  assumes "valid_dag dag" "C \<subseteq> ids dag" "card C = length dag"
  shows "C = ids dag"
  using assms card_subset_eq [of "ids dag" C] card_ids by (auto simp: ids_def)

lemma run_inv_step:
  assumes valid: "valid_dag (rin_dag (re_input en))" and inv: "run_inv en answer st"
    and step: "run_walk en answer st st'"
  shows "run_inv en answer st'"
  using step
proof (cases rule: run_walk.cases)
  case launch
  let ?dag = "rin_dag (re_input en)"
  have "distinct (map sd_id (ready_steps ?dag (completed st)))"
    using valid_dag_distinct [OF valid] by (simp add: ready_steps_def filter_distinct_map)
  then show ?thesis
    using inv launch by (auto simp: run_inv_def Let_def comp_def ready_steps_def)
next
  case finish
  then show ?thesis
    using inv completed_all [OF valid, of "completed st"] by (auto simp: run_inv_def Let_def)
next
  case (receive xs i rq ys v)
  let ?dag = "rin_dag (re_input en)"
  have mem: "(i, rq) \<in> set (inflight (run_phase st))" using receive by simp
  then obtain s where s: "s \<in> set ?dag" "sd_id s = i" "set (depends_on s) \<subseteq> completed st"
      "rq = invocation_of en s (results st)" and new: "i \<notin> completed st"
    using run_invD(4) [OF inv mem] by blast
  have stable: "invocation_of en t ((results st)(i \<mapsto> v)) = invocation_of en t (results st)"
    if "set (depends_on t) \<subseteq> completed st" for t
    by (rule invocation_of_stable [OF that new])
  have others: "j \<noteq> i" if "(j, r) \<in> set (xs @ ys)" for j r
  proof -
    have "i \<notin> fst ` set (xs @ ys)" using run_invD(3) [OF inv] receive by auto
    moreover have "j \<in> fst ` set (xs @ ys)" using that by (metis fst_conv imageI)
    ultimately show ?thesis by blast
  qed
  have fl: "(j \<notin> insert i (completed st)) \<and> (\<exists>t\<in>set ?dag. sd_id t = j \<and>
      set (depends_on t) \<subseteq> insert i (completed st) \<and> r = invocation_of en t ((results st)(i \<mapsto> v)))"
    if "(j, r) \<in> set (xs @ ys)" for j r
  proof -
    have "(j, r) \<in> set (inflight (run_phase st))" using receive that by auto
    then obtain t where "t \<in> set ?dag" "sd_id t = j" "set (depends_on t) \<subseteq> completed st"
      "r = invocation_of en t (results st)" "j \<notin> completed st"
      using run_invD(4) [OF inv] by blast
    then show ?thesis using others [OF that] stable by auto
  qed
  have done_one: "set (depends_on t) \<subseteq> insert i (completed st) \<and>
      (\<exists>u. ((results st)(i \<mapsto> v)) (sd_id t) = Some u \<and> answer (invocation_of en t ((results st)(i \<mapsto> v))) (Inr u))"
    if t: "t \<in> set ?dag" "sd_id t \<in> insert i (completed st)" for t
  proof (cases "sd_id t = i")
    case True
    then have "t = s" using valid_dag_same [OF valid t(1) s(1)] s(2) by simp
    then show ?thesis using s receive stable [OF s(3)] by auto
  next
    case False
    then have "set (depends_on t) \<subseteq> completed st \<and>
        (\<exists>u. results st (sd_id t) = Some u \<and> answer (invocation_of en t (results st)) (Inr u))"
      using run_invD(5) [OF inv t(1)] False t(2) by blast
    then show ?thesis using False stable by auto
  qed
  have dist: "distinct (map fst (xs @ ys))" using run_invD(3) [OF inv] receive by auto
  have sub: "insert i (completed st) \<subseteq> ids ?dag" "dom ((results st)(i \<mapsto> v)) = insert i (completed st)"
    using run_invD(1,2) [OF inv] s by (auto simp: ids_def)
  show ?thesis
    unfolding receive run_inv_def Let_def
    using dist sub fl done_one by simp
qed (use inv in \<open>auto simp: run_inv_def Let_def\<close>)


lemma run_inv_reach:
  assumes "valid_dag (rin_dag (re_input en))" "(run_walk en answer)\<^sup>*\<^sup>* st st'" "run_inv en answer st"
  shows "run_inv en answer st'"
  using assms(2,3) by induction (auto intro: run_inv_step [OF assms(1)])

text \<open>A state that awaits nothing and has not finished always has a step ready.\<close>

lemma ready_nonempty:
  assumes valid: "valid_dag dag" and sub: "C \<subseteq> ids dag" and more: "card C \<noteq> length dag"
  shows "ready_steps dag C \<noteq> []"
proof -
  have wfR: "wf (dep_rel dag)"
    using valid by (auto simp: valid_dag_def intro: finite_acyclic_wf [OF dep_rel_finite])
  have "ids dag - C \<noteq> {}"
    using sub more card_ids [OF valid] by (metis Diff_eq_empty_iff subset_antisym)
  then obtain x where x: "x \<in> ids dag - C" by blast
  from wfE_min [OF wfR x] obtain u where u: "u \<in> ids dag - C"
    and min: "\<And>y. (y, u) \<in> dep_rel dag \<Longrightarrow> y \<notin> ids dag - C" by blast
  from u obtain s where s: "s \<in> set dag" "sd_id s = u" by (auto simp: ids_def)
  have "set (depends_on s) \<subseteq> C"
  proof
    fix d assume d: "d \<in> set (depends_on s)"
    then have "d \<in> ids dag" using valid s by (auto simp: valid_dag_def)
    moreover have "(d, u) \<in> dep_rel dag" using d s by (auto simp: dep_rel_def)
    ultimately show "d \<in> C" using min by blast
  qed
  then have "s \<in> set (ready_steps dag C)" using s u by (auto simp: ready_steps_def)
  then show ?thesis by auto
qed

text \<open>Every transition decreases this rank.\<close>

definition run_rank :: "run_env \<Rightarrow> run_state \<Rightarrow> nat" where
  "run_rank en st =
     (let r = length (rin_dag (re_input en)) - card (completed st) in
      case run_phase st of
        Deciding \<Rightarrow> 3 * r + 2
      | Awaiting [] \<Rightarrow> 3 * r + 3
      | Awaiting (_ # _) \<Rightarrow> 3 * r + 1
      | Done _ \<Rightarrow> 0)"

lemma run_rank_decreases:
  assumes valid: "valid_dag (rin_dag (re_input en))" and inv: "run_inv en answer st"
    and step: "run_walk en answer st st'"
  shows "run_rank en st' < run_rank en st"
  using step
proof (cases rule: run_walk.cases)
  case launch
  then have "ready_steps (rin_dag (re_input en)) (completed st) \<noteq> []"
    using ready_nonempty [OF valid run_invD(1) [OF inv]] by simp
  with launch show ?thesis by (auto simp: run_rank_def Let_def neq_Nil_conv)
next
  case (receive xs i rq ys v)
  have fin: "finite (ids (rin_dag (re_input en)))" by (simp add: ids_def)
  have mem: "(i, rq) \<in> set (inflight (run_phase st))" using receive by simp
  have new: "i \<notin> completed st" "i \<in> ids (rin_dag (re_input en))"
    using run_invD(4) [OF inv mem] by (auto simp: ids_def)
  have "card (insert i (completed st)) \<le> length (rin_dag (re_input en))"
    using new run_invD(1) [OF inv] card_ids [OF valid] card_mono [OF fin, of "insert i (completed st)"] by simp
  moreover have "card (insert i (completed st)) = Suc (card (completed st))"
    using new(1) finite_subset [OF run_invD(1) [OF inv] fin] by simp
  ultimately have r: "length (rin_dag (re_input en)) - card (completed st) =
      Suc (length (rin_dag (re_input en)) - card (insert i (completed st)))" by simp
  obtain a b where ne: "xs @ (i, rq) # ys = a # b" by (cases xs) auto
  show ?thesis
    using receive r ne by (cases "xs @ ys") (auto simp: run_rank_def Let_def)
next
  case (abort xs i rq ys e)
  obtain a b where "xs @ (i, rq) # ys = a # b" by (cases xs) auto
  with abort show ?thesis by (auto simp: run_rank_def Let_def)
qed (auto simp: run_rank_def Let_def)

lemma run_progress:
  assumes "\<And>rq. \<exists>r. answer rq r" "\<forall>r. run_phase st \<noteq> Done r"
  shows "\<exists>st'. run_walk en answer st st'"
proof (cases "run_phase st")
  case Deciding
  then show ?thesis using run_walk.launch run_walk.finish by blast
next
  case (Awaiting xs)
  show ?thesis
  proof (cases xs)
    case Nil
    with Awaiting show ?thesis using run_walk.drained by blast
  next
    case (Cons x rest)
    then have ph: "run_phase st = Awaiting ([] @ (fst x, snd x) # rest)" using Awaiting by simp
    obtain r where "answer (snd x) r" using assms(1) by blast
    with ph show ?thesis
      by (cases r) (blast intro: run_walk.receive run_walk.abort)+
  qed
qed (use assms(2) in blast)

lemma run_bound:
  assumes valid: "valid_dag (rin_dag (re_input en))" and st: "run_inv en answer st"
    and walk: "(run_walk en answer ^^ n) st st'"
  shows "n + run_rank en st' \<le> run_rank en st"
  using walk
proof (induction n arbitrary: st')
  case (Suc n)
  then obtain mid where mid: "(run_walk en answer ^^ n) st mid" "run_walk en answer mid st'" by auto
  have "run_inv en answer mid"
    using run_inv_reach [OF valid _ st] mid(1) by (meson relpowp_imp_rtranclp)
  then have "run_rank en st' < run_rank en mid" by (rule run_rank_decreases [OF valid _ mid(2)])
  with Suc.IH [OF mid(1)] show ?case by simp
qed simp

lemma run_reaches_done:
  assumes valid: "valid_dag (rin_dag (re_input en))" and total: "\<And>rq. \<exists>r. answer rq r"
    and st: "run_inv en answer st"
  shows "\<exists>st' r. (run_walk en answer)\<^sup>*\<^sup>* st st' \<and> run_phase st' = Done r"
  using st
proof (induction "run_rank en st" arbitrary: st rule: less_induct)
  case less
  show ?case
  proof (cases "\<exists>r. run_phase st = Done r")
    case False
    then obtain mid where mid: "run_walk en answer st mid" using run_progress [of answer st en] total by blast
    have "run_inv en answer mid" by (rule run_inv_step [OF valid less.prems mid])
    then show ?thesis
      using less.hyps [OF run_rank_decreases [OF valid less.prems mid]] mid by (meson converse_rtranclp_into_rtranclp)
  qed blast
qed

text \<open>Two runs of the same input against a dispatcher that is a function agree on what both know.\<close>

lemma results_agree:
  assumes valid: "valid_dag (rin_dag (re_input en))"
    and full: "\<And>s. s \<in> set (rin_dag (re_input en)) \<Longrightarrow>
      \<exists>v. res (sd_id s) = Some v \<and> f (invocation_of en s res) = Inr v"
    and inv: "run_inv en (\<lambda>rq r. r = f rq) st"
    and i: "i \<in> completed st"
  shows "results st i = res i"
proof -
  have wfR: "wf (dep_rel (rin_dag (re_input en)))"
    using valid by (auto simp: valid_dag_def intro: finite_acyclic_wf [OF dep_rel_finite])
  from wfR i show ?thesis
  proof (induction i rule: wf_induct_rule)
    case (less i)
    obtain s where s: "s \<in> set (rin_dag (re_input en))" "sd_id s = i"
      using less.prems run_invD(1) [OF inv] by (auto simp: ids_def)
    have dn: "set (depends_on s) \<subseteq> completed st"
      and v: "\<exists>v. results st i = Some v \<and> Inr v = f (invocation_of en s (results st))"
      using run_invD(5) [OF inv s(1)] less.prems s(2) by auto
    have "results st d = res d" if "d \<in> set (depends_on s)" for d
      using less.IH [of d] that dn s by (auto simp: dep_rel_def)
    then have "invocation_of en s (results st) = invocation_of en s res"
      using build_inputs_cong [of s "results st" res] by (simp add: invocation_of_def)
    with v full [OF s(1)] s(2) show ?case by auto
  qed
qed

lemma never_aborts:
  assumes valid: "valid_dag (rin_dag (re_input en))"
    and full: "\<And>s. s \<in> set (rin_dag (re_input en)) \<Longrightarrow>
      \<exists>v. res (sd_id s) = Some v \<and> f (invocation_of en s res) = Inr v"
    and walk: "(run_walk en (\<lambda>rq r. r = f rq))\<^sup>*\<^sup>* st st'"
    and st: "run_inv en (\<lambda>rq r. r = f rq) st" "\<forall>e. run_phase st \<noteq> Done (Inl e)"
  shows "\<forall>e. run_phase st' \<noteq> Done (Inl e)"
  using walk st(2)
proof (induction)
  case (step mid last)
  have inv: "run_inv en (\<lambda>rq r. r = f rq) mid" by (rule run_inv_reach [OF valid step.hyps(1) st(1)])
  from step.hyps(2) show ?case
  proof (cases rule: run_walk.cases)
    case (abort xs i rq ys e)
    have mem: "(i, rq) \<in> set (inflight (run_phase mid))" using abort by simp
    obtain s where s: "s \<in> set (rin_dag (re_input en))" "set (depends_on s) \<subseteq> completed mid"
      "rq = invocation_of en s (results mid)" using run_invD(4) [OF inv mem] by blast
    have "results mid d = res d" if "d \<in> set (depends_on s)" for d
      using results_agree [OF valid full inv, of d] that s(2) by auto
    then have "rq = invocation_of en s res"
      using s(3) build_inputs_cong [of s "results mid" res] by (simp add: invocation_of_def)
    then show ?thesis using full [OF s(1)] abort by auto
  qed auto
qed simp

section \<open>Properties\<close>

text \<open>
  C3: a run calls a step only when all its dependencies have completed, and gives it exactly their
  outputs; no step that has completed is called again; when the run returns results, there is one
  for every step and each is what the dispatcher answered to that step's invocation.
\<close>

theorem run_respects_dependencies:
  assumes "start_run (rin_dag (re_input en)) = Some st0" "(run_walk en answer)\<^sup>*\<^sup>* st0 st"
  shows "(\<forall>(i, rq)\<in>set (inflight (run_phase st)). i \<notin> completed st \<and>
      (\<exists>s\<in>set (rin_dag (re_input en)). sd_id s = i \<and> set (depends_on s) \<subseteq> completed st \<and>
         inv_step_id rq = i \<and> inv_kind rq = sd_kind s \<and> inv_config rq = sd_config s \<and>
         (\<forall>d. map_of (inv_inputs rq) d = (if d \<in> set (depends_on s) then results st d else None)))) \<and>
    (\<forall>res. run_phase st = Done (Inr res) \<longrightarrow> dom res = sd_id ` set (rin_dag (re_input en)) \<and>
      (\<forall>s\<in>set (rin_dag (re_input en)). \<exists>v. res (sd_id s) = Some v \<and> answer (invocation_of en s res) (Inr v)))"
proof (cases "valid_dag (rin_dag (re_input en))")
  case True
  have inv: "run_inv en answer st"
    using run_inv_reach [OF True assms(2) run_inv_start [OF True assms(1)]] .
  have "i \<notin> completed st \<and> (\<exists>s\<in>set (rin_dag (re_input en)). sd_id s = i \<and> set (depends_on s) \<subseteq> completed st \<and>
         inv_step_id rq = i \<and> inv_kind rq = sd_kind s \<and> inv_config rq = sd_config s \<and>
         (\<forall>d. map_of (inv_inputs rq) d = (if d \<in> set (depends_on s) then results st d else None)))"
    if "(i, rq) \<in> set (inflight (run_phase st))" for i rq
    using run_invD(4) [OF inv that] by (fastforce simp: invocation_of_def build_invocation_def build_inputs_map_of)
  moreover have "dom res = sd_id ` set (rin_dag (re_input en)) \<and>
      (\<forall>s\<in>set (rin_dag (re_input en)). \<exists>v. res (sd_id s) = Some v \<and> answer (invocation_of en s res) (Inr v))"
    if "run_phase st = Done (Inr res)" for res
    using run_invD(6) [OF inv that] run_invD(2) [OF inv] run_invD(5) [OF inv] by (auto simp: ids_def)
  ultimately show ?thesis by blast
next
  case False
  then obtain e where st0: "run_phase st0 = Done (Inl e)"
    using assms(1) validate_dag_Ok [of "rin_dag (re_input en)"]
    by (auto simp: start_run_def split: option.splits sum.splits)
  have "st = st0"
    using assms(2) st0 by (induction rule: converse_rtranclp_induct) (auto elim: run_walk.cases)
  with st0 show ?thesis by simp
qed


text \<open>A run of one step, for the witnesses.\<close>

definition demo_input :: run_input where
  "demo_input = \<lparr>rin_dag = [\<lparr>sd_id = ''a'', depends_on = [], sd_kind = ''count'', sd_config = JNull\<rparr>],
                 rin_vars = [], rin_trigger = None\<rparr>"

definition demo_env :: run_env where
  "demo_env = \<lparr>re_input = demo_input, re_key = ''u'', re_depth = 0\<rparr>"

definition demo_answer :: "step_invocation \<Rightarrow> handler_error + json" where
  "demo_answer rq = Inr (JBool True)"

abbreviation demo_start :: run_state where
  "demo_start \<equiv> \<lparr>completed = {}, results = Map.empty, run_phase = Deciding\<rparr>"

abbreviation demo_end :: run_state where
  "demo_end \<equiv> \<lparr>completed = {''a''}, results = [''a'' \<mapsto> JBool True], run_phase = Done (Inr [''a'' \<mapsto> JBool True])\<rparr>"

lemma demo_start_run: "start_run (rin_dag (re_input demo_env)) = Some demo_start"
proof -
  have "valid_dag (rin_dag demo_input)"
    by (simp add: valid_dag_def demo_input_def ids_def dep_rel_UN acyclic_def)
  then have "validate_dag (rin_dag demo_input) = Some (Inr ())" by (simp add: validate_dag_Ok)
  then show ?thesis by (simp add: start_run_def demo_env_def)
qed

lemma demo_walk: "(run_walk demo_env (\<lambda>rq r. r = demo_answer rq))\<^sup>*\<^sup>* demo_start demo_end"
proof -
  let ?W = "run_walk demo_env (\<lambda>rq r. r = demo_answer rq)"
  let ?rq = "invocation_of demo_env (hd (rin_dag demo_input)) Map.empty"
  have 1: "?W demo_start (demo_start\<lparr>run_phase := Awaiting ([] @ (''a'', ?rq) # [])\<rparr>)"
    using run_walk.launch [of demo_start demo_env "\<lambda>rq r. r = demo_answer rq"]
    by (simp add: demo_env_def demo_input_def ready_steps_def)
  have 2: "?W (demo_start\<lparr>run_phase := Awaiting ([] @ (''a'', ?rq) # [])\<rparr>)
      \<lparr>completed = {''a''}, results = [''a'' \<mapsto> JBool True], run_phase = Awaiting []\<rparr>"
    using run_walk.receive [of "demo_start\<lparr>run_phase := Awaiting ([] @ (''a'', ?rq) # [])\<rparr>" "[]" "''a''" ?rq "[]"
        "\<lambda>rq r. r = demo_answer rq" "JBool True" demo_env] by (simp add: demo_answer_def)
  have 3: "?W \<lparr>completed = {''a''}, results = [''a'' \<mapsto> JBool True], run_phase = Awaiting []\<rparr>
      \<lparr>completed = {''a''}, results = [''a'' \<mapsto> JBool True], run_phase = Deciding\<rparr>"
    using run_walk.drained [of "\<lparr>completed = {''a''}, results = [''a'' \<mapsto> JBool True], run_phase = Awaiting []\<rparr>" demo_env] by simp
  have 4: "?W \<lparr>completed = {''a''}, results = [''a'' \<mapsto> JBool True], run_phase = Deciding\<rparr> demo_end"
    using run_walk.finish [of "\<lparr>completed = {''a''}, results = [''a'' \<mapsto> JBool True], run_phase = Deciding\<rparr>" demo_env]
    by (simp add: demo_env_def demo_input_def)
  from 1 2 3 4 show ?thesis by (meson converse_rtranclp_into_rtranclp rtranclp.rtrancl_refl)
qed

theorem run_respects_dependencies_witness:
  "\<exists>v. [''a'' \<mapsto> JBool True] ''a'' = Some v \<and>
    Inr v = demo_answer (invocation_of demo_env (hd (rin_dag demo_input)) [''a'' \<mapsto> JBool True])"
  using run_respects_dependencies [OF demo_start_run demo_walk]
  by (simp add: demo_env_def demo_input_def)

text \<open>
  C4: a run terminates: when the dispatcher answers every invocation, every sequence of transitions is
  at most three per step and two long, and from every state reached the run can, and with no further
  choice must, come to its end.
\<close>

theorem run_terminates:
  assumes "start_run (rin_dag (re_input en)) = Some st0" "\<And>rq. \<exists>r. answer rq r"
    and "(run_walk en answer ^^ n) st0 st"
  shows "n \<le> 3 * length (rin_dag (re_input en)) + 2 \<and>
    ((\<exists>r. run_phase st = Done r) \<or> (\<exists>st'. run_walk en answer st st')) \<and>
    (\<exists>st' r. (run_walk en answer)\<^sup>*\<^sup>* st st' \<and> run_phase st' = Done r)"
proof (cases "valid_dag (rin_dag (re_input en))")
  case True
  have inv0: "run_inv en answer st0" by (rule run_inv_start [OF True assms(1)])
  have inv: "run_inv en answer st"
    using run_inv_reach [OF True _ inv0] assms(3) by (meson relpowp_imp_rtranclp)
  have "run_rank en st0 \<le> 3 * length (rin_dag (re_input en)) + 2"
    using assms(1) by (auto simp: start_run_def run_rank_def Let_def split: option.splits sum.splits)
  then have "n \<le> 3 * length (rin_dag (re_input en)) + 2"
    using run_bound [OF True inv0 assms(3)] by simp
  moreover have "(\<exists>r. run_phase st = Done r) \<or> (\<exists>st'. run_walk en answer st st')"
    using run_progress [of answer st en] assms(2) by blast
  ultimately show ?thesis using run_reaches_done [OF True assms(2) inv] by blast
next
  case False
  then obtain e where st0: "run_phase st0 = Done (Inl e)"
    using assms(1) validate_dag_Ok [of "rin_dag (re_input en)"]
    by (auto simp: start_run_def split: option.splits sum.splits)
  then have stuck: "\<not> run_walk en answer st0 s" for s by (auto elim: run_walk.cases)
  have "n = 0 \<and> st = st0"
  proof (cases n)
    case (Suc k)
    then obtain mid where "run_walk en answer st0 mid" using assms(3) by (metis relpowp_Suc_D2)
    with stuck show ?thesis by blast
  qed (use assms(3) in simp)
  with st0 show ?thesis by blast
qed

theorem run_terminates_witness:
  "\<exists>st' r. (run_walk demo_env (\<lambda>rq r. r = demo_answer rq))\<^sup>*\<^sup>* demo_start st' \<and> run_phase st' = Done r"
  using run_terminates [OF demo_start_run, of "\<lambda>rq r. r = demo_answer rq" 0 demo_start] by simp

text \<open>
  C20: the outcome does not depend on the order in which the steps answer: against a dispatcher that is
  a function, once one execution returns results, every execution that ends returns the same ones.
\<close>

theorem run_order_independent:
  assumes "start_run (rin_dag (re_input en)) = Some st0"
    and "(run_walk en (\<lambda>rq r. r = f rq))\<^sup>*\<^sup>* st0 st1" "run_phase st1 = Done (Inr res)"
    and "(run_walk en (\<lambda>rq r. r = f rq))\<^sup>*\<^sup>* st0 st2" "run_phase st2 = Done r2"
  shows "r2 = Inr res"
proof -
  let ?A = "\<lambda>rq r. r = f rq"
  have valid: "valid_dag (rin_dag (re_input en))"
  proof (rule ccontr)
    assume "\<not> valid_dag (rin_dag (re_input en))"
    then obtain e where st0: "run_phase st0 = Done (Inl e)"
      using assms(1) validate_dag_Ok [of "rin_dag (re_input en)"]
      by (auto simp: start_run_def split: option.splits sum.splits)
    have "st1 = st0"
      using assms(2) st0 by (induction rule: converse_rtranclp_induct) (auto elim: run_walk.cases)
    with st0 assms(3) show False by simp
  qed
  have inv0: "run_inv en ?A st0" by (rule run_inv_start [OF valid assms(1)])
  have inv1: "run_inv en ?A st1" and inv2: "run_inv en ?A st2"
    using run_inv_reach [OF valid _ inv0] assms(2,4) by blast+
  have r1: "res = results st1" "completed st1 = ids (rin_dag (re_input en))"
    using run_invD(6) [OF inv1 assms(3)] by blast+
  have full: "\<exists>v. res (sd_id s) = Some v \<and> f (invocation_of en s res) = Inr v"
    if "s \<in> set (rin_dag (re_input en))" for s
    using run_invD(5) [OF inv1 that] r1 that by (auto simp: ids_def)
  have "\<forall>e. run_phase st0 \<noteq> Done (Inl e)"
    using assms(1) valid validate_dag_Ok [of "rin_dag (re_input en)"] by (auto simp: start_run_def)
  from never_aborts [OF valid full assms(4) inv0 this] have "\<forall>e. run_phase st2 \<noteq> Done (Inl e)" .
  then obtain res2 where res2: "r2 = Inr res2" using assms(5) by (cases r2) auto
  then have r2': "res2 = results st2" "completed st2 = ids (rin_dag (re_input en))"
    using run_invD(6) [OF inv2] assms(5) by auto
  have "res2 i = res i" for i
  proof (cases "i \<in> ids (rin_dag (re_input en))")
    case True
    then show ?thesis using results_agree [OF valid full inv2] r2' by simp
  next
    case False
    then have "results st1 i = None" "results st2 i = None"
      using run_invD(2) [OF inv1] run_invD(2) [OF inv2] r1 r2' by (auto simp: domIff)
    then show ?thesis using r1 r2' by simp
  qed
  then show ?thesis using res2 by auto
qed

theorem run_order_independent_witness:
  "\<exists>st r. (run_walk demo_env (\<lambda>rq r. r = demo_answer rq))\<^sup>*\<^sup>* demo_start st \<and> run_phase st = Done r \<and>
     r = Inr [''a'' \<mapsto> JBool True]"
proof -
  obtain st r where st: "(run_walk demo_env (\<lambda>rq r. r = demo_answer rq))\<^sup>*\<^sup>* demo_start st" "run_phase st = Done r"
    using demo_walk by force
  have "r = Inr [''a'' \<mapsto> JBool True]"
    by (rule run_order_independent [OF demo_start_run demo_walk _ st]) simp
  with st show ?thesis by blast
qed

text \<open>
  Nesting of sub-workflows is bounded: a child run that is started has a valid DAG and a depth, as
  its own interpreter reads it from the header, of one more than its parent's and at most the
  maximum; so, unless the maximum is the largest 32-bit value, depths along a chain strictly grow.
\<close>

theorem subworkflow_depth_bounded:
  assumes "prepare bad run config max_depth = Inr (dag, vars)"
  shows "valid_dag dag \<and>
    (case child_request run dag vars of (key, input, header) \<Rightarrow>
       rin_dag input = dag \<and> parse_depth (Some header) = sat_add (ri_depth run) 1 \<and>
       parse_depth (Some header) \<le> max_depth \<and>
       (max_depth = - 1 \<or> unat (parse_depth (Some header)) = unat (ri_depth run) + 1))"
proof -
  have valid: "valid_dag dag" and le: "sat_add (ri_depth run) 1 \<le> max_depth"
    using assms validate_dag_Ok [of dag]
    by (auto simp: prepare_def Let_def not_less split: sum.splits if_splits option.splits)
  have "unat (sat_add (ri_depth run) 1) < 2 ^ 32"
    using unsigned_less [of "sat_add (ri_depth run) 1"] by simp
  then have hd: "parse_depth (Some (show_nat (unat (sat_add (ri_depth run) 1)))) = sat_add (ri_depth run) 1"
    by (simp add: parse_depth_def parse_unsigned_show_nat)
  have "max_depth = - 1 \<or> unat (sat_add (ri_depth run) 1) = unat (ri_depth run) + 1"
  proof (cases "ri_depth run = - 1")
    case True
    then have "sat_add (ri_depth run) 1 = - 1" by (simp add: sat_add_def unat_minus_one_word)
    then show ?thesis using le by (simp add: word_order.extremum_unique)
  next
    case False
    have "unat (- 1 :: u32) = 2 ^ 32 - 1" by (simp add: unat_minus_one_word)
    with False have "unat (ri_depth run) \<noteq> 2 ^ 32 - 1" by (metis word_unat_eq_iff)
    moreover have "unat (ri_depth run) < 2 ^ 32" using unsigned_less [of "ri_depth run"] by simp
    ultimately have "unat (ri_depth run) + 1 < 2 ^ 32" by linarith
    then show ?thesis by (simp add: unat_sat_add)
  qed
  with valid le hd show ?thesis by (simp add: child_request_def)
qed

definition demo_child :: json where
  "demo_child = JObject [(''dag'', dag_to_json (rin_dag demo_input))]"

theorem subworkflow_depth_bounded_witness:
  "\<exists>dag vars. prepare (\<lambda>_ _. ''e'') demo_run demo_child default_max_depth = Inr (dag, vars) \<and> valid_dag dag"
proof -
  have "validate_dag (rin_dag demo_input) = Some (Inr ())" by code_simp
  then have p: "prepare (\<lambda>_ _. ''e'') demo_run demo_child default_max_depth = Inr (rin_dag demo_input, [])"
    by (simp add: prepare_def subworkflow_config_def demo_child_def dag_json_roundtrip map_field_def demo_run_def
        sat_add_def default_max_depth_def)
  from subworkflow_depth_bounded [OF p] p show ?thesis by blast
qed

text \<open>The key of a run nested along a path of steps.\<close>

definition nested_key :: "string \<Rightarrow> string list \<Rightarrow> string" where
  "nested_key run_key path = foldl child_run_key run_key path"

lemma nested_key_eq: "nested_key k path = k @ concat (map (\<lambda>s. CHR '':'' # s) path)"
  by (induction path arbitrary: k) (simp_all add: nested_key_def child_run_key_def)

lemma colon_path_inj:
  assumes "\<forall>s\<in>set p. CHR '':'' \<notin> set s" "\<forall>s\<in>set q. CHR '':'' \<notin> set s"
    and "concat (map (\<lambda>s. CHR '':'' # s) p) = concat (map (\<lambda>s. CHR '':'' # s) q)"
  shows "p = q"
  using assms
proof (induction p arbitrary: q)
  case (Cons s p)
  then obtain t q' where q: "q = t # q'" by (cases q) auto
  have eq: "s @ concat (map (\<lambda>s. CHR '':'' # s) p) = t @ concat (map (\<lambda>s. CHR '':'' # s) q')"
    using Cons.prems(3) q by simp
  have head: "u = [] \<or> hd u = CHR '':''" if "u = concat (map (\<lambda>s. CHR '':'' # s) r)" for u r
    using that by (cases r) auto
  have tw: "takeWhile (\<lambda>c. c \<noteq> CHR '':'') (a @ u) = a" if "CHR '':'' \<notin> set a" "u = [] \<or> hd u = CHR '':''" for a u
  proof -
    have "takeWhile (\<lambda>c. c \<noteq> CHR '':'') (a @ u) = a @ takeWhile (\<lambda>c. c \<noteq> CHR '':'') u"
      using that(1) by (intro takeWhile_append2) auto
    then show ?thesis using that(2) by (cases u) auto
  qed
  have "s = t"
    using arg_cong [OF eq, of "takeWhile (\<lambda>c. c \<noteq> CHR '':'')"] tw head Cons.prems(1,2) q by auto
  then show ?case using eq Cons.IH [of q'] Cons.prems(1,2) q by simp
qed (cases q; simp)

text \<open>
  Child runs get distinct workflow keys: among step ids without a colon, the key of a nested run
  determines the path of steps that leads to it.
\<close>

theorem child_keys_unique:
  assumes "\<forall>s\<in>set p. CHR '':'' \<notin> set s" "\<forall>s\<in>set q. CHR '':'' \<notin> set s"
  shows "nested_key k p = nested_key k q \<longleftrightarrow> p = q"
  using colon_path_inj [OF assms] by (auto simp: nested_key_eq)

theorem child_keys_unique_witness:
  "nested_key ''u'' [''a'', ''b''] \<noteq> nested_key ''u'' [''ab'']"
  using child_keys_unique [of "[''a'', ''b'']" "[''ab'']" "''u''"] by simp

text \<open>
  With a colon they collide: a valid DAG may hold the steps \<open>a\<close> and \<open>a:b\<close>, and the child run of \<open>a:b\<close>
  has the key of the run that the step \<open>b\<close> of the child of \<open>a\<close> starts.
\<close>

lemma child_key_collision:
  "validate_dag [\<lparr>sd_id = ''a'', depends_on = [], sd_kind = ''subworkflow'', sd_config = JNull\<rparr>,
                 \<lparr>sd_id = ''a:b'', depends_on = [], sd_kind = ''subworkflow'', sd_config = JNull\<rparr>] = Some (Inr ()) \<and>
   nested_key ''u'' [''a'', ''b''] = nested_key ''u'' [''a:b'']"
  by (rule conjI) code_simp+

text \<open>
  The input of a run survives its JSON: what the client or a parent sends is what the interpreter
  decodes.
\<close>

theorem run_input_roundtrip:
  "run_input_from_json (run_input_to_json r) = Some r"
  by (cases "rin_trigger r")
    (auto simp: run_input_from_json_def run_input_to_json_def obj_def map_of_sort dag_json_roundtrip map_field_def
      simp del: sort_key_simps)

end
