(* ===== verification/Sql_Tables.thy ===== *)
theory Sql_Tables
  imports Rest_Core
begin

text \<open>
  The statements the Lymaille stores build with \<open>sea_query\<close>: a table is named by a string, a row
  is a map from column names to values, and a statement is a table, a conjunction of conditions
  and the columns it writes. All the tables of the host are in one \<open>rows\<close> list, each row tagged
  with the name of its table, beside the accounts. The locale \<open>text_store\<close> states once what a store of
  values by key promises.
\<close>

type_synonym sql_row = "string \<times> row"

type_synonym sql_tables = "sql_row tables"

type_synonym sql_world = "sql_row tables world"

section \<open>Values\<close>

fun col_text :: "db_value \<Rightarrow> string" where
  "col_text (VText (Some s)) = s" | "col_text _ = []"

fun col_opt_text :: "db_value \<Rightarrow> string option" where
  "col_opt_text (VText s) = s" | "col_opt_text _ = None"

fun col_json :: "db_value \<Rightarrow> json option" where
  "col_json (VJson j) = j" | "col_json _ = None"

fun col_int :: "db_value \<Rightarrow> int option" where
  "col_int (VInt i) = i" | "col_int _ = None"

fun is_null_value :: "db_value \<Rightarrow> bool" where
  "is_null_value (VInt x) = (x = None)"
| "is_null_value (VText x) = (x = None)"
| "is_null_value (VJson x) = (x = None)"

section \<open>Conditions\<close>

text \<open>
  \<open>Expr::col(c).eq(v)\<close> (never true of a \<open>NULL\<close>), \<open>lt\<close> on the integers that stand for the
  timestamps, and \<open>is_not_null()\<close>.
\<close>

datatype sql_cond = Col_Eq string db_value | Col_Lt string int | Col_Not_Null string

fun sql_holds :: "sql_cond \<Rightarrow> row \<Rightarrow> bool" where
  "sql_holds (Col_Eq c v) r = (r c = v \<and> \<not> is_null_value v)"
| "sql_holds (Col_Lt c n) r = (case col_int (r c) of None \<Rightarrow> False | Some i \<Rightarrow> i < n)"
| "sql_holds (Col_Not_Null c) r = (\<not> is_null_value (r c))"

definition sql_match :: "string \<Rightarrow> sql_cond list \<Rightarrow> sql_row \<Rightarrow> bool" where
  "sql_match table conds x \<longleftrightarrow> fst x = table \<and> (\<forall>c\<in>set conds. sql_holds c (snd x))"

section \<open>Statements\<close>

definition rows_where :: "string \<Rightarrow> sql_cond list \<Rightarrow> sql_tables \<Rightarrow> row list" where
  "rows_where table conds t = map snd (filter (sql_match table conds) (rows t))"

text \<open>\<open>query_one\<close>: the first row, if any.\<close>

definition sql_first :: "string \<Rightarrow> sql_cond list \<Rightarrow> sql_tables \<Rightarrow> row option" where
  "sql_first table conds t = (case rows_where table conds t of [] \<Rightarrow> None | r # _ \<Rightarrow> Some r)"

definition set_columns :: "(string \<times> db_value) list \<Rightarrow> row \<Rightarrow> row" where
  "set_columns vals r = (\<lambda>c. case map_of vals c of Some v \<Rightarrow> v | None \<Rightarrow> r c)"

definition null_row :: row where "null_row = (\<lambda>_. VText None)"

text \<open>\<open>UPDATE\<close>, with the number of rows affected.\<close>

definition sql_update ::
    "string \<Rightarrow> (string \<times> db_value) list \<Rightarrow> sql_cond list \<Rightarrow> sql_tables \<Rightarrow> dberr + (nat \<times> sql_tables)" where
  "sql_update table vals conds t =
     Inr (length (rows_where table conds t),
          t\<lparr>rows := map (\<lambda>x. if sql_match table conds x then (fst x, set_columns vals (snd x)) else x)
                      (rows t)\<rparr>)"

definition sql_delete :: "string \<Rightarrow> sql_cond list \<Rightarrow> sql_tables \<Rightarrow> dberr + (nat \<times> sql_tables)" where
  "sql_delete table conds t =
     Inr (length (rows_where table conds t),
          t\<lparr>rows := filter (\<lambda>x. \<not> sql_match table conds x) (rows t)\<rparr>)"

text \<open>
  \<open>INSERT ... ON CONFLICT (keys) DO UPDATE SET (updates)\<close>; with no \<open>updates\<close> it is
  \<open>DO NOTHING\<close>. The \<open>id\<close> of a new row is generated; a column the statement does not name is null.
\<close>

definition key_conds :: "string list \<Rightarrow> (string \<times> db_value) list \<Rightarrow> sql_cond list" where
  "key_conds keys vals =
     List.map_filter (\<lambda>k. map_option (Col_Eq k) (map_of vals k)) keys"

definition sql_new_row :: "(string \<times> db_value) list \<Rightarrow> string \<Rightarrow> sql_tables \<Rightarrow> row" where
  "sql_new_row vals table t =
     (set_columns vals null_row)(''id'' := VInt (Some (fresh_id
        (map (row_int \<circ> (\<lambda>r. r ''id'')) (rows_where table [] t)))))"

definition sql_upsert ::
    "string \<Rightarrow> (string \<times> db_value) list \<Rightarrow> string list \<Rightarrow> string list \<Rightarrow> sql_tables \<Rightarrow>
       dberr + (unit \<times> sql_tables)" where
  "sql_upsert table vals keys updates t =
     (if rows_where table (key_conds keys vals) t = []
      then Inr ((), t\<lparr>rows := rows t @ [(table, sql_new_row vals table t)]\<rparr>)
      else map_sum id (\<lambda>(_, t'). ((), t'))
             (sql_update table (filter (\<lambda>kv. fst kv \<in> set updates) vals) (key_conds keys vals) t))"

definition sql_insert ::
    "string \<Rightarrow> (string \<times> db_value) list \<Rightarrow> sql_tables \<Rightarrow> dberr + (unit \<times> sql_tables)" where
  "sql_insert table vals t = Inr ((), t\<lparr>rows := rows t @ [(table, sql_new_row vals table t)]\<rparr>)"

text \<open>
  Equality of a \<open>JSON\<close> column with a value. The migrations declare these columns with
  \<open>ColumnDef::json()\<close>: SQLite stores and compares the text, PostgreSQL's \<open>json\<close> type has no
  equality operator and refuses the statement.
\<close>

definition json_equality_err :: dberr where
  "json_equality_err = ExecErr ''operator does not exist: json = jsonb''"

definition json_eq_statement ::
    "(sql_tables \<Rightarrow> dberr + ('a \<times> sql_tables)) \<Rightarrow> (sql_world, dberr, 'a) act" where
  "json_eq_statement f w =
     (if dialect w = Postgres then statement (\<lambda>t. Inl json_equality_err) w else statement f w)"

section \<open>Lemmas\<close>

named_theorems sql_simps \<open>what the statements read and write\<close>

lemma rows_where_set:
  "r \<in> set (rows_where table conds t) \<longleftrightarrow>
     (table, r) \<in> set (rows t) \<and> (\<forall>c\<in>set conds. sql_holds c r)"
  by (force simp: rows_where_def sql_match_def)

lemma rows_where_append_cond:
  "rows_where table (cs @ ds) t = filter (\<lambda>r. \<forall>d\<in>set ds. sql_holds d r) (rows_where table cs t)"
  unfolding rows_where_def
  by (simp add: filter_map o_def) (rule arg_cong [where f = "map snd"], rule filter_cong,
      auto simp: sql_match_def)

lemma sql_first_Some:
  "sql_first table conds t = Some r \<Longrightarrow>
     (table, r) \<in> set (rows t) \<and> (\<forall>c\<in>set conds. sql_holds c r)"
  using rows_where_set [of r table conds t] by (auto simp: sql_first_def split: list.splits)

lemma sql_first_None: "sql_first table conds t = None \<longleftrightarrow> rows_where table conds t = []"
  by (auto simp: sql_first_def split: list.splits)

lemma set_columns_simps [sql_simps]:
  "set_columns [] r = r"
  "set_columns ((c, v) # vals) r = (set_columns vals r)(c := v)"
  by (auto simp: set_columns_def)

text \<open>A row of another table, or that does not match, is not written.\<close>

lemma sql_update_frame:
  "sql_update table vals conds t = Inr (n, t') \<Longrightarrow> \<not> sql_match table conds x \<Longrightarrow>
     x \<in> set (rows t) \<Longrightarrow> x \<in> set (rows t')"
  by (force simp: sql_update_def)

lemma sql_delete_frame:
  "sql_delete table conds t = Inr (n, t') \<Longrightarrow>
     set (rows t') = {x \<in> set (rows t). \<not> sql_match table conds x}"
  by (auto simp: sql_delete_def)

lemma length_zero_rows: "length (rows_where table conds t) = 0 \<longleftrightarrow> sql_first table conds t = None"
  by (simp add: sql_first_None)

section \<open>Upserts\<close>

lemma set_columns_other: "map_of vals c = None \<Longrightarrow> set_columns vals r c = r c"
  by (simp add: set_columns_def)

lemma key_conds_set:
  "c \<in> set (key_conds keys vals) \<longleftrightarrow> (\<exists>k v. k \<in> set keys \<and> map_of vals k = Some v \<and> c = Col_Eq k v)"
  by (auto simp: key_conds_def set_map_filter)

lemma sql_new_row_col: "c \<noteq> ''id'' \<Longrightarrow> map_of vals c = Some v \<Longrightarrow> sql_new_row vals table t c = v"
  by (simp add: sql_new_row_def set_columns_def)

definition upsert_row :: "(string \<times> db_value) list \<Rightarrow> string list \<Rightarrow> row \<Rightarrow> row" where
  "upsert_row vals updates = set_columns (filter (\<lambda>kv. fst kv \<in> set updates) vals)"

lemma upsert_row_other: "c \<notin> set updates \<Longrightarrow> upsert_row vals updates r c = r c"
  by (auto simp: upsert_row_def intro!: set_columns_other simp: map_of_eq_None_iff)

lemma upsert_row_col:
  "c \<in> set updates \<Longrightarrow> map_of vals c = Some v \<Longrightarrow> upsert_row vals updates r c = v"
proof -
  assume c: "c \<in> set updates" and v: "map_of vals c = Some v"
  have "map_of (filter (\<lambda>kv. fst kv \<in> set updates) vals) c = Some v"
    using v c by (induction vals) auto
  then show ?thesis by (simp add: upsert_row_def set_columns_def)
qed

text \<open>Conditions on the key columns only hold of a row before an upsert when they do after.\<close>

lemma upsert_match:
  assumes "\<forall>c\<in>set conds. \<exists>k v. c = Col_Eq k v \<and> k \<notin> set updates"
  shows "sql_match table' conds (table, upsert_row vals updates r) = sql_match table' conds (table, r)"
  using assms by (fastforce simp: sql_match_def upsert_row_other)

lemma upsert_cases:
  assumes "sql_upsert table vals keys updates t = Inr ((), t')"
  obtains (new) "rows_where table (key_conds keys vals) t = []"
      "rows t' = rows t @ [(table, sql_new_row vals table t)]"
    | (old) "rows_where table (key_conds keys vals) t \<noteq> []"
      "rows t' = map (\<lambda>x. if sql_match table (key_conds keys vals) x
          then (fst x, upsert_row vals updates (snd x)) else x) (rows t)"
  using assms by (auto simp: sql_upsert_def sql_update_def upsert_row_def split: if_splits)

lemma sql_upsert_total: "\<exists>t'. sql_upsert table vals keys updates t = Inr ((), t')"
  by (simp add: sql_upsert_def sql_update_def)

lemma upsert_first:
  assumes up: "sql_upsert table vals keys updates t = Inr ((), t')"
    and keys: "\<forall>k\<in>set keys. k \<notin> set updates \<and> k \<noteq> ''id'' \<and> (\<exists>v. map_of vals k = Some v \<and> \<not> is_null_value v)"
    and c: "c \<in> set updates" "c \<noteq> ''id''" "map_of vals c = Some v"
  shows "\<exists>r. sql_first table (key_conds keys vals) t' = Some r \<and> r c = v"
  using up
proof (cases rule: upsert_cases)
  case new
  have "sql_match table (key_conds keys vals) (table, sql_new_row vals table t)"
    using keys by (fastforce simp: sql_match_def key_conds_set sql_new_row_col)
  then show ?thesis
    using new sql_new_row_col [OF c(2,3)] by (auto simp: sql_first_def rows_where_def)
next
  case old
  let ?conds = "key_conds keys vals"
  have kc: "\<forall>c\<in>set ?conds. \<exists>k v. c = Col_Eq k v \<and> k \<notin> set updates"
    using keys by (auto simp: key_conds_set)
  let ?f = "\<lambda>x. if sql_match table ?conds x then (fst x, upsert_row vals updates (snd x)) else x"
  have m: "sql_match table ?conds (?f x) = sql_match table ?conds x" for x
    using upsert_match [OF kc, of table "fst x" vals "snd x"] by (cases x) auto
  have "filter (sql_match table ?conds) (rows t') = map ?f (filter (sql_match table ?conds) (rows t))"
    unfolding old(2) filter_map o_def m ..
  then have "rows_where table ?conds t' = map (upsert_row vals updates) (rows_where table ?conds t)"
    by (simp add: rows_where_def o_def cong: map_cong)
  then show ?thesis
    using old(1) upsert_row_col [OF c(1,3)] by (cases "rows_where table ?conds t") (auto simp: sql_first_def)
qed

lemma upsert_other:
  assumes up: "sql_upsert table vals keys updates t = Inr ((), t')"
    and keys: "\<forall>k\<in>set keys. k \<notin> set updates \<and> k \<noteq> ''id'' \<and> (\<exists>v. map_of vals k = Some v \<and> \<not> is_null_value v)"
    and conds: "\<forall>c\<in>set conds. \<exists>k v. c = Col_Eq k v \<and> k \<notin> set updates"
    and diff: "table' \<noteq> table \<or> (\<exists>k v v'. k \<in> set keys \<and> Col_Eq k v \<in> set conds \<and> map_of vals k = Some v' \<and> v \<noteq> v')"
  shows "rows_where table' conds t' = rows_where table' conds t"
  using up
proof (cases rule: upsert_cases)
  case new
  have "\<not> sql_match table' conds (table, sql_new_row vals table t)"
    using diff keys sql_new_row_col [of _ vals _ table t] by (fastforce simp: sql_match_def)
  with new show ?thesis by (simp add: rows_where_def)
next
  case old
  let ?conds = "key_conds keys vals"
  let ?f = "\<lambda>x. if sql_match table ?conds x then (fst x, upsert_row vals updates (snd x)) else x"
  have m: "sql_match table' conds (?f x) = sql_match table' conds x" for x
    using upsert_match [OF conds, of table' "fst x" vals "snd x"] by (cases x) auto
  have no: "\<not> sql_match table ?conds x" if "sql_match table' conds x" for x
  proof
    assume k: "sql_match table ?conds x"
    with that diff obtain kk v v' where h: "kk \<in> set keys" "Col_Eq kk v \<in> set conds" "map_of vals kk = Some v'" "v \<noteq> v'"
      by (auto simp: sql_match_def)
    have "snd x kk = v" using that h(2) by (auto simp: sql_match_def)
    moreover have "Col_Eq kk v' \<in> set ?conds" using h by (auto simp: key_conds_set)
    then have "snd x kk = v'" using k by (auto simp: sql_match_def)
    ultimately show False using h(4) by simp
  qed
  have "filter (sql_match table' conds) (rows t') = map ?f (filter (sql_match table' conds) (rows t))"
    unfolding old(2) filter_map o_def m ..
  also have "\<dots> = filter (sql_match table' conds) (rows t)"
    by (rule map_idI) (use no in auto)
  finally show ?thesis by (simp add: rows_where_def)
qed

lemma upsert_other_key:
  assumes "sql_upsert table vals keys updates t = Inr ((), t')"
    and "\<forall>k\<in>set keys. k \<notin> set updates \<and> k \<noteq> ''id'' \<and> (\<exists>v. map_of vals k = Some v \<and> \<not> is_null_value v)"
    and "\<forall>c\<in>set conds. \<exists>k v. c = Col_Eq k v \<and> k \<notin> set updates"
    and "k0 \<in> set keys" "Col_Eq k0 v0 \<in> set conds" "map_of vals k0 = Some v1" "v0 \<noteq> v1"
  shows "rows_where table conds t' = rows_where table conds t"
  by (rule upsert_other [OF assms(1-3)]) (use assms(4-7) in blast)

lemma upsert_statement_Inr:
  assumes "quiet w" "statement (sql_upsert table vals keys updates) w = (Inr u, w')"
  shows "\<exists>t'. sql_upsert table vals keys updates (tabs w) = Inr ((), t') \<and> w' = set_tabs t' w"
  using assms by (auto simp: statement_Inr_iff)

lemma upsert_statement_runs:
  assumes "quiet w"
  shows "\<exists>t'. sql_upsert table vals keys updates (tabs w) = Inr ((), t') \<and>
    statement (sql_upsert table vals keys updates) w = (Inr (), set_tabs t' w)"
proof -
  obtain t' where "sql_upsert table vals keys updates (tabs w) = Inr ((), t')" using sql_upsert_total by blast
  then show ?thesis using statement_quiet_Inr [of w "sql_upsert table vals keys updates" "()" t'] assms by blast
qed

section \<open>A store of values by key\<close>

text \<open>
  \<open>get\<close> reads without effect; a successful \<open>put\<close> is read back under its key and leaves the other
  keys alone. Then any sequence of successful puts is a finite map updated from left to right.
\<close>

locale text_store =
  fixes ok :: "sql_world \<Rightarrow> bool"
    and get :: "'k \<Rightarrow> (sql_world, 'e, 'x option) act"
    and put :: "'v \<Rightarrow> (sql_world, 'e, unit) act"
    and key :: "'v \<Rightarrow> 'k"
    and val :: "'v \<Rightarrow> 'x"
  assumes get_pure: "ok w \<Longrightarrow> snd (get k w) = w"
    and put_get: "ok w \<Longrightarrow> put v w = (Inr (), w') \<Longrightarrow> ok w' \<and> fst (get (key v) w') = Inr (Some (val v))"
    and put_other: "ok w \<Longrightarrow> put v w = (Inr (), w') \<Longrightarrow> k \<noteq> key v \<Longrightarrow> fst (get k w') = fst (get k w)"
begin

lemma puts_then_get:
  assumes "ok w" "for_each vs put w = (Inr us, w')"
  shows "ok w' \<and> get k w' = (case find (\<lambda>v. key v = k) (rev vs) of
     Some v \<Rightarrow> Inr (Some (val v)) | None \<Rightarrow> fst (get k w), w')"
  using assms
proof (induction vs arbitrary: w us)
  case Nil
  then show ?case using get_pure [OF Nil.prems(1)] by (auto simp: return_ok_def prod_eq_iff)
next
  case (Cons v vs)
  from Cons.prems(2) obtain w1 us1 where p: "put v w = (Inr (), w1)" and r: "for_each vs put w1 = (Inr us1, w')"
    by (auto simp: act_inv)
  note pg = put_get [OF Cons.prems(1) p]
  have ih: "ok w' \<and> get k w' = (case find (\<lambda>v. key v = k) (rev vs) of
     Some v \<Rightarrow> Inr (Some (val v)) | None \<Rightarrow> fst (get k w1), w')"
    using Cons.IH [OF conjunct1 [OF pg] r] .
  show ?case
    using ih pg put_other [OF Cons.prems(1) p, of k]
    by (cases "key v = k") (auto simp: find_append split: option.split)
qed

end

end
