(* ===== verification/Lymaille_Access.thy ===== *)
theory Lymaille_Access
  imports Sql_Tables
begin

text \<open>
  The access layer of the Lymaille host: its errors (\<open>lymaille/error.rs\<close>, and \<open>db_text\<close> of
  \<open>store/mod.rs\<close>), the caller of an operation and the naming rules that decide which table an
  identifier lives in (\<open>identity.rs\<close>), the secrets (\<open>secret.rs\<close>), the verdicts of the host
  application (\<open>host.rs\<close>) and the choice and authentication of an MCP server (\<open>mcp_access.rs\<close>).
  The host application is an action of the world; the texts SeaORM gives to its errors are the
  fields of \<open>db_texts\<close>.
\<close>

section \<open>Errors\<close>

datatype lymaille_error =
    Lym_UnknownSubject
  | Lym_Forbidden string
  | Lym_ReservedPrefix string
  | Lym_InvalidDefinition string
  | Lym_SecretUnresolved string
  | Lym_Inference string
  | Lym_Run string bool
  | Lym_Config string
  | Lym_Store string
  | Lym_NotFound string
  | Lym_Conflict string
  | Lym_Serialization string

fun lymaille_error_text :: "lymaille_error \<Rightarrow> string" where
  "lymaille_error_text Lym_UnknownSubject = ''MRD-LYMAILLE-001: no local account for this session subject''"
| "lymaille_error_text (Lym_Forbidden s) = ''MRD-LYMAILLE-002: forbidden: '' @ s"
| "lymaille_error_text (Lym_ReservedPrefix s) =
     ''MRD-LYMAILLE-003: identifier uses the reserved catalog prefix: '' @ s"
| "lymaille_error_text (Lym_InvalidDefinition s) = ''MRD-LYMAILLE-004: invalid definition: '' @ s"
| "lymaille_error_text (Lym_SecretUnresolved s) =
     ''MRD-LYMAILLE-005: secret reference could not be resolved: '' @ s"
| "lymaille_error_text (Lym_Inference s) = ''MRD-LYMAILLE-006: inference error: '' @ s"
| "lymaille_error_text (Lym_Run s _) = ''MRD-LYMAILLE-007: agent run failed: '' @ s"
| "lymaille_error_text (Lym_Config s) = ''MRD-LYMAILLE-008: invalid configuration: '' @ s"
| "lymaille_error_text (Lym_Store s) = ''MRD-LYMAILLE-009: store error: '' @ s"
| "lymaille_error_text (Lym_NotFound s) = ''MRD-LYMAILLE-010: not found: '' @ s"
| "lymaille_error_text (Lym_Conflict s) = ''MRD-LYMAILLE-011: conflict: '' @ s"
| "lymaille_error_text (Lym_Serialization s) = ''MRD-LYMAILLE-012: serialization error: '' @ s"

fun lymaille_retryable :: "lymaille_error \<Rightarrow> bool" where
  "lymaille_retryable (Lym_Run _ retry) = retry"
| "lymaille_retryable (Lym_Store _) = True"
| "lymaille_retryable _ = False"

text \<open>\<open>{error:?}\<close> and \<open>error.to_string()\<close> of a \<open>DbErr\<close>.\<close>

record db_texts =
  debug_text :: "dberr \<Rightarrow> string"
  display_text :: "dberr \<Rightarrow> string"

definition db_text :: "db_texts \<Rightarrow> dberr \<Rightarrow> string" where
  "db_text tx e =
     (if contains_sub ''ColumnDecode'' (debug_text tx e) \<or> contains_sub ''Decode('' (debug_text tx e)
      then ''database failed to decode a stored column'' else display_text tx e)"

abbreviation store_error :: "db_texts \<Rightarrow> dberr \<Rightarrow> lymaille_error" where
  "store_error tx e \<equiv> Lym_Store (db_text tx e)"

section \<open>Callers and identifiers\<close>

record caller_principal =
  cp_user_id :: int
  cp_subject :: string
  cp_is_admin :: bool

definition resolve_caller ::
    "db_texts \<Rightarrow> string \<Rightarrow> ('m tables world, lymaille_error, caller_principal) act" where
  "resolve_caller tx sub =
     and_then (map_err (store_error tx) (select (find_user sub)))
       (\<lambda>found. case found of None \<Rightarrow> fail_with Lym_UnknownSubject
        | Some account \<Rightarrow>
            and_then (map_err (store_error tx) (is_admin (u_id account)))
              (\<lambda>admin. return_ok \<lparr>cp_user_id = u_id account, cp_subject = u_subject account,
                         cp_is_admin = admin\<rparr>))"

datatype id_kind = Catalog_Id | Private_Id | Host_Id

definition is_ascii_alphanumeric :: "char \<Rightarrow> bool" where
  "is_ascii_alphanumeric c \<longleftrightarrow>
     (let n = of_char c :: nat in 48 \<le> n \<and> n \<le> 57 \<or> 65 \<le> n \<and> n \<le> 90 \<or> 97 \<le> n \<and> n \<le> 122)"

definition eq_ignore_ascii_case :: "string \<Rightarrow> string \<Rightarrow> bool" where
  "eq_ignore_ascii_case a b \<longleftrightarrow> map ascii_lower a = map ascii_lower b"

definition rhai_identifier :: "string \<Rightarrow> bool" where
  "rhai_identifier s \<longleftrightarrow> s \<noteq> [] \<and> list_all (\<lambda>c. is_ascii_alphanumeric c \<or> c = CHR ''_'') s"

definition classify :: "string \<Rightarrow> lymaille_error + id_kind" where
  "classify i =
     (if i = [] \<or> \<not> list_all (\<lambda>c. is_ascii_alphanumeric c \<or> c = CHR ''_'') i
      then Inl (Lym_InvalidDefinition ''invalid identifier'')
      else if starts_with ''G_'' i then Inr Catalog_Id
      else if starts_with ''H_'' i then Inr Host_Id
      else if (case get_to i 2 of None \<Rightarrow> False
               | Some prefix \<Rightarrow> eq_ignore_ascii_case prefix ''g_'' \<or> eq_ignore_ascii_case prefix ''h_'')
      then Inl (Lym_ReservedPrefix i)
      else Inr Private_Id)"

definition check_write :: "caller_principal \<Rightarrow> string \<Rightarrow> lymaille_error + id_kind" where
  "check_write caller i =
     (case classify i of
        Inl e \<Rightarrow> Inl e
      | Inr Host_Id \<Rightarrow> Inl (Lym_Forbidden ''host identifiers are not writable'')
      | Inr Catalog_Id \<Rightarrow>
          if \<not> cp_is_admin caller then Inl (Lym_Forbidden ''catalog write requires admin'')
          else Inr Catalog_Id
      | Inr Private_Id \<Rightarrow> Inr Private_Id)"

definition check_grants ::
    "caller_principal \<Rightarrow> string list \<Rightarrow> string list \<Rightarrow> lymaille_error + unit" where
  "check_grants caller granted admin_only =
     (if cp_is_admin caller then Inr ()
      else case find (\<lambda>m. m \<in> set admin_only) granted of
             Some m \<Rightarrow> Inl (Lym_Forbidden (''module reserved to admins: '' @ m))
           | None \<Rightarrow> Inr ())"

section \<open>Secrets\<close>

text \<open>\<open>std::env::var\<close> is an argument; an unset, unreadable or empty variable is unresolved.\<close>

definition env_secret_resolve :: "(string \<Rightarrow> string option) \<Rightarrow> string \<Rightarrow> lymaille_error + string" where
  "env_secret_resolve env_var reference =
     (case env_var reference of
        Some v \<Rightarrow> if v \<noteq> [] then Inr v else Inl (Lym_SecretUnresolved reference)
      | None \<Rightarrow> Inl (Lym_SecretUnresolved reference))"

section \<open>The host application\<close>

record mcp_grant =
  mg_url :: string
  mg_token :: string
  mg_expires_at :: "int option"

definition grant_expired :: "mcp_grant \<Rightarrow> int \<Rightarrow> bool" where
  "grant_expired g now \<longleftrightarrow> (case mg_expires_at g of None \<Rightarrow> False | Some e \<Rightarrow> e \<le> now)"

datatype mcp_decision = Unprovided | Denied | Granted mcp_grant

text \<open>
  \<open>LymailleHost\<close>: the two questions, \<open>HostError\<close> being the unit, on the context and role of the
  request and the caller. A context is of the library, of any type. \<open>default_host\<close> has the
  provided methods of the trait.
\<close>

record ('m, 'cx) lymaille_host =
  lh_resolve_mcp :: "string \<Rightarrow> string \<Rightarrow> caller_principal \<Rightarrow> ('m tables world, unit, mcp_decision) act"
  lh_resolve_context :: "string \<Rightarrow> caller_principal \<Rightarrow> ('m tables world, unit, 'cx option) act"

definition default_host :: "('m, 'cx) lymaille_host" where
  "default_host =
     \<lparr>lh_resolve_mcp = (\<lambda>context role caller. return_ok Unprovided),
      lh_resolve_context = (\<lambda>name caller. return_ok None)\<rparr>"

section \<open>MCP servers\<close>

definition mcp_servers_table :: string where
  "mcp_servers_table = ''miryad_lymaille_mcp_servers''"

record mcp_server =
  ms_id :: int
  ms_name :: string
  ms_url :: string
  ms_request_timeout_secs :: int
  ms_connect_timeout_secs :: int
  ms_auth_mode :: string
  ms_auth_ref :: "string option"
  ms_allowed_groups :: json
  ms_created_at :: int

definition mcp_server_of_row :: "row \<Rightarrow> mcp_server" where
  "mcp_server_of_row r =
     \<lparr>ms_id = row_int (r ''id''), ms_name = col_text (r ''name''), ms_url = col_text (r ''url''),
      ms_request_timeout_secs = row_int (r ''request_timeout_secs''),
      ms_connect_timeout_secs = row_int (r ''connect_timeout_secs''),
      ms_auth_mode = col_text (r ''auth_mode''), ms_auth_ref = col_opt_text (r ''auth_ref''),
      ms_allowed_groups = (case col_json (r ''allowed_groups'') of Some j \<Rightarrow> j | None \<Rightarrow> JNull),
      ms_created_at = row_int (r ''created_at'')\<rparr>"

datatype mcp_auth_mode = Auth_None | Auth_Static | Auth_Forward

definition auth_mode :: "string \<Rightarrow> mcp_auth_mode" where
  "auth_mode m = (if m = ''static'' then Auth_Static else if m = ''forward'' then Auth_Forward
                  else Auth_None)"

text \<open>\<open>SeaMcpAuth\<close>: its kind, and the resolver of the static one.\<close>

datatype sea_mcp_auth =
    Static_Auth "string \<Rightarrow> lymaille_error + string" string
  | Forward_Auth string

text \<open>\<open>McpHeaders::new().with_bearer(secret)\<close> and \<open>McpError::Failed\<close> of the library.\<close>

datatype mcp_headers = Bearer_Header string

datatype mcp_error = Mcp_Failed string

definition server_unavailable :: string where "server_unavailable = ''mcp server unavailable''"
definition forward_needs_session :: string where
  "forward_needs_session = ''forward auth needs an interactive session''"
definition auth_ref_unresolved :: string where
  "auth_ref_unresolved = ''mcp auth reference unresolved''"
definition host_denied :: string where "host_denied = ''mcp host denied''"

fun sea_auth_headers :: "sea_mcp_auth \<Rightarrow> mcp_error + mcp_headers" where
  "sea_auth_headers (Static_Auth resolver auth_ref) =
     (case resolver auth_ref of Inl _ \<Rightarrow> Inl (Mcp_Failed auth_ref_unresolved)
      | Inr secret \<Rightarrow> Inr (Bearer_Header secret))"
| "sea_auth_headers (Forward_Auth token) = Inr (Bearer_Header token)"

definition build_auth ::
    "mcp_server \<Rightarrow> (string \<Rightarrow> lymaille_error + string) \<Rightarrow> string option \<Rightarrow>
       lymaille_error + sea_mcp_auth option" where
  "build_auth model resolver interactive_token =
     (case auth_mode (ms_auth_mode model) of
        Auth_None \<Rightarrow> Inr None
      | Auth_Static \<Rightarrow>
          (case ms_auth_ref model of
             Some reference \<Rightarrow> Inr (Some (Static_Auth resolver reference))
           | None \<Rightarrow> Inl (Lym_Config ''static mcp server auth requires an auth reference''))
      | Auth_Forward \<Rightarrow>
          (case interactive_token of
             Some token \<Rightarrow> Inr (Some (Forward_Auth token))
           | None \<Rightarrow> Inl (Lym_Forbidden forward_needs_session)))"

text \<open>The loop of \<open>autorise\<close> over the names of the groups.\<close>

fun any_member ::
    "db_texts \<Rightarrow> int \<Rightarrow> string list \<Rightarrow> ('m tables world, lymaille_error, bool) act" where
  "any_member tx uid [] = return_ok False"
| "any_member tx uid (nom # noms) =
     and_then (map_err (store_error tx) (is_member uid nom))
       (\<lambda>m. if m then return_ok True else any_member tx uid noms)"

definition autorise ::
    "db_texts \<Rightarrow> caller_principal \<Rightarrow> json \<Rightarrow> ('m tables world, lymaille_error, bool) act" where
  "autorise tx caller groupes =
     (case as_array groupes of
        None \<Rightarrow> return_ok False
      | Some noms \<Rightarrow>
          if \<exists>g\<in>set noms. as_str g = Some ''all'' then return_ok True
          else if \<exists>g\<in>set noms. as_str g = Some ''admin'' then return_ok (cp_is_admin caller)
          else any_member tx (cp_user_id caller) (List.map_filter as_str noms))"

definition server_for ::
    "db_texts \<Rightarrow> caller_principal \<Rightarrow> string \<Rightarrow> (sql_world, lymaille_error, mcp_server) act" where
  "server_for tx caller name =
     and_then (map_err (store_error tx)
         (select (sql_first mcp_servers_table [Col_Eq ''name'' (VText (Some name))])))
       (\<lambda>found. case found of None \<Rightarrow> fail_with (Lym_Forbidden server_unavailable)
        | Some r \<Rightarrow>
            and_then (autorise tx caller (ms_allowed_groups (mcp_server_of_row r)))
              (\<lambda>ok. if ok then return_ok (mcp_server_of_row r)
                    else fail_with (Lym_Forbidden server_unavailable)))"

datatype role_binding = Host_Binding mcp_grant | Table_Binding mcp_server

definition resolve_role ::
    "db_texts \<Rightarrow> (sql_row, 'cx) lymaille_host option \<Rightarrow> caller_principal \<Rightarrow> string \<Rightarrow> string \<Rightarrow>
       string option \<Rightarrow> (sql_world, lymaille_error, role_binding) act" where
  "resolve_role tx host caller context role bound_server =
     (let refuse = fail_with (Lym_Forbidden server_unavailable);
          from_table = (case bound_server of
             Some name \<Rightarrow> and_then (server_for tx caller name) (\<lambda>m. return_ok (Table_Binding m))
           | None \<Rightarrow> refuse)
      in case host of
           None \<Rightarrow> from_table
         | Some h \<Rightarrow> (\<lambda>w. case lh_resolve_mcp h context role caller w of
               (Inl _, w1) \<Rightarrow> refuse w1
             | (Inr Unprovided, w1) \<Rightarrow> from_table w1
             | (Inr Denied, w1) \<Rightarrow> refuse w1
             | (Inr (Granted g), w1) \<Rightarrow>
                 if \<not> grant_expired g (clock w1) then (Inr (Host_Binding g), w1) else refuse w1))"

record 'cx host_mcp_auth =
  hm_host :: "(sql_row, 'cx) lymaille_host"
  hm_subject :: string
  hm_context :: string
  hm_role :: string

definition host_auth_headers ::
    "db_texts \<Rightarrow> 'cx host_mcp_auth \<Rightarrow> (sql_world, mcp_error, mcp_headers) act" where
  "host_auth_headers tx a w =
     (case resolve_caller tx (hm_subject a) w of
        (Inl _, w1) \<Rightarrow> (Inl (Mcp_Failed host_denied), w1)
      | (Inr caller, w1) \<Rightarrow>
          (case lh_resolve_mcp (hm_host a) (hm_context a) (hm_role a) caller w1 of
             (Inr (Granted g), w2) \<Rightarrow>
               if \<not> grant_expired g (clock w2) then (Inr (Bearer_Header (mg_token g)), w2)
               else (Inl (Mcp_Failed host_denied), w2)
           | (_, w2) \<Rightarrow> (Inl (Mcp_Failed host_denied), w2)))"

section \<open>Lemmas\<close>

lemma resolve_caller_quiet [act_simps]:
  "quiet w \<Longrightarrow> resolve_caller tx sub w =
     (case find_user sub (tabs w) of None \<Rightarrow> (Inl Lym_UnknownSubject, w)
      | Some u \<Rightarrow> (Inr \<lparr>cp_user_id = u_id u, cp_subject = u_subject u,
                    cp_is_admin = in_group (u_id u) admin_group_name (tabs w)\<rparr>, w))"
  by (simp add: resolve_caller_def act_eval select_quiet is_admin_quiet split: option.split)

text \<open>What \<open>autorise\<close> decides, on the tables.\<close>

definition may_use_groups :: "caller_principal \<Rightarrow> json \<Rightarrow> 'm tables \<Rightarrow> bool" where
  "may_use_groups caller groupes t =
     (case as_array groupes of None \<Rightarrow> False
      | Some noms \<Rightarrow> JString ''all'' \<in> set noms \<or>
          (if JString ''admin'' \<in> set noms then cp_is_admin caller
           else \<exists>n. JString n \<in> set noms \<and> in_group (cp_user_id caller) n t))"

lemma any_member_quiet [act_simps]:
  "quiet w \<Longrightarrow> any_member tx uid noms w = (Inr (\<exists>n\<in>set noms. in_group uid n (tabs w)), w)"
  by (induction noms) (auto simp: act_eval is_member_quiet)

lemma autorise_quiet [act_simps]:
  "quiet w \<Longrightarrow> autorise tx caller groupes w = (Inr (may_use_groups caller groupes (tabs w)), w)"
  by (auto simp: autorise_def may_use_groups_def as_str_Some act_simps set_map_filter
      split: option.split)

lemma server_for_quiet [act_simps]:
  "quiet w \<Longrightarrow> server_for tx caller name w =
     (case sql_first mcp_servers_table [Col_Eq ''name'' (VText (Some name))] (tabs w) of
        None \<Rightarrow> (Inl (Lym_Forbidden server_unavailable), w)
      | Some r \<Rightarrow>
          if may_use_groups caller (ms_allowed_groups (mcp_server_of_row r)) (tabs w)
          then (Inr (mcp_server_of_row r), w) else (Inl (Lym_Forbidden server_unavailable), w))"
  by (auto simp: server_for_def act_eval select_quiet autorise_quiet split: option.split)

lemma classify_wf: "classify i = Inr k \<Longrightarrow> rhai_identifier i"
  by (auto simp: classify_def rhai_identifier_def split: if_splits)

lemma classify_Catalog: "classify i = Inr Catalog_Id \<longleftrightarrow> rhai_identifier i \<and> starts_with ''G_'' i"
  by (auto simp: classify_def rhai_identifier_def)

lemma starts_GH: "starts_with ''H_'' i \<Longrightarrow> \<not> starts_with ''G_'' i"
  by (auto simp: starts_with_def)

lemma classify_Host: "classify i = Inr Host_Id \<longleftrightarrow> rhai_identifier i \<and> starts_with ''H_'' i"
  by (auto simp: classify_def rhai_identifier_def starts_GH)

lemma classify_Private_prefix:
  "classify i = Inr Private_Id \<Longrightarrow> \<not> starts_with ''G_'' i \<and> \<not> starts_with ''H_'' i"
  by (auto simp: classify_def split: if_splits)

lemma check_write_Inr:
  "check_write caller i = Inr k \<longleftrightarrow>
     classify i = Inr k \<and> k \<noteq> Host_Id \<and> (k = Catalog_Id \<longrightarrow> cp_is_admin caller)"
  by (auto simp: check_write_def split: sum.splits id_kind.splits)

lemma check_write_not_host: "check_write caller i \<noteq> Inr Host_Id"
  by (simp add: check_write_Inr)

section \<open>Properties\<close>

lemma private_no_reserved_prefix:
  assumes "classify i = Inr Private_Id"
  shows "rhai_identifier i \<and> (\<forall>p\<in>{''g_'', ''h_''}. \<not> eq_ignore_ascii_case (take 2 i) p)"
proof -
  have wf: "rhai_identifier i" using assms by (rule classify_wf)
  have get: "2 \<le> length i \<Longrightarrow> get_to i 2 = Some (take 2 i)"
  proof -
    assume l: "2 \<le> length i"
    have "\<not> cont_byte c" if "c \<in> set i" for c
    proof -
      have "is_ascii_alphanumeric c \<or> c = CHR ''_''"
        using wf that by (auto simp: rhai_identifier_def list_all_iff)
      then show ?thesis by (auto simp: is_ascii_alphanumeric_def cont_byte_def Let_def)
    qed
    then have "is_char_boundary i 2" using l by (auto simp: is_char_boundary_def)
    with l show ?thesis by (simp add: get_to_def)
  qed
  show ?thesis
  proof (cases "2 \<le> length i")
    case True
    with assms get wf show ?thesis by (auto simp: classify_def split: if_splits)
  next
    case False
    then have "length (take 2 i) \<noteq> 2" by simp
    then have "\<not> eq_ignore_ascii_case (take 2 i) p" if "length p = 2" for p
      using that by (metis eq_ignore_ascii_case_def length_map)
    with wf show ?thesis by simp
  qed
qed

text \<open>
  What a caller who is not an admin may write is a well-formed identifier that has none of the
  reserved prefixes, in any case of the letters; what an admin may write is that or a catalog
  identifier.
\<close>

theorem writable_identifiers:
  assumes "check_write caller i = Inr k"
  shows "rhai_identifier i \<and>
    (if starts_with ''G_'' i then k = Catalog_Id \<and> cp_is_admin caller
     else k = Private_Id \<and> (\<forall>p\<in>{''g_'', ''h_''}. \<not> eq_ignore_ascii_case (take 2 i) p))"
proof -
  have c: "classify i = Inr k" "k \<noteq> Host_Id" "k = Catalog_Id \<longrightarrow> cp_is_admin caller"
    using assms by (simp_all add: check_write_Inr)
  then show ?thesis
  proof (cases k)
    case Catalog_Id
    with c show ?thesis by (simp add: classify_Catalog)
  next
    case Private_Id
    with c have p: "classify i = Inr Private_Id" by simp
    show ?thesis using private_no_reserved_prefix [OF p] classify_Private_prefix [OF p] Private_Id by simp
  qed simp
qed

definition demo_texts :: db_texts where
  "demo_texts = \<lparr>debug_text = (\<lambda>e. []), display_text = (\<lambda>e. [])\<rparr>"

definition demo_caller :: "bool \<Rightarrow> caller_principal" where
  "demo_caller adm = \<lparr>cp_user_id = 7, cp_subject = ''ada'', cp_is_admin = adm\<rparr>"

theorem writable_identifiers_witness:
  "check_write (demo_caller False) ''notes_1'' = Inr Private_Id \<and> rhai_identifier ''notes_1'' \<and>
   check_write (demo_caller True) ''G_notes'' = Inr Catalog_Id \<and> cp_is_admin (demo_caller True) \<and>
   check_write (demo_caller True) ''h_notes'' = Inl (Lym_ReservedPrefix ''h_notes'')"
proof -
  have a: "check_write (demo_caller False) ''notes_1'' = Inr Private_Id" by code_simp
  have b: "check_write (demo_caller True) ''G_notes'' = Inr Catalog_Id" by code_simp
  have "starts_with ''G_'' ''G_notes''" by code_simp
  then have "cp_is_admin (demo_caller True)" using writable_identifiers [OF b] by simp
  moreover have "check_write (demo_caller True) ''h_notes'' = Inl (Lym_ReservedPrefix ''h_notes'')"
    by code_simp
  ultimately show ?thesis using a b writable_identifiers [OF a] by blast
qed

text \<open>
  Arole is bound only through an authorised source: the host's own grant, unexpired when it is
  used, or, when the host does not provide the role, a server of the table named by the context
  and open to the caller's groups. A host that denies, fails or grants in the past is final,
  whatever the table says.
\<close>

theorem role_binding_sound:
  assumes host: "lh_resolve_mcp h context role caller w = (d, w1)" and q: "quiet w1"
    and bound: "resolve_role tx (Some h) caller context role srv w = (r, w')"
  shows "case r of
      Inl e \<Rightarrow> e = Lym_Forbidden server_unavailable
    | Inr (Host_Binding g) \<Rightarrow> d = Inr (Granted g) \<and> \<not> grant_expired g (clock w1)
    | Inr (Table_Binding m) \<Rightarrow> d = Inr Unprovided \<and>
        (\<exists>name row. srv = Some name \<and> (mcp_servers_table, row) \<in> set (rows (tabs w1)) \<and>
           m = mcp_server_of_row row \<and> ms_name m = name \<and>
           may_use_groups caller (ms_allowed_groups m) (tabs w1))"
proof (cases "d = Inr Unprovided")
  case False
  then show ?thesis
    using host bound
    by (auto simp: resolve_role_def fail_with_def Let_def split: sum.splits mcp_decision.splits if_splits)
next
  case True
  show ?thesis
  proof (cases srv)
    case None
    with True host bound show ?thesis by (auto simp: resolve_role_def Let_def fail_with_def)
  next
    case (Some name)
    with True host bound
    have run: "and_then (server_for tx caller name) (\<lambda>m. return_ok (Table_Binding m)) w1 = (r, w')"
      by (simp add: resolve_role_def Let_def)
    show ?thesis
    proof (cases "sql_first mcp_servers_table [Col_Eq ''name'' (VText (Some name))] (tabs w1)")
      case None
      with run show ?thesis by (auto simp: act_eval server_for_quiet [OF q])
    next
      case found: (Some row)
      have mem: "(mcp_servers_table, row) \<in> set (rows (tabs w1))" "row ''name'' = VText (Some name)"
        using sql_first_Some [OF found] by auto
      then have nm: "ms_name (mcp_server_of_row row) = name" by (simp add: mcp_server_of_row_def)
      show ?thesis
        using run found mem(1) nm True Some
        by (auto simp: act_eval server_for_quiet [OF q] split: if_splits)
    qed
  qed
qed

definition demo_server_row :: "string \<Rightarrow> json list \<Rightarrow> row" where
  "demo_server_row n gs =
     (\<lambda>_. VText None)(''name'' := VText (Some n), ''auth_mode'' := VText (Some ''none''),
        ''allowed_groups'' := VJson (Some (JArray gs)))"

theorem role_binding_sound_witness:
  "let row = demo_server_row ''search'' [JString ''all'']; w = demo_world [(mcp_servers_table, row)] in
   resolve_role demo_texts (Some (default_host :: (sql_row, unit) lymaille_host)) (demo_caller False)
       ''G_ctx'' ''find'' (Some ''search'') w = (Inr (Table_Binding (mcp_server_of_row row)), w) \<and>
   may_use_groups (demo_caller False) (ms_allowed_groups (mcp_server_of_row row)) (tabs w)"
proof -
  define row where "row = demo_server_row ''search'' [JString ''all'']"
  define w where "w = demo_world [(mcp_servers_table, row)]"
  have host: "lh_resolve_mcp (default_host :: (sql_row, unit) lymaille_host) ''G_ctx'' ''find''
      (demo_caller False) w = (Inr Unprovided, w)"
    by (simp add: default_host_def return_ok_def)
  have q: "quiet w" by (simp add: w_def)
  have g: "ms_allowed_groups (mcp_server_of_row row) = JArray [JString ''all'']"
    by (simp add: mcp_server_of_row_def row_def demo_server_row_def)
  have "sql_first mcp_servers_table [Col_Eq ''name'' (VText (Some ''search''))] (tabs w) = Some row"
    by (simp add: sql_first_def rows_where_def sql_match_def w_def)
       (simp add: sql_match_def row_def demo_server_row_def demo_tables_def)
  then have run: "resolve_role demo_texts (Some (default_host :: (sql_row, unit) lymaille_host))
      (demo_caller False) ''G_ctx'' ''find'' (Some ''search'') w = (Inr (Table_Binding (mcp_server_of_row row)), w)"
    using host g
    by (simp add: resolve_role_def Let_def act_eval server_for_quiet [OF q] may_use_groups_def)
  show ?thesis
    using role_binding_sound [OF host q run] run unfolding row_def w_def by (auto simp: Let_def)
qed

end
