(* ===== verification/Lymaille_Definitions.thy ===== *)
theory Lymaille_Definitions
  imports Lymaille_Access
begin

text \<open>
  The ten resources of the Lymaille host (\<open>lymaille/definitions/*.rs\<close>): for each entity the checks
  and derived columns of its hooks, and the \<open>impl MiryadResource\<close> as a \<open>resource\<close>, so that the
  generic CRUD of \<open>Rest_Core\<close> runs on it. What the \<open>lymaille\<close> library parses and checks is a field
  of the records \<open>toolset_lib\<close>, \<open>agent_lib\<close> and \<open>context_lib\<close>: \<open>of_json\<close> is
  \<open>serde_json::from_value\<close>, with the text of its error. \<open>now\<close> is \<open>Utc::now()\<close> in the hook.
\<close>

section \<open>The library\<close>

datatype toolsets_error =
    Ts_Store string
  | Ts_InvalidContextType string string
  | Ts_Other string

record ('ts, 'sk) toolset_lib =
  ts_of_json :: "json \<Rightarrow> string + 'ts"
  ts_to_json :: "'ts \<Rightarrow> json option"
  ts_name :: "'ts \<Rightarrow> string"
  ts_version :: "'ts \<Rightarrow> string"
  ts_source :: "'ts \<Rightarrow> string"
  ts_skills :: "'ts \<Rightarrow> 'sk list"
  sk_name :: "'sk \<Rightarrow> string"
  sk_description :: "'sk \<Rightarrow> string"
  sk_body :: "'sk \<Rightarrow> string"
  extract_contract :: "string \<Rightarrow> toolsets_error + unit"
  check_size :: "'sk \<Rightarrow> nat \<Rightarrow> toolsets_error + unit"
  check_template :: "string \<Rightarrow> string \<Rightarrow> toolsets_error + unit"
  ts_error_text :: "toolsets_error \<Rightarrow> string"

record ('ag, 'pf, 'pv) agent_lib =
  ag_of_json :: "json \<Rightarrow> string + 'ag"
  ag_validate :: "'ag \<Rightarrow> string + unit"
  ag_id :: "'ag \<Rightarrow> string"
  ag_kind :: "'ag \<Rightarrow> json option"
  ag_profile :: "'ag \<Rightarrow> string"
  pf_of_json :: "json \<Rightarrow> string + 'pf"
  pf_name :: "'pf \<Rightarrow> string"
  pv_of_json :: "json \<Rightarrow> string + 'pv"
  pv_name :: "'pv \<Rightarrow> string"
  pv_kind :: "'pv \<Rightarrow> string"
  pv_level :: "'pv \<Rightarrow> json option"

record ('ct, 'cx) context_lib =
  ct_of_json :: "json \<Rightarrow> string + 'ct"
  ct_to_json :: "'ct \<Rightarrow> json option"
  ct_default_agent :: "'ct \<Rightarrow> string option"
  cx_of_json :: "json \<Rightarrow> string + 'cx"
  cx_to_json :: "'cx \<Rightarrow> json option"

section \<open>Reading active values\<close>

definition active_text :: "active_value \<Rightarrow> string option" where
  "active_text v = (case into_value v of Some (VText s) \<Rightarrow> s | _ \<Rightarrow> None)"

definition active_int :: "active_value \<Rightarrow> int option" where
  "active_int v = (case into_value v of Some (VInt i) \<Rightarrow> i | _ \<Rightarrow> None)"

definition active_json :: "active_value \<Rightarrow> json option" where
  "active_json v = (case into_value v of Some (VJson j) \<Rightarrow> j | _ \<Rightarrow> None)"

fun is_object :: "json \<Rightarrow> bool" where
  "is_object (JObject _) = True" | "is_object _ = False"

definition set_text :: "string \<Rightarrow> active_value" where
  "set_text s = Set (VText (Some s))"

definition hook_fail :: "string \<Rightarrow> hook_error + 'a" where
  "hook_fail s = Inl (hook_error_new s)"

text \<open>The two ways the hooks set \<open>created_at\<close>.\<close>

definition created_kept :: "int \<Rightarrow> row option \<Rightarrow> active_model \<Rightarrow> active_model" where
  "created_kept now existing active =
     (case existing of
        Some ligne \<Rightarrow> active(''created_at'' := Set (ligne ''created_at''))
      | None \<Rightarrow> if active ''created_at'' = NotSet then active(''created_at'' := Set (VInt (Some now)))
                else active)"

definition created_once :: "int \<Rightarrow> row option \<Rightarrow> active_model \<Rightarrow> active_model" where
  "created_once now existing active =
     (if existing = None \<and> active ''created_at'' = NotSet
      then active(''created_at'' := Set (VInt (Some now))) else active)"

text \<open>The JSON column of a definition: present, and an object.\<close>

definition object_column :: "active_model \<Rightarrow> string \<Rightarrow> json option" where
  "object_column active c =
     (case active_json (active c) of Some v \<Rightarrow> if is_object v then Some v else None | None \<Rightarrow> None)"

text \<open>\<open>version_presents\<close>: a nullable JSON column that is set, not \<open>NULL\<close> and not JSON null.\<close>

definition version_presents :: "active_value \<Rightarrow> json option" where
  "version_presents v =
     (case active_json v of Some j \<Rightarrow> if j \<noteq> JNull then Some j else None | None \<Rightarrow> None)"

text \<open>\<open>Option::map(f).transpose()\<close>\<close>

definition transpose_map :: "('a \<Rightarrow> 'e + 'b) \<Rightarrow> 'a option \<Rightarrow> 'e + 'b option" where
  "transpose_map f x =
     (case x of None \<Rightarrow> Inr None | Some a \<Rightarrow> (case f a of Inl e \<Rightarrow> Inl e | Inr b \<Rightarrow> Inr (Some b)))"

section \<open>MCP servers\<close>

definition est_identifiant :: "string \<Rightarrow> bool" where
  "est_identifiant nom \<longleftrightarrow> nom \<noteq> [] \<and> list_all (\<lambda>c. is_ascii_alphanumeric c \<or> c = CHR ''_'') nom"

definition est_groupe :: "string \<Rightarrow> bool" where
  "est_groupe nom \<longleftrightarrow> nom \<noteq> [] \<and>
     list_all (\<lambda>c. is_ascii_alphanumeric c \<or> c \<in> {CHR ''_'', CHR ''.'', CHR ''-''}) nom"

text \<open>The text before the first occurrence of a pattern.\<close>

fun before_sub :: "string \<Rightarrow> string \<Rightarrow> string option" where
  "before_sub p [] = (if p = [] then Some [] else None)"
| "before_sub p (c # cs) =
     (if starts_with p (c # cs) then Some [] else map_option ((#) c) (before_sub p cs))"

definition schema_est_http :: "string \<Rightarrow> bool" where
  "schema_est_http url \<longleftrightarrow>
     (case before_sub ''://'' url of None \<Rightarrow> False
      | Some schema \<Rightarrow> map ascii_lower schema \<in> {''http'', ''https''})"

definition server_groupes :: "active_value \<Rightarrow> hook_error + string list" where
  "server_groupes v =
     (let forme = ''mcp server allowed groups must be a non-empty array of group names'' in
      case Option.bind (active_json v) as_array of
        None \<Rightarrow> hook_fail forme
      | Some tableau \<Rightarrow>
          if \<exists>g\<in>set tableau. as_str g = None then hook_fail forme
          else (let noms = List.map_filter as_str tableau in
                if noms = [] then hook_fail forme
                else if \<not> list_all est_groupe noms then hook_fail ''invalid mcp server allowed group name''
                else Inr noms))"

definition server_valider :: "int \<Rightarrow> active_model \<Rightarrow> row option \<Rightarrow> hook_error + active_model" where
  "server_valider now active existing =
     (if \<not> (case active_text (active ''name'') of None \<Rightarrow> False | Some n \<Rightarrow> est_identifiant n)
      then hook_fail ''mcp server name must be a Rhai identifier ([A-Za-z0-9_]+)''
      else if \<not> (case active_text (active ''url'') of None \<Rightarrow> False | Some u \<Rightarrow> schema_est_http u)
      then hook_fail ''mcp server url must be http or https''
      else if \<not> (case active_int (active ''request_timeout_secs'') of None \<Rightarrow> False
                  | Some d \<Rightarrow> 1 \<le> d \<and> d \<le> 600)
      then hook_fail ''mcp server request timeout must be between 1 and 600 seconds''
      else if \<not> (case active_int (active ''connect_timeout_secs'') of None \<Rightarrow> False
                  | Some d \<Rightarrow> 1 \<le> d \<and> d \<le> 60)
      then hook_fail ''mcp server connect timeout must be between 1 and 60 seconds''
      else
        let mode = (case active_text (active ''auth_mode'') of None \<Rightarrow> [] | Some m \<Rightarrow> m);
            reference = active_text (active ''auth_ref'') in
        if mode \<notin> {''none'', ''static'', ''forward''} then hook_fail ''invalid mcp server auth mode''
        else if mode = ''static'' \<and> (case reference of None \<Rightarrow> True | Some r \<Rightarrow> r = [])
        then hook_fail ''static mcp server auth requires a non-empty auth_ref''
        else if mode \<in> {''none'', ''forward''} \<and> reference \<noteq> None
        then hook_fail ''mcp server auth_ref requires the static auth mode''
        else case server_groupes (active ''allowed_groups'') of
          Inl e \<Rightarrow> Inl e
        | Inr noms \<Rightarrow>
            if (\<exists>n\<in>set noms. n \<in> {''all'', ''admin''}) \<and> 1 < length noms
            then hook_fail ''mcp server allowed groups cannot combine all or admin with other groups''
            else if (case existing of None \<Rightarrow> False
                     | Some ligne \<Rightarrow> active_text (active ''name'') \<noteq> Some (col_text (ligne ''name'')))
            then hook_fail ''mcp server name cannot change''
            else Inr (created_kept now existing active))"

definition mcp_servers_resource :: "int \<Rightarrow> resource" where
  "mcp_servers_resource now =
     \<lparr>resource_name = ''lymaille_mcp_servers'', read_policy = AdminOnly, write_policy = AdminOnly,
      owner_column = None, filter_column = Some ''auth_mode'', label_column = Some ''name'',
      columns = [''id'', ''name'', ''url'', ''request_timeout_secs'', ''connect_timeout_secs'',
        ''auth_mode'', ''auth_ref'', ''allowed_groups'', ''created_at''],
      primary_key = ''id'', column_default = (\<lambda>_. VText None),
      before_create = (\<lambda>active p. server_valider now active None),
      before_update = (\<lambda>active existing p. server_valider now active (Some existing)),
      before_delete = default_before_delete\<rparr>"

text \<open>\<open>McpClientConfig\<close> of the library: the url and the two timeouts in seconds.\<close>

record mcp_client_config =
  cc_url :: string
  cc_request_timeout :: nat
  cc_connect_timeout :: nat

definition client_config :: "mcp_server \<Rightarrow> mcp_client_config" where
  "client_config m =
     \<lparr>cc_url = ms_url m,
      cc_request_timeout = (if 0 \<le> ms_request_timeout_secs m then nat (ms_request_timeout_secs m) else 0),
      cc_connect_timeout = (if 0 \<le> ms_connect_timeout_secs m then nat (ms_connect_timeout_secs m) else 0)\<rparr>"

section \<open>Toolsets\<close>

definition default_render_cap_chars :: nat where "default_render_cap_chars = 8000"

fun check_skills :: "('ts, 'sk) toolset_lib \<Rightarrow> 'sk list \<Rightarrow> toolsets_error + unit" where
  "check_skills L [] = Inr ()"
| "check_skills L (s # ss) =
     (case check_size L s default_render_cap_chars of Inl e \<Rightarrow> Inl e | Inr _ \<Rightarrow>
      case check_template L (''skill '' @ sk_name L s @ '' description'') (sk_description L s) of
        Inl e \<Rightarrow> Inl e | Inr _ \<Rightarrow>
      case check_template L (''skill '' @ sk_name L s @ '' body'') (sk_body L s) of
        Inl e \<Rightarrow> Inl e | Inr _ \<Rightarrow> check_skills L ss)"

definition check_toolset :: "('ts, 'sk) toolset_lib \<Rightarrow> 'ts \<Rightarrow> toolsets_error + unit" where
  "check_toolset L ts =
     (case extract_contract L (ts_source L ts) of Inl e \<Rightarrow> Inl e
      | Inr _ \<Rightarrow> check_skills L (ts_skills L ts))"

definition toolset_charger :: "('ts, 'sk) toolset_lib \<Rightarrow> json \<Rightarrow> hook_error + 'ts" where
  "toolset_charger L brute =
     (case ts_of_json L brute of
        Inl cause \<Rightarrow> hook_fail (''invalid toolset: '' @ cause)
      | Inr ts \<Rightarrow>
          (case check_toolset L ts of
             Inl cause \<Rightarrow> hook_fail (''invalid toolset: '' @ ts_error_text L cause)
           | Inr _ \<Rightarrow> Inr ts))"

text \<open>
  The steps shared by the two tables of toolsets, which differ in the check of the identifier:
  at least one version, each one valid, both of the same name, the name unchanged on an update;
  the columns \<open>toolset_id\<close> and \<open>version\<close> come from the active version, else from the draft.
\<close>

definition toolset_steps ::
    "('ts, 'sk) toolset_lib \<Rightarrow> (string \<Rightarrow> hook_error + unit) \<Rightarrow> int \<Rightarrow> active_model \<Rightarrow> row option \<Rightarrow>
       hook_error + active_model" where
  "toolset_steps L verifier now active existing =
     (let brute_active = version_presents (active ''active'');
          brute_draft = version_presents (active ''draft'') in
      if brute_active = None \<and> brute_draft = None
      then hook_fail ''a toolset needs an active version or a draft''
      else case transpose_map (toolset_charger L) brute_active of Inl e \<Rightarrow> Inl e
      | Inr active_chargee \<Rightarrow>
      (case transpose_map (toolset_charger L) brute_draft of Inl e \<Rightarrow> Inl e
      | Inr draft_charge \<Rightarrow>
        if (case (active_chargee, draft_charge) of
              (Some a, Some d) \<Rightarrow> ts_name L a \<noteq> ts_name L d | _ \<Rightarrow> False)
        then hook_fail ''the active and draft versions must carry the same name''
        else case (case active_chargee of Some a \<Rightarrow> Some a | None \<Rightarrow> draft_charge) of
          None \<Rightarrow> hook_fail ''a toolset needs an active version or a draft''
        | Some reference \<Rightarrow>
          (case verifier (ts_name L reference) of Inl e \<Rightarrow> Inl e
           | Inr _ \<Rightarrow>
             if (case existing of None \<Rightarrow> False
                 | Some ligne \<Rightarrow> ts_name L reference \<noteq> col_text (ligne ''toolset_id''))
             then hook_fail ''toolset id cannot change''
             else Inr (created_once now existing
               (active(''toolset_id'' := set_text (ts_name L reference),
                       ''version'' := set_text (ts_version L reference)))))))"

definition catalog_toolset_identifiant :: "string \<Rightarrow> hook_error + unit" where
  "catalog_toolset_identifiant n =
     (if classify n = Inr Catalog_Id then Inr ()
      else hook_fail ''toolset id must start with G_ (catalog)'')"

definition catalog_toolset_valider ::
    "('ts, 'sk) toolset_lib \<Rightarrow> int \<Rightarrow> active_model \<Rightarrow> row option \<Rightarrow> hook_error + active_model" where
  "catalog_toolset_valider L = toolset_steps L catalog_toolset_identifiant"

definition catalog_toolsets_resource :: "('ts, 'sk) toolset_lib \<Rightarrow> int \<Rightarrow> resource" where
  "catalog_toolsets_resource L now =
     \<lparr>resource_name = ''lymaille_catalog_toolsets'', read_policy = Public, write_policy = AdminOnly,
      owner_column = None, filter_column = None, label_column = Some ''toolset_id'',
      columns = [''id'', ''toolset_id'', ''version'', ''active'', ''draft'', ''created_at''],
      primary_key = ''id'', column_default = (\<lambda>_. VText None),
      before_create = (\<lambda>active p. catalog_toolset_valider L now active None),
      before_update = (\<lambda>active existing p. catalog_toolset_valider L now active (Some existing)),
      before_delete = default_before_delete\<rparr>"

text \<open>The check of a private identifier, with the words of each resource.\<close>

definition verifier_prive :: "string \<Rightarrow> string \<Rightarrow> hook_error + unit" where
  "verifier_prive what i =
     (case classify i of
        Inr Private_Id \<Rightarrow> Inr ()
      | Inr Catalog_Id \<Rightarrow> hook_fail (what @ '' cannot use the catalog prefix'')
      | Inr Host_Id \<Rightarrow> hook_fail (what @ '' cannot use the host prefix'')
      | Inl (Lym_ReservedPrefix identifiant) \<Rightarrow>
          (if (case get_to identifiant 2 of None \<Rightarrow> False
               | Some prefix \<Rightarrow> eq_ignore_ascii_case prefix ''g_'')
           then hook_fail (what @ '' cannot use the catalog prefix'')
           else hook_fail (what @ '' cannot use the host prefix''))
      | Inl _ \<Rightarrow> hook_fail (''invalid '' @ what))"

definition private_toolset_identifiant :: "string \<Rightarrow> hook_error + unit" where
  "private_toolset_identifiant = verifier_prive ''toolset id''"

definition private_toolset_valider ::
    "('ts, 'sk) toolset_lib \<Rightarrow> int \<Rightarrow> active_model \<Rightarrow> row option \<Rightarrow> hook_error + active_model" where
  "private_toolset_valider L = toolset_steps L private_toolset_identifiant"

definition private_toolsets_resource :: "('ts, 'sk) toolset_lib \<Rightarrow> int \<Rightarrow> resource" where
  "private_toolsets_resource L now =
     \<lparr>resource_name = ''lymaille_toolsets'', read_policy = OwnerOnly, write_policy = OwnerOnly,
      owner_column = Some ''owner_id'', filter_column = None, label_column = Some ''toolset_id'',
      columns = [''id'', ''owner_id'', ''toolset_id'', ''version'', ''active'', ''draft'', ''created_at''],
      primary_key = ''id'', column_default = (\<lambda>_. VText None),
      before_create = (\<lambda>active p. private_toolset_valider L now active None),
      before_update = (\<lambda>active existing p. private_toolset_valider L now active (Some existing)),
      before_delete = default_before_delete\<rparr>"

section \<open>Agents, profiles and providers\<close>

definition agent_steps ::
    "('ag, 'pf, 'pv) agent_lib \<Rightarrow> (string \<Rightarrow> hook_error + unit) \<Rightarrow> int \<Rightarrow> active_model \<Rightarrow> row option \<Rightarrow>
       hook_error + active_model" where
  "agent_steps A verifier now active existing =
     (case object_column active ''definition'' of
        None \<Rightarrow> hook_fail ''agent definition is required''
      | Some brute \<Rightarrow>
          (case ag_of_json A brute of
             Inl cause \<Rightarrow> hook_fail (''invalid agent definition: '' @ cause)
           | Inr d \<Rightarrow>
          (case ag_validate A d of
             Inl cause \<Rightarrow> hook_fail (''invalid agent definition: '' @ cause)
           | Inr _ \<Rightarrow>
          (case verifier (ag_id A d) of
             Inl e \<Rightarrow> Inl e
           | Inr _ \<Rightarrow>
             if (case existing of None \<Rightarrow> False
                 | Some ligne \<Rightarrow> ag_id A d \<noteq> col_text (ligne ''agent_id''))
             then hook_fail ''agent id cannot change''
             else case ag_kind A d of
               Some (JString nature) \<Rightarrow>
                 Inr (created_kept now existing
                   (active(''agent_id'' := set_text (ag_id A d), ''kind'' := set_text nature,
                           ''profile'' := set_text (ag_profile A d))))
             | _ \<Rightarrow> hook_fail ''invalid agent definition''))))"

definition catalog_agent_identifiant :: "string \<Rightarrow> hook_error + unit" where
  "catalog_agent_identifiant n =
     (if classify n = Inr Catalog_Id then Inr ()
      else hook_fail ''agent id must start with G_ (catalog)'')"

definition catalog_agent_valider ::
    "('ag, 'pf, 'pv) agent_lib \<Rightarrow> int \<Rightarrow> active_model \<Rightarrow> row option \<Rightarrow> hook_error + active_model" where
  "catalog_agent_valider A = agent_steps A catalog_agent_identifiant"

definition catalog_agents_resource :: "('ag, 'pf, 'pv) agent_lib \<Rightarrow> int \<Rightarrow> resource" where
  "catalog_agents_resource A now =
     \<lparr>resource_name = ''lymaille_catalog_agents'', read_policy = Public, write_policy = AdminOnly,
      owner_column = None, filter_column = Some ''kind'', label_column = Some ''agent_id'',
      columns = [''id'', ''agent_id'', ''kind'', ''profile'', ''definition'', ''created_at''],
      primary_key = ''id'', column_default = (\<lambda>_. VText None),
      before_create = (\<lambda>active p. catalog_agent_valider A now active None),
      before_update = (\<lambda>active existing p. catalog_agent_valider A now active (Some existing)),
      before_delete = default_before_delete\<rparr>"

definition private_agent_identifiant :: "string \<Rightarrow> hook_error + unit" where
  "private_agent_identifiant = verifier_prive ''agent id''"

definition private_agent_valider ::
    "('ag, 'pf, 'pv) agent_lib \<Rightarrow> int \<Rightarrow> active_model \<Rightarrow> row option \<Rightarrow> hook_error + active_model" where
  "private_agent_valider A = agent_steps A private_agent_identifiant"

definition private_agents_resource :: "('ag, 'pf, 'pv) agent_lib \<Rightarrow> int \<Rightarrow> resource" where
  "private_agents_resource A now =
     \<lparr>resource_name = ''lymaille_agents'', read_policy = OwnerOnly, write_policy = OwnerOnly,
      owner_column = Some ''owner_id'', filter_column = Some ''kind'', label_column = Some ''agent_id'',
      columns = [''id'', ''owner_id'', ''agent_id'', ''kind'', ''profile'', ''definition'', ''created_at''],
      primary_key = ''id'', column_default = (\<lambda>_. VText None),
      before_create = (\<lambda>active p. private_agent_valider A now active None),
      before_update = (\<lambda>active existing p. private_agent_valider A now active (Some existing)),
      before_delete = default_before_delete\<rparr>"

definition profile_valider ::
    "('ag, 'pf, 'pv) agent_lib \<Rightarrow> int \<Rightarrow> active_model \<Rightarrow> row option \<Rightarrow> hook_error + active_model" where
  "profile_valider A now active existing =
     (case object_column active ''profile'' of
        None \<Rightarrow> hook_fail ''profile is required''
      | Some brute \<Rightarrow>
          (case pf_of_json A brute of
             Inl cause \<Rightarrow> hook_fail (''invalid profile: '' @ cause)
           | Inr profil \<Rightarrow>
             if is_blank (pf_name A profil) then hook_fail ''invalid profile: the name is empty''
             else if (case existing of None \<Rightarrow> False
                      | Some ligne \<Rightarrow> pf_name A profil \<noteq> col_text (ligne ''name''))
             then hook_fail ''profile name cannot change''
             else Inr (created_once now existing (active(''name'' := set_text (pf_name A profil))))))"

definition profiles_resource :: "('ag, 'pf, 'pv) agent_lib \<Rightarrow> int \<Rightarrow> resource" where
  "profiles_resource A now =
     \<lparr>resource_name = ''lymaille_profiles'', read_policy = Public, write_policy = AdminOnly,
      owner_column = None, filter_column = None, label_column = Some ''name'',
      columns = [''id'', ''name'', ''profile'', ''created_at''],
      primary_key = ''id'', column_default = (\<lambda>_. VText None),
      before_create = (\<lambda>active p. profile_valider A now active None),
      before_update = (\<lambda>active existing p. profile_valider A now active (Some existing)),
      before_delete = default_before_delete\<rparr>"

definition provider_valider ::
    "('ag, 'pf, 'pv) agent_lib \<Rightarrow> int \<Rightarrow> active_model \<Rightarrow> row option \<Rightarrow> hook_error + active_model" where
  "provider_valider A now active existing =
     (case object_column active ''provider'' of
        None \<Rightarrow> hook_fail ''provider is required''
      | Some brute \<Rightarrow>
          (case pv_of_json A brute of
             Inl _ \<Rightarrow> hook_fail ''invalid provider''
           | Inr moteur \<Rightarrow>
          (case pv_level A moteur of
             Some (JString niveau) \<Rightarrow>
               if (case existing of None \<Rightarrow> False
                   | Some ligne \<Rightarrow> pv_name A moteur \<noteq> col_text (ligne ''name''))
               then hook_fail ''provider name cannot change''
               else Inr (created_once now existing
                 (active(''name'' := set_text (pv_name A moteur), ''kind'' := set_text (pv_kind A moteur),
                         ''level'' := set_text niveau)))
           | _ \<Rightarrow> hook_fail ''invalid provider'')))"

definition providers_resource :: "('ag, 'pf, 'pv) agent_lib \<Rightarrow> int \<Rightarrow> resource" where
  "providers_resource A now =
     \<lparr>resource_name = ''lymaille_providers'', read_policy = AdminOnly, write_policy = AdminOnly,
      owner_column = None, filter_column = None, label_column = Some ''name'',
      columns = [''id'', ''name'', ''kind'', ''level'', ''provider'', ''created_at''],
      primary_key = ''id'', column_default = (\<lambda>_. VText None),
      before_create = (\<lambda>active p. provider_valider A now active None),
      before_update = (\<lambda>active existing p. provider_valider A now active (Some existing)),
      before_delete = default_before_delete\<rparr>"

section \<open>Context types and contexts\<close>

text \<open>\<open>champ_texte\<close>: a text field of the stored form, with the words of each resource.\<close>

definition champ_texte :: "string \<Rightarrow> json \<Rightarrow> string \<Rightarrow> hook_error + string" where
  "champ_texte what brute champ =
     (case Option.bind (json_get brute champ) as_str of
        Some s \<Rightarrow> Inr s
      | None \<Rightarrow> hook_fail (''invalid '' @ what @ '': no `'' @ champ @ ''` in the stored form''))"

definition type_charger :: "('ct, 'cx) context_lib \<Rightarrow> json \<Rightarrow> hook_error + 'ct" where
  "type_charger C brute =
     (case ct_of_json C brute of
        Inl cause \<Rightarrow> hook_fail (''invalid context type: '' @ cause) | Inr t \<Rightarrow> Inr t)"

definition liste_autorisee :: "active_model \<Rightarrow> hook_error + string list" where
  "liste_autorisee active =
     (case Option.bind (active_json (active ''allowed_agents'')) as_array of
        Some agents \<Rightarrow>
          if list_all (\<lambda>a. as_str a \<noteq> None) agents then Inr (List.map_filter as_str agents)
          else hook_fail ''context type allowed agents must be an array of agent names''
      | None \<Rightarrow> hook_fail ''context type allowed agents must be an array of agent names'')"

text \<open>The loop over the versions of a context type.\<close>

fun check_versions ::
    "('ct, 'cx) context_lib \<Rightarrow> string list \<Rightarrow> json list \<Rightarrow> hook_error + unit" where
  "check_versions C autorises [] = Inr ()"
| "check_versions C autorises (v # vs) =
     (case type_charger C v of Inl e \<Rightarrow> Inl e
      | Inr t \<Rightarrow>
          if (case ct_default_agent C t of None \<Rightarrow> False | Some d \<Rightarrow> d \<notin> set autorises)
          then hook_fail ''context type default agent must be in the allowed agents''
          else check_versions C autorises vs)"

definition option_list :: "'a option \<Rightarrow> 'a list" where
  "option_list x = (case x of None \<Rightarrow> [] | Some a \<Rightarrow> [a])"

definition context_type_valider ::
    "('ct, 'cx) context_lib \<Rightarrow> int \<Rightarrow> active_model \<Rightarrow> row option \<Rightarrow> hook_error + active_model" where
  "context_type_valider C now active existing =
     (let brute_active = version_presents (active ''active'');
          brute_draft = version_presents (active ''draft'') in
      case (case brute_active of Some a \<Rightarrow> Some a | None \<Rightarrow> brute_draft) of
        None \<Rightarrow> hook_fail ''a context type needs an active version or a draft''
      | Some brute \<Rightarrow>
      (case liste_autorisee active of Inl e \<Rightarrow> Inl e
       | Inr autorises \<Rightarrow>
      (case champ_texte ''context type'' brute ''name'' of Inl e \<Rightarrow> Inl e
       | Inr name \<Rightarrow>
         if classify name \<noteq> Inr Catalog_Id
         then hook_fail ''context type name must start with G_ (catalog)''
         else case check_versions C autorises (option_list brute_active @ option_list brute_draft) of
           Inl e \<Rightarrow> Inl e
         | Inr _ \<Rightarrow>
         (case champ_texte ''context type'' brute ''version'' of Inl e \<Rightarrow> Inl e
          | Inr version \<Rightarrow>
            if (case existing of None \<Rightarrow> False | Some ligne \<Rightarrow> name \<noteq> col_text (ligne ''name''))
            then hook_fail ''context type name cannot change''
            else Inr (created_once now existing
              (active(''name'' := set_text name, ''version'' := set_text version)))))))"

definition context_types_resource :: "('ct, 'cx) context_lib \<Rightarrow> int \<Rightarrow> resource" where
  "context_types_resource C now =
     \<lparr>resource_name = ''lymaille_catalog_context_types'', read_policy = Public, write_policy = AdminOnly,
      owner_column = None, filter_column = None, label_column = Some ''name'',
      columns = [''id'', ''name'', ''version'', ''allowed_agents'', ''active'', ''draft'', ''created_at''],
      primary_key = ''id'', column_default = (\<lambda>_. VText None),
      before_create = (\<lambda>active p. context_type_valider C now active None),
      before_update = (\<lambda>active existing p. context_type_valider C now active (Some existing)),
      before_delete = default_before_delete\<rparr>"

definition context_charger ::
    "('ct, 'cx) context_lib \<Rightarrow> string \<Rightarrow> json \<Rightarrow> hook_error + unit" where
  "context_charger C what brute =
     (case cx_of_json C brute of
        Inr _ \<Rightarrow> Inr ()
      | Inl cause \<Rightarrow>
          if contains_sub ''looks like a secret'' cause
          then hook_fail (what @ '' holds a secret-like value'')
          else hook_fail (''invalid '' @ what @ '': '' @ cause))"

text \<open>
  The steps of the two tables of contexts, with the words (\<open>what\<close>), the level, its refusal and
  the check of the name of each.
\<close>

definition context_steps ::
    "('ct, 'cx) context_lib \<Rightarrow> string \<Rightarrow> string \<Rightarrow> string \<Rightarrow> (string \<Rightarrow> hook_error + unit) \<Rightarrow> int \<Rightarrow>
       active_model \<Rightarrow> row option \<Rightarrow> hook_error + active_model" where
  "context_steps C what niveau refus verifier now active existing =
     (case object_column active ''context'' of
        None \<Rightarrow> hook_fail (what @ '' is required'')
      | Some brute \<Rightarrow>
      (case context_charger C what brute of Inl e \<Rightarrow> Inl e
       | Inr _ \<Rightarrow>
      (case champ_texte what brute ''level'' of Inl e \<Rightarrow> Inl e
       | Inr level \<Rightarrow>
         if level \<noteq> niveau then hook_fail refus
         else case champ_texte what brute ''name'' of Inl e \<Rightarrow> Inl e
         | Inr name \<Rightarrow>
         (case verifier name of Inl e \<Rightarrow> Inl e
          | Inr _ \<Rightarrow>
            if (case existing of None \<Rightarrow> False | Some ligne \<Rightarrow> name \<noteq> col_text (ligne ''name''))
            then hook_fail (what @ '' name cannot change'')
            else if (case active_text (active ''context_type'') of None \<Rightarrow> False
                     | Some reference \<Rightarrow> classify reference \<noteq> Inr Private_Id)
            then hook_fail (what @ '' type reference is not a valid name'')
            else Inr (created_kept now existing (active(''name'' := set_text name)))))))"

definition catalog_context_nom :: "string \<Rightarrow> hook_error + unit" where
  "catalog_context_nom n =
     (if classify n = Inr Catalog_Id then Inr ()
      else hook_fail ''catalog context name must start with G_ (catalog)'')"

definition catalog_context_valider ::
    "('ct, 'cx) context_lib \<Rightarrow> int \<Rightarrow> active_model \<Rightarrow> row option \<Rightarrow> hook_error + active_model" where
  "catalog_context_valider C =
     context_steps C ''catalog context'' ''shared'' ''catalog contexts have level shared'' catalog_context_nom"

definition catalog_contexts_resource :: "('ct, 'cx) context_lib \<Rightarrow> int \<Rightarrow> resource" where
  "catalog_contexts_resource C now =
     \<lparr>resource_name = ''lymaille_catalog_contexts'', read_policy = Public, write_policy = AdminOnly,
      owner_column = None, filter_column = None, label_column = Some ''name'',
      columns = [''id'', ''name'', ''context'', ''context_type'', ''created_at''],
      primary_key = ''id'', column_default = (\<lambda>_. VText None),
      before_create = (\<lambda>active p. catalog_context_valider C now active None),
      before_update = (\<lambda>active existing p. catalog_context_valider C now active (Some existing)),
      before_delete = default_before_delete\<rparr>"

definition user_context_nom :: "string \<Rightarrow> hook_error + unit" where
  "user_context_nom = verifier_prive ''user context name''"

definition user_context_valider ::
    "('ct, 'cx) context_lib \<Rightarrow> int \<Rightarrow> active_model \<Rightarrow> row option \<Rightarrow> hook_error + active_model" where
  "user_context_valider C =
     context_steps C ''user context'' ''user'' ''user contexts have level user'' user_context_nom"

definition user_contexts_resource :: "('ct, 'cx) context_lib \<Rightarrow> int \<Rightarrow> resource" where
  "user_contexts_resource C now =
     \<lparr>resource_name = ''lymaille_contexts'', read_policy = OwnerOnly, write_policy = OwnerOnly,
      owner_column = Some ''owner_id'', filter_column = None, label_column = Some ''name'',
      columns = [''id'', ''owner_id'', ''name'', ''context'', ''context_type'', ''created_at''],
      primary_key = ''id'', column_default = (\<lambda>_. VText None),
      before_create = (\<lambda>active p. user_context_valider C now active None),
      before_update = (\<lambda>active existing p. user_context_valider C now active (Some existing)),
      before_delete = default_before_delete\<rparr>"

section \<open>Checked resources\<close>

text \<open>
  The columns the hooks decide: not the key, which the database generates, nor the owner, which
  the access engine sets. A row is stored as an active model says when its other columns have the
  values that are set there.
\<close>

definition all_set :: "resource \<Rightarrow> active_model \<Rightarrow> bool" where
  "all_set E a \<longleftrightarrow> (\<forall>c\<in>set (columns E). \<exists>v. a c = Set v)"

definition stored_as :: "resource \<Rightarrow> active_model \<Rightarrow> row \<Rightarrow> bool" where
  "stored_as E a r \<longleftrightarrow>
     (\<forall>c\<in>set (columns E). c \<noteq> primary_key E \<and> owner_column E \<noteq> Some c \<longrightarrow> a c = Set (r c))"

lemma all_set_body: "all_set E (mark_all_set E (into_active_model body))"
  by (auto simp: all_set_def mark_all_set_def into_active_model_def)

lemma stored_as_inserted: "all_set E a \<Longrightarrow> stored_as E a (inserted_row E (stamp_new E u a) t)"
  by (fastforce simp: all_set_def stored_as_def inserted_row_def stamp_new_def split: option.split)

lemma stored_as_updated: "all_set E a \<Longrightarrow> stored_as E a (updated_row E (stamp_existing E i old a) r)"
  by (fastforce simp: all_set_def stored_as_def updated_row_def stamp_existing_def split: option.split)

lemma keeps_lifted:
  "(\<And>x. r = Inr x \<Longrightarrow> act_keeps P (f x)) \<Longrightarrow> act_keeps P (and_then (map_err g (lift_result r)) f)"
  by (cases r) (simp_all add: and_then_def map_err_def lift_result_def act_keeps_def)

text \<open>
  A resource whose hooks refuse every body that would be stored as a row without the property
  \<open>P\<close>. Whoever writes through the generic CRUD, on whatever world, then stores rows with \<open>P\<close> only.
\<close>

locale checked_resource =
  fixes E :: resource and P :: "row \<Rightarrow> bool"
  assumes create_sets: "before_create E a p = Inr a' \<Longrightarrow> all_set E a \<Longrightarrow> all_set E a'"
    and create_checks: "before_create E a p = Inr a' \<Longrightarrow> stored_as E a' r \<Longrightarrow> P r"
    and update_sets: "before_update E a old p = Inr a' \<Longrightarrow> all_set E a \<Longrightarrow> all_set E a'"
    and update_checks: "before_update E a old p = Inr a' \<Longrightarrow> stored_as E a' r \<Longrightarrow> P r"
begin

definition rows_ok :: "row tables \<Rightarrow> bool" where
  "rows_ok t \<longleftrightarrow> list_all P (rows t)"

lemma inserted_ok:
  assumes "before_create E (mark_all_set E (into_active_model body)) p = Inr a"
    and "insert_row E (stamp_new E u a) t = Inr (r, t')"
  shows "P r \<and> rows t' = rows t @ [r]"
proof -
  have "r = inserted_row E (stamp_new E u a) t" "rows t' = rows t @ [r]"
    using assms(2) by (auto simp: insert_row_def Let_def split: if_splits)
  moreover have "all_set E a" by (rule create_sets [OF assms(1) all_set_body])
  ultimately show ?thesis using create_checks [OF assms(1)] stored_as_inserted by blast
qed

lemma updated_ok:
  assumes "before_update E (mark_all_set E (into_active_model body)) old p = Inr a"
    and "update_row E (stamp_existing E i old a) t = Inr (r, t')"
  shows "P r \<and> (\<forall>x\<in>set (rows t'). x \<in> set (rows t) \<or> P x)"
proof -
  have "all_set E a" by (rule update_sets [OF assms(1) all_set_body])
  then have p: "P (updated_row E (stamp_existing E i old a) x)" for x
    using update_checks [OF assms(1)] stored_as_updated by blast
  then show ?thesis
    using assms(2) by (auto simp: update_row_def split: option.splits)
qed

lemma create_returns_ok:
  assumes "rest_create E p body w = (Inr r, w')"
  shows "P r"
  using assms inserted_ok
  by (auto simp: rest_create_eq act_inv statement_Inr_iff split: if_splits)

lemma update_returns_ok:
  assumes "rest_update E p i body w = (Inr r, w')"
  shows "P r"
  using assms updated_ok
  by (auto simp: rest_update_eq act_inv statement_Inr_iff split: if_splits)

lemma keeps_rows_ok:
  "act_keeps rows_ok (rest_create E p body) \<and> act_keeps rows_ok (rest_update E p i body) \<and>
   act_keeps rows_ok (rest_delete E p i)"
proof (intro conjI)
  have user: "act_keeps rows_ok (resolve_principal p)"
    unfolding resolve_principal_def resolve_user_def
    by (auto intro!: keeps keeps_statement split: option.splits dest!: keeps_insert_user_rows
        simp: rows_ok_def list_all_iff)
  have ins: "act_keeps rows_ok (map_err Rest_Database (statement (insert_row E (stamp_new E u a))))"
    if "before_create E (mark_all_set E (into_active_model body)) p = Inr a" for u a
    by (intro keeps_map_err keeps_statement) (use inserted_ok [OF that] in \<open>fastforce simp: rows_ok_def list_all_iff\<close>)
  show "act_keeps rows_ok (rest_create E p body)"
    unfolding rest_create_eq by (auto intro!: keeps(1-8) keeps_can_create user keeps_lifted ins)
  have upd: "act_keeps rows_ok (map_err update_error (statement (update_row E (stamp_existing E i old a))))"
    if "before_update E (mark_all_set E (into_active_model body)) old p = Inr a" for old a
    by (intro keeps_map_err keeps_statement) (use updated_ok [OF that] in \<open>fastforce simp: rows_ok_def list_all_iff\<close>)
  have upd2: "act_keeps rows_ok (and_then (map_err Application
        (lift_result (before_update E (mark_all_set E (into_active_model body)) old p)))
      (\<lambda>a. map_err update_error (statement (update_row E (stamp_existing E i old a)))))" for old
    by (rule keeps_lifted) (rule upd)
  show "act_keeps rows_ok (rest_update E p i body)"
    unfolding rest_update_eq
    by (intro keeps_and_then user writing.load_keeps upd2)
  have del: "act_keeps rows_ok (statement (delete_row E i))"
    by (rule keeps_statement) (auto simp: delete_row_def Let_def rows_ok_def list_all_iff)
  show "act_keeps rows_ok (rest_delete E p i)"
    unfolding rest_delete_def by (auto intro!: keeps user writing.load_keeps del)
qed

end

section \<open>What the hooks let through\<close>

subsection \<open>MCP servers\<close>

definition group_names :: "json \<Rightarrow> string list option" where
  "group_names j =
     (case as_array j of None \<Rightarrow> None
      | Some gs \<Rightarrow> if \<exists>g\<in>set gs. as_str g = None then None else Some (List.map_filter as_str gs))"

text \<open>A server the host can use: its authentication is complete and its access list is one.\<close>

definition wf_mcp_server :: "mcp_server \<Rightarrow> bool" where
  "wf_mcp_server m \<longleftrightarrow>
     est_identifiant (ms_name m) \<and> schema_est_http (ms_url m) \<and>
     1 \<le> ms_request_timeout_secs m \<and> ms_request_timeout_secs m \<le> 600 \<and>
     1 \<le> ms_connect_timeout_secs m \<and> ms_connect_timeout_secs m \<le> 60 \<and>
     ms_auth_mode m \<in> {''none'', ''static'', ''forward''} \<and>
     (ms_auth_mode m = ''static'' \<longleftrightarrow> ms_auth_ref m \<noteq> None) \<and> ms_auth_ref m \<noteq> Some [] \<and>
     (case group_names (ms_allowed_groups m) of None \<Rightarrow> False
      | Some noms \<Rightarrow> noms \<noteq> [] \<and> list_all est_groupe noms \<and>
          (''all'' \<in> set noms \<or> ''admin'' \<in> set noms \<longrightarrow> length noms = 1))"

lemma active_Set [simp]:
  "active_text (Set v) = (case v of VText s \<Rightarrow> s | _ \<Rightarrow> None)"
  "active_int (Set v) = (case v of VInt i \<Rightarrow> i | _ \<Rightarrow> None)"
  "active_json (Set v) = (case v of VJson j \<Rightarrow> j | _ \<Rightarrow> None)"
  by (simp_all add: active_text_def active_int_def active_json_def split: db_value.split)

lemma active_Set_Some:
  "active_text (Set v) = Some s \<longleftrightarrow> v = VText (Some s)"
  "active_int (Set v) = Some i \<longleftrightarrow> v = VInt (Some i)"
  "active_json (Set v) = Some j \<longleftrightarrow> v = VJson (Some j)"
  by (auto split: db_value.splits)

lemma hook_fail_not_Inr [simp]: "hook_fail s \<noteq> Inr x"
  by (simp add: hook_fail_def)

text \<open>Inversion of a chain of checks that has let a body through.\<close>

lemma hook_if_Inr: "(if b then hook_fail s else x) = Inr y \<longleftrightarrow> \<not> b \<and> x = Inr y"
  by simp

lemma hook_case_Inr:
  "(case s of Inl e \<Rightarrow> Inl e | Inr x \<Rightarrow> f x) = Inr y \<longleftrightarrow> (\<exists>x. s = Inr x \<and> f x = Inr y)"
  "(case s of Inl e \<Rightarrow> hook_fail (g e) | Inr x \<Rightarrow> f x) = Inr y \<longleftrightarrow> (\<exists>x. s = Inr x \<and> f x = Inr y)"
  by (auto split: sum.split)

lemma hook_option_Inr:
  "(case x of None \<Rightarrow> hook_fail s | Some a \<Rightarrow> f a) = Inr y \<longleftrightarrow> (\<exists>a. x = Some a \<and> f a = Inr y)"
  by (auto split: option.split)

lemma some_test: "(case x of None \<Rightarrow> False | Some a \<Rightarrow> P a) \<longleftrightarrow> (\<exists>a. x = Some a \<and> P a)"
  by (auto split: option.split)

lemmas hook_inv = hook_if_Inr hook_case_Inr hook_option_Inr some_test

lemma created_kept_sets: "all_set E a \<Longrightarrow> all_set E (created_kept now ex a)"
  by (auto simp: all_set_def created_kept_def split: option.split)

lemma created_once_sets: "all_set E a \<Longrightarrow> all_set E (created_once now ex a)"
  by (auto simp: all_set_def created_once_def)

lemma all_set_upd: "all_set E a \<Longrightarrow> all_set E (a(c := set_text s))"
  by (auto simp: all_set_def set_text_def)

lemma created_other [simp]:
  "c \<noteq> ''created_at'' \<Longrightarrow> created_kept now ex a c = a c"
  "c \<noteq> ''created_at'' \<Longrightarrow> created_once now ex a c = a c"
  by (auto simp: created_kept_def created_once_def split: option.split)

lemma server_valider_Inr:
  assumes "server_valider now a ex = Inr a'"
  shows "\<exists>n. active_text (a ''name'') = Some n \<and> est_identifiant n"
    and "\<exists>u. active_text (a ''url'') = Some u \<and> schema_est_http u"
    and "\<exists>d. active_int (a ''request_timeout_secs'') = Some d \<and> 1 \<le> d \<and> d \<le> 600"
    and "\<exists>d. active_int (a ''connect_timeout_secs'') = Some d \<and> 1 \<le> d \<and> d \<le> 60"
    and "\<exists>mode. active_text (a ''auth_mode'') = Some mode \<and> mode \<in> {''none'', ''static'', ''forward''} \<and>
       (mode = ''static'' \<longleftrightarrow> active_text (a ''auth_ref'') \<noteq> None) \<and>
       active_text (a ''auth_ref'') \<noteq> Some []"
    and "\<exists>noms. server_groupes (a ''allowed_groups'') = Inr noms \<and>
       ((\<exists>n\<in>set noms. n \<in> {''all'', ''admin''}) \<longrightarrow> \<not> 1 < length noms)"
    and "a' = created_kept now ex a"
proof -
  let ?mode = "case active_text (a ''auth_mode'') of None \<Rightarrow> [] | Some m \<Rightarrow> m"
  from assms have m: "?mode \<in> {''none'', ''static'', ''forward''}"
    "\<not> (?mode = ''static'' \<and> (case active_text (a ''auth_ref'') of None \<Rightarrow> True | Some r \<Rightarrow> r = []))"
    "\<not> (?mode \<in> {''none'', ''forward''} \<and> active_text (a ''auth_ref'') \<noteq> None)"
    unfolding server_valider_def Let_def hook_inv not_not by blast+
  from m(1) obtain mode where mode: "active_text (a ''auth_mode'') = Some mode"
    by (cases "active_text (a ''auth_mode'')") auto
  have mode3: "mode \<in> {''none'', ''static'', ''forward''}" using m(1) mode by simp
  have ref: "(mode = ''static'' \<longleftrightarrow> active_text (a ''auth_ref'') \<noteq> None) \<and> active_text (a ''auth_ref'') \<noteq> Some []"
    using m(2,3) mode mode3 by (cases "active_text (a ''auth_ref'')") auto
  show "\<exists>mode. active_text (a ''auth_mode'') = Some mode \<and> mode \<in> {''none'', ''static'', ''forward''} \<and>
       (mode = ''static'' \<longleftrightarrow> active_text (a ''auth_ref'') \<noteq> None) \<and>
       active_text (a ''auth_ref'') \<noteq> Some []"
    using mode mode3 ref by blast
  from assms show "\<exists>n. active_text (a ''name'') = Some n \<and> est_identifiant n"
    "\<exists>u. active_text (a ''url'') = Some u \<and> schema_est_http u"
    "\<exists>d. active_int (a ''request_timeout_secs'') = Some d \<and> 1 \<le> d \<and> d \<le> 600"
    "\<exists>d. active_int (a ''connect_timeout_secs'') = Some d \<and> 1 \<le> d \<and> d \<le> 60"
    unfolding server_valider_def Let_def hook_inv not_not by blast+
  from assms have g: "\<exists>noms. server_groupes (a ''allowed_groups'') = Inr noms \<and>
      \<not> ((\<exists>n\<in>set noms. n \<in> {''all'', ''admin''}) \<and> 1 < length noms) \<and>
      Inr (created_kept now ex a) = (Inr a' :: hook_error + active_model)"
    unfolding server_valider_def Let_def hook_inv not_not by blast
  then show "a' = created_kept now ex a" by (elim exE conjE) (simp only: sum.inject)
  from g show "\<exists>noms. server_groupes (a ''allowed_groups'') = Inr noms \<and>
       ((\<exists>n\<in>set noms. n \<in> {''all'', ''admin''}) \<longrightarrow> \<not> 1 < length noms)"
    by (elim exE conjE) (rule exI, rule conjI, assumption, simp only: de_Morgan_conj imp_conv_disj)
qed

lemma server_groupes_Inr:
  "server_groupes v = Inr noms \<Longrightarrow>
     (\<exists>j. active_json v = Some j \<and> group_names j = Some noms) \<and> noms \<noteq> [] \<and> list_all est_groupe noms"
  by (cases "active_json v"; simp add: server_groupes_def hook_inv Let_def)
     (force simp: group_names_def split: if_splits)

lemma server_stored_wf:
  assumes v: "server_valider now a ex = Inr a'" and s: "stored_as (mcp_servers_resource now) a' r"
  shows "wf_mcp_server (mcp_server_of_row r)"
proof -
  note h = server_valider_Inr [OF v]
  have cols: "a c = Set (r c)" if "c \<in> {''name'', ''url'', ''request_timeout_secs'',
      ''connect_timeout_secs'', ''auth_mode'', ''auth_ref'', ''allowed_groups''}" for c
    using s that by (auto simp: stored_as_def h(7) mcp_servers_resource_def)
  from h(1) obtain n where n: "r ''name'' = VText (Some n)" "est_identifiant n"
    by (auto simp only: cols insert_iff simp_thms active_Set_Some)
  from h(2) obtain u where u: "r ''url'' = VText (Some u)" "schema_est_http u"
    by (auto simp only: cols insert_iff simp_thms active_Set_Some)
  from h(3) obtain d where d: "r ''request_timeout_secs'' = VInt (Some d)" "1 \<le> d" "d \<le> 600"
    by (auto simp only: cols insert_iff simp_thms active_Set_Some)
  from h(4) obtain e where e: "r ''connect_timeout_secs'' = VInt (Some e)" "1 \<le> e" "e \<le> 60"
    by (auto simp only: cols insert_iff simp_thms active_Set_Some)
  have ref: "col_opt_text (r ''auth_ref'') = active_text (a ''auth_ref'')"
    by (simp add: cols split: db_value.split)
  from h(5) obtain mode where mode: "r ''auth_mode'' = VText (Some mode)"
      "mode \<in> {''none'', ''static'', ''forward''}"
      "mode = ''static'' \<longleftrightarrow> col_opt_text (r ''auth_ref'') \<noteq> None" "col_opt_text (r ''auth_ref'') \<noteq> Some []"
    unfolding ref by (auto simp only: cols insert_iff simp_thms active_Set_Some)
  from h(6) obtain noms where g: "server_groupes (a ''allowed_groups'') = Inr noms"
      "(\<exists>n\<in>set noms. n \<in> {''all'', ''admin''}) \<longrightarrow> \<not> 1 < length noms"
    by blast
  obtain j where j: "active_json (a ''allowed_groups'') = Some j" "group_names j = Some noms"
      "noms \<noteq> []" "list_all est_groupe noms"
    using server_groupes_Inr [OF g(1)] by blast
  have jr: "r ''allowed_groups'' = VJson (Some j)"
    using j(1) by (simp only: cols insert_iff simp_thms active_Set_Some)
  have len: "''all'' \<in> set noms \<or> ''admin'' \<in> set noms \<longrightarrow> length noms = 1"
    using g(2) j(3) by (cases noms) auto
  show ?thesis
    unfolding wf_mcp_server_def mcp_server_of_row_def mcp_server.simps
    using n u d e mode j(2-4) jr len by (simp only: col_text.simps row_int.simps col_json.simps
        option.case simp_thms)
qed

interpretation servers: checked_resource "mcp_servers_resource now" "\<lambda>r. wf_mcp_server (mcp_server_of_row r)"
  for now
proof unfold_locales
  fix a p a' r old
  show "before_create (mcp_servers_resource now) a p = Inr a' \<Longrightarrow>
      stored_as (mcp_servers_resource now) a' r \<Longrightarrow> wf_mcp_server (mcp_server_of_row r)"
    using server_stored_wf by (simp add: mcp_servers_resource_def)
  show "before_update (mcp_servers_resource now) a old p = Inr a' \<Longrightarrow>
      stored_as (mcp_servers_resource now) a' r \<Longrightarrow> wf_mcp_server (mcp_server_of_row r)"
    using server_stored_wf by (simp add: mcp_servers_resource_def)
qed (auto simp: mcp_servers_resource_def created_kept_sets dest!: server_valider_Inr)

subsection \<open>Toolsets\<close>

definition stored_version :: "row \<Rightarrow> string \<Rightarrow> json option" where
  "stored_version r c = (case col_json (r c) of Some j \<Rightarrow> if j \<noteq> JNull then Some j else None | None \<Rightarrow> None)"

text \<open>
  A row of toolsets whose name is of the kind of its table, both of whose versions load, pass
  \<open>check_toolset\<close> and carry that name.
\<close>

definition toolset_row_ok :: "('ts, 'sk) toolset_lib \<Rightarrow> id_kind \<Rightarrow> row \<Rightarrow> bool" where
  "toolset_row_ok L kind r \<longleftrightarrow>
     classify (col_text (r ''toolset_id'')) = Inr kind \<and>
     (stored_version r ''active'' \<noteq> None \<or> stored_version r ''draft'' \<noteq> None) \<and>
     (\<forall>c\<in>{''active'', ''draft''}. \<forall>j. stored_version r c = Some j \<longrightarrow>
        (\<exists>ts. ts_of_json L j = Inr ts \<and> check_toolset L ts = Inr () \<and>
           ts_name L ts = col_text (r ''toolset_id'')))"

lemma toolset_charger_Inr:
  "toolset_charger L j = Inr ts \<Longrightarrow> ts_of_json L j = Inr ts \<and> check_toolset L ts = Inr ()"
  by (auto simp: toolset_charger_def split: sum.splits)

lemma version_presents_Set: "version_presents (Set (r c)) = stored_version r c"
  by (simp add: version_presents_def stored_version_def split: db_value.split option.split)

lemma transpose_map_Inr:
  "transpose_map f x = Inr y \<longleftrightarrow> (case x of None \<Rightarrow> y = None | Some a \<Rightarrow> \<exists>b. f a = Inr b \<and> y = Some b)"
  by (auto simp: transpose_map_def split: option.splits sum.splits)

lemma toolset_steps_Inr:
  assumes "toolset_steps L verifier now a ex = Inr a'"
  shows "\<exists>n v. a' = created_once now ex (a(''toolset_id'' := set_text n, ''version'' := set_text v)) \<and>
    verifier n = Inr () \<and>
    (version_presents (a ''active'') \<noteq> None \<or> version_presents (a ''draft'') \<noteq> None) \<and>
    (\<forall>c\<in>{''active'', ''draft''}. \<forall>j. version_presents (a c) = Some j \<longrightarrow>
       (\<exists>ts. ts_of_json L j = Inr ts \<and> check_toolset L ts = Inr () \<and> ts_name L ts = n))"
  using assms
  by (auto simp: toolset_steps_def Let_def transpose_map_Inr dest!: toolset_charger_Inr
      split: if_splits option.splits sum.splits)

lemma verifier_prive_Inr: "verifier_prive what n = Inr x \<longleftrightarrow> classify n = Inr Private_Id"
  by (auto simp: verifier_prive_def split: sum.splits id_kind.splits lymaille_error.splits option.splits)

lemma toolset_stored_ok:
  assumes v: "toolset_steps L verifier now a ex = Inr a'" and s: "stored_as E a' r"
    and cols: "{''toolset_id'', ''version'', ''active'', ''draft''} \<subseteq> set (columns E)"
      "primary_key E = ''id''" "owner_column E \<in> {None, Some ''owner_id''}"
    and kind: "\<And>n. verifier n = Inr () \<Longrightarrow> classify n = Inr kind"
  shows "toolset_row_ok L kind r"
proof -
  from toolset_steps_Inr [OF v] obtain n v where
    a': "a' = created_once now ex (a(''toolset_id'' := set_text n, ''version'' := set_text v))"
    and n: "verifier n = Inr ()"
    and vs: "version_presents (a ''active'') \<noteq> None \<or> version_presents (a ''draft'') \<noteq> None"
    "\<forall>c\<in>{''active'', ''draft''}. \<forall>j. version_presents (a c) = Some j \<longrightarrow>
       (\<exists>ts. ts_of_json L j = Inr ts \<and> check_toolset L ts = Inr () \<and> ts_name L ts = n)"
    by blast
  have set_as: "a' c = Set (r c)" if "c \<in> {''toolset_id'', ''version'', ''active'', ''draft''}" for c
    using s cols that by (auto simp: stored_as_def)
  have "r ''toolset_id'' = VText (Some n)"
    using set_as [of "''toolset_id''"] by (simp add: a' set_text_def)
  moreover have "a c = Set (r c)" if "c \<in> {''active'', ''draft''}" for c
    using set_as [of c] that by (auto simp: a')
  then have "version_presents (a c) = stored_version r c" if "c \<in> {''active'', ''draft''}" for c
    using that version_presents_Set by metis
  ultimately show ?thesis
    using vs kind [OF n] by (simp add: toolset_row_ok_def)
qed

lemma toolset_steps_sets:
  "toolset_steps L verifier now a ex = Inr a' \<Longrightarrow> all_set E a \<Longrightarrow> all_set E a'"
  by (auto dest!: toolset_steps_Inr intro!: created_once_sets all_set_upd)

lemma catalog_toolset_identifiant_Inr: "catalog_toolset_identifiant n = Inr () \<Longrightarrow> classify n = Inr Catalog_Id"
  by (simp add: catalog_toolset_identifiant_def split: if_splits)

interpretation catalog_toolsets:
  checked_resource "catalog_toolsets_resource L now" "toolset_row_ok L Catalog_Id" for L now
  by unfold_locales
    (auto simp: catalog_toolsets_resource_def catalog_toolset_valider_def
      intro: toolset_steps_sets toolset_stored_ok [OF _ _ _ _ _ catalog_toolset_identifiant_Inr])

interpretation private_toolsets:
  checked_resource "private_toolsets_resource L now" "toolset_row_ok L Private_Id" for L now
  by unfold_locales
    (auto simp: private_toolsets_resource_def private_toolset_valider_def
      private_toolset_identifiant_def verifier_prive_Inr
      intro: toolset_steps_sets elim!: toolset_stored_ok)

subsection \<open>Context types and contexts\<close>

definition context_type_row_ok :: "('ct, 'cx) context_lib \<Rightarrow> row \<Rightarrow> bool" where
  "context_type_row_ok C r \<longleftrightarrow>
     classify (col_text (r ''name'')) = Inr Catalog_Id \<and>
     (stored_version r ''active'' \<noteq> None \<or> stored_version r ''draft'' \<noteq> None) \<and>
     (\<forall>c\<in>{''active'', ''draft''}. \<forall>j. stored_version r c = Some j \<longrightarrow>
        (\<exists>t. ct_of_json C j = Inr t \<and>
           (\<forall>d. ct_default_agent C t = Some d \<longrightarrow>
              (\<exists>noms. r ''allowed_agents'' = VJson (Some (JArray noms)) \<and> JString d \<in> set noms))))"

definition context_row_ok :: "('ct, 'cx) context_lib \<Rightarrow> id_kind \<Rightarrow> string \<Rightarrow> row \<Rightarrow> bool" where
  "context_row_ok C kind niveau r \<longleftrightarrow>
     classify (col_text (r ''name'')) = Inr kind \<and>
     (\<exists>j cx. r ''context'' = VJson (Some j) \<and> cx_of_json C j = Inr cx \<and>
        json_get j ''level'' = Some (JString niveau) \<and> json_get j ''name'' = Some (JString (col_text (r ''name'')))) \<and>
     (\<forall>n. col_opt_text (r ''context_type'') = Some n \<longrightarrow> classify n = Inr Private_Id)"

lemma check_versions_Inr:
  "check_versions C autorises vs = Inr x \<Longrightarrow> v \<in> set vs \<Longrightarrow>
     \<exists>t. ct_of_json C v = Inr t \<and> (\<forall>d. ct_default_agent C t = Some d \<longrightarrow> d \<in> set autorises)"
  by (induction vs) (auto simp: type_charger_def split: sum.splits if_splits option.splits)

lemma liste_autorisee_Inr:
  "liste_autorisee a = Inr autorises \<Longrightarrow>
     \<exists>noms. active_json (a ''allowed_agents'') = Some (JArray noms) \<and> (\<forall>d\<in>set autorises. JString d \<in> set noms)"
proof -
  assume l: "liste_autorisee a = Inr autorises"
  obtain j where j: "active_json (a ''allowed_agents'') = Some j"
    using l by (cases "active_json (a ''allowed_agents'')") (auto simp: liste_autorisee_def)
  then obtain noms where "j = JArray noms"
    using l by (cases j) (auto simp: liste_autorisee_def)
  with l j show ?thesis
    by (auto simp: liste_autorisee_def set_map_filter as_str_Some split: if_splits)
qed

lemma champ_texte_Inr:
  "champ_texte what v c = Inr s \<longleftrightarrow> json_get v c = Some (JString s)"
  by (auto simp: champ_texte_def bind_eq_Some_conv as_str_Some split: option.splits)

lemma context_type_valider_Inr:
  assumes "context_type_valider C now a ex = Inr a'"
  shows "\<exists>n v. a' = created_once now ex (a(''name'' := set_text n, ''version'' := set_text v)) \<and>
      classify n = Inr Catalog_Id"
    and "version_presents (a ''active'') \<noteq> None \<or> version_presents (a ''draft'') \<noteq> None"
    and "\<exists>noms. active_json (a ''allowed_agents'') = Some (JArray noms) \<and>
      (\<forall>c\<in>{''active'', ''draft''}. \<forall>j. version_presents (a c) = Some j \<longrightarrow>
        (\<exists>t. ct_of_json C j = Inr t \<and> (\<forall>d. ct_default_agent C t = Some d \<longrightarrow> JString d \<in> set noms)))"
proof -
  obtain autorises name version brute u where
    h: "liste_autorisee a = Inr autorises" "classify name = Inr Catalog_Id"
      "check_versions C autorises (option_list (version_presents (a ''active'')) @
         option_list (version_presents (a ''draft''))) = Inr u"
      "created_once now ex (a(''name'' := set_text name, ''version'' := set_text version)) = a'"
    and b: "(case version_presents (a ''active'') of Some x \<Rightarrow> Some x | None \<Rightarrow> version_presents (a ''draft'')) = Some brute"
    using assms unfolding context_type_valider_def Let_def hook_inv not_not sum.inject by blast
  from h show "\<exists>n v. a' = created_once now ex (a(''name'' := set_text n, ''version'' := set_text v)) \<and>
      classify n = Inr Catalog_Id" by blast
  from b show "version_presents (a ''active'') \<noteq> None \<or> version_presents (a ''draft'') \<noteq> None"
    by (auto split: option.splits)
  obtain noms where n: "active_json (a ''allowed_agents'') = Some (JArray noms)"
      "\<forall>d\<in>set autorises. JString d \<in> set noms"
    using liste_autorisee_Inr [OF h(1)] by blast
  have "\<exists>t. ct_of_json C j = Inr t \<and> (\<forall>d. ct_default_agent C t = Some d \<longrightarrow> JString d \<in> set noms)"
    if "c \<in> {''active'', ''draft''}" "version_presents (a c) = Some j" for c j
  proof -
    have "j \<in> set (option_list (version_presents (a ''active'')) @ option_list (version_presents (a ''draft'')))"
      using that by (auto simp: option_list_def)
    then show ?thesis using check_versions_Inr [OF h(3)] n(2) by blast
  qed
  with n(1) show "\<exists>noms. active_json (a ''allowed_agents'') = Some (JArray noms) \<and>
      (\<forall>c\<in>{''active'', ''draft''}. \<forall>j. version_presents (a c) = Some j \<longrightarrow>
        (\<exists>t. ct_of_json C j = Inr t \<and> (\<forall>d. ct_default_agent C t = Some d \<longrightarrow> JString d \<in> set noms)))"
    by blast
qed

lemma context_type_stored_ok:
  assumes v: "context_type_valider C now a ex = Inr a'" and s: "stored_as (context_types_resource C now') a' r"
  shows "context_type_row_ok C r"
proof -
  note h = context_type_valider_Inr [OF v]
  from h(1) obtain n v' where a': "a' = created_once now ex (a(''name'' := set_text n, ''version'' := set_text v'))"
    and n: "classify n = Inr Catalog_Id" by blast
  have set_as: "a' c = Set (r c)" if "c \<in> {''name'', ''version'', ''active'', ''draft'', ''allowed_agents''}" for c
    using s that by (auto simp: stored_as_def context_types_resource_def)
  have nm: "r ''name'' = VText (Some n)"
    using set_as [of "''name''"] by (simp add: a' set_text_def)
  have same: "a c = Set (r c)" if "c \<in> {''active'', ''draft'', ''allowed_agents''}" for c
    using set_as [of c] that by (auto simp: a')
  then have ver: "version_presents (a c) = stored_version r c" if "c \<in> {''active'', ''draft''}" for c
    using that version_presents_Set by (metis insert_iff)
  from h(3) obtain noms where agents: "active_json (a ''allowed_agents'') = Some (JArray noms)"
    and t: "\<forall>c\<in>{''active'', ''draft''}. \<forall>j. version_presents (a c) = Some j \<longrightarrow>
        (\<exists>t. ct_of_json C j = Inr t \<and> (\<forall>d. ct_default_agent C t = Some d \<longrightarrow> JString d \<in> set noms))"
    by blast
  have "r ''allowed_agents'' = VJson (Some (JArray noms))"
    using agents same [of "''allowed_agents''"] by (simp add: active_Set_Some del: active_Set)
  with h(2) t nm n ver show ?thesis
    unfolding context_type_row_ok_def by simp
qed

lemma context_steps_Inr:
  assumes "context_steps C what niveau refus verifier now a ex = Inr a'"
  shows "\<exists>n. a' = created_kept now ex (a(''name'' := set_text n)) \<and> verifier n = Inr () \<and>
    (\<exists>j cx. active_json (a ''context'') = Some j \<and> cx_of_json C j = Inr cx \<and>
       json_get j ''level'' = Some (JString niveau) \<and> json_get j ''name'' = Some (JString n)) \<and>
    (\<forall>t. active_text (a ''context_type'') = Some t \<longrightarrow> classify t = Inr Private_Id)"
proof -
  obtain brute level name u v where
    h: "object_column a ''context'' = Some brute" "context_charger C what brute = Inr u"
      "champ_texte what brute ''level'' = Inr level" "level = niveau"
      "champ_texte what brute ''name'' = Inr name" "verifier name = Inr v"
      "\<not> (\<exists>n. active_text (a ''context_type'') = Some n \<and> classify n \<noteq> Inr Private_Id)"
      "created_kept now ex (a(''name'' := set_text name)) = a'"
    using assms unfolding context_steps_def hook_inv not_not sum.inject by blast
  have "active_json (a ''context'') = Some brute"
    using h(1) by (auto simp: object_column_def split: option.splits if_splits)
  moreover have "\<exists>cx. cx_of_json C brute = Inr cx"
    using h(2) by (auto simp: context_charger_def split: sum.splits if_splits)
  ultimately show ?thesis using h by (auto simp: champ_texte_Inr)
qed

lemma context_stored_ok:
  assumes v: "context_steps C what niveau refus verifier now a ex = Inr a'" and s: "stored_as E a' r"
    and cols: "{''name'', ''context'', ''context_type''} \<subseteq> set (columns E)"
      "primary_key E = ''id''" "owner_column E \<in> {None, Some ''owner_id''}"
    and kind: "\<And>n. verifier n = Inr () \<Longrightarrow> classify n = Inr kind"
  shows "context_row_ok C kind niveau r"
proof -
  from context_steps_Inr [OF v] obtain n j cx where
    a': "a' = created_kept now ex (a(''name'' := set_text n))" and n: "verifier n = Inr ()"
    and j: "active_json (a ''context'') = Some j" "cx_of_json C j = Inr cx"
      "json_get j ''level'' = Some (JString niveau)" "json_get j ''name'' = Some (JString n)"
    and t: "\<forall>t. active_text (a ''context_type'') = Some t \<longrightarrow> classify t = Inr Private_Id"
    by blast
  have set_as: "a' c = Set (r c)" if "c \<in> {''name'', ''context'', ''context_type''}" for c
    using s cols that by (auto simp: stored_as_def)
  have nm: "r ''name'' = VText (Some n)"
    using set_as [of "''name''"] by (simp add: a' set_text_def)
  have same: "a c = Set (r c)" if "c \<in> {''context'', ''context_type''}" for c
    using set_as [of c] that by (auto simp: a')
  have "r ''context'' = VJson (Some j)"
    using j(1) same [of "''context''"] by (simp add: active_Set_Some del: active_Set)
  moreover have "col_opt_text (r ''context_type'') = active_text (a ''context_type'')"
    using same [of "''context_type''"] by (simp split: db_value.split)
  ultimately show ?thesis
    using nm j t kind [OF n] by (simp add: context_row_ok_def)
qed

lemma context_steps_sets:
  "context_steps C what niveau refus verifier now a ex = Inr a' \<Longrightarrow> all_set E a \<Longrightarrow> all_set E a'"
  using context_steps_Inr created_kept_sets all_set_upd by (metis (no_types, lifting))

lemma context_type_sets: "context_type_valider C now a ex = Inr a' \<Longrightarrow> all_set E a \<Longrightarrow> all_set E a'"
  by (auto dest!: context_type_valider_Inr(1) intro!: created_once_sets all_set_upd)

lemma catalog_context_nom_Inr: "catalog_context_nom n = Inr () \<Longrightarrow> classify n = Inr Catalog_Id"
  by (simp add: catalog_context_nom_def split: if_splits)

interpretation context_types: checked_resource "context_types_resource C now" "context_type_row_ok C" for C now
proof unfold_locales
  fix a p a' r old
  show "before_create (context_types_resource C now) a p = Inr a' \<Longrightarrow>
      stored_as (context_types_resource C now) a' r \<Longrightarrow> context_type_row_ok C r"
    using context_type_stored_ok by (simp add: context_types_resource_def)
  show "before_update (context_types_resource C now) a old p = Inr a' \<Longrightarrow>
      stored_as (context_types_resource C now) a' r \<Longrightarrow> context_type_row_ok C r"
    using context_type_stored_ok by (simp add: context_types_resource_def)
qed (auto simp: context_types_resource_def intro: context_type_sets)

interpretation catalog_contexts:
  checked_resource "catalog_contexts_resource C now" "context_row_ok C Catalog_Id ''shared''" for C now
  by unfold_locales
    (auto simp: catalog_contexts_resource_def catalog_context_valider_def
      intro: context_steps_sets context_stored_ok [OF _ _ _ _ _ catalog_context_nom_Inr])

interpretation user_contexts:
  checked_resource "user_contexts_resource C now" "context_row_ok C Private_Id ''user''" for C now
  by unfold_locales
    (auto simp: user_contexts_resource_def user_context_valider_def user_context_nom_def verifier_prive_Inr
      intro: context_steps_sets elim!: context_stored_ok)

section \<open>Properties\<close>

definition ana :: auth_principal where
  "ana = \<lparr>subject = ''ana'', email = None, preferred_username = None, source = ApiToken 1\<rparr>"

lemma demo_admin_create:
  assumes "before_create E (mark_all_set E (into_active_model body)) ana = Inr active"
    and "owner_column E \<noteq> Some (primary_key E)"
  shows "\<exists>w2. rest_create E ana body (demo_world []) =
    (Inr (inserted_row E (stamp_new E (demo_user 1) active) (demo_tables [])), w2)"
proof -
  let ?w = "demo_world [] :: row tables world"
  have q: "quiet ?w" by simp
  have user: "resolve_principal ana ?w = (Inr (demo_user 1), ?w)"
    by (simp add: resolve_principal_def map_err_def user_goc.present_quiet ana_def find_user_def
        demo_tables_def demo_user_def)
  have wf: "wf_rows E (tabs ?w)" by (simp add: wf_rows_def demo_tables_def)
  have "admin (demo_user 1) (demo_tables ([] :: row list))"
    by (simp add: admin_def in_group_def find_group_def find_membership_def demo_tables_def
        admin_group_name_def)
  then have allowed: "create_allowed E (demo_user 1) (tabs ?w)"
    by (cases "write_policy E") (auto simp: create_allowed_def)
  show ?thesis
    using rest_create_ok [OF q user wf assms(2) allowed assms(1)] by auto
qed

text \<open>
  C38: A server that the generic CRUD has stored or updated, on any world, is one the host can use: its
  name, url, timeouts and access list are well formed, \<open>build_auth\<close> cannot fail for lack of a
  secret reference (only \<open>forward\<close> without a session is refused), and the client has timeouts
  between one second and the bounds.
\<close>

theorem stored_server_usable:
  assumes "rest_create (mcp_servers_resource now) p body w = (Inr r, w') \<or>
    rest_update (mcp_servers_resource now) p i body w = (Inr r, w')"
  shows "wf_mcp_server (mcp_server_of_row r) \<and>
    (case build_auth (mcp_server_of_row r) resolver token of
       Inr _ \<Rightarrow> True
     | Inl e \<Rightarrow> e = Lym_Forbidden forward_needs_session \<and> token = None \<and>
         ms_auth_mode (mcp_server_of_row r) = ''forward'') \<and>
    cc_request_timeout (client_config (mcp_server_of_row r)) \<in> {1..600} \<and>
    cc_connect_timeout (client_config (mcp_server_of_row r)) \<in> {1..60}"
proof -
  have wf: "wf_mcp_server (mcp_server_of_row r)"
    using assms servers.create_returns_ok servers.update_returns_ok by blast
  then have "ms_auth_mode (mcp_server_of_row r) = ''static'' \<longleftrightarrow> ms_auth_ref (mcp_server_of_row r) \<noteq> None"
    unfolding wf_mcp_server_def by blast
  then have "case build_auth (mcp_server_of_row r) resolver token of Inr _ \<Rightarrow> True
     | Inl e \<Rightarrow> e = Lym_Forbidden forward_needs_session \<and> token = None \<and>
         ms_auth_mode (mcp_server_of_row r) = ''forward''"
    by (auto simp: build_auth_def auth_mode_def split: option.split)
  with wf show ?thesis
    by (auto simp: client_config_def wf_mcp_server_def)
qed

definition demo_server_body :: row where
  "demo_server_body =
     (\<lambda>_. VText None)(''name'' := VText (Some ''s''), ''url'' := VText (Some ''http://h''),
        ''request_timeout_secs'' := VInt (Some 30), ''connect_timeout_secs'' := VInt (Some 5),
        ''auth_mode'' := VText (Some ''static''), ''auth_ref'' := VText (Some ''KEY''),
        ''allowed_groups'' := VJson (Some (JArray [JString ''all''])))"

lemma demo_server_hook:
  "\<exists>a. before_create (mcp_servers_resource 5)
     (mark_all_set (mcp_servers_resource 5) (into_active_model demo_server_body)) ana = Inr a"
proof -
  define a0 where "a0 = mark_all_set (mcp_servers_resource 5) (into_active_model demo_server_body)"
  have f: "a0 ''name'' = Set (VText (Some ''s''))" "a0 ''url'' = Set (VText (Some ''http://h''))"
    "a0 ''request_timeout_secs'' = Set (VInt (Some 30))" "a0 ''connect_timeout_secs'' = Set (VInt (Some 5))"
    "a0 ''auth_mode'' = Set (VText (Some ''static''))" "a0 ''auth_ref'' = Set (VText (Some ''KEY''))"
    "a0 ''allowed_groups'' = Set (VJson (Some (JArray [JString ''all''])))"
    by (simp_all add: a0_def mark_all_set_def into_active_model_def demo_server_body_def mcp_servers_resource_def)
  have u: "schema_est_http ''http://h''" "est_identifiant ''s''" "est_groupe ''all''" by code_simp+
  have "server_groupes (a0 ''allowed_groups'') = Inr [''all'']"
    using u(3) by (simp add: server_groupes_def f map_filter_simps)
  then have "server_valider 5 a0 None = Inr (created_kept 5 None a0)"
    using u by (simp add: server_valider_def f)
  then show ?thesis unfolding a0_def [symmetric] by (simp add: mcp_servers_resource_def)
qed

theorem stored_server_usable_witness:
  "\<exists>r w'. rest_create (mcp_servers_resource 5) ana demo_server_body (demo_world []) = (Inr r, w') \<and>
     wf_mcp_server (mcp_server_of_row r)"
proof -
  have o: "owner_column (mcp_servers_resource 5) \<noteq> Some (primary_key (mcp_servers_resource 5))"
    by (simp add: mcp_servers_resource_def)
  obtain r w' where "rest_create (mcp_servers_resource 5) ana demo_server_body (demo_world []) = (Inr r, w')"
    using demo_server_hook demo_admin_create [OF _ o] by blast
  with stored_server_usable [OF disjI1, OF this] show ?thesis by blast
qed

text \<open>
  Whatever the requests, their failures and the other sessions that do the same, the tables of
  toolsets hold only rows whose two versions load, pass \<open>check_toolset\<close> and carry the name of the
  row, a catalog name in the catalog and a private one in the users' table.
\<close>

theorem toolset_tables_stay_valid:
  "act_keeps (\<lambda>t. list_all (toolset_row_ok L Catalog_Id) (rows t))
     (rest_create (catalog_toolsets_resource L now) p body) \<and>
   act_keeps (\<lambda>t. list_all (toolset_row_ok L Catalog_Id) (rows t))
     (rest_update (catalog_toolsets_resource L now) p i body) \<and>
   act_keeps (\<lambda>t. list_all (toolset_row_ok L Private_Id) (rows t))
     (rest_create (private_toolsets_resource L now) p body) \<and>
   act_keeps (\<lambda>t. list_all (toolset_row_ok L Private_Id) (rows t))
     (rest_update (private_toolsets_resource L now) p i body)"
  using catalog_toolsets.keeps_rows_ok [unfolded catalog_toolsets.rows_ok_def [abs_def]]
    private_toolsets.keeps_rows_ok [unfolded private_toolsets.rows_ok_def [abs_def]]
  by blast

text \<open>
  Acontext that the hooks accept, of the catalog or of a user, never refers to a context type
  that the hooks accept: the reference must be an identifier without prefix, the name of a type
  must start with \<open>G_\<close>. The opening of a session on such a context cannot find its type.
\<close>

theorem context_reference_never_names_a_type:
  assumes "rest_create (catalog_contexts_resource C now) p body w = (Inr ctx, w') \<or>
      rest_create (user_contexts_resource C now) p body w = (Inr ctx, w')"
    and "rest_create (context_types_resource C now') p' body' v = (Inr ty, v')"
    and "col_opt_text (ctx ''context_type'') = Some n"
  shows "n \<noteq> col_text (ty ''name'')"
proof -
  have "context_row_ok C Catalog_Id ''shared'' ctx \<or> context_row_ok C Private_Id ''user'' ctx"
    using assms(1) catalog_contexts.create_returns_ok user_contexts.create_returns_ok by blast
  with assms(3) have "classify n = Inr Private_Id" by (auto simp: context_row_ok_def)
  moreover have "classify (col_text (ty ''name'')) = Inr Catalog_Id"
    using context_types.create_returns_ok [OF assms(2)] by (simp add: context_type_row_ok_def)
  ultimately show ?thesis by auto
qed

definition demo_context_lib :: "(unit, unit) context_lib" where
  "demo_context_lib =
     \<lparr>ct_of_json = (\<lambda>j. Inr ()), ct_to_json = (\<lambda>t. Some (JObject [])), ct_default_agent = (\<lambda>t. None),
      cx_of_json = (\<lambda>j. Inr ()), cx_to_json = (\<lambda>t. Some (JObject []))\<rparr>"

definition demo_context_body :: row where
  "demo_context_body =
     (\<lambda>_. VText None)(''context'' := VJson (Some (JObject [(''name'', JString ''G_c''), (''level'', JString ''shared'')])),
        ''context_type'' := VText (Some ''t''))"

definition demo_type_body :: row where
  "demo_type_body =
     (\<lambda>_. VText None)(''active'' := VJson (Some (JObject [(''name'', JString ''G_t''), (''version'', JString ''1'')])),
        ''draft'' := VJson None, ''allowed_agents'' := VJson (Some (JArray [])))"

theorem context_reference_never_names_a_type_witness:
  "\<exists>ctx ty w' v'. rest_create (catalog_contexts_resource demo_context_lib 5) ana demo_context_body
       (demo_world []) = (Inr ctx, w') \<and>
     rest_create (context_types_resource demo_context_lib 5) ana demo_type_body (demo_world []) = (Inr ty, v') \<and>
     col_opt_text (ctx ''context_type'') = Some ''t'' \<and> ''t'' \<noteq> col_text (ty ''name'')"
proof -
  let ?E = "catalog_contexts_resource demo_context_lib 5"
  let ?T = "context_types_resource demo_context_lib 5"
  have k: "classify ''G_c'' = Inr Catalog_Id" "classify ''G_t'' = Inr Catalog_Id" "classify ''t'' = Inr Private_Id"
    by code_simp+
  have o: "owner_column ?E \<noteq> Some (primary_key ?E)" "owner_column ?T \<noteq> Some (primary_key ?T)"
    by (simp_all add: catalog_contexts_resource_def context_types_resource_def)
  obtain a where a: "before_create ?E (mark_all_set ?E (into_active_model demo_context_body)) ana = Inr a"
      "a ''context_type'' = Set (VText (Some ''t''))"
    by (simp add: catalog_contexts_resource_def catalog_context_valider_def context_steps_def
        mark_all_set_def into_active_model_def demo_context_body_def object_column_def
        context_charger_def demo_context_lib_def champ_texte_def json_get_def catalog_context_nom_def k)
  obtain b where b: "before_create ?T (mark_all_set ?T (into_active_model demo_type_body)) ana = Inr b"
    by (simp add: context_types_resource_def context_type_valider_def Let_def
        mark_all_set_def into_active_model_def demo_type_body_def version_presents_def option_list_def
        liste_autorisee_def map_filter_simps type_charger_def demo_context_lib_def champ_texte_def json_get_def k)
  obtain w' where c: "rest_create ?E ana demo_context_body (demo_world []) =
      (Inr (inserted_row ?E (stamp_new ?E (demo_user 1) a) (demo_tables [])), w')"
    using demo_admin_create [OF a(1) o(1)] by blast
  obtain ty v' where t: "rest_create ?T ana demo_type_body (demo_world []) = (Inr ty, v')"
    using demo_admin_create [OF b o(2)] by blast
  have n: "col_opt_text (inserted_row ?E (stamp_new ?E (demo_user 1) a) (demo_tables []) ''context_type'') = Some ''t''"
    using a(2) by (simp add: inserted_row_def stamp_new_def catalog_contexts_resource_def)
  show ?thesis
    using c t n context_reference_never_names_a_type [OF disjI1 [OF c] t n] by blast
qed

end
