(* ===== verification/Toolset_Store.thy ===== *)
theory Toolset_Store
  imports Lymaille_Definitions
begin

text \<open>
  The stores of toolsets, context types, contexts and drafts (\<open>lymaille/store/toolset.rs\<close>,
  \<open>store/draft.rs\<close>) and the promotion of a draft (\<open>interactive/activation.rs\<close>). A store works for
  one subject, resolved at each call; the identifier decides the table. The versions of a
  toolset are the JSON columns \<open>active\<close> and \<open>draft\<close> of its row.
\<close>

section \<open>Common parts\<close>

definition catalog_toolsets_table :: string where
  "catalog_toolsets_table = ''miryad_lymaille_catalog_toolsets''"
definition private_toolsets_table :: string where
  "private_toolsets_table = ''miryad_lymaille_toolsets''"
definition catalog_context_types_table :: string where
  "catalog_context_types_table = ''miryad_lymaille_catalog_context_types''"
definition catalog_contexts_table :: string where
  "catalog_contexts_table = ''miryad_lymaille_catalog_contexts''"
definition user_contexts_table :: string where
  "user_contexts_table = ''miryad_lymaille_user_contexts''"

definition deny :: "lymaille_error \<Rightarrow> toolsets_error" where
  "deny e = Ts_Store (lymaille_error_text e)"

abbreviation ts_store_error :: "db_texts \<Rightarrow> dberr \<Rightarrow> toolsets_error" where
  "ts_store_error tx e \<equiv> Ts_Store (db_text tx e)"

definition stored_field :: "json \<Rightarrow> string \<Rightarrow> string \<Rightarrow> toolsets_error + string" where
  "stored_field v field what =
     (case Option.bind (json_get v field) as_str of
        Some s \<Rightarrow> Inr s | None \<Rightarrow> Inl (Ts_Store (''stored '' @ what @ '' carries no '' @ field)))"

definition store_principal ::
    "db_texts \<Rightarrow> string \<Rightarrow> ('m tables world, toolsets_error, caller_principal) act" where
  "store_principal tx sub = map_err deny (resolve_caller tx sub)"

definition require_admin ::
    "db_texts \<Rightarrow> string \<Rightarrow> string \<Rightarrow> ('m tables world, toolsets_error, unit) act" where
  "require_admin tx sub what =
     and_then (store_principal tx sub) (\<lambda>caller.
       if cp_is_admin caller then return_ok ()
       else fail_with (deny (Lym_Forbidden (what @ '' requires admin''))))"

definition first_json ::
    "string \<Rightarrow> sql_cond list \<Rightarrow> string \<Rightarrow> (sql_world, dberr, json option) act" where
  "first_json table conds column =
     select (\<lambda>t. Option.bind (sql_first table conds t) (\<lambda>r. col_json (r column)))"

section \<open>Toolsets\<close>

definition toolset_table :: "id_kind \<Rightarrow> string" where
  "toolset_table kind = (if kind = Catalog_Id then catalog_toolsets_table else private_toolsets_table)"

definition read_version ::
    "db_texts \<Rightarrow> ('ts, 'sk) toolset_lib \<Rightarrow> string \<Rightarrow> string \<Rightarrow> string \<Rightarrow>
       (sql_world, toolsets_error, 'ts option) act" where
  "read_version tx L sub name column =
     (case classify name of
        Inl _ \<Rightarrow> return_ok None
      | Inr kind \<Rightarrow>
          if kind = Host_Id then return_ok None
          else and_then (store_principal tx sub) (\<lambda>caller.
            let conds = (if kind = Catalog_Id then [Col_Eq ''toolset_id'' (VText (Some name))]
                  else [Col_Eq ''owner_id'' (VInt (Some (cp_user_id caller))),
                        Col_Eq ''toolset_id'' (VText (Some name))]) in
            and_then (map_err (ts_store_error tx) (first_json (toolset_table kind) conds column))
              (\<lambda>stored. case stored of None \<Rightarrow> return_ok None
               | Some v \<Rightarrow> (case ts_of_json L v of
                     Inl _ \<Rightarrow> fail_with (Ts_Store (''stored toolset '' @ name @ '' is unreadable''))
                   | Inr ts \<Rightarrow> return_ok (Some ts)))))"

definition get_active ::
    "db_texts \<Rightarrow> ('ts, 'sk) toolset_lib \<Rightarrow> string \<Rightarrow> string \<Rightarrow> (sql_world, toolsets_error, 'ts option) act" where
  "get_active tx L sub name = read_version tx L sub name ''active''"

definition get_draft ::
    "db_texts \<Rightarrow> ('ts, 'sk) toolset_lib \<Rightarrow> string \<Rightarrow> string \<Rightarrow> (sql_world, toolsets_error, 'ts option) act" where
  "get_draft tx L sub name = read_version tx L sub name ''draft''"

text \<open>
  \<open>write_draft\<close>: with an active version only the column \<open>draft\<close> is updated; else the row is
  inserted or its \<open>version\<close> and \<open>draft\<close> are overwritten.
\<close>

definition write_draft ::
    "db_texts \<Rightarrow> ('ts, 'sk) toolset_lib \<Rightarrow> 'ts \<Rightarrow> id_kind \<Rightarrow> caller_principal \<Rightarrow>
       (sql_world, toolsets_error, unit) act" where
  "write_draft tx L toolset kind caller =
     (case ts_to_json L toolset of
        None \<Rightarrow> fail_with (Ts_Store ''toolset could not be serialized'')
      | Some v \<Rightarrow>
          if kind = Host_Id
          then fail_with (deny (Lym_Forbidden ''host identifiers are not writable''))
          else
            let keyvals = (if kind = Catalog_Id then [(''toolset_id'', VText (Some (ts_name L toolset)))]
                  else [(''owner_id'', VInt (Some (cp_user_id caller))),
                        (''toolset_id'', VText (Some (ts_name L toolset)))]);
                conds = map (\<lambda>(c, x). Col_Eq c x) keyvals;
                table = toolset_table kind in
            and_then (map_err (ts_store_error tx) (first_json table conds ''active'')) (\<lambda>active_present.
              if active_present \<noteq> None
              then map_err (ts_store_error tx)
                (and_then (statement (sql_update table [(''draft'', VJson (Some v))] conds))
                  (\<lambda>_. return_ok ()))
              else and_then utc_now (\<lambda>now.
                map_err (ts_store_error tx)
                  (statement (sql_upsert table
                    (keyvals @ [(''version'', VText (Some (ts_version L toolset))),
                       (''draft'', VJson (Some v)), (''created_at'', VInt (Some now))])
                    (map fst keyvals) [''version'', ''draft''])))))"

definition put_draft ::
    "db_texts \<Rightarrow> ('ts, 'sk) toolset_lib \<Rightarrow> string \<Rightarrow> 'ts \<Rightarrow> (sql_world, toolsets_error, unit) act" where
  "put_draft tx L sub toolset =
     and_then (lift_result (check_toolset L toolset)) (\<lambda>_.
     and_then (store_principal tx sub) (\<lambda>caller.
     and_then (map_err deny (lift_result (check_write caller (ts_name L toolset)))) (\<lambda>kind.
     write_draft tx L toolset kind caller)))"

section \<open>Context types and contexts\<close>

definition get_type ::
    "db_texts \<Rightarrow> ('ct, 'cx) context_lib \<Rightarrow> string \<Rightarrow> (sql_world, toolsets_error, 'ct option) act" where
  "get_type tx C name =
     and_then (map_err (ts_store_error tx)
         (first_json catalog_context_types_table [Col_Eq ''name'' (VText (Some name))] ''active''))
       (\<lambda>stored. case stored of None \<Rightarrow> return_ok None
        | Some v \<Rightarrow> (case ct_of_json C v of
              Inl _ \<Rightarrow> fail_with (Ts_Store (''stored context type '' @ name @ '' is unreadable''))
            | Inr t \<Rightarrow> return_ok (Some t)))"

definition put_type ::
    "db_texts \<Rightarrow> ('ct, 'cx) context_lib \<Rightarrow> string \<Rightarrow> 'ct \<Rightarrow> (sql_world, toolsets_error, unit) act" where
  "put_type tx C sub context_type =
     and_then (require_admin tx sub ''context type write'') (\<lambda>_.
     case ct_to_json C context_type of
       None \<Rightarrow> fail_with (Ts_Store ''context type could not be serialized'')
     | Some v \<Rightarrow>
         and_then (lift_result (stored_field v ''name'' ''context type'')) (\<lambda>name.
         and_then (lift_result (stored_field v ''version'' ''context type'')) (\<lambda>version.
         case ct_of_json C v of
           Inl _ \<Rightarrow> fail_with (Ts_InvalidContextType name ''the stored form does not read back'')
         | Inr _ \<Rightarrow>
             and_then utc_now (\<lambda>now.
             map_err (ts_store_error tx)
               (statement (sql_upsert catalog_context_types_table
                 [(''name'', VText (Some name)), (''version'', VText (Some version)),
                  (''allowed_agents'', VJson (Some (JArray []))), (''active'', VJson (Some v)),
                  (''draft'', VJson None), (''created_at'', VInt (Some now))]
                 [''name''] [''active'', ''version'']))))))"

definition host_context ::
    "db_texts \<Rightarrow> (sql_row, 'cx) lymaille_host option \<Rightarrow> string \<Rightarrow> string \<Rightarrow>
       (sql_world, toolsets_error, 'cx option) act" where
  "host_context tx host sub name =
     (case host of
        None \<Rightarrow> return_ok None
      | Some h \<Rightarrow> and_then (store_principal tx sub) (\<lambda>caller.
          on_error (lh_resolve_context h name caller) (\<lambda>_. return_ok None)))"

definition get_context ::
    "db_texts \<Rightarrow> ('ct, 'cx) context_lib \<Rightarrow> (sql_row, 'cx) lymaille_host option \<Rightarrow> string \<Rightarrow> string \<Rightarrow>
       (sql_world, toolsets_error, 'cx option) act" where
  "get_context tx C host sub name =
     (case classify name of
        Inl _ \<Rightarrow> return_ok None
      | Inr Host_Id \<Rightarrow> host_context tx host sub name
      | Inr kind \<Rightarrow>
          and_then
            (if kind = Catalog_Id
             then return_ok (catalog_contexts_table, [Col_Eq ''name'' (VText (Some name))])
             else and_then (store_principal tx sub) (\<lambda>caller.
               return_ok (user_contexts_table, [Col_Eq ''owner_id'' (VInt (Some (cp_user_id caller))),
                 Col_Eq ''name'' (VText (Some name))])))
            (\<lambda>(table, conds).
          and_then (map_err (ts_store_error tx) (first_json table conds ''context''))
            (\<lambda>stored. case stored of None \<Rightarrow> return_ok None
             | Some v \<Rightarrow> (case cx_of_json C v of
                   Inl _ \<Rightarrow> fail_with (Ts_Store (''stored toolset context '' @ name @ '' is unreadable''))
                 | Inr cx \<Rightarrow> return_ok (Some cx)))))"

text \<open>The loop of \<open>put_context\<close> over the values of the roles.\<close>

fun check_roles ::
    "db_texts \<Rightarrow> caller_principal \<Rightarrow> string \<Rightarrow> json list \<Rightarrow> (sql_world, toolsets_error, unit) act" where
  "check_roles tx caller name [] = return_ok ()"
| "check_roles tx caller name (v # vs) =
     (case as_str v of
        None \<Rightarrow> fail_with (Ts_Store (''toolset context '' @ name @
          '' binds a role to a value that is not a server name''))
      | Some reference \<Rightarrow>
          and_then (map_err deny (server_for tx caller reference)) (\<lambda>_.
          check_roles tx caller name vs))"

definition put_context ::
    "db_texts \<Rightarrow> ('ct, 'cx) context_lib \<Rightarrow> string \<Rightarrow> 'cx \<Rightarrow> (sql_world, toolsets_error, unit) act" where
  "put_context tx C sub context =
     (case cx_to_json C context of
        None \<Rightarrow> fail_with (Ts_Store ''toolset context could not be serialized'')
      | Some v \<Rightarrow>
          and_then (lift_result (stored_field v ''name'' ''toolset context'')) (\<lambda>name.
          and_then (store_principal tx sub) (\<lambda>caller.
          and_then (map_err deny (lift_result (check_write caller name))) (\<lambda>kind.
          and_then
            (case Option.bind (json_get v ''roles'') as_object of
               None \<Rightarrow> return_ok () | Some roles \<Rightarrow> check_roles tx caller name (map snd roles)) (\<lambda>_.
          case kind of
            Host_Id \<Rightarrow> fail_with (deny (Lym_Forbidden ''host identifiers are not writable''))
          | Catalog_Id \<Rightarrow> and_then utc_now (\<lambda>now. map_err (ts_store_error tx)
              (statement (sql_upsert catalog_contexts_table
                [(''name'', VText (Some name)), (''context'', VJson (Some v)), (''created_at'', VInt (Some now))]
                [''name''] [''context''])))
          | Private_Id \<Rightarrow> and_then utc_now (\<lambda>now. map_err (ts_store_error tx)
              (statement (sql_upsert user_contexts_table
                [(''owner_id'', VInt (Some (cp_user_id caller))), (''name'', VText (Some name)),
                 (''context'', VJson (Some v)), (''created_at'', VInt (Some now))]
                [''owner_id'', ''name''] [''context'']))))))))"

section \<open>Drafts\<close>

datatype draft_kind = Draft_Toolset | Draft_ContextType | Draft_Other string

definition stored_name :: "json \<Rightarrow> string \<Rightarrow> toolsets_error + string" where
  "stored_name v what = stored_field v ''name'' what"

definition stored_version_text :: "json \<Rightarrow> string \<Rightarrow> toolsets_error + string" where
  "stored_version_text v what = stored_field v ''version'' what"

definition names_with_draft ::
    "db_texts \<Rightarrow> string \<Rightarrow> string \<Rightarrow> sql_cond list \<Rightarrow> (sql_world, toolsets_error, string list) act" where
  "names_with_draft tx table name_column conds =
     map_err (ts_store_error tx)
       (select (\<lambda>t. map (\<lambda>r. col_text (r name_column)) (rows_where table (Col_Not_Null ''draft'' # conds) t)))"

text \<open>
  Removing a draft: the column is set to \<open>NULL\<close> when there is an active version, the row is
  deleted otherwise; False when there is no draft.
\<close>

definition discard_row_draft ::
    "db_texts \<Rightarrow> string \<Rightarrow> sql_cond list \<Rightarrow> (sql_world, toolsets_error, bool) act" where
  "discard_row_draft tx table conds =
     and_then (map_err (ts_store_error tx) (select (sql_first table conds))) (\<lambda>found.
       case found of None \<Rightarrow> return_ok False
       | Some r \<Rightarrow>
           if col_json (r ''draft'') = None then return_ok False
           else if col_json (r ''active'') \<noteq> None
           then and_then (map_err (ts_store_error tx)
                  (statement (sql_update table [(''draft'', VJson None)] conds))) (\<lambda>_. return_ok True)
           else and_then (map_err (ts_store_error tx) (statement (sql_delete table conds)))
                  (\<lambda>_. return_ok True))"

definition require_type_admin ::
    "db_texts \<Rightarrow> string \<Rightarrow> string \<Rightarrow> ('m tables world, toolsets_error, caller_principal) act" where
  "require_type_admin tx sub what =
     and_then (store_principal tx sub) (\<lambda>caller.
       if cp_is_admin caller then return_ok caller
       else fail_with (deny (Lym_Forbidden (what @ '' requires admin''))))"

text \<open>The order of the entries is that of \<open>DraftKind\<close> (a rank) and then of the names.\<close>

definition list_drafts ::
    "db_texts \<Rightarrow> (draft_kind \<Rightarrow> nat) \<Rightarrow> string \<Rightarrow> (sql_world, toolsets_error, (draft_kind \<times> string) list) act" where
  "list_drafts tx kind_rank sub =
     and_then (store_principal tx sub) (\<lambda>caller.
     and_then (names_with_draft tx private_toolsets_table ''toolset_id''
         [Col_Eq ''owner_id'' (VInt (Some (cp_user_id caller)))]) (\<lambda>own.
     and_then (if cp_is_admin caller then names_with_draft tx catalog_toolsets_table ''toolset_id'' []
               else return_ok []) (\<lambda>catalog.
     and_then (names_with_draft tx catalog_context_types_table ''name'' []) (\<lambda>types.
       return_ok (sort_key (kind_rank \<circ> fst) (sort_key snd
         (map (Pair Draft_Toolset) own @ map (Pair Draft_Toolset) catalog @
          map (Pair Draft_ContextType) types)))))))"

definition delete_draft ::
    "db_texts \<Rightarrow> string \<Rightarrow> draft_kind \<Rightarrow> string \<Rightarrow> (sql_world, toolsets_error, bool) act" where
  "delete_draft tx sub kind name =
     (case kind of
        Draft_Toolset \<Rightarrow>
          and_then (store_principal tx sub) (\<lambda>caller.
          and_then (map_err deny (lift_result (check_write caller name))) (\<lambda>id_kind.
          case id_kind of
            Catalog_Id \<Rightarrow> discard_row_draft tx catalog_toolsets_table
              [Col_Eq ''toolset_id'' (VText (Some name))]
          | Private_Id \<Rightarrow> discard_row_draft tx private_toolsets_table
              [Col_Eq ''owner_id'' (VInt (Some (cp_user_id caller))),
               Col_Eq ''toolset_id'' (VText (Some name))]
          | Host_Id \<Rightarrow> fail_with (deny (Lym_Forbidden ''host identifiers are not writable''))))
      | Draft_ContextType \<Rightarrow>
          and_then (require_type_admin tx sub ''context type draft write'') (\<lambda>_.
          discard_row_draft tx catalog_context_types_table [Col_Eq ''name'' (VText (Some name))])
      | Draft_Other k \<Rightarrow> fail_with (Ts_Store (''unsupported draft kind '' @ k)))"

definition put_type_draft ::
    "db_texts \<Rightarrow> ('ct, 'cx) context_lib \<Rightarrow> string \<Rightarrow> 'ct \<Rightarrow> (sql_world, toolsets_error, unit) act" where
  "put_type_draft tx C sub context_type =
     and_then (require_type_admin tx sub ''context type draft write'') (\<lambda>_.
     case ct_to_json C context_type of
       None \<Rightarrow> fail_with (Ts_Store ''context type could not be serialized'')
     | Some v \<Rightarrow>
         and_then (lift_result (stored_name v ''context type'')) (\<lambda>name.
         and_then (lift_result (stored_version_text v ''context type'')) (\<lambda>version.
         and_then utc_now (\<lambda>now.
         map_err (ts_store_error tx)
           (statement (sql_upsert catalog_context_types_table
             [(''name'', VText (Some name)), (''version'', VText (Some version)),
              (''allowed_agents'', VJson (Some (JArray []))), (''active'', VJson None),
              (''draft'', VJson (Some v)), (''created_at'', VInt (Some now))]
             [''name''] [''draft''])))))) "

definition get_type_draft ::
    "db_texts \<Rightarrow> ('ct, 'cx) context_lib \<Rightarrow> string \<Rightarrow> (sql_world, toolsets_error, 'ct option) act" where
  "get_type_draft tx C name =
     and_then (map_err (ts_store_error tx)
         (first_json catalog_context_types_table [Col_Eq ''name'' (VText (Some name))] ''draft''))
       (\<lambda>stored. case stored of None \<Rightarrow> return_ok None
        | Some v \<Rightarrow> (case ct_of_json C v of
              Inl _ \<Rightarrow> fail_with (Ts_Store (''stored context type '' @ name @ '' is unreadable''))
            | Inr t \<Rightarrow> return_ok (Some t)))"

section \<open>Activation\<close>

record activation_report =
  ar_name :: string
  ar_version :: string
  ar_previous_version :: "string option"

definition admin_only_modules :: "string list" where "admin_only_modules = []"

fun from_toolsets :: "('ts, 'sk) toolset_lib \<Rightarrow> toolsets_error \<Rightarrow> lymaille_error" where
  "from_toolsets L (Ts_Store s) = Lym_Store s"
| "from_toolsets L other = Lym_InvalidDefinition (ts_error_text L other)"

definition activation_conditions :: "id_kind \<Rightarrow> caller_principal \<Rightarrow> string \<Rightarrow> sql_cond list" where
  "activation_conditions kind caller name =
     Col_Eq ''toolset_id'' (VText (Some name)) #
     (if kind = Private_Id then [Col_Eq ''owner_id'' (VInt (Some (cp_user_id caller)))] else [])"

definition read_row ::
    "db_texts \<Rightarrow> string \<Rightarrow> id_kind \<Rightarrow> caller_principal \<Rightarrow> string \<Rightarrow>
       (sql_world, lymaille_error, (json option \<times> string) option) act" where
  "read_row tx table kind caller name =
     map_err (store_error tx) (select (\<lambda>t. map_option (\<lambda>r. (col_json (r ''draft''), col_text (r ''version'')))
       (sql_first table (activation_conditions kind caller name) t)))"

definition update_promote ::
    "db_texts \<Rightarrow> string \<Rightarrow> id_kind \<Rightarrow> caller_principal \<Rightarrow> string \<Rightarrow> json \<Rightarrow> string \<Rightarrow>
       (sql_world, lymaille_error, unit) act" where
  "update_promote tx table kind caller name draft version_new =
     and_then (map_err (store_error tx) (json_eq_statement (sql_update table
         [(''active'', VJson (Some draft)), (''version'', VText (Some version_new))]
         (Col_Eq ''draft'' (VJson (Some draft)) # activation_conditions kind caller name))))
       (\<lambda>affected. if affected = 0
          then fail_with (Lym_Store (''toolset '' @ name @ '' changed while activating''))
          else return_ok ())"

definition clear_draft ::
    "db_texts \<Rightarrow> string \<Rightarrow> id_kind \<Rightarrow> caller_principal \<Rightarrow> string \<Rightarrow> (sql_world, lymaille_error, unit) act" where
  "clear_draft tx table kind caller name =
     and_then (map_err (store_error tx) (statement (sql_update table [(''draft'', VJson None)]
         (Col_Not_Null ''draft'' # activation_conditions kind caller name))))
       (\<lambda>affected. if affected = 0
          then fail_with (Lym_Store (''draft of toolset '' @ name @ '' vanished mid-transaction''))
          else return_ok ())"

text \<open>A transaction that is dropped before its commit is rolled back.\<close>

definition in_transaction :: "('m tables world, 'e, 'a) act \<Rightarrow> ('m tables world, 'e, 'a) act" where
  "in_transaction m = on_error m (\<lambda>e w. (Inl e, leave_txn w))"

definition promote ::
    "db_texts \<Rightarrow> string \<Rightarrow> id_kind \<Rightarrow> caller_principal \<Rightarrow> string \<Rightarrow> json \<Rightarrow> string \<Rightarrow> bool \<Rightarrow>
       (sql_world, lymaille_error, unit) act" where
  "promote tx table kind caller name draft version_new fail_after_active =
     and_then (map_err (store_error tx) begin_txn) (\<lambda>_.
     in_transaction (
       and_then (update_promote tx table kind caller name draft version_new) (\<lambda>_.
       and_then (if fail_after_active then fail_with (Lym_Store ''simulated failure after promotion'')
                 else return_ok ()) (\<lambda>_.
       and_then (clear_draft tx table kind caller name) (\<lambda>_.
       map_err (store_error tx) commit_txn)))))"

definition activate_with ::
    "db_texts \<Rightarrow> ('ts, 'sk) toolset_lib \<Rightarrow> caller_principal \<Rightarrow> string \<Rightarrow> string list \<Rightarrow> bool \<Rightarrow>
       (sql_world, lymaille_error, activation_report) act" where
  "activate_with tx L caller name reserved fail_after_active =
     and_then (lift_result (classify name)) (\<lambda>kind.
       if kind = Host_Id then fail_with (Lym_Forbidden ''host identifiers are not activable'')
       else if kind = Catalog_Id \<and> \<not> cp_is_admin caller
       then fail_with (Lym_Forbidden ''catalog publication requires admin'')
       else
         and_then (read_row tx (toolset_table kind) kind caller name) (\<lambda>found.
         case found of
           None \<Rightarrow> fail_with (Lym_NotFound ''no draft to activate'')
         | Some (None, version) \<Rightarrow> fail_with (Lym_NotFound ''no draft to activate'')
         | Some (Some draft, version) \<Rightarrow>
         (case ts_of_json L draft of
           Inl _ \<Rightarrow> fail_with (Lym_InvalidDefinition (''stored toolset '' @ name @ '' is unreadable''))
         | Inr toolset \<Rightarrow>
         and_then (map_err (from_toolsets L) (lift_result (check_toolset L toolset))) (\<lambda>_.
         let modules = (case Option.bind (json_get draft ''modules'') as_array of
               None \<Rightarrow> [] | Some entries \<Rightarrow> List.map_filter as_str entries) in
         and_then (lift_result (check_grants caller modules reserved)) (\<lambda>_.
         case Option.bind (json_get draft ''version'') as_str of
           None \<Rightarrow> fail_with (Lym_InvalidDefinition (''draft of toolset '' @ name @ '' carries no version''))
         | Some version_new \<Rightarrow>
             and_then (promote tx (toolset_table kind) kind caller name draft version_new fail_after_active)
               (\<lambda>_. return_ok \<lparr>ar_name = name, ar_version = version_new,
                  ar_previous_version = (if version = [] then None else Some version)\<rparr>))))))"

definition activate_toolset ::
    "db_texts \<Rightarrow> ('ts, 'sk) toolset_lib \<Rightarrow> caller_principal \<Rightarrow> string \<Rightarrow>
       (sql_world, lymaille_error, activation_report) act" where
  "activate_toolset tx L caller name = activate_with tx L caller name admin_only_modules False"

definition discard_draft ::
    "db_texts \<Rightarrow> ('ts, 'sk) toolset_lib \<Rightarrow> caller_principal \<Rightarrow> draft_kind \<Rightarrow> string \<Rightarrow>
       (sql_world, lymaille_error, bool) act" where
  "discard_draft tx L caller kind name =
     map_err (from_toolsets L) (delete_draft tx (cp_subject caller) kind name)"

section \<open>The shelf of versions\<close>

text \<open>
  What the tables mean: for each key, a catalog name or a name of an owner, the active version,
  the draft and the version text. The operations of the specification work on one key.
\<close>

datatype shelf_key = Catalog_Key string | Private_Key int string

type_synonym versions = "json option \<times> json option \<times> string"

fun key_of :: "id_kind \<Rightarrow> int \<Rightarrow> string \<Rightarrow> shelf_key" where
  "key_of Catalog_Id uid name = Catalog_Key name"
| "key_of _ uid name = Private_Key uid name"

fun key_table :: "shelf_key \<Rightarrow> string" where
  "key_table (Catalog_Key _) = catalog_toolsets_table"
| "key_table (Private_Key _ _) = private_toolsets_table"

fun key_where :: "shelf_key \<Rightarrow> sql_cond list" where
  "key_where (Catalog_Key name) = [Col_Eq ''toolset_id'' (VText (Some name))]"
| "key_where (Private_Key uid name) =
     [Col_Eq ''owner_id'' (VInt (Some uid)), Col_Eq ''toolset_id'' (VText (Some name))]"

abbreviation key_rows :: "shelf_key \<Rightarrow> sql_tables \<Rightarrow> row list" where
  "key_rows k t \<equiv> rows_where (key_table k) (key_where k) t"

definition row_versions :: "row \<Rightarrow> versions" where
  "row_versions r = (col_json (r ''active''), col_json (r ''draft''), col_text (r ''version''))"

definition shelf :: "sql_tables \<Rightarrow> shelf_key \<Rightarrow> versions option" where
  "shelf t k = map_option row_versions (sql_first (key_table k) (key_where k) t)"

text \<open>The unique indexes: one row at most for a catalog name, and for an owner and a name.\<close>

definition wf_shelf :: "sql_tables \<Rightarrow> bool" where
  "wf_shelf t \<longleftrightarrow> (\<forall>k. length (key_rows k t) \<le> 1)"

fun spec_put :: "json \<Rightarrow> string \<Rightarrow> versions option \<Rightarrow> versions option" where
  "spec_put v ver (Some (Some a, d, ver0)) = Some (Some a, Some v, ver0)"
| "spec_put v ver _ = Some (None, Some v, ver)"

fun spec_discard :: "versions option \<Rightarrow> versions option" where
  "spec_discard (Some (Some a, Some d, ver)) = Some (Some a, None, ver)"
| "spec_discard (Some (None, Some d, ver)) = None"
| "spec_discard x = x"

fun spec_promote :: "string \<Rightarrow> versions option \<Rightarrow> versions option" where
  "spec_promote ver (Some (a, Some d, ver0)) = Some (Some d, None, ver)"
| "spec_promote ver x = x"

subsection \<open>Statements on one key\<close>

lemma tables_distinct: "catalog_toolsets_table \<noteq> private_toolsets_table"
  by (simp add: catalog_toolsets_table_def private_toolsets_table_def)

lemma key_disjoint:
  "sql_match (key_table k) (key_where k) x \<Longrightarrow> sql_match (key_table k') (key_where k') x \<Longrightarrow> k = k'"
  using tables_distinct tables_distinct [symmetric]
  by (cases k; cases k') (auto simp: sql_match_def)

lemma rows_where_cong:
  "set cs = set ds \<Longrightarrow> rows_where table cs t = rows_where table ds t"
  by (simp add: rows_where_def sql_match_def cong: filter_cong)

lemma sql_update_cong: "set cs = set ds \<Longrightarrow> sql_update table vals cs t = sql_update table vals ds t"
  using rows_where_cong [of cs ds table t] by (simp add: sql_update_def sql_match_def)

lemma sql_first_cong: "set cs = set ds \<Longrightarrow> sql_first table cs t = sql_first table ds t"
  using rows_where_cong [of cs ds table t] by (simp add: sql_first_def)

lemma shelf_single: "wf_shelf t \<Longrightarrow> sql_first (key_table k) (key_where k) t = Some r \<Longrightarrow> key_rows k t = [r]"
  unfolding wf_shelf_def by (drule spec [where x = k]) (auto simp: sql_first_def split: list.splits)

lemma key_columns_kept:
  "fst ` set vals \<inter> {''toolset_id'', ''owner_id''} = {} \<Longrightarrow>
     sql_match (key_table k) (key_where k) (table, set_columns vals r) \<longleftrightarrow>
     sql_match (key_table k) (key_where k) (table, r)"
proof -
  assume d: "fst ` set vals \<inter> {''toolset_id'', ''owner_id''} = {}"
  have "map_of vals c = None" if "c \<in> {''toolset_id'', ''owner_id''}" for c
    using d that by (auto simp: map_of_eq_None_iff disjoint_iff)
  then show ?thesis by (cases k) (auto simp: sql_match_def set_columns_def)
qed

lemma key_rows_update:
  assumes vals: "fst ` set vals \<inter> {''toolset_id'', ''owner_id''} = {}"
    and conds: "set conds = set (key_where k) \<union> set extra"
    and upd: "sql_update (key_table k) vals conds t = Inr (n, t')"
  shows "key_rows k' t' = (if k' = k
      then map (\<lambda>r. if \<forall>d\<in>set extra. sql_holds d r then set_columns vals r else r) (key_rows k t)
      else key_rows k' t)"
    and "n = length (filter (\<lambda>r. \<forall>d\<in>set extra. sql_holds d r) (key_rows k t))"
proof -
  define hit where "hit x \<longleftrightarrow> sql_match (key_table k) conds x" for x :: sql_row
  define f where "f x = (if hit x then (fst x, set_columns vals (snd x)) else x)" for x :: sql_row
  have rows': "rows t' = map f (rows t)"
    using upd by (auto simp: sql_update_def f_def hit_def)
  have hit: "hit x \<longleftrightarrow> sql_match (key_table k) (key_where k) x \<and> (\<forall>d\<in>set extra. sql_holds d (snd x))" for x
    using conds by (auto simp: hit_def sql_match_def)
  have same: "sql_match (key_table k'') (key_where k'') (f x) = sql_match (key_table k'') (key_where k'') x" for k'' x
    using key_columns_kept [OF vals] by (cases x) (auto simp: f_def)
  have rows: "key_rows k' t' = map (snd \<circ> f) (filter (sql_match (key_table k') (key_where k')) (rows t))"
    by (simp add: rows_where_def rows' filter_map o_def same cong: filter_cong)
  show "key_rows k' t' = (if k' = k
      then map (\<lambda>r. if \<forall>d\<in>set extra. sql_holds d r then set_columns vals r else r) (key_rows k t)
      else key_rows k' t)"
  proof (cases "k' = k")
    case True
    then show ?thesis
      unfolding rows by (auto simp: rows_where_def f_def hit)
  next
    case False
    then have "\<not> hit x" if "sql_match (key_table k') (key_where k') x" for x
      using that key_disjoint hit by blast
    then show ?thesis
      using False unfolding rows by (auto simp: rows_where_def f_def)
  qed
  have "n = length (rows_where (key_table k) conds t)"
    using upd by (simp add: sql_update_def)
  also have "rows_where (key_table k) conds t = rows_where (key_table k) (key_where k @ extra) t"
    by (rule rows_where_cong) (simp add: conds)
  finally show "n = length (filter (\<lambda>r. \<forall>d\<in>set extra. sql_holds d r) (key_rows k t))"
    by (simp add: rows_where_append_cond)
qed

lemma key_rows_delete:
  assumes conds: "set conds = set (key_where k)" and del: "sql_delete (key_table k) conds t = Inr (n, t')"
  shows "key_rows k' t' = (if k' = k then [] else key_rows k' t)"
proof -
  have m: "sql_match (key_table k) conds x = sql_match (key_table k) (key_where k) x" for x
    using conds by (simp add: sql_match_def)
  have "rows t' = filter (\<lambda>x. \<not> sql_match (key_table k) (key_where k) x) (rows t)"
    using del by (auto simp: sql_delete_def m)
  then show ?thesis
    using key_disjoint by (auto simp: rows_where_def intro!: arg_cong [where f = "map snd"] filter_cong)
qed

lemma key_rows_insert:
  assumes "rows t' = rows t @ [(key_table k, r)]" "sql_match (key_table k) (key_where k) (key_table k, r)"
  shows "key_rows k' t' = key_rows k' t @ (if k' = k then [r] else [])"
  using assms key_disjoint by (auto simp: rows_where_def)

lemma shelf_rows:
  "shelf t k = (case key_rows k t of [] \<Rightarrow> None | r # _ \<Rightarrow> Some (row_versions r))"
  by (auto simp: shelf_def sql_first_def split: list.split)

subsection \<open>The operations refine the specification\<close>

text \<open>\<open>moved_to t w w'\<close>: the world after statements that changed only rows, to \<open>t\<close>.\<close>

definition shelf_step ::
    "sql_world \<Rightarrow> sql_world \<Rightarrow> shelf_key \<Rightarrow> (versions option \<Rightarrow> versions option) \<Rightarrow> bool" where
  "shelf_step w w' k f \<longleftrightarrow>
     (\<exists>rs. w' = set_tabs ((tabs w)\<lparr>rows := rs\<rparr>) w) \<and>
     shelf (tabs w') = (shelf (tabs w))(k := f (shelf (tabs w) k)) \<and> wf_shelf (tabs w')"

lemma shelf_step_quiet: "shelf_step w w' k f \<Longrightarrow> quiet w' = quiet w"
  by (auto simp: shelf_step_def)

lemma shelf_stepI:
  assumes "w' = set_tabs ((tabs w)\<lparr>rows := rs\<rparr>) w" "wf_shelf (tabs w)"
    and other: "\<And>k'. k' \<noteq> k \<Longrightarrow> key_rows k' (tabs w') = key_rows k' (tabs w)"
    and here: "length (key_rows k (tabs w')) \<le> 1" "shelf (tabs w') k = f (shelf (tabs w) k)"
  shows "shelf_step w w' k f"
proof -
  have "shelf (tabs w') = (shelf (tabs w))(k := f (shelf (tabs w) k))"
    using other here(2) by (auto simp: fun_eq_iff shelf_rows)
  moreover have "wf_shelf (tabs w')"
    unfolding wf_shelf_def using other here(1) assms(2) by (metis wf_shelf_def)
  ultimately show ?thesis using assms(1) unfolding shelf_step_def by blast
qed

lemma first_json_quiet [act_simps]:
  "quiet w \<Longrightarrow> first_json table conds c w =
     (Inr (Option.bind (sql_first table conds (tabs w)) (\<lambda>r. col_json (r c))), w)"
  by (simp add: first_json_def select_quiet)

lemma key_of_table: "kind \<noteq> Host_Id \<Longrightarrow> toolset_table kind = key_table (key_of kind uid name)"
  by (cases kind) (auto simp: toolset_table_def)

lemma sql_update_rows: "sql_update table vals conds t = Inr (n, t') \<Longrightarrow> \<exists>rs. t' = t\<lparr>rows := rs\<rparr>"
  by (auto simp: sql_update_def)

lemma sql_update_total: "\<exists>n t'. sql_update table vals conds t = Inr (n, t')"
  by (simp add: sql_update_def)

lemma shelf_of_rows:
  "wf_shelf t \<Longrightarrow> shelf t k = Some x \<Longrightarrow>
     \<exists>r. key_rows k t = [r] \<and> row_versions r = x \<and> sql_first (key_table k) (key_where k) t = Some r"
  using shelf_single [of t k] by (auto simp: shelf_def)

text \<open>An \<open>UPDATE\<close>, a \<open>DELETE\<close> and an upsert of the row of a key.\<close>

lemma update_step:
  assumes q: "quiet w" and wf: "wf_shelf (tabs w)" and r: "key_rows k (tabs w) = [r]"
    and vals: "fst ` set vals \<inter> {''toolset_id'', ''owner_id''} = {}"
    and conds: "set conds = set (key_where k) \<union> set extra" "\<forall>d\<in>set extra. sql_holds d r"
    and f: "f (Some (row_versions r)) = Some (row_versions (set_columns vals r))"
  shows "\<exists>w'. statement (sql_update (key_table k) vals conds) w = (Inr 1, w') \<and> shelf_step w w' k f"
proof -
  obtain n t' where upd: "sql_update (key_table k) vals conds (tabs w) = Inr (n, t')"
    using sql_update_total by blast
  then obtain rs where t': "t' = (tabs w)\<lparr>rows := rs\<rparr>" using sql_update_rows by blast
  note rows = key_rows_update(1) [OF vals conds(1) upd]
  have "n = 1" using key_rows_update(2) [OF vals conds(1) upd] r conds(2) by simp
  then have run: "statement (sql_update (key_table k) vals conds) w = (Inr 1, set_tabs t' w)"
    using upd statement_quiet_Inr [of w "sql_update (key_table k) vals conds", OF q] by simp
  have "shelf_step w (set_tabs t' w) k f"
  proof (rule shelf_stepI [OF _ wf])
    show "set_tabs t' w = set_tabs ((tabs w)\<lparr>rows := rs\<rparr>) w" by (simp add: t')
    show "key_rows k' (tabs (set_tabs t' w)) = key_rows k' (tabs w)" if "k' \<noteq> k" for k'
      using that by (simp add: rows)
    show "length (key_rows k (tabs (set_tabs t' w))) \<le> 1" by (simp add: rows r)
    show "shelf (tabs (set_tabs t' w)) k = f (shelf (tabs w) k)"
      using conds(2) f r by (simp add: rows shelf_rows)
  qed
  with run show ?thesis by blast
qed

lemma delete_step:
  assumes q: "quiet w" and wf: "wf_shelf (tabs w)"
    and conds: "set conds = set (key_where k)" and f: "f (shelf (tabs w) k) = None"
  shows "\<exists>n w'. statement (sql_delete (key_table k) conds) w = (Inr n, w') \<and> shelf_step w w' k f"
proof -
  obtain n t' where del: "sql_delete (key_table k) conds (tabs w) = Inr (n, t')"
    by (simp add: sql_delete_def)
  then obtain rs where t': "t' = (tabs w)\<lparr>rows := rs\<rparr>" by (auto simp: sql_delete_def)
  note rows = key_rows_delete [OF conds del]
  have run: "statement (sql_delete (key_table k) conds) w = (Inr n, set_tabs t' w)"
    using statement_quiet_Inr [of w "sql_delete (key_table k) conds", OF q del] .
  have "shelf_step w (set_tabs t' w) k f"
  proof (rule shelf_stepI [OF _ wf])
    show "set_tabs t' w = set_tabs ((tabs w)\<lparr>rows := rs\<rparr>) w" by (simp add: t')
    show "key_rows k' (tabs (set_tabs t' w)) = key_rows k' (tabs w)" if "k' \<noteq> k" for k'
      using that by (simp add: rows)
    show "length (key_rows k (tabs (set_tabs t' w))) \<le> 1" by (simp add: rows)
    have "shelf (tabs (set_tabs t' w)) k = None" by (simp add: rows shelf_rows)
    then show "shelf (tabs (set_tabs t' w)) k = f (shelf (tabs w) k)" by (simp only: f)
  qed
  with run show ?thesis by blast
qed

lemma insert_step:
  assumes q: "quiet w" and wf: "wf_shelf (tabs w)" and none: "key_rows k (tabs w) = []"
    and keys: "key_conds keys vals = key_where k"
    and r: "r = sql_new_row vals (key_table k) (tabs w)" "sql_match (key_table k) (key_where k) (key_table k, r)"
    and f: "f None = Some (row_versions r)"
  shows "\<exists>w'. statement (sql_upsert (key_table k) vals keys updates) w = (Inr (), w') \<and> shelf_step w w' k f"
proof -
  define t' where "t' = (tabs w)\<lparr>rows := rows (tabs w) @ [(key_table k, r)]\<rparr>"
  have up: "sql_upsert (key_table k) vals keys updates (tabs w) = Inr ((), t')"
    using none by (simp add: sql_upsert_def keys t'_def r(1))
  have run: "statement (sql_upsert (key_table k) vals keys updates) w = (Inr (), set_tabs t' w)"
    using statement_quiet_Inr [of w "sql_upsert (key_table k) vals keys updates", OF q up] .
  have rows: "key_rows k' t' = key_rows k' (tabs w) @ (if k' = k then [r] else [])" for k'
    by (rule key_rows_insert [OF _ r(2)]) (simp add: t'_def)
  have "shelf_step w (set_tabs t' w) k f"
  proof (rule shelf_stepI [OF _ wf])
    show "set_tabs t' w = set_tabs ((tabs w)\<lparr>rows := rows (tabs w) @ [(key_table k, r)]\<rparr>) w"
      by (simp add: t'_def)
    show "key_rows k' (tabs (set_tabs t' w)) = key_rows k' (tabs w)" if "k' \<noteq> k" for k'
      using that by (simp add: rows)
    show "length (key_rows k (tabs (set_tabs t' w))) \<le> 1" by (simp add: rows none)
    show "shelf (tabs (set_tabs t' w)) k = f (shelf (tabs w) k)"
      by (simp add: f none rows shelf_rows)
  qed
  with run show ?thesis by blast
qed

lemma upsert_step:
  assumes q: "quiet w" and wf: "wf_shelf (tabs w)" and r: "key_rows k (tabs w) = [r]"
    and keys: "key_conds keys vals = key_where k"
    and vals: "set updates \<inter> {''toolset_id'', ''owner_id''} = {}"
    and f: "f (Some (row_versions r)) =
      Some (row_versions (set_columns (filter (\<lambda>kv. fst kv \<in> set updates) vals) r))"
  shows "\<exists>w'. statement (sql_upsert (key_table k) vals keys updates) w = (Inr (), w') \<and> shelf_step w w' k f"
proof -
  let ?vals = "filter (\<lambda>kv. fst kv \<in> set updates) vals"
  have v: "fst ` set ?vals \<inter> {''toolset_id'', ''owner_id''} = {}" using vals by auto
  obtain w' where w': "statement (sql_update (key_table k) ?vals (key_where k)) w = (Inr 1, w')" "shelf_step w w' k f"
    using update_step [OF q wf r v, of "key_where k" "[]" f] f by auto
  obtain n t' where upd: "sql_update (key_table k) ?vals (key_where k) (tabs w) = Inr (n, t')"
    using sql_update_total by blast
  have "w' = set_tabs t' w"
    using w'(1) statement_quiet_Inr [of w "sql_update (key_table k) ?vals (key_where k)", OF q upd] by simp
  moreover have "sql_upsert (key_table k) vals keys updates (tabs w) = Inr ((), t')"
    using r upd by (simp add: sql_upsert_def keys)
  ultimately show ?thesis
    using w'(2) statement_quiet_Inr [of w "sql_upsert (key_table k) vals keys updates", OF q] by auto
qed

lemma write_draft_refines:
  assumes q: "quiet w" and wf: "wf_shelf (tabs w)" and kind: "kind \<noteq> Host_Id"
    and v: "ts_to_json L ts = Some v"
  shows "\<exists>w'. write_draft tx L ts kind caller w = (Inr (), w') \<and>
    shelf_step w w' (key_of kind (cp_user_id caller) (ts_name L ts)) (spec_put v (ts_version L ts))"
proof -
  define k where "k = key_of kind (cp_user_id caller) (ts_name L ts)"
  define keyvals where "keyvals = (if kind = Catalog_Id then [(''toolset_id'', VText (Some (ts_name L ts)))]
      else [(''owner_id'', VInt (Some (cp_user_id caller))), (''toolset_id'', VText (Some (ts_name L ts)))])"
  define vals where "vals = keyvals @ [(''version'', VText (Some (ts_version L ts))),
      (''draft'', VJson (Some v)), (''created_at'', VInt (Some (clock w)))]"
  let ?f = "spec_put v (ts_version L ts)"
  have table: "toolset_table kind = key_table k" using key_of_table [OF kind] by (simp add: k_def)
  have conds: "map (\<lambda>(c, x). Col_Eq c x) keyvals = key_where k"
    using kind by (cases kind) (auto simp: k_def keyvals_def)
  have kc: "key_conds (map fst keyvals) vals = key_where k"
    using kind by (cases kind) (auto simp: k_def keyvals_def vals_def key_conds_def map_filter_simps)
  have run: "write_draft tx L ts kind caller w =
      (if Option.bind (sql_first (key_table k) (key_where k) (tabs w)) (\<lambda>r. col_json (r ''active'')) \<noteq> None
       then map_err (ts_store_error tx) (and_then
         (statement (sql_update (key_table k) [(''draft'', VJson (Some v))] (key_where k))) (\<lambda>_. return_ok ())) w
       else map_err (ts_store_error tx)
         (statement (sql_upsert (key_table k) vals (map fst keyvals) [''version'', ''draft''])) w)"
    using v kind
    by (simp add: write_draft_def keyvals_def [symmetric] Let_def conds table vals_def and_then_def
        map_err_def first_json_quiet [OF q] utc_now_def)
  have "\<exists>w'. write_draft tx L ts kind caller w = (Inr (), w') \<and> shelf_step w w' k ?f"
  proof (cases "key_rows k (tabs w)")
    case Nil
    let ?new = "sql_new_row vals (key_table k) (tabs w)"
    have m: "sql_match (key_table k) (key_where k) (key_table k, ?new)"
      using kind by (cases kind) (auto simp: k_def keyvals_def vals_def sql_match_def sql_new_row_def set_columns_def)
    have "row_versions ?new = (None, Some v, ts_version L ts)"
      using kind by (auto simp: row_versions_def keyvals_def vals_def sql_new_row_def set_columns_def null_row_def)
    then show ?thesis
      using insert_step [OF q wf Nil kc refl m, of ?f "[''version'', ''draft'']"] Nil
      by (auto simp: run sql_first_def map_err_Inr)
  next
    case (Cons r rest)
    then have f: "sql_first (key_table k) (key_where k) (tabs w) = Some r" by (simp add: sql_first_def)
    note single = shelf_single [OF wf f]
    show ?thesis
    proof (cases "col_json (r ''active'')")
      case None
      have "filter (\<lambda>kv. fst kv \<in> set [''version'', ''draft'']) vals =
          [(''version'', VText (Some (ts_version L ts))), (''draft'', VJson (Some v))]"
        by (simp add: vals_def keyvals_def)
      then show ?thesis
        using upsert_step [OF q wf single kc, of "[''version'', ''draft'']" ?f] None f
        by (auto simp: run map_err_Inr row_versions_def set_columns_simps)
    next
      case (Some a)
      then show ?thesis
        using update_step [OF q wf single, of "[(''draft'', VJson (Some v))]" "key_where k" "[]" ?f] f
        by (auto simp: run map_err_def and_then_def return_ok_def row_versions_def set_columns_simps)
    qed
  qed
  then show ?thesis by (simp add: k_def)
qed

lemma discard_refines:
  assumes q: "quiet w" and wf: "wf_shelf (tabs w)" and conds: "set conds = set (key_where k)"
  shows "\<exists>w'. discard_row_draft tx (key_table k) conds w =
      (Inr (case shelf (tabs w) k of Some (_, Some _, _) \<Rightarrow> True | _ \<Rightarrow> False), w') \<and>
    shelf_step w w' k spec_discard"
proof -
  have idle: "shelf_step w w k spec_discard" if "spec_discard (shelf (tabs w) k) = shelf (tabs w) k"
    using that wf by (auto simp: shelf_step_def intro!: exI [of _ "rows (tabs w)"])
  note run = discard_row_draft_def act_eval select_quiet [OF q] sql_first_cong [OF conds]
  show ?thesis
  proof (cases "shelf (tabs w) k")
    case None
    then show ?thesis using idle by (auto simp: run shelf_def)
  next
    case (Some x)
    then obtain r where r: "key_rows k (tabs w) = [r]" "row_versions r = x"
        "sql_first (key_table k) (key_where k) (tabs w) = Some r"
      using shelf_of_rows [OF wf] by blast
    obtain a d ver where x: "x = (a, d, ver)" by (cases x)
    with r(2) have cols: "col_json (r ''active'') = a" "col_json (r ''draft'') = d" "col_text (r ''version'') = ver"
      by (simp_all add: row_versions_def)
    consider "d = None" | d' a' where "d = Some d'" "a = Some a'" | d' where "d = Some d'" "a = None"
      by (cases d; cases a) auto
    then show ?thesis
    proof cases
      case 1
      then show ?thesis using Some x cols r(3) idle by (cases a) (auto simp: run)
    next
      case 2
      then show ?thesis
        using Some x cols r update_step [OF q wf r(1), of "[(''draft'', VJson None)]" conds "[]" spec_discard] conds
        by (auto simp: run row_versions_def set_columns_simps)
    next
      case 3
      then show ?thesis
        using Some x cols r(3) delete_step [OF q wf conds, of spec_discard]
        by (auto simp: run)
    qed
  qed
qed

subsection \<open>Promotion\<close>

lemma activation_conditions_key:
  "kind \<noteq> Host_Id \<Longrightarrow> set (activation_conditions kind caller name) =
     set (key_where (key_of kind (cp_user_id caller) name))"
  by (cases kind) (auto simp: activation_conditions_def)

lemma col_json_Some: "col_json v = Some j \<longleftrightarrow> v = VJson (Some j)"
  by (cases v) auto

lemma promote_refines:
  assumes q: "quiet w" and sqlite: "dialect w = Sqlite" and free: "snap w = None"
    and wf: "wf_shelf (tabs w)" and kind: "kind \<noteq> Host_Id"
    and k: "k = key_of kind (cp_user_id caller) name"
    and x: "shelf (tabs w) k = Some (a, Some d, ver0)"
  shows "\<exists>w'. promote tx (key_table k) kind caller name d ver False w = (Inr (), w') \<and>
    shelf_step w w' k (spec_promote ver)"
proof -
  define w1 where "w1 = w\<lparr>snap := Some (tabs w), aborted := False\<rparr>"
  have w1: "quiet w1" "tabs w1 = tabs w" "dialect w1 = Sqlite"
    using q sqlite by (simp_all add: w1_def quiet_def)
  have opened: "begin_txn w = (Inr (), w1)" using q by (simp add: begin_txn_quiet w1_def)
  note conds = activation_conditions_key [OF kind, of caller name, folded k]
  obtain r where r: "key_rows k (tabs w1) = [r]" "row_versions r = (a, Some d, ver0)"
    using shelf_of_rows [OF wf x] w1(2) by auto
  then have draft: "r ''draft'' = VJson (Some d)" by (simp add: row_versions_def col_json_Some)
  let ?vals = "[(''active'', VJson (Some d)), (''version'', VText (Some ver))]"
  let ?f1 = "\<lambda>x. case x of Some (_, dr, _) \<Rightarrow> Some (Some d, dr, ver) | None \<Rightarrow> None"
  let ?f2 = "\<lambda>x. case x of Some (ac, _, v) \<Rightarrow> Some (ac, None, v) | None \<Rightarrow> None"
  obtain w2 where w2: "statement (sql_update (key_table k) ?vals
        (Col_Eq ''draft'' (VJson (Some d)) # activation_conditions kind caller name)) w1 = (Inr 1, w2)"
      "shelf_step w1 w2 k ?f1"
    using update_step [OF w1(1) _ r(1), of ?vals
        "Col_Eq ''draft'' (VJson (Some d)) # activation_conditions kind caller name"
        "[Col_Eq ''draft'' (VJson (Some d))]" ?f1] wf w1(2) draft r(2)
    by (auto simp: conds row_versions_def set_columns_simps)
  have q2: "quiet w2" using shelf_step_quiet [OF w2(2)] w1(1) by simp
  have wf2: "wf_shelf (tabs w2)" using w2(2) by (simp add: shelf_step_def)
  have x2: "shelf (tabs w2) k = Some (Some d, Some d, ver)"
    using w2(2) x w1(2) by (simp add: shelf_step_def)
  obtain r2 where r2: "key_rows k (tabs w2) = [r2]" "row_versions r2 = (Some d, Some d, ver)"
    using shelf_of_rows [OF wf2 x2] by auto
  then have nn: "\<not> is_null_value (r2 ''draft'')" by (auto simp: row_versions_def col_json_Some)
  obtain w3 where w3: "statement (sql_update (key_table k) [(''draft'', VJson None)]
        (Col_Not_Null ''draft'' # activation_conditions kind caller name)) w2 = (Inr 1, w3)"
      "shelf_step w2 w3 k ?f2"
    using update_step [OF q2 wf2 r2(1), of "[(''draft'', VJson None)]"
        "Col_Not_Null ''draft'' # activation_conditions kind caller name" "[Col_Not_Null ''draft'']" ?f2] nn r2(2)
    by (auto simp: conds row_versions_def set_columns_simps)
  have q3: "quiet w3" using shelf_step_quiet [OF w3(2)] q2 by simp
  define w' where "w' = w3\<lparr>snap := None\<rparr>"
  have run: "promote tx (key_table k) kind caller name d ver False w = (Inr (), w')"
    using opened w2(1) w3(1) w1(3) q3
    by (simp add: promote_def in_transaction_def update_promote_def clear_draft_def json_eq_statement_def
        act_eval commit_txn_quiet w'_def)
  have step: "shelf_step w w' k (spec_promote ver)"
    unfolding shelf_step_def
  proof (intro conjI)
    obtain rs2 rs3 where "w2 = set_tabs ((tabs w1)\<lparr>rows := rs2\<rparr>) w1" "w3 = set_tabs ((tabs w2)\<lparr>rows := rs3\<rparr>) w2"
      using w2(2) w3(2) unfolding shelf_step_def by blast
    then have "w' = set_tabs ((tabs w)\<lparr>rows := rs3\<rparr>) w"
      using q free by (cases w) (simp add: w'_def w1_def set_tabs_def quiet_def)
    then show "\<exists>rs. w' = set_tabs ((tabs w)\<lparr>rows := rs\<rparr>) w" by blast
    show "shelf (tabs w') = (shelf (tabs w))(k := spec_promote ver (shelf (tabs w) k))"
      using w2(2) w3(2) x w1(2) by (simp add: w'_def shelf_step_def)
    show "wf_shelf (tabs w')" using w3(2) by (simp add: w'_def shelf_step_def)
  qed
  with run show ?thesis by blast
qed

text \<open>When an activation may promote a draft, on the shelf.\<close>

definition activable ::
    "('ts, 'sk) toolset_lib \<Rightarrow> caller_principal \<Rightarrow> string \<Rightarrow> string list \<Rightarrow> sql_tables \<Rightarrow> shelf_key \<Rightarrow> string \<Rightarrow>
       string option \<Rightarrow> bool" where
  "activable L caller name reserved t k ver previous \<longleftrightarrow>
     (\<exists>kind a d ver0 ts. classify name = Inr kind \<and> kind \<noteq> Host_Id \<and>
        (kind = Catalog_Id \<longrightarrow> cp_is_admin caller) \<and> k = key_of kind (cp_user_id caller) name \<and>
        shelf t k = Some (a, Some d, ver0) \<and> ts_of_json L d = Inr ts \<and> check_toolset L ts = Inr () \<and>
        check_grants caller (case Option.bind (json_get d ''modules'') as_array of
            None \<Rightarrow> [] | Some es \<Rightarrow> List.map_filter as_str es) reserved = Inr () \<and>
        json_get d ''version'' = Some (JString ver) \<and>
        previous = (if ver0 = [] then None else Some ver0))"

lemma read_row_quiet:
  assumes "quiet w" "kind \<noteq> Host_Id"
  shows "read_row tx (toolset_table kind) kind caller name w =
    (Inr (map_option (\<lambda>(a, d, v). (d, v)) (shelf (tabs w) (key_of kind (cp_user_id caller) name))), w)"
  using assms sql_first_cong [OF activation_conditions_key [OF assms(2)]]
  by (simp add: read_row_def map_err_def select_quiet shelf_def option.map_comp o_def row_versions_def
      key_of_table [OF assms(2), of "cp_user_id caller" name])

lemma activate_reads:
  assumes q: "quiet w" and c: "classify name = Inr kind" "kind \<noteq> Host_Id"
    and "kind = Catalog_Id \<longrightarrow> cp_is_admin caller"
    and x: "shelf (tabs w) (key_of kind (cp_user_id caller) name) = Some (a, Some d, ver0)"
    and ts: "ts_of_json L d = Inr ts" "check_toolset L ts = Inr ()"
    and g: "check_grants caller (case Option.bind (json_get d ''modules'') as_array of
            None \<Rightarrow> [] | Some es \<Rightarrow> List.map_filter as_str es) reserved = Inr ()"
    and ver: "json_get d ''version'' = Some (JString ver)"
  shows "activate_with tx L caller name reserved fail w =
    and_then (promote tx (toolset_table kind) kind caller name d ver fail)
      (\<lambda>_. return_ok \<lparr>ar_name = name, ar_version = ver,
         ar_previous_version = (if ver0 = [] then None else Some ver0)\<rparr>) w"
  using assms
  by (auto simp: activate_with_def and_then_Inr lift_result_apply read_row_quiet [OF q c(2)] map_err_Inr
      Let_def cong: if_cong)

lemma activate_refused:
  assumes q: "quiet w" and no: "\<nexists>k ver prev. activable L caller name reserved (tabs w) k ver prev"
  shows "\<exists>e. activate_with tx L caller name reserved fail w = (Inl e, w)"
proof (cases "classify name")
  case (Inl e)
  then show ?thesis by (auto simp: activate_with_def act_eval)
next
  case kind: (Inr kind)
  show ?thesis
  proof (cases "kind = Host_Id \<or> kind = Catalog_Id \<and> \<not> cp_is_admin caller")
    case True
    with kind show ?thesis by (auto simp: activate_with_def act_eval)
  next
    case False
    then have h: "kind \<noteq> Host_Id" "kind = Catalog_Id \<longrightarrow> cp_is_admin caller" by auto
    let ?k = "key_of kind (cp_user_id caller) name"
    note rd = read_row_quiet [OF q h(1), of tx caller name]
    consider "shelf (tabs w) ?k = None" | a v where "shelf (tabs w) ?k = Some (a, None, v)"
      | a d v where "shelf (tabs w) ?k = Some (a, Some d, v)"
      by (cases "shelf (tabs w) ?k") (auto, metis option.exhaust)
    then show ?thesis
    proof cases
      case (3 a d v)
      have "ts_of_json L d = Inr ts \<Longrightarrow> check_toolset L ts = Inr () \<Longrightarrow>
          check_grants caller (case Option.bind (json_get d ''modules'') as_array of
            None \<Rightarrow> [] | Some es \<Rightarrow> List.map_filter as_str es) reserved = Inr () \<Longrightarrow>
          Option.bind (json_get d ''version'') as_str = None" for ts
        using no 3 kind h unfolding activable_def
        by (cases "Option.bind (json_get d ''version'') as_str") (auto simp: bind_eq_Some_conv as_str_Some)
      with kind h 3 show ?thesis
        by (cases "ts_of_json L d")
          (auto simp: activate_with_def act_eval rd Let_def split: sum.split option.split)
    qed (use kind h in \<open>simp_all add: activate_with_def act_eval rd\<close>)
  qed
qed

section \<open>Properties\<close>


lemma in_txn_map_err [txn_intros]:
  assumes m: "in_txn m"
  shows "in_txn (map_err g m)"
  unfolding in_txn_def
proof (intro allI impI)
  fix w r w'
  assume w: "solo w" and run: "map_err g m w = (r, w')"
  obtain r1 w1 where m1: "m w = (r1, w1)" by fastforce
  with run have "w' = w1" by (cases r1) (simp_all add: map_err_def)
  with in_txnD [OF m m1 w] show "solo w' \<and> snap w' = snap w" by simp
qed

lemma in_txn_promotion [txn_intros]:
  "in_txn (update_promote tx table kind caller name d ver)"
  "in_txn (clear_draft tx table kind caller name)"
proof -
  have j: "in_txn (json_eq_statement f)" for f :: "sql_tables \<Rightarrow> dberr + (nat \<times> sql_tables)"
  proof -
    have "json_eq_statement f w = statement (\<lambda>t. Inl json_equality_err) w \<or> json_eq_statement f w = statement f w" for w
      by (simp add: json_eq_statement_def)
    then show ?thesis using in_txn_statement unfolding in_txn_def by metis
  qed
  show "in_txn (update_promote tx table kind caller name d ver)"
    unfolding update_promote_def by (auto intro!: txn_intros j)
  show "in_txn (clear_draft tx table kind caller name)"
    unfolding clear_draft_def by (auto intro!: txn_intros)
qed

lemma select_solo: "solo w \<Longrightarrow> select f w = (r, w') \<Longrightarrow> solo w' \<and> snap w' = snap w \<and> tabs w' = tabs w"
proof -
  assume s: "solo w" and run: "select f w = (r, w')"
  obtain flt w1 where a: "arrive w = (flt, w1)" by fastforce
  note s1 = solo_arrive [OF s a]
  show ?thesis
    using run a s1
    by (auto simp: select_def statement_def solo_def split: option.splits if_splits)
qed

lemma leave_txn_None: "snap w = None \<Longrightarrow> leave_txn w = w"
  by (simp add: leave_txn_def)

lemma commit_clears: "commit_txn w = (r, w') \<Longrightarrow> snap w' = None"
  by (auto simp: commit_txn_def leave_txn_def split: prod.splits option.splits if_splits)

lemma promote_atomic:
  assumes solo: "solo w" and free: "snap w = None" and err: "promote tx table kind caller name d ver fail w = (Inl e, w')"
  shows "tabs w' = tabs w"
proof -
  obtain r1 w1 where b: "begin_txn w = (r1, w1)" by fastforce
  note s1 = begin_txn_solo [OF solo b]
  show ?thesis
  proof (cases r1)
    case (Inl e1)
    with b err s1 show ?thesis by (simp add: promote_def act_eval)
  next
    case (Inr u)
    let ?body = "and_then (update_promote tx table kind caller name d ver) (\<lambda>_.
       and_then (if fail then fail_with (Lym_Store ''simulated failure after promotion'')
                 else return_ok ()) (\<lambda>_. clear_draft tx table kind caller name))"
    have body: "in_txn ?body" by (auto intro!: txn_intros)
    obtain r2 w2 where b2: "?body w1 = (r2, w2)" by fastforce
    have s2: "solo w2" "snap w2 = Some (tabs w)" using in_txnD [OF body b2] s1 Inr by auto
    have "promote tx table kind caller name d ver fail w =
        in_transaction (and_then ?body (\<lambda>_. map_err (store_error tx) commit_txn)) w1"
      using b Inr by (simp add: promote_def and_then_assoc) (simp add: act_eval)
    with err have run: "in_transaction (and_then ?body (\<lambda>_. map_err (store_error tx) commit_txn)) w1 = (Inl e, w')"
      by simp
    show ?thesis
    proof (cases r2)
      case (Inl e2)
      with run b2 s2 show ?thesis by (auto simp: in_transaction_def on_error_def and_then_Inl leave_txn_tabs)
    next
      case r2: (Inr u2)
      obtain r3 w3 where c: "commit_txn w2 = (r3, w3)" by fastforce
      show ?thesis
      proof (cases r3)
        case (Inl e3)
        then have "tabs w3 = tabs w" "leave_txn w3 = w3"
          using commit_txn_solo_Inl [OF s2(1) _ s2(2)] c commit_clears leave_txn_None by auto
        with run b2 r2 c Inl show ?thesis
          by (auto simp: in_transaction_def on_error_def and_then_Inr map_err_def)
      next
        case (Inr u3)
        with run b2 r2 c show ?thesis
          by (auto simp: in_transaction_def on_error_def and_then_Inr map_err_def)
      qed
    qed
  qed
qed

lemma activate_tail:
  assumes kind: "classify name = Inr kind" "\<not> (kind = Host_Id \<or> kind = Catalog_Id \<and> \<not> cp_is_admin caller)"
    and rd: "read_row tx (toolset_table kind) kind caller name w = (r1, w1)"
  shows "(\<exists>e. activate_with tx L caller name reserved fail w = (Inl e, w1)) \<or>
    (\<exists>d ver rep. activate_with tx L caller name reserved fail w =
       and_then (promote tx (toolset_table kind) kind caller name d ver fail) (\<lambda>_. return_ok rep) w1)"
proof (cases "\<exists>d v ts. r1 = Inr (Some (Some d, v)) \<and> ts_of_json L d = Inr ts \<and> check_toolset L ts = Inr ()")
  case False
  show ?thesis
  proof (cases r1)
    case (Inl e1)
    with kind rd show ?thesis by (auto simp: activate_with_def act_eval)
  next
    case (Inr found)
    with False kind rd show ?thesis
      by (cases found) (auto simp: activate_with_def act_eval split: option.splits sum.splits if_splits)
  qed
next
  case True
  then obtain d v ts where h: "r1 = Inr (Some (Some d, v))" "ts_of_json L d = Inr ts" "check_toolset L ts = Inr ()"
    by blast
  let ?mods = "case Option.bind (json_get d ''modules'') as_array of None \<Rightarrow> [] | Some es \<Rightarrow> List.map_filter as_str es"
  show ?thesis
  proof (cases "check_grants caller ?mods reserved")
    case (Inl g)
    with h kind rd show ?thesis by (auto simp: activate_with_def act_eval Let_def)
  next
    case (Inr g)
    show ?thesis
    proof (cases "Option.bind (json_get d ''version'') as_str")
      case None
      with Inr h kind rd show ?thesis by (auto simp: activate_with_def act_eval Let_def)
    next
      case (Some ver)
      have "activate_with tx L caller name reserved fail w =
          and_then (promote tx (toolset_table kind) kind caller name d ver fail)
            (\<lambda>_. return_ok \<lparr>ar_name = name, ar_version = ver,
               ar_previous_version = (if v = [] then None else Some v)\<rparr>) w1"
        using Some Inr h kind rd
        by (auto simp: activate_with_def and_then_Inr lift_result_apply map_err_Inr Let_def cong: if_cong)
      then show ?thesis by blast
    qed
  qed
qed

lemma activate_denied:
  assumes "classify name = Inr kind" "kind = Host_Id \<or> kind = Catalog_Id \<and> \<not> cp_is_admin caller"
  shows "\<exists>e. activate_with tx L caller name reserved fail w = (Inl e, w)"
  using assms by (auto simp: activate_with_def act_eval)

text \<open>
  An activation that fails, at any statement and at the commit included, leaves the tables as they
  were: the promotion is one transaction. So does the failure point of the test between the two
  writes.
\<close>

theorem activation_all_or_nothing:
  assumes "solo w" "snap w = None" and err: "activate_with tx L caller name reserved fail w = (Inl e, w')"
  shows "tabs w' = tabs w"
proof (cases "classify name")
  case (Inl e1)
  with err show ?thesis by (simp add: activate_with_def act_eval)
next
  case kind: (Inr kind)
  show ?thesis
  proof (cases "kind = Host_Id \<or> kind = Catalog_Id \<and> \<not> cp_is_admin caller")
    case True
    from activate_denied [OF kind True, of tx L reserved fail w] err show ?thesis by auto
  next
    case False
    obtain r1 w1 where rd: "read_row tx (toolset_table kind) kind caller name w = (r1, w1)" by fastforce
    then have s1: "solo w1 \<and> snap w1 = snap w \<and> tabs w1 = tabs w"
      using select_solo [OF assms(1)] by (fastforce simp: read_row_def map_err_def split: prod.splits sum.splits)
    have pr: "tabs w2 = tabs w" if "promote tx (toolset_table kind) kind caller name d ver fail w1 = (Inl e2, w2)" for d ver e2 w2
      using promote_atomic [OF _ _ that] s1 assms(2) by simp
    show ?thesis
      using activate_tail [OF kind False rd, of L reserved fail] err s1
      by (elim disjE exE) (simp, auto simp: and_then_eq_Inl return_ok_def dest: pr)
  qed
qed

subsection \<open>Drafts\<close>

lemma store_principal_quiet:
  "quiet w \<Longrightarrow> find_user sub (tabs w) = Some u \<Longrightarrow>
     store_principal tx sub w = (Inr \<lparr>cp_user_id = u_id u, cp_subject = u_subject u,
       cp_is_admin = in_group (u_id u) admin_group_name (tabs w)\<rparr>, w)"
  by (simp add: store_principal_def map_err_def resolve_caller_quiet)

lemma store_principal_unknown:
  "quiet w \<Longrightarrow> find_user sub (tabs w) = None \<Longrightarrow> store_principal tx sub w = (Inl (deny Lym_UnknownSubject), w)"
  by (simp add: store_principal_def map_err_def resolve_caller_quiet)

lemma read_version_quiet:
  assumes "quiet w" "find_user sub (tabs w) = Some u" "classify name = Inr kind" "kind \<noteq> Host_Id"
  shows "read_version tx L sub name c w =
    ((case Option.bind (sql_first (key_table (key_of kind (u_id u) name)) (key_where (key_of kind (u_id u) name)) (tabs w))
             (\<lambda>r. col_json (r c)) of
        None \<Rightarrow> Inr None
      | Some v \<Rightarrow> (case ts_of_json L v of
            Inl _ \<Rightarrow> Inl (Ts_Store (''stored toolset '' @ name @ '' is unreadable''))
          | Inr ts \<Rightarrow> Inr (Some ts))), w)"
  using assms key_of_table [OF assms(4), of "u_id u" name]
  by (cases kind; simp add: read_version_def act_eval store_principal_quiet first_json_quiet Let_def
        split: option.split sum.split)

definition loaded :: "('ts, 'sk) toolset_lib \<Rightarrow> string \<Rightarrow> json option \<Rightarrow> toolsets_error + 'ts option" where
  "loaded L name x =
     (case x of None \<Rightarrow> Inr None
      | Some v \<Rightarrow> (case ts_of_json L v of
            Inl _ \<Rightarrow> Inl (Ts_Store (''stored toolset '' @ name @ '' is unreadable''))
          | Inr ts \<Rightarrow> Inr (Some ts)))"

lemma get_versions_quiet:
  assumes "quiet w" "find_user sub (tabs w) = Some u" "classify name = Inr kind" "kind \<noteq> Host_Id"
  shows "get_draft tx L sub name w =
      (loaded L name (Option.bind (shelf (tabs w) (key_of kind (u_id u) name)) (\<lambda>(a, d, v). d)), w)"
    and "get_active tx L sub name w =
      (loaded L name (Option.bind (shelf (tabs w) (key_of kind (u_id u) name)) (\<lambda>(a, d, v). a)), w)"
  by (cases "sql_first (key_table (key_of kind (u_id u) name)) (key_where (key_of kind (u_id u) name)) (tabs w)";
      simp add: get_draft_def get_active_def read_version_quiet [OF assms] loaded_def shelf_def row_versions_def)+

lemma put_draft_Inr:
  assumes q: "quiet w" and wf: "wf_shelf (tabs w)" and run: "put_draft tx L sub ts w = (Inr (), w')"
  shows "\<exists>u kind v. find_user sub (tabs w) = Some u \<and> classify (ts_name L ts) = Inr kind \<and> kind \<noteq> Host_Id \<and>
    ts_to_json L ts = Some v \<and>
    shelf_step w w' (key_of kind (u_id u) (ts_name L ts)) (spec_put v (ts_version L ts))"
proof (cases "find_user sub (tabs w)")
  case None
  with run show ?thesis by (auto simp: put_draft_def act_eval store_principal_unknown [OF q] split: sum.splits)
next
  case (Some u)
  let ?c = "\<lparr>cp_user_id = u_id u, cp_subject = u_subject u, cp_is_admin = in_group (u_id u) admin_group_name (tabs w)\<rparr>"
  obtain kind where k: "check_write ?c (ts_name L ts) = Inr kind" and wd: "write_draft tx L ts kind ?c w = (Inr (), w')"
    using run Some
    by (cases "check_write ?c (ts_name L ts)")
       (auto simp: put_draft_def act_eval store_principal_quiet [OF q] split: sum.splits)
  then have kk: "classify (ts_name L ts) = Inr kind" "kind \<noteq> Host_Id" by (simp_all add: check_write_Inr)
  obtain v where v: "ts_to_json L ts = Some v"
    using wd by (cases "ts_to_json L ts") (auto simp: write_draft_def fail_with_def)
  show ?thesis
    using write_draft_refines [OF q wf kk(2) v, of tx ?c] wd Some kk v by auto
qed

lemma shelf_step_users: "shelf_step w w' k f \<Longrightarrow> find_user sub (tabs w') = find_user sub (tabs w)"
  by (auto simp: shelf_step_def find_user_def)

lemma spec_put_versions:
  "Option.bind (spec_put v ver x) (\<lambda>(a, d, v). d) = Some v"
  "Option.bind (spec_put v ver x) (\<lambda>(a, d, v). a) = Option.bind x (\<lambda>(a, d, v). a)"
proof -
  have "x = None \<or> (\<exists>d v. x = Some (None, d, v)) \<or> (\<exists>a d v. x = Some (Some a, d, v))"
    by (metis option.exhaust prod_cases3)
  then show "Option.bind (spec_put v ver x) (\<lambda>(a, d, v). d) = Some v"
    "Option.bind (spec_put v ver x) (\<lambda>(a, d, v). a) = Option.bind x (\<lambda>(a, d, v). a)"
    by auto
qed

text \<open>
  What \<open>put_draft\<close> has stored is what \<open>get_draft\<close> reads back, the active version is the one it was,
  and the versions of every other key (another name, another owner, the other table) are untouched.
\<close>

theorem draft_roundtrip:
  assumes "quiet w" "wf_shelf (tabs w)" and run: "put_draft tx L sub ts w = (Inr (), w')"
    and reads: "\<And>v. ts_to_json L ts = Some v \<Longrightarrow> ts_of_json L v = Inr ts"
  shows "get_draft tx L sub (ts_name L ts) w' = (Inr (Some ts), w') \<and>
    fst (get_active tx L sub (ts_name L ts) w') = fst (get_active tx L sub (ts_name L ts) w) \<and>
    (\<exists>k. shelf (tabs w') = (shelf (tabs w))(k := shelf (tabs w') k)) \<and> quiet w' \<and> wf_shelf (tabs w')"
proof -
  obtain u kind v where h: "find_user sub (tabs w) = Some u" "classify (ts_name L ts) = Inr kind" "kind \<noteq> Host_Id"
      "ts_to_json L ts = Some v" and
    step: "shelf_step w w' (key_of kind (u_id u) (ts_name L ts)) (spec_put v (ts_version L ts))"
    using put_draft_Inr [OF assms(1,2) run] by blast
  have q': "quiet w'" using shelf_step_quiet [OF step] assms(1) by simp
  have u': "find_user sub (tabs w') = Some u" using shelf_step_users [OF step] h(1) by simp
  have sh: "shelf (tabs w') = (shelf (tabs w))(key_of kind (u_id u) (ts_name L ts) :=
      spec_put v (ts_version L ts) (shelf (tabs w) (key_of kind (u_id u) (ts_name L ts))))"
    using step by (simp add: shelf_step_def)
  have "get_draft tx L sub (ts_name L ts) w' = (Inr (Some ts), w')"
    by (simp add: get_versions_quiet [OF q' u' h(2,3)] sh spec_put_versions loaded_def reads [OF h(4)])
  moreover have "fst (get_active tx L sub (ts_name L ts) w') = fst (get_active tx L sub (ts_name L ts) w)"
    by (simp add: get_versions_quiet [OF q' u' h(2,3)] get_versions_quiet [OF assms(1) h(1-3)] sh spec_put_versions)
  moreover have "\<exists>k. shelf (tabs w') = (shelf (tabs w))(k := shelf (tabs w') k)"
    by (rule exI [of _ "key_of kind (u_id u) (ts_name L ts)"]) (simp add: sh)
  ultimately show ?thesis using q' step by (simp add: shelf_step_def)
qed

lemma statement_dialect: "statement f w = (r, w') \<Longrightarrow> dialect w' = dialect w"
  by (auto simp: statement_def arrive_def taint_def split: list.splits option.splits sum.splits if_splits)

lemma begin_dialect: "begin_txn w = (r, w') \<Longrightarrow> dialect w' = dialect w"
  by (auto simp: begin_txn_def arrive_def split: list.splits option.splits)

lemma statement_refused: "\<exists>e w'. statement (\<lambda>t. Inl err) w = (Inl e, w')"
  by (auto simp: statement_def split: prod.split option.split)

lemma promote_postgres:
  assumes "dialect w = Postgres"
  shows "\<exists>e w'. promote tx table kind caller name d ver fail w = (Inl e, w')"
proof -
  obtain r1 w1 where b: "begin_txn w = (r1, w1)" by fastforce
  show ?thesis
  proof (cases r1)
    case (Inl e)
    with b show ?thesis by (simp add: promote_def act_eval)
  next
    case (Inr u)
    have "dialect w1 = Postgres" using begin_dialect [OF b] assms by simp
    moreover obtain e w2 where "statement (\<lambda>t. Inl json_equality_err :: dberr + (nat \<times> sql_tables)) w1 = (Inl e, w2)"
      using statement_refused by blast
    ultimately have "update_promote tx table kind caller name d ver w1 = (Inl (store_error tx e), w2)"
      by (simp add: update_promote_def json_eq_statement_def act_eval)
    with b Inr show ?thesis by (simp add: promote_def in_transaction_def act_eval)
  qed
qed

text \<open>
  On PostgreSQL no activation ever succeeds: the guard of the promotion compares the column
  \<open>draft\<close>, which the migration declares as \<open>json\<close>, with the draft that was read, and that type has
  no equality there. On every world, whatever the draft.
\<close>

theorem postgres_activation_fails:
  assumes "dialect w = Postgres"
  shows "\<exists>e. fst (activate_toolset tx L caller name w) = Inl e"
proof (cases "classify name")
  case (Inl e1)
  then show ?thesis by (simp add: activate_toolset_def activate_with_def act_eval)
next
  case kind: (Inr kind)
  show ?thesis
  proof (cases "kind = Host_Id \<or> kind = Catalog_Id \<and> \<not> cp_is_admin caller")
    case True
    from activate_denied [OF kind True, of tx L admin_only_modules False w] show ?thesis
      by (auto simp: activate_toolset_def)
  next
    case False
    obtain r1 w1 where rd: "read_row tx (toolset_table kind) kind caller name w = (r1, w1)" by fastforce
    then have "dialect w1 = Postgres"
      using assms statement_dialect [of _ w]
      by (fastforce simp: read_row_def map_err_def select_def split: prod.splits sum.splits)
    then have pr: "\<exists>e w2. promote tx (toolset_table kind) kind caller name d ver False w1 = (Inl e, w2)" for d ver
      by (rule promote_postgres)
    from activate_tail [OF kind False rd, of L admin_only_modules False] show ?thesis
      unfolding activate_toolset_def
    proof (elim disjE exE)
      fix d ver rep
      assume eq: "activate_with tx L caller name admin_only_modules False w =
        and_then (promote tx (toolset_table kind) kind caller name d ver False) (\<lambda>_. return_ok rep) w1"
      obtain e w2 where "promote tx (toolset_table kind) kind caller name d ver False w1 = (Inl e, w2)"
        using pr by blast
      with eq show "\<exists>e. fst (activate_with tx L caller name admin_only_modules False w) = Inl e"
        by (simp add: and_then_Inl)
    qed simp
  qed
qed

subsection \<open>Contexts\<close>

text \<open>
  A context that \<open>put_context\<close> stores binds its roles only to MCP servers that exist and that the
  author may use at that moment, and its name is one the author may write.
\<close>

definition usable_reference :: "caller_principal \<Rightarrow> sql_tables \<Rightarrow> json \<Rightarrow> bool" where
  "usable_reference caller t v \<longleftrightarrow>
     (\<exists>name row. v = JString name \<and> (mcp_servers_table, row) \<in> set (rows t) \<and>
        ms_name (mcp_server_of_row row) = name \<and>
        may_use_groups caller (ms_allowed_groups (mcp_server_of_row row)) t)"

lemma check_roles_Inr:
  "quiet w \<Longrightarrow> check_roles tx caller name vs w = (Inr u, w') \<Longrightarrow>
     w' = w \<and> list_all (usable_reference caller (tabs w)) vs"
proof (induction vs)
  case (Cons v vs)
  obtain ref where ref: "as_str v = Some ref"
    using Cons.prems by (cases "as_str v") (auto simp: fail_with_def)
  obtain row where row: "sql_first mcp_servers_table [Col_Eq ''name'' (VText (Some ref))] (tabs w) = Some row"
      "may_use_groups caller (ms_allowed_groups (mcp_server_of_row row)) (tabs w)"
    and rest: "check_roles tx caller name vs w = (Inr u, w')"
    using Cons.prems(2) ref
    by (auto simp: act_eval server_for_quiet [OF Cons.prems(1)] split: option.splits if_splits)
  have "usable_reference caller (tabs w) v"
    using sql_first_Some [OF row(1)] row(2) ref
    by (auto simp: usable_reference_def as_str_Some mcp_server_of_row_def intro!: exI [of _ row])
  with Cons.IH [OF Cons.prems(1) rest] show ?case by simp
qed (simp add: return_ok_def)

theorem stored_context_roles_usable:
  assumes q: "quiet w" and run: "put_context tx C sub cx w = (Inr (), w')"
  shows "\<exists>v u kind name. cx_to_json C cx = Some v \<and> find_user sub (tabs w) = Some u \<and>
    json_get v ''name'' = Some (JString name) \<and> classify name = Inr kind \<and> kind \<noteq> Host_Id \<and>
    (kind = Catalog_Id \<longrightarrow> in_group (u_id u) admin_group_name (tabs w)) \<and>
    (case Option.bind (json_get v ''roles'') as_object of None \<Rightarrow> True
     | Some roles \<Rightarrow> list_all (usable_reference \<lparr>cp_user_id = u_id u, cp_subject = u_subject u,
         cp_is_admin = in_group (u_id u) admin_group_name (tabs w)\<rparr> (tabs w)) (map snd roles))"
proof -
  obtain v where v: "cx_to_json C cx = Some v"
    using run by (cases "cx_to_json C cx") (auto simp: put_context_def fail_with_def)
  obtain name where name: "stored_field v ''name'' ''toolset context'' = Inr name"
    using run v by (cases "stored_field v ''name'' ''toolset context''") (auto simp: put_context_def act_eval)
  then have nm: "json_get v ''name'' = Some (JString name)"
    by (auto simp: stored_field_def bind_eq_Some_conv as_str_Some split: option.splits)
  obtain u where u: "find_user sub (tabs w) = Some u"
    using run v name by (cases "find_user sub (tabs w)") (auto simp: put_context_def act_eval store_principal_unknown [OF q])
  let ?c = "\<lparr>cp_user_id = u_id u, cp_subject = u_subject u, cp_is_admin = in_group (u_id u) admin_group_name (tabs w)\<rparr>"
  obtain kind where k: "check_write ?c name = Inr kind"
    using run v name u
    by (cases "check_write ?c name") (auto simp: put_context_def act_eval store_principal_quiet [OF q u])
  then have kk: "classify name = Inr kind" "kind \<noteq> Host_Id" "kind = Catalog_Id \<longrightarrow> in_group (u_id u) admin_group_name (tabs w)"
    by (simp_all add: check_write_Inr)
  have "case Option.bind (json_get v ''roles'') as_object of None \<Rightarrow> True
     | Some roles \<Rightarrow> list_all (usable_reference ?c (tabs w)) (map snd roles)"
  proof (cases "Option.bind (json_get v ''roles'') as_object")
    case (Some roles)
    obtain r1 w1 where cr: "check_roles tx ?c name (map snd roles) w = (r1, w1)" by fastforce
    obtain x where "r1 = Inr x"
      using run v name k cr Some
      by (cases r1) (auto simp: put_context_def act_eval store_principal_quiet [OF q u])
    with cr check_roles_Inr [OF q] Some show ?thesis by auto
  qed simp
  with v u nm kk show ?thesis by blast
qed

subsection \<open>Instances\<close>

lemma statement_upsert_quiet: "quiet w \<Longrightarrow> \<exists>w'. statement (sql_upsert table vals keys updates) w = (Inr (), w')"
proof -
  assume q: "quiet w"
  obtain t' where "sql_upsert table vals keys updates (tabs w) = Inr ((), t')"
    by (cases "rows_where table (key_conds keys vals) (tabs w) = []") (simp_all add: sql_upsert_def sql_update_def)
  then show ?thesis
    using statement_quiet_Inr [of w "sql_upsert table vals keys updates", OF q] by blast
qed

definition json_text :: "json \<Rightarrow> string \<Rightarrow> string" where
  "json_text j c = (case Option.bind (json_get j c) as_str of Some s \<Rightarrow> s | None \<Rightarrow> [])"

definition demo_toolset_lib :: "(json, unit) toolset_lib" where
  "demo_toolset_lib =
     \<lparr>ts_of_json = Inr, ts_to_json = Some, ts_name = (\<lambda>j. json_text j ''name''),
      ts_version = (\<lambda>j. json_text j ''version''), ts_source = (\<lambda>j. []), ts_skills = (\<lambda>j. []),
      sk_name = (\<lambda>s. []), sk_description = (\<lambda>s. []), sk_body = (\<lambda>s. []),
      extract_contract = (\<lambda>s. Inr ()), check_size = (\<lambda>s n. Inr ()), check_template = (\<lambda>s t. Inr ()),
      ts_error_text = (\<lambda>e. [])\<rparr>"

definition demo_toolset :: "string \<Rightarrow> string \<Rightarrow> json" where
  "demo_toolset n v = JObject [(''name'', JString n), (''version'', JString v)]"

definition demo_toolset_row :: row where
  "demo_toolset_row = (\<lambda>_. VText None)(''toolset_id'' := VText (Some ''G_t''), ''version'' := VText (Some ''1''),
     ''active'' := VJson (Some (demo_toolset ''G_t'' ''1'')), ''draft'' := VJson (Some (demo_toolset ''G_t'' ''2'')))"

definition demo_shelf :: sql_world where
  "demo_shelf = demo_world [(catalog_toolsets_table, demo_toolset_row)]"

lemma demo_shelf_wf: "wf_shelf (tabs demo_shelf)"
proof -
  have "length (key_rows k (tabs demo_shelf)) \<le> length (rows (tabs demo_shelf))" for k
    by (simp add: rows_where_def)
  then show ?thesis by (simp add: wf_shelf_def demo_shelf_def demo_tables_def)
qed

lemma demo_toolset_get [simp]:
  "json_get (demo_toolset n v) ''name'' = Some (JString n)"
  "json_get (demo_toolset n v) ''version'' = Some (JString v)"
  "json_get (demo_toolset n v) ''modules'' = None"
  by (simp_all add: demo_toolset_def json_get_def)

lemma demo_toolset_names [simp]:
  "ts_name demo_toolset_lib (demo_toolset n v) = n" "ts_version demo_toolset_lib (demo_toolset n v) = v"
  by (simp_all add: demo_toolset_lib_def json_text_def)

lemma demo_of_json [simp]: "ts_of_json demo_toolset_lib j = Inr j"
  by (simp add: demo_toolset_lib_def)

lemma demo_check [simp]: "check_toolset demo_toolset_lib j = Inr ()"
  by (simp add: check_toolset_def demo_toolset_lib_def)

lemma demo_shelf_at:
  "shelf (tabs demo_shelf) (Catalog_Key ''G_t'') =
     Some (Some (demo_toolset ''G_t'' ''1''), Some (demo_toolset ''G_t'' ''2''), ''1'')"
  by (simp add: shelf_rows rows_where_def sql_match_def demo_shelf_def demo_tables_def demo_toolset_row_def
      row_versions_def)

lemma classify_demo: "classify ''G_t'' = Inr Catalog_Id"
  by code_simp

lemma demo_activable:
  "activable demo_toolset_lib (demo_caller True) ''G_t'' admin_only_modules (tabs demo_shelf)
     (Catalog_Key ''G_t'') ''2'' (Some ''1'')"
  unfolding activable_def
  by (rule exI [of _ Catalog_Id]) (auto simp: classify_demo demo_caller_def demo_shelf_at check_grants_def
      intro!: exI [of _ "demo_toolset ''G_t'' ''2''"])


theorem activation_all_or_nothing_witness:
  "\<exists>e w'. activate_with demo_texts demo_toolset_lib (demo_caller False) ''G_t'' [] True demo_shelf = (Inl e, w') \<and>
     tabs w' = tabs demo_shelf"
proof -
  have h: "solo demo_shelf" "snap demo_shelf = None"
    by (simp_all add: demo_shelf_def demo_world_def solo_def)
  obtain e where "activate_with demo_texts demo_toolset_lib (demo_caller False) ''G_t'' [] True demo_shelf =
      (Inl e, demo_shelf)"
    using activate_denied [OF classify_demo, where caller = "demo_caller False" and tx = demo_texts
        and L = demo_toolset_lib and reserved = "[]" and fail = True and w = demo_shelf]
    by (auto simp: demo_caller_def)
  then show ?thesis using activation_all_or_nothing [OF h] by blast
qed

theorem draft_roundtrip_witness:
  "\<exists>w'. put_draft demo_texts demo_toolset_lib ''ana'' (demo_toolset ''mine'' ''1'') demo_shelf = (Inr (), w') \<and>
     get_draft demo_texts demo_toolset_lib ''ana'' ''mine'' w' = (Inr (Some (demo_toolset ''mine'' ''1'')), w')"
proof -
  have q: "quiet demo_shelf" by (simp add: demo_shelf_def)
  have u: "find_user ''ana'' (tabs demo_shelf) = Some (demo_user 1)"
    by (simp add: demo_shelf_def find_user_def demo_tables_def demo_user_def)
  let ?c = "\<lparr>cp_user_id = u_id (demo_user 1), cp_subject = u_subject (demo_user 1),
      cp_is_admin = in_group (u_id (demo_user 1)) admin_group_name (tabs demo_shelf)\<rparr>"
  have "classify ''mine'' = Inr Private_Id" by code_simp
  then have k: "check_write ?c ''mine'' = Inr Private_Id" by (simp add: check_write_Inr)
  have t: "ts_to_json demo_toolset_lib x = Some x" for x by (simp add: demo_toolset_lib_def)
  obtain w' where "write_draft demo_texts demo_toolset_lib (demo_toolset ''mine'' ''1'') Private_Id ?c demo_shelf = (Inr (), w')"
    using write_draft_refines [OF q demo_shelf_wf _ t, of Private_Id demo_texts "demo_toolset ''mine'' ''1''" ?c] by auto
  then have run: "put_draft demo_texts demo_toolset_lib ''ana'' (demo_toolset ''mine'' ''1'') demo_shelf = (Inr (), w')"
    using k by (simp add: put_draft_def act_eval store_principal_quiet [OF q u])
  have "get_draft demo_texts demo_toolset_lib ''ana'' (ts_name demo_toolset_lib (demo_toolset ''mine'' ''1'')) w' =
      (Inr (Some (demo_toolset ''mine'' ''1'')), w')"
    using draft_roundtrip [OF q demo_shelf_wf run] by (simp add: demo_toolset_lib_def)
  with run show ?thesis by simp
qed

theorem postgres_activation_fails_witness:
  "\<exists>e. fst (activate_toolset demo_texts demo_toolset_lib (demo_caller True) ''G_t''
     (demo_shelf\<lparr>dialect := Postgres\<rparr>)) = Inl e"
  by (rule postgres_activation_fails) simp

definition demo_roles_lib :: "(unit, json) context_lib" where
  "demo_roles_lib =
     \<lparr>ct_of_json = (\<lambda>j. Inr ()), ct_to_json = (\<lambda>t. None), ct_default_agent = (\<lambda>t. None),
      cx_of_json = Inr, cx_to_json = Some\<rparr>"

theorem stored_context_roles_usable_witness:
  "let w = demo_world [(mcp_servers_table, demo_server_row ''search'' [JString ''all''])];
       cx = JObject [(''name'', JString ''mine''), (''roles'', JObject [(''find'', JString ''search'')])] in
   (\<exists>w'. put_context demo_texts demo_roles_lib ''ana'' cx w = (Inr (), w')) \<and>
   (\<exists>c. usable_reference c (tabs w) (JString ''search''))"
proof -
  define row where "row = demo_server_row ''search'' [JString ''all'']"
  define w where "w = demo_world [(mcp_servers_table, row)]"
  define cx where "cx = JObject [(''name'', JString ''mine''), (''roles'', JObject [(''find'', JString ''search'')])]"
  have q: "quiet w" by (simp add: w_def)
  have u: "find_user ''ana'' (tabs w) = Some (demo_user 1)"
    by (simp add: w_def find_user_def demo_tables_def demo_user_def)
  let ?c = "\<lparr>cp_user_id = u_id (demo_user 1), cp_subject = u_subject (demo_user 1),
      cp_is_admin = in_group (u_id (demo_user 1)) admin_group_name (tabs w)\<rparr>"
  have "classify ''mine'' = Inr Private_Id" by code_simp
  then have k: "check_write ?c ''mine'' = Inr Private_Id" by (simp add: check_write_Inr)
  have f: "sql_first mcp_servers_table [Col_Eq ''name'' (VText (Some ''search''))] (tabs w) = Some row"
    by (simp add: sql_first_def rows_where_def sql_match_def w_def demo_tables_def)
       (simp add: row_def demo_server_row_def)
  have g: "ms_allowed_groups (mcp_server_of_row row) = JArray [JString ''all'']"
    by (simp add: mcp_server_of_row_def row_def demo_server_row_def)
  have j: "json_get cx ''name'' = Some (JString ''mine'')"
      "json_get cx ''roles'' = Some (JObject [(''find'', JString ''search'')])"
    by (simp_all add: cx_def json_get_def)
  obtain w' where up: "statement (sql_upsert user_contexts_table
      [(''owner_id'', VInt (Some (cp_user_id ?c))), (''name'', VText (Some ''mine'')),
       (''context'', VJson (Some cx)), (''created_at'', VInt (Some (clock w)))]
      [''owner_id'', ''name''] [''context'']) w = (Inr (), w')"
    using statement_upsert_quiet [OF q] by blast
  have run: "put_context demo_texts demo_roles_lib ''ana'' cx w = (Inr (), w')"
    using k j up
    by (simp add: put_context_def demo_roles_lib_def act_eval stored_field_def store_principal_quiet [OF q u]
        server_for_quiet [OF q] f may_use_groups_def g utc_now_def)
  have "\<exists>c. usable_reference c (tabs w) (JString ''search'')"
    using stored_context_roles_usable [OF q run] j by (auto simp: demo_roles_lib_def)
  with run show ?thesis unfolding w_def row_def cx_def by (auto simp: Let_def)
qed

end
