(* ===== verification/Lymaille_Stores.thy ===== *)
theory Lymaille_Stores
  imports Toolset_Store
begin

text \<open>
  The other stores of the Lymaille host: agents, profiles and providers (\<open>store/catalog.rs\<close>),
  memories (\<open>store/memory.rs\<close>), sessions and their index (\<open>store/session.rs\<close>,
  \<open>store/session_index.rs\<close>), the audit of script errors (\<open>store/audit.rs\<close>) and the purge
  (\<open>store/purge.rs\<close>). The locale \<open>text_store\<close> is interpreted on the memories
  and the sessions.
\<close>

section \<open>Agents, profiles and providers\<close>

definition catalog_agents_table :: string where
  "catalog_agents_table = ''miryad_lymaille_catalog_agents''"
definition private_agents_table :: string where
  "private_agents_table = ''miryad_lymaille_agents''"
definition profiles_table :: string where "profiles_table = ''miryad_lymaille_profiles''"
definition providers_table :: string where "providers_table = ''miryad_lymaille_providers''"

text \<open>\<open>AgentsError::Store\<close>, and the refusals of the library with their text.\<close>

datatype agents_error = Ag_Store string | Ag_Other string

record ('ag, 'pf, 'pv) agent_io =
  ag_to_json :: "'ag \<Rightarrow> json option"
  pf_to_json :: "'pf \<Rightarrow> json option"
  pv_to_json :: "'pv \<Rightarrow> json option"

abbreviation ag_store_error :: "db_texts \<Rightarrow> dberr \<Rightarrow> agents_error" where
  "ag_store_error tx e \<equiv> Ag_Store (db_text tx e)"

definition ag_deny :: "lymaille_error \<Rightarrow> agents_error" where
  "ag_deny e = Ag_Store (lymaille_error_text e)"

definition ag_principal ::
    "db_texts \<Rightarrow> string \<Rightarrow> ('m tables world, agents_error, caller_principal) act" where
  "ag_principal tx sub = map_err ag_deny (resolve_caller tx sub)"

definition ag_require_admin ::
    "db_texts \<Rightarrow> string \<Rightarrow> string \<Rightarrow> ('m tables world, agents_error, unit) act" where
  "ag_require_admin tx sub what =
     and_then (ag_principal tx sub) (\<lambda>caller.
       if cp_is_admin caller then return_ok ()
       else fail_with (ag_deny (Lym_Forbidden (what @ '' requires admin''))))"

definition get_agent ::
    "db_texts \<Rightarrow> ('ag, 'pf, 'pv) agent_lib \<Rightarrow> string \<Rightarrow> string \<Rightarrow> (sql_world, agents_error, 'ag option) act" where
  "get_agent tx A sub i =
     (case classify i of
        Inl _ \<Rightarrow> return_ok None
      | Inr kind \<Rightarrow>
          if kind = Host_Id then return_ok None
          else and_then (ag_principal tx sub) (\<lambda>caller.
            let (table, conds) = (if kind = Catalog_Id
                  then (catalog_agents_table, [Col_Eq ''agent_id'' (VText (Some i))])
                  else (private_agents_table, [Col_Eq ''owner_id'' (VInt (Some (cp_user_id caller))),
                        Col_Eq ''agent_id'' (VText (Some i))])) in
            and_then (map_err (ag_store_error tx) (first_json table conds ''definition''))
              (\<lambda>stored. case stored of None \<Rightarrow> return_ok None
               | Some v \<Rightarrow> (case ag_of_json A v of
                     Inl _ \<Rightarrow> fail_with (Ag_Store (''stored agent definition '' @ i @ '' is unreadable''))
                   | Inr d \<Rightarrow> return_ok (Some d)))))"

definition put_agent ::
    "db_texts \<Rightarrow> ('ag, 'pf, 'pv) agent_lib \<Rightarrow> ('ag, 'pf, 'pv) agent_io \<Rightarrow> string \<Rightarrow> 'ag \<Rightarrow>
       (sql_world, agents_error, unit) act" where
  "put_agent tx A AJ sub d =
     and_then (map_err Ag_Other (lift_result (ag_validate A d))) (\<lambda>_.
     and_then (ag_principal tx sub) (\<lambda>caller.
     and_then (map_err ag_deny (lift_result (check_write caller (ag_id A d)))) (\<lambda>kind.
     case ag_to_json AJ d of
       None \<Rightarrow> fail_with (Ag_Store ''agent definition could not be serialized'')
     | Some v \<Rightarrow>
     (case Option.bind (ag_kind A d) as_str of
       None \<Rightarrow> fail_with (Ag_Store ''agent kind is not a text'')
     | Some nature \<Rightarrow>
     and_then utc_now (\<lambda>now.
     let vals = [(''agent_id'', VText (Some (ag_id A d))), (''kind'', VText (Some nature)),
           (''profile'', VText (Some (ag_profile A d))), (''definition'', VJson (Some v)),
           (''created_at'', VInt (Some now))] in
     case kind of
       Catalog_Id \<Rightarrow> map_err (ag_store_error tx) (statement
         (sql_upsert catalog_agents_table vals [''agent_id''] [''kind'', ''profile'', ''definition'']))
     | Private_Id \<Rightarrow> map_err (ag_store_error tx) (statement
         (sql_upsert private_agents_table ((''owner_id'', VInt (Some (cp_user_id caller))) # vals)
            [''owner_id'', ''agent_id''] [''kind'', ''profile'', ''definition'']))
     | Host_Id \<Rightarrow> fail_with (ag_deny (Lym_Forbidden ''host identifiers are not writable'')))))))"

definition get_profile ::
    "db_texts \<Rightarrow> ('ag, 'pf, 'pv) agent_lib \<Rightarrow> string \<Rightarrow> (sql_world, agents_error, 'pf option) act" where
  "get_profile tx A name =
     and_then (map_err (ag_store_error tx)
         (first_json profiles_table [Col_Eq ''name'' (VText (Some name))] ''profile''))
       (\<lambda>stored. case stored of None \<Rightarrow> return_ok None
        | Some v \<Rightarrow> (case pf_of_json A v of
              Inl _ \<Rightarrow> fail_with (Ag_Store (''stored model profile '' @ name @ '' is unreadable''))
            | Inr p \<Rightarrow> return_ok (Some p)))"

definition put_profile ::
    "db_texts \<Rightarrow> ('ag, 'pf, 'pv) agent_lib \<Rightarrow> ('ag, 'pf, 'pv) agent_io \<Rightarrow> string \<Rightarrow> 'pf \<Rightarrow>
       (sql_world, agents_error, unit) act" where
  "put_profile tx A AJ sub profile =
     and_then (ag_require_admin tx sub ''model profile write'') (\<lambda>_.
     case pf_to_json AJ profile of
       None \<Rightarrow> fail_with (Ag_Store ''model profile could not be serialized'')
     | Some v \<Rightarrow> and_then utc_now (\<lambda>now. map_err (ag_store_error tx) (statement
         (sql_upsert profiles_table
            [(''name'', VText (Some (pf_name A profile))), (''profile'', VJson (Some v)),
             (''created_at'', VInt (Some now))] [''name''] [''profile'']))))"

definition get_provider ::
    "db_texts \<Rightarrow> ('ag, 'pf, 'pv) agent_lib \<Rightarrow> string \<Rightarrow> (sql_world, agents_error, 'pv option) act" where
  "get_provider tx A name =
     and_then (map_err (ag_store_error tx)
         (first_json providers_table [Col_Eq ''name'' (VText (Some name))] ''provider''))
       (\<lambda>stored. case stored of None \<Rightarrow> return_ok None
        | Some v \<Rightarrow> (case pv_of_json A v of
              Inl _ \<Rightarrow> fail_with (Ag_Store (''stored provider '' @ name @ '' is unreadable''))
            | Inr p \<Rightarrow> return_ok (Some p)))"

definition put_provider ::
    "db_texts \<Rightarrow> ('ag, 'pf, 'pv) agent_lib \<Rightarrow> ('ag, 'pf, 'pv) agent_io \<Rightarrow> string \<Rightarrow> 'pv \<Rightarrow>
       (sql_world, agents_error, unit) act" where
  "put_provider tx A AJ sub provider =
     and_then (ag_require_admin tx sub ''provider write'') (\<lambda>_.
     case pv_to_json AJ provider of
       None \<Rightarrow> fail_with (Ag_Store ''provider could not be serialized'')
     | Some v \<Rightarrow>
     (case Option.bind (pv_level A provider) as_str of
       None \<Rightarrow> fail_with (Ag_Store ''provider level is not a text'')
     | Some level \<Rightarrow> and_then utc_now (\<lambda>now. map_err (ag_store_error tx) (statement
         (sql_upsert providers_table
            [(''name'', VText (Some (pv_name A provider))), (''kind'', VText (Some (pv_kind A provider))),
             (''level'', VText (Some level)), (''provider'', VJson (Some v)),
             (''created_at'', VInt (Some now))] [''name''] [''kind'', ''level'', ''provider''])))))"

section \<open>Memories\<close>

definition memories_table :: string where "memories_table = ''miryad_lymaille_memories''"

datatype modules_error = Mod_Store string

text \<open>A \<open>MemoryScope\<close> is the text of its level and its reference; a memory is of the library.\<close>

record memory_scope =
  sc_level :: string
  sc_reference :: string

record ('me, 'su) memory_lib =
  me_of_json :: "json \<Rightarrow> string + 'me"
  me_to_json :: "'me \<Rightarrow> json option"
  me_id :: "'me \<Rightarrow> string"
  me_summary :: "'me \<Rightarrow> 'su"

definition memory_scoped :: "string \<Rightarrow> memory_scope \<Rightarrow> sql_cond list" where
  "memory_scoped sub scope =
     [Col_Eq ''subject'' (VText (Some sub)), Col_Eq ''level'' (VText (Some (sc_level scope))),
      Col_Eq ''reference'' (VText (Some (sc_reference scope)))]"

definition decode_memory :: "('me, 'su) memory_lib \<Rightarrow> json \<Rightarrow> modules_error + 'me" where
  "decode_memory M v =
     (case me_of_json M v of Inl _ \<Rightarrow> Inl (Mod_Store ''stored memory is unreadable'') | Inr m \<Rightarrow> Inr m)"

definition row_memory :: "row \<Rightarrow> json" where
  "row_memory r = (case col_json (r ''memory'') of Some j \<Rightarrow> j | None \<Rightarrow> JNull)"

definition memory_list ::
    "db_texts \<Rightarrow> ('me, 'su) memory_lib \<Rightarrow> string \<Rightarrow> memory_scope \<Rightarrow> (sql_world, modules_error, 'su list) act" where
  "memory_list tx M sub scope =
     and_then (map_err (\<lambda>e. Mod_Store (db_text tx e)) (select (\<lambda>t.
         sort_key (\<lambda>r. col_text (r ''memory_id'')) (rows_where memories_table (memory_scoped sub scope) t))))
       (\<lambda>rs. and_then (for_each rs (\<lambda>r. lift_result (decode_memory M (row_memory r))))
         (\<lambda>ms. return_ok (map (me_summary M) ms)))"

definition memory_get ::
    "db_texts \<Rightarrow> ('me, 'su) memory_lib \<Rightarrow> string \<Rightarrow> memory_scope \<Rightarrow> string \<Rightarrow>
       (sql_world, modules_error, 'me option) act" where
  "memory_get tx M sub scope i =
     and_then (map_err (\<lambda>e. Mod_Store (db_text tx e)) (select (sql_first memories_table
         (memory_scoped sub scope @ [Col_Eq ''memory_id'' (VText (Some i))]))))
       (\<lambda>found. case found of None \<Rightarrow> return_ok None
        | Some r \<Rightarrow> and_then (lift_result (decode_memory M (row_memory r))) (\<lambda>m. return_ok (Some m)))"

definition memory_put ::
    "db_texts \<Rightarrow> ('me, 'su) memory_lib \<Rightarrow> string \<Rightarrow> memory_scope \<Rightarrow> 'me \<Rightarrow> (sql_world, modules_error, unit) act" where
  "memory_put tx M sub scope m =
     (case me_to_json M m of
        None \<Rightarrow> fail_with (Mod_Store ''memory could not be serialized'')
      | Some v \<Rightarrow> map_err (\<lambda>e. Mod_Store (db_text tx e)) (statement
          (sql_upsert memories_table
             [(''subject'', VText (Some sub)), (''level'', VText (Some (sc_level scope))),
              (''reference'', VText (Some (sc_reference scope))), (''memory_id'', VText (Some (me_id M m))),
              (''memory'', VJson (Some v))]
             [''subject'', ''level'', ''reference'', ''memory_id''] [''memory''])))"

definition memory_delete ::
    "db_texts \<Rightarrow> string \<Rightarrow> memory_scope \<Rightarrow> string \<Rightarrow> (sql_world, modules_error, bool) act" where
  "memory_delete tx sub scope i =
     and_then (map_err (\<lambda>e. Mod_Store (db_text tx e)) (statement (sql_delete memories_table
         (memory_scoped sub scope @ [Col_Eq ''memory_id'' (VText (Some i))]))))
       (\<lambda>n. return_ok (0 < n))"

section \<open>Sessions\<close>

definition sessions_table :: string where "sessions_table = ''miryad_lymaille_sessions''"

datatype session_error = Ses_Store string | Ses_Other string

text \<open>
  \<open>SessionState\<close> of the library: its text form, its identifier, kind, agent and review label. A
  kind is what \<open>serde_json::to_value\<close> makes of it, with its debug text.
\<close>

record 'st session_lib =
  st_of_text :: "string \<Rightarrow> session_error + 'st"
  st_to_text :: "'st \<Rightarrow> session_error + string"
  st_id :: "'st \<Rightarrow> string"
  st_kind :: "'st \<Rightarrow> json option \<times> string"
  st_agent :: "'st \<Rightarrow> string"
  st_review_requested :: "'st \<Rightarrow> bool"

definition kind_text :: "json option \<times> string \<Rightarrow> session_error + string" where
  "kind_text k =
     (case fst k of
        Some (JString s) \<Rightarrow> Inr s
      | _ \<Rightarrow> Inl (Ses_Store (''session kind '' @ snd k @ '' has no stored text form'')))"

definition session_load ::
    "db_texts \<Rightarrow> 'st session_lib \<Rightarrow> string \<Rightarrow> string \<Rightarrow> (sql_world, session_error, 'st option) act" where
  "session_load tx S sub i =
     and_then (map_err (\<lambda>e. Ses_Store (db_text tx e)) (select (sql_first sessions_table
         [Col_Eq ''subject'' (VText (Some sub)), Col_Eq ''session_id'' (VText (Some i))])))
       (\<lambda>found. case found of None \<Rightarrow> return_ok None
        | Some r \<Rightarrow> and_then (lift_result (st_of_text S (col_text (r ''state'')))) (\<lambda>st. return_ok (Some st)))"

definition session_save ::
    "db_texts \<Rightarrow> 'st session_lib \<Rightarrow> string \<Rightarrow> 'st \<Rightarrow> (sql_world, session_error, unit) act" where
  "session_save tx S sub st =
     and_then (lift_result (st_to_text S st)) (\<lambda>text1.
     and_then (lift_result (kind_text (st_kind S st))) (\<lambda>kind.
     and_then utc_now (\<lambda>now.
     map_err (\<lambda>e. Ses_Store (db_text tx e)) (statement (sql_upsert sessions_table
       [(''subject'', VText (Some sub)), (''session_id'', VText (Some (st_id S st))),
        (''kind'', VText (Some kind)), (''state'', VText (Some text1)), (''updated_at'', VInt (Some now))]
       [''subject'', ''session_id''] [''kind'', ''state'', ''updated_at''])))))"

subsection \<open>The index\<close>

definition script_errors_table :: string where "script_errors_table = ''miryad_lymaille_script_errors''"
definition default_limit :: nat where "default_limit = 50"
definition max_limit :: nat where "max_limit = 200"

record session_filter =
  sf_kind :: "(json option \<times> string) option"
  sf_agent :: "string option"
  sf_review :: bool
  sf_limit :: "nat option"

definition index_principal ::
    "db_texts \<Rightarrow> string \<Rightarrow> ('m tables world, session_error, caller_principal) act" where
  "index_principal tx sub = map_err (\<lambda>e. Ses_Store (lymaille_error_text e)) (resolve_caller tx sub)"

text \<open>
  The loop over the rows, most recent first: it stops at the limit; an unreadable state, one that
  the filter excludes and an empty identifier are skipped.
\<close>

fun collect_sessions ::
    "'st session_lib \<Rightarrow> session_filter \<Rightarrow> nat \<Rightarrow> string list \<Rightarrow> row list \<Rightarrow> string list" where
  "collect_sessions S f limit ids [] = ids"
| "collect_sessions S f limit ids (r # rs) =
     (if limit \<le> length ids then ids
      else case st_of_text S (col_text (r ''state'')) of
        Inl _ \<Rightarrow> collect_sessions S f limit ids rs
      | Inr st \<Rightarrow>
          if (case sf_agent f of None \<Rightarrow> False | Some a \<Rightarrow> st_agent S st \<noteq> a)
          then collect_sessions S f limit ids rs
          else if sf_review f \<and> \<not> st_review_requested S st then collect_sessions S f limit ids rs
          else if col_text (r ''session_id'') = [] then collect_sessions S f limit ids rs
          else collect_sessions S f limit (ids @ [col_text (r ''session_id'')]) rs)"

definition index_list ::
    "db_texts \<Rightarrow> 'st session_lib \<Rightarrow> string \<Rightarrow> session_filter \<Rightarrow> (sql_world, session_error, string list) act" where
  "index_list tx S sub f =
     and_then (index_principal tx sub) (\<lambda>caller.
     and_then (case sf_kind f of None \<Rightarrow> return_ok []
               | Some k \<Rightarrow> and_then (lift_result (kind_text k)) (\<lambda>s. return_ok [Col_Eq ''kind'' (VText (Some s))]))
       (\<lambda>kind_conds.
     and_then (map_err (\<lambda>e. Ses_Store (db_text tx e)) (select (\<lambda>t.
         sort_key (\<lambda>r. - row_int (r ''updated_at''))
           (rows_where sessions_table
             ((if cp_is_admin caller then [] else [Col_Eq ''subject'' (VText (Some sub))]) @ kind_conds) t))))
       (\<lambda>rs.
       let limit = min (case sf_limit f of Some n \<Rightarrow> n | None \<Rightarrow> default_limit) max_limit in
       return_ok (collect_sessions S f limit [] rs))))"

datatype script_error_class =
  Syntax | Runtime | Script_NotFound | Limit | Cancelled | Engine | Script_Internal

definition index_error_class :: "string option \<Rightarrow> script_error_class" where
  "index_error_class s =
     (if s = Some ''syntax'' then Syntax else if s = Some ''runtime'' then Runtime
      else if s = Some ''not_found'' then Script_NotFound else if s = Some ''limit'' then Limit
      else if s = Some ''cancelled'' then Cancelled else if s = Some ''engine'' then Engine
      else Script_Internal)"

text \<open>A \<open>ScriptError\<close>: its turn, class and text.\<close>

definition script_error_of_row :: "row \<Rightarrow> nat \<times> script_error_class \<times> string" where
  "script_error_of_row r =
     (case col_int (r ''turn'') of Some i \<Rightarrow> if 0 \<le> i then nat i else 0 | None \<Rightarrow> 0,
      index_error_class (col_opt_text (r ''class'')),
      case col_opt_text (r ''text'') of Some s \<Rightarrow> s | None \<Rightarrow> [])"

text \<open>Ascending order with \<open>NULL\<close> first, as SQLite has it; the turns are never set.\<close>

definition turn_rank :: "row \<Rightarrow> int" where
  "turn_rank r = (case col_int (r ''turn'') of None \<Rightarrow> - (2 ^ 63) - 1 | Some i \<Rightarrow> i)"

definition script_errors ::
    "db_texts \<Rightarrow> string \<Rightarrow> string \<Rightarrow> (sql_world, session_error, (nat \<times> script_error_class \<times> string) list) act" where
  "script_errors tx sub i =
     and_then (index_principal tx sub) (\<lambda>caller.
     and_then (map_err (\<lambda>e. Ses_Store (db_text tx e)) (select (\<lambda>t.
         sort_key turn_rank (sort_key (\<lambda>r. row_int (r ''id''))
           (rows_where script_errors_table
             (Col_Eq ''session_id'' (VText (Some i)) #
              (if cp_is_admin caller then [] else [Col_Eq ''subject'' (VText (Some sub))])) t)))))
       (\<lambda>rs. return_ok (map script_error_of_row rs)))"

section \<open>Audit of script errors\<close>

definition channel_capacity :: nat where "channel_capacity = 1024"
definition max_text_chars :: nat where "max_text_chars = 2000"

definition audit_error_class :: "string \<Rightarrow> string" where
  "audit_error_class s =
     (if starts_with ''syntax error'' s then ''syntax''
      else if starts_with ''runtime error'' s then ''runtime''
      else if starts_with ''limit exceeded'' s then ''limit''
      else if starts_with ''script cancelled'' s then ''cancelled''
      else if starts_with ''scratchpad engine failed'' s then ''engine''
      else if contains_sub ''not found'' s then ''not_found''
      else ''internal'')"

text \<open>\<open>chars().take(n)\<close> on the UTF-8 bytes: a character ends before the next leading byte.\<close>

fun take_chars :: "nat \<Rightarrow> string \<Rightarrow> string" where
  "take_chars n [] = []"
| "take_chars n (c # cs) =
     (if cont_byte c then c # take_chars n cs
      else case n of 0 \<Rightarrow> [] | Suc m \<Rightarrow> c # take_chars m cs)"

text \<open>
  The events of a session that matter here: a script that ended with an error (the session, the
  time in milliseconds and the text), or anything else. \<open>column_time\<close> falls back to the present
  for an instant out of the calendar, \<open>in_calendar\<close> being \<open>from_timestamp_millis\<close>'s domain.
\<close>

datatype audit_event = Script_Failed string nat string | Other_Event

record audit_row =
  au_subject :: string
  au_session :: string
  au_class :: string
  au_text :: string
  au_at :: int

record audit_state =
  au_queue :: "audit_row list"
  au_closed :: bool
  au_dropped :: u64

definition column_time :: "(int \<Rightarrow> bool) \<Rightarrow> int \<Rightarrow> nat \<Rightarrow> int" where
  "column_time in_calendar now at_millis =
     (if at_millis < 2 ^ 63 \<and> in_calendar (int at_millis) then int at_millis * 1000000 else now)"

definition audit_record ::
    "(int \<Rightarrow> bool) \<Rightarrow> int \<Rightarrow> string \<Rightarrow> audit_event \<Rightarrow> audit_state \<Rightarrow> audit_state" where
  "audit_record in_calendar now sub e a =
     (case e of
        Other_Event \<Rightarrow> a
      | Script_Failed session at_millis err \<Rightarrow>
          let r = \<lparr>au_subject = sub, au_session = session, au_class = audit_error_class err,
                   au_text = take_chars max_text_chars err,
                   au_at = column_time in_calendar now at_millis\<rparr> in
          if au_closed a then a
          else if channel_capacity \<le> length (au_queue a) then a\<lparr>au_dropped := au_dropped a + 1\<rparr>
          else a\<lparr>au_queue := au_queue a @ [r]\<rparr>)"

text \<open>One turn of the writer task: the oldest row is stored, or lost with a warning.\<close>

definition audit_write :: "db_texts \<Rightarrow> audit_state \<Rightarrow> sql_world \<Rightarrow> audit_state \<times> sql_world" where
  "audit_write tx a w =
     (case au_queue a of
        [] \<Rightarrow> (a, w)
      | r # rest \<Rightarrow>
          (a\<lparr>au_queue := rest\<rparr>,
           snd (statement (sql_insert script_errors_table
             [(''subject'', VText (Some (au_subject r))), (''session_id'', VText (Some (au_session r))),
              (''class'', VText (Some (au_class r))), (''text'', VText (Some (au_text r))),
              (''at'', VInt (Some (au_at r)))]) w)))"

definition audit_purge_before :: "db_texts \<Rightarrow> int \<Rightarrow> (sql_world, lymaille_error, nat) act" where
  "audit_purge_before tx cutoff =
     map_err (store_error tx) (statement (sql_delete script_errors_table [Col_Lt ''at'' cutoff]))"

section \<open>Memories and sessions as maps\<close>

definition memory_reads_back :: "('me, 'su) memory_lib \<Rightarrow> bool" where
  "memory_reads_back M \<longleftrightarrow> (\<forall>m j. me_to_json M m = Some j \<longrightarrow> me_of_json M j = Inr m)"

definition memory_conds :: "string \<times> memory_scope \<times> string \<Rightarrow> sql_cond list" where
  "memory_conds k = (case k of (sub, scope, i) \<Rightarrow> memory_scoped sub scope @ [Col_Eq ''memory_id'' (VText (Some i))])"

lemma memory_get_quiet:
  "quiet w \<Longrightarrow> memory_get tx M sub scope i w =
     (case sql_first memories_table (memory_conds (sub, scope, i)) (tabs w) of
        None \<Rightarrow> Inr None
      | Some r \<Rightarrow> (case decode_memory M (row_memory r) of Inl e \<Rightarrow> Inl e | Inr m \<Rightarrow> Inr (Some m)), w)"
  by (auto simp: memory_get_def memory_conds_def act_eval select_quiet split: option.split sum.split)

lemma memory_put_Inr:
  assumes "quiet w" "memory_put tx M sub scope m w = (Inr (), w')"
  shows "\<exists>v t'. me_to_json M m = Some v \<and> w' = set_tabs t' w \<and>
    sql_upsert memories_table
      [(''subject'', VText (Some sub)), (''level'', VText (Some (sc_level scope))),
       (''reference'', VText (Some (sc_reference scope))), (''memory_id'', VText (Some (me_id M m))),
       (''memory'', VJson (Some v))]
      [''subject'', ''level'', ''reference'', ''memory_id''] [''memory''] (tabs w) = Inr ((), t')"
  using assms(2) upsert_statement_Inr [OF assms(1)]
  by (cases "me_to_json M m") (fastforce simp: memory_put_def fail_with_def map_err_eq_Inr)+

lemma memory_key_conds:
  "key_conds [''subject'', ''level'', ''reference'', ''memory_id'']
     [(''subject'', VText (Some sub)), (''level'', VText (Some (sc_level scope))),
      (''reference'', VText (Some (sc_reference scope))), (''memory_id'', VText (Some i)), (''memory'', v)] =
   memory_conds (sub, scope, i)"
  by (simp add: key_conds_def map_filter_simps memory_conds_def memory_scoped_def)

interpretation memories: text_store
  "\<lambda>w. quiet w \<and> memory_reads_back M" "\<lambda>(sub, scope, i). memory_get tx M sub scope i"
  "\<lambda>(sub, scope, m). memory_put tx M sub scope m" "\<lambda>(sub, scope, m). (sub, scope, me_id M m)"
  "\<lambda>(sub, scope, m). m" for tx and M :: "('me, 'su) memory_lib"
proof
  fix w k
  show "quiet w \<and> memory_reads_back M \<Longrightarrow> snd ((case k of (sub, scope, i) \<Rightarrow> memory_get tx M sub scope i) w) = w"
    by (cases k) (simp add: memory_get_quiet)
next
  fix w w' :: sql_world and v :: "string \<times> memory_scope \<times> 'me" and k
  obtain sub scope m where v: "v = (sub, scope, m)" by (cases v)
  assume ok: "quiet w \<and> memory_reads_back M"
    and put: "(case v of (sub, scope, m) \<Rightarrow> memory_put tx M sub scope m) w = (Inr (), w')"
  let ?vals = "\<lambda>j. [(''subject'', VText (Some sub)), (''level'', VText (Some (sc_level scope))),
       (''reference'', VText (Some (sc_reference scope))), (''memory_id'', VText (Some (me_id M m))),
       (''memory'', VJson (Some j))]"
  obtain j t' where j: "me_to_json M m = Some j" "w' = set_tabs t' w"
    and up: "sql_upsert memories_table (?vals j) [''subject'', ''level'', ''reference'', ''memory_id'']
      [''memory''] (tabs w) = Inr ((), t')"
    using memory_put_Inr [of w tx M sub scope m w'] ok put v by auto
  have q': "quiet w'" and tw: "tabs w' = t'" using ok j(2) by simp_all
  have "\<exists>r. sql_first memories_table (key_conds [''subject'', ''level'', ''reference'', ''memory_id''] (?vals j)) t' = Some r \<and>
      r ''memory'' = VJson (Some j)"
    by (rule upsert_first [OF up]) simp_all
  then obtain r where r: "sql_first memories_table (memory_conds (sub, scope, me_id M m)) t' = Some r"
      "r ''memory'' = VJson (Some j)"
    by (auto simp: memory_key_conds)
  have "me_of_json M j = Inr m" using ok j(1) by (simp add: memory_reads_back_def)
  then have "fst (memory_get tx M sub scope (me_id M m) w') = Inr (Some m)"
    using r by (simp add: memory_get_quiet [OF q'] tw decode_memory_def row_memory_def)
  with ok q' v show "(quiet w' \<and> memory_reads_back M) \<and>
      fst ((case case v of (sub, scope, m) \<Rightarrow> (sub, scope, me_id M m) of (sub, scope, i) \<Rightarrow>
        memory_get tx M sub scope i) w') = Inr (Some (case v of (sub, scope, m) \<Rightarrow> m))"
    by simp
  show "fst ((case k of (sub, scope, i) \<Rightarrow> memory_get tx M sub scope i) w') =
      fst ((case k of (sub, scope, i) \<Rightarrow> memory_get tx M sub scope i) w)"
    if "k \<noteq> (case v of (sub, scope, m) \<Rightarrow> (sub, scope, me_id M m))"
  proof -
    obtain sub2 scope2 i2 where k: "k = (sub2, scope2, i2)" by (cases k)
    have "sub2 \<noteq> sub \<or> sc_level scope2 \<noteq> sc_level scope \<or> sc_reference scope2 \<noteq> sc_reference scope \<or> i2 \<noteq> me_id M m"
      using that k v by (cases scope; cases scope2) auto
    then consider "sub2 \<noteq> sub" | "sc_level scope2 \<noteq> sc_level scope" | "sc_reference scope2 \<noteq> sc_reference scope"
      | "i2 \<noteq> me_id M m" by blast
    then have same: "rows_where memories_table (memory_conds k) t' = rows_where memories_table (memory_conds k) (tabs w)"
    proof cases
      case 1
      then show ?thesis
        by (intro upsert_other_key [OF up, where ?k0.0 = "''subject''" and ?v0.0 = "VText (Some sub2)" and ?v1.0 = "VText (Some sub)"])
          (simp_all add: memory_conds_def memory_scoped_def k)
    next
      case 2
      then show ?thesis
        by (intro upsert_other_key [OF up, where ?k0.0 = "''level''" and ?v0.0 = "VText (Some (sc_level scope2))" and ?v1.0 = "VText (Some (sc_level scope))"])
          (simp_all add: memory_conds_def memory_scoped_def k)
    next
      case 3
      then show ?thesis
        by (intro upsert_other_key [OF up, where ?k0.0 = "''reference''" and ?v0.0 = "VText (Some (sc_reference scope2))" and ?v1.0 = "VText (Some (sc_reference scope))"])
          (simp_all add: memory_conds_def memory_scoped_def k)
    next
      case 4
      then show ?thesis
        by (intro upsert_other_key [OF up, where ?k0.0 = "''memory_id''" and ?v0.0 = "VText (Some i2)" and ?v1.0 = "VText (Some (me_id M m))"])
          (simp_all add: memory_conds_def memory_scoped_def k)
    qed
    show ?thesis
      unfolding k case_prod_conv memory_get_quiet [OF q'] memory_get_quiet [OF conjunct1 [OF ok]]
        fst_conv sql_first_def tw same [unfolded k] ..
  qed
qed

definition session_reads_back :: "'st session_lib \<Rightarrow> bool" where
  "session_reads_back S \<longleftrightarrow> (\<forall>st s. st_to_text S st = Inr s \<longrightarrow> st_of_text S s = Inr st)"

definition session_conds :: "string \<times> string \<Rightarrow> sql_cond list" where
  "session_conds k = [Col_Eq ''subject'' (VText (Some (fst k))), Col_Eq ''session_id'' (VText (Some (snd k)))]"

lemma session_load_quiet:
  "quiet w \<Longrightarrow> session_load tx S sub i w =
     (case sql_first sessions_table (session_conds (sub, i)) (tabs w) of
        None \<Rightarrow> Inr None
      | Some r \<Rightarrow> (case st_of_text S (col_text (r ''state'')) of Inl e \<Rightarrow> Inl e | Inr st \<Rightarrow> Inr (Some st)), w)"
  by (auto simp: session_load_def session_conds_def act_eval select_quiet split: option.split sum.split)

lemma session_save_Inr:
  assumes "quiet w" "session_save tx S sub st w = (Inr (), w')"
  shows "\<exists>s k t'. st_to_text S st = Inr s \<and> w' = set_tabs t' w \<and>
    sql_upsert sessions_table
      [(''subject'', VText (Some sub)), (''session_id'', VText (Some (st_id S st))),
       (''kind'', VText (Some k)), (''state'', VText (Some s)), (''updated_at'', VInt (Some (clock w)))]
      [''subject'', ''session_id''] [''kind'', ''state'', ''updated_at''] (tabs w) = Inr ((), t')"
proof -
  from assms(2) obtain s where s: "st_to_text S st = Inr s"
    by (cases "st_to_text S st") (auto simp: session_save_def act_eval)
  from assms(2) s obtain k where k: "kind_text (st_kind S st) = Inr k"
    by (cases "kind_text (st_kind S st)") (auto simp: session_save_def act_eval)
  from assms(2) s k upsert_statement_Inr [OF assms(1)] show ?thesis
    by (fastforce simp: session_save_def and_then_def lift_result_def utc_now_def map_err_eq_Inr)
qed

interpretation session_states: text_store
  "\<lambda>w. quiet w \<and> session_reads_back S" "\<lambda>(sub, i). session_load tx S sub i"
  "\<lambda>(sub, st). session_save tx S sub st" "\<lambda>(sub, st). (sub, st_id S st)"
  "\<lambda>(sub, st). st" for tx and S :: "'st session_lib"
proof
  fix w k
  show "quiet w \<and> session_reads_back S \<Longrightarrow> snd ((case k of (sub, i) \<Rightarrow> session_load tx S sub i) w) = w"
    by (cases k) (simp add: session_load_quiet)
next
  fix w w' :: sql_world and v :: "string \<times> 'st" and k
  obtain sub st where v: "v = (sub, st)" by (cases v)
  assume ok: "quiet w \<and> session_reads_back S"
    and put: "(case v of (sub, st) \<Rightarrow> session_save tx S sub st) w = (Inr (), w')"
  obtain s kind t' where s: "st_to_text S st = Inr s" "w' = set_tabs t' w"
    and up: "sql_upsert sessions_table
      [(''subject'', VText (Some sub)), (''session_id'', VText (Some (st_id S st))),
       (''kind'', VText (Some kind)), (''state'', VText (Some s)), (''updated_at'', VInt (Some (clock w)))]
      [''subject'', ''session_id''] [''kind'', ''state'', ''updated_at''] (tabs w) = Inr ((), t')"
    using session_save_Inr [of w tx S sub st w'] ok put v by auto
  have q': "quiet w'" and tw: "tabs w' = t'" using ok s(2) by simp_all
  let ?vals = "[(''subject'', VText (Some sub)), (''session_id'', VText (Some (st_id S st))),
       (''kind'', VText (Some kind)), (''state'', VText (Some s)), (''updated_at'', VInt (Some (clock w)))]"
  have kc: "key_conds [''subject'', ''session_id''] ?vals = session_conds (sub, st_id S st)"
    by (simp add: key_conds_def map_filter_simps session_conds_def)
  have "\<exists>r. sql_first sessions_table (key_conds [''subject'', ''session_id''] ?vals) t' = Some r \<and>
      r ''state'' = VText (Some s)"
    by (rule upsert_first [OF up]) simp_all
  then obtain r where r: "sql_first sessions_table (session_conds (sub, st_id S st)) t' = Some r"
      "r ''state'' = VText (Some s)"
    unfolding kc by blast
  have "st_of_text S s = Inr st" using ok s(1) by (simp add: session_reads_back_def)
  then have "fst (session_load tx S sub (st_id S st) w') = Inr (Some st)"
    using r by (simp add: session_load_quiet [OF q'] tw)
  with ok q' v show "(quiet w' \<and> session_reads_back S) \<and>
      fst ((case case v of (sub, st) \<Rightarrow> (sub, st_id S st) of (sub, i) \<Rightarrow> session_load tx S sub i) w') =
      Inr (Some (case v of (sub, st) \<Rightarrow> st))"
    by simp
  show "fst ((case k of (sub, i) \<Rightarrow> session_load tx S sub i) w') =
      fst ((case k of (sub, i) \<Rightarrow> session_load tx S sub i) w)"
    if ne: "k \<noteq> (case v of (sub, st) \<Rightarrow> (sub, st_id S st))"
  proof -
    obtain sub2 i2 where k: "k = (sub2, i2)" by (cases k)
    consider "sub2 \<noteq> sub" | "i2 \<noteq> st_id S st" using ne k v by auto
    then have same: "rows_where sessions_table (session_conds k) t' = rows_where sessions_table (session_conds k) (tabs w)"
    proof cases
      case 1
      then show ?thesis
        by (intro upsert_other_key [OF up, where ?k0.0 = "''subject''" and ?v0.0 = "VText (Some sub2)" and ?v1.0 = "VText (Some sub)"])
          (simp_all add: session_conds_def k)
    next
      case 2
      then show ?thesis
        by (intro upsert_other_key [OF up, where ?k0.0 = "''session_id''" and ?v0.0 = "VText (Some i2)" and ?v1.0 = "VText (Some (st_id S st))"])
          (simp_all add: session_conds_def k)
    qed
    show ?thesis
      unfolding k case_prod_conv session_load_quiet [OF q'] session_load_quiet [OF conjunct1 [OF ok]]
        fst_conv sql_first_def tw same [unfolded k] ..
  qed
qed

section \<open>The audit channel\<close>

lemma audit_bounded:
  "length (au_queue a) \<le> channel_capacity \<Longrightarrow>
     length (au_queue (audit_record cal now sub e a)) \<le> channel_capacity"
  by (auto simp: audit_record_def Let_def split: audit_event.split)

text \<open>A failed script is either queued or counted, and the stored text is a prefix of the error.\<close>

lemma audit_accounted:
  assumes "\<not> au_closed a"
  shows "(length (au_queue (audit_record cal now sub (Script_Failed s at_ms err) a)) = Suc (length (au_queue a)) \<and>
      au_dropped (audit_record cal now sub (Script_Failed s at_ms err) a) = au_dropped a) \<or>
    (au_queue (audit_record cal now sub (Script_Failed s at_ms err) a) = au_queue a \<and>
      au_dropped (audit_record cal now sub (Script_Failed s at_ms err) a) = au_dropped a + 1)"
  using assms by (auto simp: audit_record_def Let_def)

lemma take_chars_prefix: "\<exists>rest. s = take_chars n s @ rest"
proof (induction n s rule: take_chars.induct)
  case (2 n c cs)
  then show ?case by (cases n) auto
qed simp

lemma take_chars_count: "length (filter (\<lambda>c. \<not> cont_byte c) (take_chars n s)) \<le> n"
proof (induction n s rule: take_chars.induct)
  case (2 n c cs)
  then show ?case by (cases n) auto
qed simp

section \<open>Properties\<close>

text \<open>
  The memories are a finite map from subject, scope and identifier: after any sequence of
  successful writes, by any subjects and in any scopes, a read returns the last memory written
  under exactly that subject, scope and identifier, and what was there before when there is none.
\<close>

theorem memory_store_is_a_map:
  assumes "quiet w" "memory_reads_back M"
    and "for_each ms (\<lambda>(sub, scope, m). memory_put tx M sub scope m) w = (Inr us, w')"
  shows "memory_get tx M sub scope i w' =
    (case find (\<lambda>(sub', scope', m). (sub', scope', me_id M m) = (sub, scope, i)) (rev ms) of
       Some (_, _, m) \<Rightarrow> Inr (Some m)
     | None \<Rightarrow> fst (memory_get tx M sub scope i w), w')"
proof -
  have "find (\<lambda>(sub', scope', m). (sub', scope', me_id M m) = (sub, scope, i)) (rev ms) =
      find (\<lambda>v. (case v of (sub, scope, m) \<Rightarrow> (sub, scope, me_id M m)) = (sub, scope, i)) (rev ms)"
    by (rule arg_cong2 [where f = find]) auto
  then show ?thesis
    using memories.puts_then_get [of w M ms tx us w' "(sub, scope, i)"] assms
    by (auto split: option.split prod.split)
qed

text \<open>
  The same of the sessions: what a subject saved under an identifier is what the subject loads;
  another subject, or another identifier, never reads it.
\<close>

theorem session_store_is_a_map:
  assumes "quiet w" "session_reads_back S"
    and "for_each sts (\<lambda>(sub, st). session_save tx S sub st) w = (Inr us, w')"
  shows "session_load tx S sub i w' =
    (case find (\<lambda>(sub', st). sub' = sub \<and> st_id S st = i) (rev sts) of
       Some (_, st) \<Rightarrow> Inr (Some st)
     | None \<Rightarrow> fst (session_load tx S sub i w), w')"
proof -
  have "find (\<lambda>(sub', st). sub' = sub \<and> st_id S st = i) (rev sts) =
      find (\<lambda>v. (case v of (sub, st) \<Rightarrow> (sub, st_id S st)) = (sub, i)) (rev sts)"
    by (rule arg_cong2 [where f = find]) auto
  then show ?thesis
    using session_states.puts_then_get [of w S sts tx us w' "(sub, i)"] assms
    by (auto split: option.split prod.split)
qed

text \<open>A row is listed when its state decodes, passes the filter and has an identifier.\<close>

definition session_listed :: "'st session_lib \<Rightarrow> session_filter \<Rightarrow> row \<Rightarrow> bool" where
  "session_listed S f r =
     (case st_of_text S (col_text (r ''state'')) of
        Inl _ \<Rightarrow> False
      | Inr st \<Rightarrow> (case sf_agent f of None \<Rightarrow> True | Some a \<Rightarrow> st_agent S st = a) \<and>
          (if sf_review f then st_review_requested S st else True) \<and> col_text (r ''session_id'') \<noteq> [])"

lemma collect_sessions_step:
  "collect_sessions S f limit ids (r # rs) =
     (if limit \<le> length ids then ids
      else collect_sessions S f limit (if session_listed S f r then ids @ [col_text (r ''session_id'')] else ids) rs)"
  by (auto simp: session_listed_def split: sum.splits option.splits)

lemma collect_sessions_eq:
  "length ids \<le> limit \<Longrightarrow> collect_sessions S f limit ids rs =
     ids @ take (limit - length ids) (map (\<lambda>r. col_text (r ''session_id'')) (filter (session_listed S f) rs))"
proof (induction rs arbitrary: ids)
  case (Cons r rs)
  show ?case
  proof (cases "limit \<le> length ids")
    case False
    then obtain n where n: "limit - length ids = Suc n" "limit - Suc (length ids) = n"
      by (metis Suc_diff_Suc not_less)
    show ?thesis
      unfolding collect_sessions_step using Cons False n by auto
  qed (simp add: collect_sessions_step)
qed simp

lemma index_list_Inr:
  assumes q: "quiet w" and u: "find_user sub (tabs w) = Some u"
    and run: "index_list tx S sub f w = (Inr ids, w')"
  shows "\<exists>kc. ids = take (min (case sf_limit f of Some n \<Rightarrow> n | None \<Rightarrow> default_limit) max_limit)
      (map (\<lambda>r. col_text (r ''session_id'')) (filter (session_listed S f)
        (sort_key (\<lambda>r. - row_int (r ''updated_at'')) (rows_where sessions_table
          ((if in_group (u_id u) admin_group_name (tabs w) then [] else [Col_Eq ''subject'' (VText (Some sub))]) @ kc)
          (tabs w)))))"
proof -
  have p: "index_principal tx sub w = (Inr \<lparr>cp_user_id = u_id u, cp_subject = u_subject u,
      cp_is_admin = in_group (u_id u) admin_group_name (tabs w)\<rparr>, w)"
    using q u by (simp add: index_principal_def map_err_def resolve_caller_quiet)
  show ?thesis
  proof (cases "sf_kind f")
    case None
    then show ?thesis
      using run q by (intro exI [of _ "[]"]) (auto simp: index_list_def act_eval p select_quiet Let_def collect_sessions_eq)
  next
    case (Some k)
    then obtain s where s: "kind_text k = Inr s"
      using run by (cases "kind_text k") (auto simp: index_list_def act_eval p)
    show ?thesis
      using run q Some s
      by (intro exI [of _ "[Col_Eq ''kind'' (VText (Some s))]"])
        (auto simp: index_list_def act_eval p select_quiet Let_def collect_sessions_eq)
  qed
qed

text \<open>
  The index of a caller who is not an admin lists sessions of that subject only; whoever asks,
  at most 200 of them, each one readable, with an identifier, and passing the filter.
\<close>

theorem session_index_scoped:
  assumes q: "quiet w" and u: "find_user sub (tabs w) = Some u"
    and run: "index_list tx S sub f w = (Inr ids, w')"
  shows "length ids \<le> 200 \<and>
    list_all (\<lambda>i. \<exists>r st. (sessions_table, r) \<in> set (rows (tabs w)) \<and> col_text (r ''session_id'') = i \<and> i \<noteq> [] \<and>
      (in_group (u_id u) admin_group_name (tabs w) \<or> r ''subject'' = VText (Some sub)) \<and>
      st_of_text S (col_text (r ''state'')) = Inr st \<and>
      (case sf_agent f of None \<Rightarrow> True | Some a \<Rightarrow> st_agent S st = a) \<and>
      (if sf_review f then st_review_requested S st else True)) ids"
proof -
  obtain kc where ids: "ids = take (min (case sf_limit f of Some n \<Rightarrow> n | None \<Rightarrow> default_limit) max_limit)
      (map (\<lambda>r. col_text (r ''session_id'')) (filter (session_listed S f)
        (sort_key (\<lambda>r. - row_int (r ''updated_at'')) (rows_where sessions_table
          ((if in_group (u_id u) admin_group_name (tabs w) then [] else [Col_Eq ''subject'' (VText (Some sub))]) @ kc)
          (tabs w)))))"
    using index_list_Inr [OF assms] by blast
  have "length ids \<le> 200" unfolding ids by (simp add: max_limit_def)
  moreover have "list_all (\<lambda>i. \<exists>r. (sessions_table, r) \<in> set (rows (tabs w)) \<and> col_text (r ''session_id'') = i \<and>
      (in_group (u_id u) admin_group_name (tabs w) \<or> r ''subject'' = VText (Some sub)) \<and> session_listed S f r) ids"
    unfolding ids list_all_iff by (auto dest!: in_set_takeD simp: rows_where_set split: if_splits)
  ultimately show ?thesis
    unfolding list_all_iff session_listed_def by (fastforce split: sum.splits)
qed

section \<open>Witnesses\<close>

definition demo_memory_lib :: "(string, string) memory_lib" where
  "demo_memory_lib = \<lparr>me_of_json = (\<lambda>j. case j of JString s \<Rightarrow> Inr s | _ \<Rightarrow> Inl ''unreadable''),
     me_to_json = (\<lambda>m. Some (JString m)), me_id = take 1, me_summary = (\<lambda>m. m)\<rparr>"

definition demo_session_lib :: "string session_lib" where
  "demo_session_lib = \<lparr>st_of_text = Inr, st_to_text = Inr, st_id = take 1,
     st_kind = (\<lambda>_. (Some (JString ''chat''), ''Chat'')), st_agent = (\<lambda>_. ''P_a''), st_review_requested = (\<lambda>_. False)\<rparr>"

definition demo_scope :: memory_scope where
  "demo_scope = \<lparr>sc_level = ''agent'', sc_reference = ''P_a''\<rparr>"

definition demo_memories :: "(string \<times> memory_scope \<times> string) list" where
  "demo_memories = [(''ana'', demo_scope, ''a1''), (''bob'', demo_scope, ''a2''), (''ana'', demo_scope, ''a3'')]"

lemma demo_memories_run:
  "case for_each demo_memories (\<lambda>(sub, scope, m). memory_put demo_texts demo_memory_lib sub scope m) demo_shelf of
     (r, w') \<Rightarrow> isl r = False"
  by code_simp

theorem memory_store_is_a_map_witness:
  "\<exists>w'. memory_get demo_texts demo_memory_lib ''ana'' demo_scope ''a'' w' = (Inr (Some ''a3''), w') \<and>
     memory_get demo_texts demo_memory_lib ''bob'' demo_scope ''a'' w' = (Inr (Some ''a2''), w')"
proof -
  have q: "quiet demo_shelf" by (simp add: demo_shelf_def)
  have rb: "memory_reads_back demo_memory_lib"
    by (simp add: memory_reads_back_def demo_memory_lib_def)
  obtain us w' where run: "for_each demo_memories
      (\<lambda>(sub, scope, m). memory_put demo_texts demo_memory_lib sub scope m) demo_shelf = (Inr us, w')"
    using demo_memories_run by (auto simp: isl_def split: prod.splits) (metis sum.exhaust)
  show ?thesis
    using memory_store_is_a_map [OF q rb run, of "''ana''" demo_scope "''a''"]
      memory_store_is_a_map [OF q rb run, of "''bob''" demo_scope "''a''"]
    by (intro exI [of _ w']) (simp add: demo_memories_def demo_memory_lib_def)
qed

definition demo_sessions :: "(string \<times> string) list" where
  "demo_sessions = [(''ana'', ''a1''), (''bob'', ''a2'')]"

lemma demo_sessions_run:
  "case for_each demo_sessions (\<lambda>(sub, st). session_save demo_texts demo_session_lib sub st) demo_shelf of
     (r, w') \<Rightarrow> isl r = False"
  by code_simp

theorem session_store_is_a_map_witness:
  "\<exists>w'. session_load demo_texts demo_session_lib ''ana'' ''a'' w' = (Inr (Some ''a1''), w') \<and>
     session_load demo_texts demo_session_lib ''bob'' ''a'' w' = (Inr (Some ''a2''), w')"
proof -
  have q: "quiet demo_shelf" by (simp add: demo_shelf_def)
  have rb: "session_reads_back demo_session_lib"
    by (simp add: session_reads_back_def demo_session_lib_def)
  obtain us w' where run: "for_each demo_sessions
      (\<lambda>(sub, st). session_save demo_texts demo_session_lib sub st) demo_shelf = (Inr us, w')"
    using demo_sessions_run by (auto simp: isl_def split: prod.splits) (metis sum.exhaust)
  show ?thesis
    using session_store_is_a_map [OF q rb run, of "''ana''" "''a''"]
      session_store_is_a_map [OF q rb run, of "''bob''" "''a''"]
    by (intro exI [of _ w']) (simp add: demo_sessions_def demo_session_lib_def)
qed

definition demo_session_world :: sql_world where
  "demo_session_world =
     snd (for_each demo_sessions (\<lambda>(sub, st). session_save demo_texts demo_session_lib sub st) demo_shelf)"

definition any_session :: session_filter where
  "any_session = \<lparr>sf_kind = None, sf_agent = None, sf_review = False, sf_limit = Some 10\<rparr>"

lemma demo_index_run:
  "quiet demo_session_world \<and> find_user ''bob'' (tabs demo_session_world) = Some (demo_user 2) \<and>
   \<not> in_group 2 admin_group_name (tabs demo_session_world) \<and>
   fst (index_list demo_texts demo_session_lib ''bob'' any_session demo_session_world) = Inr [''a'']"
  by (intro conjI; code_simp)

theorem session_index_scoped_witness:
  "\<exists>r st. (sessions_table, r) \<in> set (rows (tabs demo_session_world)) \<and> col_text (r ''session_id'') = ''a'' \<and>
     r ''subject'' = VText (Some ''bob'') \<and> st_of_text demo_session_lib (col_text (r ''state'')) = Inr st"
proof -
  have u: "quiet demo_session_world" "find_user ''bob'' (tabs demo_session_world) = Some (demo_user 2)"
    "\<not> in_group (u_id (demo_user 2)) admin_group_name (tabs demo_session_world)"
    using demo_index_run by (simp_all add: demo_user_def)
  obtain w' where run: "index_list demo_texts demo_session_lib ''bob'' any_session demo_session_world = (Inr [''a''], w')"
    using demo_index_run by (metis prod.collapse)
  show ?thesis using session_index_scoped [OF u(1,2) run] u(3) by auto
qed

end
