(* ===== verification/Write_Journal.thy ===== *)
theory Write_Journal
  imports Lymaille_Stores
begin

text \<open>
  The journal that makes the writes of a replayed step idempotent (\<open>src/src/lymaille/store/write_journal.rs\<close>)
  and the purge of old sessions and of their traces (\<open>store/purge.rs\<close>). Parameters: \<open>display\<close>, the compact
  text of a \<open>serde_json::Value\<close> (its \<open>Display\<close>, also \<open>to_string\<close>), \<open>sha\<close>, the hexadecimal SHA-256 digest of a
  text, and \<open>in_calendar\<close>, the instants chrono represents.
\<close>

section \<open>Canonical texts and keys\<close>

definition journal_table :: string where "journal_table = ''miryad_lymaille_write_journal''"

definition max_result_bytes :: nat where "max_result_bytes = 64 * 1024"

record write_scope =
  ws_run_key :: string
  ws_step_key :: string

datatype write_op = Create_Op | Update_Op | Delete_Op

fun op_text :: "write_op \<Rightarrow> string" where
  "op_text Create_Op = ''create''"
| "op_text Update_Op = ''update''"
| "op_text Delete_Op = ''delete''"

fun join_commas :: "string list \<Rightarrow> string" where
  "join_commas [] = []"
| "join_commas [s] = s"
| "join_commas (s # t # ss) = s @ '','' @ join_commas (t # ss)"

lemma member_smaller: "map_of kvs k = Some v \<Longrightarrow> size v < Suc (size_list (size_prod (\<lambda>_. 0) size) kvs)"
  by (induction kvs) (auto split: if_splits)

text \<open>
  The keys of an object are sorted in binary order and each is looked up again; arrays keep
  their order; a scalar has its own text.
\<close>

function (sequential) canonical :: "(json \<Rightarrow> string) \<Rightarrow> json \<Rightarrow> string" where
  "canonical display (JObject kvs) =
     ''{'' @ join_commas (map (\<lambda>k. display (JString k) @ '':'' @
       (case map_of kvs k of None \<Rightarrow> [] | Some item \<Rightarrow> canonical display item)) (sort (map fst kvs))) @ ''}''"
| "canonical display (JArray xs) = ''['' @ join_commas (map (canonical display) xs) @ '']''"
| "canonical display scalar = display scalar"
  by pat_completeness auto
termination
  by (relation "measure (\<lambda>(_, v). size v)") (auto dest: member_smaller simp: less_Suc_eq_le size_list_estimation')

definition envelope :: "write_op \<Rightarrow> string \<Rightarrow> int option \<Rightarrow> json \<Rightarrow> json" where
  "envelope op res i body =
     obj [(''op'', JString (op_text op)), (''resource'', JString res),
          (''id'', case i of None \<Rightarrow> JNull | Some n \<Rightarrow> JNumber (Int_Num n)), (''body'', body)]"

definition op_key ::
    "(string \<Rightarrow> string) \<Rightarrow> (json \<Rightarrow> string) \<Rightarrow> write_op \<Rightarrow> string \<Rightarrow> int option \<Rightarrow> json \<Rightarrow> string" where
  "op_key sha display op res i body = sha (canonical display (envelope op res i body))"

section \<open>The journal\<close>

definition decode_text :: string where
  "decode_text = ''database failed to decode a stored column''"

definition journal_conds :: "write_scope \<Rightarrow> string \<Rightarrow> sql_cond list" where
  "journal_conds scope key =
     [Col_Eq ''run_key'' (VText (Some (ws_run_key scope))),
      Col_Eq ''step_key'' (VText (Some (ws_step_key scope))), Col_Eq ''op_key'' (VText (Some key))]"

definition replay :: "db_texts \<Rightarrow> write_scope \<Rightarrow> string \<Rightarrow> (sql_world, lymaille_error, json option) act" where
  "replay tx scope key =
     and_then (map_err (store_error tx) (select (sql_first journal_table (journal_conds scope key))))
       (\<lambda>found. case found of
          None \<Rightarrow> return_ok None
        | Some r \<Rightarrow> (case col_json (r ''result'') of
              None \<Rightarrow> fail_with (Lym_Store decode_text)
            | Some v \<Rightarrow> return_ok (Some v)))"

definition journal_record ::
    "(json \<Rightarrow> string) \<Rightarrow> db_texts \<Rightarrow> write_scope \<Rightarrow> string \<Rightarrow> json \<Rightarrow> (sql_world, lymaille_error, unit) act" where
  "journal_record display tx scope key result =
     (if max_result_bytes < length (display result)
      then fail_with (Lym_Store ''journalized result exceeds 64 KiB'')
      else and_then utc_now (\<lambda>now. map_err (store_error tx) (statement (sql_upsert journal_table
        [(''run_key'', VText (Some (ws_run_key scope))), (''step_key'', VText (Some (ws_step_key scope))),
         (''op_key'', VText (Some key)), (''result'', VJson (Some result)), (''created_at'', VInt (Some now))]
        [''run_key'', ''step_key'', ''op_key''] []))))"

definition journal_purge_before :: "db_texts \<Rightarrow> int \<Rightarrow> (sql_world, lymaille_error, nat) act" where
  "journal_purge_before tx cutoff =
     map_err (store_error tx) (statement (sql_delete journal_table [Col_Lt ''created_at'' cutoff]))"

section \<open>Retention\<close>

text \<open>Instants and durations in nanoseconds.\<close>

definition default_retention :: int where "default_retention = 30 * 24 * 3600 * 10 ^ 9"

record purge_report =
  pr_sessions :: nat
  pr_script_errors :: nat
  pr_write_journal :: nat

definition purge_sessions ::
    "(int \<Rightarrow> bool) \<Rightarrow> db_texts \<Rightarrow> int \<Rightarrow> int \<Rightarrow> (sql_world, lymaille_error, purge_report) act" where
  "purge_sessions in_calendar tx now retention =
     (if retention \<le> 0 then fail_with (Lym_InvalidDefinition ''retention must be positive'')
      else if \<not> in_calendar (now - retention)
      then fail_with (Lym_InvalidDefinition ''retention out of calendar range'')
      else
        (let cutoff = now - retention in
         and_then (map_err (store_error tx) (statement (sql_delete sessions_table [Col_Lt ''updated_at'' cutoff])))
           (\<lambda>n. and_then (audit_purge_before tx cutoff)
             (\<lambda>e. and_then (journal_purge_before tx cutoff)
               (\<lambda>j. return_ok \<lparr>pr_sessions = n, pr_script_errors = e, pr_write_journal = j\<rparr>)))))"

section \<open>Contents up to the order of keys\<close>

text \<open>What a key must not depend on: the order of the members of an object, at every depth.\<close>

fun canon :: "json \<Rightarrow> json" where
  "canon (JObject kvs) = JObject (sort_key fst (map (\<lambda>(k, v). (k, canon v)) kvs))"
| "canon (JArray xs) = JArray (map canon xs)"
| "canon scalar = scalar"

definition same_content :: "json \<Rightarrow> json \<Rightarrow> bool" where
  "same_content v v' \<longleftrightarrow> canon v = canon v'"

fun is_scalar :: "json \<Rightarrow> bool" where
  "is_scalar (JObject _) = False" | "is_scalar (JArray _) = False" | "is_scalar _ = True"

definition delimited :: "string \<Rightarrow> bool" where
  "delimited r \<longleftrightarrow> (case r of [] \<Rightarrow> True | c # _ \<Rightarrow> c \<in> set '',:]}'')"

text \<open>
  What JSON's grammar says of the texts of scalars: they start with none of the punctuation, and
  before a delimiter they can be read back in one way only.
\<close>

definition display_ok :: "(json \<Rightarrow> string) \<Rightarrow> bool" where
  "display_ok display \<longleftrightarrow>
     (\<forall>v. is_scalar v \<longrightarrow> display v \<noteq> [] \<and> hd (display v) \<notin> set ''{[]},:'') \<and>
     (\<forall>v v' r r'. is_scalar v \<longrightarrow> is_scalar v' \<longrightarrow> delimited r \<longrightarrow> delimited r' \<longrightarrow>
        display v @ r = display v' @ r' \<longrightarrow> v = v' \<and> r = r')"

lemma display_start: "display_ok display \<Longrightarrow> is_scalar v \<Longrightarrow> \<exists>c cs. display v = c # cs \<and> c \<notin> set ''{[]},:''"
  unfolding display_ok_def by (metis list.collapse)

lemma display_inj:
  "display_ok display \<Longrightarrow> is_scalar v \<Longrightarrow> is_scalar v' \<Longrightarrow> delimited r \<Longrightarrow> delimited r' \<Longrightarrow>
     display v @ r = display v' @ r' \<Longrightarrow> v = v' \<and> r = r'"
  unfolding display_ok_def by blast

lemma join_commas_Cons:
  "join_commas (s # ss) = s @ (if ss = [] then [] else '','' @ join_commas ss)"
  by (cases ss) simp_all

lemma join_commas_inj:
  assumes step: "\<And>x y r r'. x \<in> set xs \<Longrightarrow> y \<in> set ys \<Longrightarrow> delimited r \<Longrightarrow> delimited r' \<Longrightarrow>
      t x @ r = u y @ r' \<Longrightarrow> R x y \<and> r = r'"
    and t: "\<And>x. x \<in> set xs \<Longrightarrow> \<exists>c cs. t x = c # cs \<and> c \<noteq> close"
    and u: "\<And>y. y \<in> set ys \<Longrightarrow> \<exists>c cs. u y = c # cs \<and> c \<noteq> close"
    and c: "close \<in> set '']}''"
    and eq: "join_commas (map t xs) @ close # r = join_commas (map u ys) @ close # r'"
  shows "list_all2 R xs ys \<and> r = r'"
  using step t u eq
proof (induction xs arbitrary: ys)
  case Nil
  then show ?case by (cases ys) (fastforce simp: join_commas_Cons)+
next
  case (Cons x xs)
  have dc: "delimited (close # s)" "delimited (CHR '','' # s)" for s using c by (auto simp: delimited_def)
  show ?case
  proof (cases ys)
    case Nil
    with Cons.prems show ?thesis by (fastforce simp: join_commas_Cons)
  next
    case (Cons y ys')
    let ?p = "(if xs = [] then [] else '','' @ join_commas (map t xs)) @ close # r"
    let ?q = "(if ys' = [] then [] else '','' @ join_commas (map u ys')) @ close # r'"
    have e: "t x @ ?p = u y @ ?q" using Cons.prems(4) Cons by (simp add: join_commas_Cons)
    have d: "delimited ?p" "delimited ?q" using dc by auto
    have "x \<in> set (x # xs)" "y \<in> set ys" using Cons by simp_all
    then have h: "R x y" "?p = ?q" using Cons.prems(1) [OF _ _ d e] by blast+
    show ?thesis
    proof (cases "xs = [] \<or> ys' = []")
      case True
      then show ?thesis using h c Cons by (auto split: if_splits)
    next
      case False
      then have "join_commas (map t xs) @ close # r = join_commas (map u ys') @ close # r'" using h(2) by simp
      then have "list_all2 R xs ys' \<and> r = r'"
        using Cons.prems(1-3) Cons by (intro Cons.IH) auto
      then show ?thesis using h(1) Cons by simp
    qed
  qed
qed

lemma map_eq_all2: "map f xs = map g ys \<longleftrightarrow> list_all2 (\<lambda>x y. f x = g y) xs ys"
  by (simp add: list_all2_conv_all_nth list_eq_iff_nth_eq cong: conj_cong)

lemma member_key: "k \<in> set (map fst kvs) \<Longrightarrow> \<exists>x. map_of kvs k = Some x"
  by (cases "map_of kvs k") (auto simp: map_of_eq_None_iff)

lemma sort_members:
  assumes "distinct (map fst kvs)"
  shows "sort_key fst kvs = map (\<lambda>k. (k, the (map_of kvs k))) (sort (map fst kvs))"
proof -
  have "sort (map fst kvs) = map fst (sort_key fst kvs)"
    using assms by (intro sorted_distinct_set_unique) (simp_all add: distinct_map)
  moreover have "map (\<lambda>k. (k, the (map_of kvs k))) (map fst (sort_key fst kvs)) = sort_key fst kvs"
    unfolding map_map using assms by (intro map_idI) auto
  ultimately show ?thesis by simp
qed

lemma canon_object:
  assumes "distinct (map fst kvs)"
  shows "canon (JObject kvs) = JObject (map (\<lambda>k. (k, canon (the (map_of kvs k)))) (sort (map fst kvs)))"
proof -
  let ?m = "map (\<lambda>(k, v). (k, canon v)) kvs"
  have f: "map fst ?m = map fst kvs" by (simp add: case_prod_beta comp_def)
  have "map_of ?m k = map_option canon (map_of kvs k)" for k by (simp add: map_of_map)
  then have "the (map_of ?m k) = canon (the (map_of kvs k))" if "k \<in> set (map fst kvs)" for k
    using member_key [OF that] by auto
  then show ?thesis
    using sort_members [of ?m] assms unfolding f by simp
qed

lemma canonical_start:
  assumes "display_ok display"
  shows "\<exists>c cs. canonical display v = c # cs \<and> c \<notin> set ''],}:'' \<and>
    (case v of JObject _ \<Rightarrow> c = CHR ''{'' | JArray _ \<Rightarrow> c = CHR ''['' | _ \<Rightarrow> c \<noteq> CHR ''{'' \<and> c \<noteq> CHR ''['')"
proof (cases "is_scalar v")
  case True
  then obtain c cs where "display v = c # cs" "c \<notin> set ''{[]},:''"
    using display_start [OF assms] by blast
  with True show ?thesis by (cases v) auto
qed (cases v; simp)

lemma scalar_text: "is_scalar v \<Longrightarrow> canonical display v = display v"
  by (cases v) simp_all

text \<open>The canonical text determines the content.\<close>

lemma canonical_inj:
  assumes ok: "display_ok display"
  shows "json_wf v \<Longrightarrow> json_wf v' \<Longrightarrow> delimited r \<Longrightarrow> delimited r' \<Longrightarrow>
    canonical display v @ r = canonical display v' @ r' \<Longrightarrow> canon v = canon v' \<and> r = r'"
proof (induction "size v" arbitrary: v v' r r' rule: less_induct)
  case less
  note IH = less.hyps and wf = less.prems(1,2) and d = less.prems(3,4) and eq = less.prems(5)
  obtain c cs where s: "canonical display v = c # cs"
      "case v of JObject _ \<Rightarrow> c = CHR ''{'' | JArray _ \<Rightarrow> c = CHR ''['' | _ \<Rightarrow> c \<noteq> CHR ''{'' \<and> c \<noteq> CHR ''[''"
    using canonical_start [OF ok, of v] by blast
  obtain c' cs' where s': "canonical display v' = c' # cs'"
      "case v' of JObject _ \<Rightarrow> c' = CHR ''{'' | JArray _ \<Rightarrow> c' = CHR ''['' | _ \<Rightarrow> c' \<noteq> CHR ''{'' \<and> c' \<noteq> CHR ''[''"
    using canonical_start [OF ok, of v'] by blast
  have cc: "c = c'" using eq s(1) s'(1) by simp
  consider (object) kvs kvs' where "v = JObject kvs" "v' = JObject kvs'"
    | (list) xs ys where "v = JArray xs" "v' = JArray ys"
    | (scalar) "is_scalar v" "is_scalar v'"
    using s(2) s'(2) cc by (cases v; cases v') auto
  then show ?case
  proof cases
    case object
    let ?f = "\<lambda>m k. display (JString k) @ '':'' @
       (case map_of m k of None \<Rightarrow> [] | Some item \<Rightarrow> canonical display item)"
    have dist: "distinct (map fst kvs)" "distinct (map fst kvs')" using wf object by simp_all
    have step: "(k = k' \<and> canon (the (map_of kvs k)) = canon (the (map_of kvs' k'))) \<and> p = q"
      if k: "k \<in> set (sort (map fst kvs))" "k' \<in> set (sort (map fst kvs'))" and pq: "delimited p" "delimited q"
        and e: "?f kvs k @ p = ?f kvs' k' @ q" for k k' p q
    proof -
      obtain x where x: "map_of kvs k = Some x" using k(1) member_key [of k kvs] by auto
      obtain y where y: "map_of kvs' k' = Some y" using k(2) member_key [of k' kvs'] by auto
      have e2: "display (JString k) @ CHR '':'' # canonical display x @ p =
          display (JString k') @ CHR '':'' # canonical display y @ q"
        using e x y by simp
      have "JString k = JString k' \<and> CHR '':'' # canonical display x @ p = CHR '':'' # canonical display y @ q"
        by (rule display_inj [OF ok _ _ _ _ e2]) (simp_all add: delimited_def)
      then have k: "k = k'" "canonical display x @ p = canonical display y @ q" by simp_all
      have mem: "(k, x) \<in> set kvs" "(k', y) \<in> set kvs'" using x y by (auto dest: map_of_SomeD)
      have "json_wf x" "json_wf y" using mem wf object by fastforce+
      moreover have "size x < size v" using member_smaller [OF x] object by simp
      ultimately have "canon x = canon y \<and> p = q" using IH pq k(2) by blast
      then show ?thesis using k x y by simp
    qed
    have start: "\<exists>c cs. ?f m k = c # cs \<and> c \<noteq> CHR ''}''" for m k
      using display_start [OF ok, of "JString k"] by auto
    have e: "join_commas (map (?f kvs) (sort (map fst kvs))) @ CHR ''}'' # r =
        join_commas (map (?f kvs') (sort (map fst kvs'))) @ CHR ''}'' # r'"
      using eq object by simp
    have "list_all2 (\<lambda>k k'. k = k' \<and> canon (the (map_of kvs k)) = canon (the (map_of kvs' k')))
        (sort (map fst kvs)) (sort (map fst kvs')) \<and> r = r'"
      by (rule join_commas_inj [OF step start start _ e]) simp_all
    then have r: "r = r'" and "map (\<lambda>k. (k, canon (the (map_of kvs k)))) (sort (map fst kvs)) =
        map (\<lambda>k. (k, canon (the (map_of kvs' k)))) (sort (map fst kvs'))"
      unfolding map_eq_all2 by (auto elim: list_all2_mono)
    then show ?thesis unfolding object canon_object [OF dist(1)] canon_object [OF dist(2)] by simp
  next
    case list
    have step: "canon x = canon y \<and> p = q"
      if "x \<in> set xs" "y \<in> set ys" "delimited p" "delimited q"
        "canonical display x @ p = canonical display y @ q" for x y p q
    proof -
      have "size x < size v" using that(1) list by (auto simp: less_Suc_eq_le size_list_estimation')
      then show ?thesis using IH that wf list by auto
    qed
    have start: "\<exists>c cs. canonical display x = c # cs \<and> c \<noteq> CHR '']''" for x
      using canonical_start [OF ok, of x] by auto
    have e: "join_commas (map (canonical display) xs) @ CHR '']'' # r =
        join_commas (map (canonical display) ys) @ CHR '']'' # r'"
      using eq list by simp
    have "list_all2 (\<lambda>x y. canon x = canon y) xs ys \<and> r = r'"
      by (rule join_commas_inj [OF step start start _ e]) simp_all
    then show ?thesis using list by (auto simp: list_all2_conv_all_nth intro: nth_equalityI)
  next
    case scalar
    have "display v @ r = display v' @ r'" using eq scalar by (simp add: scalar_text)
    then have "v = v' \<and> r = r'" by (rule display_inj [OF ok scalar d])
    then show ?thesis by simp
  qed
qed

lemma canonical_canon: "json_wf v \<Longrightarrow> canonical display (canon v) = canonical display v"
proof (induction display v rule: canonical.induct)
  case (1 display kvs)
  let ?m = "map (\<lambda>k. (k, canon (the (map_of kvs k)))) (sort (map fst kvs))"
  have dist: "distinct (map fst kvs)" using 1 by simp
  have keys: "sort (map fst ?m) = sort (map fst kvs)" by (simp add: comp_def sort_key_id_if_sorted)
  have item: "(case map_of ?m k of None \<Rightarrow> [] | Some item \<Rightarrow> canonical display item) =
      (case map_of kvs k of None \<Rightarrow> [] | Some item \<Rightarrow> canonical display item)"
    if k: "k \<in> set (sort (map fst kvs))" for k
  proof -
    have k2: "k \<in> set (map fst kvs)" using k by simp
    obtain x where x: "map_of kvs k = Some x" using member_key [OF k2] by blast
    have "map_of ?m k = Some (canon x)" using k x by (simp add: map_of_map_restrict restrict_map_def)
    moreover have "json_wf x" using x "1.prems" by (auto dest!: map_of_SomeD)
    ultimately show ?thesis using "1.IH" [OF k x] x by simp
  qed
  have "map (\<lambda>k. display (JString k) @ '':'' @
         (case map_of ?m k of None \<Rightarrow> [] | Some item \<Rightarrow> canonical display item)) (sort (map fst kvs)) =
      map (\<lambda>k. display (JString k) @ '':'' @
         (case map_of kvs k of None \<Rightarrow> [] | Some item \<Rightarrow> canonical display item)) (sort (map fst kvs))"
    by (rule map_cong) (simp_all only: item)
  then show ?case unfolding canon_object [OF dist] canonical.simps keys by (simp only:)
next
  case (2 display xs)
  then have "map (canonical display \<circ> canon) xs = map (canonical display) xs" by simp
  then show ?case by (simp only: canon.simps canonical.simps map_map)
qed simp_all

lemma canonical_eq_iff:
  assumes "display_ok display" "json_wf v" "json_wf v'"
  shows "canonical display v = canonical display v' \<longleftrightarrow> same_content v v'"
proof
  assume "canonical display v = canonical display v'"
  then show "same_content v v'"
    using canonical_inj [OF assms, of "[]" "[]"] by (simp add: delimited_def same_content_def)
next
  assume "same_content v v'"
  then show "canonical display v = canonical display v'"
    using canonical_canon [of v display] canonical_canon [of v' display] assms by (simp add: same_content_def)
qed

lemma envelope_eq:
  "envelope op res i body =
     JObject [(''body'', body), (''id'', case i of None \<Rightarrow> JNull | Some n \<Rightarrow> JNumber (Int_Num n)),
              (''op'', JString (op_text op)), (''resource'', JString res)]"
  by (simp add: envelope_def obj_def)

lemma op_text_inj: "op_text op = op_text op' \<longleftrightarrow> op = op'"
  by (cases op; cases op'; simp)

lemma envelope_same:
  "same_content (envelope op res i body) (envelope op' res' i' body') \<longleftrightarrow>
     op = op' \<and> res = res' \<and> i = i' \<and> same_content body body'"
  by (auto simp: same_content_def envelope_eq op_text_inj split: option.splits)

lemma envelope_wf: "json_wf body \<Longrightarrow> json_wf (envelope op res i body)"
  by (simp add: envelope_eq split: option.split)

section \<open>The journal as a first-write-wins map\<close>

abbreviation journal_vals :: "write_scope \<Rightarrow> string \<Rightarrow> json \<Rightarrow> int \<Rightarrow> (string \<times> db_value) list" where
  "journal_vals scope key v now \<equiv>
     [(''run_key'', VText (Some (ws_run_key scope))), (''step_key'', VText (Some (ws_step_key scope))),
      (''op_key'', VText (Some key)), (''result'', VJson (Some v)), (''created_at'', VInt (Some now))]"

abbreviation journal_keys :: "string list" where
  "journal_keys \<equiv> [''run_key'', ''step_key'', ''op_key'']"

lemma journal_key_conds: "key_conds journal_keys (journal_vals scope key v now) = journal_conds scope key"
  by (simp add: key_conds_def map_filter_simps journal_conds_def)

definition journal_entry :: "write_scope \<Rightarrow> string \<Rightarrow> sql_tables \<Rightarrow> row option" where
  "journal_entry scope key t = sql_first journal_table (journal_conds scope key) t"

lemma replay_quiet:
  "quiet w \<Longrightarrow> replay tx scope key w =
     (case journal_entry scope key (tabs w) of
        None \<Rightarrow> Inr None
      | Some r \<Rightarrow> (case col_json (r ''result'') of
            None \<Rightarrow> Inl (Lym_Store decode_text) | Some v \<Rightarrow> Inr (Some v)), w)"
  by (simp add: replay_def act_eval select_quiet journal_entry_def split: option.split)

lemma same_key_iff: "(scope', key') = (scope, key) \<longleftrightarrow>
    ws_run_key scope' = ws_run_key scope \<and> ws_step_key scope' = ws_step_key scope \<and> key' = key"
  for scope scope' :: write_scope
  by (cases scope; cases scope') auto

text \<open>What the insert does to every entry: it fills an empty one, and changes no other.\<close>

lemma journal_upsert:
  assumes up: "sql_upsert journal_table (journal_vals scope key v now) journal_keys [] t = Inr ((), t')"
  shows "(scope', key') \<noteq> (scope, key) \<Longrightarrow> journal_entry scope' key' t' = journal_entry scope' key' t"
    and "journal_entry scope key t = Some r \<Longrightarrow> t' = t"
    and "journal_entry scope key t = None \<Longrightarrow>
      (\<exists>r. journal_entry scope key t' = Some r \<and> r ''result'' = VJson (Some v)) \<and>
      rows t' = rows t @ [(journal_table, sql_new_row (journal_vals scope key v now) journal_table t)]"
proof -
  let ?vals = "journal_vals scope key v now"
  let ?new = "sql_new_row ?vals journal_table t"
  have new: "sql_match journal_table (journal_conds scope' key') (journal_table, ?new) \<longleftrightarrow> (scope', key') = (scope, key)"
    for scope' key'
    unfolding same_key_iff
    by (auto simp: sql_match_def journal_conds_def sql_new_row_def set_columns_simps)
  have old: "t' = t" if "journal_entry scope key t = Some r" for r
    using up that unfolding journal_entry_def sql_first_None [symmetric] sql_upsert_def journal_key_conds
    by (auto simp: sql_first_None sql_update_def set_columns_simps if_distrib cong: if_cong)
  then show "journal_entry scope key t = Some r \<Longrightarrow> t' = t" .
  have same: "rows t' = rows t \<or> rows t' = rows t @ [(journal_table, ?new)]"
    using up old unfolding sql_upsert_def journal_key_conds
    by (cases "journal_entry scope key t") (auto simp: journal_entry_def sql_first_None)
  show "journal_entry scope' key' t' = journal_entry scope' key' t" if "(scope', key') \<noteq> (scope, key)"
    using same new [of scope' key'] that by (auto simp: journal_entry_def sql_first_def rows_where_def)
  assume "journal_entry scope key t = None"
  then have e: "rows_where journal_table (journal_conds scope key) t = []"
    by (simp add: journal_entry_def sql_first_None)
  then have r: "rows t' = rows t @ [(journal_table, ?new)]"
    using up unfolding sql_upsert_def journal_key_conds by auto
  then have "rows_where journal_table (journal_conds scope key) t' = [?new]"
    using e new [of scope key] by (simp add: rows_where_def)
  then show "(\<exists>r. journal_entry scope key t' = Some r \<and> r ''result'' = VJson (Some v)) \<and>
      rows t' = rows t @ [(journal_table, ?new)]"
    using r by (simp add: journal_entry_def sql_first_def sql_new_row_def set_columns_simps)
qed

lemma journal_record_Inr:
  assumes "quiet w" "journal_record display tx scope key v w = (Inr (), w')"
  shows "\<exists>t'. sql_upsert journal_table (journal_vals scope key v (clock w)) journal_keys [] (tabs w) = Inr ((), t') \<and>
    w' = set_tabs t' w \<and> length (display v) \<le> max_result_bytes"
  using assms upsert_statement_Inr [OF assms(1)]
  by (fastforce simp: journal_record_def and_then_def utc_now_def map_err_eq_Inr fail_with_def split: if_splits)

lemma journal_record_ok:
  assumes "quiet w" "length (display v) \<le> max_result_bytes"
  shows "\<exists>w'. journal_record display tx scope key v w = (Inr (), w')"
proof -
  have "\<exists>t'. sql_upsert journal_table (journal_vals scope key v (clock w)) journal_keys [] (tabs w) = Inr ((), t')"
    by (auto simp: sql_upsert_def sql_update_def)
  then show ?thesis
    using assms statement_quiet_Inr [OF assms(1)]
    by (fastforce simp: journal_record_def and_then_def utc_now_def map_err_Inr)
qed

section \<open>Expired rows\<close>

text \<open>What a purge may delete: sessions, script errors and journal entries older than the cutoff.\<close>

definition expired :: "int \<Rightarrow> sql_row \<Rightarrow> bool" where
  "expired cutoff x \<longleftrightarrow>
     sql_match sessions_table [Col_Lt ''updated_at'' cutoff] x \<or>
     sql_match script_errors_table [Col_Lt ''at'' cutoff] x \<or>
     sql_match journal_table [Col_Lt ''created_at'' cutoff] x"

lemma purge_tables_distinct:
  "sessions_table \<noteq> script_errors_table" "sessions_table \<noteq> journal_table" "script_errors_table \<noteq> journal_table"
  by (simp_all add: sessions_table_def script_errors_table_def journal_table_def)

lemma delete_quiet:
  "quiet w \<Longrightarrow> statement (sql_delete table conds) w =
     (Inr (length (rows_where table conds (tabs w))),
      set_tabs ((tabs w)\<lparr>rows := filter (\<lambda>x. \<not> sql_match table conds x) (rows (tabs w))\<rparr>) w)"
  by (rule statement_quiet_Inr) (simp_all add: sql_delete_def)

lemma rows_where_length: "length (rows_where table conds t) = length (filter (sql_match table conds) (rows t))"
  by (simp add: rows_where_def)

lemma filter_other_table:
  "table \<noteq> table' \<Longrightarrow> filter (sql_match table conds) (filter (\<lambda>x. \<not> sql_match table' conds' x) xs) =
     filter (sql_match table conds) xs"
  by (auto simp: filter_filter sql_match_def intro!: filter_cong)

text \<open>Reading back what a purge counted.\<close>

definition purge_counts :: "int \<Rightarrow> sql_tables \<Rightarrow> purge_report" where
  "purge_counts cutoff t =
     \<lparr>pr_sessions = length (rows_where sessions_table [Col_Lt ''updated_at'' cutoff] t),
      pr_script_errors = length (rows_where script_errors_table [Col_Lt ''at'' cutoff] t),
      pr_write_journal = length (rows_where journal_table [Col_Lt ''created_at'' cutoff] t)\<rparr>"

lemma purge_quiet:
  assumes "quiet w" "0 < retention" "in_calendar (now - retention)"
  shows "purge_sessions in_calendar tx now retention w =
    (Inr (purge_counts (now - retention) (tabs w)),
     set_tabs ((tabs w)\<lparr>rows := filter (\<lambda>x. \<not> expired (now - retention) x) (rows (tabs w))\<rparr>) w)"
proof -
  have "filter (\<lambda>x. \<not> sql_match journal_table [Col_Lt ''created_at'' c] x)
      (filter (\<lambda>x. \<not> sql_match script_errors_table [Col_Lt ''at'' c] x)
        (filter (\<lambda>x. \<not> sql_match sessions_table [Col_Lt ''updated_at'' c] x) xs)) =
      filter (\<lambda>x. \<not> expired c x) xs" for c xs
    by (auto simp: filter_filter expired_def intro!: filter_cong)
  then show ?thesis
    using assms
    by (simp add: purge_sessions_def Let_def act_eval delete_quiet audit_purge_before_def
        journal_purge_before_def purge_counts_def rows_where_length filter_other_table
        purge_tables_distinct purge_tables_distinct [symmetric] del: filter_filter)
qed

lemma keeps_delete:
  "(\<And>t. P t \<Longrightarrow> P (t\<lparr>rows := filter (\<lambda>x. \<not> sql_match table conds x) (rows t)\<rparr>)) \<Longrightarrow>
     act_keeps P (statement (sql_delete table conds))"
  by (rule keeps_statement) (auto simp: sql_delete_def)

section \<open>Properties\<close>

text \<open>
  C24: Two writes of a step have the same key exactly when they are the same operation on the same
  resource and record with bodies that are equal up to the order of their keys, at every depth:
  the key depends on nothing else, and different writes are not confused. What SHA-256 is relied
  on for is that it separates these two texts.
\<close>

theorem op_key_identifies_write:
  assumes "display_ok display" and "json_wf body" "json_wf body'"
    and "sha (canonical display (envelope op res i body)) = sha (canonical display (envelope op' res' i' body')) \<Longrightarrow>
      canonical display (envelope op res i body) = canonical display (envelope op' res' i' body')"
  shows "op_key sha display op res i body = op_key sha display op' res' i' body' \<longleftrightarrow>
    op = op' \<and> res = res' \<and> i = i' \<and> same_content body body'"
proof -
  have "canonical display (envelope op res i body) = canonical display (envelope op' res' i' body') \<longleftrightarrow>
      op = op' \<and> res = res' \<and> i = i' \<and> same_content body body'"
    using canonical_eq_iff [OF assms(1) envelope_wf [OF assms(2)] envelope_wf [OF assms(3)]] envelope_same by blast
  then show ?thesis using assms(4) unfolding op_key_def by metis
qed

text \<open>
  The journal is a map in which the first write of a key wins: after a successful record, the key
  replays the value it already had, else the recorded one; every other key, in this scope or in
  another, replays as before.
\<close>

theorem journal_first_write_wins:
  assumes q: "quiet w" and run: "journal_record display tx scope key v w = (Inr (), w')"
  shows "replay tx scope' key' w' =
    (if (scope', key') = (scope, key) \<and> fst (replay tx scope key w) = Inr None then Inr (Some v)
     else fst (replay tx scope' key' w), w')"
proof -
  obtain t' where up: "sql_upsert journal_table (journal_vals scope key v (clock w)) journal_keys [] (tabs w) = Inr ((), t')"
    and w': "w' = set_tabs t' w"
    using journal_record_Inr [OF q run] by blast
  have q': "quiet w'" using q w' by simp
  show ?thesis
  proof (cases "(scope', key') = (scope, key)")
    case False
    then show ?thesis
      using journal_upsert(1) [OF up False] w' False unfolding replay_quiet [OF q] replay_quiet [OF q'] by auto
  next
    case True
    then show ?thesis
      using journal_upsert(2,3) [OF up] w' unfolding replay_quiet [OF q] replay_quiet [OF q']
      by (cases "journal_entry scope key (tabs w)") (auto split: option.splits)
  qed
qed

text \<open>
  A purge deletes exactly the expired rows and reports their numbers; a second one with the same
  instant finds nothing.
\<close>

theorem purge_exact:
  assumes "quiet w" "0 < retention" "in_calendar (now - retention)"
    and run: "purge_sessions in_calendar tx now retention w = (r, w')"
  shows "r = Inr (purge_counts (now - retention) (tabs w)) \<and>
    rows (tabs w') = filter (\<lambda>x. \<not> expired (now - retention) x) (rows (tabs w)) \<and>
    purge_sessions in_calendar tx now retention w' =
      (Inr \<lparr>pr_sessions = 0, pr_script_errors = 0, pr_write_journal = 0\<rparr>, w')"
proof -
  let ?t = "(tabs w)\<lparr>rows := filter (\<lambda>x. \<not> expired (now - retention) x) (rows (tabs w))\<rparr>"
  have w': "r = Inr (purge_counts (now - retention) (tabs w))" "w' = set_tabs ?t w"
    using run purge_quiet [of w retention in_calendar now tx] assms(1-3) by simp_all
  have "purge_counts (now - retention) ?t = \<lparr>pr_sessions = 0, pr_script_errors = 0, pr_write_journal = 0\<rparr>"
    by (auto simp: purge_counts_def rows_where_length filter_filter filter_empty_conv expired_def)
  moreover have "filter (\<lambda>x. \<not> expired (now - retention) x) (rows ?t) = rows ?t"
    by (simp add: filter_filter)
  then have "?t\<lparr>rows := filter (\<lambda>x. \<not> expired (now - retention) x) (rows ?t)\<rparr> = ?t" by simp
  moreover have q': "quiet w'" and t': "tabs w' = ?t" using w'(2) assms(1) by simp_all
  ultimately have "purge_sessions in_calendar tx now retention w' =
      (Inr \<lparr>pr_sessions = 0, pr_script_errors = 0, pr_write_journal = 0\<rparr>, set_tabs (tabs w') w')"
    unfolding purge_quiet [of w' retention in_calendar now, OF q' assms(2,3)] by (simp only: t')
  then show ?thesis using w'(1) t' by simp
qed

text \<open>
  Whatever fails and whatever other sessions do meanwhile, a purge never deletes a row that is
  not expired; with a retention that is not positive it deletes nothing and is refused.
\<close>

theorem purge_keeps_recent:
  assumes keep: "inv_world (\<lambda>t. x \<in> set (rows t)) w"
    and recent: "\<not> expired (now - retention) x"
    and run: "purge_sessions in_calendar tx now retention w = (r, w')"
  shows "x \<in> set (rows (tabs w')) \<and>
    (if retention \<le> 0 then r = Inl (Lym_InvalidDefinition ''retention must be positive'') \<and> w' = w else True)"
proof -
  have "act_keeps (\<lambda>t. x \<in> set (rows t)) (purge_sessions in_calendar tx now retention)"
    unfolding purge_sessions_def Let_def audit_purge_before_def journal_purge_before_def
    using recent by (auto simp: expired_def intro!: keeps keeps_delete)
  from act_keepsD [OF this run keep] have "x \<in> set (rows (tabs w'))" by (simp add: inv_world_def)
  then show ?thesis using run by (auto simp: purge_sessions_def fail_with_def)
qed

section \<open>Witnesses\<close>

text \<open>
  A display of the scalars: words, decimal integers, quoted strings with their quotes and
  backslashes escaped, and a fraction for a number that is not an integer.
\<close>

definition escape_char :: "char \<Rightarrow> string" where
  "escape_char c = (if c = CHR 0x22 \<or> c = CHR 0x5C then [CHR 0x5C, c] else [c])"

definition show_int :: "int \<Rightarrow> string" where
  "show_int i = (if i < 0 then ''-'' @ show_nat (nat (- i)) else show_nat (nat i))"

fun demo_display :: "json \<Rightarrow> string" where
  "demo_display JNull = ''null''"
| "demo_display (JBool b) = (if b then ''true'' else ''false'')"
| "demo_display (JNumber (Int_Num i)) = show_int i"
| "demo_display (JNumber (Float_Num q)) =
     show_int (fst (quotient_of q)) @ ''/'' @ show_int (snd (quotient_of q))"
| "demo_display (JString s) = CHR 0x22 # concat (map escape_char s) @ [CHR 0x22]"
| "demo_display _ = ''?''"

definition punctuation :: string where
  "punctuation = CHR 0x22 # ''-/,:{[]}ntf''"

lemma punctuation_no_digit: "list_all (\<lambda>c. digit_value c = None) punctuation"
  by code_simp

lemma show_nat_chars: "c \<in> set punctuation \<Longrightarrow> c \<notin> set (show_nat n)"
  using punctuation_no_digit show_nat_no_nondigit by (simp add: list_all_iff)

lemma show_int_chars: "c \<in> set punctuation \<Longrightarrow> c \<noteq> CHR ''-'' \<Longrightarrow> c \<notin> set (show_int i)"
  using show_nat_chars by (simp add: show_int_def)

lemma show_int_inj: "show_int i = show_int j \<longleftrightarrow> i = j"
proof -
  have "CHR ''-'' \<in> set punctuation" by code_simp
  then have no: "show_nat n \<noteq> CHR ''-'' # s" for n s using show_nat_chars [of "CHR ''-''" n] by auto
  show ?thesis
  proof
    assume e: "show_int i = show_int j"
    show "i = j"
    proof (cases "i < 0"; cases "j < 0")
    qed (use e no no [THEN not_sym] in \<open>simp_all add: show_int_def show_nat_inj\<close>)
  qed simp
qed

lemma split_at_delimiter:
  assumes "\<forall>c\<in>set a. c \<notin> D" "\<forall>c\<in>set b. c \<notin> D"
    and "r = [] \<or> hd r \<in> D" "r' = [] \<or> hd r' \<in> D" "a @ r = b @ r'"
  shows "a = b \<and> r = r'"
proof -
  have tw: "takeWhile (\<lambda>c. c \<notin> D) (x @ y) = x" if "\<forall>c\<in>set x. c \<notin> D" "y = [] \<or> hd y \<in> D" for x y
    using that by (cases y) (auto simp: takeWhile_append)
  have "a = b" using tw [OF assms(1,3)] tw [OF assms(2,4)] assms(5) by simp
  with assms(5) show ?thesis by simp
qed

lemma quoted_inj:
  "concat (map escape_char s) @ CHR 0x22 # r = concat (map escape_char s') @ CHR 0x22 # r' \<Longrightarrow> s = s' \<and> r = r'"
proof (induction s arbitrary: s')
  case Nil
  then show ?case by (cases s') (auto simp: escape_char_def split: if_splits)
next
  case (Cons c s)
  then show ?case by (cases s') (auto simp: escape_char_def split: if_splits)
qed

definition number_text :: "number \<Rightarrow> string" where
  "number_text n = demo_display (JNumber n)"

lemma punctuation_mem:
  "CHR 0x22 \<in> set punctuation" "CHR '','' \<in> set punctuation" "CHR '':'' \<in> set punctuation"
  "CHR '']'' \<in> set punctuation" "CHR ''}'' \<in> set punctuation" "CHR ''['' \<in> set punctuation"
  "CHR ''{'' \<in> set punctuation" "CHR ''n'' \<in> set punctuation" "CHR ''t'' \<in> set punctuation"
  "CHR ''f'' \<in> set punctuation" "CHR ''/'' \<in> set punctuation"
  by (simp_all add: punctuation_def)

lemma number_text_chars:
  "c \<in> set punctuation \<Longrightarrow> c \<noteq> CHR ''-'' \<Longrightarrow> c \<noteq> CHR ''/'' \<Longrightarrow> c \<notin> set (number_text n)"
  using show_int_chars by (cases n) (auto simp: number_text_def)

lemma number_text_not_Nil [simp]: "number_text n \<noteq> []"
  by (cases n) (auto simp: number_text_def show_int_def)

lemma number_text_inj: "number_text m = number_text n \<Longrightarrow> m = n"
proof (cases m; cases n)
  fix p q assume e: "number_text m = number_text n" and m: "m = Float_Num p" and n: "n = Float_Num q"
  have "show_int (fst (quotient_of p)) = show_int (fst (quotient_of q)) \<and>
      CHR ''/'' # show_int (snd (quotient_of p)) = CHR ''/'' # show_int (snd (quotient_of q))"
    by (rule split_at_delimiter [where D = "{CHR ''/''}"])
      (use e m n show_int_chars [of "CHR ''/''"] punctuation_mem in \<open>auto simp: number_text_def\<close>)
  then show "m = n" using m n by (simp add: show_int_inj prod_eq_iff quotient_of_inject_eq [symmetric])
next
  fix i q assume e: "number_text m = number_text n" and m: "m = Int_Num i" and n: "n = Float_Num q"
  have "CHR ''/'' \<in> set (number_text n)" by (simp add: n number_text_def)
  with e have "CHR ''/'' \<in> set (number_text m)" by simp
  with m show "m = n" using show_int_chars [of "CHR ''/''" i] punctuation_mem by (simp add: number_text_def)
next
  fix i q assume e: "number_text m = number_text n" and m: "m = Float_Num q" and n: "n = Int_Num i"
  have "CHR ''/'' \<in> set (number_text m)" by (simp add: m number_text_def)
  with e have "CHR ''/'' \<in> set (number_text n)" by simp
  with n show "m = n" using show_int_chars [of "CHR ''/''" i] punctuation_mem by (simp add: number_text_def)
qed (auto simp: number_text_def show_int_inj)

lemma number_text_hd: "hd (number_text n) \<notin> set (CHR 0x22 # '',:{[]}ntf'')"
  using hd_in_set [OF number_text_not_Nil, of n] number_text_chars [of "hd (number_text n)" n] punctuation_mem
  by auto

lemma number_text_words [simp]:
  "number_text n \<noteq> ''null''" "number_text n \<noteq> ''true''" "number_text n \<noteq> ''false''"
  "''null'' \<noteq> number_text n" "''true'' \<noteq> number_text n" "''false'' \<noteq> number_text n"
  using number_text_hd [of n] by (auto dest: arg_cong [where f = hd])

lemma demo_display_ok: "display_ok demo_display"
  unfolding display_ok_def
proof (intro conjI allI impI)
  have word: "list_all (\<lambda>s. list_all (\<lambda>c. c \<notin> set '',:]}'') s) [''null'', ''true'', ''false'']" by code_simp
  have num: "\<forall>c\<in>set (number_text n). c \<notin> set '',:]}''" for n
    using number_text_chars punctuation_mem by fastforce
  let ?plain = "\<lambda>v. case v of JString _ \<Rightarrow> False | _ \<Rightarrow> is_scalar v"
  have chars: "\<forall>c\<in>set (demo_display v). c \<notin> set '',:]}''" if "?plain v" for v
    using that word num by (cases v) (auto simp: list_all_iff number_text_def [symmetric])
  have start: "demo_display v \<noteq> [] \<and> hd (demo_display v) \<notin> set (CHR 0x22 # '',:{[]}'')" if "?plain v" for v
    using that number_text_hd by (cases v) (auto simp: number_text_def [symmetric])
  have inj: "demo_display v = demo_display v' \<Longrightarrow> v = v'" if "?plain v" "?plain v'" for v v'
    using that by (cases v; cases v') (auto simp: number_text_def [symmetric] number_text_inj split: if_splits)
  show "demo_display v \<noteq> []" "hd (demo_display v) \<notin> set ''{[]},:''" if "is_scalar v" for v
    using that start [of v] by (cases v; auto)+
  fix v v' r r'
  assume v: "is_scalar v" "is_scalar v'" and d: "delimited r" "delimited r'"
    and e: "demo_display v @ r = demo_display v' @ r'"
  have dd: "r = [] \<or> hd r \<in> set '',:]}''" "r' = [] \<or> hd r' \<in> set '',:]}''"
    using d by (auto simp: delimited_def split: list.splits)
  show "v = v'" "r = r'"
  proof -
    consider (strings) s s' where "v = JString s" "v' = JString s'" | "?plain v" "?plain v'"
      | s where "v = JString s" "?plain v'" | s where "v' = JString s" "?plain v"
      using v by (cases v; cases v') auto
    then have "v = v' \<and> r = r'"
    proof cases
      case strings
      have "concat (map escape_char s) @ CHR 0x22 # r = concat (map escape_char s') @ CHR 0x22 # r'"
        using e unfolding strings by simp
      from quoted_inj [OF this] show ?thesis unfolding strings by blast
    next
      case 2
      then show ?thesis using split_at_delimiter [OF chars chars dd e] inj by blast
    next
      case 3
      then show ?thesis using e start [of v'] by (cases "demo_display v'") auto
    next
      case 4
      then show ?thesis using e start [of v] by (cases "demo_display v") auto
    qed
    then show "v = v'" "r = r'" by simp_all
  qed
qed

theorem op_key_identifies_write_witness:
  "op_key id demo_display Create_Op ''recipes'' None (JObject [(''b'', JNull), (''a'', JBool True)]) =
     op_key id demo_display Create_Op ''recipes'' None (JObject [(''a'', JBool True), (''b'', JNull)]) \<and>
   op_key id demo_display Update_Op ''recipes'' (Some 1) (JObject [(''a'', JBool True)]) \<noteq>
     op_key id demo_display Update_Op ''recipes'' (Some 1) (JObject [(''a'', JBool False)])"
proof
  show "op_key id demo_display Create_Op ''recipes'' None (JObject [(''b'', JNull), (''a'', JBool True)]) =
      op_key id demo_display Create_Op ''recipes'' None (JObject [(''a'', JBool True), (''b'', JNull)])"
    by (subst op_key_identifies_write [OF demo_display_ok]) (simp_all add: same_content_def)
  show "op_key id demo_display Update_Op ''recipes'' (Some 1) (JObject [(''a'', JBool True)]) \<noteq>
      op_key id demo_display Update_Op ''recipes'' (Some 1) (JObject [(''a'', JBool False)])"
    by (subst op_key_identifies_write [OF demo_display_ok]) (simp_all add: same_content_def)
qed

definition demo_journal_scope :: write_scope where
  "demo_journal_scope = \<lparr>ws_run_key = ''run'', ws_step_key = ''step''\<rparr>"

lemma quiet_demo_shelf: "quiet demo_shelf"
  by (simp add: demo_shelf_def)

theorem journal_first_write_wins_witness:
  "\<exists>w'. journal_record demo_display demo_texts demo_journal_scope ''k'' (JBool True) demo_shelf = (Inr (), w') \<and>
     replay demo_texts demo_journal_scope ''k'' w' = (Inr (Some (JBool True)), w') \<and>
     replay demo_texts demo_journal_scope ''other'' w' = (Inr None, w')"
proof -
  obtain w' where run: "journal_record demo_display demo_texts demo_journal_scope ''k'' (JBool True) demo_shelf = (Inr (), w')"
    using journal_record_ok [OF quiet_demo_shelf, of demo_display "JBool True" demo_texts demo_journal_scope "''k''"]
    by (auto simp: max_result_bytes_def)
  have none: "fst (replay demo_texts demo_journal_scope key demo_shelf) = Inr None" for key
    unfolding replay_quiet [OF quiet_demo_shelf] journal_entry_def sql_first_def
    by (simp add: rows_where_def sql_match_def demo_shelf_def demo_tables_def catalog_toolsets_table_def
        journal_table_def)
  show ?thesis
    using run journal_first_write_wins [OF quiet_demo_shelf run, of demo_journal_scope "''k''"]
      journal_first_write_wins [OF quiet_demo_shelf run, of demo_journal_scope "''other''"] none by auto
qed

text \<open>A session saved at instant 100, purged ten nanoseconds later with a retention of one.\<close>

theorem purge_exact_witness:
  "\<exists>w'. fst (purge_sessions (\<lambda>_. True) demo_texts 110 1 demo_session_world) =
      Inr \<lparr>pr_sessions = 2, pr_script_errors = 0, pr_write_journal = 0\<rparr> \<and>
    purge_sessions (\<lambda>_. True) demo_texts 110 1 w' =
      (Inr \<lparr>pr_sessions = 0, pr_script_errors = 0, pr_write_journal = 0\<rparr>, w')"
proof -
  have q: "quiet demo_session_world" using demo_index_run by simp
  obtain r w' where run: "purge_sessions (\<lambda>_. True) demo_texts 110 1 demo_session_world = (r, w')"
    by fastforce
  have c: "purge_counts (110 - 1) (tabs demo_session_world) =
      \<lparr>pr_sessions = 2, pr_script_errors = 0, pr_write_journal = 0\<rparr>"
    by code_simp
  have "r = Inr \<lparr>pr_sessions = 2, pr_script_errors = 0, pr_write_journal = 0\<rparr> \<and>
      purge_sessions (\<lambda>_. True) demo_texts 110 1 w' =
        (Inr \<lparr>pr_sessions = 0, pr_script_errors = 0, pr_write_journal = 0\<rparr>, w')"
    using purge_exact [OF q _ _ run] unfolding c by simp
  then show ?thesis using run by auto
qed

theorem purge_keeps_recent_witness:
  "(catalog_toolsets_table, demo_toolset_row) \<in>
     set (rows (tabs (snd (purge_sessions (\<lambda>_. True) demo_texts 110 20 demo_shelf))))"
proof -
  have "\<not> expired (110 - 20) (catalog_toolsets_table, demo_toolset_row)"
    by (simp add: expired_def sql_match_def sessions_table_def script_errors_table_def journal_table_def
        catalog_toolsets_table_def)
  moreover have "inv_world (\<lambda>t. (catalog_toolsets_table, demo_toolset_row) \<in> set (rows t)) demo_shelf"
    by (simp add: demo_shelf_def inv_world_def env_keeps_def demo_tables_def)
  moreover obtain r w' where "purge_sessions (\<lambda>_. True) demo_texts 110 20 demo_shelf = (r, w')"
    by fastforce
  ultimately show ?thesis
    using purge_keeps_recent [of "(catalog_toolsets_table, demo_toolset_row)" demo_shelf 110 20] by fastforce
qed

end
