(* ===== verification/Entity_Ir.thy ===== *)
theory Entity_Ir
  imports Rbac
begin

text \<open>
  The description of the entities (\<open>src/src/ir.rs\<close>): the type of a column for clients, the table a
  column refers to, the description of one entity, and the registry that resolves references to the
  resources registered with it. What SeaORM's derive gives of an entity (its table, columns, keys
  and relations) is data. Writing the description to a file is left out.
\<close>

section \<open>What an entity declares\<close>

datatype sea_column_type =
    Ct_Blob | Ct_Binary | Ct_VarBinary
  | Ct_TinyInteger | Ct_SmallInteger | Ct_Integer | Ct_TinyUnsigned | Ct_SmallUnsigned | Ct_Unsigned | Ct_Year
  | Ct_BigInteger | Ct_BigUnsigned | Ct_Float | Ct_Double
  | Ct_DateTime | Ct_Timestamp | Ct_TimestampWithTimeZone | Ct_Time | Ct_Date
  | Ct_Boolean | Ct_Json | Ct_JsonBinary | Ct_Uuid | Ct_Array | Ct_Vector | Ct_Other

record column_def =
  cd_name :: string
  cd_type :: sea_column_type
  cd_nullable :: bool

datatype relation_type = Has_One | Has_Many

datatype column_identity = Unary string | Composite "string list"

datatype table_ref = Plain_Table string | Other_Table

record relation_def =
  rl_type :: relation_type
  rl_is_owner :: bool
  rl_from_col :: column_identity
  rl_to_table :: table_ref

record entity =
  en_resource :: resource
  en_table :: string
  en_columns :: "column_def list"
  en_keys :: "string list"
  en_relations :: "relation_def list"

section \<open>Descriptions\<close>

record field_ir =
  fi_name :: string
  fi_type :: string
  fi_format :: "string option"
  fi_nullable :: bool
  fi_primary_key :: bool
  fi_references :: "string option"

record entity_ir =
  ei_resource_name :: string
  ei_fields :: "field_ir list"
  ei_read_policy :: access_policy
  ei_write_policy :: access_policy
  ei_owner_column :: "string option"
  ei_filter_column :: "string option"
  ei_label_column :: "string option"

definition openapi_type :: "sea_column_type \<Rightarrow> string \<times> string option" where
  "openapi_type t =
     (if t \<in> {Ct_Blob, Ct_Binary, Ct_VarBinary} then (''string'', Some ''byte'')
      else if t \<in> {Ct_TinyInteger, Ct_SmallInteger, Ct_Integer, Ct_TinyUnsigned, Ct_SmallUnsigned,
                   Ct_Unsigned, Ct_Year} then (''integer'', Some ''int32'')
      else if t \<in> {Ct_BigInteger, Ct_BigUnsigned} then (''integer'', Some ''int64'')
      else if t = Ct_Float then (''number'', Some ''float'')
      else if t = Ct_Double then (''number'', Some ''double'')
      else if t \<in> {Ct_DateTime, Ct_Timestamp, Ct_TimestampWithTimeZone} then (''string'', Some ''date-time'')
      else if t = Ct_Time then (''string'', Some ''time'')
      else if t = Ct_Date then (''string'', Some ''date'')
      else if t = Ct_Boolean then (''boolean'', None)
      else if t \<in> {Ct_Json, Ct_JsonBinary} then (''object'', None)
      else if t = Ct_Uuid then (''string'', Some ''uuid'')
      else if t \<in> {Ct_Array, Ct_Vector} then (''array'', None)
      else (''string'', None))"

text \<open>Only a one-to-one relation this entity does not own, on this very column, is a reference.\<close>

definition resolve_reference_table :: "relation_def \<Rightarrow> string \<Rightarrow> string option" where
  "resolve_reference_table d column_name =
     (if rl_type d \<noteq> Has_One \<or> rl_is_owner d then None
      else case rl_from_col d of
             Composite _ \<Rightarrow> None
           | Unary from_col \<Rightarrow>
               if from_col \<noteq> column_name then None
               else (case rl_to_table d of Plain_Table t \<Rightarrow> Some t | Other_Table \<Rightarrow> None))"

text \<open>\<open>Iterator::find_map\<close>\<close>

fun find_map :: "('a \<Rightarrow> 'b option) \<Rightarrow> 'a list \<Rightarrow> 'b option" where
  "find_map f [] = None"
| "find_map f (x # xs) = (case f x of Some y \<Rightarrow> Some y | None \<Rightarrow> find_map f xs)"

definition resource_ir :: "entity \<Rightarrow> entity_ir" where
  "resource_ir en =
     \<lparr>ei_resource_name = resource_name (en_resource en),
      ei_fields = map (\<lambda>col. \<lparr>fi_name = cd_name col, fi_type = fst (openapi_type (cd_type col)),
          fi_format = snd (openapi_type (cd_type col)), fi_nullable = cd_nullable col,
          fi_primary_key = (cd_name col \<in> set (en_keys en)),
          fi_references = find_map (\<lambda>d. resolve_reference_table d (cd_name col)) (en_relations en)\<rparr>)
        (en_columns en),
      ei_read_policy = read_policy (en_resource en), ei_write_policy = write_policy (en_resource en),
      ei_owner_column = owner_column (en_resource en), ei_filter_column = filter_column (en_resource en),
      ei_label_column = label_column (en_resource en)\<rparr>"

section \<open>The registry\<close>

text \<open>\<open>ir_table_names\<close> pairs each table with its resource, in the order of registration.\<close>

record ir_registry =
  ir_entities :: "entity_ir list"
  ir_table_names :: "(string \<times> string) list"

definition ir_registry_new :: ir_registry where
  "ir_registry_new = \<lparr>ir_entities = [], ir_table_names = []\<rparr>"

text \<open>A resource name or a table that is already there panics: None.\<close>

definition ir_register :: "entity \<Rightarrow> ir_registry \<Rightarrow> ir_registry option" where
  "ir_register en r =
     (let name = resource_name (en_resource en) in
      if list_ex (\<lambda>e. ei_resource_name e = name) (ir_entities r) then None
      else if list_ex (\<lambda>(table, _). table = en_table en) (ir_table_names r) then None
      else Some \<lparr>ir_entities = ir_entities r @ [resource_ir en],
                 ir_table_names = ir_table_names r @ [(en_table en, name)]\<rparr>)"

definition resolved_entities :: "ir_registry \<Rightarrow> entity_ir list" where
  "resolved_entities r =
     map (\<lambda>e. e\<lparr>ei_fields := map (\<lambda>f. f\<lparr>fi_references :=
            Option.bind (fi_references f) (\<lambda>raw_table.
              map_option snd (find (\<lambda>(table, _). table = raw_table) (ir_table_names r)))\<rparr>) (ei_fields e)\<rparr>)
       (ir_entities r)"

fun ir_register_all :: "entity list \<Rightarrow> ir_registry \<Rightarrow> ir_registry option" where
  "ir_register_all [] r = Some r"
| "ir_register_all (e # es) r = Option.bind (ir_register e r) (ir_register_all es)"

section \<open>Lemmas\<close>

lemma ir_register_eq:
  "ir_register e r =
     (if resource_name (en_resource e) \<in> ei_resource_name ` set (ir_entities r) \<or>
         en_table e \<in> fst ` set (ir_table_names r) then None
      else Some \<lparr>ir_entities = ir_entities r @ [resource_ir e],
        ir_table_names = ir_table_names r @ [(en_table e, resource_name (en_resource e))]\<rparr>)"
proof -
  have "list_ex (\<lambda>x. ei_resource_name x = n) xs \<longleftrightarrow> n \<in> ei_resource_name ` set xs" for n and xs :: "entity_ir list"
    by (auto simp: list_ex_iff)
  moreover have "list_ex (\<lambda>(table, _). table = t) ys \<longleftrightarrow> t \<in> fst ` set ys" for t and ys :: "(string \<times> string) list"
    by (induction ys) auto
  ultimately show ?thesis by (simp add: ir_register_def Let_def)
qed

lemma ir_register_all_eq:
  "ir_register_all es r = Some r' \<Longrightarrow>
     distinct (map (resource_name \<circ> en_resource) es) \<and> distinct (map en_table es) \<and>
     (\<forall>e\<in>set es. resource_name (en_resource e) \<notin> ei_resource_name ` set (ir_entities r) \<and>
        en_table e \<notin> fst ` set (ir_table_names r)) \<and>
     ir_entities r' = ir_entities r @ map resource_ir es \<and>
     ir_table_names r' = ir_table_names r @ map (\<lambda>e. (en_table e, resource_name (en_resource e))) es"
proof (induction es arbitrary: r)
  case (Cons e es)
  then obtain r1 where r1: "ir_register e r = Some r1" "ir_register_all es r1 = Some r'"
    by (auto simp: bind_eq_Some_conv)
  have n: "ei_resource_name (resource_ir e) = resource_name (en_resource e)" by (simp add: resource_ir_def)
  show ?case
    using Cons.IH [OF r1(2)] r1(1) n unfolding ir_register_eq by (simp split: if_splits) (auto simp: image_iff, fastforce)
qed simp

lemma find_table:
  assumes "distinct (map en_table es)"
  shows "map_option snd (find (\<lambda>(table, _). table = t)
      (map (\<lambda>e. (en_table e, resource_name (en_resource e))) es)) = Some n \<longleftrightarrow>
    (\<exists>e. e \<in> set es \<and> resource_name (en_resource e) = n \<and> t = en_table e)"
  using assms
proof (induction es)
  case (Cons a es)
  show ?case
  proof (cases "en_table a = t")
    case True
    have "e = a" if "e \<in> set (a # es)" "t = en_table e" for e
      using that True Cons.prems by (auto simp: rev_image_eqI)
    then show ?thesis using True by auto
  next
    case False
    then show ?thesis using Cons by auto
  qed
qed simp

section \<open>Properties\<close>

text \<open>
  Whatever the order of the registrations, a column of the written description refers to a
  resource exactly when the table of its relation is the table of a registered entity, and then to
  that entity's resource; the names and the tables of the registered entities are distinct.
\<close>

theorem ir_references_resolve:
  assumes run: "ir_register_all es ir_registry_new = Some r"
    and en: "en \<in> set es" and col: "col \<in> set (en_columns en)"
  shows "distinct (map ei_resource_name (resolved_entities r)) \<and>
    (\<exists>e f. e \<in> set (resolved_entities r) \<and> ei_resource_name e = resource_name (en_resource en) \<and>
      f \<in> set (ei_fields e) \<and> fi_name f = cd_name col \<and>
      (\<forall>target. fi_references f = Some target \<longleftrightarrow>
        (\<exists>other. other \<in> set es \<and> resource_name (en_resource other) = target \<and>
          find_map (\<lambda>d. resolve_reference_table d (cd_name col)) (en_relations en) = Some (en_table other))))"
proof -
  have d: "distinct (map (resource_name \<circ> en_resource) es)" "distinct (map en_table es)"
    and r: "ir_entities r = map resource_ir es"
      "ir_table_names r = map (\<lambda>e. (en_table e, resource_name (en_resource e))) es"
    using ir_register_all_eq [OF run] by (simp_all add: ir_registry_new_def)
  have names: "map ei_resource_name (resolved_entities r) = map (resource_name \<circ> en_resource) es"
    by (simp add: resolved_entities_def r resource_ir_def)
  let ?res = "\<lambda>f. f\<lparr>fi_references := Option.bind (fi_references f) (\<lambda>raw_table.
      map_option snd (find (\<lambda>(table, _). table = raw_table) (ir_table_names r)))\<rparr>"
  let ?f = "\<lparr>fi_name = cd_name col, fi_type = fst (openapi_type (cd_type col)),
      fi_format = snd (openapi_type (cd_type col)), fi_nullable = cd_nullable col,
      fi_primary_key = (cd_name col \<in> set (en_keys en)),
      fi_references = find_map (\<lambda>d. resolve_reference_table d (cd_name col)) (en_relations en)\<rparr>"
  let ?e = "(resource_ir en)\<lparr>ei_fields := map ?res (ei_fields (resource_ir en))\<rparr>"
  have "?e \<in> set (resolved_entities r)" using en by (simp add: resolved_entities_def r)
  moreover have "?res ?f \<in> set (ei_fields ?e)" using col by (simp add: resource_ir_def)
  moreover have "fi_references (?res ?f) = Some target \<longleftrightarrow>
      (\<exists>other. other \<in> set es \<and> resource_name (en_resource other) = target \<and>
        find_map (\<lambda>d. resolve_reference_table d (cd_name col)) (en_relations en) = Some (en_table other))" for target
    using find_table [OF d(2), of _ target] by (auto simp: r bind_eq_Some_conv)
  ultimately show ?thesis
    using d(1) names by (intro conjI exI [of _ ?e] exI [of _ "?res ?f"]) (simp_all add: resource_ir_def)
qed

text \<open>An entity whose \<open>user_id\<close> belongs to an entity registered after it.\<close>

definition demo_note_entity :: entity where
  "demo_note_entity =
     \<lparr>en_resource = demo_resource, en_table = ''t_recipes'',
      en_columns = [\<lparr>cd_name = ''id'', cd_type = Ct_Integer, cd_nullable = False\<rparr>,
                    \<lparr>cd_name = ''user_id'', cd_type = Ct_Integer, cd_nullable = False\<rparr>],
      en_keys = [''id''],
      en_relations = [\<lparr>rl_type = Has_One, rl_is_owner = False, rl_from_col = Unary ''user_id'',
                       rl_to_table = Plain_Table ''t_users''\<rparr>]\<rparr>"

definition demo_user_entity :: entity where
  "demo_user_entity =
     \<lparr>en_resource = demo_resource\<lparr>resource_name := ''people''\<rparr>, en_table = ''t_users'',
      en_columns = [\<lparr>cd_name = ''id'', cd_type = Ct_Integer, cd_nullable = False\<rparr>],
      en_keys = [''id''], en_relations = []\<rparr>"

theorem ir_references_resolve_witness:
  "\<exists>r e f. ir_register_all [demo_note_entity, demo_user_entity] ir_registry_new = Some r \<and>
     e \<in> set (resolved_entities r) \<and> f \<in> set (ei_fields e) \<and> fi_name f = ''user_id'' \<and>
     fi_references f = Some ''people''"
proof -
  let ?col = "\<lparr>cd_name = ''user_id'', cd_type = Ct_Integer, cd_nullable = False\<rparr>"
  obtain r where r: "ir_register_all [demo_note_entity, demo_user_entity] ir_registry_new = Some r"
    by (simp add: ir_register_eq ir_registry_new_def demo_note_entity_def demo_user_entity_def resource_ir_def)
  have c: "demo_note_entity \<in> set [demo_note_entity, demo_user_entity]" "?col \<in> set (en_columns demo_note_entity)"
    by (simp_all add: demo_note_entity_def)
  have "find_map (\<lambda>d. resolve_reference_table d (cd_name ?col)) (en_relations demo_note_entity) =
      Some (en_table demo_user_entity)" "resource_name (en_resource demo_user_entity) = ''people''"
    by (simp_all add: demo_note_entity_def demo_user_entity_def resolve_reference_table_def)
  then have other: "\<exists>other. other \<in> set [demo_note_entity, demo_user_entity] \<and>
      resource_name (en_resource other) = ''people'' \<and>
      find_map (\<lambda>d. resolve_reference_table d (cd_name ?col)) (en_relations demo_note_entity) = Some (en_table other)"
    by (intro exI [of _ demo_user_entity]) simp
  obtain e f where e: "e \<in> set (resolved_entities r)" "f \<in> set (ei_fields e)" "fi_name f = cd_name ?col"
      "\<forall>target. fi_references f = Some target \<longleftrightarrow>
        (\<exists>other. other \<in> set [demo_note_entity, demo_user_entity] \<and> resource_name (en_resource other) = target \<and>
          find_map (\<lambda>d. resolve_reference_table d (cd_name ?col)) (en_relations demo_note_entity) = Some (en_table other))"
    using ir_references_resolve [OF r c] by blast
  have "fi_references f = Some ''people''" using e(4) other by blast
  then show ?thesis using e(1-3) r by (intro exI [of _ r] exI [of _ e] exI [of _ f]) simp
qed

end
