(* ===== verification/Resource_Module.thy ===== *)
theory Resource_Module
  imports Write_Journal Entity_Ir Mcp
begin

text \<open>
  The Rhai module \<open>resources\<close> through which agents read and write the entities
  (\<open>src/src/lymaille/resource_module.rs\<close>): its failures and their messages, the conversions between
  script values and JSON, the erased readers and writers of an entity over \<open>rest::core\<close>, the registry,
  and the calls of a module instance with their write limit and, for a batch step, the journal.
  Parameters: the codecs \<open>de\<close> and \<open>ser\<close> of a model, \<open>is_unique\<close> (SeaORM's classification of a database
  error), and those of the journal. Traces are left out, and so is the bridge \<open>block_on\<close>.
\<close>

section \<open>Failures\<close>

definition llm_max_per_page :: u64 where "llm_max_per_page = 50"
definition llm_default_per_page :: u64 where "llm_default_per_page = 20"
definition max_writes_per_run :: u64 where "max_writes_per_run = 100"

datatype failure =
  F_UnknownResource string | F_UnknownSubject | F_NotFound | F_Forbidden | F_InvalidBody | F_Conflict
  | F_UniqueViolation | F_HookRefused string | F_WriteLimit | F_Internal

fun failure_message :: "failure \<Rightarrow> string" where
  "failure_message (F_UnknownResource name) = ''unknown resource: '' @ name"
| "failure_message F_UnknownSubject = ''no account for this session''"
| "failure_message F_NotFound = ''not found''"
| "failure_message F_Forbidden = ''forbidden''"
| "failure_message F_InvalidBody = ''invalid body''"
| "failure_message F_Conflict = ''conflict''"
| "failure_message F_UniqueViolation = ''conflict''"
| "failure_message (F_HookRefused m) = ''hook refused: '' @ m"
| "failure_message F_WriteLimit = ''write limit reached''"
| "failure_message F_Internal = ''internal error''"

fun failure_of_rest :: "rest_error \<Rightarrow> failure" where
  "failure_of_rest NotFound = F_NotFound"
| "failure_of_rest Forbidden = F_Forbidden"
| "failure_of_rest (Application h) = F_HookRefused (he_message h)"
| "failure_of_rest _ = F_Internal"

fun failure_of_lymaille :: "lymaille_error \<Rightarrow> failure" where
  "failure_of_lymaille Lym_UnknownSubject = F_UnknownSubject"
| "failure_of_lymaille _ = F_Internal"

section \<open>Script values\<close>

text \<open>
  The values the code tells apart: an integer is an \<open>i64\<close>, a float is None when it is not finite, and
  anything else is opaque.
\<close>

datatype dynamic =
    D_Unit | D_Bool bool | D_Int int | D_Float "rat option" | D_String string
  | D_Array "dynamic list" | D_Map "(string \<times> dynamic) list" | D_Opaque

fun dynamic_to_json :: "dynamic \<Rightarrow> json option" where
  "dynamic_to_json D_Unit = Some JNull"
| "dynamic_to_json (D_Bool b) = Some (JBool b)"
| "dynamic_to_json (D_Int i) = Some (JNumber (Int_Num i))"
| "dynamic_to_json (D_Float f) = map_option (\<lambda>q. JNumber (Float_Num q)) f"
| "dynamic_to_json (D_String s) = Some (JString s)"
| "dynamic_to_json (D_Array xs) = map_option JArray (those (map dynamic_to_json xs))"
| "dynamic_to_json (D_Map kvs) =
     map_option JObject (those (map (\<lambda>(k, x). map_option (Pair k) (dynamic_to_json x)) kvs))"
| "dynamic_to_json D_Opaque = None"

definition is_i64 :: "int \<Rightarrow> bool" where
  "is_i64 i \<longleftrightarrow> - (2 ^ 63) \<le> i \<and> i < 2 ^ 63"

text \<open>\<open>to_f64\<close> rounds an integer out of the \<open>i64\<close> range to a double.\<close>

fun json_to_dynamic :: "(int \<Rightarrow> rat) \<Rightarrow> json \<Rightarrow> dynamic" where
  "json_to_dynamic to_f64 JNull = D_Unit"
| "json_to_dynamic to_f64 (JBool b) = D_Bool b"
| "json_to_dynamic to_f64 (JNumber (Int_Num i)) = (if is_i64 i then D_Int i else D_Float (Some (to_f64 i)))"
| "json_to_dynamic to_f64 (JNumber (Float_Num q)) = D_Float (Some q)"
| "json_to_dynamic to_f64 (JString s) = D_String s"
| "json_to_dynamic to_f64 (JArray xs) = D_Array (map (json_to_dynamic to_f64) xs)"
| "json_to_dynamic to_f64 (JObject kvs) = D_Map (map (\<lambda>(k, v). (k, json_to_dynamic to_f64 v)) kvs)"

definition rhai_map :: "(string \<times> dynamic) list \<Rightarrow> dynamic" where
  "rhai_map kvs = D_Map (sort_key fst kvs)"

definition describe_entry :: "string \<Rightarrow> entity_ir \<Rightarrow> bool \<Rightarrow> dynamic" where
  "describe_entry name ir writable =
     rhai_map [(''name'', D_String name),
       (''filter_column'', case ei_filter_column ir of None \<Rightarrow> D_Unit | Some c \<Rightarrow> D_String c),
       (''fields'', D_Array (map (\<lambda>f. rhai_map [(''name'', D_String (fi_name f)), (''type'', D_String (fi_type f)),
          (''nullable'', D_Bool (fi_nullable f)), (''primary_key'', D_Bool (fi_primary_key f))]) (ei_fields ir))),
       (''writable'', D_Bool writable)]"

section \<open>Readers and writers\<close>

record 'w reader =
  rd_ir :: entity_ir
  rd_list_readable :: "user_row \<Rightarrow> ('w, dberr, bool) act"
  rd_list :: "auth_principal \<Rightarrow> u64 \<Rightarrow> u64 \<Rightarrow> string option \<Rightarrow> ('w, failure, json) act"
  rd_get :: "auth_principal \<Rightarrow> int \<Rightarrow> ('w, failure, json) act"

record 'w writer =
  wr_writable :: "user_row \<Rightarrow> ('w, dberr, bool) act"
  wr_create :: "auth_principal \<Rightarrow> json \<Rightarrow> ('w, failure, json) act"
  wr_update :: "auth_principal \<Rightarrow> int \<Rightarrow> json \<Rightarrow> ('w, failure, json) act"
  wr_delete :: "auth_principal \<Rightarrow> int \<Rightarrow> ('w, failure, json) act"
  wr_reread :: "json \<Rightarrow> ('w, failure, json option) act"

text \<open>What cannot be serialized is an internal error.\<close>

definition to_value :: "string + 'a \<Rightarrow> ('w, failure, 'a) act" where
  "to_value r = map_err (\<lambda>_. F_Internal) (lift_result r)"

definition reader_impl :: "(row \<Rightarrow> string + json) \<Rightarrow> entity \<Rightarrow> row tables world reader" where
  "reader_impl ser en =
     \<lparr>rd_ir = resource_ir en,
      rd_list_readable = (\<lambda>user. and_then (list_access (en_resource en) user)
        (\<lambda>access. return_ok (access \<noteq> List_Forbidden))),
      rd_list = (\<lambda>p page per_page filter_value.
        and_then (map_err failure_of_rest (rest_list (en_resource en) p (Some page) (Some per_page) filter_value))
          (\<lambda>pg. to_value (page_to_value ser pg))),
      rd_get = (\<lambda>p i. and_then (map_err failure_of_rest (rest_get (en_resource en) p i)) (\<lambda>r. to_value (ser r)))\<rparr>"

definition model_from_json :: "(json \<Rightarrow> string + row) \<Rightarrow> entity \<Rightarrow> json \<Rightarrow> failure + row" where
  "model_from_json de en body =
     (case as_object body of
        None \<Rightarrow> Inl F_InvalidBody
      | Some kvs \<Rightarrow>
          if \<not> list_all (\<lambda>(k, _). list_ex (\<lambda>f. fi_name f = k) (ei_fields (resource_ir en))) kvs
          then Inl F_InvalidBody
          else (case de body of Inl _ \<Rightarrow> Inl F_InvalidBody | Inr m \<Rightarrow> Inr m))"

definition primary_key_field :: "entity \<Rightarrow> string option" where
  "primary_key_field en = map_option fi_name (find fi_primary_key (ei_fields (resource_ir en)))"

definition label_value :: "json option \<Rightarrow> db_value option" where
  "label_value v =
     (case v of
        Some (JString s) \<Rightarrow> Some (VText (Some s))
      | Some (JNumber (Int_Num i)) \<Rightarrow> if is_i64 i then Some (VInt (Some i)) else None
      | _ \<Rightarrow> None)"

text \<open>The first row that agrees with every field of the body but the key.\<close>

fun first_matching ::
    "(row \<Rightarrow> string + json) \<Rightarrow> string option \<Rightarrow> (string \<times> json) list \<Rightarrow> row list \<Rightarrow> failure + json option" where
  "first_matching ser pk kvs [] = Inr None"
| "first_matching ser pk kvs (r # rs) =
     (case ser r of
        Inl _ \<Rightarrow> Inl F_Internal
      | Inr j \<Rightarrow> if list_all (\<lambda>(k, v). pk = Some k \<or> json_get j k = Some v) kvs then Inr (Some j)
                 else first_matching ser pk kvs rs)"

definition reread_matching ::
    "(row \<Rightarrow> string + json) \<Rightarrow> entity \<Rightarrow> json \<Rightarrow> (row tables world, failure, json option) act" where
  "reread_matching ser en body =
     (case (label_column (en_resource en), as_object body) of
        (Some label, Some kvs) \<Rightarrow>
          (case label_value (map_of kvs label) of
             None \<Rightarrow> return_ok None
           | Some v \<Rightarrow>
               and_then (map_err (\<lambda>_. F_Internal) (select (\<lambda>t. filter (\<lambda>r. r label = v) (rows t))))
                 (\<lambda>rs. lift_result (first_matching ser (primary_key_field en) kvs rs)))
      | _ \<Rightarrow> return_ok None)"

text \<open>The error of a creation: a unique violation is told apart from other database errors.\<close>

definition create_failure :: "(dberr \<Rightarrow> bool) \<Rightarrow> rest_error \<Rightarrow> failure" where
  "create_failure is_unique e =
     (case e of
        Rest_Database d \<Rightarrow> if is_unique d then F_UniqueViolation else failure_of_rest e
      | _ \<Rightarrow> failure_of_rest e)"

definition writer_impl ::
    "(dberr \<Rightarrow> bool) \<Rightarrow> (json \<Rightarrow> string + row) \<Rightarrow> (row \<Rightarrow> string + json) \<Rightarrow> entity \<Rightarrow> row tables world writer" where
  "writer_impl is_unique de ser en =
     \<lparr>wr_writable = (\<lambda>user. can_create (en_resource en) user),
      wr_create = (\<lambda>p body. and_then (lift_result (model_from_json de en body)) (\<lambda>model.
        and_then (map_err (create_failure is_unique) (rest_create (en_resource en) p model))
          (\<lambda>created. to_value (ser created)))),
      wr_update = (\<lambda>p i body. and_then (lift_result (model_from_json de en body)) (\<lambda>model.
        and_then (map_err failure_of_rest (rest_update (en_resource en) p i model))
          (\<lambda>updated. to_value (ser updated)))),
      wr_delete = (\<lambda>p i. and_then (map_err failure_of_rest (rest_delete (en_resource en) p i))
        (\<lambda>_. return_ok (obj [(''deleted'', JBool True)]))),
      wr_reread = reread_matching ser en\<rparr>"

section \<open>The table of an entity among the others\<close>

text \<open>
  \<open>rest::core\<close> is modelled on the rows of one table. In the database of the host these are the rows
  tagged with the table's name; \<open>at_table\<close> runs an operation on them and puts them back. The pending
  moves of the environment are shown to the operation as what they do to this table and the accounts,
  and the ones that took place are then applied to the other tables.
\<close>

definition focus :: "string \<Rightarrow> sql_tables \<Rightarrow> row tables" where
  "focus table t =
     \<lparr>users = users t, groups = groups t, memberships = memberships t, tokens = tokens t,
      rows = rows_where table [] t\<rparr>"

definition unfocus :: "string \<Rightarrow> row tables \<Rightarrow> sql_tables \<Rightarrow> sql_tables" where
  "unfocus table v t =
     \<lparr>users = users v, groups = groups v, memberships = memberships v, tokens = tokens v,
      rows = filter (\<lambda>x. fst x \<noteq> table) (rows t) @ map (Pair table) (rows v)\<rparr>"

definition focus_step :: "string \<Rightarrow> sql_tables \<Rightarrow> sql_tables env_step \<Rightarrow> row tables env_step" where
  "focus_step table t s =
     \<lparr>others = (\<lambda>v. focus table (others s (unfocus table v t))), advance = advance s, fails = fails s\<rparr>"

definition focus_world :: "string \<Rightarrow> sql_world \<Rightarrow> row tables world" where
  "focus_world table w =
     \<lparr>tabs = focus table (tabs w), snap = map_option (focus table) (snap w), aborted = aborted w,
      dialect = dialect w, clock = clock w, env = map (focus_step table (tabs w)) (env w)\<rparr>"

definition unfocus_world :: "string \<Rightarrow> row tables world \<Rightarrow> sql_world \<Rightarrow> sql_world" where
  "unfocus_world table v w =
     (let k = length (env w) - length (env v);
          moved = fold others (take k (env w)) in
      \<lparr>tabs = unfocus table (tabs v) (moved (tabs w)),
       snap = (case (snap v, snap w) of (Some u, Some t) \<Rightarrow> Some (unfocus table u (moved t)) | _ \<Rightarrow> None),
       aborted = aborted v, dialect = dialect v, clock = clock v, env = drop k (env w)\<rparr>)"

definition at_table :: "string \<Rightarrow> (row tables world, 'e, 'a) act \<Rightarrow> (sql_world, 'e, 'a) act" where
  "at_table table m w = (case m (focus_world table w) of (r, v) \<Rightarrow> (r, unfocus_world table v w))"

definition reader_at :: "string \<Rightarrow> row tables world reader \<Rightarrow> sql_world reader" where
  "reader_at table rd =
     \<lparr>rd_ir = rd_ir rd, rd_list_readable = (\<lambda>u. at_table table (rd_list_readable rd u)),
      rd_list = (\<lambda>p pg ppg f. at_table table (rd_list rd p pg ppg f)),
      rd_get = (\<lambda>p i. at_table table (rd_get rd p i))\<rparr>"

definition writer_at :: "string \<Rightarrow> row tables world writer \<Rightarrow> sql_world writer" where
  "writer_at table wr =
     \<lparr>wr_writable = (\<lambda>u. at_table table (wr_writable wr u)),
      wr_create = (\<lambda>p b. at_table table (wr_create wr p b)),
      wr_update = (\<lambda>p i b. at_table table (wr_update wr p i b)),
      wr_delete = (\<lambda>p i. at_table table (wr_delete wr p i)),
      wr_reread = (\<lambda>b. at_table table (wr_reread wr b))\<rparr>"

section \<open>The registry\<close>

record registry_entry =
  re_reader :: "sql_world reader"
  re_writer :: "sql_world writer option"

text \<open>A \<open>BTreeMap\<close>, in the order of the names; a name already registered panics (None).\<close>

type_synonym resource_registry = "(string \<times> registry_entry) list"

definition registry_insert :: "string \<Rightarrow> registry_entry \<Rightarrow> resource_registry \<Rightarrow> resource_registry option" where
  "registry_insert name e g =
     (if map_of g name \<noteq> None then None else Some (insort_key fst (name, e) g))"

definition register_entity ::
    "(dberr \<Rightarrow> bool) \<Rightarrow> (json \<Rightarrow> string + row) \<Rightarrow> (row \<Rightarrow> string + json) \<Rightarrow> entity \<Rightarrow> resource_registry \<Rightarrow>
       resource_registry option" where
  "register_entity is_unique de ser en =
     registry_insert (resource_name (en_resource en))
       \<lparr>re_reader = reader_at (en_table en) (reader_impl ser en),
        re_writer = Some (writer_at (en_table en) (writer_impl is_unique de ser en))\<rparr>"

definition register_read_only :: "(row \<Rightarrow> string + json) \<Rightarrow> entity \<Rightarrow> resource_registry \<Rightarrow> resource_registry option" where
  "register_read_only ser en =
     registry_insert (resource_name (en_resource en))
       \<lparr>re_reader = reader_at (en_table en) (reader_impl ser en), re_writer = None\<rparr>"

section \<open>The calls of a module instance\<close>

record module_lib =
  ml_texts :: db_texts
  ml_display :: "json \<Rightarrow> string"
  ml_sha :: "string \<Rightarrow> string"
  ml_to_f64 :: "int \<Rightarrow> rat"

record handle =
  hd_registry :: resource_registry
  hd_subject :: string
  hd_scope :: "write_scope option"

text \<open>The counter of writes is shared by the calls of an instance, and wraps as an atomic does.\<close>

record module_state =
  ms_world :: sql_world
  ms_writes :: u64

definition in_world :: "(sql_world, 'e, 'a) act \<Rightarrow> (module_state, 'e, 'a) act" where
  "in_world m st = (case m (ms_world st) of (r, w) \<Rightarrow> (r, st\<lparr>ms_world := w\<rparr>))"

definition charge_write :: "(module_state, failure, unit) act" where
  "charge_write st =
     (if max_writes_per_run \<le> ms_writes st then Inl F_WriteLimit else Inr (),
      st\<lparr>ms_writes := ms_writes st + 1\<rparr>)"

definition handle_caller :: "module_lib \<Rightarrow> handle \<Rightarrow> (sql_world, failure, caller_principal) act" where
  "handle_caller L H = map_err failure_of_lymaille (resolve_caller (ml_texts L) (hd_subject H))"

definition handle_principal :: "module_lib \<Rightarrow> handle \<Rightarrow> (sql_world, failure, auth_principal) act" where
  "handle_principal L H =
     and_then (handle_caller L H) (\<lambda>caller. return_ok
       \<lparr>subject = cp_subject caller, email = None, preferred_username = None, source = Agent\<rparr>)"

definition entry_of :: "handle \<Rightarrow> string \<Rightarrow> failure + registry_entry" where
  "entry_of H res =
     (case map_of (hd_registry H) res of None \<Rightarrow> Inl (F_UnknownResource res) | Some e \<Rightarrow> Inr e)"

definition writer_of :: "handle \<Rightarrow> string \<Rightarrow> failure + sql_world writer" where
  "writer_of H res =
     (case Option.bind (map_of (hd_registry H) res) re_writer of
        None \<Rightarrow> Inl (F_UnknownResource res) | Some wr \<Rightarrow> Inr wr)"

definition id_i32 :: "int \<Rightarrow> failure + int" where
  "id_i32 i = (if - (2 ^ 31) \<le> i \<and> i < 2 ^ 31 then Inr i else Inl F_Internal)"

definition find_account :: "int \<Rightarrow> 'm tables \<Rightarrow> user_row option" where
  "find_account i t = find (\<lambda>u. u_id u = i) (users t)"

definition handle_describe :: "module_lib \<Rightarrow> handle \<Rightarrow> (sql_world, failure, dynamic list) act" where
  "handle_describe L H =
     and_then (handle_caller L H) (\<lambda>caller.
     and_then (map_err (\<lambda>_. F_Internal) (select (find_account (cp_user_id caller)))) (\<lambda>found.
     case found of
       None \<Rightarrow> fail_with F_UnknownSubject
     | Some account \<Rightarrow>
         and_then (for_each (hd_registry H) (\<lambda>(name, e).
           and_then (map_err (\<lambda>_. F_Internal) (rd_list_readable (re_reader e) account)) (\<lambda>readable.
             if \<not> readable then return_ok []
             else and_then (case re_writer e of
                 Some wr \<Rightarrow> map_err (\<lambda>_. F_Internal) (wr_writable wr account)
               | None \<Rightarrow> return_ok False)
               (\<lambda>writable. return_ok [describe_entry name (rd_ir (re_reader e)) writable]))))
           (\<lambda>entries. return_ok (concat entries))))"

definition handle_list ::
    "module_lib \<Rightarrow> handle \<Rightarrow> string \<Rightarrow> string option \<Rightarrow> u64 option \<Rightarrow> u64 option \<Rightarrow> (sql_world, failure, dynamic) act" where
  "handle_list L H res filter_value pg ppg =
     and_then (handle_principal L H) (\<lambda>p.
     and_then (lift_result (entry_of H res)) (\<lambda>e.
     let pagination = from_raw pg (Some (case ppg of Some n \<Rightarrow> n | None \<Rightarrow> llm_default_per_page));
         per = min (per_page pagination) llm_max_per_page in
     and_then (rd_list (re_reader e) p (page pagination) per filter_value)
       (\<lambda>value. return_ok (json_to_dynamic (ml_to_f64 L) value))))"

definition handle_get :: "module_lib \<Rightarrow> handle \<Rightarrow> string \<Rightarrow> int \<Rightarrow> (sql_world, failure, dynamic) act" where
  "handle_get L H res i =
     and_then (handle_principal L H) (\<lambda>p.
     and_then (lift_result (entry_of H res)) (\<lambda>e.
     and_then (lift_result (id_i32 i)) (\<lambda>i.
     and_then (rd_get (re_reader e) p i) (\<lambda>value. return_ok (json_to_dynamic (ml_to_f64 L) value)))))"

text \<open>The journal of a batch step: nothing is replayed nor recorded without a scope.\<close>

definition journaled :: "module_lib \<Rightarrow> handle \<Rightarrow> string \<Rightarrow> (sql_world, failure, json option) act" where
  "journaled L H key =
     (case hd_scope H of None \<Rightarrow> return_ok None
      | Some scope \<Rightarrow> map_err failure_of_lymaille (replay (ml_texts L) scope key))"

definition record_write :: "module_lib \<Rightarrow> handle \<Rightarrow> string \<Rightarrow> json \<Rightarrow> (sql_world, failure, unit) act" where
  "record_write L H key result =
     (case hd_scope H of None \<Rightarrow> return_ok ()
      | Some scope \<Rightarrow> map_err failure_of_lymaille (journal_record (ml_display L) (ml_texts L) scope key result))"

text \<open>What the three writes do between the lookup of the writer and the answer.\<close>

definition write_once ::
    "module_lib \<Rightarrow> handle \<Rightarrow> string \<Rightarrow> (sql_world, failure, json) act \<Rightarrow> (sql_world, failure, dynamic) act" where
  "write_once L H key act1 =
     and_then (journaled L H key) (\<lambda>found. case found of
       Some v \<Rightarrow> return_ok (json_to_dynamic (ml_to_f64 L) v)
     | None \<Rightarrow> and_then act1 (\<lambda>value.
         and_then (record_write L H key value) (\<lambda>_. return_ok (json_to_dynamic (ml_to_f64 L) value))))"

definition create_or_reread :: "handle \<Rightarrow> sql_world writer \<Rightarrow> auth_principal \<Rightarrow> json \<Rightarrow> (sql_world, failure, json) act" where
  "create_or_reread H wr p body =
     on_error (wr_create wr p body) (\<lambda>e.
       if e = F_UniqueViolation
       then if hd_scope H \<noteq> None
            then and_then (wr_reread wr body) (\<lambda>found.
                   case found of Some r \<Rightarrow> return_ok r | None \<Rightarrow> fail_with F_Conflict)
            else fail_with F_Conflict
       else fail_with e)"

definition handle_create :: "module_lib \<Rightarrow> handle \<Rightarrow> string \<Rightarrow> json \<Rightarrow> (module_state, failure, dynamic) act" where
  "handle_create L H res body =
     and_then charge_write (\<lambda>_. in_world (
     and_then (handle_principal L H) (\<lambda>p.
     and_then (lift_result (writer_of H res)) (\<lambda>wr.
       write_once L H (op_key (ml_sha L) (ml_display L) Create_Op res None body)
         (create_or_reread H wr p body)))))"

definition handle_update :: "module_lib \<Rightarrow> handle \<Rightarrow> string \<Rightarrow> int \<Rightarrow> json \<Rightarrow> (module_state, failure, dynamic) act" where
  "handle_update L H res i body =
     and_then charge_write (\<lambda>_. in_world (
     and_then (handle_principal L H) (\<lambda>p.
     and_then (lift_result (id_i32 i)) (\<lambda>i.
     and_then (lift_result (writer_of H res)) (\<lambda>wr.
       write_once L H (op_key (ml_sha L) (ml_display L) Update_Op res (Some i) body)
         (wr_update wr p i body))))))"

definition handle_delete :: "module_lib \<Rightarrow> handle \<Rightarrow> string \<Rightarrow> int \<Rightarrow> (module_state, failure, dynamic) act" where
  "handle_delete L H res i =
     and_then charge_write (\<lambda>_. in_world (
     and_then (handle_principal L H) (\<lambda>p.
     and_then (lift_result (id_i32 i)) (\<lambda>i.
     and_then (lift_result (writer_of H res)) (\<lambda>wr.
       write_once L H (op_key (ml_sha L) (ml_display L) Delete_Op res (Some i) JNull)
         (wr_delete wr p i))))))"

section \<open>The module's functions\<close>

text \<open>\<open>resources_module\<close>: what a script calls, with its arguments, and the text of its errors.\<close>

datatype script_call =
    Call_Describe
  | Call_List string string
  | Call_List_Page string string int int
  | Call_Get string int
  | Call_Create string "(string \<times> dynamic) list"
  | Call_Update string int "(string \<times> dynamic) list"
  | Call_Delete string int

definition u64_of_i64 :: "int \<Rightarrow> u64 option" where
  "u64_of_i64 i = (if 0 \<le> i then Some (of_int i) else None)"

fun resources_module :: "module_lib \<Rightarrow> handle \<Rightarrow> script_call \<Rightarrow> (module_state, string, dynamic) act" where
  "resources_module L H Call_Describe =
     map_err failure_message (and_then (in_world (handle_describe L H)) (\<lambda>es. return_ok (D_Array es)))"
| "resources_module L H (Call_List res f) =
     map_err failure_message (in_world (handle_list L H res (if f = [] then None else Some f) None None))"
| "resources_module L H (Call_List_Page res f pg ppg) =
     map_err failure_message (in_world (handle_list L H res (if f = [] then None else Some f)
       (u64_of_i64 pg) (u64_of_i64 ppg)))"
| "resources_module L H (Call_Get res i) = map_err failure_message (in_world (handle_get L H res i))"
| "resources_module L H (Call_Create res body) =
     map_err failure_message (case dynamic_to_json (D_Map body) of
       Some b \<Rightarrow> handle_create L H res b | None \<Rightarrow> fail_with F_InvalidBody)"
| "resources_module L H (Call_Update res i body) =
     map_err failure_message (case dynamic_to_json (D_Map body) of
       Some b \<Rightarrow> handle_update L H res i b | None \<Rightarrow> fail_with F_InvalidBody)"
| "resources_module L H (Call_Delete res i) = map_err failure_message (handle_delete L H res i)"

section \<open>Script values and JSON\<close>

text \<open>Every integer of the value fits an \<open>i64\<close>.\<close>

fun script_numbers :: "json \<Rightarrow> bool" where
  "script_numbers (JNumber (Int_Num i)) = is_i64 i"
| "script_numbers (JArray xs) = list_all script_numbers xs"
| "script_numbers (JObject kvs) = list_all (\<lambda>(_, v). script_numbers v) kvs"
| "script_numbers _ = True"

lemma dynamic_json: "script_numbers v \<Longrightarrow> dynamic_to_json (json_to_dynamic to_f64 v) = Some v"
proof (induction to_f64 v rule: json_to_dynamic.induct)
  case (6 to_f64 xs)
  then have "those (map (dynamic_to_json \<circ> json_to_dynamic to_f64) xs) = Some (map id xs)"
    by (intro those_map_Some) (simp add: list_all_iff)
  then show ?case by simp
next
  case (7 to_f64 kvs)
  then have "those (map ((\<lambda>(k, x). map_option (Pair k) (dynamic_to_json x)) \<circ>
      (\<lambda>(k, v). (k, json_to_dynamic to_f64 v))) kvs) = Some (map id kvs)"
    by (intro those_map_Some) (fastforce simp: list_all_iff split: prod.splits)
  then show ?case by simp
qed simp_all

section \<open>Operations outside a transaction and without interference\<close>

definition calm :: "'t world \<Rightarrow> bool" where
  "calm w \<longleftrightarrow> quiet w \<and> snap w = None"

definition act_calm :: "('t world, 'e, 'a) act \<Rightarrow> bool" where
  "act_calm m \<longleftrightarrow> (\<forall>w. calm w \<longrightarrow> calm (snd (m w)))"

named_theorems calm_intros \<open>actions that leave a calm world calm\<close>

lemma act_calmD: "act_calm m \<Longrightarrow> m w = (r, w') \<Longrightarrow> calm w \<Longrightarrow> calm w'"
  unfolding act_calm_def by (metis snd_conv)

lemma calm_return [calm_intros]: "act_calm (return_ok x)"
  by (simp add: act_calm_def return_ok_def)

lemma calm_fail [calm_intros]: "act_calm (fail_with e)"
  by (simp add: act_calm_def fail_with_def)

lemma calm_lift [calm_intros]: "act_calm (lift_result r)"
  by (simp add: act_calm_def lift_result_def)

lemma calm_now [calm_intros]: "act_calm utc_now"
  by (simp add: act_calm_def utc_now_def)

lemma act_calmI: "(\<And>w r w'. calm w \<Longrightarrow> m w = (r, w') \<Longrightarrow> calm w') \<Longrightarrow> act_calm m"
  unfolding act_calm_def by (metis prod.collapse)

lemma calm_map_err [calm_intros]: "act_calm m \<Longrightarrow> act_calm (map_err g m)"
  by (rule act_calmI) (auto simp: map_err_def split: prod.splits sum.splits dest: act_calmD)

lemma calm_and_then [calm_intros]: "act_calm m \<Longrightarrow> (\<And>x. act_calm (f x)) \<Longrightarrow> act_calm (and_then m f)"
  by (rule act_calmI) (auto simp: and_then_def split: prod.splits sum.splits dest: act_calmD)

lemma calm_on_error [calm_intros]: "act_calm m \<Longrightarrow> (\<And>e. act_calm (h e)) \<Longrightarrow> act_calm (on_error m h)"
  by (rule act_calmI) (auto simp: on_error_def split: prod.splits sum.splits dest: act_calmD)

lemma calm_statement [calm_intros]: "act_calm (statement f)"
  unfolding act_calm_def
proof (intro allI impI)
  fix w :: "'a world" assume w: "calm w"
  then have q: "quiet w" by (simp add: calm_def)
  show "calm (snd (statement f w))"
  proof (cases "f (tabs w)")
    case (Inl e)
    then show ?thesis using w statement_quiet_Inl [of w f, OF q Inl] by (simp add: calm_def taint_def quiet_def)
  next
    case (Inr p)
    then obtain x t where "f (tabs w) = Inr (x, t)" by (cases p) simp
    from statement_quiet_Inr [of w f, OF q this] show ?thesis using w by (simp add: calm_def)
  qed
qed

lemma calm_select [calm_intros]: "act_calm (select q)"
  unfolding select_def by (rule calm_intros)

lemma calm_is_member [calm_intros]: "act_calm (is_member uid n)"
  unfolding is_member_def by (intro calm_intros allI) (auto intro!: calm_intros split: option.split)

lemma calm_is_admin [calm_intros]: "act_calm (is_admin uid)"
  unfolding is_admin_def by (rule calm_intros)

lemma calm_resolve [calm_intros]: "act_calm (resolve_principal p)"
  unfolding resolve_principal_def resolve_user_def by (auto intro!: calm_intros split: option.split)

lemma calm_static_verdict [calm_intros]: "act_calm (static_verdict pol u)"
  unfolding static_verdict_def by (auto intro!: calm_intros split: access_policy.split)

lemma calm_evaluate [calm_intros]: "act_calm (evaluate pol oc u r)"
  unfolding evaluate_def by (auto intro!: calm_intros split: option.split)

lemma calm_load [calm_intros]: "(\<And>u r. act_calm (can u r)) \<Longrightarrow> act_calm (load_authorized pol can E u i)"
  unfolding load_authorized_def by (auto intro!: calm_intros split: option.split)

lemma calm_rest [calm_intros]:
  "act_calm (rest_create E p body)" "act_calm (rest_update E p i body)" "act_calm (rest_delete E p i)"
  unfolding rest_create_def rest_update_def rest_delete_def can_create_def can_write_def
  by (auto intro!: calm_intros simp: Let_def split: access_policy.split option.split)

lemma calm_reread [calm_intros]: "act_calm (reread_matching ser en body)"
  unfolding reread_matching_def by (auto intro!: calm_intros split: option.split)

lemma calm_replay [calm_intros]: "act_calm (replay tx scope key)"
  unfolding replay_def by (auto intro!: calm_intros split: option.split)

lemma calm_record [calm_intros]: "act_calm (journal_record display tx scope key v)"
  unfolding journal_record_def by (auto intro!: calm_intros)

section \<open>One table and the others\<close>

lemma focus_calm: "calm w \<Longrightarrow> calm (focus_world table w)"
  by (simp add: calm_def quiet_def focus_world_def)

lemma unfocus_calm:
  assumes "calm w" "calm v"
  shows "calm (unfocus_world table v w)" "tabs (unfocus_world table v w) = unfocus table (tabs v) (tabs w)"
  using assms by (simp_all add: calm_def quiet_def unfocus_world_def Let_def)

lemma unfocus_other:
  assumes "table' \<noteq> table"
  shows "rows_where table' conds (unfocus table v t) = rows_where table' conds t"
proof -
  have "filter (sql_match table' conds) (filter (\<lambda>x. fst x \<noteq> table) xs) = filter (sql_match table' conds) xs" for xs
    using assms by (auto simp: filter_filter sql_match_def intro!: filter_cong)
  moreover have "filter (sql_match table' conds) (map (Pair table) ys) = []" for ys
    using assms by (auto simp: filter_empty_conv sql_match_def)
  ultimately show ?thesis by (simp add: rows_where_def unfocus_def)
qed

lemma unfocus_same: "rows_where table [] (unfocus table v t) = rows v"
proof -
  have "filter (sql_match table []) (filter (\<lambda>x. fst x \<noteq> table) xs) = []" for xs
    by (auto simp: filter_empty_conv sql_match_def)
  moreover have "filter (sql_match table []) (map (Pair table) ys) = map (Pair table) ys" for ys
    by (auto simp: filter_id_conv sql_match_def)
  ultimately show ?thesis by (simp add: rows_where_def unfocus_def comp_def)
qed

lemma at_table_calm:
  assumes m: "act_calm m" and w: "calm w" and run: "at_table table m w = (r, w')"
  obtains v where "m (focus_world table w) = (r, v)" "calm v" "calm w'"
    "tabs w' = unfocus table (tabs v) (tabs w)"
proof -
  obtain v where v: "m (focus_world table w) = (r, v)" "w' = unfocus_world table v w"
    using run by (auto simp: at_table_def split: prod.splits)
  have "calm v" using act_calmD [OF m v(1) focus_calm [OF w]] .
  then show ?thesis using that v unfocus_calm [OF w] by simp
qed

text \<open>What an operation on the table of an entity leaves of the journal and of the accounts.\<close>

definition has_account :: "string \<Rightarrow> 'm tables \<Rightarrow> bool" where
  "has_account s t \<longleftrightarrow> find_user s t \<noteq> None"

definition frames :: "(sql_world, 'e, 'a) act \<Rightarrow> bool" where
  "frames m \<longleftrightarrow> (\<forall>w r w'. calm w \<longrightarrow> m w = (r, w') \<longrightarrow> calm w' \<and>
     (\<forall>scope key. journal_entry scope key (tabs w') = journal_entry scope key (tabs w)) \<and>
     (\<forall>s. has_account s (tabs w) \<longrightarrow> has_account s (tabs w')))"

definition keeps_accounts :: "('m tables world, 'e, 'a) act \<Rightarrow> bool" where
  "keeps_accounts m \<longleftrightarrow> (\<forall>s. act_keeps (has_account s) m)"

lemma has_account_insert: "has_account s t \<Longrightarrow> insert_user s' em now t = Inr (u, t') \<Longrightarrow> has_account s t'"
  by (auto simp: has_account_def insert_user_def find_user_def find_append split: if_splits)

lemma keeps_accounts_resolve: "act_keeps (has_account s) (resolve_principal p)"
  unfolding resolve_principal_def resolve_user_def
  by (auto intro!: keeps keeps_statement split: option.split dest: has_account_insert)

lemma keeps_accounts_rows:
  "act_keeps (has_account s) (statement (insert_row E a))"
  "act_keeps (has_account s) (statement (update_row E a))"
  "act_keeps (has_account s) (statement (delete_row E i))"
  by (rule keeps_statement; auto simp: insert_row_def update_row_def delete_row_def Let_def find_user_def has_account_def
      split: if_splits option.splits)+

lemma keeps_accounts_rest:
  "act_keeps (has_account s) (rest_create E p body)"
  "act_keeps (has_account s) (rest_update E p i body)"
  "act_keeps (has_account s) (rest_delete E p i)"
  unfolding rest_create_eq rest_update_eq rest_delete_def
  by (auto intro!: keeps keeps_accounts_resolve keeps_accounts_rows writing.load_keeps)

lemma frames_at_table:
  assumes t: "table \<noteq> journal_table" and m: "act_calm m" and k: "keeps_accounts m"
  shows "frames (at_table table m)"
  unfolding frames_def
proof (intro allI impI conjI)
  fix w r w' assume w: "calm w" and run: "at_table table m w = (r, w')"
  obtain v where v: "m (focus_world table w) = (r, v)" "calm v" "calm w'"
      "tabs w' = unfocus table (tabs v) (tabs w)"
    using at_table_calm [OF m w run] .
  show "calm w'" by (rule v(3))
  show "journal_entry scope key (tabs w') = journal_entry scope key (tabs w)" for scope key
    using t unfocus_other [of journal_table table] by (simp add: journal_entry_def sql_first_def v(4))
  show "has_account s (tabs w')" if u: "has_account s (tabs w)" for s
  proof -
    have "inv_world (has_account s) (focus_world table w)"
      using u w by (simp add: inv_world_def env_keeps_def calm_def quiet_def focus_world_def focus_def find_user_def has_account_def)
    then have "inv_world (has_account s) v"
      using k v(1) act_keepsD unfolding keeps_accounts_def by blast
    then show ?thesis by (simp add: inv_world_def v(4) unfocus_def find_user_def has_account_def)
  qed
qed

named_theorems frame_intros \<open>actions that leave the journal and the accounts\<close>

lemma framesI:
  "(\<And>w r w'. calm w \<Longrightarrow> m w = (r, w') \<Longrightarrow> calm w' \<and>
     (\<forall>scope key. journal_entry scope key (tabs w') = journal_entry scope key (tabs w)) \<and>
     (\<forall>s. has_account s (tabs w) \<longrightarrow> has_account s (tabs w'))) \<Longrightarrow> frames m"
  unfolding frames_def by blast

lemma framesD:
  assumes "frames m" "m w = (r, w')" "calm w"
  shows "calm w'" "journal_entry scope key (tabs w') = journal_entry scope key (tabs w)"
    "has_account s (tabs w) \<Longrightarrow> has_account s (tabs w')"
  using assms unfolding frames_def by blast+

lemma frames_return [frame_intros]: "frames (return_ok x)"
  by (simp add: frames_def return_ok_def)

lemma frames_fail [frame_intros]: "frames (fail_with e)"
  by (simp add: frames_def fail_with_def)

lemma frames_and_then [frame_intros]:
  assumes m: "frames m" and f: "\<And>x. frames (f x)"
  shows "frames (and_then m f)"
proof (rule framesI)
  fix w r w' assume w: "calm w" and run: "and_then m f w = (r, w')"
  obtain r1 w1 where 1: "m w = (r1, w1)" by fastforce
  note F = framesD [OF m 1 w]
  show "calm w' \<and> (\<forall>scope key. journal_entry scope key (tabs w') = journal_entry scope key (tabs w)) \<and>
      (\<forall>s. has_account s (tabs w) \<longrightarrow> has_account s (tabs w'))"
  proof (cases r1)
    case (Inl e)
    then show ?thesis using run 1 F by (simp add: and_then_def)
  next
    case (Inr x)
    then have "f x w1 = (r, w')" using run 1 by (simp add: and_then_def)
    note G = framesD [OF f this F(1)]
    show ?thesis using F G by simp
  qed
qed

lemma frames_on_error [frame_intros]:
  assumes m: "frames m" and h: "\<And>e. frames (h e)"
  shows "frames (on_error m h)"
proof (rule framesI)
  fix w r w' assume w: "calm w" and run: "on_error m h w = (r, w')"
  obtain r1 w1 where 1: "m w = (r1, w1)" by fastforce
  note F = framesD [OF m 1 w]
  show "calm w' \<and> (\<forall>scope key. journal_entry scope key (tabs w') = journal_entry scope key (tabs w)) \<and>
      (\<forall>s. has_account s (tabs w) \<longrightarrow> has_account s (tabs w'))"
  proof (cases r1)
    case (Inr x)
    then show ?thesis using run 1 F by (simp add: on_error_def)
  next
    case (Inl e)
    then have "h e w1 = (r, w')" using run 1 by (simp add: on_error_def)
    note G = framesD [OF h this F(1)]
    show ?thesis using F G by simp
  qed
qed

lemma keeps_to_value [keeps]: "act_keeps P (to_value r)"
  unfolding to_value_def by (rule keeps)+

lemma calm_to_value [calm_intros]: "act_calm (to_value r)"
  unfolding to_value_def by (rule calm_intros)+

lemma keeps_reread: "act_keeps P (reread_matching ser en body)"
  unfolding reread_matching_def by (auto intro!: keeps split: option.split)

text \<open>The operations of the writer of an entity whose table is not the journal.\<close>

lemma frames_writer:
  assumes "table \<noteq> journal_table"
  shows "frames (wr_create (writer_at table (writer_impl is_unique de ser en)) p body)"
    and "frames (wr_update (writer_at table (writer_impl is_unique de ser en)) p i body)"
    and "frames (wr_delete (writer_at table (writer_impl is_unique de ser en)) p i)"
    and "frames (wr_reread (writer_at table (writer_impl is_unique de ser en)) body)"
  unfolding writer_at_def writer_impl_def writer.simps
  by (rule frames_at_table [OF assms];
      auto intro!: calm_intros keeps keeps_accounts_rest keeps_reread simp: keeps_accounts_def)+

lemma frames_create_or_reread:
  assumes "table \<noteq> journal_table"
  shows "frames (create_or_reread H (writer_at table (writer_impl is_unique de ser en)) p body)"
  unfolding create_or_reread_def
  by (intro frame_intros frames_writer [OF assms] conjI allI)
    (auto intro!: frame_intros frames_writer [OF assms] split: option.split)

section \<open>Writes that are executed once\<close>

text \<open>
  A journaled write: \<open>act\<close> leaves the journal alone. When such a write succeeded in a batch step, its
  replay returns the same answer and changes nothing.
\<close>

locale journaled_write =
  fixes act1 :: "(sql_world, failure, json) act" and applies :: bool
  assumes act_frames: "applies \<Longrightarrow> frames act1"
begin

lemma replays:
  assumes "applies" "calm w" and scope: "hd_scope H = Some scope"
    and run: "write_once L H key act1 w = (Inr d, w1)"
  shows "calm w1 \<and> write_once L H key act1 w1 = (Inr d, w1) \<and>
    (\<forall>s. has_account s (tabs w) \<longrightarrow> has_account s (tabs w1))"
proof -
  have q: "quiet w" using assms(2) by (simp add: calm_def)
  have j: "journaled L H key w = map_err failure_of_lymaille (replay (ml_texts L) scope key) w" for w
    by (simp add: journaled_def scope)
  have again: "write_once L H key act1 w = (Inr (json_to_dynamic (ml_to_f64 L) v), w)"
    if "quiet w" "journal_entry scope key (tabs w) = Some r" "col_json (r ''result'') = Some v" for w r v
    using that by (simp add: write_once_def act_eval j replay_quiet)
  show ?thesis
  proof (cases "journal_entry scope key (tabs w)")
    case (Some r)
    then obtain v where v: "col_json (r ''result'') = Some v"
      using run q by (cases "col_json (r ''result'')") (auto simp: write_once_def act_eval j replay_quiet)
    then show ?thesis using again [OF q Some v] run assms(2) by simp
  next
    case None
    have "and_then act1 (\<lambda>value. and_then (record_write L H key value)
        (\<lambda>_. return_ok (json_to_dynamic (ml_to_f64 L) value))) w = (Inr d, w1)"
      using run q None by (simp add: write_once_def act_eval j replay_quiet)
    then obtain v w2 where a: "act1 w = (Inr v, w2)" and d: "d = json_to_dynamic (ml_to_f64 L) v"
      and rec: "journal_record (ml_display L) (ml_texts L) scope key v w2 = (Inr (), w1)"
      by (auto simp: act_inv record_write_def scope)
    note F = framesD [OF act_frames [OF assms(1)] a assms(2)]
    have q2: "quiet w2" using F(1) by (simp add: calm_def)
    obtain t' where up: "sql_upsert journal_table (journal_vals scope key v (clock w2)) journal_keys [] (tabs w2) = Inr ((), t')"
      and w1: "w1 = set_tabs t' w2"
      using journal_record_Inr [OF q2 rec] by blast
    have "journal_entry scope key (tabs w2) = None" using F(2) None by simp
    then obtain r where r: "journal_entry scope key t' = Some r" "r ''result'' = VJson (Some v)"
      using journal_upsert(3) [OF up] by blast
    have c1: "calm w1" using F(1) w1 by (simp add: calm_def)
    then have q1: "quiet w1" by (simp add: calm_def)
    have "users t' = users (tabs w2)"
      using up by (auto simp: sql_upsert_def sql_update_def split: if_splits)
    then have "has_account s (tabs w1)" if "has_account s (tabs w)" for s
      using F(3) [OF that] w1 by (simp add: has_account_def find_user_def)
    moreover have "write_once L H key act1 w1 = (Inr d, w1)"
      using again [OF q1, of r v] r w1 d by simp
    ultimately show ?thesis using c1 by blast
  qed
qed

end

interpretation creations: journaled_write
  "create_or_reread H (writer_at table (writer_impl is_unique de ser en)) p body" "table \<noteq> journal_table"
  for H table is_unique de ser en p body
  by unfold_locales (rule frames_create_or_reread)

interpretation updates: journaled_write
  "wr_update (writer_at table (writer_impl is_unique de ser en)) p i body" "table \<noteq> journal_table"
  for table is_unique de ser en p i body
  by unfold_locales (rule frames_writer)

interpretation deletions: journaled_write
  "wr_delete (writer_at table (writer_impl is_unique de ser en)) p i" "table \<noteq> journal_table"
  for table is_unique de ser en p i
  by unfold_locales (rule frames_writer)

section \<open>Calls\<close>

definition agent_principal :: "string \<Rightarrow> auth_principal" where
  "agent_principal s = \<lparr>subject = s, email = None, preferred_username = None, source = Agent\<rparr>"

lemma handle_principal_quiet:
  assumes "quiet w"
  shows "handle_principal L H w =
    (if has_account (hd_subject H) (tabs w) then Inr (agent_principal (hd_subject H)) else Inl F_UnknownSubject, w)"
proof (cases "find_user (hd_subject H) (tabs w)")
  case None
  then show ?thesis
    using assms by (simp add: handle_principal_def handle_caller_def resolve_caller_def act_eval select_quiet has_account_def)
next
  case (Some u)
  then have "u_subject u = hd_subject H" by (auto simp: find_user_def dest: find_Some_mem)
  then show ?thesis
    using assms Some
    by (simp add: handle_principal_def handle_caller_def resolve_caller_quiet act_eval has_account_def agent_principal_def)
qed

fun write_of :: "string \<Rightarrow> script_call \<Rightarrow> bool" where
  "write_of res (Call_Create res' _) = (res' = res)"
| "write_of res (Call_Update res' _ _) = (res' = res)"
| "write_of res (Call_Delete res' _) = (res' = res)"
| "write_of res _ = False"

fun is_write :: "script_call \<Rightarrow> bool" where
  "is_write (Call_Create _ _) = True"
| "is_write (Call_Update _ _ _) = True"
| "is_write (Call_Delete _ _) = True"
| "is_write _ = False"

text \<open>A write that is charged and reaches the journal, whichever it is.\<close>

definition charged_write :: "module_lib \<Rightarrow> handle \<Rightarrow> string \<Rightarrow> (auth_principal \<Rightarrow> (sql_world, failure, json) act) \<Rightarrow>
    (module_state, failure, dynamic) act" where
  "charged_write L H key act1 =
     and_then charge_write (\<lambda>_. in_world (and_then (handle_principal L H) (\<lambda>p. write_once L H key (act1 p))))"

lemma charged_write_replays:
  assumes pre: "\<And>p. journaled_write (act1 p) applies" "applies" and c: "calm (ms_world st)"
    and scope: "hd_scope H = Some scope" and run: "charged_write L H key act1 st = (Inr d, st1)"
    and charge: "ms_writes st1 < max_writes_per_run"
  shows "charged_write L H key act1 st1 = (Inr d, st1\<lparr>ms_writes := ms_writes st1 + 1\<rparr>)"
proof -
  have q: "quiet (ms_world st)" using c by (simp add: calm_def)
  have acc: "has_account (hd_subject H) (tabs (ms_world st))"
    using run by (auto simp: charged_write_def act_eval charge_write_def in_world_def handle_principal_quiet [OF q]
        split: if_splits prod.splits sum.splits)
  let ?p = "agent_principal (hd_subject H)"
  obtain w1 where w1: "write_once L H key (act1 ?p) (ms_world st) = (Inr d, w1)"
    and st1: "st1 = st\<lparr>ms_writes := ms_writes st + 1, ms_world := w1\<rparr>"
    using run acc by (auto simp: charged_write_def act_eval charge_write_def in_world_def handle_principal_quiet [OF q]
        split: if_splits prod.splits sum.splits)
  note R = journaled_write.replays [OF pre(1) pre(2) c scope w1]
  have q1: "quiet w1" and acc1: "has_account (hd_subject H) (tabs w1)" using R acc by (simp_all add: calm_def)
  show ?thesis
    using R acc1 charge
    by (simp add: st1 charged_write_def act_eval charge_write_def in_world_def handle_principal_quiet [OF q1])
qed

lemma charged_create:
  "writer_of H res = Inr wr \<Longrightarrow> handle_create L H res body =
     charged_write L H (op_key (ml_sha L) (ml_display L) Create_Op res None body) (\<lambda>p. create_or_reread H wr p body)"
  by (simp add: handle_create_def charged_write_def and_then_def lift_result_def)

lemma charged_update:
  "writer_of H res = Inr wr \<Longrightarrow> id_i32 i = Inr i \<Longrightarrow> handle_update L H res i body =
     charged_write L H (op_key (ml_sha L) (ml_display L) Update_Op res (Some i) body) (\<lambda>p. wr_update wr p i body)"
  by (simp add: handle_update_def charged_write_def and_then_def lift_result_def)

lemma charged_delete:
  "writer_of H res = Inr wr \<Longrightarrow> id_i32 i = Inr i \<Longrightarrow> handle_delete L H res i =
     charged_write L H (op_key (ml_sha L) (ml_display L) Delete_Op res (Some i) JNull) (\<lambda>p. wr_delete wr p i)"
  by (simp add: handle_delete_def charged_write_def and_then_def lift_result_def)

lemma lifted_Inr:
  "in_world (and_then m (\<lambda>p. and_then (lift_result r) (f p))) st = (Inr d, st1) \<Longrightarrow> \<exists>x. r = Inr x"
  by (cases r) (auto simp: in_world_def and_then_def lift_result_def split: prod.splits sum.splits)

lemma id_i32_Inr: "id_i32 i = Inr j \<Longrightarrow> id_i32 i = Inr i"
  by (simp add: id_i32_def split: if_splits)

lemma update_id_in_range: "handle_update L H res i body st = (Inr d, st1) \<Longrightarrow> id_i32 i = Inr i"
  unfolding handle_update_def and_then_eq_Inr [of charge_write] by (elim exE conjE, drule lifted_Inr, elim exE, rule id_i32_Inr)

lemma delete_id_in_range: "handle_delete L H res i st = (Inr d, st1) \<Longrightarrow> id_i32 i = Inr i"
  unfolding handle_delete_def and_then_eq_Inr [of charge_write] by (elim exE conjE, drule lifted_Inr, elim exE, rule id_i32_Inr)

section \<open>Properties\<close>

text \<open>
  C5: In a batch step a write is executed once: when a creation, an update or a deletion succeeded, the
  same call made again, by a replayed script say, gives the same answer and changes nothing in the
  database; it only uses up one more write of the limit.
\<close>

theorem batch_write_executed_once:
  assumes reg: "map_of (hd_registry H) res = Some e"
      "re_writer e = Some (writer_at table (writer_impl is_unique de ser en))" "table \<noteq> journal_table"
    and scope: "hd_scope H = Some scope" and c: "calm (ms_world st)" and call: "write_of res call"
    and run: "resources_module L H call st = (Inr d, st1)" and charge: "ms_writes st1 < 100"
  shows "resources_module L H call st1 = (Inr d, st1\<lparr>ms_writes := ms_writes st1 + 1\<rparr>)"
proof -
  have wr: "writer_of H res = Inr (writer_at table (writer_impl is_unique de ser en))"
    using reg by (simp add: writer_of_def)
  have charge': "ms_writes st1 < max_writes_per_run" using charge by (simp add: max_writes_per_run_def)
  show ?thesis
  proof (cases call)
    case (Call_Create res' body)
    then have res: "res' = res" using call by simp
    obtain b where b: "dynamic_to_json (D_Map body) = Some b" and h: "handle_create L H res b st = (Inr d, st1)"
      using run Call_Create res by (auto simp: map_err_eq_Inr fail_with_def split: option.splits)
    show ?thesis
      using charged_write_replays [OF creations.journaled_write_axioms reg(3) c scope h [unfolded charged_create [OF wr]] charge']
      unfolding Call_Create res resources_module.simps b option.case charged_create [OF wr] by (rule map_err_Inr)
  next
    case (Call_Update res' i body)
    then have res: "res' = res" using call by simp
    obtain b where b: "dynamic_to_json (D_Map body) = Some b" and h: "handle_update L H res i b st = (Inr d, st1)"
      using run Call_Update res by (auto simp: map_err_eq_Inr fail_with_def split: option.splits)
    note eq = charged_update [OF wr update_id_in_range [OF h]]
    show ?thesis
      using charged_write_replays [OF updates.journaled_write_axioms reg(3) c scope h [unfolded eq] charge']
      unfolding Call_Update res resources_module.simps b option.case eq by (rule map_err_Inr)
  next
    case (Call_Delete res' i)
    then have res: "res' = res" using call by simp
    have h: "handle_delete L H res i st = (Inr d, st1)" using run Call_Delete res by (simp add: map_err_eq_Inr)
    note eq = charged_delete [OF wr delete_id_in_range [OF h]]
    show ?thesis
      using charged_write_replays [OF deletions.journaled_write_axioms reg(3) c scope h [unfolded eq] charge']
      unfolding Call_Delete res resources_module.simps eq by (rule map_err_Inr)
  qed (use call in simp_all)
qed

text \<open>A script: its calls one after the other, each with its answer.\<close>

fun run_script ::
    "module_lib \<Rightarrow> handle \<Rightarrow> script_call list \<Rightarrow> module_state \<Rightarrow> (string + dynamic) list \<times> module_state" where
  "run_script L H [] st = ([], st)"
| "run_script L H (c # cs) st =
     (case resources_module L H c st of (r, st1) \<Rightarrow>
      case run_script L H cs st1 of (rs, st2) \<Rightarrow> (r # rs, st2))"

lemma in_world_writes: "in_world m st = (r, st') \<Longrightarrow> ms_writes st' = ms_writes st"
  by (auto simp: in_world_def split: prod.splits)

lemma read_call_writes:
  "\<not> is_write c \<Longrightarrow> resources_module L H c st = (r, st') \<Longrightarrow> ms_writes st' = ms_writes st"
  by (cases c) (auto simp: map_err_def and_then_def return_ok_def in_world_def split: prod.splits sum.splits)

definition charged :: "u64 \<Rightarrow> u64" where
  "charged n = n + 1"

lemma after_charge_writes:
  "and_then charge_write (\<lambda>_. in_world m) st = (r, st') \<Longrightarrow>
     ms_writes st' = ms_writes st + 1 \<and>
     (if max_writes_per_run \<le> ms_writes st then r = Inl F_WriteLimit \<and> ms_world st' = ms_world st else True)"
  by (auto simp: and_then_def charge_write_def dest!: in_world_writes split: if_splits)

lemma write_call_charged:
  assumes "is_write c" "resources_module L H c st = (r, st')"
  shows "(ms_writes st' = ms_writes st \<and> isl r \<and> ms_world st' = ms_world st) \<or>
    (ms_writes st' = ms_writes st + 1 \<and> (max_writes_per_run \<le> ms_writes st \<longrightarrow> isl r \<and> ms_world st' = ms_world st))"
proof -
  have charged: "ms_writes st' = ms_writes st + 1 \<and> (max_writes_per_run \<le> ms_writes st \<longrightarrow> isl r \<and> ms_world st' = ms_world st)"
    if run: "map_err failure_message (and_then charge_write (\<lambda>_. in_world m)) st = (r, st')"
    for m :: "(sql_world, failure, dynamic) act"
  proof -
    obtain r1 where r1: "and_then charge_write (\<lambda>_. in_world m) st = (r1, st')"
        "isl r1 \<Longrightarrow> isl r"
      using run by (cases "and_then charge_write (\<lambda>_. in_world m) st"; cases "fst (and_then charge_write (\<lambda>_. in_world m) st)")
        (auto simp: map_err_def)
    from after_charge_writes [OF r1(1)] r1(2) show ?thesis by (auto split: if_splits)
  qed
  have refused: "ms_writes st' = ms_writes st \<and> isl r \<and> ms_world st' = ms_world st"
    if "map_err failure_message (fail_with F_InvalidBody) st = (r, st')"
    using that by (auto simp: map_err_def fail_with_def)
  show ?thesis
  proof (cases c)
    case (Call_Create res body)
    show ?thesis
    proof (cases "dynamic_to_json (D_Map body)")
      case None
      then have "map_err failure_message (fail_with F_InvalidBody) st = (r, st')"
        using assms(2) Call_Create by (simp del: dynamic_to_json.simps)
      then show ?thesis using refused by blast
    next
      case (Some b)
      then have "map_err failure_message (handle_create L H res b) st = (r, st')"
        using assms(2) Call_Create by (simp del: dynamic_to_json.simps)
      then show ?thesis using charged unfolding handle_create_def by blast
    qed
  next
    case (Call_Update res i body)
    show ?thesis
    proof (cases "dynamic_to_json (D_Map body)")
      case None
      then have "map_err failure_message (fail_with F_InvalidBody) st = (r, st')"
        using assms(2) Call_Update by (simp del: dynamic_to_json.simps)
      then show ?thesis using refused by blast
    next
      case (Some b)
      then have "map_err failure_message (handle_update L H res i b) st = (r, st')"
        using assms(2) Call_Update by (simp del: dynamic_to_json.simps)
      then show ?thesis using charged unfolding handle_update_def by blast
    qed
  next
    case (Call_Delete res i)
    then have "map_err failure_message (handle_delete L H res i) st = (r, st')" using assms(2) by simp
    then show ?thesis using charged unfolding handle_delete_def by blast
  qed (use assms(1) in simp_all)
qed

lemma script_writes:
  "run_script L H cs st = (rs, st') \<Longrightarrow> unat (ms_writes st) + length cs < 2 ^ 64 \<Longrightarrow>
     length (filter (\<lambda>(c, r). is_write c \<and> \<not> isl r) (zip cs rs)) \<le> 100 - unat (ms_writes st)"
proof (induction cs arbitrary: st rs)
  case (Cons c cs)
  obtain r st1 rs1 where 1: "resources_module L H c st = (r, st1)" and 2: "run_script L H cs st1 = (rs1, st')"
    and rs: "rs = r # rs1"
    using Cons.prems(1) by (auto split: prod.splits)
  have up: "unat (ms_writes st + 1) = unat (ms_writes st) + 1"
    using Cons.prems(2) by (simp add: unat_word_ariths)
  have lim: "max_writes_per_run \<le> ms_writes st \<longleftrightarrow> 100 \<le> unat (ms_writes st)"
    by (simp add: max_writes_per_run_def word_le_nat_alt)
  show ?case
  proof (cases "is_write c")
    case False
    then have "ms_writes st1 = ms_writes st" using read_call_writes 1 by blast
    then show ?thesis using Cons.IH [OF 2] Cons.prems(2) False rs by simp
  next
    case True
    from write_call_charged [OF True 1] show ?thesis
      using Cons.IH [OF 2] Cons.prems(2) True rs up lim by (cases "100 \<le> unat (ms_writes st)") auto
  qed
qed simp

text \<open>
  However many calls a script makes, at most 100 creations, updates and deletions of one instance of
  the module succeed; past the limit a write is refused and leaves the database alone. The counter
  wraps only after \<open>2 ^ 64\<close> writes.
\<close>

theorem module_writes_limited:
  assumes "ms_writes st = 0" and "length cs < 2 ^ 64" and "run_script L H cs st = (rs, st')"
  shows "length (filter (\<lambda>(c, r). is_write c \<and> \<not> isl r) (zip cs rs)) \<le> 100 \<and>
    (case resources_module L H c (st\<lparr>ms_writes := 100\<rparr>) of
       (r, st1) \<Rightarrow> if is_write c then isl r \<and> ms_world st1 = ms_world st else True)"
proof -
  obtain r st1 where call: "resources_module L H c (st\<lparr>ms_writes := 100\<rparr>) = (r, st1)" by fastforce
  have "isl r \<and> ms_world st1 = ms_world st" if "is_write c"
    using write_call_charged [OF that call] by (auto simp: max_writes_per_run_def)
  moreover have "length (filter (\<lambda>(c, r). is_write c \<and> \<not> isl r) (zip cs rs)) \<le> 100"
    using script_writes [OF assms(3)] assms(1,2) by simp
  ultimately show ?thesis unfolding call by simp
qed

lemma map_err_and_then: "map_err g (and_then m f) = and_then (map_err g m) (\<lambda>x. map_err g (f x))"
  by (rule ext) (simp add: map_err_def and_then_def split: prod.split sum.split)

lemma map_err_map_err: "map_err g (map_err h m) = map_err (g \<circ> h) m"
  by (rule ext) (simp add: map_err_def split: prod.split sum.split)

text \<open>
  No text of a database error reaches a script: the answers and the effects of every call are the same
  whatever these texts are.
\<close>

theorem module_hides_database_text:
  "resources_module (L\<lparr>ml_texts := tx1\<rparr>) H call = resources_module (L\<lparr>ml_texts := tx2\<rparr>) H call"
proof -
  have same_text: "map_err failure_of_lymaille (map_err (store_error tx1) m) = map_err failure_of_lymaille (map_err (store_error tx2) m)"
    for m :: "(sql_world, dberr, 'a) act"
    by (simp add: map_err_map_err comp_def)
  have me: "map_err failure_of_lymaille (and_then (map_err (store_error tx1) m) f) =
      map_err failure_of_lymaille (and_then (map_err (store_error tx2) m) g)"
    if "\<And>x. map_err failure_of_lymaille (f x) = map_err failure_of_lymaille (g x)"
    for m :: "(sql_world, dberr, 'a) act" and f g :: "'a \<Rightarrow> (sql_world, lymaille_error, 'b) act"
    unfolding map_err_and_then that same_text ..
  have tx: "ml_texts (L\<lparr>ml_texts := t\<rparr>) = t" for t by simp
  have caller: "handle_caller (L\<lparr>ml_texts := tx1\<rparr>) H = handle_caller (L\<lparr>ml_texts := tx2\<rparr>) H"
    unfolding handle_caller_def resolve_caller_def tx
    by (intro me) (auto intro!: me split: option.split)
  then have pr: "handle_principal (L\<lparr>ml_texts := tx1\<rparr>) H = handle_principal (L\<lparr>ml_texts := tx2\<rparr>) H"
    by (simp add: handle_principal_def)
  have "journaled (L\<lparr>ml_texts := tx1\<rparr>) H key = journaled (L\<lparr>ml_texts := tx2\<rparr>) H key" for key
    unfolding journaled_def replay_def tx
    by (cases "hd_scope H") (auto intro!: me split: option.split)
  moreover have "record_write (L\<lparr>ml_texts := tx1\<rparr>) H key v = record_write (L\<lparr>ml_texts := tx2\<rparr>) H key v" for key v
    unfolding record_write_def journal_record_def tx
    by (cases "hd_scope H") (auto simp: and_then_def utc_now_def map_err_def fun_eq_iff fail_with_def
        split: prod.splits sum.splits)
  ultimately have once: "write_once (L\<lparr>ml_texts := tx1\<rparr>) H key m = write_once (L\<lparr>ml_texts := tx2\<rparr>) H key m" for key m
    by (simp add: write_once_def cong: option.case_cong)
  show ?thesis
    by (cases call) (simp_all add: handle_describe_def handle_list_def handle_get_def handle_create_def
      handle_update_def handle_delete_def caller pr once
      cong: option.case_cong)
qed

text \<open>
  What a script reads back from a value it wrote is that value: the conversion of JSON to script values
  and back is the identity, for every JSON whose integers fit an \<open>i64\<close>.
\<close>

theorem script_value_roundtrip:
  assumes "script_numbers v"
  shows "dynamic_to_json (json_to_dynamic to_f64 v) = Some v"
  using assms by (rule dynamic_json)

lemma at_table_quiet:
  assumes "act_calm m" "calm w"
  shows "fst (at_table table m w) = fst (m (focus_world table w))" "calm (snd (at_table table m w))"
proof -
  obtain r w' where run: "at_table table m w = (r, w')" by fastforce
  obtain v where "m (focus_world table w) = (r, v)" "calm w'"
    using at_table_calm [OF assms run] .
  then show "fst (at_table table m w) = fst (m (focus_world table w))" "calm (snd (at_table table m w))"
    using run by simp_all
qed

lemma calm_rest_get [calm_intros]: "act_calm (rest_get E p i)"
  unfolding rest_get_def can_read_def by (auto intro!: calm_intros)

text \<open>
  C40: A script reads a record with exactly the decision of the REST surface for its subject: what
  \<open>GET\<close> refuses it is refused, with the same kind of refusal, and what it returns is returned.
\<close>

theorem module_get_follows_rest:
  assumes c: "calm w" and acc: "find_user (hd_subject H) (tabs w) = Some u"
    and reg: "map_of (hd_registry H) res = Some e" "re_reader e = reader_at (en_table en) (reader_impl ser en)"
    and i: "- (2 ^ 31) \<le> i" "i < 2 ^ 31"
  shows "fst (handle_get L H res i w) =
    (case fst (rest_get (en_resource en) (agent_principal (hd_subject H)) i (focus_world (en_table en) w)) of
       Inl err \<Rightarrow> Inl (failure_of_rest err)
     | Inr r \<Rightarrow> (case ser r of Inl _ \<Rightarrow> Inl F_Internal | Inr v \<Rightarrow> Inr (json_to_dynamic (ml_to_f64 L) v)))"
proof -
  have q: "quiet w" using c by (simp add: calm_def)
  let ?p = "agent_principal (hd_subject H)"
  let ?m = "and_then (map_err failure_of_rest (rest_get (en_resource en) ?p i)) (\<lambda>r. to_value (ser r))"
  have "fst (handle_get L H res i w) =
      fst (and_then (at_table (en_table en) ?m) (\<lambda>value. return_ok (json_to_dynamic (ml_to_f64 L) value)) w)"
    using acc i reg by (simp add: handle_get_def handle_principal_quiet [OF q] has_account_def and_then_def
        lift_result_def entry_of_def id_i32_def reader_at_def reader_impl_def)
  also have "\<dots> = map_sum id (json_to_dynamic (ml_to_f64 L)) (fst (at_table (en_table en) ?m w))"
    by (simp add: and_then_def return_ok_def split: prod.split sum.split)
  also have "fst (at_table (en_table en) ?m w) = fst (?m (focus_world (en_table en) w))"
    by (rule at_table_quiet [OF _ c]) (auto intro!: calm_intros)
  finally show ?thesis
    by (simp add: and_then_def map_err_def to_value_def lift_result_def split: prod.split sum.split)
qed

lemma from_raw_id:
  assumes "1 \<le> n" "n \<le> 1000"
  shows "per_page (from_raw pg (Some n)) = n"
  using assms by (simp add: from_raw_def clamp_id max_per_page_def)

lemma paginate_length: "paginate query pg w = (Inr r, w') \<Longrightarrow> length (items r) \<le> unat (per_page pg)"
  by (auto simp: paginate_def act_inv length_fetch_page select_Inr_iff)

lemma rest_list_length:
  assumes "rest_list E p pg ppg f w = (Inr r, w')"
  shows "length (items r) \<le> unat (per_page (from_raw pg ppg))"
proof -
  obtain u w1 access w2 where
    run: "(case (case access of Unrestricted \<Rightarrow> Some [] | FilterByOwner c \<Rightarrow> Some c | List_Forbidden \<Rightarrow> None) of
         None \<Rightarrow> fail_with Forbidden
       | Some condition \<Rightarrow>
           (let condition = (case (filter_column E, f) of
                 (Some col, Some value) \<Rightarrow> condition @ [(col, VText (Some value))]
               | _ \<Rightarrow> condition)
            in map_err Rest_Database (paginate (select_rows E condition) (from_raw pg ppg)))) w2 = (Inr r, w')"
    using assms unfolding rest_list_def and_then_eq_Inr by blast
  then show ?thesis
    by (cases access) (auto simp: Let_def map_err_eq_Inr fail_with_def dest: paginate_length)
qed

lemma to_values_length: "to_values ser rs = Inr vs \<Longrightarrow> length vs = length rs"
  by (induction rs arbitrary: vs) (auto split: sum.splits)

text \<open>
  A listing gives a script at most 50 records a page, whatever it asks for, and at most 20 when it asks
  for no size.
\<close>

theorem module_page_bounded:
  assumes reg: "map_of (hd_registry H) res = Some e" "re_reader e = reader_at (en_table en) (reader_impl ser en)"
    and run: "handle_list L H res f pg ppg w = (Inr d, w')"
  shows "\<exists>kvs xs. d = D_Map kvs \<and> map_of kvs ''items'' = Some (D_Array xs) \<and>
    length xs \<le> (if ppg = None then 20 else 50)"
proof -
  let ?raw = "from_raw pg (Some (case ppg of Some n \<Rightarrow> n | None \<Rightarrow> llm_default_per_page))"
  let ?per = "min (per_page ?raw) llm_max_per_page"
  have raw: "1 \<le> per_page ?raw" "ppg = None \<longrightarrow> per_page ?raw = 20"
    using from_raw_bounds [of pg "Some (case ppg of Some n \<Rightarrow> n | None \<Rightarrow> llm_default_per_page)"]
    by (auto simp: llm_default_per_page_def intro!: from_raw_id)
  have per: "1 \<le> ?per" "?per \<le> 1000" "unat ?per \<le> (if ppg = None then 20 else 50)"
    using raw by (auto simp: llm_max_per_page_def min_def word_le_nat_alt)
  obtain p w1 v where "rd_list (re_reader e) p (page ?raw) ?per f w1 = (Inr v, w')"
      "d = json_to_dynamic (ml_to_f64 L) v"
    using run reg(1) by (auto simp: handle_list_def act_inv entry_of_def Let_def)
  then obtain r u' u'' where r: "rest_list (en_resource en) p (Some (page ?raw)) (Some ?per) f u' = (Inr r, u'')"
      "page_to_value ser r = Inr v" and d: "d = json_to_dynamic (ml_to_f64 L) v"
    unfolding reg(2)
    by (auto simp: reader_at_def reader_impl_def at_table_def to_value_def act_inv split: prod.splits)
  obtain vs where vs: "to_values ser (items r) = Inr vs" and v: "json_get v ''items'' = Some (JArray vs)"
    using r(2) by (auto simp: page_to_value_def obj_def json_get_def split: sum.splits)
  obtain kvs where kvs: "v = JObject kvs" using r(2) by (auto simp: page_to_value_def obj_def split: sum.splits)
  have "map_of (map (\<lambda>(k, x). (k, json_to_dynamic (ml_to_f64 L) x)) kvs) ''items'' =
      Some (D_Array (map (json_to_dynamic (ml_to_f64 L)) vs))"
    using v unfolding kvs json_get_def by (simp add: map_of_map)
  moreover have "length vs \<le> (if ppg = None then 20 else 50)"
    using rest_list_length [OF r(1)] per unfolding from_raw_id [OF per(1,2)] to_values_length [OF vs] by simp
  ultimately show ?thesis unfolding d kvs by simp
qed

text \<open>
  In a batch step, a creation that hits a unique constraint answers with the existing row that agrees
  with the body, whoever owns it: the row is read again without the read policy that \<open>GET\<close> applies.
\<close>

theorem reread_ignores_read_policy:
  assumes scope: "hd_scope H = Some scope"
    and run: "wr_create (writer_at table (writer_impl is_unique de ser en)) p body w = (Inl F_UniqueViolation, w1)"
    and calm: "calm w1" and body: "as_object body = Some kvs"
    and label: "label_column (en_resource en) = Some label" "label_value (map_of kvs label) = Some v"
    and row: "filter (\<lambda>r. r label = v) (rows_where table [] (tabs w1)) = r # rs" "ser r = Inr j"
    and agree: "list_all (\<lambda>(k, x). primary_key_field en = Some k \<or> json_get j k = Some x) kvs"
  shows "fst (create_or_reread H (writer_at table (writer_impl is_unique de ser en)) p body w) = Inr j"
proof -
  have q: "quiet (focus_world table w1)" using focus_calm [OF calm] by (simp add: calm_def)
  have rows: "rows (tabs (focus_world table w1)) = rows_where table [] (tabs w1)"
    by (simp add: focus_world_def focus_def)
  have "fst (reread_matching ser en body (focus_world table w1)) = Inr (Some j)"
    using label body row agree
    by (simp add: reread_matching_def act_eval select_quiet [OF q] rows)
  then have "fst (at_table table (reread_matching ser en body) w1) = Inr (Some j)"
    by (simp add: at_table_quiet [OF calm_reread calm])
  then obtain w2 where "at_table table (reread_matching ser en body) w1 = (Inr (Some j), w2)"
    by (metis prod.collapse)
  then have "and_then (wr_reread (writer_at table (writer_impl is_unique de ser en)) body)
      (\<lambda>found. case found of Some r \<Rightarrow> return_ok r | None \<Rightarrow> fail_with F_Conflict) w1 = (Inr j, w2)"
    by (simp add: writer_at_def writer_impl_def and_then_def return_ok_def)
  then show ?thesis
    using scope run by (simp add: create_or_reread_def on_error_def)
qed

text \<open>
  Awrite whose answer is longer than 64 KiB takes effect and is then reported as an internal error; it
  is not in the journal, so the replay of the step executes it again.
\<close>

theorem oversized_write_runs_again:
  assumes act: "frames act1" and c: "calm w" and scope: "hd_scope H = Some scope"
    and none: "journal_entry scope key (tabs w) = None"
    and first: "act1 w = (Inr v, w1)" and big: "max_result_bytes < length (ml_display L v)"
    and again: "act1 w1 = (Inr v2, w2)" and big2: "max_result_bytes < length (ml_display L v2)"
  shows "write_once L H key act1 w = (Inl F_Internal, w1) \<and> write_once L H key act1 w1 = (Inl F_Internal, w2)"
proof -
  note F = framesD [OF act first c]
  have none1: "journal_entry scope key (tabs w1) = None" using F(2) none by simp
  have step: "write_once L H key act1 w = (Inl F_Internal, w')"
    if "calm w" "journal_entry scope key (tabs w) = None" "act1 w = (Inr v, w')"
      "max_result_bytes < length (ml_display L v)" for w w' v
    using that
    by (simp add: write_once_def journaled_def record_write_def scope act_eval replay_quiet calm_def journal_record_def)
  show ?thesis using step [OF c none first big] step [OF F(1) none1 again big2] by simp
qed

section \<open>Witnesses\<close>

definition recipe_row :: "int \<Rightarrow> string \<Rightarrow> int \<Rightarrow> row" where
  "recipe_row i title owner =
     (\<lambda>_. VText None)(''id'' := VInt (Some i), ''title'' := VText (Some title), ''owner_id'' := VInt (Some owner))"

definition demo_recipe_de :: "json \<Rightarrow> string + row" where
  "demo_recipe_de v =
     (case json_get v ''title'' of Some (JString s) \<Rightarrow> Inr (recipe_row 0 s 0) | _ \<Rightarrow> Inl ''missing field'')"

definition demo_recipe_ser :: "row \<Rightarrow> string + json" where
  "demo_recipe_ser r =
     Inr (obj [(''id'', JNumber (Int_Num (row_int (r ''id'')))), (''title'', JString (col_text (r ''title''))),
               (''owner_id'', JNumber (Int_Num (row_int (r ''owner_id''))))])"

definition demo_recipes :: entity where
  "demo_recipes =
     \<lparr>en_resource = demo_resource, en_table = ''t_recipes'',
      en_columns = [\<lparr>cd_name = ''id'', cd_type = Ct_Integer, cd_nullable = False\<rparr>,
                    \<lparr>cd_name = ''title'', cd_type = Ct_Other, cd_nullable = False\<rparr>,
                    \<lparr>cd_name = ''owner_id'', cd_type = Ct_Integer, cd_nullable = False\<rparr>],
      en_keys = [''id''], en_relations = []\<rparr>"

definition demo_lib :: module_lib where
  "demo_lib = \<lparr>ml_texts = demo_texts, ml_display = (\<lambda>_. ''{}''), ml_sha = id, ml_to_f64 = rat_of_int\<rparr>"

definition demo_entry :: registry_entry where
  "demo_entry =
     \<lparr>re_reader = reader_at (en_table demo_recipes) (reader_impl demo_recipe_ser demo_recipes),
      re_writer = Some (writer_at ''t_recipes'' (writer_impl (\<lambda>_. True) demo_recipe_de demo_recipe_ser demo_recipes))\<rparr>"

definition demo_handle :: handle where
  "demo_handle =
     \<lparr>hd_registry = [(''recipes'', demo_entry)], hd_subject = ''bob'', hd_scope = Some demo_journal_scope\<rparr>"

definition demo_module_state :: module_state where
  "demo_module_state = \<lparr>ms_world = demo_world [(''t_recipes'', recipe_row 8 ''soup'' 1)], ms_writes = 0\<rparr>"

definition demo_call :: script_call where
  "demo_call = Call_Create ''recipes'' [(''title'', D_String ''tea'')]"

abbreviation demo_writer :: "sql_world writer" where
  "demo_writer \<equiv> writer_at ''t_recipes'' (writer_impl (\<lambda>_. True) demo_recipe_de demo_recipe_ser demo_recipes)"

abbreviation demo_module_world :: sql_world where
  "demo_module_world \<equiv> demo_world [(''t_recipes'', recipe_row 8 ''soup'' 1)]"

abbreviation tea :: json where "tea \<equiv> JObject [(''title'', JString ''tea'')]"

lemma demo_calm: "calm demo_module_world"
  by (simp add: calm_def)

lemma demo_writer_of: "writer_of demo_handle ''recipes'' = Inr demo_writer"
  by (simp add: writer_of_def demo_handle_def demo_entry_def)

lemma demo_create:
  "fst (create_or_reread demo_handle demo_writer (agent_principal ''bob'') tea demo_module_world) =
     Inr (JObject [(''id'', JNumber (Int_Num 9)), (''owner_id'', JNumber (Int_Num 2)), (''title'', JString ''tea'')])"
  by code_simp

lemma demo_accounts: "has_account ''bob'' (tabs demo_module_world)"
  by code_simp

lemma demo_not_journaled: "journal_entry demo_journal_scope key (tabs demo_module_world) = None"
  by (simp add: journal_entry_def sql_first_None rows_where_def sql_match_def demo_tables_def journal_table_def)

lemma demo_handle_simps:
  "hd_subject demo_handle = ''bob''" "hd_scope demo_handle = Some demo_journal_scope"
  by (simp_all add: demo_handle_def)

lemma demo_table: "''t_recipes'' \<noteq> journal_table"
  by (simp add: journal_table_def)

lemma demo_call_run:
  "\<exists>d st1. resources_module demo_lib demo_handle demo_call demo_module_state = (Inr d, st1) \<and> ms_writes st1 = 1"
proof -
  let ?key = "op_key (ml_sha demo_lib) (ml_display demo_lib) Create_Op ''recipes'' None tea"
  have q: "quiet demo_module_world" using demo_calm by (simp add: calm_def)
  obtain v w2 where c: "create_or_reread demo_handle demo_writer (agent_principal ''bob'') tea demo_module_world = (Inr v, w2)"
    using demo_create by (metis prod.collapse)
  have "calm w2" by (rule framesD(1) [OF frames_create_or_reread [OF demo_table] c demo_calm])
  then have q2: "quiet w2" by (simp add: calm_def)
  obtain w3 where r: "journal_record (ml_display demo_lib) (ml_texts demo_lib) demo_journal_scope ?key v w2 = (Inr (), w3)"
    using journal_record_ok [OF q2, of "ml_display demo_lib" v "ml_texts demo_lib" demo_journal_scope ?key]
    by (auto simp: demo_lib_def max_result_bytes_def)
  have once: "write_once demo_lib demo_handle ?key (create_or_reread demo_handle demo_writer (agent_principal ''bob'') tea)
      demo_module_world = (Inr (json_to_dynamic (ml_to_f64 demo_lib) v), w3)"
    using c r demo_not_journaled
    by (simp add: write_once_def journaled_def record_write_def demo_handle_simps act_eval replay_quiet [OF q])
  have "charged_write demo_lib demo_handle ?key (\<lambda>p. create_or_reread demo_handle demo_writer p tea) demo_module_state =
      (Inr (json_to_dynamic (ml_to_f64 demo_lib) v), \<lparr>ms_world = w3, ms_writes = 1\<rparr>)"
    using once demo_accounts
    by (simp add: charged_write_def act_eval charge_write_def in_world_def demo_module_state_def
        handle_principal_quiet [OF q] demo_handle_simps max_writes_per_run_def)
  then show ?thesis
    by (simp add: demo_call_def charged_create [OF demo_writer_of] map_err_Inr)
qed

theorem batch_write_executed_once_witness:
  "\<exists>d st1 st2. resources_module demo_lib demo_handle demo_call demo_module_state = (Inr d, st1) \<and>
     resources_module demo_lib demo_handle demo_call st1 = (Inr d, st2) \<and> ms_world st2 = ms_world st1"
proof -
  obtain d st1 where run: "resources_module demo_lib demo_handle demo_call demo_module_state = (Inr d, st1)"
    and n: "ms_writes st1 = 1"
    using demo_call_run by blast
  have reg: "map_of (hd_registry demo_handle) ''recipes'' = Some demo_entry" "re_writer demo_entry = Some demo_writer"
    by (simp_all add: demo_handle_def demo_entry_def)
  have c: "calm (ms_world demo_module_state)" "write_of ''recipes'' demo_call" "ms_writes st1 < 100"
    using demo_calm n by (simp_all add: demo_module_state_def demo_call_def)
  show ?thesis
    using run batch_write_executed_once [OF reg demo_table demo_handle_simps(2) c(1,2) run c(3)] by auto
qed

theorem module_writes_limited_witness:
  "\<exists>rs st'. run_script demo_lib demo_handle [demo_call] demo_module_state = (rs, st') \<and>
     length (filter (\<lambda>(c, r). is_write c \<and> \<not> isl r) (zip [demo_call] rs)) \<le> 100"
proof -
  obtain rs st' where "run_script demo_lib demo_handle [demo_call] demo_module_state = (rs, st')" by fastforce
  then show ?thesis
    using module_writes_limited [of demo_module_state "[demo_call]" demo_lib demo_handle rs st' demo_call]
    by (auto simp: demo_module_state_def)
qed

theorem script_value_roundtrip_witness:
  "dynamic_to_json (json_to_dynamic rat_of_int (JObject [(''a'', JArray [JNumber (Int_Num 5), JNull])])) =
     Some (JObject [(''a'', JArray [JNumber (Int_Num 5), JNull])])"
  by (rule script_value_roundtrip) (simp add: is_i64_def)

theorem module_get_follows_rest_witness:
  "fst (handle_get demo_lib demo_handle ''recipes'' 8 demo_module_world) = Inl F_Forbidden"
proof -
  have acc: "find_user (hd_subject demo_handle) (tabs demo_module_world) = Some (demo_user 2)"
    by code_simp
  have reg: "map_of (hd_registry demo_handle) ''recipes'' = Some demo_entry"
    "re_reader demo_entry = reader_at (en_table demo_recipes) (reader_impl demo_recipe_ser demo_recipes)"
    by (simp_all add: demo_handle_def demo_entry_def)
  have "case fst (rest_get (en_resource demo_recipes) (agent_principal (hd_subject demo_handle)) 8
      (focus_world (en_table demo_recipes) demo_module_world)) of Inl x \<Rightarrow> x = Forbidden | Inr _ \<Rightarrow> False"
    by code_simp
  then have "fst (rest_get (en_resource demo_recipes) (agent_principal (hd_subject demo_handle)) 8
      (focus_world (en_table demo_recipes) demo_module_world)) = Inl Forbidden"
    by (simp split: sum.splits)
  then show ?thesis using module_get_follows_rest [OF demo_calm acc reg, of 8 demo_lib] by simp
qed

text \<open>The listing of bob, who owns no recipe.\<close>

lemma demo_list_run:
  "\<not> isl (fst (handle_list demo_lib demo_handle ''recipes'' None None (Some 1000) demo_module_world))"
  by code_simp

theorem module_page_bounded_witness:
  "\<exists>kvs xs w'. handle_list demo_lib demo_handle ''recipes'' None None (Some 1000) demo_module_world = (Inr (D_Map kvs), w') \<and>
     map_of kvs ''items'' = Some (D_Array xs) \<and> length xs \<le> 50"
proof -
  obtain d w' where run: "handle_list demo_lib demo_handle ''recipes'' None None (Some 1000) demo_module_world = (Inr d, w')"
    using demo_list_run by (metis prod.collapse sum.collapse(2))
  have reg: "map_of (hd_registry demo_handle) ''recipes'' = Some demo_entry"
    "re_reader demo_entry = reader_at (en_table demo_recipes) (reader_impl demo_recipe_ser demo_recipes)"
    by (simp_all add: demo_handle_def demo_entry_def)
  show ?thesis using run module_page_bounded [OF reg run] by auto
qed

text \<open>
  Bob creates a recipe whose title ana's recipe 8 already has: the insert hits the unique index. Reading
  recipe 8 is forbidden to bob; the creation of the step returns it.
\<close>

definition conflict_world :: sql_world where
  "conflict_world = demo_module_world\<lparr>env :=
     [\<lparr>others = (\<lambda>t. t), advance = 0, fails = None\<rparr>,
      \<lparr>others = (\<lambda>t. t), advance = 0, fails = Some (unique_err ''t_recipes.title'')\<rparr>]\<rparr>"

abbreviation soup :: json where "soup \<equiv> JObject [(''title'', JString ''soup'')]"

lemma demo_conflict:
  "case wr_create demo_writer (agent_principal ''bob'') soup conflict_world of
     (Inl e, w1) \<Rightarrow> e = F_UniqueViolation \<and> length (env w1) = 0 \<and> \<not> aborted w1 \<and>
       (case snap w1 of None \<Rightarrow> True | Some _ \<Rightarrow> False) \<and>
       (case filter (\<lambda>r. r ''title'' = VText (Some ''soup'')) (rows_where ''t_recipes'' [] (tabs w1)) of
          r # rs \<Rightarrow> demo_recipe_ser r =
            Inr (JObject [(''id'', JNumber (Int_Num 8)), (''owner_id'', JNumber (Int_Num 1)), (''title'', JString ''soup'')])
        | [] \<Rightarrow> False)
   | (Inr _, _) \<Rightarrow> False"
  by code_simp

theorem reread_ignores_read_policy_witness:
  "fst (rest_get demo_resource (agent_principal ''bob'') 8 (focus_world ''t_recipes'' demo_module_world)) = Inl Forbidden \<and>
   fst (create_or_reread demo_handle demo_writer (agent_principal ''bob'') soup conflict_world) =
     Inr (JObject [(''id'', JNumber (Int_Num 8)), (''owner_id'', JNumber (Int_Num 1)), (''title'', JString ''soup'')])"
proof
  have "case fst (rest_get demo_resource (agent_principal ''bob'') 8 (focus_world ''t_recipes'' demo_module_world)) of
      Inl x \<Rightarrow> x = Forbidden | Inr _ \<Rightarrow> False"
    by code_simp
  then show "fst (rest_get demo_resource (agent_principal ''bob'') 8 (focus_world ''t_recipes'' demo_module_world)) =
      Inl Forbidden"
    by (simp split: sum.splits)
  obtain w1 r rs where run: "wr_create demo_writer (agent_principal ''bob'') soup conflict_world = (Inl F_UniqueViolation, w1)"
    and w1: "env w1 = []" "\<not> aborted w1" "snap w1 = None"
    and row: "filter (\<lambda>r. r ''title'' = VText (Some ''soup'')) (rows_where ''t_recipes'' [] (tabs w1)) = r # rs"
      "demo_recipe_ser r =
        Inr (JObject [(''id'', JNumber (Int_Num 8)), (''owner_id'', JNumber (Int_Num 1)), (''title'', JString ''soup'')])"
    using demo_conflict by (auto split: prod.splits sum.splits option.splits list.splits)
  have c: "calm w1" using w1 by (simp add: calm_def quiet_def)
  have l: "label_column (en_resource demo_recipes) = Some ''title''"
    "label_value (map_of [(''title'', JString ''soup'')] ''title'') = Some (VText (Some ''soup''))"
    by (simp_all add: demo_recipes_def demo_resource_def label_value_def)
  show "fst (create_or_reread demo_handle demo_writer (agent_principal ''bob'') soup conflict_world) =
      Inr (JObject [(''id'', JNumber (Int_Num 8)), (''owner_id'', JNumber (Int_Num 1)), (''title'', JString ''soup'')])"
    by (rule reread_ignores_read_policy [OF demo_handle_simps(2) run c _ l row]) (simp_all add: json_get_def)
qed

text \<open>Tea, served twice.\<close>

abbreviation serve_tea :: "(sql_world, failure, json) act" where
  "serve_tea \<equiv> create_or_reread demo_handle demo_writer (agent_principal ''bob'') tea"

lemma demo_twice:
  "\<not> isl (fst (serve_tea demo_module_world)) \<and> \<not> isl (fst (serve_tea (snd (serve_tea demo_module_world)))) \<and>
   length (rows (tabs (snd (serve_tea (snd (serve_tea demo_module_world)))))) = 3"
  by (intro conjI; code_simp)

theorem oversized_write_runs_again_witness:
  "\<exists>L w1 w2. write_once L demo_handle ''k'' serve_tea demo_module_world = (Inl F_Internal, w1) \<and>
     write_once L demo_handle ''k'' serve_tea w1 = (Inl F_Internal, w2) \<and> length (rows (tabs w2)) = 3"
proof -
  let ?L = "demo_lib\<lparr>ml_display := (\<lambda>_. replicate (Suc max_result_bytes) CHR ''x'')\<rparr>"
  obtain v w1 where 1: "serve_tea demo_module_world = (Inr v, w1)"
    using demo_twice by (metis prod.collapse sum.collapse(2))
  obtain v2 w2 where 2: "serve_tea w1 = (Inr v2, w2)"
    using demo_twice 1 by (metis prod.collapse snd_conv sum.collapse(2))
  have "length (rows (tabs w2)) = 3" using demo_twice 1 2 by simp
  moreover have "max_result_bytes < length (ml_display ?L x)" for x by simp
  ultimately show ?thesis
    using oversized_write_runs_again [OF frames_create_or_reread [OF demo_table] demo_calm demo_handle_simps(2)
        demo_not_journaled 1 _ 2, of ?L "''k''"] by blast
qed

end
