(* ===== verification/Session_Hub.thy ===== *)
theory Session_Hub
  imports Lymaille_Stores
begin

text \<open>
  The events of an interactive session (\<open>lymaille/interactive/event.rs\<close>), their diffusion to the
  subscribers (\<open>interactive/hub.rs\<close>) and the SSE stream of a subscriber (\<open>http/sse.rs\<close>). An upstream
  event of the library is a value with the constructors the conversion names; the broadcast channel
  of tokio is a parameter whose documented behaviour is the predicate \<open>broadcast_laws\<close>. The hub is a
  state changed by its locked sections, one definition each, so that every interleaving of calls is a
  list of sections.
\<close>

section \<open>Events\<close>

datatype session_outcome = Out_Valid | Out_Failed | Out_Cancelled

datatype session_event_kind =
    Turn_Started u64
  | Text_Delta u64 string
  | Turn_Ended u64 session_outcome string
  | Run_Ended string session_outcome
  | Token_Usage u64 u64
  | Todo_Changed
  | Title_Changed string
  | Review_Requested string
  | Script_Run string u64 string bool "string option"
  | Mcp_Call string string string u64
  | Mcp_Reconnect string u32 u64
  | Inference_Retry u32 u64 string
  | Overrun u64
  | Response_Truncated bool bool
  | User_Message u64 string
  | Tool_Call_Summary u64 string string bool
  | Empty_Response bool
  | Other_Kind string
  | Host_Event string json

record session_event =
  se_session :: string
  se_at :: string
  se_kind :: session_event_kind

text \<open>
  The upstream event, with the variants and fields that \<open>kind_of\<close> reads; a variant it does not name
  is what \<open>serde_json::to_value\<close> makes of it.
\<close>

datatype lib_outcome = Lib_Valid | Lib_Cancelled | Lib_Other_Outcome

record script_record =
  sr_agent :: string
  sr_duration_ms :: u64
  sr_result :: string
  sr_truncated :: bool
  sr_error :: "string option"

datatype event_kind =
    Ev_TurnStarted u64
  | Ev_TextDelta u64 string
  | Ev_TurnEnded u64 lib_outcome string
  | Ev_RunEnded string lib_outcome
  | Ev_TokenUsage u64 u64
  | Ev_TodoChanged
  | Ev_TitleChanged string
  | Ev_ReviewRequested string
  | Ev_Script script_record
  | Ev_McpCall string string string u64
  | Ev_McpReconnect string u32 u64
  | Ev_InferenceRetry u32 u64 string
  | Ev_Overrun u64
  | Ev_ResponseTruncated bool bool
  | Ev_EmptyResponse bool
  | Ev_Unnamed "json option"

record lib_event =
  ev_session :: string
  ev_at_millis :: nat
  ev_kind :: event_kind

fun outcome_of :: "lib_outcome \<Rightarrow> session_outcome" where
  "outcome_of Lib_Valid = Out_Valid"
| "outcome_of Lib_Cancelled = Out_Cancelled"
| "outcome_of Lib_Other_Outcome = Out_Failed"

fun other_name :: "json option \<Rightarrow> string" where
  "other_name (Some (JString name)) = name"
| "other_name (Some (JObject ((name, _) # _))) = name"
| "other_name _ = ''Unknown''"

fun kind_of :: "event_kind \<Rightarrow> session_event_kind" where
  "kind_of (Ev_TurnStarted turn) = Turn_Started turn"
| "kind_of (Ev_TextDelta turn t) = Text_Delta turn t"
| "kind_of (Ev_TurnEnded turn outcome response) = Turn_Ended turn (outcome_of outcome) response"
| "kind_of (Ev_RunEnded run outcome) = Run_Ended run (outcome_of outcome)"
| "kind_of (Ev_TokenUsage prompt completion) = Token_Usage prompt completion"
| "kind_of Ev_TodoChanged = Todo_Changed"
| "kind_of (Ev_TitleChanged title) = Title_Changed title"
| "kind_of (Ev_ReviewRequested reason) = Review_Requested reason"
| "kind_of (Ev_Script r) = Script_Run (sr_agent r) (sr_duration_ms r) (sr_result r) (sr_truncated r) (sr_error r)"
| "kind_of (Ev_McpCall role fn status duration) = Mcp_Call role fn status duration"
| "kind_of (Ev_McpReconnect role attempt delay) = Mcp_Reconnect role attempt delay"
| "kind_of (Ev_InferenceRetry attempt delay error_class) = Inference_Retry attempt delay error_class"
| "kind_of (Ev_Overrun elapsed) = Overrun elapsed"
| "kind_of (Ev_ResponseTruncated has_text has_tool_calls) = Response_Truncated has_text has_tool_calls"
| "kind_of (Ev_EmptyResponse will_retry) = Empty_Response will_retry"
| "kind_of (Ev_Unnamed other) = Other_Kind (other_name other)"

text \<open>
  Calendar of chrono: the range of its instants and the RFC 3339 text, with milliseconds, of one.
  An instant out of range is replaced by the clock.
\<close>

record calendar =
  cal_holds :: "int \<Rightarrow> bool"
  cal_rfc3339 :: "int \<Rightarrow> string"

definition timestamp_rfc3339 :: "calendar \<Rightarrow> int \<Rightarrow> nat \<Rightarrow> string" where
  "timestamp_rfc3339 cal now_millis at_millis =
     (let millis = min (2 ^ 63 - 1) (int at_millis) in
      cal_rfc3339 cal (if cal_holds cal millis then millis else now_millis))"

definition session_event_of :: "calendar \<Rightarrow> int \<Rightarrow> lib_event \<Rightarrow> session_event" where
  "session_event_of cal now_millis e =
     \<lparr>se_session = ev_session e, se_at = timestamp_rfc3339 cal now_millis (ev_at_millis e), se_kind = kind_of (ev_kind e)\<rparr>"

text \<open>
  The JSON of an event, by its serde attributes: the variant is the field \<open>type\<close> in snake case,
  followed by the fields of the variant.
\<close>

fun outcome_json :: "session_outcome \<Rightarrow> json" where
  "outcome_json Out_Valid = JString ''valid''"
| "outcome_json Out_Failed = JString ''failed''"
| "outcome_json Out_Cancelled = JString ''cancelled''"

definition ju64 :: "'a::len word \<Rightarrow> json" where "ju64 n = JNumber (Int_Num (uint n))"

fun event_name :: "session_event_kind \<Rightarrow> string" where
  "event_name (Turn_Started _) = ''turn_started''"
| "event_name (Text_Delta _ _) = ''text_delta''"
| "event_name (Turn_Ended _ _ _) = ''turn_ended''"
| "event_name (Run_Ended _ _) = ''run_ended''"
| "event_name (Token_Usage _ _) = ''token_usage''"
| "event_name Todo_Changed = ''todo_changed''"
| "event_name (Title_Changed _) = ''title_changed''"
| "event_name (Review_Requested _) = ''review_requested''"
| "event_name (Script_Run _ _ _ _ _) = ''script''"
| "event_name (Mcp_Call _ _ _ _) = ''mcp_call''"
| "event_name (Mcp_Reconnect _ _ _) = ''mcp_reconnect''"
| "event_name (Inference_Retry _ _ _) = ''inference_retry''"
| "event_name (Overrun _) = ''overrun''"
| "event_name (Response_Truncated _ _) = ''response_truncated''"
| "event_name (User_Message _ _) = ''user_message''"
| "event_name (Tool_Call_Summary _ _ _ _) = ''tool_call_summary''"
| "event_name (Empty_Response _) = ''empty_response''"
| "event_name (Other_Kind _) = ''other''"
| "event_name (Host_Event _ _) = ''host''"

fun event_fields :: "session_event_kind \<Rightarrow> (string \<times> json) list" where
  "event_fields (Turn_Started turn) = [(''turn'', ju64 turn)]"
| "event_fields (Text_Delta turn t) = [(''turn'', ju64 turn), (''text'', JString t)]"
| "event_fields (Turn_Ended turn outcome response) =
     [(''turn'', ju64 turn), (''outcome'', outcome_json outcome), (''response'', JString response)]"
| "event_fields (Run_Ended run outcome) = [(''run'', JString run), (''outcome'', outcome_json outcome)]"
| "event_fields (Token_Usage prompt completion) = [(''prompt'', ju64 prompt), (''completion'', ju64 completion)]"
| "event_fields Todo_Changed = []"
| "event_fields (Title_Changed title) = [(''title'', JString title)]"
| "event_fields (Review_Requested reason) = [(''reason'', JString reason)]"
| "event_fields (Script_Run agent duration result truncated err) =
     [(''agent'', JString agent), (''duration_ms'', ju64 duration), (''result'', JString result),
      (''truncated'', JBool truncated), (''error'', case err of None \<Rightarrow> JNull | Some e \<Rightarrow> JString e)]"
| "event_fields (Mcp_Call role fn status duration) =
     [(''role'', JString role), (''function'', JString fn), (''status'', JString status), (''duration_ms'', ju64 duration)]"
| "event_fields (Mcp_Reconnect role attempt delay) =
     [(''role'', JString role), (''attempt'', ju64 attempt), (''delay_ms'', ju64 delay)]"
| "event_fields (Inference_Retry attempt delay error_class) =
     [(''attempt'', ju64 attempt), (''delay_ms'', ju64 delay), (''error_class'', JString error_class)]"
| "event_fields (Overrun elapsed) = [(''elapsed_ms'', ju64 elapsed)]"
| "event_fields (Response_Truncated has_text has_tool_calls) =
     [(''has_text'', JBool has_text), (''has_tool_calls'', JBool has_tool_calls)]"
| "event_fields (User_Message turn t) = [(''turn'', ju64 turn), (''text'', JString t)]"
| "event_fields (Tool_Call_Summary turn tool call_id has_result) =
     [(''turn'', ju64 turn), (''tool'', JString tool), (''call_id'', JString call_id), (''has_result'', JBool has_result)]"
| "event_fields (Empty_Response will_retry) = [(''will_retry'', JBool will_retry)]"
| "event_fields (Other_Kind name) = [(''name'', JString name)]"
| "event_fields (Host_Event kind payload) = [(''kind'', JString kind), (''payload'', payload)]"

definition kind_json :: "session_event_kind \<Rightarrow> json" where
  "kind_json k = JObject ((''type'', JString (event_name k)) # event_fields k)"

definition event_json :: "session_event \<Rightarrow> json" where
  "event_json e = JObject [(''session'', JString (se_session e)), (''at'', JString (se_at e)), (''kind'', kind_json (se_kind e))]"

section \<open>The hub\<close>

text \<open>
  One broadcast channel of tokio: \<open>bc_new\<close> with a capacity, \<open>bc_subscribe\<close>, \<open>bc_send\<close>,
  \<open>bc_receiver_count\<close>, \<open>bc_recv\<close> (None while a receiver would wait), \<open>bc_drop\<close> of a receiver and
  \<open>bc_shut\<close> when the last sender is dropped.
\<close>

datatype recv_outcome = Rv_Event session_event | Rv_Lagged nat | Rv_Closed

record 'c broadcast =
  bc_new :: "nat \<Rightarrow> 'c"
  bc_subscribe :: "'c \<Rightarrow> nat \<times> 'c"
  bc_send :: "session_event \<Rightarrow> 'c \<Rightarrow> 'c"
  bc_receiver_count :: "'c \<Rightarrow> nat"
  bc_recv :: "nat \<Rightarrow> 'c \<Rightarrow> recv_outcome option \<times> 'c"
  bc_drop :: "nat \<Rightarrow> 'c \<Rightarrow> 'c"
  bc_shut :: "'c \<Rightarrow> 'c"

text \<open>
  \<open>Inner\<close>: the registered subjects, the slots, and the channels the slots and the receivers refer to;
  \<open>hs_pins\<close> counts the clones of a slot that calls of \<open>subscribe\<close> still hold. A channel loses its
  sender when no slot and no clone holds it.
\<close>

record 'c hub =
  hb_capacity :: nat
  hb_audit :: "audit_state option"
  hb_subjects :: "string \<Rightarrow> string option"
  hb_slots :: "string \<Rightarrow> nat option"
  hb_chans :: "nat \<Rightarrow> 'c"
  hb_next :: nat
  hb_pins :: "nat \<Rightarrow> nat"

definition host_payload_max :: nat where "host_payload_max = 65536"
definition host_invalid :: string where "host_invalid = ''host event invalid''"
definition capacity_min :: nat where "capacity_min = 16"
definition capacity_max :: nat where "capacity_max = 4096"

definition hub_new :: "'c \<Rightarrow> audit_state option \<Rightarrow> nat \<Rightarrow> 'c hub" where
  "hub_new unused audit capacity =
     \<lparr>hb_capacity = max capacity_min (min capacity capacity_max), hb_audit = audit, hb_subjects = Map.empty,
      hb_slots = Map.empty, hb_chans = (\<lambda>_. unused), hb_next = 0, hb_pins = (\<lambda>_. 0)\<rparr>"

definition hub_register :: "string \<Rightarrow> string \<Rightarrow> 'c hub \<Rightarrow> 'c hub" where
  "hub_register i sub h = h\<lparr>hb_subjects := (hb_subjects h)(i \<mapsto> sub)\<rparr>"

text \<open>\<open>subscribe\<close> in its three sections: the subject if there is none, the slot if there is none, the receiver.\<close>

definition subscribe_subject :: "string \<Rightarrow> string \<Rightarrow> 'c hub \<Rightarrow> 'c hub" where
  "subscribe_subject i sub h = (if hb_subjects h i = None then hub_register i sub h else h)"

definition hub_slot :: "'c broadcast \<Rightarrow> string \<Rightarrow> 'c hub \<Rightarrow> nat \<times> 'c hub" where
  "hub_slot B i h =
     (case hb_slots h i of
        Some ch \<Rightarrow> (ch, h\<lparr>hb_pins := (hb_pins h)(ch := hb_pins h ch + 1)\<rparr>)
      | None \<Rightarrow> let ch = hb_next h in
          (ch, h\<lparr>hb_slots := (hb_slots h)(i \<mapsto> ch), hb_chans := (hb_chans h)(ch := bc_new B (hb_capacity h)),
                 hb_next := ch + 1, hb_pins := (hb_pins h)(ch := 1)\<rparr>))"

definition drop_sender :: "'c broadcast \<Rightarrow> nat \<Rightarrow> 'c hub \<Rightarrow> 'c hub" where
  "drop_sender B ch h =
     (if hb_pins h ch = 0 \<and> ch \<notin> ran (hb_slots h)
      then h\<lparr>hb_chans := (hb_chans h)(ch := bc_shut B (hb_chans h ch))\<rparr> else h)"

definition subscribe_attach :: "'c broadcast \<Rightarrow> nat \<Rightarrow> 'c hub \<Rightarrow> nat \<times> 'c hub" where
  "subscribe_attach B ch h =
     (case bc_subscribe B (hb_chans h ch) of (r, c) \<Rightarrow>
        (r, drop_sender B ch (h\<lparr>hb_chans := (hb_chans h)(ch := c), hb_pins := (hb_pins h)(ch := hb_pins h ch - 1)\<rparr>)))"

definition hub_subscribe :: "'c broadcast \<Rightarrow> string \<Rightarrow> string \<Rightarrow> 'c hub \<Rightarrow> (nat \<times> nat) \<times> 'c hub" where
  "hub_subscribe B sub i h =
     (case hub_slot B i (subscribe_subject i sub h) of (ch, h1) \<Rightarrow>
      case subscribe_attach B ch h1 of (r, h2) \<Rightarrow> ((ch, r), h2))"

definition remove_slot :: "'c broadcast \<Rightarrow> string \<Rightarrow> 'c hub \<Rightarrow> 'c hub" where
  "remove_slot B i h =
     (case hb_slots h i of None \<Rightarrow> h
      | Some ch \<Rightarrow> drop_sender B ch (h\<lparr>hb_slots := (hb_slots h)(i := None)\<rparr>))"

definition remove_subject :: "string \<Rightarrow> 'c hub \<Rightarrow> 'c hub" where
  "remove_subject i h = h\<lparr>hb_subjects := (hb_subjects h)(i := None)\<rparr>"

definition hub_close :: "'c broadcast \<Rightarrow> string \<Rightarrow> 'c hub \<Rightarrow> 'c hub" where
  "hub_close B i h = remove_subject i (remove_slot B i h)"

text \<open>The end of \<open>emit\<close> and of \<open>publish_host\<close>, under the lock of the slots.\<close>

definition hub_diffuse :: "'c broadcast \<Rightarrow> string \<Rightarrow> session_event \<Rightarrow> 'c hub \<Rightarrow> 'c hub" where
  "hub_diffuse B i e h =
     (case hb_slots h i of None \<Rightarrow> h
      | Some ch \<Rightarrow>
          if bc_receiver_count B (hb_chans h ch) = 0 then remove_slot B i h
          else h\<lparr>hb_chans := (hb_chans h)(ch := bc_send B e (hb_chans h ch))\<rparr>)"

definition hub_audit_event :: "calendar \<Rightarrow> int \<Rightarrow> lib_event \<Rightarrow> 'c hub \<Rightarrow> 'c hub" where
  "hub_audit_event cal now e h =
     (case (hb_audit h, ev_kind e) of
        (Some audit, Ev_Script r) \<Rightarrow>
          (case sr_error r of None \<Rightarrow> h
           | Some err \<Rightarrow>
               (case hb_subjects h (ev_session e) of None \<Rightarrow> h
                | Some sub \<Rightarrow> h\<lparr>hb_audit := Some (audit_record (cal_holds cal) now sub
                      (Script_Failed (ev_session e) (ev_at_millis e) err) audit)\<rparr>))
      | _ \<Rightarrow> h)"

definition hub_emit :: "'c broadcast \<Rightarrow> calendar \<Rightarrow> int \<Rightarrow> lib_event \<Rightarrow> 'c hub \<Rightarrow> 'c hub" where
  "hub_emit B cal now e h =
     hub_diffuse B (ev_session e) (session_event_of cal (now div 1000000) e) (hub_audit_event cal now e h)"

text \<open>\<open>to_text\<close> is \<open>serde_json::to_string\<close>.\<close>

definition host_event ::
    "(json \<Rightarrow> string option) \<Rightarrow> calendar \<Rightarrow> int \<Rightarrow> string \<Rightarrow> string \<Rightarrow> json \<Rightarrow> lymaille_error + session_event" where
  "host_event to_text cal now i kind payload =
     (case to_text payload of
        None \<Rightarrow> Inl (Lym_InvalidDefinition host_invalid)
      | Some shape \<Rightarrow>
          if kind = [] \<or> host_payload_max < length shape then Inl (Lym_InvalidDefinition host_invalid)
          else Inr \<lparr>se_session = i, se_at = cal_rfc3339 cal (now div 1000000), se_kind = Host_Event kind payload\<rparr>)"

definition publish_host ::
    "'c broadcast \<Rightarrow> (json \<Rightarrow> string option) \<Rightarrow> calendar \<Rightarrow> int \<Rightarrow> string \<Rightarrow> string \<Rightarrow> json \<Rightarrow> 'c hub \<Rightarrow>
       (lymaille_error + unit) \<times> 'c hub" where
  "publish_host B to_text cal now i kind payload h =
     (case host_event to_text cal now i kind payload of
        Inl e \<Rightarrow> (Inl e, h)
      | Inr e \<Rightarrow> (Inr (), hub_diffuse B i e h))"

definition hub_recv :: "'c broadcast \<Rightarrow> nat \<Rightarrow> nat \<Rightarrow> 'c hub \<Rightarrow> recv_outcome option \<times> 'c hub" where
  "hub_recv B ch r h =
     (case bc_recv B r (hb_chans h ch) of (out, c) \<Rightarrow> (out, h\<lparr>hb_chans := (hb_chans h)(ch := c)\<rparr>))"

definition drop_subscription :: "'c broadcast \<Rightarrow> nat \<Rightarrow> nat \<Rightarrow> 'c hub \<Rightarrow> 'c hub" where
  "drop_subscription B ch r h = h\<lparr>hb_chans := (hb_chans h)(ch := bc_drop B r (hb_chans h ch))\<rparr>"

section \<open>The stream of a subscriber\<close>

text \<open>
  What a turn of the stream gets from \<open>tokio::time::timeout\<close>, and the events it makes of it. The
  serializers are parameters that may refuse.
\<close>

datatype stream_input = Elapsed | Input recv_outcome

datatype sse_event = Keepalive | Sse (sse_id: u64) (sse_name: string) (sse_data: string)

record sse_lib =
  sl_value :: "session_event \<Rightarrow> json option"
  sl_text :: "json \<Rightarrow> string option"

definition serialization_error_body :: "sse_lib \<Rightarrow> string" where
  "serialization_error_body L =
     (let display = lymaille_error_text (Lym_Serialization ''session event serialization failed'');
          code = (case split_once CHR '':'' display of Some (code, _) \<Rightarrow> code | None \<Rightarrow> display) in
      case sl_text L (JObject [(''code'', JString code)]) of Some s \<Rightarrow> s | None \<Rightarrow> [])"

definition serialization_error_event :: "sse_lib \<Rightarrow> u64 \<Rightarrow> sse_event" where
  "serialization_error_event L n = Sse n ''error'' (serialization_error_body L)"

definition encode_event :: "sse_lib \<Rightarrow> session_event \<Rightarrow> u64 \<Rightarrow> sse_event" where
  "encode_event L e n =
     (case sl_value L e of
        None \<Rightarrow> serialization_error_event L n
      | Some v \<Rightarrow>
          let name = (case Option.bind (Option.bind (json_get v ''kind'') (\<lambda>k. json_get k ''type'')) as_str of
                        Some s \<Rightarrow> s | None \<Rightarrow> ''error'') in
          (case sl_text L v of Some s \<Rightarrow> Sse n name s | None \<Rightarrow> serialization_error_event L n))"

definition lagged_event :: "sse_lib \<Rightarrow> nat \<Rightarrow> u64 \<Rightarrow> sse_event" where
  "lagged_event L missed n =
     (case sl_text L (JObject [(''missed'', JNumber (Int_Num (int missed)))]) of
        Some s \<Rightarrow> Sse n ''lagged'' s | None \<Rightarrow> serialization_error_event L n)"

definition next_event_id :: "u64 \<Rightarrow> u64" where
  "next_event_id counter = (if counter = - 1 then counter else counter + 1)"

fun event_stream :: "sse_lib \<Rightarrow> u64 \<Rightarrow> stream_input list \<Rightarrow> sse_event list" where
  "event_stream L counter [] = []"
| "event_stream L counter (Elapsed # ins) = Keepalive # event_stream L counter ins"
| "event_stream L counter (Input (Rv_Event e) # ins) =
     encode_event L e (next_event_id counter) # event_stream L (next_event_id counter) ins"
| "event_stream L counter (Input (Rv_Lagged missed) # ins) =
     lagged_event L missed (next_event_id counter) # event_stream L (next_event_id counter) ins"
| "event_stream L counter (Input Rv_Closed # ins) = []"

section \<open>Delivery\<close>

text \<open>
  The documented behaviour of a broadcast channel, on a view of it: the values sent, of which at
  least the last \<open>cv_cap\<close> are kept, and the position of each receiver. A receiver gets the values
  after its subscription in order; one that was overtaken is told how many values it lost and goes
  on with the oldest kept; it ends when the senders are gone and it has read everything.
\<close>

record chan_view =
  cv_log :: "session_event list"
  cv_cap :: nat
  cv_pos :: "nat \<Rightarrow> nat option"
  cv_open :: bool

definition cv_kept :: "chan_view \<Rightarrow> nat" where
  "cv_kept v = length (cv_log v) - cv_cap v"

definition recv_view :: "nat \<Rightarrow> chan_view \<Rightarrow> recv_outcome option \<times> chan_view" where
  "recv_view r v =
     (case cv_pos v r of None \<Rightarrow> (None, v)
      | Some p \<Rightarrow>
          if p < cv_kept v then (Some (Rv_Lagged (cv_kept v - p)), v\<lparr>cv_pos := (cv_pos v)(r \<mapsto> cv_kept v)\<rparr>)
          else if p < length (cv_log v) then (Some (Rv_Event (cv_log v ! p)), v\<lparr>cv_pos := (cv_pos v)(r \<mapsto> p + 1)\<rparr>)
          else (if cv_open v then None else Some Rv_Closed, v))"

definition broadcast_laws :: "'c broadcast \<Rightarrow> ('c \<Rightarrow> chan_view) \<Rightarrow> bool" where
  "broadcast_laws B view \<longleftrightarrow>
     (\<forall>n. cv_log (view (bc_new B n)) = [] \<and> n \<le> cv_cap (view (bc_new B n)) \<and>
        cv_pos (view (bc_new B n)) = Map.empty \<and> cv_open (view (bc_new B n))) \<and>
     (\<forall>c. cv_pos (view c) (fst (bc_subscribe B c)) = None \<and>
        view (snd (bc_subscribe B c)) = (view c)\<lparr>cv_pos := (cv_pos (view c))(fst (bc_subscribe B c) \<mapsto> length (cv_log (view c)))\<rparr>) \<and>
     (\<forall>e c. cv_pos (view c) \<noteq> Map.empty \<longrightarrow> view (bc_send B e c) = (view c)\<lparr>cv_log := cv_log (view c) @ [e]\<rparr>) \<and>
     (\<forall>c. bc_receiver_count B c = 0 \<longleftrightarrow> cv_pos (view c) = Map.empty) \<and>
     (\<forall>r c. fst (bc_recv B r c) = fst (recv_view r (view c)) \<and> view (snd (bc_recv B r c)) = snd (recv_view r (view c))) \<and>
     (\<forall>r c. view (bc_drop B r c) = (view c)\<lparr>cv_pos := (cv_pos (view c))(r := None)\<rparr>) \<and>
     (\<forall>c. view (bc_shut B c) = (view c)\<lparr>cv_open := False\<rparr>)"

text \<open>The calls on a hub, each at the grain of its locks, from any threads; \<open>recv\<close> and the attachment answer.\<close>

datatype hub_call =
    Call_Register string string
  | Call_Subject string string
  | Call_Slot string
  | Call_Attach nat
  | Call_Remove_Slot string
  | Call_Remove_Subject string
  | Call_Emit int lib_event
  | Call_Publish int string string json
  | Call_Recv nat nat
  | Call_Drop nat nat

record hub_env =
  he_text :: "json \<Rightarrow> string option"
  he_calendar :: calendar

fun hub_do :: "'c broadcast \<Rightarrow> hub_env \<Rightarrow> hub_call \<Rightarrow> 'c hub \<Rightarrow> recv_outcome option \<times> 'c hub" where
  "hub_do B E (Call_Register i sub) h = (None, hub_register i sub h)"
| "hub_do B E (Call_Subject i sub) h = (None, subscribe_subject i sub h)"
| "hub_do B E (Call_Slot i) h = (None, snd (hub_slot B i h))"
| "hub_do B E (Call_Attach ch) h = (None, snd (subscribe_attach B ch h))"
| "hub_do B E (Call_Remove_Slot i) h = (None, remove_slot B i h)"
| "hub_do B E (Call_Remove_Subject i) h = (None, remove_subject i h)"
| "hub_do B E (Call_Emit now e) h = (None, hub_emit B (he_calendar E) now e h)"
| "hub_do B E (Call_Publish now i kind payload) h =
     (None, snd (publish_host B (he_text E) (he_calendar E) now i kind payload h))"
| "hub_do B E (Call_Recv ch r) h = hub_recv B ch r h"
| "hub_do B E (Call_Drop ch r) h = (None, drop_subscription B ch r h)"

fun hub_run :: "'c broadcast \<Rightarrow> hub_env \<Rightarrow> hub_call list \<Rightarrow> 'c hub \<Rightarrow> (hub_call \<times> recv_outcome option) list \<times> 'c hub" where
  "hub_run B E [] h = ([], h)"
| "hub_run B E (c # cs) h =
     (case hub_do B E c h of (out, h1) \<Rightarrow>
      case hub_run B E cs h1 of (outs, h2) \<Rightarrow> ((c, out) # outs, h2))"

text \<open>The events a call has for a session, and what a receiver read.\<close>

fun diffused :: "hub_env \<Rightarrow> string \<Rightarrow> hub_call \<Rightarrow> session_event list" where
  "diffused E i (Call_Emit now e) =
     (if ev_session e = i then [session_event_of (he_calendar E) (now div 1000000) e] else [])"
| "diffused E i (Call_Publish now j kind payload) =
     (if j = i then case host_event (he_text E) (he_calendar E) now i kind payload of Inr e \<Rightarrow> [e] | Inl _ \<Rightarrow> [] else [])"
| "diffused E i _ = []"

definition read_by :: "nat \<Rightarrow> nat \<Rightarrow> (hub_call \<times> recv_outcome option) list \<Rightarrow> recv_outcome list" where
  "read_by ch r outs = List.map_filter (\<lambda>(c, out). if c = Call_Recv ch r then out else None) outs"

text \<open>
  What a receiver read accounts for the events in order: each is read, or counted by a notice of
  loss. The result is the events that are still to come.
\<close>

fun accounts :: "session_event list \<Rightarrow> recv_outcome list \<Rightarrow> session_event list option" where
  "accounts evs [] = Some evs"
| "accounts evs (Rv_Lagged n # outs) = (if 0 < n \<and> n \<le> length evs then accounts (drop n evs) outs else None)"
| "accounts (e # evs) (Rv_Event e' # outs) = (if e' = e then accounts evs outs else None)"
| "accounts _ _ = None"

definition hub_wf :: "('c \<Rightarrow> chan_view) \<Rightarrow> 'c hub \<Rightarrow> bool" where
  "hub_wf view h \<longleftrightarrow>
     (\<forall>i ch. hb_slots h i = Some ch \<longrightarrow> ch < hb_next h \<and> cv_open (view (hb_chans h ch))) \<and>
     (\<forall>i j ch. hb_slots h i = Some ch \<longrightarrow> hb_slots h j = Some ch \<longrightarrow> i = j)"

text \<open>
  A subscriber is attached at a position of the channel of its session; \<open>evs\<close> are the events since
  some instant, of which \<open>outs\<close> were read.
\<close>

definition following :: "('c \<Rightarrow> chan_view) \<Rightarrow> string \<Rightarrow> nat \<Rightarrow> nat \<Rightarrow> session_event list \<Rightarrow> recv_outcome list \<Rightarrow> 'c hub \<Rightarrow> bool" where
  "following view i ch r evs outs h \<longleftrightarrow> hub_wf view h \<and> hb_slots h i = Some ch \<and>
     (\<exists>p. cv_pos (view (hb_chans h ch)) r = Some p \<and> p \<le> length (cv_log (view (hb_chans h ch))) \<and>
        accounts evs outs = Some (drop p (cv_log (view (hb_chans h ch)))))"

lemma accounts_append: "accounts evs outs = Some rest \<Longrightarrow> accounts (evs @ later) outs = Some (rest @ later)"
  by (induction evs outs rule: accounts.induct) (auto split: if_splits)

lemma accounts_read: "accounts evs outs = Some rest \<Longrightarrow> accounts evs (outs @ later) = accounts rest later"
  by (induction evs outs rule: accounts.induct) (auto split: if_splits)

lemmas law_unfold = broadcast_laws_def

lemma laws_new: "broadcast_laws B view \<Longrightarrow> cv_open (view (bc_new B n))"
  by (simp add: law_unfold)

lemma laws_subscribe: "broadcast_laws B view \<Longrightarrow> bc_subscribe B c = (r, c') \<Longrightarrow>
    cv_pos (view c) r = None \<and> view c' = (view c)\<lparr>cv_pos := (cv_pos (view c))(r \<mapsto> length (cv_log (view c)))\<rparr>"
  unfolding law_unfold by (metis fst_conv snd_conv)

lemma laws_send: "broadcast_laws B view \<Longrightarrow> cv_pos (view c) r = Some p \<Longrightarrow>
    view (bc_send B e c) = (view c)\<lparr>cv_log := cv_log (view c) @ [e]\<rparr>"
  unfolding law_unfold by (metis option.distinct(1))

lemma laws_count: "broadcast_laws B view \<Longrightarrow> cv_pos (view c) r = Some p \<Longrightarrow> bc_receiver_count B c \<noteq> 0"
  unfolding law_unfold by (metis option.distinct(1))

lemma drop_sender_frame:
  "hb_slots (drop_sender B ch h) = hb_slots h" "hb_next (drop_sender B ch h) = hb_next h"
  "hb_slots h i = Some ch' \<Longrightarrow> hb_chans (drop_sender B ch h) ch' = hb_chans h ch'"
  by (auto simp: drop_sender_def ran_def)

lemma hub_wf_frame:
  assumes "hub_wf view h" "hb_next h \<le> hb_next h'" "hb_slots h' \<subseteq>\<^sub>m hb_slots h"
    "\<And>i ch. hb_slots h' i = Some ch \<Longrightarrow> cv_open (view (hb_chans h' ch)) = cv_open (view (hb_chans h ch))"
  shows "hub_wf view h'"
  using assms unfolding hub_wf_def map_le_def by (metis domI order_less_le_trans)

lemma wf_remove_slot: "hub_wf view h \<Longrightarrow> hub_wf view (remove_slot B i h)"
  by (cases "hb_slots h i")
    (auto simp: remove_slot_def drop_sender_frame map_le_def dom_def drop_sender_def ran_def intro!: hub_wf_frame [of view h] split: if_splits)

lemma wf_hub_slot:
  assumes "broadcast_laws B view" "hub_wf view h"
  shows "hub_wf view (snd (hub_slot B i h))"
  using assms laws_new [OF assms(1)]
  by (auto simp: hub_slot_def hub_wf_def Let_def split: option.splits if_splits) (metis less_irrefl less_SucI)+

lemma wf_attach:
  assumes "broadcast_laws B view" "hub_wf view h"
  shows "hub_wf view (snd (subscribe_attach B ch h))"
proof -
  obtain r c where s: "bc_subscribe B (hb_chans h ch) = (r, c)" by fastforce
  show ?thesis
    using laws_subscribe [OF assms(1) s]
    by (auto simp: subscribe_attach_def s drop_sender_def map_le_def ran_def intro!: hub_wf_frame [OF assms(2)] split: if_splits)
qed

lemma laws_recv: "broadcast_laws B view \<Longrightarrow> bc_recv B r c = (out, c') \<Longrightarrow>
    out = fst (recv_view r (view c)) \<and> view c' = snd (recv_view r (view c))"
  unfolding law_unfold by (metis fst_conv snd_conv)

lemma laws_drop: "broadcast_laws B view \<Longrightarrow>
    view (bc_drop B r c) = (view c)\<lparr>cv_pos := (cv_pos (view c))(r := None)\<rparr>"
  by (simp add: law_unfold)

lemma wf_diffuse:
  assumes "broadcast_laws B view" "hub_wf view h"
  shows "hub_wf view (hub_diffuse B i e h)"
proof (cases "hb_slots h i")
  case (Some ch)
  show ?thesis
  proof (cases "bc_receiver_count B (hb_chans h ch) = 0")
    case False
    then have "view (bc_send B e (hb_chans h ch)) = (view (hb_chans h ch))\<lparr>cv_log := cv_log (view (hb_chans h ch)) @ [e]\<rparr>"
      using assms(1) by (simp add: law_unfold del: neq0_conv)
    then show ?thesis using Some False by (auto simp: hub_diffuse_def intro!: hub_wf_frame [OF assms(2)] split: if_splits)
  qed (simp add: Some hub_diffuse_def wf_remove_slot [OF assms(2)])
qed (simp add: hub_diffuse_def assms(2))

lemma recv_view_open: "cv_open (snd (recv_view r v)) = cv_open v"
  by (simp add: recv_view_def split: option.split)

lemma wf_recv:
  assumes "broadcast_laws B view" "hub_wf view h"
  shows "hub_wf view (snd (hub_recv B ch r h))"
proof -
  obtain out c where r: "bc_recv B r (hb_chans h ch) = (out, c)" by fastforce
  show ?thesis
    using laws_recv [OF assms(1) r]
    by (auto simp: hub_recv_def r recv_view_open intro!: hub_wf_frame [OF assms(2)] split: if_splits)
qed

lemma audit_event_frame [simp]:
  "hb_slots (hub_audit_event cal now e h) = hb_slots h" "hb_next (hub_audit_event cal now e h) = hb_next h"
  "hb_chans (hub_audit_event cal now e h) = hb_chans h"
  by (auto simp: hub_audit_event_def split: option.split event_kind.split)

lemma wf_audit: "hub_wf view (hub_audit_event cal now e h) = hub_wf view h"
  by (simp add: hub_wf_def)

lemma wf_subjects:
  "hub_wf view (hub_register i sub h) = hub_wf view h" "hub_wf view (remove_subject i h) = hub_wf view h"
  by (simp_all add: hub_wf_def hub_register_def remove_subject_def)

lemma wf_drop: "broadcast_laws B view \<Longrightarrow> hub_wf view h \<Longrightarrow> hub_wf view (drop_subscription B ch r h)"
  by (auto simp: drop_subscription_def laws_drop intro!: hub_wf_frame [of view h] split: if_splits)

lemma hub_do_wf:
  assumes "broadcast_laws B view" "hub_wf view h"
  shows "hub_wf view (snd (hub_do B E c h))"
  using assms
  by (cases c)
    (auto simp: wf_subjects wf_audit subscribe_subject_def hub_emit_def publish_host_def
        intro: wf_hub_slot wf_attach wf_remove_slot wf_diffuse wf_recv wf_drop split: sum.split)

lemma hub_run_wf: "broadcast_laws B view \<Longrightarrow> hub_wf view h \<Longrightarrow> hub_wf view (snd (hub_run B E cs h))"
proof (induction cs arbitrary: h)
  case (Cons c cs)
  show ?case
    using Cons.IH [OF Cons.prems(1) hub_do_wf [OF Cons.prems, of E c]] by (simp add: case_prod_beta')
qed simp

lemma hub_new_wf: "hub_wf view (hub_new u audit n)"
  by (simp add: hub_wf_def hub_new_def)

text \<open>One call: the events it adds are appended to the channel, what \<open>r\<close> reads advances its position.\<close>

lemma following_frame:
  assumes "following view i ch r evs outs h" "hub_wf view h'" "hb_slots h' i = Some ch"
    "cv_log (view (hb_chans h' ch)) = cv_log (view (hb_chans h ch)) @ new"
    "cv_pos (view (hb_chans h' ch)) r = cv_pos (view (hb_chans h ch)) r"
  shows "following view i ch r (evs @ new) outs h'"
  using assms accounts_append unfolding following_def by fastforce

lemma hub_slot_other:
  assumes "hub_wf view h" "hb_slots h i = Some ch"
  shows "hb_slots (snd (hub_slot B j h)) i = Some ch \<and> hb_chans (snd (hub_slot B j h)) ch = hb_chans h ch"
  using assms by (cases "hb_slots h j") (auto simp: hub_slot_def hub_wf_def Let_def)

lemma remove_slot_other:
  assumes "hb_slots h i = Some ch" "j \<noteq> i" "hub_wf view h"
  shows "hb_slots (remove_slot B j h) i = Some ch \<and> hb_chans (remove_slot B j h) ch = hb_chans h ch"
  using assms
  by (cases "hb_slots h j") (auto simp: remove_slot_def drop_sender_frame drop_sender_def ran_def hub_wf_def)

lemma diffuse_following:
  assumes laws: "broadcast_laws B view" and f: "following view i ch r evs outs h"
  shows "following view i ch r (evs @ (if j = i then [e] else [])) outs (hub_diffuse B j e h)"
proof -
  obtain p where p: "cv_pos (view (hb_chans h ch)) r = Some p" and slot: "hb_slots h i = Some ch" and wf: "hub_wf view h"
    using f unfolding following_def by blast
  note wf' = wf_diffuse [OF laws wf, of j e]
  show ?thesis
  proof (cases "j = i")
    case True
    then have "hub_diffuse B j e h = h\<lparr>hb_chans := (hb_chans h)(ch := bc_send B e (hb_chans h ch))\<rparr>"
      using laws_count [OF laws p] by (simp add: hub_diffuse_def slot)
    then show ?thesis
      using True laws_send [OF laws p, of e] slot wf' by (intro following_frame [OF f]) simp_all
  next
    case False
    show ?thesis
    proof (cases "hb_slots h j")
      case (Some ch')
      have "ch' \<noteq> ch" using wf Some slot False by (auto simp: hub_wf_def)
      then have "hb_slots (hub_diffuse B j e h) i = Some ch \<and> hb_chans (hub_diffuse B j e h) ch = hb_chans h ch"
        using remove_slot_other [OF slot False wf] slot by (auto simp: hub_diffuse_def Some)
      then show ?thesis using wf' False by (intro following_frame [OF f]) simp_all
    qed (use f False in \<open>simp add: hub_diffuse_def\<close>)
  qed
qed

lemma attach_following:
  assumes laws: "broadcast_laws B view" and f: "following view i ch r evs outs h"
  shows "following view i ch r evs outs (snd (subscribe_attach B ch' h))"
proof -
  obtain r' c where s: "bc_subscribe B (hb_chans h ch') = (r', c)" by fastforce
  have slot: "hb_slots h i = Some ch" and pos: "cv_pos (view (hb_chans h ch)) r \<noteq> None" and wf: "hub_wf view h"
    using f unfolding following_def by auto
  have "following view i ch r (evs @ []) outs (snd (subscribe_attach B ch' h))"
    using laws_subscribe [OF laws s] slot pos wf_attach [OF laws wf, of ch']
    by (intro following_frame [OF f]) (auto simp: subscribe_attach_def s drop_sender_frame)
  then show ?thesis by simp
qed

lemma recv_view_accounts:
  assumes "cv_pos v r = Some p" "p \<le> length (cv_log v)" "cv_open v"
  shows "\<exists>p'. cv_pos (snd (recv_view r v)) r = Some p' \<and> p' \<le> length (cv_log v) \<and> cv_log (snd (recv_view r v)) = cv_log v \<and>
    accounts (drop p (cv_log v)) (option_list (fst (recv_view r v))) = Some (drop p' (cv_log v))"
proof (cases "p < cv_kept v")
  case True
  then have "drop (cv_kept v - p) (drop p (cv_log v)) = drop (cv_kept v) (cv_log v)" by simp
  then show ?thesis using assms True by (simp add: recv_view_def option_list_def cv_kept_def del: drop_drop) arith
next
  case False
  then show ?thesis
    using assms by (cases "p = length (cv_log v)") (auto simp: recv_view_def option_list_def Cons_nth_drop_Suc [symmetric])
qed

lemma recv_following:
  assumes laws: "broadcast_laws B view" and f: "following view i ch r evs outs h" and run: "hub_recv B ch' r' h = (out, h')"
  shows "following view i ch r evs (outs @ (if ch' = ch \<and> r' = r then option_list out else [])) h'"
proof -
  obtain out' c where rc: "bc_recv B r' (hb_chans h ch') = (out', c)" by fastforce
  note law = laws_recv [OF laws rc]
  have out: "out = out'" and h': "h' = h\<lparr>hb_chans := (hb_chans h)(ch' := c)\<rparr>" using run by (simp_all add: hub_recv_def rc)
  obtain p where p: "cv_pos (view (hb_chans h ch)) r = Some p" "p \<le> length (cv_log (view (hb_chans h ch)))"
      and acc: "accounts evs outs = Some (drop p (cv_log (view (hb_chans h ch))))"
      and slot: "hb_slots h i = Some ch" and wf: "hub_wf view h"
    using f unfolding following_def by blast
  have wf': "hub_wf view h'" using wf_recv [OF laws wf, of ch' r'] run by simp
  show ?thesis
  proof (cases "ch' = ch \<and> r' = r")
    case True
    have opn: "cv_open (view (hb_chans h ch))" using wf slot by (simp add: hub_wf_def)
    let ?v = "view (hb_chans h ch)"
    have v: "view (hb_chans h' ch) = snd (recv_view r ?v)" "out = fst (recv_view r ?v)" "hb_slots h' i = Some ch"
      using law True out h' slot by simp_all
    obtain p' where "cv_pos (snd (recv_view r ?v)) r = Some p'" "p' \<le> length (cv_log ?v)" "cv_log (snd (recv_view r ?v)) = cv_log ?v"
        "accounts (drop p (cv_log ?v)) (option_list out) = Some (drop p' (cv_log ?v))"
      using recv_view_accounts [OF p opn] v(2) by blast
    then show ?thesis using True v wf' accounts_read [OF acc, of "option_list out"] unfolding following_def by auto
  next
    case False
    have "following view i ch r (evs @ []) outs h'"
      using slot wf' False law by (intro following_frame [OF f]) (auto simp: h' recv_view_def split: option.splits if_splits)
    then show ?thesis using False by auto
  qed
qed

lemma drop_following:
  assumes laws: "broadcast_laws B view" and f: "following view i ch r evs outs h" and other: "(ch', r') \<noteq> (ch, r)"
  shows "following view i ch r evs outs (drop_subscription B ch' r' h)"
proof -
  have "following view i ch r (evs @ []) outs (drop_subscription B ch' r' h)"
    using f wf_drop [OF laws, of h ch' r'] laws_drop [OF laws] other
    by (intro following_frame [OF f]) (auto simp: drop_subscription_def following_def)
  then show ?thesis by simp
qed

lemma frame_following:
  assumes "following view i ch r evs outs h" "hub_wf view h'" "hb_slots h' i = Some ch" "hb_chans h' ch = hb_chans h ch"
  shows "following view i ch r evs outs h'"
  using following_frame [OF assms(1,2,3), of "[]"] assms(4) by simp

lemma hub_do_following:
  assumes laws: "broadcast_laws B view" and f: "following view i ch r evs outs h" and run: "hub_do B E c h = (out, h')"
    and c: "c \<noteq> Call_Remove_Slot i" "c \<noteq> Call_Drop ch r"
  shows "following view i ch r (evs @ diffused E i c) (outs @ (if c = Call_Recv ch r then option_list out else [])) h'"
proof -
  have slot: "hb_slots h i = Some ch" and wf: "hub_wf view h" using f unfolding following_def by auto
  have audit: "following view i ch r evs outs (hub_audit_event cal now e h)" for cal now e
    by (rule frame_following [OF f]) (simp_all add: wf wf_audit slot)
  have wf': "hub_wf view h'" using hub_do_wf [OF laws wf, of E c] run by simp
  show ?thesis
  proof (cases c)
    case (Call_Slot j)
    then show ?thesis
      using run wf' hub_slot_other [OF wf slot, where B = B and j = j] by (auto intro: frame_following [OF f])
  next
    case (Call_Attach ch')
    then show ?thesis using run attach_following [OF laws f, of ch'] by auto
  next
    case (Call_Remove_Slot j)
    then show ?thesis
      using run wf' c remove_slot_other [OF slot _ wf, where B = B and j = j] by (auto intro: frame_following [OF f])
  next
    case (Call_Emit now e)
    then show ?thesis
      using run diffuse_following [OF laws audit [of "he_calendar E" now e], of "ev_session e"]
      by (auto simp: hub_emit_def split: if_splits)
  next
    case (Call_Publish now j kind payload)
    then show ?thesis
      using run diffuse_following [OF laws f, of j] f
      by (cases "host_event (he_text E) (he_calendar E) now j kind payload") (auto simp: publish_host_def split: if_splits)
  next
    case (Call_Recv ch' r')
    then show ?thesis using recv_following [OF laws f, of ch' r' out h'] run by auto
  next
    case (Call_Drop ch' r')
    then show ?thesis using run drop_following [OF laws f, of ch' r'] c by auto
  qed (use run wf' slot in \<open>auto simp: subscribe_subject_def hub_register_def remove_subject_def intro!: frame_following [OF f]\<close>)
qed

lemma read_by_simps: "read_by ch r [] = []"
  "read_by ch r ((c, out) # outs) = (if c = Call_Recv ch r then option_list out else []) @ read_by ch r outs"
  by (auto simp: read_by_def map_filter_def option_list_def split: option.splits)

lemma hub_run_following:
  assumes laws: "broadcast_laws B view"
  shows "following view i ch r evs outs h \<Longrightarrow> hub_run B E calls h = (res, h') \<Longrightarrow>
    Call_Remove_Slot i \<notin> set calls \<Longrightarrow> Call_Drop ch r \<notin> set calls \<Longrightarrow>
    following view i ch r (evs @ concat (map (diffused E i) calls)) (outs @ read_by ch r res) h'"
proof (induction calls arbitrary: h evs outs res)
  case (Cons c calls)
  obtain out h1 res1 where s: "hub_do B E c h = (out, h1)" "hub_run B E calls h1 = (res1, h')" "res = (c, out) # res1"
    using Cons.prems(2) by (auto split: prod.splits)
  show ?case
    using Cons.IH [OF hub_do_following [OF laws Cons.prems(1) s(1)] s(2)] Cons.prems(3,4) s(3)
    by (cases "c = Call_Recv ch r") (auto simp: read_by_simps)
qed (simp add: read_by_simps)

lemma subscribe_following:
  assumes laws: "broadcast_laws B view" and wf: "hub_wf view h" and run: "hub_subscribe B sub i h = ((ch, r), h')"
  shows "following view i ch r [] [] h'"
proof -
  obtain h1 where s1: "hub_slot B i (subscribe_subject i sub h) = (ch, h1)" and s2: "subscribe_attach B ch h1 = (r, h')"
    using run by (auto simp: hub_subscribe_def split: prod.splits)
  have wf0: "hub_wf view (subscribe_subject i sub h)" using wf by (simp add: subscribe_subject_def wf_subjects)
  have wf1: "hub_wf view h1" using wf_hub_slot [OF laws wf0, of i] s1 by simp
  have slot: "hb_slots h1 i = Some ch" using s1 by (auto simp: hub_slot_def Let_def split: option.splits)
  obtain r' c where s: "bc_subscribe B (hb_chans h1 ch) = (r', c)" by fastforce
  have "hub_wf view h'" using wf_attach [OF laws wf1, of ch] s2 by simp
  then show ?thesis
    using laws_subscribe [OF laws s] s2 slot by (auto simp: subscribe_attach_def s following_def drop_sender_frame)
qed


text \<open>
  Asubscriber can be born closed: an event that arrives between the two locked sections of
  \<open>subscribe\<close>, for a session that had no subscriber, finds a channel without receivers and removes the
  slot; the receiver is then attached to a channel that is closed as soon as the clone is dropped.
\<close>

theorem subscription_lost:
  assumes laws: "broadcast_laws B view" and free: "hb_slots h i = None" and mine: "ev_session e = i" and wf: "hub_wf view h"
    and slot: "hub_slot B i h = (ch, h1)" and emit: "h2 = hub_emit B cal now e h1" and attach: "subscribe_attach B ch h2 = (r, h3)"
  shows "fst (hub_recv B ch r h3) = Some Rv_Closed \<and> hb_slots h3 i = None"
proof -
  let ?new = "bc_new B (hb_capacity h)"
  let ?h = "hub_audit_event cal now e h1"
  have fresh: "hb_next h \<notin> ran (hb_slots h)" using wf by (auto simp: hub_wf_def ran_def)
  have s: "hb_slots h1 i = Some ch" "hb_chans h1 ch = ?new" "hb_pins h1 ch = 1" "hb_slots h1 = (hb_slots h)(i \<mapsto> ch)" "ch = hb_next h"
    using slot free by (auto simp: hub_slot_def Let_def)
  have pins: "hb_pins ?h = hb_pins h1" by (auto simp: hub_audit_event_def split: option.split event_kind.split)
  have empty: "bc_receiver_count B ?new = 0" using laws by (simp add: law_unfold)
  have h2: "h2 = ?h\<lparr>hb_slots := (hb_slots h1)(i := None)\<rparr>"
    using emit s pins empty mine by (simp add: hub_emit_def hub_diffuse_def remove_slot_def drop_sender_def)
  obtain c where c: "bc_subscribe B ?new = (r, c)"
    using attach s h2 by (auto simp: subscribe_attach_def split: prod.splits)
  have gone: "ch \<notin> ran ((hb_slots h1)(i := None))" using s free fresh by (auto simp: ran_def)
  have h3: "hb_chans h3 ch = bc_shut B c" "hb_slots h3 i = None"
    using attach c s h2 pins gone by (auto simp: subscribe_attach_def drop_sender_def)
  have "recv_view r (view (bc_shut B c)) = (Some Rv_Closed, view (bc_shut B c))"
    using laws laws_subscribe [OF laws c] by (simp add: law_unfold recv_view_def cv_kept_def)
  then show ?thesis using h3 laws_recv [OF laws, of r "bc_shut B c"] by (auto simp: hub_recv_def split: prod.split)
qed

section \<open>Numbering of the stream\<close>

definition numbered :: "sse_event list \<Rightarrow> u64 list" where
  "numbered evs = map sse_id (filter (\<lambda>e. e \<noteq> Keepalive) evs)"

lemma sse_shape: "\<exists>name d. encode_event L e n = Sse n name d" "\<exists>name d. lagged_event L m n = Sse n name d"
  by (auto simp: encode_event_def lagged_event_def serialization_error_event_def Let_def split: option.split)

lemma numbered_simps:
  "numbered [] = []" "numbered (Keepalive # evs) = numbered evs"
  "numbered (encode_event L e n # evs) = n # numbered evs" "numbered (lagged_event L m n # evs) = n # numbered evs"
  using sse_shape(1) [of L e n] sse_shape(2) [of L m n] by (auto simp: numbered_def)

text \<open>
  The identifiers of a stream are 1, 2, 3 without gap or repetition; keepalives have none.
\<close>

lemma event_stream_numbered:
  "unat counter + length ins < 2 ^ 64 \<Longrightarrow>
    (let ids = numbered (event_stream L counter ins) in map unat ids = [Suc (unat counter) ..< Suc (unat counter + length ids)] \<and> length ids \<le> length ins)"
proof (induction L counter ins rule: event_stream.induct)
  case (3 L counter e ins)
  have n: "unat (next_event_id counter) = Suc (unat counter)"
    using "3.prems" by (auto simp: next_event_id_def unat_word_ariths unat_minus_one_word)
  show ?case using 3 n by (auto simp: numbered_simps Let_def upt_conv_Cons)
next
  case (4 L counter m ins)
  have n: "unat (next_event_id counter) = Suc (unat counter)"
    using "4.prems" by (auto simp: next_event_id_def unat_word_ariths unat_minus_one_word)
  show ?case using 4 n by (auto simp: numbered_simps Let_def upt_conv_Cons)
qed (auto simp: numbered_simps Let_def)

text \<open>An event is sent under the name of its kind, with its JSON.\<close>

lemma encode_event_name:
  "sl_value L e = Some (event_json e) \<Longrightarrow> sl_text L (event_json e) = Some s \<Longrightarrow>
    encode_event L e n = Sse n (event_name (se_kind e)) s"
  by (simp add: encode_event_def event_json_def kind_json_def json_get_def)

section \<open>Examples\<close>

text \<open>A channel with its positions in a list, and a run of two subscribers with different sessions.\<close>

record demo_chan =
  dc_log :: "session_event list"
  dc_cap :: nat
  dc_pos :: "(nat \<times> nat) list"
  dc_open :: bool

definition demo_view :: "demo_chan \<Rightarrow> chan_view" where
  "demo_view c = \<lparr>cv_log = dc_log c, cv_cap = dc_cap c, cv_pos = map_of (dc_pos c), cv_open = dc_open c\<rparr>"

definition demo_fresh :: "(nat \<times> nat) list \<Rightarrow> nat" where
  "demo_fresh ps = foldr (\<lambda>(r, _) m. max (Suc r) m) ps 0"

definition demo_recv :: "nat \<Rightarrow> demo_chan \<Rightarrow> recv_outcome option \<times> demo_chan" where
  "demo_recv r c =
     (case map_of (dc_pos c) r of None \<Rightarrow> (None, c)
      | Some p \<Rightarrow>
          let k = length (dc_log c) - dc_cap c in
          if p < k then (Some (Rv_Lagged (k - p)), c\<lparr>dc_pos := (r, k) # dc_pos c\<rparr>)
          else if p < length (dc_log c) then (Some (Rv_Event (dc_log c ! p)), c\<lparr>dc_pos := (r, p + 1) # dc_pos c\<rparr>)
          else (if dc_open c then None else Some Rv_Closed, c))"

definition demo_broadcast :: "demo_chan broadcast" where
  "demo_broadcast =
     \<lparr>bc_new = (\<lambda>n. \<lparr>dc_log = [], dc_cap = n, dc_pos = [], dc_open = True\<rparr>),
      bc_subscribe = (\<lambda>c. let r = demo_fresh (dc_pos c) in (r, c\<lparr>dc_pos := (r, length (dc_log c)) # dc_pos c\<rparr>)),
      bc_send = (\<lambda>e c. c\<lparr>dc_log := dc_log c @ [e]\<rparr>),
      bc_receiver_count = (\<lambda>c. length (dc_pos c)),
      bc_recv = demo_recv,
      bc_drop = (\<lambda>r c. c\<lparr>dc_pos := filter (\<lambda>(r', _). r' \<noteq> r) (dc_pos c)\<rparr>),
      bc_shut = (\<lambda>c. c\<lparr>dc_open := False\<rparr>)\<rparr>"

lemma demo_fresh_None: "map_of ps (demo_fresh ps) = None"
proof -
  have "r < demo_fresh ps" if "(r, p) \<in> set ps" for r p
    using that by (induction ps) (auto simp: demo_fresh_def)
  then show ?thesis by (force simp: map_of_eq_None_iff)
qed

lemma map_of_drop: "map_of (filter (\<lambda>(r', _). r' \<noteq> r) ps) = (map_of ps)(r := None)"
  by (induction ps) (auto simp: fun_eq_iff)

lemma demo_laws: "broadcast_laws demo_broadcast demo_view"
  unfolding law_unfold
proof (intro conjI allI impI)
  fix r c
  show "fst (bc_recv demo_broadcast r c) = fst (recv_view r (demo_view c))"
    "demo_view (snd (bc_recv demo_broadcast r c)) = snd (recv_view r (demo_view c))"
    by (auto simp: demo_broadcast_def demo_recv_def recv_view_def demo_view_def cv_kept_def Let_def split: option.split)
qed (auto simp: demo_broadcast_def demo_view_def demo_fresh_None map_of_drop Let_def)

definition demo_hub_env :: hub_env where
  "demo_hub_env = \<lparr>he_text = (\<lambda>_. Some ''{}''), he_calendar = \<lparr>cal_holds = (\<lambda>_. True), cal_rfc3339 = (\<lambda>_. ''t'')\<rparr>\<rparr>"

definition demo_event :: "string \<Rightarrow> u64 \<Rightarrow> lib_event" where
  "demo_event i turn = \<lparr>ev_session = i, ev_at_millis = 0, ev_kind = Ev_TurnStarted turn\<rparr>"

definition demo_hub :: "demo_chan hub" where
  "demo_hub = hub_new (bc_new demo_broadcast 0) None 256"

definition demo_calls :: "hub_call list" where
  "demo_calls = [Call_Emit 0 (demo_event ''a'' 1), Call_Slot ''b'', Call_Emit 0 (demo_event ''b'' 2), Call_Recv 0 0,
     Call_Publish 0 ''a'' ''show'' JNull]"

lemma demo_hub_run:
  "\<exists>h2 e1 e2. hub_run demo_broadcast demo_hub_env demo_calls
      (snd (hub_subscribe demo_broadcast ''ana'' ''a'' demo_hub)) = ([(Call_Emit 0 (demo_event ''a'' 1), None), (Call_Slot ''b'', None),
       (Call_Emit 0 (demo_event ''b'' 2), None), (Call_Recv 0 0, Some (Rv_Event e1)), (Call_Publish 0 ''a'' ''show'' JNull, None)], h2) \<and>
    concat (map (diffused demo_hub_env ''a'') demo_calls) = [e1, e2]"
  by (simp add: demo_calls_def demo_hub_def hub_new_def hub_subscribe_def subscribe_subject_def hub_register_def hub_slot_def
      subscribe_attach_def drop_sender_def demo_broadcast_def demo_fresh_def hub_emit_def hub_audit_event_def demo_event_def
      hub_diffuse_def hub_recv_def demo_recv_def publish_host_def host_event_def demo_hub_env_def host_payload_max_def Let_def
      capacity_min_def capacity_max_def remove_slot_def)


theorem subscription_lost_witness:
  "\<exists>ch h1 r h3. hub_slot demo_broadcast ''a'' demo_hub = (ch, h1) \<and>
     subscribe_attach demo_broadcast ch (hub_emit demo_broadcast (he_calendar demo_hub_env) 0 (demo_event ''a'' 1) h1) = (r, h3) \<and>
     fst (hub_recv demo_broadcast ch r h3) = Some Rv_Closed"
proof -
  obtain ch h1 where s: "hub_slot demo_broadcast ''a'' demo_hub = (ch, h1)" by fastforce
  let ?h2 = "hub_emit demo_broadcast (he_calendar demo_hub_env) 0 (demo_event ''a'' 1) h1"
  obtain r h3 where a: "subscribe_attach demo_broadcast ch ?h2 = (r, h3)" by fastforce
  have "hb_slots demo_hub ''a'' = None" "ev_session (demo_event ''a'' 1) = ''a''" "hub_wf demo_view demo_hub"
    by (simp_all add: demo_hub_def hub_new_wf) (simp_all add: hub_new_def demo_event_def)
  from subscription_lost [OF demo_laws this s refl a] show ?thesis using s a by blast
qed

end
