(* ===== verification/Session_Assemble.thy ===== *)
theory Session_Assemble
  imports Session_Hub
begin

text \<open>
  The assembly of an interactive session, done again at each turn and at each resumption
  (\<open>lymaille/interactive/assemble.rs\<close>): agent, profile and provider of the caller, toolsets and context
  of the session, the MCP roles and their connectors, the engine, and the state, fresh or restored.
  What the library does with them (flattening of a type, resolution of a profile and of a context,
  connection of an MCP module, assembly and build of an engine, restoration) is the record
  \<open>assemble_lib\<close>.
\<close>

section \<open>Parameters and results\<close>

datatype agent_kind = Agent_Work | Agent_Config | Agent_Sub | Agent_Other

datatype session_kind = Session_Work | Session_Config | Session_Other

datatype 'cx connector_auth = Host_Auth "'cx host_mcp_auth" | Table_Auth sea_mcp_auth

record 'cx mcp_connector =
  cn_url :: string
  cn_request_secs :: nat
  cn_connect_secs :: nat
  cn_auth :: "'cx connector_auth option"

text \<open>A module granted to the engine under a name: the resources of a subject, or an MCP client.\<close>

datatype 'cx granted_module = Resources_Of string | Mcp_Client "'cx mcp_connector"

record provenance =
  pr_fingerprint :: string
  pr_versions :: "(string \<times> string) list"

record ('ts, 'ct, 'cx, 'ag, 'pf, 'pv, 'rp, 'st, 'rc, 'gr, 'en) assemble_lib =
  al_roles :: "'ts \<Rightarrow> (string \<times> bool) list"
  al_type_names :: "'ts \<Rightarrow> string list"
  al_flatten :: "(string \<Rightarrow> 'ct option) \<Rightarrow> 'ct \<Rightarrow> (string list \<times> string list) option"
  al_cx_resolve :: "'cx \<Rightarrow> toolsets_error + 'rc"
  al_cx_empty :: "toolsets_error + 'cx"
  al_agent_kind :: "'ag \<Rightarrow> agent_kind"
  al_agent_modules :: "'ag \<Rightarrow> string list"
  al_agent_toolsets :: "'ag \<Rightarrow> string list"
  al_fingerprint :: "'ag \<Rightarrow> string"
  al_resolve_profile :: "(string \<Rightarrow> (sql_world, agents_error, 'pf option) act) \<Rightarrow> string \<Rightarrow> (sql_world, agents_error, 'rp) act"
  al_provider :: "'rp \<Rightarrow> string"
  al_provider_auth :: "'pv \<Rightarrow> string option"
  al_provider_address :: "'pv \<Rightarrow> string"
  al_module_name :: "string \<Rightarrow> bool"
  al_mcp_module :: "string \<Rightarrow> 'cx mcp_connector \<Rightarrow> string \<Rightarrow> (sql_world, string, unit) act"
  al_assemble :: "'ts list \<Rightarrow> (string \<times> 'cx granted_module) list \<Rightarrow> 'rc \<Rightarrow> string list \<times> 'gr"
  al_build :: "'gr \<Rightarrow> bool \<Rightarrow> string + 'en"
  al_restore :: "(string \<Rightarrow> (sql_world, session_error, 'st option) act) \<Rightarrow> string \<Rightarrow> 'en \<Rightarrow> provenance \<Rightarrow>
     (sql_world, session_error, 'st \<times> string list) act"
  al_state_context :: "'st \<Rightarrow> string"
  al_state_kind :: "'st \<Rightarrow> session_kind"
  al_new_state :: "string \<Rightarrow> string \<times> string \<Rightarrow> string \<Rightarrow> (string \<times> string) list \<Rightarrow> u64 \<Rightarrow> session_kind \<Rightarrow> 'st"
  al_agents_text :: "agents_error \<Rightarrow> string"
  al_session_text :: "session_error \<Rightarrow> string"

text \<open>\<open>AssembleDeps\<close>, with the record types of the stores it opens on the connection.\<close>

record ('ts, 'sk, 'ct, 'cx, 'ag, 'pf, 'pv, 'rp, 'st, 'rc, 'gr, 'en) assemble_deps =
  ad_texts :: db_texts
  ad_toolsets :: "('ts, 'sk) toolset_lib"
  ad_contexts :: "('ct, 'cx) context_lib"
  ad_agents :: "('ag, 'pf, 'pv) agent_lib"
  ad_sessions :: "'st session_lib"
  ad_lib :: "('ts, 'ct, 'cx, 'ag, 'pf, 'pv, 'rp, 'st, 'rc, 'gr, 'en) assemble_lib"
  ad_host :: "(sql_row, 'cx) lymaille_host option"
  ad_secrets :: "string \<Rightarrow> lymaille_error + string"
  ad_clock_ms :: "sql_world \<Rightarrow> u64"

record ('ag, 'rp) resolved =
  rv_definition :: 'ag
  rv_profile :: 'rp
  rv_address :: string
  rv_api_key :: "string option"

record ('ts, 'cx) scope =
  sc_context_name :: string
  sc_context :: "'cx option"
  sc_bindings :: "(string \<times> string) list"
  sc_toolsets :: "'ts list"
  sc_required :: "string list"
  sc_optional :: "string list"

record ('ag, 'rp, 'cx, 'st, 'en) assembled_session =
  as_resolved :: "('ag, 'rp) resolved"
  as_granted :: "(string \<times> 'cx granted_module) list"
  as_secrets :: "string list"
  as_state :: 'st
  as_notices :: "string list"
  as_versions :: "(string \<times> string) list"
  as_engine :: 'en

section \<open>Errors\<close>

fun from_agents :: "(agents_error \<Rightarrow> string) \<Rightarrow> agents_error \<Rightarrow> lymaille_error" where
  "from_agents tx (Ag_Store s) = Lym_Store s"
| "from_agents tx other = Lym_InvalidDefinition (tx other)"

fun from_session :: "(session_error \<Rightarrow> string) \<Rightarrow> session_error \<Rightarrow> lymaille_error" where
  "from_session tx (Ses_Store s) = Lym_Store s"
| "from_session tx other = Lym_Run (tx other) False"

section \<open>The steps\<close>

text \<open>A \<open>BTreeSet\<close> of strings is its sorted list, a \<open>BTreeMap\<close> the list sorted by keys; the last value of a key stays.\<close>

definition btree_map :: "(string \<times> 'a) list \<Rightarrow> (string \<times> 'a) list" where
  "btree_map kvs = map (\<lambda>k. (k, the (map_of (rev kvs) k))) (sort (remdups (map fst kvs)))"

definition string_set :: "string list \<Rightarrow> string list" where
  "string_set xs = sort (remdups xs)"

definition resolve_inference ::
    "('ts, 'sk, 'ct, 'cx, 'ag, 'pf, 'pv, 'rp, 'st, 'rc, 'gr, 'en) assemble_deps \<Rightarrow> caller_principal \<Rightarrow> string \<Rightarrow> string list \<Rightarrow>
       (sql_world, lymaille_error, ('ag, 'rp) resolved) act" where
  "resolve_inference D caller agent_id reserved =
     (let L = ad_lib D; ag_err = from_agents (al_agents_text L) in
      and_then (map_err ag_err (get_agent (ad_texts D) (ad_agents D) (cp_subject caller) agent_id)) (\<lambda>found. case found of
        None \<Rightarrow> fail_with (Lym_NotFound (''unknown agent: '' @ agent_id))
      | Some definition1 \<Rightarrow>
      and_then (lift_result (check_grants caller (al_agent_modules L definition1) reserved)) (\<lambda>_.
      and_then (map_err ag_err (al_resolve_profile L (get_profile (ad_texts D) (ad_agents D))
          (ag_profile (ad_agents D) definition1))) (\<lambda>profile.
      and_then (map_err ag_err (get_provider (ad_texts D) (ad_agents D) (al_provider L profile))) (\<lambda>provider.
        case provider of
          None \<Rightarrow> fail_with (Lym_Config ''inference provider is unknown'')
        | Some p \<Rightarrow>
      and_then (lift_result (transpose_map (ad_secrets D) (al_provider_auth L p))) (\<lambda>api_key.
      return_ok \<lparr>rv_definition = definition1, rv_profile = profile, rv_address = al_provider_address L p,
        rv_api_key = api_key\<rparr>))))))"

text \<open>\<open>toolset_context_roles\<close>: the entries of \<open>roles\<close> with a text.\<close>

definition toolset_context_roles :: "('cx \<Rightarrow> json option) \<Rightarrow> 'cx \<Rightarrow> (string \<times> string) list" where
  "toolset_context_roles to_json cx =
     (case Option.bind (to_json cx) (\<lambda>v. json_get v ''roles'') of
        Some (JObject entries) \<Rightarrow>
          List.map_filter (\<lambda>(role, v). map_option (\<lambda>s. (role, s)) (as_str v)) entries
      | _ \<Rightarrow> [])"

definition role_requirements ::
    "('ts, 'sk, 'ct, 'cx, 'ag, 'pf, 'pv, 'rp, 'st, 'rc, 'gr, 'en) assemble_deps \<Rightarrow> 'ts list \<Rightarrow>
       (sql_world, lymaille_error, string list \<times> string list) act" where
  "role_requirements D toolsets =
     (let L = ad_lib D;
          declared = concat (map (al_roles L) toolsets);
          type_names = string_set (concat (map (al_type_names L) toolsets)) in
      and_then (for_each type_names (\<lambda>name.
          and_then (map_err (from_toolsets (ad_toolsets D)) (get_type (ad_texts D) (ad_contexts D) name)) (\<lambda>t.
          return_ok (name, t)))) (\<lambda>found.
      let types = List.map_filter (\<lambda>(name, t). map_option (\<lambda>x. (name, x)) t) found;
          flat = List.map_filter (\<lambda>name. Option.bind (map_of types name) (al_flatten L (map_of types)))
            (concat (map (al_type_names L) toolsets));
          required = string_set (map fst (filter snd declared) @ concat (map fst flat));
          optional = string_set (map fst (filter (\<lambda>d. \<not> snd d) declared) @ concat (map snd flat)) in
      return_ok (required, filter (\<lambda>role. role \<notin> set required) optional)))"

definition resolve_scope ::
    "('ts, 'sk, 'ct, 'cx, 'ag, 'pf, 'pv, 'rp, 'st, 'rc, 'gr, 'en) assemble_deps \<Rightarrow> string \<Rightarrow> 'ag \<Rightarrow> string \<Rightarrow>
       (sql_world, lymaille_error, ('ts, 'cx) scope) act" where
  "resolve_scope D sub definition1 session =
     (let L = ad_lib D; ts_err = from_toolsets (ad_toolsets D) in
      and_then (map_err (from_session (al_session_text L)) (session_load (ad_texts D) (ad_sessions D) sub session)) (\<lambda>state.
      let context_name = (case state of None \<Rightarrow> [] | Some st \<Rightarrow> al_state_context L st) in
      and_then (for_each (al_agent_toolsets L definition1) (\<lambda>name.
          and_then (map_err ts_err (get_active (ad_texts D) (ad_toolsets D) sub name)) (\<lambda>t. case t of
            None \<Rightarrow> fail_with (Lym_NotFound (''unknown toolset: '' @ name))
          | Some ts \<Rightarrow> return_ok ts))) (\<lambda>toolsets.
      and_then (if context_name = [] then return_ok None
                else map_err ts_err (get_context (ad_texts D) (ad_contexts D) (ad_host D) sub context_name)) (\<lambda>context.
      and_then (role_requirements D toolsets) (\<lambda>(required, optional).
      return_ok \<lparr>sc_context_name = context_name, sc_context = context,
        sc_bindings = (case context of None \<Rightarrow> [] | Some cx \<Rightarrow> toolset_context_roles (cx_to_json (ad_contexts D)) cx),
        sc_toolsets = toolsets, sc_required = required, sc_optional = optional\<rparr>)))))"

definition default_request_timeout :: nat where "default_request_timeout = 30"
definition default_connect_timeout :: nat where "default_connect_timeout = 10"

definition timeout_secs :: "int \<Rightarrow> nat" where
  "timeout_secs seconds = (if 0 \<le> seconds then nat seconds else default_request_timeout)"

text \<open>The connector of a binding; the token of the turn is in no other place than its authentication.\<close>

definition connector_for ::
    "('ts, 'sk, 'ct, 'cx, 'ag, 'pf, 'pv, 'rp, 'st, 'rc, 'gr, 'en) assemble_deps \<Rightarrow> caller_principal \<Rightarrow> string \<Rightarrow> string \<Rightarrow>
       string option \<Rightarrow> role_binding \<Rightarrow> lymaille_error + 'cx mcp_connector" where
  "connector_for D caller context_name role token binding =
     (case binding of
        Host_Binding grant \<Rightarrow>
          (case ad_host D of
             None \<Rightarrow> Inl (Lym_Config ''host binding without a host'')
           | Some host \<Rightarrow> Inr \<lparr>cn_url = mg_url grant, cn_request_secs = default_request_timeout,
                 cn_connect_secs = default_connect_timeout,
                 cn_auth = Some (Host_Auth \<lparr>hm_host = host, hm_subject = cp_subject caller,
                   hm_context = context_name, hm_role = role\<rparr>)\<rparr>)
      | Table_Binding model \<Rightarrow>
          (case build_auth model (ad_secrets D) token of
             Inl e \<Rightarrow> Inl e
           | Inr auth \<Rightarrow> Inr \<lparr>cn_url = ms_url model, cn_request_secs = timeout_secs (ms_request_timeout_secs model),
                 cn_connect_secs = timeout_secs (ms_connect_timeout_secs model), cn_auth = map_option Table_Auth auth\<rparr>))"

definition omitted_notice :: "string \<Rightarrow> string" where
  "omitted_notice role = ''role '' @ role @ '' omitted: mcp server unavailable''"

text \<open>One role: its binding, or a notice when it is optional and has none; then its connector and its module.\<close>

definition mount_role ::
    "('ts, 'sk, 'ct, 'cx, 'ag, 'pf, 'pv, 'rp, 'st, 'rc, 'gr, 'en) assemble_deps \<Rightarrow> caller_principal \<Rightarrow> ('ts, 'cx) scope \<Rightarrow> string \<Rightarrow>
       string option \<Rightarrow> string \<Rightarrow> (sql_world, lymaille_error, string + (string \<times> 'cx granted_module)) act" where
  "mount_role D caller scope session token role =
     and_then
       (\<lambda>w. case resolve_role (ad_texts D) (ad_host D) caller (sc_context_name scope) role (map_of (sc_bindings scope) role) w of
          (Inr binding, w1) \<Rightarrow> (Inr (Some binding), w1)
        | (Inl e, w1) \<Rightarrow> if role \<in> set (sc_required scope) then (Inl e, w1) else (Inr None, w1))
       (\<lambda>bound. case bound of
          None \<Rightarrow> return_ok (Inl (omitted_notice role))
        | Some binding \<Rightarrow>
            and_then (lift_result (connector_for D caller (sc_context_name scope) role token binding)) (\<lambda>connector.
            and_then (map_err Lym_Store (al_mcp_module (ad_lib D) role connector session)) (\<lambda>_.
            if al_module_name (ad_lib D) role then return_ok (Inr (role, Mcp_Client connector))
            else fail_with (Lym_InvalidDefinition (''invalid module name: '' @ role)))))"

fun lefts :: "('a + 'b) list \<Rightarrow> 'a list" where
  "lefts [] = []" | "lefts (Inl x # xs) = x # lefts xs" | "lefts (Inr _ # xs) = lefts xs"

fun rights :: "('a + 'b) list \<Rightarrow> 'b list" where
  "rights [] = []" | "rights (Inr y # xs) = y # rights xs" | "rights (Inl _ # xs) = rights xs"

definition mount_mcp_roles ::
    "('ts, 'sk, 'ct, 'cx, 'ag, 'pf, 'pv, 'rp, 'st, 'rc, 'gr, 'en) assemble_deps \<Rightarrow> caller_principal \<Rightarrow> session_kind \<Rightarrow> ('ts, 'cx) scope \<Rightarrow>
       string \<Rightarrow> string option \<Rightarrow> (sql_world, lymaille_error, (string \<times> 'cx granted_module) list \<times> string list) act" where
  "mount_mcp_roles D caller kind scope session token =
     (if kind = Session_Config then return_ok ([], [])
      else and_then (for_each (sc_required scope @ sc_optional scope) (mount_role D caller scope session token)) (\<lambda>ms.
        return_ok (rights ms, lefts ms)))"

definition base_modules ::
    "('ts, 'sk, 'ct, 'cx, 'ag, 'pf, 'pv, 'rp, 'st, 'rc, 'gr, 'en) assemble_deps \<Rightarrow> caller_principal \<Rightarrow>
       lymaille_error + (string \<times> 'cx granted_module) list" where
  "base_modules D caller =
     (if al_module_name (ad_lib D) ''resources'' then Inr [(''resources'', Resources_Of (cp_subject caller))]
      else Inl (Lym_InvalidDefinition ''invalid module name: resources''))"

definition configured_redactor :: "string option \<Rightarrow> string option \<Rightarrow> string list" where
  "configured_redactor api_key token = option_list api_key @ option_list token"

text \<open>
  \<open>al_assemble\<close> gives its failures and the grants; \<open>al_build\<close> builds the engine, with the registration of
  the configuration stores for a session of configuration.
\<close>

definition build_engine ::
    "('ts, 'sk, 'ct, 'cx, 'ag, 'pf, 'pv, 'rp, 'st, 'rc, 'gr, 'en) assemble_deps \<Rightarrow> session_kind \<Rightarrow> ('ts, 'cx) scope \<Rightarrow>
       (string \<times> 'cx granted_module) list \<Rightarrow> lymaille_error + 'en" where
  "build_engine D kind scope granted =
     (let L = ad_lib D;
          resolved = (case sc_context scope of
             Some cx \<Rightarrow> al_cx_resolve L cx
           | None \<Rightarrow> (case al_cx_empty L of Inl e \<Rightarrow> Inl e | Inr cx \<Rightarrow> al_cx_resolve L cx)) in
      case resolved of
        Inl e \<Rightarrow> Inl (from_toolsets (ad_toolsets D) e)
      | Inr rc \<Rightarrow>
          (case al_assemble L (sc_toolsets scope) granted rc of
             (first_failure # _, _) \<Rightarrow> Inl (Lym_InvalidDefinition (''toolset assembly failed: '' @ first_failure))
           | ([], grants) \<Rightarrow>
               (case al_build L grants (kind = Session_Config) of
                  Inl e \<Rightarrow> Inl (Lym_InvalidDefinition (''engine build failed: '' @ e))
                | Inr engine \<Rightarrow> Inr engine)))"

definition assemble_with ::
    "('ts, 'sk, 'ct, 'cx, 'ag, 'pf, 'pv, 'rp, 'st, 'rc, 'gr, 'en) assemble_deps \<Rightarrow> caller_principal \<Rightarrow> session_kind \<Rightarrow> string \<Rightarrow> string \<Rightarrow>
       string option \<Rightarrow> string list \<Rightarrow> (sql_world, lymaille_error, ('ag, 'rp, 'cx, 'st, 'en) assembled_session) act" where
  "assemble_with D caller kind agent_id session token reserved =
     (let L = ad_lib D; S = ad_sessions D; ses_err = from_session (al_session_text L);
          load = session_load (ad_texts D) S (cp_subject caller) in
      and_then (resolve_inference D caller agent_id reserved) (\<lambda>resolved.
      and_then (resolve_scope D (cp_subject caller) (rv_definition resolved) session) (\<lambda>scope.
      and_then (lift_result (base_modules D caller)) (\<lambda>base.
      and_then (mount_mcp_roles D caller kind scope session token) (\<lambda>(mcp, notices).
      and_then (lift_result (build_engine D kind scope (base @ mcp))) (\<lambda>engine.
      let versions = btree_map (map (\<lambda>ts. (ts_name (ad_toolsets D) ts, ts_version (ad_toolsets D) ts)) (sc_toolsets scope)) in
      and_then (map_err ses_err (load session)) (\<lambda>stored.
      and_then (case stored of
          Some _ \<Rightarrow> map_err ses_err (al_restore L load session engine
            \<lparr>pr_fingerprint = al_fingerprint L (rv_definition resolved), pr_versions = versions\<rparr>)
        | None \<Rightarrow> (\<lambda>w. (Inr (al_new_state L session
              (ag_id (ad_agents D) (rv_definition resolved), al_fingerprint L (rv_definition resolved))
              (sc_context_name scope) versions (ad_clock_ms D w) kind, []), w))) (\<lambda>(state, restore_notices).
      return_ok \<lparr>as_resolved = resolved, as_granted = base @ mcp,
        as_secrets = configured_redactor (rv_api_key resolved) token, as_state = state,
        as_notices = notices @ restore_notices, as_versions = versions, as_engine = engine\<rparr>))))))))"

definition assemble_session ::
    "('ts, 'sk, 'ct, 'cx, 'ag, 'pf, 'pv, 'rp, 'st, 'rc, 'gr, 'en) assemble_deps \<Rightarrow> caller_principal \<Rightarrow> session_kind \<Rightarrow> string \<Rightarrow> string \<Rightarrow>
       string option \<Rightarrow> (sql_world, lymaille_error, ('ag, 'rp, 'cx, 'st, 'en) assembled_session) act" where
  "assemble_session D caller kind agent_id session token =
     assemble_with D caller kind agent_id session token admin_only_modules"

section \<open>What a session may reach\<close>

lemma for_each_Inr_runs:
  "for_each xs f w = (Inr ys, w') \<Longrightarrow> list_all2 (\<lambda>x y. \<exists>w1 w2. f x w1 = (Inr y, w2)) xs ys"
proof (induction xs arbitrary: ys w)
  case (Cons x xs)
  then show ?case by (auto simp: act_inv)
qed (auto simp: return_ok_def)

lemma mount_role_Inr:
  assumes "mount_role D caller scope session token role w = (Inr (Inr (name, m)), w')"
  shows "name = role \<and> (\<exists>c b w1 w2. m = Mcp_Client c \<and> connector_for D caller (sc_context_name scope) role token b = Inr c \<and>
    resolve_role (ad_texts D) (ad_host D) caller (sc_context_name scope) role (map_of (sc_bindings scope) role) w1 = (Inr b, w2))"
proof -
  obtain b w1 where b: "resolve_role (ad_texts D) (ad_host D) caller (sc_context_name scope) role (map_of (sc_bindings scope) role) w = (Inr b, w1)"
    using assms
    by (cases "resolve_role (ad_texts D) (ad_host D) caller (sc_context_name scope) role (map_of (sc_bindings scope) role) w";
        cases "fst (resolve_role (ad_texts D) (ad_host D) caller (sc_context_name scope) role (map_of (sc_bindings scope) role) w)")
      (auto simp: mount_role_def and_then_def return_ok_def split: if_splits)
  then show ?thesis
    using assms by (auto simp: mount_role_def act_inv split: if_splits)
qed

lemma set_rights: "x \<in> set (rights ys) \<longleftrightarrow> Inr x \<in> set ys"
  by (induction ys rule: rights.induct) auto

lemma mount_mcp_roles_granted:
  assumes "mount_mcp_roles D caller kind scope session token w = (Inr (granted, notices), w')" and "(name, m) \<in> set granted"
  shows "kind \<noteq> Session_Config \<and> (\<exists>w1 w2. mount_role D caller scope session token name w1 = (Inr (Inr (name, m)), w2))"
proof -
  have kind: "kind \<noteq> Session_Config" using assms by (auto simp: mount_mcp_roles_def return_ok_def)
  obtain ms where ms: "for_each (sc_required scope @ sc_optional scope) (mount_role D caller scope session token) w = (Inr ms, w')"
      and g: "granted = rights ms"
    using assms(1) kind by (auto simp: mount_mcp_roles_def act_inv)
  have "Inr (name, m) \<in> set ms" using assms(2) by (simp add: g set_rights)
  then obtain i where "i < length ms" "ms ! i = Inr (name, m)" by (auto simp: in_set_conv_nth)
  then obtain role w1 w2 where "mount_role D caller scope session token role w1 = (Inr (Inr (name, m)), w2)"
    using list_all2_nthD2 [OF for_each_Inr_runs [OF ms]] by metis
  then show ?thesis using kind mount_role_Inr by metis
qed


text \<open>
  A required role is mounted or the session fails; an optional one is mounted or announced as omitted,
  exactly once.
\<close>

lemma mount_role_Inl:
  assumes "mount_role D caller scope session token role w = (Inr (Inl notice), w')"
  shows "role \<notin> set (sc_required scope) \<and> notice = omitted_notice role"
  using assms
  by (cases "resolve_role (ad_texts D) (ad_host D) caller (sc_context_name scope) role (map_of (sc_bindings scope) role) w";
      cases "fst (resolve_role (ad_texts D) (ad_host D) caller (sc_context_name scope) role (map_of (sc_bindings scope) role) w)")
    (auto simp: mount_role_def act_inv split: if_splits)

lemma set_lefts: "x \<in> set (lefts ys) \<longleftrightarrow> Inl x \<in> set ys"
  by (induction ys rule: lefts.induct) auto

theorem roles_accounted:
  assumes run: "mount_mcp_roles D caller kind scope session token w = (Inr (granted, notices), w')" and "kind \<noteq> Session_Config"
    and role: "role \<in> set (sc_required scope @ sc_optional scope)"
  shows "role \<in> fst ` set granted \<or> role \<notin> set (sc_required scope) \<and> omitted_notice role \<in> set notices"
proof -
  obtain ms where ms: "for_each (sc_required scope @ sc_optional scope) (mount_role D caller scope session token) w = (Inr ms, w')"
      and g: "granted = rights ms" "notices = lefts ms"
    using run assms(2) by (auto simp: mount_mcp_roles_def act_inv)
  note all = for_each_Inr_runs [OF ms]
  obtain i where i: "i < length (sc_required scope @ sc_optional scope)" "(sc_required scope @ sc_optional scope) ! i = role"
    using role by (metis in_set_conv_nth)
  obtain w1 w2 where r: "mount_role D caller scope session token role w1 = (Inr (ms ! i), w2)"
    using list_all2_nthD [OF all i(1)] i(2) by metis
  have mem: "ms ! i \<in> set ms" using i(1) list_all2_lengthD [OF all] by simp
  show ?thesis
  proof (cases "ms ! i")
    case (Inl notice)
    then have "mount_role D caller scope session token role w1 = (Inr (Inl notice), w2)" using r by simp
    from mount_role_Inl [OF this] show ?thesis using Inl mem g by (auto simp: set_lefts)
  next
    case (Inr nm)
    obtain n m where nm: "nm = (n, m)" by fastforce
    then have "n = role" using mount_role_Inr r Inr by metis
    then show ?thesis using mem g Inr nm by (force simp: set_rights)
  qed
qed

text \<open>
  A server that wants the token of the user refuses an assembly without one, even for an optional role:
  resumption, which has no token, is refused for every session with such a role.
\<close>

theorem forward_role_needs_token:
  assumes "resolve_role (ad_texts D) (ad_host D) caller (sc_context_name scope) role (map_of (sc_bindings scope) role) w =
      (Inr (Table_Binding m), w1)" and "ms_auth_mode m = ''forward''"
  shows "mount_role D caller scope session None role w = (Inl (Lym_Forbidden forward_needs_session), w1)"
  using assms
  by (simp add: mount_role_def connector_for_def build_auth_def auth_mode_def act_eval)

section \<open>Examples\<close>

text \<open>
  A catalog agent with one toolset, whose role \<open>find\<close> the context of the session binds to a server that
  everybody may use.
\<close>

definition demo_row :: "(string \<times> db_value) list \<Rightarrow> row" where
  "demo_row vs = set_columns vs null_row"

definition demo_session_rows :: "string \<Rightarrow> (string \<times> row) list" where
  "demo_session_rows mode =
     [(catalog_agents_table, demo_row [(''agent_id'', VText (Some ''G_dev'')), (''definition'', VJson (Some (JString ''dev'')))]),
      (profiles_table, demo_row [(''name'', VText (Some ''fast'')), (''profile'', VJson (Some (JString ''fast'')))]),
      (providers_table, demo_row [(''name'', VText (Some ''local'')), (''provider'', VJson (Some (JString ''local'')))]),
      (catalog_toolsets_table, demo_row [(''toolset_id'', VText (Some ''G_t'')), (''active'', VJson (Some (demo_toolset ''G_t'' ''1'')))]),
      (catalog_contexts_table, demo_row [(''name'', VText (Some ''G_ctx'')),
         (''context'', VJson (Some (JObject [(''roles'', JObject [(''find'', JString ''search'')])])))]),
      (mcp_servers_table, demo_row [(''name'', VText (Some ''search'')), (''url'', VText (Some ''http://s'')),
         (''auth_mode'', VText (Some mode)), (''allowed_groups'', VJson (Some (JArray [JString ''all'']))),
         (''request_timeout_secs'', VInt (Some 5)), (''connect_timeout_secs'', VInt (Some 2)), (''created_at'', VInt (Some 0))]),
      (sessions_table, demo_row [(''subject'', VText (Some ''bob'')), (''session_id'', VText (Some ''s'')), (''state'', VText (Some ''s''))])]"

definition demo_assemble_lib :: "(json, unit, json, json, json, json, json, string, unit, unit, unit) assemble_lib" where
  "demo_assemble_lib =
     \<lparr>al_roles = (\<lambda>_. [(''find'', True)]), al_type_names = (\<lambda>_. []), al_flatten = (\<lambda>_ _. None),
      al_cx_resolve = (\<lambda>_. Inr ()), al_cx_empty = Inr JNull, al_agent_kind = (\<lambda>_. Agent_Work),
      al_agent_modules = (\<lambda>_. []), al_agent_toolsets = (\<lambda>_. [''G_t'']), al_fingerprint = (\<lambda>_. ''f''),
      al_resolve_profile = (\<lambda>get name. and_then (get name) (\<lambda>p. case p of
         None \<Rightarrow> fail_with (Ag_Other ''no profile'') | Some q \<Rightarrow> return_ok q)),
      al_provider = (\<lambda>_. ''local''), al_provider_auth = (\<lambda>_. None), al_provider_address = (\<lambda>_. ''http://p''),
      al_module_name = (\<lambda>_. True), al_mcp_module = (\<lambda>_ _ _. return_ok ()), al_assemble = (\<lambda>_ _ _. ([], ())),
      al_build = (\<lambda>_ _. Inr ()), al_restore = (\<lambda>load i _ _. and_then (load i) (\<lambda>st. return_ok (the st, [''restored'']))),
      al_state_context = (\<lambda>_. ''G_ctx''), al_state_kind = (\<lambda>_. Session_Work),
      al_new_state = (\<lambda>i _ _ _ _ _. i), al_agents_text = (\<lambda>_. []), al_session_text = (\<lambda>_. [])\<rparr>"

definition demo_agent_lib :: "(json, json, json) agent_lib" where
  "demo_agent_lib = \<lparr>ag_of_json = Inr, ag_validate = (\<lambda>_. Inr ()), ag_id = (\<lambda>_. ''G_dev''), ag_kind = (\<lambda>_. None),
     ag_profile = (\<lambda>_. ''fast''), pf_of_json = Inr, pf_name = (\<lambda>_. ''fast''), pv_of_json = Inr, pv_name = (\<lambda>_. ''local''),
     pv_kind = (\<lambda>_. []), pv_level = (\<lambda>_. None)\<rparr>"

definition demo_assemble_deps ::
    "(json, unit, unit, json, json, json, json, json, string, unit, unit, unit) assemble_deps" where
  "demo_assemble_deps =
     \<lparr>ad_texts = demo_texts, ad_toolsets = demo_toolset_lib, ad_contexts = demo_roles_lib, ad_agents = demo_agent_lib,
      ad_sessions = demo_session_lib, ad_lib = demo_assemble_lib, ad_host = None, ad_secrets = (\<lambda>r. Inr r),
      ad_clock_ms = (\<lambda>_. 0)\<rparr>"

definition demo_bob :: caller_principal where
  "demo_bob = \<lparr>cp_user_id = 2, cp_subject = ''bob'', cp_is_admin = False\<rparr>"

definition granted_names :: "lymaille_error + ('ag, 'rp, 'cx, 'st, 'en) assembled_session \<Rightarrow> (string \<times> string) list" where
  "granted_names r = (case r of Inl _ \<Rightarrow> [] | Inr a \<Rightarrow> map (\<lambda>(n, m). (n, case m of Resources_Of sub \<Rightarrow> sub | Mcp_Client c \<Rightarrow> cn_url c)) (as_granted a))"

lemma demo_assembly:
  "granted_names (fst (assemble_session demo_assemble_deps demo_bob Session_Work ''G_dev'' ''s'' None
     (demo_world (demo_session_rows ''none'')))) = [(''resources'', ''bob''), (''find'', ''http://s'')]"
  by code_simp


text \<open>The same session with a server in the mode \<open>forward\<close>: without a token it is refused, with one it is assembled.\<close>

lemma demo_forward:
  "granted_names (fst (assemble_session demo_assemble_deps demo_bob Session_Work ''G_dev'' ''s'' None
     (demo_world (demo_session_rows ''forward'')))) = [] \<and>
   granted_names (fst (assemble_session demo_assemble_deps demo_bob Session_Work ''G_dev'' ''s'' (Some ''jwt'')
     (demo_world (demo_session_rows ''forward'')))) = [(''resources'', ''bob''), (''find'', ''http://s'')]"
  by (intro conjI; code_simp)

end
