(* ===== verification/Session_Manager.thy ===== *)
theory Session_Manager
  imports Session_Assemble
begin

text \<open>
  The manager of interactive sessions (\<open>lymaille/interactive/manager.rs\<close>): opening, sending, following,
  cancelling, resuming, closing and listing. A call reads the database (\<open>on_db\<close>) and changes the shared
  memory of the process in sections under a lock (\<open>on_mem\<close>); before each section other calls may have
  changed the memory, as other connections may have changed the tables before each statement. The
  memory is the table of open sessions, the gate of active turns (\<open>TurnGate\<close>, a parameter with the laws
  \<open>gate_laws\<close>) and the hub. The section on interleavings makes of the same locked sections a step
  relation over any number of calls and turns.
\<close>

section \<open>The memory of the process\<close>

datatype begin_error = Turn_Active | Begin_Failed session_error

record 'g turn_gate =
  tg_active :: "string \<Rightarrow> 'g \<Rightarrow> bool"
  tg_begin :: "string \<Rightarrow> 'g \<Rightarrow> begin_error + 'g"
  tg_end :: "string \<Rightarrow> 'g \<Rightarrow> 'g"

text \<open>
  \<open>Entry\<close> and \<open>Table\<close>: an entry is shared by the table and the turn that took it, so the table holds its
  address. A cancel handle is a number; \<open>mm_cancelled\<close> are those on which \<open>cancel\<close> was called.
\<close>

record session_entry =
  en_cancel :: "nat option"
  en_requested :: bool
  en_last_used :: u64

definition new_entry :: "u64 \<Rightarrow> session_entry" where
  "new_entry now = \<lparr>en_cancel = None, en_requested = False, en_last_used = now\<rparr>"

record ('g, 'c) memory =
  mm_by_id :: "(string \<times> string \<times> nat) list"
  mm_closed :: "string set"
  mm_entries :: "nat \<Rightarrow> session_entry"
  mm_next :: nat
  mm_gate :: 'g
  mm_hub :: "'c hub"
  mm_cancelled :: "nat set"

definition set_entry :: "nat \<Rightarrow> (session_entry \<Rightarrow> session_entry) \<Rightarrow> ('g, 'c) memory \<Rightarrow> ('g, 'c) memory" where
  "set_entry e f m = m\<lparr>mm_entries := (mm_entries m)(e := f (mm_entries m e))\<rparr>"

definition table_touch :: "string \<Rightarrow> string \<Rightarrow> u64 \<Rightarrow> ('g, 'c) memory \<Rightarrow> nat \<times> ('g, 'c) memory" where
  "table_touch sub i now m =
     (case map_of (mm_by_id m) i of
        Some (_, e) \<Rightarrow> (e, set_entry e (\<lambda>x. x\<lparr>en_last_used := now\<rparr>) m)
      | None \<Rightarrow> let e = mm_next m in
          (e, set_entry e (\<lambda>_. new_entry now) (m\<lparr>mm_by_id := (i, sub, e) # mm_by_id m, mm_next := e + 1\<rparr>)))"

definition table_count :: "string \<Rightarrow> ('g, 'c) memory \<Rightarrow> nat" where
  "table_count sub m = length (filter (\<lambda>(_, s, _). s = sub) (mm_by_id m))"

definition table_close :: "string \<Rightarrow> ('g, 'c) memory \<Rightarrow> ('g, 'c) memory" where
  "table_close i m = m\<lparr>mm_by_id := filter (\<lambda>(j, _). j \<noteq> i) (mm_by_id m), mm_closed := insert i (mm_closed m)\<rparr>"

definition table_is_closed :: "string \<Rightarrow> ('g, 'c) memory \<Rightarrow> bool" where
  "table_is_closed i m \<longleftrightarrow> i \<in> mm_closed m"

definition table_reopen :: "string \<Rightarrow> ('g, 'c) memory \<Rightarrow> ('g, 'c) memory" where
  "table_reopen i m = m\<lparr>mm_closed := mm_closed m - {i}\<rparr>"

definition sat_minus :: "'a::len word \<Rightarrow> 'a word \<Rightarrow> 'a word" where
  "sat_minus x y = (if y \<le> x then x - y else 0)"

definition idle_out :: "u64 \<Rightarrow> u64 \<Rightarrow> session_entry \<Rightarrow> bool" where
  "idle_out now ttl x \<longleftrightarrow> \<not> sat_minus now (en_last_used x) < ttl"

definition table_sweep :: "'g turn_gate \<Rightarrow> u64 \<Rightarrow> u64 \<Rightarrow> ('g, 'c) memory \<Rightarrow> ('g, 'c) memory" where
  "table_sweep G now ttl m =
     m\<lparr>mm_by_id := filter (\<lambda>(i, _, e). \<not> idle_out now ttl (mm_entries m e) \<or> tg_active G i (mm_gate m)) (mm_by_id m)\<rparr>"

definition manager_touch :: "'g turn_gate \<Rightarrow> u64 \<Rightarrow> u64 \<Rightarrow> string \<Rightarrow> string \<Rightarrow> ('g, 'c) memory \<Rightarrow> nat \<times> ('g, 'c) memory" where
  "manager_touch G ttl now sub i m = table_touch sub i now (table_sweep G now ttl m)"

text \<open>
  \<open>signal\<close> in its two sections: the entry is looked up in the table, then its handle is cancelled or,
  before the handle is published, the request is noted.
\<close>

definition find_entry :: "string \<Rightarrow> ('g, 'c) memory \<Rightarrow> nat option" where
  "find_entry i m = map_option snd (map_of (mm_by_id m) i)"

definition signal_entry :: "nat \<Rightarrow> ('g, 'c) memory \<Rightarrow> ('g, 'c) memory" where
  "signal_entry e m =
     (case en_cancel (mm_entries m e) of
        Some handle \<Rightarrow> m\<lparr>mm_cancelled := insert handle (mm_cancelled m)\<rparr>
      | None \<Rightarrow> set_entry e (\<lambda>x. x\<lparr>en_requested := True\<rparr>) m)"

definition publish_handle :: "nat \<Rightarrow> nat \<Rightarrow> ('g, 'c) memory \<Rightarrow> ('g, 'c) memory" where
  "publish_handle e handle = set_entry e (\<lambda>x. x\<lparr>en_cancel := Some handle\<rparr>)"

definition check_requested :: "nat \<Rightarrow> nat \<Rightarrow> ('g, 'c) memory \<Rightarrow> ('g, 'c) memory" where
  "check_requested e handle m =
     (if en_requested (mm_entries m e) then m\<lparr>mm_cancelled := insert handle (mm_cancelled m)\<rparr> else m)"

definition clear_handle :: "nat \<Rightarrow> ('g, 'c) memory \<Rightarrow> ('g, 'c) memory" where
  "clear_handle e = set_entry e (\<lambda>x. x\<lparr>en_cancel := None\<rparr>)"

definition clear_requested :: "nat \<Rightarrow> ('g, 'c) memory \<Rightarrow> ('g, 'c) memory" where
  "clear_requested e = set_entry e (\<lambda>x. x\<lparr>en_requested := False\<rparr>)"

definition gate_begin :: "'g turn_gate \<Rightarrow> string \<Rightarrow> ('g, 'c) memory \<Rightarrow> begin_error option \<times> ('g, 'c) memory" where
  "gate_begin G i m = (case tg_begin G i (mm_gate m) of Inl e \<Rightarrow> (Some e, m) | Inr g \<Rightarrow> (None, m\<lparr>mm_gate := g\<rparr>))"

definition gate_end :: "'g turn_gate \<Rightarrow> string \<Rightarrow> ('g, 'c) memory \<Rightarrow> ('g, 'c) memory" where
  "gate_end G i m = m\<lparr>mm_gate := tg_end G i (mm_gate m)\<rparr>"

definition on_hub :: "('c hub \<Rightarrow> 'a \<times> 'c hub) \<Rightarrow> ('g, 'c) memory \<Rightarrow> 'a \<times> ('g, 'c) memory" where
  "on_hub f m = (case f (mm_hub m) of (x, h) \<Rightarrow> (x, m\<lparr>mm_hub := h\<rparr>))"

section \<open>Calls\<close>

text \<open>The memory as a call sees it: before each of its sections other calls have acted.\<close>

record 'm shared =
  sh_mem :: 'm
  sh_others :: "('m \<Rightarrow> 'm) list"

definition sh_arrive :: "'m shared \<Rightarrow> 'm shared" where
  "sh_arrive s = (case sh_others s of [] \<Rightarrow> s | f # fs \<Rightarrow> \<lparr>sh_mem = f (sh_mem s), sh_others = fs\<rparr>)"

definition on_mem :: "('m \<Rightarrow> 'a \<times> 'm) \<Rightarrow> ('w \<times> 'm shared, 'e, 'a) act" where
  "on_mem f = (\<lambda>(w, s). let s1 = sh_arrive s in case f (sh_mem s1) of (x, m) \<Rightarrow> (Inr x, (w, s1\<lparr>sh_mem := m\<rparr>)))"

definition on_db :: "('w, 'e, 'a) act \<Rightarrow> ('w \<times> 'm shared, 'e, 'a) act" where
  "on_db m = (\<lambda>(w, s). case m w of (r, w1) \<Rightarrow> (r, (w1, s)))"

abbreviation mem_do :: "('m \<Rightarrow> 'm) \<Rightarrow> ('w \<times> 'm shared, 'e, unit) act" where
  "mem_do f \<equiv> on_mem (\<lambda>m. ((), f m))"

record ('ts, 'sk, 'ct, 'cx, 'ag, 'pf, 'pv, 'rp, 'st, 'rc, 'gr, 'en, 'g, 'c, 'su) manager =
  md_assemble :: "('ts, 'sk, 'ct, 'cx, 'ag, 'pf, 'pv, 'rp, 'st, 'rc, 'gr, 'en) assemble_deps"
  md_gate :: "'g turn_gate"
  md_broadcast :: "'c broadcast"
  md_max_open :: nat
  md_idle_ttl_ms :: u64
  md_resolve_start :: "'ct \<Rightarrow> (string \<Rightarrow> (sql_world, agents_error, 'ag option) act) \<Rightarrow> (sql_world, toolsets_error, 'ag option) act"
  md_type_kind :: "'ct \<Rightarrow> session_kind option"
  md_summary :: "'st \<Rightarrow> 'su"

definition default_max_open :: nat where "default_max_open = 8"
definition default_idle_ttl_ms :: u64 where "default_idle_ttl_ms = 1800000"

record session_handle =
  sh_id :: string
  sh_kind :: session_kind
  sh_agent_id :: string
  sh_context :: string
  sh_notices :: "string list"

definition session_not_found :: string where "session_not_found = ''session not found''"
definition context_not_found :: string where "context_not_found = ''context not found''"
definition agent_not_allowed :: string where
  "agent_not_allowed = ''agent not allowed for this context type''"
definition no_usable_type :: string where "no_usable_type = ''context has no usable type''"
definition agent_required :: string where
  "agent_required = ''agent required: the context type has no default agent''"

section \<open>Reading the database\<close>

definition manager_principal ::
    "('ts, 'sk, 'ct, 'cx, 'ag, 'pf, 'pv, 'rp, 'st, 'rc, 'gr, 'en) assemble_deps \<Rightarrow> string \<Rightarrow>
       (sql_world, lymaille_error, caller_principal) act" where
  "manager_principal D sub =
     map_err (\<lambda>e. if e = Lym_UnknownSubject then Lym_Forbidden ''no local account for this session subject'' else e)
       (resolve_caller (ad_texts D) sub)"

definition readable ::
    "('ts, 'sk, 'ct, 'cx, 'ag, 'pf, 'pv, 'rp, 'st, 'rc, 'gr, 'en) assemble_deps \<Rightarrow> string \<Rightarrow> string \<Rightarrow>
       (sql_world, lymaille_error, 'st) act" where
  "readable D sub i =
     and_then (map_err (from_session (al_session_text (ad_lib D))) (session_load (ad_texts D) (ad_sessions D) sub i)) (\<lambda>found.
       case found of None \<Rightarrow> fail_with (Lym_NotFound session_not_found) | Some st \<Rightarrow> return_ok st)"

definition host_context_exists ::
    "('ts, 'sk, 'ct, 'cx, 'ag, 'pf, 'pv, 'rp, 'st, 'rc, 'gr, 'en) assemble_deps \<Rightarrow> caller_principal \<Rightarrow> string \<Rightarrow>
       (sql_world, lymaille_error, unit) act" where
  "host_context_exists D caller context =
     and_then (case ad_host D of
         None \<Rightarrow> return_ok None
       | Some h \<Rightarrow> on_error (lh_resolve_context h context caller) (\<lambda>_. return_ok None)) (\<lambda>found.
       case found of None \<Rightarrow> fail_with (Lym_NotFound context_not_found) | Some _ \<Rightarrow> return_ok ())"

definition visible_context_type ::
    "('ts, 'sk, 'ct, 'cx, 'ag, 'pf, 'pv, 'rp, 'st, 'rc, 'gr, 'en) assemble_deps \<Rightarrow> caller_principal \<Rightarrow> id_kind \<Rightarrow> string \<Rightarrow>
       (sql_world, lymaille_error, string option) act" where
  "visible_context_type D caller kind context =
     and_then (map_err (store_error (ad_texts D)) (select (sql_first
         (if kind = Catalog_Id then catalog_contexts_table else user_contexts_table)
         (Col_Eq ''name'' (VText (Some context)) #
          (if kind = Private_Id then [Col_Eq ''owner_id'' (VInt (Some (cp_user_id caller)))] else []))))) (\<lambda>row.
       case row of None \<Rightarrow> fail_with (Lym_NotFound context_not_found)
       | Some r \<Rightarrow> return_ok (col_opt_text (r ''context_type'')))"

text \<open>The column \<open>allowed_agents\<close> is declared not null; what is not an array of texts allows nobody.\<close>

definition allowed_agents :: "json option \<Rightarrow> string list" where
  "allowed_agents v = (case Option.bind v as_array of None \<Rightarrow> [] | Some vs \<Rightarrow> List.map_filter as_str vs)"

definition usable_context_type ::
    "('ts, 'sk, 'ct, 'cx, 'ag, 'pf, 'pv, 'rp, 'st, 'rc, 'gr, 'en) assemble_deps \<Rightarrow> string \<Rightarrow>
       (sql_world, lymaille_error, ('ct \<times> string list) option) act" where
  "usable_context_type D name =
     and_then (map_err (store_error (ad_texts D)) (select (sql_first catalog_context_types_table
         [Col_Eq ''name'' (VText (Some name))]))) (\<lambda>row.
       return_ok (case row of None \<Rightarrow> None
        | Some r \<Rightarrow> (case col_json (r ''active'') of None \<Rightarrow> None
            | Some v \<Rightarrow> if v = JNull then None else (case ct_of_json (ad_contexts D) v of Inl _ \<Rightarrow> None
                | Inr t \<Rightarrow> Some (t, allowed_agents (col_json (r ''allowed_agents'')))))))"

definition manager_agents ::
    "('ts, 'sk, 'ct, 'cx, 'ag, 'pf, 'pv, 'rp, 'st, 'rc, 'gr, 'en) assemble_deps \<Rightarrow> string \<Rightarrow> string \<Rightarrow>
       (sql_world, agents_error, 'ag option) act" where
  "manager_agents D sub = get_agent (ad_texts D) (ad_agents D) sub"

definition resolve_agent ::
    "('ts, 'sk, 'ct, 'cx, 'ag, 'pf, 'pv, 'rp, 'st, 'rc, 'gr, 'en) assemble_deps \<Rightarrow> string \<Rightarrow> string \<Rightarrow>
       (sql_world, lymaille_error, 'ag) act" where
  "resolve_agent D sub agent_id =
     and_then (map_err (from_agents (al_agents_text (ad_lib D))) (manager_agents D sub agent_id)) (\<lambda>found.
       case found of None \<Rightarrow> fail_with (Lym_NotFound context_not_found) | Some a \<Rightarrow> return_ok a)"

fun agent_kind_of :: "session_kind \<Rightarrow> agent_kind" where
  "agent_kind_of Session_Work = Agent_Work"
| "agent_kind_of Session_Config = Agent_Config"
| "agent_kind_of Session_Other = Agent_Sub"

text \<open>The kind of a session: the one of the type, which the agent must have, else the one of the agent.\<close>

definition session_kind_for :: "session_kind option \<Rightarrow> agent_kind \<Rightarrow> lymaille_error + session_kind" where
  "session_kind_for type_kind nature =
     (case type_kind of
        Some Session_Work \<Rightarrow> if nature \<noteq> agent_kind_of Session_Work then Inl (Lym_Forbidden agent_not_allowed) else Inr Session_Work
      | Some Session_Config \<Rightarrow> if nature \<noteq> agent_kind_of Session_Config then Inl (Lym_Forbidden agent_not_allowed) else Inr Session_Config
      | _ \<Rightarrow> (case nature of Agent_Work \<Rightarrow> Inr Session_Work | Agent_Config \<Rightarrow> Inr Session_Config
              | _ \<Rightarrow> Inl (Lym_Forbidden agent_not_allowed)))"

definition resolve_type_start ::
    "('ts, 'sk, 'ct, 'cx, 'ag, 'pf, 'pv, 'rp, 'st, 'rc, 'gr, 'en, 'g, 'c, 'su) manager \<Rightarrow> string \<Rightarrow> caller_principal \<Rightarrow> id_kind \<Rightarrow>
       string \<Rightarrow> string option \<Rightarrow> (sql_world, lymaille_error, session_kind \<times> string \<times> 'ag) act" where
  "resolve_type_start M sub caller kind context agent =
     (let D = md_assemble M in
      and_then (visible_context_type D caller kind context) (\<lambda>reference. case reference of
        None \<Rightarrow> fail_with (Lym_InvalidDefinition no_usable_type)
      | Some name \<Rightarrow>
      and_then (usable_context_type D name) (\<lambda>found. case found of
        None \<Rightarrow> fail_with (Lym_InvalidDefinition no_usable_type)
      | Some (context_type, allowed) \<Rightarrow>
      and_then (map_err (from_toolsets (ad_toolsets D)) (md_resolve_start M context_type (manager_agents D sub))) (\<lambda>start.
      case (case agent of Some a \<Rightarrow> Some a | None \<Rightarrow> ct_default_agent (ad_contexts D) context_type) of
        None \<Rightarrow> fail_with (Lym_InvalidDefinition agent_required)
      | Some agent_id \<Rightarrow>
        if agent_id \<notin> set allowed then fail_with (Lym_Forbidden agent_not_allowed)
        else and_then (case (agent, start) of
            (Some _, _) \<Rightarrow> resolve_agent D sub agent_id
          | (None, Some target) \<Rightarrow> return_ok target
          | (None, None) \<Rightarrow> fail_with (Lym_InvalidDefinition agent_required)) (\<lambda>definition1.
        and_then (lift_result (session_kind_for (md_type_kind M context_type) (al_agent_kind (ad_lib D) definition1))) (\<lambda>skind.
        return_ok (skind, agent_id, definition1)))))))"

text \<open>The resolution of \<open>open\<close>: by the kind of the identifier of the context.\<close>

definition resolve_opening ::
    "('ts, 'sk, 'ct, 'cx, 'ag, 'pf, 'pv, 'rp, 'st, 'rc, 'gr, 'en, 'g, 'c, 'su) manager \<Rightarrow> string \<Rightarrow> caller_principal \<Rightarrow>
       string \<Rightarrow> string option \<Rightarrow> (sql_world, lymaille_error, session_kind \<times> string \<times> 'ag) act" where
  "resolve_opening M sub caller context agent =
     (let D = md_assemble M in
      and_then (lift_result (classify context)) (\<lambda>kind.
      if kind = Host_Id then
        (case agent of
           None \<Rightarrow> fail_with (Lym_InvalidDefinition ''host sessions need an explicit agent'')
         | Some a \<Rightarrow>
             and_then (host_context_exists D caller context) (\<lambda>_.
             and_then (resolve_agent D sub a) (\<lambda>definition1.
             if al_agent_kind (ad_lib D) definition1 \<noteq> Agent_Work
             then fail_with (Lym_InvalidDefinition ''host contexts do not open config sessions'')
             else return_ok (Session_Work, a, definition1))))
      else resolve_type_start M sub caller kind context agent))"

definition toolset_versions ::
    "('ts, 'sk, 'ct, 'cx, 'ag, 'pf, 'pv, 'rp, 'st, 'rc, 'gr, 'en) assemble_deps \<Rightarrow> string \<Rightarrow> 'ag \<Rightarrow>
       (sql_world, lymaille_error, (string \<times> string) list) act" where
  "toolset_versions D sub definition1 =
     and_then (for_each (al_agent_toolsets (ad_lib D) definition1) (\<lambda>name.
       and_then (map_err (from_toolsets (ad_toolsets D)) (get_active (ad_texts D) (ad_toolsets D) sub name)) (\<lambda>t. case t of
         None \<Rightarrow> fail_with (Lym_NotFound (''unknown toolset: '' @ name))
       | Some ts \<Rightarrow> return_ok (name, ts_version (ad_toolsets D) ts)))) (\<lambda>versions.
     return_ok (btree_map versions))"

definition session_key_conds :: "string \<Rightarrow> string \<Rightarrow> sql_cond list" where
  "session_key_conds sub i = [Col_Eq ''subject'' (VText (Some sub)), Col_Eq ''session_id'' (VText (Some i))]"

definition stamp_context :: "db_texts \<Rightarrow> string \<Rightarrow> string \<Rightarrow> string \<Rightarrow> (sql_world, lymaille_error, unit) act" where
  "stamp_context tx sub i context =
     and_then (map_err (store_error tx) (statement (sql_update sessions_table
        [(''context'', VText (Some context))] (session_key_conds sub i)))) (\<lambda>_. return_ok ())"

definition read_context_column :: "db_texts \<Rightarrow> string \<Rightarrow> string \<Rightarrow> (sql_world, lymaille_error, string option) act" where
  "read_context_column tx sub i =
     map_err (store_error tx) (select (\<lambda>t. Option.bind (sql_first sessions_table (session_key_conds sub i) t)
       (\<lambda>r. col_opt_text (r ''context''))))"

section \<open>The operations\<close>

type_synonym ('g, 'c) process = "sql_world \<times> ('g, 'c) memory shared"

definition manager_clock ::
    "('ts, 'sk, 'ct, 'cx, 'ag, 'pf, 'pv, 'rp, 'st, 'rc, 'gr, 'en) assemble_deps \<Rightarrow> (sql_world, 'e, u64) act" where
  "manager_clock D = (\<lambda>w. (Inr (ad_clock_ms D w), w))"

definition do_touch ::
    "('ts, 'sk, 'ct, 'cx, 'ag, 'pf, 'pv, 'rp, 'st, 'rc, 'gr, 'en, 'g, 'c, 'su) manager \<Rightarrow> string \<Rightarrow> string \<Rightarrow>
       (('g, 'c) process, 'e, nat) act" where
  "do_touch M sub i =
     and_then (on_db (manager_clock (md_assemble M))) (\<lambda>now.
     on_mem (manager_touch (md_gate M) (md_idle_ttl_ms M) now sub i))"

definition do_signal :: "string \<Rightarrow> (('g, 'c) process, 'e, unit) act" where
  "do_signal i =
     and_then (on_mem (\<lambda>m. (find_entry i m, m))) (\<lambda>found.
     case found of None \<Rightarrow> return_ok () | Some e \<Rightarrow> mem_do (signal_entry e))"

text \<open>\<open>open\<close>; \<open>draw\<close> is the text of the drawn UUID.\<close>

definition open_session ::
    "('ts, 'sk, 'ct, 'cx, 'ag, 'pf, 'pv, 'rp, 'st, 'rc, 'gr, 'en, 'g, 'c, 'su) manager \<Rightarrow> string \<Rightarrow> string \<Rightarrow> string \<Rightarrow>
       string option \<Rightarrow> (('g, 'c) process, lymaille_error, session_handle) act" where
  "open_session M draw sub context agent =
     (let D = md_assemble M; L = ad_lib D in
      and_then (on_db (manager_principal D sub)) (\<lambda>caller.
      and_then (on_db (resolve_opening M sub caller context agent)) (\<lambda>(skind, agent_id, definition1).
      and_then (if cp_is_admin caller then return_ok True
                else on_mem (\<lambda>m. (\<not> md_max_open M \<le> table_count sub m, m))) (\<lambda>room.
      if \<not> room then fail_with (Lym_Forbidden ''too many open sessions'')
      else
      and_then (on_db (toolset_versions D sub definition1)) (\<lambda>versions.
      if draw = [] then fail_with (Lym_Store ''generated session identifier was rejected'')
      else
      and_then (on_db (manager_clock D)) (\<lambda>now.
      and_then (on_db (map_err (from_session (al_session_text L)) (session_save (ad_texts D) (ad_sessions D) sub
          (al_new_state L draw (ag_id (ad_agents D) definition1, al_fingerprint L definition1) context versions now skind)))) (\<lambda>_.
      and_then (on_db (stamp_context (ad_texts D) sub draw context)) (\<lambda>_.
      and_then (on_mem (on_hub (\<lambda>h. ((), hub_register draw sub h)))) (\<lambda>_.
      and_then (do_touch M sub draw) (\<lambda>_.
      return_ok \<lparr>sh_id = draw, sh_kind = skind, sh_agent_id = agent_id, sh_context = context, sh_notices = []\<rparr>))))))))))"

text \<open>\<open>send\<close> up to the start of the detached task, which gets the entry and the permit, the caller and the state.\<close>

definition send_message ::
    "('ts, 'sk, 'ct, 'cx, 'ag, 'pf, 'pv, 'rp, 'st, 'rc, 'gr, 'en, 'g, 'c, 'su) manager \<Rightarrow> string \<Rightarrow> string \<Rightarrow>
       (('g, 'c) process, lymaille_error, nat \<times> caller_principal \<times> 'st) act" where
  "send_message M sub i =
     (let D = md_assemble M in
      and_then (on_db (manager_principal D sub)) (\<lambda>caller.
      and_then (on_db (readable D sub i)) (\<lambda>state.
      and_then (on_mem (\<lambda>m. (table_is_closed i m, m))) (\<lambda>closed.
      if closed then fail_with (Lym_NotFound session_not_found)
      else and_then (on_mem (gate_begin (md_gate M) i)) (\<lambda>refused. case refused of
          Some Turn_Active \<Rightarrow> fail_with (Lym_Conflict ''turn active'')
        | Some (Begin_Failed e) \<Rightarrow> fail_with (from_session (al_session_text (ad_lib D)) e)
        | None \<Rightarrow>
            and_then (do_touch M sub i) (\<lambda>e.
            and_then (mem_do (clear_handle e)) (\<lambda>_.
            and_then (mem_do (clear_requested e)) (\<lambda>_.
            return_ok (e, caller, state)))))))))"

text \<open>
  The detached task: assembly, publication of the handle, the check of an earlier request, the turn, and
  the permit is dropped on every path. \<open>run_turn\<close> is the one of the library: it sees whether its handle
  is cancelled. \<open>handle\<close> is the fresh one of the assembled session.
\<close>

definition turn_task ::
    "('ts, 'sk, 'ct, 'cx, 'ag, 'pf, 'pv, 'rp, 'st, 'rc, 'gr, 'en, 'g, 'c, 'su) manager \<Rightarrow>
       (('ag, 'rp, 'cx, 'st, 'en) assembled_session \<Rightarrow> nat \<Rightarrow> string \<Rightarrow> (('g, 'c) process, unit, unit) act) \<Rightarrow> nat \<Rightarrow>
       nat \<times> caller_principal \<times> 'st \<Rightarrow> string \<Rightarrow> string \<Rightarrow> string option \<Rightarrow> (('g, 'c) process, unit, unit) act" where
  "turn_task M run_turn handle started i t token =
     (case started of (e, caller, state) \<Rightarrow>
      let D = md_assemble M; drop_permit = (\<lambda>_. mem_do (gate_end (md_gate M) i)) in
      on_error
        (and_then (map_err (\<lambda>_. ()) (on_db (assemble_session D caller (al_state_kind (ad_lib D) state)
            (st_agent (ad_sessions D) state) i token))) (\<lambda>assembled.
         and_then (mem_do (publish_handle e handle)) (\<lambda>_.
         and_then (mem_do (check_requested e handle)) (\<lambda>_.
         and_then (on_error (run_turn assembled handle t) (\<lambda>_. return_ok ())) drop_permit))))
        drop_permit)"

definition subscribe_session ::
    "('ts, 'sk, 'ct, 'cx, 'ag, 'pf, 'pv, 'rp, 'st, 'rc, 'gr, 'en, 'g, 'c, 'su) manager \<Rightarrow> string \<Rightarrow> string \<Rightarrow>
       (('g, 'c) process, lymaille_error, nat \<times> nat) act" where
  "subscribe_session M sub i =
     (let D = md_assemble M; B = md_broadcast M in
      and_then (on_db (manager_principal D sub)) (\<lambda>_.
      and_then (on_db (readable D sub i)) (\<lambda>_.
      and_then (on_mem (on_hub (\<lambda>h. ((), subscribe_subject i sub h)))) (\<lambda>_.
      and_then (on_mem (on_hub (hub_slot B i))) (\<lambda>ch.
      and_then (on_mem (on_hub (subscribe_attach B ch))) (\<lambda>r.
      return_ok (ch, r)))))))"

definition cancel_turn ::
    "('ts, 'sk, 'ct, 'cx, 'ag, 'pf, 'pv, 'rp, 'st, 'rc, 'gr, 'en, 'g, 'c, 'su) manager \<Rightarrow> string \<Rightarrow> string \<Rightarrow>
       (('g, 'c) process, lymaille_error, bool) act" where
  "cancel_turn M sub i =
     (let D = md_assemble M in
      and_then (on_db (manager_principal D sub)) (\<lambda>_.
      and_then (on_db (readable D sub i)) (\<lambda>_.
      and_then (on_mem (\<lambda>m. (tg_active (md_gate M) i (mm_gate m), m))) (\<lambda>active.
      and_then (if active then do_signal i else return_ok ()) (\<lambda>_.
      return_ok active)))))"

definition resume_session ::
    "('ts, 'sk, 'ct, 'cx, 'ag, 'pf, 'pv, 'rp, 'st, 'rc, 'gr, 'en, 'g, 'c, 'su) manager \<Rightarrow> string \<Rightarrow> string \<Rightarrow>
       (('g, 'c) process, lymaille_error, session_handle) act" where
  "resume_session M sub i =
     (let D = md_assemble M in
      and_then (on_db (manager_principal D sub)) (\<lambda>caller.
      and_then (on_db (readable D sub i)) (\<lambda>state.
      and_then (on_db (read_context_column (ad_texts D) sub i)) (\<lambda>context. case context of
        None \<Rightarrow> fail_with (Lym_NotFound session_not_found)
      | Some context_name \<Rightarrow>
          let kind = al_state_kind (ad_lib D) state; agent_id = st_agent (ad_sessions D) state in
          and_then (on_db (assemble_session D caller kind agent_id i None)) (\<lambda>assembled.
          and_then (on_mem (on_hub (\<lambda>h. ((), hub_register i sub h)))) (\<lambda>_.
          and_then (mem_do (table_reopen i)) (\<lambda>_.
          and_then (do_touch M sub i) (\<lambda>_.
          return_ok \<lparr>sh_id = i, sh_kind = kind, sh_agent_id = agent_id, sh_context = context_name,
            sh_notices = as_notices assembled\<rparr>))))))))"

text \<open>\<open>close\<close> says nothing, whatever happens.\<close>

definition close_session ::
    "('ts, 'sk, 'ct, 'cx, 'ag, 'pf, 'pv, 'rp, 'st, 'rc, 'gr, 'en, 'g, 'c, 'su) manager \<Rightarrow> string \<Rightarrow> string \<Rightarrow>
       (('g, 'c) process, unit, unit) act" where
  "close_session M sub i =
     (let D = md_assemble M; B = md_broadcast M in
      on_error
        (and_then (on_db (map_err (\<lambda>_. ()) (manager_principal D sub))) (\<lambda>_.
         and_then (on_db (map_err (\<lambda>_. ()) (readable D sub i))) (\<lambda>_.
         and_then (on_mem (\<lambda>m. (tg_active (md_gate M) i (mm_gate m), m))) (\<lambda>active.
         and_then (if active then do_signal i else return_ok ()) (\<lambda>_.
         and_then (on_mem (on_hub (\<lambda>h. ((), remove_slot B i h)))) (\<lambda>_.
         and_then (on_mem (on_hub (\<lambda>h. ((), remove_subject i h)))) (\<lambda>_.
         mem_do (table_close i))))))))
        (\<lambda>_. return_ok ()))"

definition list_sessions ::
    "('ts, 'sk, 'ct, 'cx, 'ag, 'pf, 'pv, 'rp, 'st, 'rc, 'gr, 'en, 'g, 'c, 'su) manager \<Rightarrow> string \<Rightarrow> session_filter \<Rightarrow>
       (('g, 'c) process, lymaille_error, 'su list) act" where
  "list_sessions M sub flt =
     (let D = md_assemble M; ses_err = from_session (al_session_text (ad_lib D)) in
      on_db (and_then (manager_principal D sub) (\<lambda>_.
        and_then (map_err ses_err (index_list (ad_texts D) (ad_sessions D) sub flt)) (\<lambda>ids.
        and_then (for_each ids (\<lambda>i. map_err ses_err (session_load (ad_texts D) (ad_sessions D) sub i))) (\<lambda>found.
        return_ok (map (md_summary M) (concat (map option_list found))))))))"

section \<open>Calls that nobody interrupts\<close>

lemma on_db_eq: "on_db m (w, s) = (r, (w', s')) \<longleftrightarrow> m w = (r, w') \<and> s' = s"
  by (auto simp: on_db_def split: prod.splits)

lemma on_db_run: "m w = (r, w') \<Longrightarrow> on_db m (w, s) = (r, (w', s))"
  by (simp add: on_db_def)

lemma on_mem_quiet: "sh_others s = [] \<Longrightarrow>
    on_mem f (w, s) = (Inr (fst (f (sh_mem s))), (w, s\<lparr>sh_mem := snd (f (sh_mem s))\<rparr>))"
  by (simp add: on_mem_def sh_arrive_def Let_def split: prod.splits)

lemma sh_mem_id: "s\<lparr>sh_mem := sh_mem s\<rparr> = s"
  by simp

end
