(* ===== verification/Session_Turns.thy ===== *)
theory Session_Turns
  imports Session_Manager "HOL-Library.Multiset"
begin

text \<open>
  The interleavings of the calls of \<open>lymaille/interactive/manager.rs\<close> in one process. Each call and each
  detached turn is a thread that advances by the locked sections of \<open>Session_Manager\<close>, in the order of
  the code; between two sections any other thread may run. What is shown for every interleaving: a
  session never has two turns; a request noted on the entry of a turn that has begun reaches its
  handle. Two executions show what the order of the sections does not exclude.
\<close>

section \<open>Threads and their sections\<close>

text \<open>
  The constructors are the places between two sections: \<open>Send_\<close> lines 347 to 361, \<open>Turn_\<close> the detached
  task, \<open>Cancel_\<close> and \<open>Close_\<close> lines 412 to 471, \<open>Resume_\<close> lines 442 to 448, \<open>Register\<close> the end of \<open>open\<close>.
  Reading the database before is not a section: a thread arrives with the rows it read.
\<close>

datatype mg_task =
    Send_Check string string
  | Send_Begin string string
  | Send_Touch string string
  | Send_Clear string nat
  | Send_Reset string nat
  | Turn_Assembling string nat
  | Turn_Published string nat nat
  | Turn_Running string nat nat
  | Cancel_Check string
  | Cancel_Find string
  | Cancel_Signal nat
  | Close_Check string
  | Close_Find string
  | Close_Signal string nat
  | Close_Slot string
  | Close_Subject string
  | Close_Table string
  | Resume_Register string string
  | Resume_Reopen string string
  | Register string string
  | Touch string string
  | Sub_Subject string string
  | Sub_Slot string
  | Sub_Attach nat

text \<open>What the code does not decide: the clock, whether the assembly fails or the turn goes on, what a turn emits.\<close>

record 'c mg_choice =
  ch_now :: u64
  ch_stop :: bool
  ch_emit :: "'c hub \<Rightarrow> 'c hub"

record ('g, 'c) mg_env =
  me_gate :: "'g turn_gate"
  me_ttl :: u64
  me_broadcast :: "'c broadcast"

record ('g, 'c) mg_state =
  ms_mem :: "('g, 'c) memory"
  ms_tasks :: "mg_task multiset"
  ms_handles :: nat

text \<open>One section of a thread: the memory and what the thread does next.\<close>

fun task_step :: "('g, 'c) mg_env \<Rightarrow> 'c mg_choice \<Rightarrow> nat \<Rightarrow> mg_task \<Rightarrow> ('g, 'c) memory \<Rightarrow>
    mg_task option \<times> ('g, 'c) memory" where
  "task_step V ch n (Send_Check i sub) m = (if table_is_closed i m then None else Some (Send_Begin i sub), m)"
| "task_step V ch n (Send_Begin i sub) m =
     (case gate_begin (me_gate V) i m of (Some _, m') \<Rightarrow> (None, m') | (None, m') \<Rightarrow> (Some (Send_Touch i sub), m'))"
| "task_step V ch n (Send_Touch i sub) m =
     (case manager_touch (me_gate V) (me_ttl V) (ch_now ch) sub i m of (e, m') \<Rightarrow> (Some (Send_Clear i e), m'))"
| "task_step V ch n (Send_Clear i e) m = (Some (Send_Reset i e), clear_handle e m)"
| "task_step V ch n (Send_Reset i e) m = (Some (Turn_Assembling i e), clear_requested e m)"
| "task_step V ch n (Turn_Assembling i e) m =
     (if ch_stop ch then (None, gate_end (me_gate V) i m) else (Some (Turn_Published i e n), publish_handle e n m))"
| "task_step V ch n (Turn_Published i e h) m = (Some (Turn_Running i e h), check_requested e h m)"
| "task_step V ch n (Turn_Running i e h) m =
     (if ch_stop ch then (None, gate_end (me_gate V) i m)
      else (Some (Turn_Running i e h), m\<lparr>mm_hub := ch_emit ch (mm_hub m)\<rparr>))"
| "task_step V ch n (Cancel_Check i) m = (if tg_active (me_gate V) i (mm_gate m) then Some (Cancel_Find i) else None, m)"
| "task_step V ch n (Cancel_Find i) m = (map_option Cancel_Signal (find_entry i m), m)"
| "task_step V ch n (Cancel_Signal e) m = (None, signal_entry e m)"
| "task_step V ch n (Close_Check i) m =
     (Some (if tg_active (me_gate V) i (mm_gate m) then Close_Find i else Close_Slot i), m)"
| "task_step V ch n (Close_Find i) m =
     (Some (case find_entry i m of None \<Rightarrow> Close_Slot i | Some e \<Rightarrow> Close_Signal i e), m)"
| "task_step V ch n (Close_Signal i e) m = (Some (Close_Slot i), signal_entry e m)"
| "task_step V ch n (Close_Slot i) m = (Some (Close_Subject i), snd (on_hub (\<lambda>h. ((), remove_slot (me_broadcast V) i h)) m))"
| "task_step V ch n (Close_Subject i) m = (Some (Close_Table i), snd (on_hub (\<lambda>h. ((), remove_subject i h)) m))"
| "task_step V ch n (Close_Table i) m = (None, table_close i m)"
| "task_step V ch n (Resume_Register i sub) m = (Some (Resume_Reopen i sub), snd (on_hub (\<lambda>h. ((), hub_register i sub h)) m))"
| "task_step V ch n (Resume_Reopen i sub) m = (Some (Touch i sub), table_reopen i m)"
| "task_step V ch n (Register i sub) m = (Some (Touch i sub), snd (on_hub (\<lambda>h. ((), hub_register i sub h)) m))"
| "task_step V ch n (Touch i sub) m = (None, snd (manager_touch (me_gate V) (me_ttl V) (ch_now ch) sub i m))"
| "task_step V ch n (Sub_Subject i sub) m = (Some (Sub_Slot i), snd (on_hub (\<lambda>h. ((), subscribe_subject i sub h)) m))"
| "task_step V ch n (Sub_Slot i) m = (case on_hub (hub_slot (me_broadcast V) i) m of (c, m') \<Rightarrow> (Some (Sub_Attach c), m'))"
| "task_step V ch n (Sub_Attach c) m = (None, snd (on_hub (subscribe_attach (me_broadcast V) c) m))"

text \<open>The first section of each call.\<close>

fun arriving :: "mg_task \<Rightarrow> bool" where
  "arriving (Send_Check _ _) = True"
| "arriving (Cancel_Check _) = True"
| "arriving (Close_Check _) = True"
| "arriving (Resume_Register _ _) = True"
| "arriving (Register _ _) = True"
| "arriving (Sub_Subject _ _) = True"
| "arriving _ = False"

datatype 'c mg_event = Arrives mg_task | Acts "'c mg_choice" mg_task

text \<open>Each thread that acts may have built a fresh cancel handle.\<close>

inductive mg_step :: "('g, 'c) mg_env \<Rightarrow> ('g, 'c) mg_state \<Rightarrow> 'c mg_event \<Rightarrow> ('g, 'c) mg_state \<Rightarrow> bool" for V where
  Arrive: "arriving t \<Longrightarrow> mg_step V s (Arrives t) (s\<lparr>ms_tasks := add_mset t (ms_tasks s)\<rparr>)"
| Act: "ms_tasks s = add_mset t rest \<Longrightarrow> task_step V ch (ms_handles s) t (ms_mem s) = (next_task, m') \<Longrightarrow>
    mg_step V s (Acts ch t)
      \<lparr>ms_mem = m', ms_tasks = mset (option_list next_task) + rest, ms_handles = ms_handles s + 1\<rparr>"

inductive_cases mg_step_cases: "mg_step V s ev s'"

inductive mg_path :: "('g, 'c) mg_env \<Rightarrow> ('g, 'c) mg_state \<Rightarrow> 'c mg_event list \<Rightarrow> ('g, 'c) mg_state \<Rightarrow> bool" for V where
  path_nil: "mg_path V s [] s"
| path_snoc: "mg_path V s evs s' \<Longrightarrow> mg_step V s' ev s'' \<Longrightarrow> mg_path V s (evs @ [ev]) s''"

definition mg_init :: "'g \<Rightarrow> 'c hub \<Rightarrow> ('g, 'c) mg_state" where
  "mg_init g h = \<lparr>ms_mem = \<lparr>mm_by_id = [], mm_closed = {}, mm_entries = (\<lambda>_. new_entry 0), mm_next = 0, mm_gate = g,
     mm_hub = h, mm_cancelled = {}\<rparr>, ms_tasks = {#}, ms_handles = 0\<rparr>"

text \<open>The documented contract of \<open>TurnGate\<close>.\<close>

definition gate_laws :: "'g turn_gate \<Rightarrow> bool" where
  "gate_laws G \<longleftrightarrow>
     (\<forall>i g. tg_active G i g \<longrightarrow> tg_begin G i g = Inl Turn_Active) \<and>
     (\<forall>i j g g'. tg_begin G i g = Inr g' \<longrightarrow> tg_active G j g' = (j = i \<or> tg_active G j g)) \<and>
     (\<forall>i j g. tg_active G j (tg_end G i g) = (j \<noteq> i \<and> tg_active G j g))"

fun runs_turn :: "string \<Rightarrow> mg_task \<Rightarrow> bool" where
  "runs_turn i (Turn_Assembling j _) = (i = j)"
| "runs_turn i (Turn_Published j _ _) = (i = j)"
| "runs_turn i (Turn_Running j _ _) = (i = j)"
| "runs_turn i _ = False"

text \<open>Who has the permit of the gate for a session.\<close>

fun holds_permit :: "string \<Rightarrow> mg_task \<Rightarrow> bool" where
  "holds_permit i (Send_Touch j _) = (i = j)"
| "holds_permit i (Send_Clear j _) = (i = j)"
| "holds_permit i (Send_Reset j _) = (i = j)"
| "holds_permit i t = runs_turn i t"

definition permits :: "string \<Rightarrow> mg_task multiset \<Rightarrow> nat" where
  "permits i T = size (filter_mset (holds_permit i) T)"

lemma permits_simps [simp]:
  "permits i {#} = 0"
  "permits i (add_mset t T) = of_bool (holds_permit i t) + permits i T"
  "permits i (T + U) = permits i T + permits i U"
  by (simp_all add: permits_def)

section \<open>One turn per session\<close>

lemma option_list_simps [simp]: "option_list None = []" "option_list (Some x) = [x]"
  by (simp_all add: option_list_def)

lemma Suc_of_bool [simp]: "(Suc k = of_bool b) = (b \<and> k = 0)"
  by (cases b) auto

lemma memory_gate [simp]:
  "mm_gate (set_entry e f m) = mm_gate m" "mm_gate (signal_entry e m) = mm_gate m"
  "mm_gate (publish_handle e h m) = mm_gate m" "mm_gate (check_requested e h m) = mm_gate m"
  "mm_gate (clear_handle e m) = mm_gate m" "mm_gate (clear_requested e m) = mm_gate m"
  "mm_gate (table_close i m) = mm_gate m" "mm_gate (table_reopen i m) = mm_gate m"
  "mm_gate (snd (manager_touch G ttl now sub i m)) = mm_gate m"
  "mm_gate (snd (on_hub k m)) = mm_gate m"
  by (simp_all add: set_entry_def signal_entry_def publish_handle_def check_requested_def clear_handle_def
      clear_requested_def table_close_def table_reopen_def manager_touch_def table_touch_def table_sweep_def on_hub_def
      Let_def split: option.splits prod.splits)

lemma manager_touch_gate: "manager_touch G ttl now sub i m = (e, m') \<Longrightarrow> mm_gate m' = mm_gate m"
  by (metis memory_gate(9) snd_conv)

lemma on_hub_gate: "on_hub f m = (x, m') \<Longrightarrow> mm_gate m' = mm_gate m"
  by (metis memory_gate(10) snd_conv)

lemma gate_begin_cases:
  "gate_begin G i m = (r, m') \<Longrightarrow>
     (r \<noteq> None \<and> m' = m) \<or> (\<exists>g. r = None \<and> tg_begin G i (mm_gate m) = Inr g \<and> m' = m\<lparr>mm_gate := g\<rparr>)"
  by (auto simp: gate_begin_def split: sum.splits)

lemma step_permits:
  assumes laws: "gate_laws (me_gate V)"
    and step: "task_step V ch n t m = (u, m')"
    and own: "of_bool (holds_permit i t) + k = of_bool (tg_active (me_gate V) i (mm_gate m))"
  shows "permits i (mset (option_list u)) + k = of_bool (tg_active (me_gate V) i (mm_gate m'))"
proof (cases t)
  case (Send_Begin j sub)
  then show ?thesis using step own laws
    by (auto simp: gate_laws_def split: prod.splits option.splits dest!: gate_begin_cases)
next
  case (Send_Touch j sub)
  then show ?thesis using step own by (auto split: prod.splits dest: manager_touch_gate)
next
  case (Turn_Assembling j e)
  then show ?thesis using step own laws by (auto simp: gate_laws_def gate_end_def split: if_splits)
next
  case (Turn_Running j e h)
  then show ?thesis using step own laws by (auto simp: gate_laws_def gate_end_def split: if_splits)
next
  case (Cancel_Find j)
  then show ?thesis using step own by (cases "find_entry j m") auto
next
  case (Sub_Slot j)
  then show ?thesis using step own by (auto split: prod.splits dest: on_hub_gate)
qed (use step own in \<open>auto split: if_splits option.splits\<close>)

definition gate_inv :: "('g, 'c) mg_env \<Rightarrow> ('g, 'c) mg_state \<Rightarrow> bool" where
  "gate_inv V s \<longleftrightarrow> (\<forall>i. permits i (ms_tasks s) = of_bool (tg_active (me_gate V) i (mm_gate (ms_mem s))))"

lemma arriving_no_permit: "arriving t \<Longrightarrow> \<not> holds_permit i t"
  by (cases t) auto

lemma gate_inv_step:
  assumes "gate_laws (me_gate V)" and "gate_inv V s" and "mg_step V s ev s'"
  shows "gate_inv V s'"
  using assms(3)
proof cases
  case (Arrive t)
  then show ?thesis using assms(2) by (simp add: gate_inv_def arriving_no_permit)
next
  case (Act t rest ch u m')
  then show ?thesis using assms(2) step_permits [OF assms(1) Act(4)]
    by (auto simp: gate_inv_def)
qed

lemma gate_inv_path: "mg_path V s evs s' \<Longrightarrow> gate_laws (me_gate V) \<Longrightarrow> gate_inv V s \<Longrightarrow> gate_inv V s'"
  by (induction rule: mg_path.induct) (auto intro: gate_inv_step)

lemma gate_inv_init: "\<forall>i. \<not> tg_active (me_gate V) i g \<Longrightarrow> gate_inv V (mg_init g h)"
  by (simp add: gate_inv_def mg_init_def)

lemma runs_turn_permit: "runs_turn i t \<Longrightarrow> holds_permit i t"
  by (cases t) auto

lemma runs_turn_le: "size (filter_mset (runs_turn i) T) \<le> permits i T"
  by (induction T) (auto simp: runs_turn_permit)

text \<open>
  C8: in every interleaving of calls and turns of a process, each session has at most one turn
  (\<open>try_begin\<close> before the detached task, the permit dropped with it), and the gate of a session is
  shut exactly while one thread has its permit: no permit is lost, so the session is never blocked
  by a turn that is over.
\<close>

theorem one_turn_per_session:
  assumes "gate_laws (me_gate V)" and "\<forall>i. \<not> tg_active (me_gate V) i g" and "mg_path V (mg_init g h) evs s"
  shows "size {#t \<in># ms_tasks s. runs_turn i t#} \<le> 1 \<and>
    size {#t \<in># ms_tasks s. holds_permit i t#} = of_bool (tg_active (me_gate V) i (mm_gate (ms_mem s)))"
proof -
  have p: "permits i (ms_tasks s) = of_bool (tg_active (me_gate V) i (mm_gate (ms_mem s)))"
    using gate_inv_path [OF assms(3,1) gate_inv_init [OF assms(2)]] by (simp add: gate_inv_def)
  have "size (filter_mset (runs_turn i) (ms_tasks s)) \<le> permits i (ms_tasks s)" by (rule runs_turn_le)
  also have "\<dots> \<le> 1" unfolding p by simp
  finally show ?thesis using p unfolding permits_def by blast
qed

section \<open>Entries\<close>

fun uses_entry :: "mg_task \<Rightarrow> (string \<times> nat) option" where
  "uses_entry (Send_Clear i e) = Some (i, e)"
| "uses_entry (Send_Reset i e) = Some (i, e)"
| "uses_entry (Turn_Assembling i e) = Some (i, e)"
| "uses_entry (Turn_Published i e h) = Some (i, e)"
| "uses_entry (Turn_Running i e h) = Some (i, e)"
| "uses_entry t = None"

text \<open>An entry is of one session: \<open>own\<close> is the session it was created for.\<close>

definition table_owned :: "(nat \<Rightarrow> string) \<Rightarrow> ('g, 'c) memory \<Rightarrow> bool" where
  "table_owned own m \<longleftrightarrow> (\<forall>i sub e. (i, sub, e) \<in> set (mm_by_id m) \<longrightarrow> e < mm_next m \<and> own e = i)"

definition task_owned :: "(nat \<Rightarrow> string) \<Rightarrow> nat \<Rightarrow> mg_task \<Rightarrow> bool" where
  "task_owned own n t \<longleftrightarrow> (\<forall>i e. uses_entry t = Some (i, e) \<longrightarrow> e < n \<and> own e = i)"

text \<open>The handle that the entry of a turn shows.\<close>

fun slot_ok :: "mg_task \<Rightarrow> ('g, 'c) memory \<Rightarrow> bool" where
  "slot_ok (Send_Reset i e) m = (en_cancel (mm_entries m e) = None)"
| "slot_ok (Turn_Assembling i e) m = (en_cancel (mm_entries m e) = None)"
| "slot_ok (Turn_Published i e h) m = (en_cancel (mm_entries m e) = Some h)"
| "slot_ok (Turn_Running i e h) m = (en_cancel (mm_entries m e) = Some h)"
| "slot_ok t m = True"

text \<open>The turn sees that it is cancelled, or will when it checks the request.\<close>

fun doomed :: "mg_task \<Rightarrow> ('g, 'c) memory \<Rightarrow> bool" where
  "doomed (Turn_Assembling i e) m = en_requested (mm_entries m e)"
| "doomed (Turn_Published i e h) m = (h \<in> mm_cancelled m \<or> en_requested (mm_entries m e))"
| "doomed (Turn_Running i e h) m = (h \<in> mm_cancelled m)"
| "doomed t m = False"

lemma table_touch_cases:
  assumes "table_touch sub i now m = (e, m')"
  obtains s where "(i, s, e) \<in> set (mm_by_id m)" and "m' = set_entry e (\<lambda>x. x\<lparr>en_last_used := now\<rparr>) m"
  | "e = mm_next m" and
    "m' = set_entry e (\<lambda>_. new_entry now) (m\<lparr>mm_by_id := (i, sub, e) # mm_by_id m, mm_next := e + 1\<rparr>)"
  using assms by (auto simp: table_touch_def Let_def split: option.splits dest: map_of_SomeD)

lemma sweep_frame:
  "mm_entries (table_sweep G now ttl m) = mm_entries m" "mm_next (table_sweep G now ttl m) = mm_next m"
  "mm_cancelled (table_sweep G now ttl m) = mm_cancelled m"
  "set (mm_by_id (table_sweep G now ttl m)) \<subseteq> set (mm_by_id m)"
  by (auto simp: table_sweep_def)

lemma touch_frame:
  assumes "manager_touch G ttl now sub i m = (e, m')"
  shows "mm_cancelled m' = mm_cancelled m" and "mm_next m \<le> mm_next m'"
    and "f < mm_next m \<Longrightarrow> en_cancel (mm_entries m' f) = en_cancel (mm_entries m f) \<and>
      en_requested (mm_entries m' f) = en_requested (mm_entries m f)"
  using assms unfolding manager_touch_def
  by (auto elim!: table_touch_cases simp: set_entry_def sweep_frame split: if_splits)

lemma touch_owned:
  assumes "manager_touch G ttl now sub i m = (e, m')" and "table_owned own m"
  shows "\<exists>own'. (\<forall>f < mm_next m. own' f = own f) \<and> table_owned own' m' \<and> e < mm_next m' \<and> own' e = i"
  using assms(1) unfolding manager_touch_def
proof (rule table_touch_cases)
  fix s
  assume *: "(i, s, e) \<in> set (mm_by_id (table_sweep G now ttl m))"
    "m' = set_entry e (\<lambda>x. x\<lparr>en_last_used := now\<rparr>) (table_sweep G now ttl m)"
  then have "table_owned own m' \<and> e < mm_next m' \<and> own e = i"
    using assms(2) subsetD [OF sweep_frame(4) *(1)] by (auto simp: table_owned_def set_entry_def table_sweep_def)
  then show ?thesis by blast
next
  assume *: "e = mm_next (table_sweep G now ttl m)"
    "m' = set_entry e (\<lambda>_. new_entry now) (table_sweep G now ttl m
       \<lparr>mm_by_id := (i, sub, e) # mm_by_id (table_sweep G now ttl m), mm_next := e + 1\<rparr>)"
  then have "table_owned (own(e := i)) m'"
    using assms(2) by (auto simp: table_owned_def set_entry_def table_sweep_def intro: less_SucI)
  then show ?thesis using * by (intro exI [of _ "own(e := i)"]) (auto simp: sweep_frame set_entry_def)
qed

lemma hub_frame:
  assumes "on_hub k m = (x, m')"
  shows "mm_entries m' = mm_entries m" "mm_next m' = mm_next m" "mm_cancelled m' = mm_cancelled m" "mm_by_id m' = mm_by_id m"
  using assms by (auto simp: on_hub_def split: prod.splits)

lemma begin_frame:
  assumes "gate_begin G i m = (x, m')"
  shows "mm_entries m' = mm_entries m" "mm_next m' = mm_next m" "mm_cancelled m' = mm_cancelled m" "mm_by_id m' = mm_by_id m"
  using assms by (auto simp: gate_begin_def split: sum.splits)

lemmas section_frames [simp] = touch_frame [OF prod.collapse [symmetric]] hub_frame [OF prod.collapse [symmetric]]
  begin_frame [OF prod.collapse [symmetric]]

lemmas memory_ops = set_entry_def signal_entry_def publish_handle_def check_requested_def clear_handle_def
  clear_requested_def table_close_def table_reopen_def gate_end_def

text \<open>What a section does to an entry it does not work on.\<close>

lemma step_entry:
  assumes "task_step V ch n t m = (u, m')" and "e < mm_next m" and "\<forall>i. uses_entry t \<noteq> Some (i, e)"
  shows "en_cancel (mm_entries m' e) = en_cancel (mm_entries m e) \<and>
    (en_requested (mm_entries m e) \<longrightarrow> en_requested (mm_entries m' e))"
  using assms
  by (cases t) (auto simp: memory_ops begin_frame hub_frame touch_frame split: if_splits option.splits prod.splits
      dest: touch_frame(3) hub_frame(1) begin_frame(1))

lemma step_next:
  assumes "task_step V ch n t m = (u, m')"
  shows "mm_next m \<le> mm_next m' \<and> mm_cancelled m \<subseteq> mm_cancelled m'"
  using assms
  by (cases t) (auto simp: memory_ops split: if_splits option.splits prod.splits
      dest: touch_frame(1,2) hub_frame(2,3) begin_frame(2,3))

lemma begin_table: "gate_begin G i m = (x, m') \<Longrightarrow> mm_next m' = mm_next m \<and> mm_by_id m' = mm_by_id m"
  by (simp add: begin_frame)

lemma hub_table: "on_hub k m = (x, m') \<Longrightarrow> mm_next m' = mm_next m \<and> mm_by_id m' = mm_by_id m"
  by (simp add: hub_frame)

lemma step_table:
  assumes "task_step V ch n t m = (u, m')" and "\<nexists>i sub. t = Send_Touch i sub \<or> t = Touch i sub"
  shows "mm_next m' = mm_next m" and "set (mm_by_id m') \<subseteq> set (mm_by_id m)"
    and "t' \<in> set (option_list u) \<Longrightarrow> uses_entry t' = Some ie \<Longrightarrow> uses_entry t = Some ie"
  using assms
  by (cases t; cases u; auto simp: memory_ops split: if_splits option.splits prod.splits
        dest: begin_table hub_table)+

lemma step_owned:
  assumes "task_step V ch n t m = (u, m')" and "table_owned own m" and "task_owned own (mm_next m) t"
  shows "\<exists>own'. (\<forall>f < mm_next m. own' f = own f) \<and> table_owned own' m' \<and>
    (\<forall>t' \<in> set (option_list u). task_owned own' (mm_next m') t')"
proof (cases "\<exists>i sub. t = Send_Touch i sub \<or> t = Touch i sub")
  case True
  then obtain i sub where t: "t = Send_Touch i sub \<or> t = Touch i sub" by blast
  obtain e m1 where touch: "manager_touch (me_gate V) (me_ttl V) (ch_now ch) sub i m = (e, m1)" by fastforce
  then have m1: "m' = m1" and u: "u = Some (Send_Clear i e) \<or> u = None" using t assms(1) by auto
  obtain own' where "\<forall>f < mm_next m. own' f = own f" "table_owned own' m1" "e < mm_next m1" "own' e = i"
    using touch_owned [OF touch assms(2)] by blast
  then show ?thesis using m1 u by (intro exI [of _ own']) (auto simp: task_owned_def)
next
  case False
  then have "table_owned own m' \<and> (\<forall>t' \<in> set (option_list u). task_owned own (mm_next m') t')"
    using step_table [OF assms(1)] assms(2,3) by (auto simp: table_owned_def task_owned_def)
  then show ?thesis by blast
qed

text \<open>A thread keeps what its own entry shows, and a turn that is doomed stays so.\<close>

lemma step_slot:
  assumes "task_step V ch n t m = (u, m')" and "slot_ok t m"
  shows "\<forall>t' \<in> set (option_list u). slot_ok t' m'"
  using assms
  by (cases t; cases u) (auto simp: memory_ops split: if_splits option.splits prod.splits)

lemma step_doomed:
  assumes "task_step V ch n t m = (u, m')" and "runs_turn i t" and "doomed t m" and "\<not> ch_stop ch"
  shows "\<exists>t'. u = Some t' \<and> runs_turn i t' \<and> doomed t' m'"
  using assms by (cases t) (auto simp: memory_ops split: if_splits)

lemma slot_other:
  assumes "task_step V ch n t m = (u, m')" and "\<forall>i e. uses_entry t' = Some (i, e) \<longrightarrow> e < mm_next m \<and> (\<forall>j. uses_entry t \<noteq> Some (j, e))"
  shows "slot_ok t' m \<Longrightarrow> slot_ok t' m'" and "doomed t' m \<Longrightarrow> doomed t' m'"
  using step_entry [OF assms(1)] step_next [OF assms(1)] assms(2) by (cases t'; auto)+

definition entry_inv :: "(nat \<Rightarrow> string) \<Rightarrow> ('g, 'c) mg_state \<Rightarrow> bool" where
  "entry_inv own s \<longleftrightarrow> table_owned own (ms_mem s) \<and>
     (\<forall>t \<in># ms_tasks s. task_owned own (mm_next (ms_mem s)) t \<and> slot_ok t (ms_mem s))"

lemma uses_entry_permit: "uses_entry t = Some (i, e) \<Longrightarrow> holds_permit i t"
  by (cases t) auto

text \<open>Two threads with permits for their entries have different entries.\<close>

lemma entries_apart:
  assumes "gate_inv V s" and "entry_inv own s" and "ms_tasks s = add_mset t rest" and "t' \<in># rest"
    and "uses_entry t' = Some (i, e)"
  shows "e < mm_next (ms_mem s) \<and> (\<forall>j. uses_entry t \<noteq> Some (j, e))"
proof -
  obtain rest' where rest: "rest = add_mset t' rest'" using assms(4) by (metis multi_member_split)
  have e: "e < mm_next (ms_mem s)" "own e = i" using assms rest by (auto simp: entry_inv_def task_owned_def)
  moreover have "uses_entry t \<noteq> Some (j, e)" for j
  proof
    assume u: "uses_entry t = Some (j, e)"
    then have "own e = j" using assms(2,3) by (auto simp: entry_inv_def task_owned_def)
    then have "permits i (ms_tasks s) \<ge> 2"
      using e uses_entry_permit [OF u] uses_entry_permit [OF assms(5)] by (simp add: assms(3) rest)
    moreover have "permits i (ms_tasks s) \<le> 1" using assms(1) by (simp add: gate_inv_def)
    ultimately show False by simp
  qed
  ultimately show ?thesis by blast
qed

lemma task_owned_mono:
  "task_owned own n t \<Longrightarrow> \<forall>f < n. own' f = own f \<Longrightarrow> n \<le> n' \<Longrightarrow> task_owned own' n' t"
  unfolding task_owned_def by (metis less_le_trans)

lemma entry_inv_step:
  assumes "gate_inv V s" and "entry_inv own s" and "mg_step V s ev s'"
  shows "\<exists>own'. entry_inv own' s'"
  using assms(3)
proof cases
  case (Arrive t)
  then have "task_owned own n t \<and> slot_ok t m" for n and m :: "('a, 'b) memory" by (cases t) (auto simp: task_owned_def)
  then have "entry_inv own s'" using assms(2) Arrive by (auto simp: entry_inv_def)
  then show ?thesis by blast
next
  case (Act t rest ch u m')
  then obtain own' where own: "\<forall>f < mm_next (ms_mem s). own' f = own f" "table_owned own' m'"
    "\<forall>t' \<in> set (option_list u). task_owned own' (mm_next m') t'"
    using step_owned [OF Act(4)] assms(2) by (force simp: entry_inv_def)
  have "task_owned own' (mm_next m') t' \<and> slot_ok t' m'" if t': "t' \<in># rest" for t'
  proof
    show "task_owned own' (mm_next m') t'"
      using assms(2) Act t' own(1) step_next [OF Act(4)] by (auto simp: entry_inv_def intro: task_owned_mono)
    show "slot_ok t' m'"
      using slot_other(1) [OF Act(4)] entries_apart [OF assms(1,2) Act(3) t'] assms(2) Act t'
      by (auto simp: entry_inv_def)
  qed
  moreover have "\<forall>t' \<in> set (option_list u). slot_ok t' m'"
    using step_slot [OF Act(4)] assms(2) Act by (auto simp: entry_inv_def)
  ultimately have "entry_inv own' s'" using own(2,3) Act(2) by (auto simp: entry_inv_def)
  then show ?thesis by blast
qed

lemma invs_path:
  "mg_path V s evs s' \<Longrightarrow> gate_laws (me_gate V) \<Longrightarrow> gate_inv V s \<Longrightarrow> \<exists>own. entry_inv own s \<Longrightarrow>
     gate_inv V s' \<and> (\<exists>own. entry_inv own s')"
  by (induction rule: mg_path.induct) (auto intro: gate_inv_step dest: entry_inv_step)

lemma invs_init: "\<forall>i. \<not> tg_active (me_gate V) i g \<Longrightarrow> gate_inv V (mg_init g h) \<and> (\<exists>own. entry_inv own (mg_init g h))"
  by (auto simp: gate_inv_init) (simp add: entry_inv_def mg_init_def table_owned_def)

section \<open>A request reaches the turn\<close>

fun signals :: "nat \<Rightarrow> 'c mg_event \<Rightarrow> bool" where
  "signals e (Acts _ (Cancel_Signal f)) = (e = f)"
| "signals e (Acts _ (Close_Signal _ f)) = (e = f)"
| "signals e _ = False"

fun ends_turn :: "string \<Rightarrow> 'c mg_event \<Rightarrow> bool" where
  "ends_turn i (Acts ch t) = (runs_turn i t \<and> ch_stop ch)"
| "ends_turn i (Arrives _) = False"

definition doomed_turn :: "string \<Rightarrow> ('g, 'c) mg_state \<Rightarrow> bool" where
  "doomed_turn i s \<longleftrightarrow> (\<exists>t. t \<in># ms_tasks s \<and> runs_turn i t \<and> doomed t (ms_mem s))"

lemma signal_dooms:
  assumes "entry_inv own s" and "t \<in># ms_tasks s" and "runs_turn i t" and "uses_entry t = Some (i, e)"
  shows "doomed t (signal_entry e (ms_mem s))"
proof -
  have "slot_ok t (ms_mem s)" using assms(1,2) by (simp add: entry_inv_def)
  then show ?thesis using assms(3,4) by (cases t) (auto simp: memory_ops)
qed

lemma signal_step:
  assumes "entry_inv own s" and "t \<in># ms_tasks s" and "runs_turn i t" and "uses_entry t = Some (i, e)"
    and "mg_step V s ev s'" and "signals e ev"
  shows "doomed_turn i s'"
  using assms(5)
proof cases
  case (Act u rest ch v m')
  have "m' = signal_entry e (ms_mem s)" and "t \<noteq> u"
    using Act assms(3,6) by (cases u; auto)+
  then show ?thesis
    using Act assms(2,3) signal_dooms [OF assms(1-4)] by (auto simp: doomed_turn_def)
qed (use assms(6) in simp)

lemma runs_turn_uses: "runs_turn i t \<Longrightarrow> \<exists>e. uses_entry t = Some (i, e)"
  by (cases t) auto

lemma doomed_turn_step:
  assumes "gate_inv V s" and "entry_inv own s" and "mg_step V s ev s'" and "\<not> ends_turn i ev" and "doomed_turn i s"
  shows "doomed_turn i s'"
  using assms(3)
proof cases
  case (Arrive t)
  then show ?thesis using assms(5) by (auto simp: doomed_turn_def)
next
  case (Act t rest ch u m')
  obtain t' where t': "t' \<in># ms_tasks s" "runs_turn i t'" "doomed t' (ms_mem s)"
    using assms(5) by (auto simp: doomed_turn_def)
  show ?thesis
  proof (cases "t' = t")
    case True
    then obtain t'' where "u = Some t''" "runs_turn i t''" "doomed t'' m'"
      using step_doomed [OF Act(4)] t' Act(1) assms(4) by auto
    then show ?thesis using Act(2) by (auto simp: doomed_turn_def)
  next
    case False
    then have r: "t' \<in># rest" using t'(1) Act(3) by simp
    then have "doomed t' m'"
      using slot_other(2) [OF Act(4)] entries_apart [OF assms(1,2) Act(3) r] t'(3) by blast
    then show ?thesis using r t'(2) Act(2) by (auto simp: doomed_turn_def)
  qed
qed

lemma doomed_turn_path:
  "mg_path V s evs s' \<Longrightarrow> gate_laws (me_gate V) \<Longrightarrow> gate_inv V s \<Longrightarrow> entry_inv own s \<Longrightarrow> doomed_turn i s \<Longrightarrow>
     \<forall>ev \<in> set evs. \<not> ends_turn i ev \<Longrightarrow> doomed_turn i s'"
proof (induction rule: mg_path.induct)
  case (path_snoc s evs s' ev s'')
  then show ?case using invs_path [OF path_snoc(1)] doomed_turn_step [OF _ _ path_snoc(2)] by fastforce
qed simp

lemma one_turn_in_pool:
  assumes "gate_inv V s" and "t \<in># ms_tasks s" and "runs_turn i t"
  shows "filter_mset (runs_turn i) (ms_tasks s) = {#t#}"
proof -
  have "size (filter_mset (runs_turn i) (ms_tasks s)) \<le> permits i (ms_tasks s)" by (rule runs_turn_le)
  also have "\<dots> \<le> 1" using assms(1) by (simp add: gate_inv_def)
  finally have "size (filter_mset (runs_turn i) (ms_tasks s)) \<le> 1" .
  moreover obtain rest where "filter_mset (runs_turn i) (ms_tasks s) = add_mset t rest"
    using assms(2,3) by (metis (mono_tags) multi_member_split filter_mset_add_mset)
  ultimately show ?thesis by simp
qed

text \<open>
  C9: cancelling a turn that has begun works. Take any interleaving that reaches a detached turn of session
  \<open>i\<close> (assembling, its handle just published, or running) with entry \<open>e\<close>, and then a \<open>cancel\<close> or
  a \<open>close\<close> signals \<open>e\<close>. Whatever runs after that, as long as the turn is not over, the session has
  that one turn and its handle is cancelled, or the request is noted where the turn checks it.
\<close>

theorem cancel_reaches_turn:
  assumes "gate_laws (me_gate V)" and "\<forall>i. \<not> tg_active (me_gate V) i g" and "mg_path V (mg_init g h) evs s"
    and "t \<in># ms_tasks s" and "runs_turn i t" and "uses_entry t = Some (i, e)"
    and "mg_step V s ev s1" and "signals e ev"
    and "mg_path V s1 evs' s2" and "\<forall>ev \<in> set evs'. \<not> ends_turn i ev"
  shows "\<exists>t'. {#t \<in># ms_tasks s2. runs_turn i t#} = {#t'#} \<and> doomed t' (ms_mem s2)"
proof -
  obtain own where inv: "gate_inv V s" "entry_inv own s"
    using invs_path [OF assms(3,1)] invs_init [OF assms(2)] by blast
  obtain own1 where inv1: "gate_inv V s1" "entry_inv own1 s1"
    using gate_inv_step [OF assms(1) inv(1) assms(7)] entry_inv_step [OF inv assms(7)] by blast
  have "doomed_turn i s1" by (rule signal_step [OF inv(2) assms(4-8)])
  then have "doomed_turn i s2" by (rule doomed_turn_path [OF assms(9,1) inv1 _ assms(10)])
  moreover have "gate_inv V s2" by (rule gate_inv_path [OF assms(9,1) inv1(1)])
  ultimately show ?thesis using one_turn_in_pool unfolding doomed_turn_def by metis
qed

section \<open>Executions\<close>

fun mg_do :: "('g, 'c) mg_env \<Rightarrow> 'c mg_event \<Rightarrow> ('g, 'c) mg_state \<Rightarrow> ('g, 'c) mg_state option" where
  "mg_do V (Arrives t) s = (if arriving t then Some (s\<lparr>ms_tasks := add_mset t (ms_tasks s)\<rparr>) else None)"
| "mg_do V (Acts ch t) s =
     (if t \<in># ms_tasks s
      then case task_step V ch (ms_handles s) t (ms_mem s) of (u, m') \<Rightarrow>
        Some \<lparr>ms_mem = m', ms_tasks = mset (option_list u) + (ms_tasks s - {#t#}), ms_handles = ms_handles s + 1\<rparr>
      else None)"

fun mg_run :: "('g, 'c) mg_env \<Rightarrow> 'c mg_event list \<Rightarrow> ('g, 'c) mg_state \<Rightarrow> ('g, 'c) mg_state option" where
  "mg_run V [] s = Some s"
| "mg_run V (ev # evs) s = (case mg_do V ev s of None \<Rightarrow> None | Some s' \<Rightarrow> mg_run V evs s')"

lemma mg_do_step: "mg_do V ev s = Some s' \<Longrightarrow> mg_step V s ev s'"
proof (cases ev)
  case (Acts ch t)
  assume run: "mg_do V ev s = Some s'"
  then obtain u m' where *: "t \<in># ms_tasks s" "task_step V ch (ms_handles s) t (ms_mem s) = (u, m')"
    "s' = \<lparr>ms_mem = m', ms_tasks = mset (option_list u) + (ms_tasks s - {#t#}), ms_handles = ms_handles s + 1\<rparr>"
    using Acts by (auto split: if_splits prod.splits)
  show ?thesis unfolding *(3) Acts using *(1,2) by (intro mg_step.Act) simp_all
qed (auto intro: mg_step.intros split: if_splits)

lemma path_cons: "mg_path V s' evs s'' \<Longrightarrow> mg_step V s ev s' \<Longrightarrow> mg_path V s (ev # evs) s''"
proof (induction rule: mg_path.induct)
  case (path_nil s')
  then show ?case using mg_path.path_snoc [OF mg_path.path_nil] by force
next
  case (path_snoc s' evs u ev' v)
  then show ?case using mg_path.path_snoc by force
qed

lemma mg_run_path: "mg_run V evs s = Some s' \<Longrightarrow> mg_path V s evs s'"
  by (induction evs arbitrary: s) (auto intro: mg_path.path_nil path_cons mg_do_step split: option.splits)

text \<open>A gate that is the set of the active sessions, a hub without subscriber, an idle limit of 1000 ms.\<close>

definition demo_gate :: "string set turn_gate" where
  "demo_gate = \<lparr>tg_active = (\<lambda>i g. i \<in> g), tg_begin = (\<lambda>i g. if i \<in> g then Inl Turn_Active else Inr (insert i g)),
     tg_end = (\<lambda>i g. g - {i})\<rparr>"

lemma demo_gate_laws: "gate_laws demo_gate"
  by (auto simp: gate_laws_def demo_gate_def split: if_splits)

definition demo_env :: "(string set, demo_chan) mg_env" where
  "demo_env = \<lparr>me_gate = demo_gate, me_ttl = 1000, me_broadcast = demo_broadcast\<rparr>"

definition demo_choice :: "demo_chan mg_choice" where
  "demo_choice = \<lparr>ch_now = 5, ch_stop = False, ch_emit = (\<lambda>h. h)\<rparr>"

definition demo_start :: "(string set, demo_chan) mg_state" where
  "demo_start = mg_init {} demo_hub"

abbreviation acts :: "mg_task list \<Rightarrow> demo_chan mg_event list" where
  "acts ts \<equiv> map (Acts demo_choice) ts"

text \<open>A session is opened, a message is sent, and its turn is assembling.\<close>

definition sent_events :: "demo_chan mg_event list" where
  "sent_events = Arrives (Register ''s'' ''u'') # acts [Register ''s'' ''u'', Touch ''s'' ''u''] @
     Arrives (Send_Check ''s'' ''u'') # acts [Send_Check ''s'' ''u'', Send_Begin ''s'' ''u'', Send_Touch ''s'' ''u'',
       Send_Clear ''s'' 0, Send_Reset ''s'' 0]"

text \<open>As before, but a cancel finds the session active between \<open>try_begin\<close> and the two resets.\<close>

definition lost_events :: "demo_chan mg_event list" where
  "lost_events = Arrives (Register ''s'' ''u'') # acts [Register ''s'' ''u'', Touch ''s'' ''u''] @
     Arrives (Send_Check ''s'' ''u'') # acts [Send_Check ''s'' ''u'', Send_Begin ''s'' ''u'', Send_Touch ''s'' ''u''] @
     Arrives (Cancel_Check ''s'') # acts [Cancel_Check ''s'', Cancel_Find ''s'', Cancel_Signal 0] @
     acts [Send_Clear ''s'' 0, Send_Reset ''s'' 0, Turn_Assembling ''s'' 0, Turn_Published ''s'' 0 10]"

text \<open>A close sees no active turn while the message is between its checks; it ends after \<open>touch\<close>.\<close>

definition stray_events :: "demo_chan mg_event list" where
  "stray_events = Arrives (Register ''s'' ''u'') # acts [Register ''s'' ''u'', Touch ''s'' ''u''] @
     Arrives (Send_Check ''s'' ''u'') # Arrives (Close_Check ''s'') # acts [Send_Check ''s'' ''u'', Close_Check ''s'',
       Send_Begin ''s'' ''u'', Send_Touch ''s'' ''u'', Close_Slot ''s'', Close_Subject ''s'', Close_Table ''s'',
       Send_Clear ''s'' 0, Send_Reset ''s'' 0, Turn_Assembling ''s'' 0, Turn_Published ''s'' 0 11]"

lemmas run_simps = demo_start_def mg_init_def demo_choice_def demo_env_def demo_gate_def manager_touch_def table_touch_def
  table_sweep_def table_is_closed_def idle_out_def sat_minus_def gate_begin_def memory_ops find_entry_def
  on_hub_def new_entry_def Let_def

lemma sent_run: "\<exists>s. mg_run demo_env sent_events demo_start = Some s \<and> ms_tasks s = {#Turn_Assembling ''s'' 0#}"
  by (simp add: sent_events_def run_simps)

lemma lost_run: "\<exists>s. mg_run demo_env lost_events demo_start = Some s \<and> ms_tasks s = {#Turn_Running ''s'' 0 10#} \<and>
    mm_cancelled (ms_mem s) = {} \<and> \<not> en_requested (mm_entries (ms_mem s) 0)"
  by (simp add: lost_events_def run_simps eval_nat_numeral)

lemma stray_run: "\<exists>s. mg_run demo_env stray_events demo_start = Some s \<and> ms_tasks s = {#Turn_Running ''s'' 0 11#} \<and>
    table_is_closed ''s'' (ms_mem s) \<and> find_entry ''s'' (ms_mem s) = None \<and> tg_active demo_gate ''s'' (mm_gate (ms_mem s)) \<and>
    mm_cancelled (ms_mem s) = {}"
  by (simp add: stray_events_def run_simps eval_nat_numeral)

text \<open>
  Acancel that finds the session active can be lost (manager.rs:350-361): \<open>send\<close> has its permit
  from \<open>try_begin\<close>, but clears the entry afterwards, so a request noted in between is erased. Here the
  cancel has answered that a turn was active, and the turn runs with its handle not cancelled, no
  request noted and no other thread left.
\<close>

theorem cancel_can_be_lost:
  "gate_laws (me_gate demo_env) \<and>
   (\<exists>s. mg_path demo_env (mg_init {} demo_hub) lost_events s \<and> Acts demo_choice (Cancel_Signal 0) \<in> set lost_events \<and>
      ms_tasks s = {#Turn_Running ''s'' 0 10#} \<and> \<not> doomed_turn ''s'' s \<and> \<not> en_requested (mm_entries (ms_mem s) 0))"
proof -
  obtain s where run: "mg_run demo_env lost_events demo_start = Some s" and s: "ms_tasks s = {#Turn_Running ''s'' 0 10#}"
    "mm_cancelled (ms_mem s) = {}" "\<not> en_requested (mm_entries (ms_mem s) 0)"
    using lost_run by blast
  have "Acts demo_choice (Cancel_Signal 0) \<in> set lost_events" by (simp add: lost_events_def)
  then show ?thesis
    using mg_run_path [OF run] s demo_gate_laws by (auto simp: doomed_turn_def demo_env_def demo_start_def)
qed

text \<open>
  C34: a message and a close of the same session can leave a turn that runs in a closed session and that
  no cancel reaches (manager.rs:347 and 465-470): \<open>send\<close> passed \<open>is_closed\<close> before, \<open>close\<close> looked for an
  active turn before \<open>try_begin\<close>, and then removes the entry the turn has taken. Every later \<open>cancel\<close>
  finds the gate active, and no entry to signal.
\<close>

theorem closed_session_runs:
  "\<exists>s. mg_path demo_env (mg_init {} demo_hub) stray_events s \<and>
     ms_tasks s = {#Turn_Running ''s'' 0 11#} \<and> \<not> doomed_turn ''s'' s \<and> table_is_closed ''s'' (ms_mem s) \<and>
     fst (task_step demo_env demo_choice n (Cancel_Check ''s'') (ms_mem s)) = Some (Cancel_Find ''s'') \<and>
     fst (task_step demo_env demo_choice n (Cancel_Find ''s'') (ms_mem s)) = None"
proof -
  obtain s where run: "mg_run demo_env stray_events demo_start = Some s" and s: "ms_tasks s = {#Turn_Running ''s'' 0 11#}"
    "table_is_closed ''s'' (ms_mem s)" "find_entry ''s'' (ms_mem s) = None" "tg_active demo_gate ''s'' (mm_gate (ms_mem s))"
    "mm_cancelled (ms_mem s) = {}"
    using stray_run by blast
  show ?thesis
    using mg_run_path [OF run] s by (intro exI [of _ s]) (auto simp: doomed_turn_def demo_env_def demo_start_def)
qed

lemma demo_idle: "\<forall>i. \<not> tg_active (me_gate demo_env) i {}" and demo_env_laws: "gate_laws (me_gate demo_env)"
  using demo_gate_laws by (simp_all add: demo_env_def demo_gate_def)

lemma cancelled_run:
  "\<exists>s s1 s2. mg_run demo_env (sent_events @ Arrives (Cancel_Check ''s'') # acts [Cancel_Check ''s'', Cancel_Find ''s'']) demo_start = Some s \<and>
     Turn_Assembling ''s'' 0 \<in># ms_tasks s \<and> mg_do demo_env (Acts demo_choice (Cancel_Signal 0)) s = Some s1 \<and>
     mg_run demo_env (acts [Turn_Assembling ''s'' 0, Turn_Published ''s'' 0 10]) s1 = Some s2"
  by (simp add: sent_events_def run_simps eval_nat_numeral)

theorem one_turn_per_session_witness:
  "\<exists>s :: (string set, demo_chan) mg_state. ms_tasks s = {#Turn_Assembling ''s'' 0#} \<and> size {#t \<in># ms_tasks s. runs_turn ''s'' t#} \<le> 1"
proof -
  obtain s where run: "mg_run demo_env sent_events demo_start = Some s" and s: "ms_tasks s = {#Turn_Assembling ''s'' 0#}"
    using sent_run by blast
  have "size {#t \<in># ms_tasks s. runs_turn ''s'' t#} \<le> 1"
    using one_turn_per_session [OF demo_env_laws demo_idle mg_run_path [OF run, unfolded demo_start_def]] by blast
  then show ?thesis using s by blast
qed

theorem cancel_reaches_turn_witness:
  "\<exists>(s :: (string set, demo_chan) mg_state) t. {#t \<in># ms_tasks s. runs_turn ''s'' t#} = {#t#} \<and> doomed t (ms_mem s)"
proof -
  obtain s s1 s2 where
    run: "mg_run demo_env (sent_events @ Arrives (Cancel_Check ''s'') # acts [Cancel_Check ''s'', Cancel_Find ''s'']) demo_start = Some s"
    and t: "Turn_Assembling ''s'' 0 \<in># ms_tasks s"
    and ev: "mg_do demo_env (Acts demo_choice (Cancel_Signal 0)) s = Some s1"
    and run1: "mg_run demo_env (acts [Turn_Assembling ''s'' 0, Turn_Published ''s'' 0 10]) s1 = Some s2"
    using cancelled_run by blast
  have "\<forall>ev \<in> set (acts [Turn_Assembling ''s'' 0, Turn_Published ''s'' 0 10]). \<not> ends_turn ''s'' ev"
    by (simp add: demo_choice_def)
  then show ?thesis
    using cancel_reaches_turn [OF demo_env_laws demo_idle mg_run_path [OF run, unfolded demo_start_def] t _ _
        mg_do_step [OF ev] _ mg_run_path [OF run1], of "''s''" 0] by auto
qed

end
