(* ===== verification/Session_Calls.thy ===== *)
theory Session_Calls
  imports Session_Turns
begin

text \<open>
  The operations of the manager as a whole (\<open>lymaille/interactive/manager.rs\<close>): a session of another
  account cannot be told from one that does not exist, \<open>open\<close> is bounded by the sessions held in memory, and
  the memory part of \<open>send\<close> is the path of its thread in \<open>Session_Turns\<close>.
\<close>

section \<open>Sessions of another\<close>

lemma manager_principal_quiet:
  "quiet w \<Longrightarrow> find_user sub (tabs w) = Some u \<Longrightarrow> manager_principal D sub w =
     (Inr \<lparr>cp_user_id = u_id u, cp_subject = u_subject u, cp_is_admin = in_group (u_id u) admin_group_name (tabs w)\<rparr>, w)"
  by (simp add: manager_principal_def resolve_caller_quiet map_err_def)

lemma readable_absent:
  "quiet w \<Longrightarrow> sql_first sessions_table (session_conds (sub, i)) (tabs w) = None \<Longrightarrow>
     readable D sub i w = (Inl (Lym_NotFound session_not_found), w)"
  by (simp add: readable_def session_load_quiet act_eval)

lemmas call_defs = send_message_def subscribe_session_def cancel_turn_def resume_session_def close_session_def Let_def

text \<open>
  C17: for a session that the caller does not have (of another account, or of nobody) \<open>send\<close>, \<open>subscribe\<close>,
  \<open>cancel\<close> and \<open>resume\<close> answer the same \<open>session not found\<close>, whatever the memory of the process holds under the
  identifier, and change neither the tables nor the memory; \<open>close\<close> says nothing and does nothing.
\<close>

theorem foreign_session_hidden:
  assumes q: "quiet w" and u: "find_user sub (tabs w) = Some u"
    and absent: "sql_first sessions_table (session_conds (sub, i)) (tabs w) = None"
  shows "send_message M sub i (w, s) = (Inl (Lym_NotFound ''session not found''), (w, s)) \<and>
    subscribe_session M sub i (w, s) = (Inl (Lym_NotFound ''session not found''), (w, s)) \<and>
    cancel_turn M sub i (w, s) = (Inl (Lym_NotFound ''session not found''), (w, s)) \<and>
    resume_session M sub i (w, s) = (Inl (Lym_NotFound ''session not found''), (w, s)) \<and>
    close_session M sub i (w, s) = (Inr (), (w, s))"
  by (simp add: call_defs act_eval on_db_def manager_principal_quiet [OF q u] readable_absent [OF q absent]
      session_not_found_def)

section \<open>Opening\<close>

lemma open_session_Inr:
  assumes alone: "sh_others s = []" and run: "open_session M draw sub context agent (w, s) = (Inr out, (w', s'))"
  obtains caller w1 w2 skind agent_id definition1 now where
    "manager_principal (md_assemble M) sub w = (Inr caller, w1)"
    "resolve_opening M sub caller context agent w1 = (Inr (skind, agent_id, definition1), w2)"
    "cp_is_admin caller \<or> table_count sub (sh_mem s) < md_max_open M" "draw \<noteq> []"
    "out = \<lparr>sh_id = draw, sh_kind = skind, sh_agent_id = agent_id, sh_context = context, sh_notices = []\<rparr>"
    "s' = s\<lparr>sh_mem := snd (manager_touch (md_gate M) (md_idle_ttl_ms M) now sub draw
       ((sh_mem s)\<lparr>mm_hub := hub_register draw sub (mm_hub (sh_mem s))\<rparr>))\<rparr>"
proof -
  obtain caller w1 where caller: "manager_principal (md_assemble M) sub w = (Inr caller, w1)"
    using run by (auto simp: open_session_def Let_def act_inv on_db_eq)
  show ?thesis
    using run caller alone
    unfolding open_session_def Let_def do_touch_def
    by (cases "cp_is_admin caller")
      (auto simp: act_inv on_db_eq on_mem_quiet on_hub_def sh_mem_id split: if_splits intro!: that)
qed

lemma filter_length_mono: "length (filter (\<lambda>x. Q x \<and> P x) zs) \<le> length (filter P zs)"
  by (induction zs) auto

lemma touch_count: "table_count sub (snd (manager_touch G ttl now sub i m)) \<le> Suc (table_count sub m)"
proof -
  have "table_count sub (table_sweep G now ttl m) \<le> table_count sub m"
    by (simp add: table_count_def table_sweep_def filter_length_mono)
  moreover have "table_count sub (snd (table_touch sub i now k)) \<le> Suc (table_count sub k)" for k :: "('a, 'b) memory"
    by (auto simp: table_count_def table_touch_def set_entry_def Let_def split: option.split)
  ultimately show ?thesis unfolding manager_touch_def by (meson le_trans Suc_le_mono)
qed

lemma touch_finds: "find_entry i (snd (manager_touch G ttl now sub i m)) \<noteq> None"
  by (auto simp: manager_touch_def table_touch_def find_entry_def set_entry_def Let_def split: option.split)

lemma touch_hub: "mm_hub (snd (manager_touch G ttl now sub i m)) = mm_hub m"
  by (auto simp: manager_touch_def table_touch_def table_sweep_def set_entry_def Let_def split: option.split)


text \<open>
  The limit counts the sessions of the table as it is, and \<open>open\<close> unloads the idle ones only after
  the count (manager.rs:298-303): an account whose sessions have all been idle for longer than \<open>idle_ttl\<close> is
  refused with \<open>too many open sessions\<close>, although the sweep of the very next \<open>touch\<close> would leave none of them.
\<close>

theorem open_counts_idle:
  assumes "sh_others s = []" and "manager_principal (md_assemble M) sub w = (Inr caller, w1)" and "\<not> cp_is_admin caller"
    and "resolve_opening M sub caller context agent w1 = (Inr start, w2)"
    and "md_max_open M \<le> table_count sub (sh_mem s)"
    and "\<forall>i su e. (i, su, e) \<in> set (mm_by_id (sh_mem s)) \<longrightarrow>
      idle_out now (md_idle_ttl_ms M) (mm_entries (sh_mem s) e) \<and> \<not> tg_active (md_gate M) i (mm_gate (sh_mem s))"
  shows "open_session M draw sub context agent (w, s) = (Inl (Lym_Forbidden ''too many open sessions''), (w2, s)) \<and>
    table_count sub (table_sweep (md_gate M) now (md_idle_ttl_ms M) (sh_mem s)) = 0"
proof
  obtain skind agent_id definition1 where start: "start = (skind, agent_id, definition1)" by (cases start)
  show "open_session M draw sub context agent (w, s) = (Inl (Lym_Forbidden ''too many open sessions''), (w2, s))"
    using assms(1-5) start unfolding open_session_def Let_def
    by (simp add: act_simps on_db_run on_mem_quiet)
  show "table_count sub (table_sweep (md_gate M) now (md_idle_ttl_ms M) (sh_mem s)) = 0"
    using assms(6) by (fastforce simp: table_count_def table_sweep_def filter_empty_conv)
qed

section \<open>The agent of a session\<close>

definition context_conds :: "id_kind \<Rightarrow> user_row \<Rightarrow> string \<Rightarrow> sql_cond list" where
  "context_conds kind u context =
     Col_Eq ''name'' (VText (Some context)) # (if kind = Private_Id then [Col_Eq ''owner_id'' (VInt (Some (u_id u)))] else [])"

lemma session_kind_for_Inr:
  "session_kind_for tk nature = Inr k \<Longrightarrow> k \<noteq> Session_Other \<and> agent_kind_of k = nature \<and>
     (\<forall>wanted. tk = Some wanted \<longrightarrow> wanted = k \<or> wanted = Session_Other)"
  by (auto simp: session_kind_for_def split: option.splits session_kind.splits agent_kind.splits if_splits)

lemma visible_context_type_Inr:
  assumes "quiet w" and "visible_context_type D caller kind context w = (Inr x, w')" and "cp_user_id caller = u_id u"
  shows "w' = w \<and> (\<exists>r. sql_first (if kind = Catalog_Id then catalog_contexts_table else user_contexts_table)
      (context_conds kind u context) (tabs w) = Some r \<and> x = col_opt_text (r ''context_type''))"
  using assms by (auto simp: visible_context_type_def context_conds_def act_inv select_quiet split: option.splits)

lemma usable_context_type_Inr:
  assumes "quiet w" and "usable_context_type D name w = (Inr (Some (t, allowed)), w')"
  shows "w' = w \<and> (\<exists>r v. sql_first catalog_context_types_table [Col_Eq ''name'' (VText (Some name))] (tabs w) = Some r \<and>
      col_json (r ''active'') = Some v \<and> v \<noteq> JNull \<and> ct_of_json (ad_contexts D) v = Inr t \<and>
      allowed = allowed_agents (col_json (r ''allowed_agents'')))"
  using assms by (auto simp: usable_context_type_def act_inv select_quiet split: option.splits sum.splits if_splits)

lemma resolve_type_start_Inr:
  assumes "quiet w" and "cp_user_id caller = u_id u"
    and "resolve_type_start M sub caller kind context agent w = (Inr (skind, agent_id, definition1), w')"
  shows "\<exists>r name tr v t. sql_first (if kind = Catalog_Id then catalog_contexts_table else user_contexts_table)
      (context_conds kind u context) (tabs w) = Some r \<and> col_opt_text (r ''context_type'') = Some name \<and>
    sql_first catalog_context_types_table [Col_Eq ''name'' (VText (Some name))] (tabs w) = Some tr \<and>
    col_json (tr ''active'') = Some v \<and> ct_of_json (ad_contexts (md_assemble M)) v = Inr t \<and>
    agent_id \<in> set (allowed_agents (col_json (tr ''allowed_agents''))) \<and>
    Some agent_id = (case agent of Some a \<Rightarrow> Some a | None \<Rightarrow> ct_default_agent (ad_contexts (md_assemble M)) t) \<and>
    session_kind_for (md_type_kind M t) (al_agent_kind (ad_lib (md_assemble M)) definition1) = Inr skind"
proof -
  obtain x w1 where v: "visible_context_type (md_assemble M) caller kind context w = (Inr x, w1)"
    using assms(3) by (auto simp: resolve_type_start_def Let_def act_inv)
  obtain r where r: "sql_first (if kind = Catalog_Id then catalog_contexts_table else user_contexts_table)
      (context_conds kind u context) (tabs w) = Some r" "x = col_opt_text (r ''context_type'')" "w1 = w"
    using visible_context_type_Inr [OF assms(1) v assms(2)] by blast
  obtain name where name: "x = Some name"
    using assms(3) v by (cases x) (auto simp: resolve_type_start_def Let_def act_inv)
  obtain t allowed w2 where ty: "usable_context_type (md_assemble M) name w = (Inr (Some (t, allowed)), w2)"
    using assms(3) v r(3) name by (auto simp: resolve_type_start_def Let_def act_inv split: option.splits)
  note tr = usable_context_type_Inr [OF assms(1) ty]
  have "agent_id \<in> set allowed \<and>
      Some agent_id = (case agent of Some a \<Rightarrow> Some a | None \<Rightarrow> ct_default_agent (ad_contexts (md_assemble M)) t) \<and>
      session_kind_for (md_type_kind M t) (al_agent_kind (ad_lib (md_assemble M)) definition1) = Inr skind"
    using assms(3) v r(3) name ty
    by (auto simp: resolve_type_start_def Let_def act_inv split: option.splits if_splits)
  then show ?thesis using r(1,2) name tr by metis
qed

lemma open_session_resolved:
  assumes "open_session M draw sub context agent (w, s) = (Inr out, (w', s'))"
  obtains caller w1 w2 definition1 where "manager_principal (md_assemble M) sub w = (Inr caller, w1)"
    "resolve_opening M sub caller context agent w1 = (Inr (sh_kind out, sh_agent_id out, definition1), w2)"
proof -
  obtain caller w1 where c: "manager_principal (md_assemble M) sub w = (Inr caller, w1)"
    using assms by (auto simp: open_session_def Let_def and_then_eq_Inr on_db_eq)
  then obtain skind agent_id definition1 w2 where
    r: "resolve_opening M sub caller context agent w1 = (Inr (skind, agent_id, definition1), w2)"
    using assms by (auto simp: open_session_def Let_def and_then_eq_Inr on_db_eq)
  have "out = \<lparr>sh_id = draw, sh_kind = skind, sh_agent_id = agent_id, sh_context = context, sh_notices = []\<rparr>"
    using assms c r
    by (auto simp: open_session_def Let_def and_then_eq_Inr on_db_eq return_ok_def fail_with_def split: if_splits)
  then show ?thesis using that c r by simp
qed


section \<open>Calls as threads\<close>

definition env_of ::
    "('ts, 'sk, 'ct, 'cx, 'ag, 'pf, 'pv, 'rp, 'st, 'rc, 'gr, 'en, 'g, 'c, 'su) manager \<Rightarrow> ('g, 'c) mg_env" where
  "env_of M = \<lparr>me_gate = md_gate M, me_ttl = md_idle_ttl_ms M, me_broadcast = md_broadcast M\<rparr>"

definition at_time :: "u64 \<Rightarrow> 'c mg_choice" where
  "at_time now = \<lparr>ch_now = now, ch_stop = False, ch_emit = (\<lambda>h. h)\<rparr>"

lemma send_message_Inr:
  assumes "sh_others s = []" and "send_message M sub i (w, s) = (Inr (e, caller, st), (w', s'))"
  shows "\<exists>g. \<not> table_is_closed i (sh_mem s) \<and> tg_begin (md_gate M) i (mm_gate (sh_mem s)) = Inr g \<and>
    (let r = manager_touch (md_gate M) (md_idle_ttl_ms M) (ad_clock_ms (md_assemble M) w') sub i ((sh_mem s)\<lparr>mm_gate := g\<rparr>)
     in e = fst r \<and> s' = s\<lparr>sh_mem := clear_requested e (clear_handle e (snd r))\<rparr>)"
  using assms
  by (auto simp: send_message_def do_touch_def manager_clock_def Let_def act_inv on_db_eq on_mem_quiet gate_begin_def
      split: if_splits option.splits begin_error.splits sum.splits)

text \<open>
  A\<open>send\<close> that no other call interrupts does to the memory what its thread does in the interleaving
  model, section by section, beside whatever other threads \<open>T\<close> wait: it ends with the turn of the session
  in the pool, assembling on the entry that the answer gives to the detached task.
\<close>

theorem send_is_path:
  assumes "sh_others s = []" and "send_message M sub i (w, s) = (Inr (e, caller, st), (w', s'))"
  shows "mg_path (env_of M) \<lparr>ms_mem = sh_mem s, ms_tasks = T, ms_handles = n\<rparr>
    (Arrives (Send_Check i sub) # map (Acts (at_time (ad_clock_ms (md_assemble M) w')))
       [Send_Check i sub, Send_Begin i sub, Send_Touch i sub, Send_Clear i e, Send_Reset i e])
    \<lparr>ms_mem = sh_mem s', ms_tasks = add_mset (Turn_Assembling i e) T, ms_handles = n + 5\<rparr>"
  using send_message_Inr [OF assms]
  by (intro mg_run_path) (auto simp: env_of_def at_time_def gate_begin_def Let_def split: prod.split)

text \<open>The same of \<open>cancel\<close>, when the session is in the table.\<close>

lemma cancel_is_path:
  assumes "sh_others s = []" and "cancel_turn M sub i (w, s) = (Inr True, (w', s'))" and "find_entry i (sh_mem s) = Some e"
  shows "mg_path (env_of M) \<lparr>ms_mem = sh_mem s, ms_tasks = T, ms_handles = n\<rparr>
    (Arrives (Cancel_Check i) # map (Acts (at_time now)) [Cancel_Check i, Cancel_Find i, Cancel_Signal e])
    \<lparr>ms_mem = sh_mem s', ms_tasks = T, ms_handles = n + 3\<rparr>"
proof -
  have "tg_active (md_gate M) i (mm_gate (sh_mem s)) \<and> s' = s\<lparr>sh_mem := signal_entry e (sh_mem s)\<rparr>"
    using assms
    by (auto simp: cancel_turn_def do_signal_def Let_def act_inv on_db_eq on_mem_quiet sh_mem_id split: if_splits)
  then show ?thesis using assms(3) by (intro mg_run_path) (simp add: env_of_def at_time_def)
qed

section \<open>Examples\<close>

definition demo_manager ::
    "(json, unit, unit, json, json, json, json, json, string, unit, unit, unit, string set, demo_chan, string) manager" where
  "demo_manager =
     \<lparr>md_assemble = demo_assemble_deps, md_gate = demo_gate, md_broadcast = demo_broadcast, md_max_open = 2,
      md_idle_ttl_ms = 1000, md_resolve_start = (\<lambda>_ _. return_ok (Some (JString ''dev''))), md_type_kind = (\<lambda>_. None), md_summary = id\<rparr>"

definition demo_memory :: "(string set, demo_chan) memory shared" where
  "demo_memory = \<lparr>sh_mem = ms_mem demo_start, sh_others = []\<rparr>"

definition open_rows :: "(string \<times> row) list" where
  "open_rows = demo_session_rows ''none'' @
     [(user_contexts_table, demo_row [(''name'', VText (Some ''mine'')), (''owner_id'', VInt (Some 2)),
        (''context_type'', VText (Some ''G_type''))]),
      (catalog_context_types_table, demo_row [(''name'', VText (Some ''G_type'')), (''active'', VJson (Some (JString ''t''))),
        (''allowed_agents'', VJson (Some (JArray [JString ''G_dev''])))])]"

lemma open_run: "fst (open_session demo_manager ''s1'' ''bob'' ''mine'' (Some ''G_dev'') (demo_world open_rows, demo_memory)) =
    Inr \<lparr>sh_id = ''s1'', sh_kind = Session_Work, sh_agent_id = ''G_dev'', sh_context = ''mine'', sh_notices = []\<rparr>"
  by code_simp

lemma send_run: "map_option fst (case fst (send_message demo_manager ''bob'' ''s'' (demo_world open_rows, demo_memory)) of
    Inl _ \<Rightarrow> None | Inr r \<Rightarrow> Some r) = Some 0"
  by code_simp

lemma demo_rows_bob: "find_user ''bob'' (tabs (demo_world open_rows)) = Some (demo_user 2)"
    and demo_rows_not_admin: "\<not> in_group (u_id (demo_user 2)) admin_group_name (tabs (demo_world open_rows))"
  by code_simp+

lemma demo_no_session: "sql_first sessions_table (session_conds (''bob'', ''other'')) (tabs (demo_world open_rows)) = None"
proof -
  have "Option.is_none (sql_first sessions_table (session_conds (''bob'', ''other'')) (tabs (demo_world open_rows)))"
    by code_simp
  then show ?thesis by (simp add: Option.is_none_def split: option.splits)
qed

lemma demo_others: "sh_others demo_memory = []"
  by (simp add: demo_memory_def)

theorem foreign_session_hidden_witness:
  "send_message demo_manager ''bob'' ''other'' (demo_world open_rows, demo_memory) =
     (Inl (Lym_NotFound ''session not found''), (demo_world open_rows, demo_memory))"
  using foreign_session_hidden [OF demo_world_simps(1) demo_rows_bob demo_no_session] by blast



definition idle_memory :: "(string set, demo_chan) memory shared" where
  "idle_memory = demo_memory\<lparr>sh_mem := (sh_mem demo_memory)\<lparr>mm_by_id := [(''a'', ''bob'', 0), (''b'', ''bob'', 1)], mm_next := 2\<rparr>\<rparr>"

theorem open_counts_idle_witness:
  "\<exists>w'. open_session demo_manager ''s1'' ''bob'' ''mine'' (Some ''G_dev'') (demo_world open_rows, idle_memory) =
     (Inl (Lym_Forbidden ''too many open sessions''), (w', idle_memory)) \<and>
     table_count ''bob'' (table_sweep demo_gate 2000 1000 (sh_mem idle_memory)) = 0"
proof -
  let ?caller = "\<lparr>cp_user_id = 2, cp_subject = ''bob'', cp_is_admin = False\<rparr> :: caller_principal"
  have caller: "manager_principal (md_assemble demo_manager) ''bob'' (demo_world open_rows) = (Inr ?caller, demo_world open_rows)"
    using demo_rows_not_admin by (simp add: manager_principal_quiet [OF demo_world_simps(1) demo_rows_bob] demo_user_def)
  have "isl (fst (resolve_opening demo_manager ''bob'' ?caller ''mine'' (Some ''G_dev'') (demo_world open_rows))) = False"
    by code_simp
  then obtain start w2 where start:
    "resolve_opening demo_manager ''bob'' ?caller ''mine'' (Some ''G_dev'') (demo_world open_rows) = (Inr start, w2)"
    by (metis isl_def prod.collapse sum.exhaust_sel)
  have full: "md_max_open demo_manager \<le> table_count ''bob'' (sh_mem idle_memory)"
    by (simp add: demo_manager_def idle_memory_def table_count_def)
  have idle: "\<forall>i su e. (i, su, e) \<in> set (mm_by_id (sh_mem idle_memory)) \<longrightarrow>
      idle_out 2000 (md_idle_ttl_ms demo_manager) (mm_entries (sh_mem idle_memory) e) \<and>
      \<not> tg_active (md_gate demo_manager) i (mm_gate (sh_mem idle_memory))"
    by (simp add: idle_memory_def demo_memory_def demo_start_def mg_init_def demo_manager_def demo_gate_def idle_out_def
        sat_minus_def new_entry_def)
  have "sh_others idle_memory = []" by (simp add: idle_memory_def demo_memory_def)
  from open_counts_idle [OF this caller _ start full idle] show ?thesis by (auto simp: demo_manager_def)
qed

theorem send_is_path_witness:
  "\<exists>e (s' :: (string set, demo_chan) memory shared). mg_path (env_of demo_manager) \<lparr>ms_mem = sh_mem demo_memory, ms_tasks = {#}, ms_handles = 0\<rparr>
     (Arrives (Send_Check ''s'' ''bob'') # map (Acts (at_time 0))
       [Send_Check ''s'' ''bob'', Send_Begin ''s'' ''bob'', Send_Touch ''s'' ''bob'', Send_Clear ''s'' e, Send_Reset ''s'' e])
     \<lparr>ms_mem = sh_mem s', ms_tasks = {#Turn_Assembling ''s'' e#}, ms_handles = 5\<rparr>"
proof -
  obtain e caller st w' s' where run: "send_message demo_manager ''bob'' ''s'' (demo_world open_rows, demo_memory) = (Inr (e, caller, st), (w', s'))"
    using send_run by (cases "send_message demo_manager ''bob'' ''s'' (demo_world open_rows, demo_memory)") (auto split: sum.splits)
  have "ad_clock_ms (md_assemble demo_manager) w' = 0" by (simp add: demo_manager_def demo_assemble_deps_def)
  with send_is_path [OF demo_others run, of "{#}" 0] show ?thesis by auto
qed

end
