(* ===== verification/Chat_Render.thy ===== *)
theory Chat_Render
  imports Prelude
begin

text \<open>
  Messages for Matrix rooms (\<open>lymaille/chat/render.rs\<close>): an answer of an agent is cut into parts of bounded
  length at natural places, code blocks are closed and reopened around a cut, the parts are numbered,
  and after the eighth the rest is left out and counted. Shown: the parts hold the whole text in
  order, up to the declared markers and the counted rest; parts are within the limit, the truncated one
  excepted, for which an example shows that it is not, and that it can drop what would have fitted.
\<close>

section \<open>Characters\<close>

text \<open>A \<open>char\<close> of Rust is the list of its UTF-8 bytes; a \<open>Vec<char>\<close> or a text under construction is a list of them.\<close>

type_synonym uchar = string

function utf8_chars :: "string \<Rightarrow> uchar list" where
  "utf8_chars [] = []"
| "utf8_chars (c # cs) = (c # takeWhile cont_byte cs) # utf8_chars (dropWhile cont_byte cs)"
  by pat_completeness auto
termination by (relation "measure length") (auto simp: le_imp_less_Suc length_dropWhile_le)

lemma concat_utf8_chars: "concat (utf8_chars s) = s"
  by (induction s rule: utf8_chars.induct) auto

definition ascii_chars :: "string \<Rightarrow> uchar list" where
  "ascii_chars = map (\<lambda>c. [c])"

lemma length_ascii_chars [simp]: "length (ascii_chars s) = length s"
  by (simp add: ascii_chars_def)

definition newline :: uchar where "newline = [CHR 0x0A]"
definition space :: uchar where "space = '' ''"
definition backtick :: uchar where "backtick = ''`''"
definition fence :: "uchar list" where "fence = [backtick, backtick, backtick]"

definition trim_chars :: "uchar list \<Rightarrow> uchar list" where
  "trim_chars s = rev (dropWhile is_blank (rev (dropWhile is_blank s)))"

text \<open>\<open>chars.get(i)\<close> and \<open>chars.get(a..b).unwrap_or(&[])\<close>\<close>

definition get_char :: "uchar list \<Rightarrow> nat \<Rightarrow> uchar option" where
  "get_char s i = (if i < length s then Some (s ! i) else None)"

definition char_slice :: "uchar list \<Rightarrow> nat \<Rightarrow> nat \<Rightarrow> uchar list" where
  "char_slice s a b = (if a \<le> b \<and> b \<le> length s then take (b - a) (drop a s) else [])"

definition e_grave :: uchar where "e_grave = [CHR 0xC3, CHR 0xA8]"
definition E_acute :: uchar where "E_acute = [CHR 0xC3, CHR 0x89]"
definition em_dash :: uchar where "em_dash = [CHR 0xE2, CHR 0x80, CHR 0x94]"

fun intersperse :: "'a \<Rightarrow> 'a list \<Rightarrow> 'a list" where
  "intersperse x (a # b # bs) = a # x # intersperse x (b # bs)"
| "intersperse x s = s"

section \<open>Lines\<close>

definition max_part_chars :: nat where "max_part_chars = 4000"
definition max_parts :: nat where "max_parts = 8"
definition prefix_reserve :: nat where "prefix_reserve = 8"
definition fence_reserve :: nat where "fence_reserve = 16"
definition trunc_suffix_reserve :: nat where "trunc_suffix_reserve = 48"
definition body_budget :: nat where "body_budget = max_part_chars - prefix_reserve - fence_reserve"

record line_info =
  ln_start :: nat
  ln_end :: nat
  ln_blank :: bool
  ln_closes :: bool
  ln_opens :: "uchar list option"

text \<open>One turn of the loop: the line that starts the rest, where the next one starts, and whether a block is open then.\<close>

definition line_of :: "uchar list \<Rightarrow> bool \<Rightarrow> nat \<Rightarrow> line_info \<times> bool" where
  "line_of rest in_block index =
     (let content = takeWhile (\<lambda>c. c \<noteq> newline) rest; stop = index + length content;
          end1 = (if length content < length rest then stop + 1 else stop);
          trimmed = trim_chars content; fenced = (take 3 trimmed = fence);
          opens = (if fenced \<and> \<not> in_block then Some (dropWhile (\<lambda>c. c = backtick) trimmed) else None);
          closes = (fenced \<and> in_block); open1 = (if fenced then \<not> in_block else in_block)
      in (\<lparr>ln_start = index, ln_end = end1, ln_blank = (\<not> open1 \<and> \<not> closes \<and> opens = None \<and> content = []),
           ln_closes = closes, ln_opens = opens\<rparr>, open1))"

lemma line_of_start [simp]: "ln_start (fst (line_of rest b i)) = i"
  by (simp add: line_of_def Let_def)

lemma line_of_end: "ln_end (fst (line_of rest b i)) =
    i + length (takeWhile (\<lambda>c. c \<noteq> newline) rest) + (if length (takeWhile (\<lambda>c. c \<noteq> newline) rest) < length rest then 1 else 0)"
  by (simp add: line_of_def Let_def)

function line_infos_from :: "uchar list \<Rightarrow> bool \<Rightarrow> nat \<Rightarrow> line_info list" where
  "line_infos_from rest in_block index =
     (if rest = [] then []
      else case line_of rest in_block index of (l, open1) \<Rightarrow> l # line_infos_from (drop (ln_end l - index) rest) open1 (ln_end l))"
  by pat_completeness auto
termination
proof (relation "measure (\<lambda>(rest, _). length rest)")
  fix rest :: "uchar list" and b i l o1
  assume "rest \<noteq> []" and "(l, o1) = line_of rest b i"
  then have "i < ln_end l"
    using line_of_end [of rest b i] by (cases rest) (auto split: if_splits dest: arg_cong [where f = fst])
  then show "((drop (ln_end l - i) rest, o1, ln_end l), rest, b, i) \<in> measure (\<lambda>(rest, _). length rest)"
    using \<open>rest \<noteq> []\<close> by (cases rest) auto
qed simp

declare line_infos_from.simps [simp del]

definition line_infos :: "uchar list \<Rightarrow> line_info list" where
  "line_infos chars = line_infos_from chars False 0"

text \<open>The loop of \<open>fence_state\<close>, with the state of the block so far.\<close>

fun fence_walk :: "line_info list \<Rightarrow> nat \<Rightarrow> bool \<times> uchar list \<Rightarrow> bool \<times> uchar list" where
  "fence_walk [] p s = s"
| "fence_walk (l # ls) p (open1, lang) =
     (if p \<le> ln_start l then (open1, lang)
      else let s = (case ln_opens l of
                      Some name \<Rightarrow> if open1 then (open1, lang) else (True, name)
                    | None \<Rightarrow> if ln_closes l then (False, lang) else (open1, lang))
           in if p < ln_end l then s else fence_walk ls p s)"

definition fence_state :: "line_info list \<Rightarrow> nat \<Rightarrow> bool \<times> uchar list" where
  "fence_state lines1 p = fence_walk lines1 p (False, [])"

text \<open>The last candidate among the lines that start before \<open>to\<close>.\<close>

fun last_candidate :: "(line_info \<Rightarrow> nat option) \<Rightarrow> nat \<Rightarrow> line_info list \<Rightarrow> nat option \<Rightarrow> nat option" where
  "last_candidate f to [] best = best"
| "last_candidate f to (l # ls) best =
     (if to \<le> ln_start l then best
      else last_candidate f to ls (case f l of Some c \<Rightarrow> Some c | None \<Rightarrow> best))"

definition rposition :: "(uchar \<Rightarrow> bool) \<Rightarrow> uchar list \<Rightarrow> nat option" where
  "rposition P s = (case filter (\<lambda>i. P (s ! i)) [0..<length s] of [] \<Rightarrow> None | is \<Rightarrow> Some (last is))"

text \<open>The four preferences of \<open>find_cut\<close>: the end of a closed block, a blank line, the end of a line, a space.\<close>

definition closed_at :: "nat \<Rightarrow> nat \<Rightarrow> line_info \<Rightarrow> nat option" where
  "closed_at from1 to l = (if ln_closes l \<and> from1 < ln_end l \<and> ln_end l \<le> to then Some (ln_end l) else None)"

definition blank_at :: "nat \<Rightarrow> nat \<Rightarrow> line_info \<Rightarrow> nat option" where
  "blank_at from1 to l = (if ln_blank l \<and> from1 < ln_end l \<and> ln_end l \<le> to then Some (ln_end l) else None)"

definition line_end_at :: "uchar list \<Rightarrow> nat \<Rightarrow> nat \<Rightarrow> line_info \<Rightarrow> nat option" where
  "line_end_at chars from1 to l =
     (let c = min (ln_end l) to in if from1 < c \<and> get_char chars (c - 1) = Some newline then Some c else None)"

definition space_at :: "uchar list \<Rightarrow> nat \<Rightarrow> nat \<Rightarrow> nat option" where
  "space_at chars from1 to = map_option (\<lambda>offset. from1 + offset + 1) (rposition (\<lambda>c. c = space) (char_slice chars from1 to))"

definition find_cut :: "line_info list \<Rightarrow> uchar list \<Rightarrow> nat \<Rightarrow> nat \<Rightarrow> nat" where
  "find_cut lines1 chars from1 to =
     (case last_candidate (closed_at from1 to) to lines1 None of Some p \<Rightarrow> p | None \<Rightarrow>
      case last_candidate (blank_at from1 to) to lines1 None of Some p \<Rightarrow> p | None \<Rightarrow>
      case last_candidate (line_end_at chars from1 to) to lines1 None of Some p \<Rightarrow> p | None \<Rightarrow>
      case space_at chars from1 to of Some p \<Rightarrow> p | None \<Rightarrow> to)"

section \<open>Parts\<close>

definition truncation :: "nat \<Rightarrow> uchar list" where
  "truncation omitted =
     ellipsis # ascii_chars '' (sortie tronqu'' @ e_acute # ascii_chars (''e, '' @ show_nat omitted @ '' caract'') @
     e_grave # ascii_chars ''res omis)''"

definition closing :: "uchar list" where "closing = newline # fence"

definition reopening :: "uchar list \<Rightarrow> uchar list" where "reopening lang = fence @ lang @ [newline]"

text \<open>How much of the text the next part may take, given the parts so far; where the text is cut.\<close>

definition part_room :: "nat \<Rightarrow> nat \<Rightarrow> nat \<Rightarrow> uchar list \<Rightarrow> nat" where
  "part_room parts whole pos reopen =
     (let room = body_budget - length reopen in
      if parts + 1 = max_parts \<and> pos + room < whole then room - trunc_suffix_reserve else room)"

definition part_cut :: "line_info list \<Rightarrow> uchar list \<Rightarrow> nat \<Rightarrow> nat \<Rightarrow> nat" where
  "part_cut lines1 chars pos room =
     (let p = find_cut lines1 chars pos (min (pos + room) (length chars)) in if p \<le> pos then pos + 1 else p)"

definition part_closing :: "line_info list \<Rightarrow> nat \<Rightarrow> uchar list" where
  "part_closing lines1 p = (if fst (fence_state lines1 p) then closing else [])"

definition next_reopening :: "line_info list \<Rightarrow> nat \<Rightarrow> uchar list" where
  "next_reopening lines1 p = (if fst (fence_state lines1 p) then reopening (snd (fence_state lines1 p)) else [])"

text \<open>The loop of \<open>split_message\<close>: parts so far, position, characters consumed and the reopening of the next part.\<close>

function split_loop :: "line_info list \<Rightarrow> uchar list \<Rightarrow> uchar list list \<Rightarrow> nat \<Rightarrow> nat \<Rightarrow> uchar list \<Rightarrow> uchar list list" where
  "split_loop lines1 chars bodies pos consumed reopen =
     (let whole = length chars; room = part_room (length bodies) whole pos reopen; p = part_cut lines1 chars pos room;
          consumed1 = consumed + (p - pos); part = reopen @ char_slice chars pos p @ part_closing lines1 p
      in if whole \<le> pos then bodies
         else if whole \<le> pos + room \<and> length bodies + 1 \<noteq> max_parts then bodies @ [reopen @ char_slice chars pos whole]
         else if length bodies + 1 = max_parts
         then bodies @ [part @ (if p < whole then truncation (whole - consumed1) else [])]
         else split_loop lines1 chars (bodies @ [part]) p consumed1 (next_reopening lines1 p))"
  by pat_completeness auto
termination
  by (relation "measure (\<lambda>(_, chars, _, pos, _, _). length chars - pos)") (auto simp: Let_def part_cut_def)

declare split_loop.simps [simp del]

definition numbering :: "nat \<Rightarrow> nat \<Rightarrow> uchar list" where
  "numbering n i = ascii_chars (''('' @ show_nat (i + 1) @ ''/'' @ show_nat n @ '') '')"

definition numbered_parts :: "uchar list list \<Rightarrow> uchar list list" where
  "numbered_parts bodies =
     (let n = length bodies in if n = 1 then bodies else map (\<lambda>(i, b). numbering n i @ b) (enumerate 0 bodies))"

definition split_chars :: "uchar list \<Rightarrow> uchar list list" where
  "split_chars chars =
     (if chars = [] then [] else if length chars \<le> max_part_chars then [chars]
      else numbered_parts (split_loop (line_infos chars) chars [] 0 0 []))"

definition split_message :: "string \<Rightarrow> string list" where
  "split_message text1 = map concat (split_chars (utf8_chars text1))"

section \<open>Fixed messages\<close>

definition format_notice :: "string list \<Rightarrow> string option" where
  "format_notice notices = (if notices = [] then None else Some (''Reprise : '' @ concat (intersperse '' ; '' notices)))"

definition format_error :: "string \<Rightarrow> string" where
  "format_error code = E_acute @ ''chec du tour (code '' @ code @ '').''"

definition help_text :: string where
  "help_text = concat (intersperse newline
     [''Commandes du pont :'',
      ''!new <contexte> [agent] '' @ em_dash @ '' fermer la session de la salle et en ouvrir une nouvelle'',
      ''!cancel '' @ em_dash @ '' interrompre le tour en cours'',
      ''!resume '' @ em_dash @ '' reprendre la session et ses avis de provenance'',
      ''!activate <toolset> '' @ em_dash @ '' promouvoir le brouillon d'' @ [CHR 0x27] @ ''un toolset'',
      ''!link <code> '' @ em_dash @ '' lier ce compte Matrix '' @ a_grave @ '' un compte miryad'',
      ''!help '' @ em_dash @ '' cette aide''])"

section \<open>Cuts\<close>

lemma last_candidate_le:
  assumes "\<And>l p. f l = Some p \<Longrightarrow> p \<le> to"
  shows "last_candidate f to ls best = Some p \<Longrightarrow> \<forall>b. best = Some b \<longrightarrow> b \<le> to \<Longrightarrow> p \<le> to"
  using assms by (induction ls arbitrary: best) (auto split: option.splits if_splits)

lemma rposition_Some: "rposition P s = Some i \<Longrightarrow> i < length s"
proof -
  assume a: "rposition P s = Some i"
  then have "filter (\<lambda>i. P (s ! i)) [0..<length s] \<noteq> [] \<and> i = last (filter (\<lambda>i. P (s ! i)) [0..<length s])"
    by (cases "filter (\<lambda>i. P (s ! i)) [0..<length s]") (auto simp: rposition_def)
  then have "i \<in> set (filter (\<lambda>i. P (s ! i)) [0..<length s])" by (metis last_in_set)
  then show ?thesis by simp
qed

lemma length_slice: "length (char_slice s a b) \<le> b - a"
  by (simp add: char_slice_def)

lemma find_cut_le: "find_cut ls chars from1 to \<le> to"
proof -
  have c: "last_candidate (closed_at from1 to) to ls None = Some p \<Longrightarrow> p \<le> to" for p
    by (rule last_candidate_le) (auto simp: closed_at_def split: if_splits)
  have b: "last_candidate (blank_at from1 to) to ls None = Some p \<Longrightarrow> p \<le> to" for p
    by (rule last_candidate_le) (auto simp: blank_at_def split: if_splits)
  have l: "last_candidate (line_end_at chars from1 to) to ls None = Some p \<Longrightarrow> p \<le> to" for p
    by (rule last_candidate_le) (auto simp: line_end_at_def Let_def split: if_splits)
  have s: "space_at chars from1 to = Some p \<Longrightarrow> p \<le> to" for p
    using rposition_Some [of _ "char_slice chars from1 to"] length_slice [of chars from1 to]
    by (fastforce simp: space_at_def)
  show ?thesis unfolding find_cut_def by (simp add: c b l s split: option.split)
qed

lemma part_cut_bounds:
  assumes "pos < length chars"
  shows "pos < part_cut ls chars pos room" and "part_cut ls chars pos room \<le> length chars"
    and "part_cut ls chars pos room \<le> pos + max 1 room"
  using find_cut_le [of ls chars pos "min (pos + room) (length chars)"] assms by (auto simp: part_cut_def Let_def)

lemma slice_drop: "a \<le> b \<Longrightarrow> b \<le> length s \<Longrightarrow> char_slice s a b @ drop b s = drop a s"
  by (simp add: char_slice_def) (metis append_take_drop_id drop_drop le_add_diff_inverse2)

lemma slice_nonempty: "a < b \<Longrightarrow> b \<le> length s \<Longrightarrow> char_slice s a b \<noteq> []"
  by (simp add: char_slice_def)

section \<open>The parts hold the text\<close>

type_synonym piece = "uchar list \<times> uchar list \<times> uchar list"

definition glue :: "piece \<Rightarrow> uchar list" where
  "glue = (\<lambda>(pre, mid, post). pre @ mid @ post)"

definition mids :: "piece list \<Rightarrow> uchar list" where
  "mids ps = concat (map (\<lambda>(_, mid, _). mid) ps)"

lemma mids_simps [simp]: "mids [] = []" "mids ((pre, mid, post) # ps) = mid @ mids ps"
  by (simp_all add: mids_def)

text \<open>
  What may stand around the text: the reopening that the part before owes, the closing of an open block, and
  after the last part the count of what is left out.
\<close>

fun markers :: "uchar list \<Rightarrow> piece list \<Rightarrow> uchar list \<Rightarrow> bool" where
  "markers owed [] rest = False"
| "markers owed [(pre, mid, post)] rest =
     (pre = owed \<and> mid \<noteq> [] \<and>
      (\<exists>c \<in> {[], closing}. post = c @ (if rest = [] then [] else truncation (length rest))))"
| "markers owed ((pre, mid, post) # q # ps) rest =
     (pre = owed \<and> mid \<noteq> [] \<and>
      (post = [] \<and> markers [] (q # ps) rest \<or> post = closing \<and> (\<exists>lang. markers (reopening lang) (q # ps) rest)))"

text \<open>The parts \<open>new\<close> after \<open>k\<close> earlier ones hold the text \<open>s\<close>; what they leave out is counted in the eighth.\<close>

definition holds_text :: "nat \<Rightarrow> uchar list \<Rightarrow> uchar list \<Rightarrow> uchar list list \<Rightarrow> bool" where
  "holds_text k s owed new \<longleftrightarrow>
     (\<exists>ps rest. new = map glue ps \<and> s = mids ps @ rest \<and> k + length ps \<le> max_parts \<and>
        (rest \<noteq> [] \<longrightarrow> k + length ps = max_parts) \<and> markers owed ps rest)"

lemma holds_text_one:
  assumes "mid \<noteq> []" and "c \<in> {[], closing}" and "k < max_parts" and "rest \<noteq> [] \<longrightarrow> k + 1 = max_parts"
  shows "holds_text k (mid @ rest) owed [owed @ mid @ c @ (if rest = [] then [] else truncation (length rest))]"
  unfolding holds_text_def using assms
  by (intro exI [of _ "[(owed, mid, c @ (if rest = [] then [] else truncation (length rest)))]"] exI [of _ rest])
    (auto simp: glue_def)

lemma holds_text_cons:
  assumes "holds_text (k + 1) s owed' new" and "mid \<noteq> []"
    and "c = [] \<and> owed' = [] \<or> c = closing \<and> (\<exists>lang. owed' = reopening lang)"
  shows "holds_text k (mid @ s) owed ((owed @ mid @ c) # new)"
proof -
  obtain ps rest where ps: "new = map glue ps" "s = mids ps @ rest" "k + 1 + length ps \<le> max_parts"
    "rest \<noteq> [] \<longrightarrow> k + 1 + length ps = max_parts" "markers owed' ps rest"
    using assms(1) unfolding holds_text_def by blast
  obtain q qs where q: "ps = q # qs" using ps(5) by (cases ps) auto
  have "markers owed ((owed, mid, c) # ps) rest" using ps(5) assms(2,3) by (auto simp: q)
  then show ?thesis
    unfolding holds_text_def using ps
    by (intro exI [of _ "(owed, mid, c) # ps"] exI [of _ rest]) (auto simp: glue_def)
qed

lemma closing_cases:
  "part_closing ls p = [] \<and> next_reopening ls p = [] \<or> part_closing ls p = closing \<and> (\<exists>lang. next_reopening ls p = reopening lang)"
  by (auto simp: part_closing_def next_reopening_def)

lemma split_loop_holds:
  "pos < length chars \<Longrightarrow> length bodies < max_parts \<Longrightarrow> consumed = pos \<Longrightarrow>
   \<exists>new. split_loop ls chars bodies pos consumed reopen = bodies @ new \<and> holds_text (length bodies) (drop pos chars) reopen new"
proof (induction ls chars bodies pos consumed reopen rule: split_loop.induct)
  case (1 ls chars bodies pos consumed reopen)
  define room where "room = part_room (length bodies) (length chars) pos reopen"
  define p where "p = part_cut ls chars pos room"
  define part where "part = reopen @ char_slice chars pos p @ part_closing ls p"
  note p = part_cut_bounds(1,2) [OF "1.prems"(1), of ls room, folded p_def]
  have text_eq: "drop pos chars = char_slice chars pos p @ drop p chars" using slice_drop [of pos p chars] p by simp
  have mid: "char_slice chars pos p \<noteq> []" by (rule slice_nonempty [OF p])
  have c: "part_closing ls p \<in> {[], closing}" using closing_cases by blast
  note run = split_loop.simps [of ls chars bodies pos consumed reopen, unfolded Let_def, folded room_def, folded p_def, folded part_def]
  show ?case
  proof (cases "length bodies + 1 = max_parts")
    case True
    have rest: "length chars - (consumed + (p - pos)) = length (drop p chars)" "p < length chars \<longleftrightarrow> drop p chars \<noteq> []"
      using "1.prems"(3) p by auto
    have "split_loop ls chars bodies pos consumed reopen =
        bodies @ [reopen @ char_slice chars pos p @ part_closing ls p @ (if drop p chars = [] then [] else truncation (length (drop p chars)))]"
      unfolding run rest using "1.prems"(1) True by (simp add: part_def)
    then show ?thesis
      using holds_text_one [OF mid c "1.prems"(2), of "drop p chars" reopen] True by (simp add: text_eq)
  next
    case more: False
    show ?thesis
    proof (cases "length chars \<le> pos + room")
      case True
      have all: "char_slice chars pos (length chars) = drop pos chars" using "1.prems"(1) by (simp add: char_slice_def)
      have "split_loop ls chars bodies pos consumed reopen = bodies @ [reopen @ drop pos chars]"
        unfolding run all using "1.prems"(1) True more by simp
      then show ?thesis
        using holds_text_one [of "drop pos chars" "[]" "length bodies" "[]" reopen] "1.prems"(1,2) by simp
    next
      case False
      have step: "split_loop ls chars bodies pos consumed reopen =
          split_loop ls chars (bodies @ [part]) p (consumed + (p - pos)) (next_reopening ls p)"
        unfolding run using "1.prems"(1) False more by simp
      show ?thesis
      proof (cases "p < length chars")
        case True
        have "\<exists>new. split_loop ls chars (bodies @ [part]) p (consumed + (p - pos)) (next_reopening ls p) = (bodies @ [part]) @ new \<and>
            holds_text (length (bodies @ [part])) (drop p chars) (next_reopening ls p) new"
          using "1.IH" [OF refl refl refl refl refl] "1.prems" False more True p
          unfolding room_def [symmetric] p_def [symmetric] part_def [symmetric] by simp
        then obtain new where "split_loop ls chars bodies pos consumed reopen = bodies @ part # new"
          "holds_text (length bodies + 1) (drop p chars) (next_reopening ls p) new"
          using step by auto
        then show ?thesis
          using holds_text_cons [OF _ mid closing_cases [of ls p], of "length bodies" "drop p chars" new reopen]
          by (auto simp: text_eq part_def)
      next
        case over: False
        have "split_loop ls chars (bodies @ [part]) p (consumed + (p - pos)) (next_reopening ls p) = bodies @ [part]"
          using over by (subst split_loop.simps) (simp add: Let_def)
        then show ?thesis
          using step over holds_text_one [OF mid c "1.prems"(2), of "[]" reopen] p by (simp add: text_eq part_def)
      qed
    qed
  qed
qed

text \<open>
  C16: a long answer is sent whole and in order: it is the concatenation of the pieces of text in the parts,
  each piece not empty, with nothing around a piece but its number, the fence that closes an open code block
  and the one that reopens it in the next part. Only a rest after the eighth part is left out, and its exact
  length is announced at the end of that part.
\<close>

theorem split_keeps_text:
  assumes "max_part_chars < length (utf8_chars s)"
  shows "\<exists>ps rest. split_message s = map concat (numbered_parts (map glue ps)) \<and>
    s = concat (mids ps) @ concat rest \<and> length ps \<le> max_parts \<and> (rest \<noteq> [] \<longrightarrow> length ps = max_parts) \<and> markers [] ps rest"
proof -
  let ?chars = "utf8_chars s"
  have ne: "?chars \<noteq> []" using assms by auto
  have "split_chars ?chars = numbered_parts (split_loop (line_infos ?chars) ?chars [] 0 0 [])"
    using assms by (auto simp: split_chars_def)
  moreover have "holds_text 0 ?chars [] (split_loop (line_infos ?chars) ?chars [] 0 0 [])"
    using split_loop_holds [of 0 ?chars "[]" 0 "line_infos ?chars" "[]"] ne by (auto simp: max_parts_def)
  then obtain ps rest where "split_loop (line_infos ?chars) ?chars [] 0 0 [] = map glue ps" and ps: "?chars = mids ps @ rest"
    "length ps \<le> max_parts" "rest \<noteq> [] \<longrightarrow> length ps = max_parts" "markers [] ps rest"
    unfolding holds_text_def by (metis add_0)
  ultimately have split: "split_chars ?chars = numbered_parts (map glue ps)" by simp
  have "s = concat (mids ps) @ concat rest" using concat_utf8_chars [of s] ps(1) by (metis concat_append)
  then show ?thesis using split ps by (auto simp: split_message_def)
qed

section \<open>The limit\<close>

lemma fence_walk_lang:
  "fence_walk ls p (o1, lang) = (True, lang') \<Longrightarrow> o1 \<and> lang' = lang \<or> (\<exists>l \<in> set ls. ln_opens l = Some lang')"
proof (induction ls arbitrary: o1 lang)
  case (Cons l ls)
  then show ?case by (fastforce simp: Let_def split: if_splits option.splits)
qed simp

lemma next_reopening_length:
  assumes "\<forall>l \<in> set ls. \<forall>lang. ln_opens l = Some lang \<longrightarrow> length lang + 5 \<le> body_budget" and "5 \<le> body_budget"
  shows "length (next_reopening ls p) < body_budget"
proof (cases "fence_state ls p")
  case (Pair o1 lang)
  then show ?thesis
    using fence_walk_lang [of ls p False "[]" lang] assms
    by (cases o1) (fastforce simp: next_reopening_def fence_state_def reopening_def fence_def)+
qed

lemma part_bounded:
  assumes "pos < length chars" and "length reopen < body_budget"
  shows "length (reopen @ char_slice chars pos (part_cut ls chars pos (part_room k (length chars) pos reopen)) @ part_closing ls p) \<le> body_budget + 4"
proof -
  let ?room = "part_room k (length chars) pos reopen"
  have "length (char_slice chars pos (part_cut ls chars pos ?room)) \<le> max 1 ?room"
    using length_slice [of chars pos "part_cut ls chars pos ?room"] part_cut_bounds(3) [OF assms(1), of ls ?room] by linarith
  moreover have "?room \<le> body_budget - length reopen"
    by (auto simp: part_room_def Let_def intro: diff_le_mono2)
  moreover have "length (part_closing ls p) \<le> 4" by (simp add: part_closing_def closing_def fence_def)
  ultimately show ?thesis using assms(2) by auto
qed

text \<open>A part within the limit, or one that announces an omission.\<close>

definition fits :: "uchar list \<Rightarrow> bool" where
  "fits b \<longleftrightarrow> length b \<le> body_budget + 4 \<or> (\<exists>b0 n. 0 < n \<and> b = b0 @ truncation n)"

lemma split_loop_fits:
  assumes big: "5 \<le> body_budget"
  shows "\<forall>l \<in> set ls. \<forall>lang. ln_opens l = Some lang \<longrightarrow> length lang + 5 \<le> body_budget \<Longrightarrow> length reopen < body_budget \<Longrightarrow>
    consumed = pos \<Longrightarrow> \<forall>b \<in> set bodies. fits b \<Longrightarrow> \<forall>b \<in> set (split_loop ls chars bodies pos consumed reopen). fits b"
proof (induction ls chars bodies pos consumed reopen rule: split_loop.induct)
  case (1 ls chars bodies pos consumed reopen)
  define room where "room = part_room (length bodies) (length chars) pos reopen"
  define p where "p = part_cut ls chars pos room"
  define part where "part = reopen @ char_slice chars pos p @ part_closing ls p"
  note run = split_loop.simps [of ls chars bodies pos consumed reopen, unfolded Let_def, folded room_def, folded p_def, folded part_def]
  show ?case
  proof (cases "length chars \<le> pos")
    case True
    then show ?thesis using run "1.prems"(4) by simp
  next
    case pos: False
    then have part: "fits part"
      using part_bounded [of pos chars reopen ls "length bodies" p] "1.prems"(2) by (simp add: part_def p_def room_def fits_def)
    have ppos: "pos < p" using part_cut_bounds(1) [of pos chars ls room] pos by (simp add: p_def)
    consider (all) "length chars \<le> pos + room" "length bodies + 1 \<noteq> max_parts" | (eighth) "length bodies + 1 = max_parts"
      | (further) "\<not> length chars \<le> pos + room" "length bodies + 1 \<noteq> max_parts" by blast
    then show ?thesis
    proof cases
      case all
      have "room \<le> body_budget - length reopen" by (auto simp: room_def part_room_def Let_def intro: diff_le_mono2)
      then have "fits (reopen @ char_slice chars pos (length chars))"
        using all(1) "1.prems"(2) length_slice [of chars pos "length chars"] unfolding fits_def by (intro disjI1) simp
      then show ?thesis unfolding run using all pos "1.prems"(4) by simp
    next
      case eighth
      have "fits (part @ truncation n)" if "0 < n" for n using that unfolding fits_def by blast
      then have "fits (part @ (if p < length chars then truncation (length chars - (consumed + (p - pos))) else []))"
        using part ppos "1.prems"(3) by simp
      then show ?thesis unfolding run using eighth pos "1.prems"(4) by simp
    next
      case further
      then have "split_loop ls chars bodies pos consumed reopen =
          split_loop ls chars (bodies @ [part]) p (consumed + (p - pos)) (next_reopening ls p)"
        unfolding run using pos by simp
      moreover have "\<forall>b \<in> set (split_loop ls chars (bodies @ [part]) p (consumed + (p - pos)) (next_reopening ls p)). fits b"
      proof (rule "1.IH" [OF refl refl refl refl refl, folded room_def, folded p_def, folded part_def])
        show "length (next_reopening ls p) < body_budget" by (rule next_reopening_length [OF "1.prems"(1) big])
        show "\<forall>b \<in> set (bodies @ [part]). fits b" using "1.prems"(4) part by simp
        show "consumed + (p - pos) = p" using "1.prems"(3) ppos by simp
      qed (use further pos "1.prems"(1) in simp_all)
      ultimately show ?thesis by simp
    qed
  qed
qed

lemma show_nat_digit: "n < 10 \<Longrightarrow> length (show_nat n) = 1"
  by (subst show_nat.simps) simp

lemma numbering_length: "n \<le> 8 \<Longrightarrow> i < n \<Longrightarrow> length (numbering n i) = 6"
  using show_nat_digit [of "i + 1"] show_nat_digit [of n] by (simp add: numbering_def)

lemma max_parts_8: "max_parts = 8" by (simp add: max_parts_def)

text \<open>
  Amessage is sent in at most eight parts, and every part has at most 4000 characters, its number and its
  fences included, unless it announces an omission. This holds for every text in which no fence names a
  language of almost a whole part (more than 3971 characters).
\<close>

theorem split_parts_bounded:
  assumes "\<forall>l \<in> set (line_infos (utf8_chars s)). \<forall>lang. ln_opens l = Some lang \<longrightarrow> length lang + 5 \<le> body_budget"
  shows "length (split_message s) \<le> 8 \<and>
    (\<forall>part \<in> set (split_chars (utf8_chars s)). length part \<le> 4000 \<or> (\<exists>b n. 0 < n \<and> part = b @ truncation n))"
proof (cases "length (utf8_chars s) \<le> max_part_chars")
  case True
  then show ?thesis by (auto simp: split_message_def split_chars_def max_part_chars_def)
next
  case False
  define bodies where "bodies = split_loop (line_infos (utf8_chars s)) (utf8_chars s) [] 0 0 []"
  have parts: "split_chars (utf8_chars s) = numbered_parts bodies" using False by (auto simp: split_chars_def bodies_def)
  have "utf8_chars s \<noteq> []" using False by auto
  then have n: "length bodies \<le> 8"
    using split_loop_holds [of 0 "utf8_chars s" "[]" 0 "line_infos (utf8_chars s)" "[]"]
    by (auto simp: bodies_def holds_text_def max_parts_8)
  have fit: "\<forall>b \<in> set bodies. fits b"
    using split_loop_fits [OF _ assms, of "[]" 0 0 "[]" "utf8_chars s"]
    by (simp add: bodies_def body_budget_def max_part_chars_def prefix_reserve_def fence_reserve_def)
  have "length part \<le> 4000 \<or> (\<exists>b n. 0 < n \<and> part = b @ truncation n)" if part: "part \<in> set (numbered_parts bodies)" for part
  proof -
    obtain pre b where b: "part = pre @ b" "b \<in> set bodies" "length pre \<le> 6"
    proof (cases "length bodies = 1")
      case True
      then show ?thesis using part that [of "[]" part] by (simp add: numbered_parts_def)
    next
      case False
      then obtain i where "i < length bodies" "part = numbering (length bodies) i @ bodies ! i"
        using part by (auto simp: numbered_parts_def Let_def in_set_enumerate_eq)
      then show ?thesis using that [of "numbering (length bodies) i" "bodies ! i"] numbering_length [OF n] by simp
    qed
    then consider "length b \<le> body_budget + 4" | b0 m where "0 < m" "b = b0 @ truncation m" using fit by (auto simp: fits_def)
    then show ?thesis
    proof cases
      case 1
      then show ?thesis using b by (simp add: body_budget_def max_part_chars_def prefix_reserve_def fence_reserve_def)
    next
      case 2
      then have "part = (pre @ b0) @ truncation m" using b(1) by simp
      then show ?thesis using 2(1) by blast
    qed
  qed
  moreover have "length (numbered_parts bodies) = length bodies" by (simp add: numbered_parts_def Let_def)
  ultimately show ?thesis using n parts by (simp add: split_message_def)
qed

section \<open>An answer that would have fitted\<close>

definition long_text :: "nat \<Rightarrow> string" where
  "long_text n = replicate n (CHR ''a'') @ [CHR 0x0A, CHR ''b'']"

definition long_chars :: "nat \<Rightarrow> uchar list" where
  "long_chars n = replicate n ''a'' @ [newline, ''b'']"

definition long_lines :: "nat \<Rightarrow> line_info list" where
  "long_lines n = [\<lparr>ln_start = 0, ln_end = n + 1, ln_blank = False, ln_closes = False, ln_opens = None\<rparr>,
     \<lparr>ln_start = n + 1, ln_end = n + 2, ln_blank = False, ln_closes = False, ln_opens = None\<rparr>]"

lemma utf8_chars_ascii: "list_all (\<lambda>c. \<not> cont_byte c) s \<Longrightarrow> utf8_chars s = ascii_chars s"
proof (induction s)
  case (Cons c s)
  then have "takeWhile cont_byte s = [] \<and> dropWhile cont_byte s = s" by (cases s) auto
  then show ?case using Cons by (simp add: ascii_chars_def)
qed (simp add: ascii_chars_def)

lemma long_text_chars: "utf8_chars (long_text n) = long_chars n"
proof -
  have "list_all (\<lambda>c. \<not> cont_byte c) (long_text n)" by (simp add: long_text_def list_all_iff cont_byte_def)
  then show ?thesis by (simp add: utf8_chars_ascii ascii_chars_def long_text_def long_chars_def newline_def)
qed

lemma long_chars_simps: "length (long_chars n) = n + 2" "k < n \<Longrightarrow> long_chars n ! k = ''a''" "long_chars n ! n = newline"
  "long_chars n ! Suc n = ''b''"
  by (simp_all add: long_chars_def nth_append)

lemma no_fence: "trim_chars (replicate (Suc n) ''a'') = replicate (Suc n) ''a''" "take 3 (replicate (Suc n) ''a'') \<noteq> fence"
proof -
  have "dropWhile is_blank (replicate (Suc n) ''a'') = replicate (Suc n) ''a''" by (simp add: is_blank_def)
  then show "trim_chars (replicate (Suc n) ''a'') = replicate (Suc n) ''a''" by (simp add: trim_chars_def del: replicate_Suc)
  show "take 3 (replicate (Suc n) ''a'') \<noteq> fence" by (simp add: fence_def backtick_def)
qed

lemma long_lines_eq: "0 < n \<Longrightarrow> line_infos (long_chars n) = long_lines n"
proof -
  assume "0 < n"
  then obtain k where n: "n = Suc k" by (cases n) auto
  have tw: "takeWhile (\<lambda>c. c \<noteq> newline) (long_chars n) = replicate n ''a''"
    unfolding long_chars_def by (subst takeWhile_append2) (auto simp: newline_def)
  have first: "line_of (long_chars n) False 0 = (hd (long_lines n), False)"
    unfolding line_of_def Let_def tw using no_fence [of k] by (simp add: n long_chars_simps long_lines_def del: replicate_Suc)
  have last: "line_of [''b''] False (n + 1) = (last (long_lines n), False)"
    by (simp add: line_of_def Let_def newline_def long_lines_def trim_chars_def is_blank_def fence_def backtick_def)
  have "line_infos (long_chars n) = hd (long_lines n) # line_infos_from [''b''] False (n + 1)"
    unfolding line_infos_def using first
    by (subst line_infos_from.simps) (simp add: long_chars_def long_lines_def)
  also have "line_infos_from [''b''] False (n + 1) = [last (long_lines n)]"
    using last by (subst line_infos_from.simps) (simp add: long_lines_def line_infos_from.simps)
  finally show ?thesis by (simp add: long_lines_def)
qed

lemma no_marks: "part_closing (long_lines n) p = []" "next_reopening (long_lines n) p = []"
  by (simp_all add: part_closing_def next_reopening_def fence_state_def long_lines_def Let_def)

lemma long_slice: "to \<le> n \<Longrightarrow> char_slice (long_chars n) pos to = replicate (to - pos) ''a''"
  by (auto simp: char_slice_def long_chars_def)

lemma find_cut_inside:
  assumes "pos < to" and "to \<le> n"
  shows "find_cut (long_lines n) (long_chars n) pos to = to"
proof -
  have "rposition (\<lambda>c. c = space) (replicate k ''a'') = None" for k
    by (simp add: rposition_def space_def filter_empty_conv split: list.split)
  then show ?thesis
    using assms
    by (simp add: find_cut_def closed_at_def blank_at_def line_end_at_def space_at_def long_lines_def Let_def get_char_def
        long_chars_simps long_slice newline_def)
qed

lemma find_cut_end:
  assumes "pos \<le> n"
  shows "find_cut (long_lines n) (long_chars n) pos (n + 2) = n + 1"
  using assms
  by (simp add: find_cut_def closed_at_def blank_at_def line_end_at_def long_lines_def Let_def get_char_def long_chars_simps newline_def)

lemma budget_simps: "body_budget = 3976" "trunc_suffix_reserve = 48"
  by (simp_all add: body_budget_def max_part_chars_def prefix_reserve_def fence_reserve_def trunc_suffix_reserve_def)

lemma long_step:
  assumes "length bodies + 1 < max_parts" and "pos + body_budget \<le> n"
  shows "split_loop (long_lines n) (long_chars n) bodies pos pos [] =
    split_loop (long_lines n) (long_chars n) (bodies @ [replicate body_budget ''a'']) (pos + body_budget) (pos + body_budget) []"
proof -
  have room: "part_room (length bodies) (Suc (Suc n)) pos [] = body_budget" using assms by (simp add: part_room_def Let_def)
  have "part_cut (long_lines n) (long_chars n) pos body_budget = pos + body_budget"
    using find_cut_inside [of pos "pos + body_budget" n] assms(2)
    by (simp add: part_cut_def Let_def long_chars_simps budget_simps)
  then show ?thesis
    using assms by (subst split_loop.simps) (simp add: Let_def room long_chars_simps no_marks long_slice)
qed

lemma long_end:
  assumes "length bodies + 1 = max_parts" and "pos + body_budget = n + 2"
  shows "split_loop (long_lines n) (long_chars n) bodies pos pos [] =
    bodies @ [char_slice (long_chars n) pos (n + 1) @ truncation 1]"
proof -
  have room: "part_room (length bodies) (Suc (Suc n)) pos [] = body_budget" using assms by (simp add: part_room_def Let_def)
  have pos: "pos \<le> n" using assms(2) by (simp add: budget_simps)
  then have "part_cut (long_lines n) (long_chars n) pos body_budget = n + 1"
    using find_cut_end [of pos n] assms(2) by (simp add: part_cut_def Let_def long_chars_simps)
  then show ?thesis
    using assms pos by (subst split_loop.simps) (simp add: Let_def room long_chars_simps no_marks)
qed

lemma long_steps:
  assumes "k \<le> 7" and "k * body_budget \<le> n"
  shows "split_loop (long_lines n) (long_chars n) [] 0 0 [] =
    split_loop (long_lines n) (long_chars n) (replicate k (replicate body_budget ''a'')) (k * body_budget) (k * body_budget) []"
  using assms
proof (induction k)
  case (Suc k)
  then have "split_loop (long_lines n) (long_chars n) [] 0 0 [] =
      split_loop (long_lines n) (long_chars n) (replicate k (replicate body_budget ''a'')) (k * body_budget) (k * body_budget) []" by simp
  also have "\<dots> = split_loop (long_lines n) (long_chars n) (replicate k (replicate body_budget ''a'') @ [replicate body_budget ''a''])
      (k * body_budget + body_budget) (k * body_budget + body_budget) []"
    using Suc.prems by (intro long_step) (simp_all add: max_parts_8)
  finally show ?case by (simp add: replicate_append_same add.commute)
qed simp

text \<open>
  C33: the end of a long answer can be dropped although it fits (render.rs:195-215): the eighth part takes
  what is left only up to the last line end of its window, even when the whole rest is within its budget. An
  answer of exactly eight budgets whose last character stands on a line of its own loses this character, and
  the announcement of the omission makes the part longer than 4000 characters.
\<close>

theorem fitting_tail_dropped:
  assumes "n + 2 = 8 * body_budget"
  shows "\<exists>b. length (split_chars (utf8_chars (long_text n))) = 8 \<and>
    last (split_chars (utf8_chars (long_text n))) = b @ truncation 1 \<and> 4000 < length (b @ truncation 1) \<and>
    length (utf8_chars (long_text n)) = 8 * body_budget"
proof -
  have n: "7 * body_budget \<le> n" "0 < n" using assms by (simp_all add: budget_simps)
  let ?full = "replicate 7 (replicate body_budget ''a'')"
  let ?tail = "char_slice (long_chars n) (7 * body_budget) (n + 1)"
  have loop: "split_loop (line_infos (long_chars n)) (long_chars n) [] 0 0 [] = ?full @ [?tail @ truncation 1]"
    unfolding long_lines_eq [OF n(2)]
    using long_steps [of 7 n] long_end [of ?full "7 * body_budget" n] n(1) assms by (simp add: max_parts_8)
  have size: "length (long_chars n) = 8 * body_budget" using assms by (simp add: long_chars_simps)
  have parts: "split_chars (long_chars n) = numbered_parts (?full @ [?tail @ truncation 1])"
  proof -
    have "\<not> length (long_chars n) \<le> max_part_chars" unfolding size by (simp add: budget_simps max_part_chars_def)
    then show ?thesis unfolding split_chars_def loop by auto
  qed
  have "last (numbered_parts (?full @ [?tail @ truncation 1])) = numbering 8 7 @ ?tail @ truncation 1"
    by (simp add: numbered_parts_def Let_def enumerate_append_eq)
  moreover have "length (numbering 8 7 @ ?tail @ truncation 1) = 4019"
  proof -
    have "length ?tail = n + 1 - 7 * body_budget" using n assms by (simp add: char_slice_def long_chars_simps)
    also have "\<dots> = 3975" using assms by (simp add: budget_simps)
    finally show ?thesis by (simp add: numbering_length truncation_def show_nat_digit)
  qed
  moreover have "length (numbered_parts (?full @ [?tail @ truncation 1])) = 8" by (simp add: numbered_parts_def Let_def)
  ultimately show ?thesis
    using parts size by (intro exI [of _ "numbering 8 7 @ ?tail"]) (simp add: long_text_chars)
qed

lemma long_size: "length (utf8_chars (long_text n)) = n + 2"
  by (simp add: long_text_chars long_chars_simps)

theorem fitting_tail_dropped_witness:
  "\<exists>b. last (split_chars (utf8_chars (long_text 31806))) = b @ truncation 1 \<and> 4000 < length (b @ truncation 1)"
proof -
  have "31806 + 2 = 8 * body_budget" by (simp add: budget_simps)
  from fitting_tail_dropped [OF this] show ?thesis by blast
qed

theorem split_keeps_text_witness:
  "\<exists>ps rest. length (utf8_chars (long_text 5000)) = 5002 \<and> long_text 5000 = concat (mids ps) @ concat rest \<and>
     length ps \<le> max_parts \<and> markers [] ps rest"
proof -
  have "length (utf8_chars (long_text 5000)) = 5002" using long_size [of 5000] by linarith
  then have "max_part_chars < length (utf8_chars (long_text 5000))" unfolding max_part_chars_def by linarith
  from split_keeps_text [OF this] show ?thesis using \<open>length (utf8_chars (long_text 5000)) = 5002\<close> by blast
qed

theorem split_parts_bounded_witness:
  "length (utf8_chars (long_text 5000)) = 5002 \<and> length (split_message (long_text 5000)) \<le> 8"
proof -
  have "(0::nat) < 5000" by simp
  then have "line_infos (utf8_chars (long_text 5000)) = long_lines 5000" unfolding long_text_chars by (rule long_lines_eq)
  then have "\<forall>l \<in> set (line_infos (utf8_chars (long_text 5000))). \<forall>lang. ln_opens l = Some lang \<longrightarrow> length lang + 5 \<le> body_budget"
    by (simp add: long_lines_def)
  from split_parts_bounded [OF this] have "length (split_message (long_text 5000)) \<le> 8" by blast
  then show ?thesis using long_size [of 5000] by linarith
qed

end
