(* ===== verification/Matrix_Store.thy ===== *)
theory Matrix_Store
  imports Sql_Tables
begin

text \<open>
  The store of the Matrix client (\<open>src/src/matrix/store\<close>): errors (\<open>error.rs\<close>), the sealed key-value
  table and the cipher of an account (\<open>kv.rs\<close>), the account, the custom values and the leases that
  arbitrate between processes (\<open>crypto_account.rs\<close>). The cipher is a record of functions; what it
  draws at random is an argument. The protocol of the leases is the step relation \<open>lease_step\<close>, in
  which any number of processes, each with its own clock, interleave their statements.
\<close>

section \<open>Errors\<close>

datatype mx_store_error =
    Sto_Db dberr
  | Sto_Cipher string
  | Sto_Serialization string
  | Sto_Corrupt string

fun mx_store_error_text :: "(dberr \<Rightarrow> string) \<Rightarrow> mx_store_error \<Rightarrow> string" where
  "mx_store_error_text display (Sto_Db e) = ''MRD-MXSTORE-001: database error: '' @ display e"
| "mx_store_error_text display (Sto_Cipher s) = ''MRD-MXSTORE-002: store cipher error: '' @ s"
| "mx_store_error_text display (Sto_Serialization s) = ''MRD-MXSTORE-003: serialization error: '' @ s"
| "mx_store_error_text display (Sto_Corrupt s) = ''MRD-MXSTORE-004: corrupt store data: '' @ s"

section \<open>The cipher and the key-value table\<close>

text \<open>
  \<open>StoreCipher\<close>: a cipher is made, exported under a passphrase and imported back; it seals values
  and hashes a key of a table. The errors of \<open>encrypt_value\<close> are told apart by their cause.
\<close>

datatype cipher_failure = Ci_Json string | Ci_Serialization string | Ci_Other string

record 'c cipher_lib =
  ci_new :: "nat \<Rightarrow> string + 'c"
  ci_export :: "nat \<Rightarrow> 'c \<Rightarrow> string \<Rightarrow> string + string"
  ci_import :: "string \<Rightarrow> string \<Rightarrow> string + 'c"
  ci_hash :: "'c \<Rightarrow> string \<Rightarrow> string \<Rightarrow> string"
  ci_encrypt :: "nat \<Rightarrow> 'c \<Rightarrow> json \<Rightarrow> cipher_failure + string"
  ci_decrypt :: "'c \<Rightarrow> string \<Rightarrow> string + json"

record 'c kv =
  kv_account_key :: string
  kv_cipher :: 'c

definition kv_table :: string where "kv_table = ''miryad_matrix_kv''"
definition cipher_key :: string where "cipher_key = ''cipher''"

definition kv_conds :: "string \<Rightarrow> string \<Rightarrow> sql_cond list" where
  "kv_conds a k = [Col_Eq ''account_key'' (VText (Some a)), Col_Eq ''key'' (VText (Some k))]"

definition select_value :: "string \<Rightarrow> string \<Rightarrow> (sql_world, mx_store_error, string option) act" where
  "select_value a k =
     map_err Sto_Db (select (\<lambda>t. map_option (\<lambda>r. col_text (r ''value'')) (sql_first kv_table (kv_conds a k) t)))"

text \<open>
  \<open>OnConflict\<close>: \<open>insert_if_absent\<close> does nothing, \<open>upsert\<close> rewrites the value; an \<open>on_conflict\<close> is the
  list of columns it updates.
\<close>

definition insert_if_absent :: "string list" where "insert_if_absent = []"
definition kv_upsert :: "string list" where "kv_upsert = [''value'']"

definition insert_row_kv ::
    "string \<Rightarrow> string \<Rightarrow> string \<Rightarrow> string list \<Rightarrow> (sql_world, mx_store_error, unit) act" where
  "insert_row_kv a k v on_conflict =
     map_err Sto_Db (statement (sql_upsert kv_table
       [(''account_key'', VText (Some a)), (''key'', VText (Some k)), (''value'', VText (Some v))]
       [''account_key'', ''key''] on_conflict))"

definition import_cipher :: "'c cipher_lib \<Rightarrow> string \<Rightarrow> string \<Rightarrow> mx_store_error + 'c" where
  "import_cipher C pass exported = map_sum Sto_Cipher id (ci_import C pass exported)"

text \<open>\<open>Kv::open\<close>; \<open>n\<close> and \<open>m\<close> are the random draws of the new cipher and of its export.\<close>

definition kv_open ::
    "'c cipher_lib \<Rightarrow> nat \<Rightarrow> nat \<Rightarrow> string \<Rightarrow> string \<Rightarrow> (sql_world, mx_store_error, 'c kv) act" where
  "kv_open C n m a pass =
     and_then (select_value a cipher_key) (\<lambda>stored.
     and_then (case stored of
         Some exported \<Rightarrow> lift_result (import_cipher C pass exported)
       | None \<Rightarrow>
           and_then (lift_result (map_sum Sto_Cipher id (ci_new C n))) (\<lambda>fresh.
           and_then (lift_result (map_sum Sto_Cipher id (ci_export C m fresh pass))) (\<lambda>exported.
           and_then (insert_row_kv a cipher_key exported insert_if_absent) (\<lambda>_.
           and_then (select_value a cipher_key) (\<lambda>winner.
           case winner of
             None \<Rightarrow> fail_with (Sto_Corrupt (''ligne cipher absente apr'' @ [CHR 0xC3, CHR 0xA8] @ ''s insertion''))
           | Some exported \<Rightarrow> lift_result (import_cipher C pass exported))))))
     (\<lambda>cipher. return_ok \<lparr>kv_account_key = a, kv_cipher = cipher\<rparr>))"

definition hex_digit :: "nat \<Rightarrow> char" where
  "hex_digit n = char_of (if n < 10 then 48 + n else 87 + n)"

definition hex_encode :: "string \<Rightarrow> string" where
  "hex_encode s = concat (map (\<lambda>c. [hex_digit (of_char c div 16), hex_digit (of_char c mod 16)]) s)"

definition kv_hash :: "'c cipher_lib \<Rightarrow> 'c kv \<Rightarrow> string \<Rightarrow> string \<Rightarrow> string" where
  "kv_hash C kv table v = hex_encode (ci_hash C (kv_cipher kv) table v)"

definition seal :: "'c cipher_lib \<Rightarrow> 'c kv \<Rightarrow> nat \<Rightarrow> json \<Rightarrow> mx_store_error + string" where
  "seal C kv n v =
     (case ci_encrypt C n (kv_cipher kv) v of
        Inl (Ci_Json s) \<Rightarrow> Inl (Sto_Serialization s)
      | Inl (Ci_Serialization s) \<Rightarrow> Inl (Sto_Serialization s)
      | Inl (Ci_Other s) \<Rightarrow> Inl (Sto_Cipher s)
      | Inr b \<Rightarrow> Inr b)"

text \<open>\<open>open_sealed::<T>\<close>: \<open>decode\<close> is the \<open>Deserialize\<close> of the type it is used at.\<close>

definition open_sealed ::
    "'c cipher_lib \<Rightarrow> 'c kv \<Rightarrow> (json \<Rightarrow> string + 'a) \<Rightarrow> string \<Rightarrow> mx_store_error + 'a" where
  "open_sealed C kv decode b =
     (case ci_decrypt C (kv_cipher kv) b of
        Inl s \<Rightarrow> Inl (Sto_Corrupt s)
      | Inr v \<Rightarrow> map_sum Sto_Corrupt id (decode v))"

definition kv_get :: "'c kv \<Rightarrow> string \<Rightarrow> (sql_world, mx_store_error, string option) act" where
  "kv_get kv k = select_value (kv_account_key kv) k"

definition kv_put :: "'c kv \<Rightarrow> string \<Rightarrow> string \<Rightarrow> (sql_world, mx_store_error, unit) act" where
  "kv_put kv k v = insert_row_kv (kv_account_key kv) k v kv_upsert"

definition kv_delete :: "'c kv \<Rightarrow> string \<Rightarrow> (sql_world, mx_store_error, unit) act" where
  "kv_delete kv k =
     and_then (map_err Sto_Db (statement (sql_delete kv_table (kv_conds (kv_account_key kv) k))))
       (\<lambda>_. return_ok ())"

section \<open>The account\<close>

definition key_account :: string where "key_account = ''account''"
definition key_identity :: string where "key_identity = ''identity''"
definition key_backup_version :: string where "key_backup_version = ''backup_version''"
definition key_backup_decryption_key :: string where
  "key_backup_decryption_key = ''backup_decryption_key''"
definition key_dehydrated_pickle_key :: string where
  "key_dehydrated_pickle_key = ''dehydrated_pickle_key''"
definition key_next_batch :: string where "key_next_batch = ''next_batch''"
definition custom_prefix :: string where "custom_prefix = ''custom:''"

definition get_sealed ::
    "'c cipher_lib \<Rightarrow> 'c kv \<Rightarrow> (json \<Rightarrow> string + 'a) \<Rightarrow> string \<Rightarrow> (sql_world, mx_store_error, 'a option) act" where
  "get_sealed C kv decode k =
     and_then (kv_get kv k) (\<lambda>stored. case stored of
       Some b \<Rightarrow> and_then (lift_result (open_sealed C kv decode b)) (\<lambda>x. return_ok (Some x))
     | None \<Rightarrow> return_ok None)"

definition put_sealed ::
    "'c cipher_lib \<Rightarrow> 'c kv \<Rightarrow> nat \<Rightarrow> string \<Rightarrow> json \<Rightarrow> (sql_world, mx_store_error, unit) act" where
  "put_sealed C kv n k v =
     and_then (lift_result (seal C kv n v)) (\<lambda>sealed. kv_put kv k sealed)"

text \<open>
  The objects of \<open>matrix_sdk_crypto\<close>: what serialises them, and what reads them back (a pickle is
  decoded, then rebuilt; both failures are \<open>Corrupt\<close> with their text).
\<close>

record ('ac, 'id, 'bk, 'dk) account_lib =
  ac_to_json :: "'ac \<Rightarrow> json"
  ac_of_json :: "json \<Rightarrow> string + 'ac"
  id_to_json :: "'id \<Rightarrow> json"
  id_of_json :: "json \<Rightarrow> string + 'id"
  bk_to_json :: "'bk \<Rightarrow> json"
  bk_of_json :: "json \<Rightarrow> string + 'bk"
  dk_to_json :: "'dk \<Rightarrow> json"
  dk_of_json :: "json \<Rightarrow> string + 'dk"

definition string_of_json :: "json \<Rightarrow> string + string" where
  "string_of_json v = (case v of JString s \<Rightarrow> Inr s | _ \<Rightarrow> Inl ''invalid type: expected a string'')"

definition load_account ::
    "'c cipher_lib \<Rightarrow> ('ac, 'id, 'bk, 'dk) account_lib \<Rightarrow> 'c kv \<Rightarrow> (sql_world, mx_store_error, 'ac option) act" where
  "load_account C L kv = get_sealed C kv (ac_of_json L) key_account"

definition load_identity ::
    "'c cipher_lib \<Rightarrow> ('ac, 'id, 'bk, 'dk) account_lib \<Rightarrow> 'c kv \<Rightarrow> (sql_world, mx_store_error, 'id option) act" where
  "load_identity C L kv = get_sealed C kv (id_of_json L) key_identity"

definition save_account ::
    "'c cipher_lib \<Rightarrow> ('ac, 'id, 'bk, 'dk) account_lib \<Rightarrow> 'c kv \<Rightarrow> nat \<Rightarrow> 'ac \<Rightarrow> (sql_world, mx_store_error, unit) act" where
  "save_account C L kv n ac = put_sealed C kv n key_account (ac_to_json L ac)"

text \<open>A transaction dropped before its commit is rolled back.\<close>

definition store_txn :: "(sql_world, mx_store_error, unit) act \<Rightarrow> (sql_world, mx_store_error, unit) act" where
  "store_txn body =
     and_then (map_err Sto_Db begin_txn) (\<lambda>_.
       on_error (and_then body (\<lambda>_. map_err Sto_Db commit_txn))
         (\<lambda>e w. (Inl e, leave_txn w)))"

definition save_pending_changes ::
    "'c cipher_lib \<Rightarrow> ('ac, 'id, 'bk, 'dk) account_lib \<Rightarrow> 'c kv \<Rightarrow> nat \<Rightarrow> 'ac option \<Rightarrow>
       (sql_world, mx_store_error, unit) act" where
  "save_pending_changes C L kv n changes =
     (case changes of
        None \<Rightarrow> return_ok ()
      | Some ac \<Rightarrow> store_txn (save_account C L kv n ac))"

text \<open>The fields of \<open>Changes\<close> that \<open>apply_account\<close> writes.\<close>

record ('id, 'bk, 'dk) account_changes =
  ch_private_identity :: "'id option"
  ch_backup_version :: "string option"
  ch_backup_decryption_key :: "'bk option"
  ch_dehydrated_device_pickle_key :: "'dk option"
  ch_next_batch_token :: "string option"

definition put_if ::
    "'c cipher_lib \<Rightarrow> 'c kv \<Rightarrow> nat \<Rightarrow> string \<Rightarrow> ('a \<Rightarrow> json) \<Rightarrow> 'a option \<Rightarrow> (sql_world, mx_store_error, unit) act" where
  "put_if C kv n k enc x = (case x of None \<Rightarrow> return_ok () | Some y \<Rightarrow> put_sealed C kv n k (enc y))"

definition apply_account ::
    "'c cipher_lib \<Rightarrow> ('ac, 'id, 'bk, 'dk) account_lib \<Rightarrow> 'c kv \<Rightarrow> nat \<Rightarrow>
       ('id, 'bk, 'dk, 'more) account_changes_scheme \<Rightarrow> (sql_world, mx_store_error, unit) act" where
  "apply_account C L kv n ch =
     and_then (put_if C kv n key_identity (id_to_json L) (ch_private_identity ch)) (\<lambda>_.
     and_then (put_if C kv n key_backup_version JString (ch_backup_version ch)) (\<lambda>_.
     and_then (put_if C kv n key_backup_decryption_key (bk_to_json L) (ch_backup_decryption_key ch)) (\<lambda>_.
     and_then (put_if C kv n key_dehydrated_pickle_key (dk_to_json L) (ch_dehydrated_device_pickle_key ch)) (\<lambda>_.
     put_if C kv n key_next_batch JString (ch_next_batch_token ch)))))"

record ('bk) backup_keys =
  decryption_key :: "'bk option"
  backup_version :: "string option"

definition load_backup_keys ::
    "'c cipher_lib \<Rightarrow> ('ac, 'id, 'bk, 'dk) account_lib \<Rightarrow> 'c kv \<Rightarrow> (sql_world, mx_store_error, 'bk backup_keys) act" where
  "load_backup_keys C L kv =
     and_then (get_sealed C kv (bk_of_json L) key_backup_decryption_key) (\<lambda>k.
     and_then (get_sealed C kv string_of_json key_backup_version) (\<lambda>v.
     return_ok \<lparr>decryption_key = k, backup_version = v\<rparr>))"

definition load_dehydrated_device_pickle_key ::
    "'c cipher_lib \<Rightarrow> ('ac, 'id, 'bk, 'dk) account_lib \<Rightarrow> 'c kv \<Rightarrow> (sql_world, mx_store_error, 'dk option) act" where
  "load_dehydrated_device_pickle_key C L kv = get_sealed C kv (dk_of_json L) key_dehydrated_pickle_key"

definition delete_dehydrated_device_pickle_key :: "'c kv \<Rightarrow> (sql_world, mx_store_error, unit) act" where
  "delete_dehydrated_device_pickle_key kv = kv_delete kv key_dehydrated_pickle_key"

definition next_batch_token :: "'c cipher_lib \<Rightarrow> 'c kv \<Rightarrow> (sql_world, mx_store_error, string option) act" where
  "next_batch_token C kv = get_sealed C kv string_of_json key_next_batch"

text \<open>A \<open>Vec<u8>\<close> is serialised as an array of numbers, and read back from numbers that fit a byte.\<close>

definition bytes_to_json :: "string \<Rightarrow> json" where
  "bytes_to_json s = JArray (map (\<lambda>c. JNumber (Int_Num (int (of_char c)))) s)"

definition byte_of_json :: "json \<Rightarrow> char option" where
  "byte_of_json v = map_option char_of (json_to_unsigned 8 v)"

definition bytes_of_json :: "json \<Rightarrow> string + string" where
  "bytes_of_json v =
     (case as_array v of
        None \<Rightarrow> Inl ''invalid type: expected a sequence''
      | Some xs \<Rightarrow> (case those (map byte_of_json xs) of
          None \<Rightarrow> Inl ''invalid value: expected u8'' | Some cs \<Rightarrow> Inr cs))"

definition get_custom_value ::
    "'c cipher_lib \<Rightarrow> 'c kv \<Rightarrow> string \<Rightarrow> (sql_world, mx_store_error, string option) act" where
  "get_custom_value C kv k = get_sealed C kv bytes_of_json (custom_prefix @ k)"

definition set_custom_value ::
    "'c cipher_lib \<Rightarrow> 'c kv \<Rightarrow> nat \<Rightarrow> string \<Rightarrow> string \<Rightarrow> (sql_world, mx_store_error, unit) act" where
  "set_custom_value C kv n k v = put_sealed C kv n (custom_prefix @ k) (bytes_to_json v)"

definition remove_custom_value :: "'c kv \<Rightarrow> string \<Rightarrow> (sql_world, mx_store_error, unit) act" where
  "remove_custom_value kv k = kv_delete kv (custom_prefix @ k)"

section \<open>Leases\<close>

definition leases_table :: string where "leases_table = ''miryad_matrix_leases''"

definition i64_max :: int where "i64_max = 2 ^ 63 - 1"

text \<open>
  Milliseconds since the epoch; 0 before it, and the largest \<open>i64\<close> beyond it. The clock of the
  world counts nanoseconds.
\<close>

definition to_now_ms :: "int \<Rightarrow> int" where
  "to_now_ms nanos = min i64_max (if nanos < 0 then 0 else nanos div 1000000)"

definition now_ms :: "('t world, 'e, int) act" where
  "now_ms = and_then utc_now (\<lambda>n. return_ok (to_now_ms n))"

text \<open>\<open>i64::saturating_add\<close> on non-negative values.\<close>

definition sat_add_i64 :: "int \<Rightarrow> int \<Rightarrow> int" where
  "sat_add_i64 x y = min i64_max (x + y)"

text \<open>The conditional insertion, with the number of rows inserted.\<close>

definition new_lease :: "string \<Rightarrow> string \<Rightarrow> string \<Rightarrow> int \<Rightarrow> row" where
  "new_lease a k h e = set_columns
     [(''account_key'', VText (Some a)), (''key'', VText (Some k)), (''holder'', VText (Some h)),
      (''expiration_ms'', VInt (Some e)), (''generation'', VInt (Some 1))] null_row"

definition lease_insert ::
    "string \<Rightarrow> string \<Rightarrow> string \<Rightarrow> int \<Rightarrow> sql_tables \<Rightarrow> dberr + (nat \<times> sql_tables)" where
  "lease_insert a k h expiration t =
     (if rows_where leases_table (kv_conds a k) t = []
      then Inr (1, t\<lparr>rows := rows t @ [(leases_table, new_lease a k h expiration)]\<rparr>)
      else Inr (0, t))"

text \<open>
  The \<open>UPDATE ... RETURNING generation\<close>: the expressions read the old row. A generation past
  \<open>i64::MAX\<close> is refused by the server.
\<close>

definition lease_takes :: "string \<Rightarrow> int \<Rightarrow> row \<Rightarrow> bool" where
  "lease_takes h now r \<longleftrightarrow> r ''holder'' = VText (Some h) \<or> (case col_int (r ''expiration_ms'') of
     None \<Rightarrow> False | Some e \<Rightarrow> e \<le> now)"

definition next_generation :: "string \<Rightarrow> row \<Rightarrow> int" where
  "next_generation h r = row_int (r ''generation'') + (if r ''holder'' = VText (Some h) then 0 else 1)"

definition taken_row :: "string \<Rightarrow> int \<Rightarrow> row \<Rightarrow> row" where
  "taken_row h e r = set_columns [(''holder'', VText (Some h)), (''expiration_ms'', VInt (Some e)),
     (''generation'', VInt (Some (next_generation h r)))] r"

definition lease_update ::
    "string \<Rightarrow> string \<Rightarrow> string \<Rightarrow> int \<Rightarrow> int \<Rightarrow> sql_tables \<Rightarrow> dberr + (int option \<times> sql_tables)" where
  "lease_update a k h expiration now t =
     (let hit = (\<lambda>x. sql_match leases_table (kv_conds a k) x \<and> lease_takes h now (snd x));
          taken = map (next_generation h \<circ> snd) (filter hit (rows t)) in
      if \<exists>g\<in>set taken. i64_max < g then Inl (ExecErr ''bigint out of range'')
      else Inr (case taken of [] \<Rightarrow> None | g # _ \<Rightarrow> Some g,
             t\<lparr>rows := map (\<lambda>x. if hit x then (fst x, taken_row h expiration (snd x)) else x) (rows t)\<rparr>))"

definition negative_generation :: string where
  "negative_generation =
     ''g'' @ [CHR 0xC3, CHR 0xA9] @ ''n'' @ [CHR 0xC3, CHR 0xA9] @ ''ration de bail n'' @ [CHR 0xC3, CHR 0xA9] @ ''gative''"

definition try_take_leased_lock ::
    "'c kv \<Rightarrow> u32 \<Rightarrow> string \<Rightarrow> string \<Rightarrow> (sql_world, mx_store_error, int option) act" where
  "try_take_leased_lock kv lease_duration_ms k h =
     and_then now_ms (\<lambda>started.
     let expiration = sat_add_i64 started (uint lease_duration_ms) in
     and_then (map_err Sto_Db (statement (lease_insert (kv_account_key kv) k h expiration))) (\<lambda>inserted.
     if inserted = 1 then return_ok (Some 1)
     else and_then now_ms (\<lambda>now.
       and_then (map_err Sto_Db (statement (lease_update (kv_account_key kv) k h expiration now))) (\<lambda>taken.
         case taken of
           None \<Rightarrow> return_ok None
         | Some g \<Rightarrow> if g < 0 then fail_with (Sto_Corrupt negative_generation) else return_ok (Some g)))))"

section \<open>The protocol of the leases\<close>

text \<open>
  What one lease row is to the processes, the two statements on it, and the processes: between its
  two statements a process holds the expiration it computed. The log records every time the row was
  given to a holder, the latest first, with the clock the giving statement compared with. A process
  may stop anywhere; its clock is its own and may jump.
\<close>

record lease_row =
  le_holder :: string
  le_expiration :: int
  le_generation :: int

definition spec_insert :: "string \<Rightarrow> int \<Rightarrow> lease_row option \<Rightarrow> int option \<times> lease_row option" where
  "spec_insert h e l =
     (case l of
        None \<Rightarrow> (Some 1, Some \<lparr>le_holder = h, le_expiration = e, le_generation = 1\<rparr>)
      | Some x \<Rightarrow> (None, l))"

definition spec_update :: "string \<Rightarrow> int \<Rightarrow> int \<Rightarrow> lease_row option \<Rightarrow> int option \<times> lease_row option" where
  "spec_update h e now l =
     (case l of
        None \<Rightarrow> (None, None)
      | Some x \<Rightarrow>
          if le_holder x = h \<or> le_expiration x \<le> now
          then let g = le_generation x + (if le_holder x = h then 0 else 1) in
               (Some g, Some \<lparr>le_holder = h, le_expiration = e, le_generation = g\<rparr>)
          else (None, l))"

datatype lease_phase = Resting | Refused_Insert int

record lease_grant =
  gr_holder :: string
  gr_generation :: int
  gr_expiration :: int
  gr_clock :: int

record 'p lease_sys =
  ls_row :: "lease_row option"
  ls_phase :: "'p \<Rightarrow> lease_phase"
  ls_log :: "lease_grant list"

abbreviation grant_of :: "string \<Rightarrow> int \<Rightarrow> int \<Rightarrow> int \<Rightarrow> lease_grant" where
  "grant_of h g e c \<equiv> \<lparr>gr_holder = h, gr_generation = g, gr_expiration = e, gr_clock = c\<rparr>"

inductive lease_step :: "('p \<Rightarrow> string) \<Rightarrow> 'p lease_sys \<Rightarrow> 'p lease_sys \<Rightarrow> bool" for hold where
  inserted: "ls_phase s p = Resting \<Longrightarrow> spec_insert (hold p) e (ls_row s) = (Some g, row') \<Longrightarrow> c \<le> e \<Longrightarrow>
     lease_step hold s (s\<lparr>ls_row := row', ls_log := grant_of (hold p) g e c # ls_log s\<rparr>)"
| refused: "ls_phase s p = Resting \<Longrightarrow> spec_insert (hold p) e (ls_row s) = (None, row') \<Longrightarrow>
     lease_step hold s (s\<lparr>ls_phase := (ls_phase s)(p := Refused_Insert e)\<rparr>)"
| taken: "ls_phase s p = Refused_Insert e \<Longrightarrow> spec_update (hold p) e c (ls_row s) = (Some g, row') \<Longrightarrow>
     lease_step hold s (s\<lparr>ls_row := row', ls_phase := (ls_phase s)(p := Resting),
       ls_log := grant_of (hold p) g e c # ls_log s\<rparr>)"
| denied: "ls_phase s p = Refused_Insert e \<Longrightarrow> spec_update (hold p) e c (ls_row s) = (None, row') \<Longrightarrow>
     lease_step hold s (s\<lparr>ls_phase := (ls_phase s)(p := Resting)\<rparr>)"
| stopped: "lease_step hold s (s\<lparr>ls_phase := (ls_phase s)(p := Resting)\<rparr>)"

inductive_cases lease_stepE: "lease_step hold s s'"

definition no_lease :: "'p lease_sys" where
  "no_lease = \<lparr>ls_row = None, ls_phase = (\<lambda>_. Resting), ls_log = []\<rparr>"

text \<open>
  What one grant may be, given the one before it: the same holder keeps the generation; another
  holder has read a clock past the expiration, and has the next generation.
\<close>

definition lease_follows :: "lease_grant \<Rightarrow> lease_grant \<Rightarrow> bool" where
  "lease_follows x y \<longleftrightarrow>
     (if gr_holder y = gr_holder x then gr_generation y = gr_generation x
      else gr_expiration x \<le> gr_clock y \<and> gr_generation y = gr_generation x + 1)"

fun lease_chain :: "lease_grant list \<Rightarrow> bool" where
  "lease_chain [] = True"
| "lease_chain [x] = (gr_generation x = 1)"
| "lease_chain (y # x # l) = (lease_follows x y \<and> lease_chain (x # l))"

definition grant_row :: "lease_grant \<Rightarrow> lease_row" where
  "grant_row x = \<lparr>le_holder = gr_holder x, le_expiration = gr_expiration x, le_generation = gr_generation x\<rparr>"

definition lease_inv :: "'p lease_sys \<Rightarrow> bool" where
  "lease_inv s \<longleftrightarrow> lease_chain (ls_log s) \<and>
     ls_row s = (case ls_log s of [] \<Rightarrow> None | x # _ \<Rightarrow> Some (grant_row x))"

lemma lease_inv_step: "lease_step hold s s' \<Longrightarrow> lease_inv s \<Longrightarrow> lease_inv s'"
  by (cases rule: lease_step.cases)
     (auto simp: lease_inv_def spec_insert_def spec_update_def grant_row_def lease_follows_def Let_def
       split: option.splits list.splits if_splits)

lemma lease_inv_reach: "(lease_step hold)\<^sup>*\<^sup>* no_lease s \<Longrightarrow> lease_inv s"
proof (induction rule: rtranclp_induct)
  case base
  show ?case by (simp add: lease_inv_def no_lease_def)
next
  case (step y z)
  then show ?case using lease_inv_step by blast
qed

lemma lease_chain_ge: "lease_chain (x # l) \<Longrightarrow> y \<in> set l \<Longrightarrow> gr_generation y \<le> gr_generation x"
proof (induction l arbitrary: x)
  case (Cons z l)
  then have "gr_generation z \<le> gr_generation x" by (auto simp: lease_follows_def split: if_splits)
  with Cons show ?case by fastforce
qed simp

lemma lease_chain_tl: "lease_chain (x # l) \<Longrightarrow> lease_chain l"
  by (cases l) auto

lemma lease_chain_same:
  "lease_chain (x # l) \<Longrightarrow> y \<in> set l \<Longrightarrow> gr_generation y = gr_generation x \<Longrightarrow> gr_holder y = gr_holder x"
proof (induction l arbitrary: x)
  case (Cons z l)
  have chain: "lease_chain (z # l)" and zx: "lease_follows z x" using Cons.prems(1) by auto
  show ?case
  proof (cases "y = z")
    case True
    then show ?thesis using zx Cons.prems(3) by (auto simp: lease_follows_def split: if_splits)
  next
    case False
    then have y: "y \<in> set l" using Cons.prems(2) by simp
    then have "gr_generation y \<le> gr_generation z" using lease_chain_ge [OF chain] by simp
    moreover have "gr_generation z \<le> gr_generation x" "gr_generation z = gr_generation x \<Longrightarrow> gr_holder z = gr_holder x"
      using zx by (auto simp: lease_follows_def split: if_splits)
    ultimately show ?thesis using Cons.IH [OF chain y] Cons.prems(3) by auto
  qed
qed simp

lemma lease_chain_suffix: "lease_chain (newer @ l) \<Longrightarrow> lease_chain l"
  by (induction newer) (auto dest: lease_chain_tl)

lemma lease_chain_next: "lease_chain (ys @ x # l) \<Longrightarrow> ys \<noteq> [] \<Longrightarrow> lease_follows x (last ys)"
proof (induction ys)
  case (Cons y ys)
  then show ?case by (cases ys) (auto dest: lease_chain_tl)
qed simp


subsection \<open>The statements of the code are those of the protocol\<close>

text \<open>The primary key and the columns declared \<open>NOT NULL\<close>.\<close>

definition lease_row_ok :: "row \<Rightarrow> bool" where
  "lease_row_ok r \<longleftrightarrow> (\<exists>h e g. r ''holder'' = VText (Some h) \<and> r ''expiration_ms'' = VInt (Some e) \<and>
     r ''generation'' = VInt (Some g))"

definition leases_ok :: "string \<Rightarrow> string \<Rightarrow> sql_tables \<Rightarrow> bool" where
  "leases_ok a k t \<longleftrightarrow> (case rows_where leases_table (kv_conds a k) t of
     [] \<Rightarrow> True | r # rs \<Rightarrow> rs = [] \<and> lease_row_ok r)"

definition row_lease :: "row \<Rightarrow> lease_row" where
  "row_lease r = \<lparr>le_holder = col_text (r ''holder''), le_expiration = row_int (r ''expiration_ms''),
     le_generation = row_int (r ''generation'')\<rparr>"

definition lease_at :: "string \<Rightarrow> string \<Rightarrow> sql_tables \<Rightarrow> lease_row option" where
  "lease_at a k t = map_option row_lease (sql_first leases_table (kv_conds a k) t)"

lemma new_lease_columns:
  "new_lease a k h e ''account_key'' = VText (Some a)" "new_lease a k h e ''key'' = VText (Some k)"
  "new_lease a k h e ''holder'' = VText (Some h)" "new_lease a k h e ''expiration_ms'' = VInt (Some e)"
  "new_lease a k h e ''generation'' = VInt (Some 1)"
  by (simp_all add: new_lease_def set_columns_def)

lemma new_lease_match: "sql_match leases_table (kv_conds a k) (leases_table, new_lease a k h e)"
  by (simp add: sql_match_def kv_conds_def new_lease_columns)

lemma lease_at_rows:
  "rows_where leases_table (kv_conds a k) t = [] \<Longrightarrow> lease_at a k t = None \<and> leases_ok a k t"
  "rows_where leases_table (kv_conds a k) t = [r] \<Longrightarrow> lease_at a k t = Some (row_lease r) \<and>
     (leases_ok a k t \<longleftrightarrow> lease_row_ok r)"
  by (simp_all add: lease_at_def leases_ok_def sql_first_def)

lemma leases_ok_cases:
  assumes "leases_ok a k t"
  obtains (free) "rows_where leases_table (kv_conds a k) t = []"
    | (held) r where "rows_where leases_table (kv_conds a k) t = [r]" "lease_row_ok r"
  using assms by (cases "rows_where leases_table (kv_conds a k) t") (auto simp: leases_ok_def)

lemma lease_insert_refines:
  assumes ins: "lease_insert a k h e t = Inr (n, t')" and ok: "leases_ok a k t"
  shows "spec_insert h e (lease_at a k t) = (if n = 1 then Some 1 else None, lease_at a k t') \<and> leases_ok a k t'"
  using ok
proof (cases rule: leases_ok_cases)
  case free
  then have t': "n = 1" "rows t' = rows t @ [(leases_table, new_lease a k h e)]"
    using ins by (auto simp: lease_insert_def)
  then have "rows_where leases_table (kv_conds a k) t' = [new_lease a k h e]"
    using free by (simp add: rows_where_def new_lease_match)
  moreover have "lease_row_ok (new_lease a k h e)" by (simp add: lease_row_ok_def new_lease_columns)
  ultimately show ?thesis
    using lease_at_rows [of a k t] lease_at_rows [of a k t'] free t'(1)
    by (auto simp: spec_insert_def row_lease_def new_lease_columns)
next
  case (held r)
  then show ?thesis
    using ins ok lease_at_rows(2) [OF held(1)] by (auto simp: lease_insert_def spec_insert_def)
qed

lemma rows_where_update:
  assumes "\<And>x. sql_match table conds (f x) = sql_match table conds x"
  shows "rows_where table conds (t\<lparr>rows := map f (rows t)\<rparr>) = map (snd \<circ> f) (filter (sql_match table conds) (rows t))"
  by (simp add: rows_where_def filter_map o_def assms)

lemma taken_row_columns:
  "taken_row h e r ''holder'' = VText (Some h)" "taken_row h e r ''expiration_ms'' = VInt (Some e)"
  "taken_row h e r ''generation'' = VInt (Some (next_generation h r))"
  "taken_row h e r ''account_key'' = r ''account_key''" "taken_row h e r ''key'' = r ''key''"
  by (simp_all add: taken_row_def set_columns_def)

lemma taken_row_match: "sql_match table (kv_conds a k) (x, taken_row h e r) = sql_match table (kv_conds a k) (x, r)"
  by (simp add: sql_match_def kv_conds_def taken_row_columns)

lemma lease_update_rows:
  assumes up: "lease_update a k h e now t = Inr (g, t')"
  shows "rows_where leases_table (kv_conds a k) t' =
      map (\<lambda>r. if lease_takes h now r then taken_row h e r else r) (rows_where leases_table (kv_conds a k) t)"
    and "g = (case map (next_generation h) (filter (lease_takes h now) (rows_where leases_table (kv_conds a k) t)) of
      [] \<Rightarrow> None | x # _ \<Rightarrow> Some x)"
proof -
  let ?m = "sql_match leases_table (kv_conds a k)"
  let ?f = "\<lambda>x. if ?m x \<and> lease_takes h now (snd x) then (fst x, taken_row h e (snd x)) else x"
  have t': "t' = t\<lparr>rows := map ?f (rows t)\<rparr>"
    and g: "g = (case map (next_generation h \<circ> snd) (filter (\<lambda>x. ?m x \<and> lease_takes h now (snd x)) (rows t)) of
      [] \<Rightarrow> None | x # _ \<Rightarrow> Some x)"
    using up by (auto simp: lease_update_def Let_def split: if_splits)
  have "?m (?f x) = ?m x" for x by (cases x) (simp add: taken_row_match)
  then show "rows_where leases_table (kv_conds a k) t' =
      map (\<lambda>r. if lease_takes h now r then taken_row h e r else r) (rows_where leases_table (kv_conds a k) t)"
    unfolding t' by (subst rows_where_update) (auto simp: rows_where_def)
  show "g = (case map (next_generation h) (filter (lease_takes h now) (rows_where leases_table (kv_conds a k) t)) of
      [] \<Rightarrow> None | x # _ \<Rightarrow> Some x)"
    unfolding g by (simp add: rows_where_def filter_map o_def conj_commute)
qed

lemma lease_update_refines:
  assumes up: "lease_update a k h e now t = Inr (g, t')" and ok: "leases_ok a k t"
  shows "spec_update h e now (lease_at a k t) = (g, lease_at a k t') \<and> leases_ok a k t'"
  using ok
proof (cases rule: leases_ok_cases)
  case free
  then show ?thesis
    using lease_update_rows [OF up] lease_at_rows [of a k t] lease_at_rows [of a k t'] by (simp add: spec_update_def)
next
  case (held r)
  obtain h0 e0 g0 where r: "r ''holder'' = VText (Some h0)" "r ''expiration_ms'' = VInt (Some e0)"
      "r ''generation'' = VInt (Some g0)"
    using held(2) by (auto simp: lease_row_ok_def)
  have takes: "lease_takes h now r \<longleftrightarrow> h0 = h \<or> e0 \<le> now" by (simp add: lease_takes_def r)
  have next_g: "next_generation h r = g0 + (if h0 = h then 0 else 1)" by (simp add: next_generation_def r)
  have rows': "rows_where leases_table (kv_conds a k) t' = [if lease_takes h now r then taken_row h e r else r]"
    using lease_update_rows(1) [OF up] held(1) by simp
  have g: "g = (if lease_takes h now r then Some (next_generation h r) else None)"
    using lease_update_rows(2) [OF up] held(1) by simp
  have "lease_row_ok (if lease_takes h now r then taken_row h e r else r)"
    using held(2) by (simp add: lease_row_ok_def taken_row_columns)
  then show ?thesis
    using lease_at_rows(2) [OF held(1)] lease_at_rows(2) [OF rows'] takes next_g g
    by (simp add: spec_update_def row_lease_def taken_row_columns r Let_def)
qed

text \<open>
  The other processes change the leases only by the protocol: what the environment does to the
  tables is a sequence of its steps, none of them of the process \<open>p\<close> whose call is considered.
\<close>

definition env_leases :: "('p \<Rightarrow> string) \<Rightarrow> 'p \<Rightarrow> string \<Rightarrow> string \<Rightarrow> sql_world \<Rightarrow> bool" where
  "env_leases hold p a k w \<longleftrightarrow> (\<forall>m\<in>set (env w). \<forall>t s. leases_ok a k t \<and> ls_row s = lease_at a k t \<longrightarrow>
     leases_ok a k (others m t) \<and>
     (\<exists>s'. (lease_step hold)\<^sup>*\<^sup>* s s' \<and> ls_row s' = lease_at a k (others m t) \<and> ls_phase s' p = ls_phase s p))"

definition lease_sim :: "string \<Rightarrow> string \<Rightarrow> 'p lease_sys \<Rightarrow> sql_world \<Rightarrow> bool" where
  "lease_sim a k s w \<longleftrightarrow> leases_ok a k (tabs w) \<and> ls_row s = lease_at a k (tabs w)"

lemma env_leases_arrived:
  assumes "env_leases hold p a k w" "lease_sim a k s w"
  shows "\<exists>s'. (lease_step hold)\<^sup>*\<^sup>* s s' \<and> lease_sim a k s' (arrived w) \<and> ls_phase s' p = ls_phase s p \<and>
    env_leases hold p a k (arrived w)"
proof (cases "env w")
  case Nil
  then show ?thesis using assms by (auto simp: arrived_def arrive_def)
next
  case (Cons m ms)
  then have "tabs (arrived w) = others m (tabs w)" "env (arrived w) = ms"
    by (simp_all add: arrived_def arrive_def)
  moreover have "leases_ok a k (others m (tabs w)) \<and>
      (\<exists>s'. (lease_step hold)\<^sup>*\<^sup>* s s' \<and> ls_row s' = lease_at a k (others m (tabs w)) \<and> ls_phase s' p = ls_phase s p)"
    using assms Cons unfolding env_leases_def lease_sim_def by (metis list.set_intros(1))
  moreover have "env_leases hold p a k (arrived w)"
    using assms(1) Cons \<open>env (arrived w) = ms\<close> unfolding env_leases_def by (metis list.set_intros(2))
  ultimately show ?thesis unfolding lease_sim_def by metis
qed

text \<open>One statement of the call, whatever the environment did before it and whether or not it fails.\<close>

lemma lease_statement:
  assumes "env_leases hold p a k w" "lease_sim a k s w" and run: "statement f w = (r, w')"
  obtains s1 where "(lease_step hold)\<^sup>*\<^sup>* s s1" "ls_phase s1 p = ls_phase s p" "env_leases hold p a k w'"
    "case r of Inl e \<Rightarrow> lease_sim a k s1 w'
     | Inr x \<Rightarrow> \<exists>t t'. leases_ok a k t \<and> ls_row s1 = lease_at a k t \<and> f t = Inr (x, t') \<and> tabs w' = t'"
proof -
  obtain s1 where s1: "(lease_step hold)\<^sup>*\<^sup>* s s1" "lease_sim a k s1 (arrived w)" "ls_phase s1 p = ls_phase s p"
      "env_leases hold p a k (arrived w)"
    using env_leases_arrived [OF assms(1,2)] by blast
  have e: "env w' = env (arrived w)"
    using run by (auto simp: statement_def arrived_def split: prod.splits option.splits sum.splits if_splits)
  then have "env_leases hold p a k w'" using s1(4) unfolding env_leases_def by metis
  moreover have "case r of Inl e \<Rightarrow> lease_sim a k s1 w'
     | Inr x \<Rightarrow> \<exists>t t'. leases_ok a k t \<and> ls_row s1 = lease_at a k t \<and> f t = Inr (x, t') \<and> tabs w' = t'"
  proof (cases r)
    case (Inl e)
    then show ?thesis using run statement_Inl_tabs s1(2) by (fastforce simp: lease_sim_def)
  next
    case (Inr x)
    then show ?thesis using run s1(2) by (auto simp: statement_Inr_iff lease_sim_def)
  qed
  ultimately show thesis using that s1 by blast
qed

lemma lease_insert_call:
  assumes env: "env_leases hold p a k w" "lease_sim a k s w" and rest: "ls_phase s p = Resting" and c: "c \<le> e"
    and run: "statement (lease_insert a k (hold p) e) w = (r, w1)"
  shows "\<exists>s'. (lease_step hold)\<^sup>*\<^sup>* s s' \<and> lease_sim a k s' w1 \<and> env_leases hold p a k w1 \<and>
    (case r of
       Inl _ \<Rightarrow> ls_phase s' p = Resting
     | Inr n \<Rightarrow> if n = 1 then ls_phase s' p = Resting \<and> (\<exists>l. ls_log s' = grant_of (hold p) 1 e c # l)
         else ls_phase s' p = Refused_Insert e)"
proof -
  obtain s1 where s1: "(lease_step hold)\<^sup>*\<^sup>* s s1" "ls_phase s1 p = ls_phase s p" "env_leases hold p a k w1"
      and o: "case r of Inl e \<Rightarrow> lease_sim a k s1 w1
       | Inr x \<Rightarrow> \<exists>t t'. leases_ok a k t \<and> ls_row s1 = lease_at a k t \<and>
           lease_insert a k (hold p) e t = Inr (x, t') \<and> tabs w1 = t'"
    by (rule lease_statement [OF env run])
  show ?thesis
  proof (cases r)
    case (Inl err)
    then show ?thesis using s1 o rest by (intro exI [of _ s1]) simp
  next
    case (Inr n)
    obtain t where t: "leases_ok a k t" "ls_row s1 = lease_at a k t" "lease_insert a k (hold p) e t = Inr (n, tabs w1)"
      using o Inr by auto
    note ins = lease_insert_refines [OF t(3,1)]
    have p1: "ls_phase s1 p = Resting" using s1(2) rest by simp
    let ?s = "if n = 1 then s1\<lparr>ls_row := lease_at a k (tabs w1), ls_log := grant_of (hold p) 1 e c # ls_log s1\<rparr>
      else s1\<lparr>ls_phase := (ls_phase s1)(p := Refused_Insert e)\<rparr>"
    have "lease_step hold s1 ?s"
      using lease_step.inserted [OF p1 _ c, where hold = hold] lease_step.refused [OF p1, where hold = hold and e = e] ins t(2)
      by simp
    then have "(lease_step hold)\<^sup>*\<^sup>* s ?s" using s1(1) by simp
    moreover have "lease_sim a k ?s w1"
      using ins t(2) by (auto simp: lease_sim_def spec_insert_def split: option.splits if_splits)
    ultimately show ?thesis using s1(3) p1 Inr by (intro exI [of _ ?s]) simp
  qed
qed

lemma lease_update_call:
  assumes env: "env_leases hold p a k w" "lease_sim a k s w" and phase: "ls_phase s p = Refused_Insert e"
    and run: "statement (lease_update a k (hold p) e c) w = (r, w1)"
  shows "\<exists>s'. (lease_step hold)\<^sup>*\<^sup>* s s' \<and> lease_sim a k s' w1 \<and> ls_phase s' p = Resting \<and>
    (\<forall>g. r = Inr (Some g) \<longrightarrow> (\<exists>l. ls_log s' = grant_of (hold p) g e c # l))"
proof -
  obtain s1 where s1: "(lease_step hold)\<^sup>*\<^sup>* s s1" "ls_phase s1 p = ls_phase s p" "env_leases hold p a k w1"
      and o: "case r of Inl e \<Rightarrow> lease_sim a k s1 w1
       | Inr x \<Rightarrow> \<exists>t t'. leases_ok a k t \<and> ls_row s1 = lease_at a k t \<and>
           lease_update a k (hold p) e c t = Inr (x, t') \<and> tabs w1 = t'"
    by (rule lease_statement [OF env run])
  have p1: "ls_phase s1 p = Refused_Insert e" using s1(2) phase by simp
  let ?rest = "s1\<lparr>ls_phase := (ls_phase s1)(p := Resting)\<rparr>"
  show ?thesis
  proof (cases r)
    case (Inl err)
    have "(lease_step hold)\<^sup>*\<^sup>* s ?rest" using s1(1) lease_step.stopped [of hold s1 p] by simp
    then show ?thesis using o Inl by (intro exI [of _ ?rest]) (simp add: lease_sim_def)
  next
    case (Inr x)
    obtain t where t: "leases_ok a k t" "ls_row s1 = lease_at a k t" "lease_update a k (hold p) e c t = Inr (x, tabs w1)"
      using o Inr by auto
    have up: "spec_update (hold p) e c (ls_row s1) = (x, lease_at a k (tabs w1))" "leases_ok a k (tabs w1)"
      using lease_update_refines [OF t(3,1)] t(2) by simp_all
    show ?thesis
    proof (cases x)
      case None
      then have "(lease_step hold)\<^sup>*\<^sup>* s ?rest" using s1(1) lease_step.denied [OF p1] up(1) by (simp add: rtranclp.rtrancl_into_rtrancl)
      moreover have "lease_at a k (tabs w1) = ls_row s1"
        using up(1) None by (auto simp: spec_update_def Let_def split: option.splits if_splits)
      ultimately show ?thesis using up(2) None Inr by (intro exI [of _ ?rest]) (simp add: lease_sim_def)
    next
      case (Some g)
      let ?s = "s1\<lparr>ls_row := lease_at a k (tabs w1), ls_phase := (ls_phase s1)(p := Resting),
        ls_log := grant_of (hold p) g e c # ls_log s1\<rparr>"
      have "(lease_step hold)\<^sup>*\<^sup>* s ?s"
        using s1(1) lease_step.taken [OF p1] up(1) Some by (simp add: rtranclp.rtrancl_into_rtrancl)
      then show ?thesis using up(2) Some Inr by (intro exI [of _ ?s]) (simp add: lease_sim_def)
    qed
  qed
qed


section \<open>The key-value table\<close>

definition kv_row :: "string \<Rightarrow> string \<Rightarrow> sql_tables \<Rightarrow> string option" where
  "kv_row a k t = map_option (\<lambda>r. col_text (r ''value'')) (sql_first kv_table (kv_conds a k) t)"

lemma select_value_row: "select_value a k = map_err Sto_Db (select (kv_row a k))"
  by (simp add: select_value_def kv_row_def [abs_def])

lemma kv_key_conds:
  "key_conds [''account_key'', ''key''] [(''account_key'', VText (Some a)), (''key'', VText (Some k)), (''value'', v)] =
   kv_conds a k"
  by (simp add: key_conds_def map_filter_simps kv_conds_def)

lemma kv_upsert_same:
  assumes "sql_upsert kv_table [(''account_key'', VText (Some a)), (''key'', VText (Some k)), (''value'', VText (Some v))]
      [''account_key'', ''key''] kv_upsert t = Inr ((), t')"
  shows "kv_row a k t' = Some v"
  using upsert_first [OF assms, where c = "''value''" and v = "VText (Some v)"]
  by (auto simp: kv_upsert_def kv_row_def kv_key_conds)

lemma kv_upsert_other:
  assumes "sql_upsert kv_table [(''account_key'', VText (Some a)), (''key'', VText (Some k)), (''value'', VText (Some v))]
      [''account_key'', ''key''] upd t = Inr ((), t')" and "set upd \<subseteq> {''value''}" and "(a', k') \<noteq> (a, k)"
  shows "kv_row a' k' t' = kv_row a' k' t"
proof -
  have keys: "\<forall>k0\<in>set [''account_key'', ''key'']. k0 \<notin> set upd \<and> k0 \<noteq> ''id'' \<and>
      (\<exists>x. map_of [(''account_key'', VText (Some a)), (''key'', VText (Some k)), (''value'', VText (Some v))] k0 = Some x \<and>
        \<not> is_null_value x)"
    using assms(2) by auto
  have conds: "\<forall>c\<in>set (kv_conds a' k'). \<exists>k v. c = Col_Eq k v \<and> k \<notin> set upd"
    using assms(2) by (auto simp: kv_conds_def)
  have "rows_where kv_table (kv_conds a' k') t' = rows_where kv_table (kv_conds a' k') t"
  proof (cases "a' = a")
    case False
    then show ?thesis
      using upsert_other_key [OF assms(1) keys conds, of "''account_key''" "VText (Some a')" "VText (Some a)"]
      by (simp add: kv_conds_def)
  next
    case True
    then show ?thesis
      using upsert_other_key [OF assms(1) keys conds, of "''key''" "VText (Some k')" "VText (Some k)"] assms(3)
      by (simp add: kv_conds_def)
  qed
  then show ?thesis by (simp add: kv_row_def sql_first_def)
qed

text \<open>\<open>insert_if_absent\<close> leaves a row that is there alone, and is read back when it is not.\<close>

lemma kv_insert_if_absent:
  assumes ins: "sql_upsert kv_table [(''account_key'', VText (Some a)), (''key'', VText (Some k)), (''value'', VText (Some v))]
      [''account_key'', ''key''] insert_if_absent t = Inr ((), t')"
  shows "kv_row a k t' = Some (case kv_row a k t of None \<Rightarrow> v | Some old \<Rightarrow> old)"
  using ins
proof (cases rule: upsert_cases)
  case new
  then have no: "kv_row a k t = None" by (simp add: kv_key_conds kv_row_def sql_first_def)
  let ?r = "sql_new_row [(''account_key'', VText (Some a)), (''key'', VText (Some k)), (''value'', VText (Some v))] kv_table t"
  have "sql_match kv_table (kv_conds a k) (kv_table, ?r)"
    by (simp add: sql_match_def kv_conds_def sql_new_row_def set_columns_def)
  then have "rows_where kv_table (kv_conds a k) t' = [?r]"
    using new by (simp add: kv_key_conds rows_where_def)
  then show ?thesis using no by (simp add: kv_row_def sql_first_def sql_new_row_def set_columns_def)
next
  case old
  have id: "upsert_row vals insert_if_absent r = r" for vals r
    by (simp add: upsert_row_def insert_if_absent_def sql_simps)
  have "rows t' = rows t" unfolding old(2) id by (rule map_idI) simp
  moreover have "kv_row a k t \<noteq> None"
    using old(1) by (simp add: kv_key_conds kv_row_def sql_first_None)
  ultimately show ?thesis by (auto simp: kv_row_def sql_first_def rows_where_def)
qed

lemma quiet_select_value: "quiet w \<Longrightarrow> select_value a k w = (Inr (kv_row a k (tabs w)), w)"
  by (simp add: select_value_row map_err_def select_quiet)

lemma keeps_kv_insert:
  assumes "\<And>t t'. P t \<Longrightarrow> sql_upsert kv_table
      [(''account_key'', VText (Some a)), (''key'', VText (Some k)), (''value'', VText (Some v))]
      [''account_key'', ''key''] upd t = Inr ((), t') \<Longrightarrow> P t'"
  shows "act_keeps P (insert_row_kv a k v upd)"
  unfolding insert_row_kv_def by (intro keeps_map_err keeps_statement) (use assms in auto)

lemma keeps_select_value: "act_keeps P (select_value a k)"
  unfolding select_value_def by (intro keeps)

text \<open>
  Opening: whatever the interleaving with other processes that never overwrite the row of the
  cipher, a \<open>Kv\<close> that opens has the cipher of the row that stands at the end, under its passphrase;
  a row that was there stays.
\<close>

lemma kv_open_cipher:
  assumes env: "\<And>b. env_keeps (\<lambda>t. kv_row a cipher_key t = Some b) w" and snap: "snap w = None"
    and run: "kv_open C n m a pass w = (Inr kv, w')"
  shows "\<exists>b. kv_row a cipher_key (tabs w') = Some b \<and> ci_import C pass b = Inr (kv_cipher kv) \<and>
    kv_account_key kv = a \<and> (\<forall>b0. kv_row a cipher_key (tabs w) = Some b0 \<longrightarrow> b0 = b)"
proof -
  let ?P = "\<lambda>b t. kv_row a cipher_key t = Some b"
  have inv0: "inv_world (?P b) w" if "kv_row a cipher_key (tabs w) = Some b" for b
    using that env snap by (simp add: inv_world_def)
  obtain stored w1 where s1: "select_value a cipher_key w = (Inr stored, w1)"
    using run by (cases "select_value a cipher_key w"; cases "fst (select_value a cipher_key w)")
      (auto simp: kv_open_def and_then_def)
  then have w1: "stored = kv_row a cipher_key (tabs w1)" and sn: "snap w1 = None"
    and env1: "\<And>b. env_keeps (?P b) w1"
    using env snap
    by (auto simp: select_value_row map_err_eq_Inr select_Inr_iff arrived_def arrive_def env_keeps_def split: list.splits)
  have first: "kv_row a cipher_key (tabs w1) = Some b" if "kv_row a cipher_key (tabs w) = Some b" for b
    using act_keepsD [OF keeps_select_value s1 inv0 [OF that]] by (simp add: inv_world_def)
  show ?thesis
  proof (cases stored)
    case (Some b)
    then have "w' = w1 \<and> ci_import C pass b = Inr (kv_cipher kv) \<and> kv_account_key kv = a"
      using run s1 by (cases "ci_import C pass b") (auto simp: kv_open_def and_then_def import_cipher_def lift_result_def return_ok_def)
    then show ?thesis using Some w1 first by auto
  next
    case None
    obtain fresh exported w2 winner where i2: "insert_row_kv a cipher_key exported insert_if_absent w1 = (Inr (), w2)"
        and s3: "select_value a cipher_key w2 = (Inr (Some winner), w')"
        and imp: "ci_import C pass winner = Inr (kv_cipher kv)" "kv_account_key kv = a"
      using run s1 None
      by (auto simp: kv_open_def act_inv import_cipher_def map_sum_def split: option.splits sum.splits)
    have "kv_row a cipher_key (tabs w') = Some winner"
      using s3 by (auto simp: select_value_row map_err_eq_Inr select_Inr_iff)
    moreover have False if "kv_row a cipher_key (tabs w) = Some b0" for b0
      using first [OF that] w1 None by simp
    ultimately show ?thesis using imp by auto
  qed
qed

text \<open>
  Two replicas that open the store of one account, at any times and under any interference that
  leaves the row of the cipher, work with the same cipher, whichever of them inserted it.
\<close>

theorem kv_open_converges:
  assumes env1: "\<And>b. env_keeps (\<lambda>t. kv_row a cipher_key t = Some b) w1" and snap1: "snap w1 = None"
    and open1: "kv_open C n1 m1 a pass w1 = (Inr kv1, w1')"
    and env2: "\<And>b. env_keeps (\<lambda>t. kv_row a cipher_key t = Some b) w2" and snap2: "snap w2 = None"
    and later: "\<And>b. kv_row a cipher_key (tabs w1') = Some b \<Longrightarrow> kv_row a cipher_key (tabs w2') = Some b"
    and open2: "kv_open C n2 m2 a pass w2 = (Inr kv2, w2')"
  shows "kv2 = kv1"
proof -
  obtain b1 b2 where "kv_row a cipher_key (tabs w1') = Some b1" "ci_import C pass b1 = Inr (kv_cipher kv1)"
      "kv_row a cipher_key (tabs w2') = Some b2" "ci_import C pass b2 = Inr (kv_cipher kv2)"
      "kv_account_key kv1 = a" "kv_account_key kv2 = a"
    using kv_open_cipher [OF env1 snap1 open1] kv_open_cipher [OF env2 snap2 open2] by blast
  then show ?thesis using later [of b1] by simp
qed

definition cipher_is :: "string \<Rightarrow> string \<Rightarrow> sql_tables \<Rightarrow> bool" where
  "cipher_is a b t \<longleftrightarrow> kv_row a cipher_key t = Some b"

lemma kv_row_cong: "filter (\<lambda>x. fst x = kv_table) (rows t') = filter (\<lambda>x. fst x = kv_table) (rows t) \<Longrightarrow> kv_row a k t' = kv_row a k t"
proof -
  assume "filter (\<lambda>x. fst x = kv_table) (rows t') = filter (\<lambda>x. fst x = kv_table) (rows t)"
  then have "filter (\<lambda>x. \<forall>c\<in>set (kv_conds a k). sql_holds c (snd x)) (filter (\<lambda>x. fst x = kv_table) (rows t')) =
      filter (\<lambda>x. \<forall>c\<in>set (kv_conds a k). sql_holds c (snd x)) (filter (\<lambda>x. fst x = kv_table) (rows t))"
    by simp
  then show ?thesis by (simp add: kv_row_def sql_first_def rows_where_def sql_match_def [abs_def] conj_commute)
qed

lemma kv_delete_other:
  assumes "sql_delete kv_table (kv_conds a k) t = Inr (n, t')" and "(a', k') \<noteq> (a, k)"
  shows "kv_row a' k' t' = kv_row a' k' t"
proof -
  have "(\<lambda>x. sql_match kv_table (kv_conds a' k') x \<and> \<not> sql_match kv_table (kv_conds a k) x) =
      sql_match kv_table (kv_conds a' k')"
    using assms(2) by (intro ext) (auto simp: sql_match_def kv_conds_def)
  then have "rows_where kv_table (kv_conds a' k') t' = rows_where kv_table (kv_conds a' k') t"
    using assms(1) by (auto simp: sql_delete_def rows_where_def conj_commute)
  then show ?thesis by (simp add: kv_row_def sql_first_def)
qed

lemma cipher_keeps_insert: "act_keeps (cipher_is a b) (insert_row_kv a' k v insert_if_absent)"
proof (rule keeps_kv_insert)
  fix t t'
  assume "cipher_is a b t" and up: "sql_upsert kv_table
    [(''account_key'', VText (Some a')), (''key'', VText (Some k)), (''value'', VText (Some v))]
    [''account_key'', ''key''] insert_if_absent t = Inr ((), t')"
  then show "cipher_is a b t'"
    using kv_insert_if_absent [OF up] kv_upsert_other [OF up, of a cipher_key]
    by (cases "(a, cipher_key) = (a', k)") (auto simp: cipher_is_def insert_if_absent_def)
qed

lemma cipher_keeps_put: "k \<noteq> cipher_key \<Longrightarrow> act_keeps (cipher_is a b) (kv_put kv k v)"
  unfolding kv_put_def
  by (rule keeps_kv_insert) (auto simp: cipher_is_def kv_upsert_def dest!: kv_upsert_other [where a' = a and k' = cipher_key])

lemma cipher_keeps_put_sealed: "k \<noteq> cipher_key \<Longrightarrow> act_keeps (cipher_is a b) (put_sealed C kv n k v)"
  unfolding put_sealed_def by (intro keeps cipher_keeps_put)

lemma cipher_keeps_delete: "k \<noteq> cipher_key \<Longrightarrow> act_keeps (cipher_is a b) (kv_delete kv k)"
  unfolding kv_delete_def
  by (intro keeps keeps_statement) (auto simp: cipher_is_def dest!: kv_delete_other [where a' = a and k' = cipher_key])

lemma cipher_keeps_txn: "act_keeps P body \<Longrightarrow> act_keeps P (store_txn body)"
  unfolding store_txn_def
  by (intro keeps) (auto intro!: act_keepsI inv_world_leave)

lemma cipher_keeps_put_if: "k \<noteq> cipher_key \<Longrightarrow> act_keeps (cipher_is a b) (put_if C kv n k enc x)"
  unfolding put_if_def by (cases x) (auto intro!: keeps cipher_keeps_put_sealed)

lemma cipher_keeps_open: "act_keeps (cipher_is a b) (kv_open C n m a' pass)"
  unfolding kv_open_def
  by (intro keeps keeps_select_value cipher_keeps_insert) (auto split: option.split intro!: keeps keeps_select_value cipher_keeps_insert)

lemma cipher_keeps_lease: "act_keeps (cipher_is a b) (try_take_leased_lock kv d k h)"
proof -
  have diff: "leases_table \<noteq> kv_table" by (simp add: leases_table_def kv_table_def)
  have i: "act_keeps (cipher_is a b) (statement (lease_insert a' k h e))" for a' e
  proof (rule keeps_statement)
    fix t x t'
    assume p: "cipher_is a b t" and "lease_insert a' k h e t = Inr (x, t')"
    then have "kv_row a cipher_key t' = kv_row a cipher_key t"
      using diff by (intro kv_row_cong) (auto simp: lease_insert_def split: if_splits)
    then show "cipher_is a b t'" using p by (simp add: cipher_is_def)
  qed
  have u: "act_keeps (cipher_is a b) (statement (lease_update a' k h e c))" for a' e c
  proof (rule keeps_statement)
    fix t x t'
    assume p: "cipher_is a b t" and up: "lease_update a' k h e c t = Inr (x, t')"
    let ?hit = "\<lambda>x. sql_match leases_table (kv_conds a' k) x \<and> lease_takes h c (snd x)"
    have t': "rows t' = map (\<lambda>x. if ?hit x then (fst x, taken_row h e (snd x)) else x) (rows t)"
      using up by (auto simp: lease_update_def Let_def split: if_splits)
    have "filter (\<lambda>x. fst x = kv_table) (map (\<lambda>x. if ?hit x then (fst x, taken_row h e (snd x)) else x) xs) =
        filter (\<lambda>x. fst x = kv_table) xs" for xs :: "sql_row list"
      using diff by (induction xs) (auto simp: sql_match_def)
    then have "kv_row a cipher_key t' = kv_row a cipher_key t" by (intro kv_row_cong) (simp add: t')
    then show "cipher_is a b t'" using p by (simp add: cipher_is_def)
  qed
  show ?thesis
    unfolding try_take_leased_lock_def now_ms_def Let_def
    by (intro keeps) (auto split: option.split intro!: keeps i u)
qed

text \<open>
  Every operation of the store, of any account, keeps the cipher of every account: once written it
  is never replaced nor removed, in every world whose other processes keep it too.
\<close>

theorem cipher_row_stable:
  "act_keeps (cipher_is a b) (kv_open C n m a' pass) \<and> act_keeps (cipher_is a b) (set_custom_value C kv n k v) \<and>
   act_keeps (cipher_is a b) (remove_custom_value kv k) \<and>
   act_keeps (cipher_is a b) (save_pending_changes C L kv n ac) \<and>
   act_keeps (cipher_is a b) (apply_account C L kv n ch) \<and>
   act_keeps (cipher_is a b) (delete_dehydrated_device_pickle_key kv) \<and>
   act_keeps (cipher_is a b) (try_take_leased_lock kv d k h)"
proof -
  have custom: "custom_prefix @ k \<noteq> cipher_key" by (simp add: custom_prefix_def cipher_key_def)
  have keys: "key_account \<noteq> cipher_key" "key_identity \<noteq> cipher_key" "key_backup_version \<noteq> cipher_key"
      "key_backup_decryption_key \<noteq> cipher_key" "key_dehydrated_pickle_key \<noteq> cipher_key" "key_next_batch \<noteq> cipher_key"
    by (simp_all add: key_account_def key_identity_def key_backup_version_def key_backup_decryption_key_def
        key_dehydrated_pickle_key_def key_next_batch_def cipher_key_def)
  have "act_keeps (cipher_is a b) (save_pending_changes C L kv n ac)"
    unfolding save_pending_changes_def save_account_def
    by (cases ac) (auto intro!: keeps cipher_keeps_txn cipher_keeps_put_sealed keys)
  moreover have "act_keeps (cipher_is a b) (apply_account C L kv n ch)"
    unfolding apply_account_def by (intro keeps cipher_keeps_put_if keys)
  ultimately show ?thesis
    unfolding set_custom_value_def remove_custom_value_def delete_dehydrated_device_pickle_key_def
    by (intro conjI cipher_keeps_open cipher_keeps_lease cipher_keeps_put_sealed [OF custom]
        cipher_keeps_delete [OF custom] cipher_keeps_delete [OF keys(5)])
qed

section \<open>Custom values\<close>

definition cipher_reads_back :: "'c cipher_lib \<Rightarrow> 'c \<Rightarrow> bool" where
  "cipher_reads_back C c \<longleftrightarrow> (\<forall>n v b. ci_encrypt C n c v = Inr b \<longrightarrow> ci_decrypt C c b = Inr v)"

lemma byte_json: "byte_of_json (JNumber (Int_Num (int (of_char c)))) = Some c"
proof -
  have "of_char c < (256 :: nat)" using nat_of_char_less_256 by simp
  then show ?thesis by (simp add: byte_of_json_def)
qed

lemma bytes_json: "bytes_of_json (bytes_to_json s) = Inr s"
proof -
  have "those (map byte_of_json (map (\<lambda>c. JNumber (Int_Num (int (of_char c)))) s)) = Some s"
    using those_map_Some [of s "byte_of_json \<circ> (\<lambda>c. JNumber (Int_Num (int (of_char c))))" id]
    by (simp add: byte_json comp_def)
  then show ?thesis by (simp add: bytes_of_json_def bytes_to_json_def)
qed

lemma get_custom_value_quiet:
  "quiet w \<Longrightarrow> get_custom_value C kv k w =
     (case kv_row (kv_account_key kv) (custom_prefix @ k) (tabs w) of
        None \<Rightarrow> Inr None | Some b \<Rightarrow> map_sum id Some (open_sealed C kv bytes_of_json b), w)"
  by (auto simp: get_custom_value_def get_sealed_def kv_get_def act_eval quiet_select_value split: option.split sum.split)

lemma set_custom_value_Inr:
  assumes "quiet w" "set_custom_value C kv n k v w = (Inr (), w')"
  shows "\<exists>b t'. ci_encrypt C n (kv_cipher kv) (bytes_to_json v) = Inr b \<and> w' = set_tabs t' w \<and>
    sql_upsert kv_table [(''account_key'', VText (Some (kv_account_key kv))),
      (''key'', VText (Some (custom_prefix @ k))), (''value'', VText (Some b))]
      [''account_key'', ''key''] kv_upsert (tabs w) = Inr ((), t')"
proof -
  obtain b where b: "ci_encrypt C n (kv_cipher kv) (bytes_to_json v) = Inr b"
      and st: "statement (sql_upsert kv_table [(''account_key'', VText (Some (kv_account_key kv))),
        (''key'', VText (Some (custom_prefix @ k))), (''value'', VText (Some b))]
        [''account_key'', ''key''] kv_upsert) w = (Inr (), w')"
    using assms(2)
    by (auto simp: set_custom_value_def put_sealed_def kv_put_def insert_row_kv_def seal_def act_inv
        split: sum.splits cipher_failure.splits)
  then show ?thesis using upsert_statement_Inr [OF assms(1) st] by blast
qed

interpretation custom_values: text_store
  "\<lambda>w. quiet w \<and> cipher_reads_back C (kv_cipher kv)" "get_custom_value C kv"
  "\<lambda>(n, k, v). set_custom_value C kv n k v" "\<lambda>(n, k, v). k" "\<lambda>(n, k, v). v"
  for C :: "'c cipher_lib" and kv
proof
  fix w k
  show "quiet w \<and> cipher_reads_back C (kv_cipher kv) \<Longrightarrow> snd (get_custom_value C kv k w) = w"
    by (simp add: get_custom_value_quiet)
next
  fix w w' :: sql_world and x :: "nat \<times> string \<times> string" and k
  obtain n kk v where x: "x = (n, kk, v)" by (cases x)
  assume ok: "quiet w \<and> cipher_reads_back C (kv_cipher kv)"
    and put: "(case x of (n, k, v) \<Rightarrow> set_custom_value C kv n k v) w = (Inr (), w')"
  let ?a = "kv_account_key kv"
  obtain b t' where b: "ci_encrypt C n (kv_cipher kv) (bytes_to_json v) = Inr b" and w': "w' = set_tabs t' w"
      and up: "sql_upsert kv_table [(''account_key'', VText (Some ?a)),
        (''key'', VText (Some (custom_prefix @ kk))), (''value'', VText (Some b))]
        [''account_key'', ''key''] kv_upsert (tabs w) = Inr ((), t')"
    using set_custom_value_Inr [of w C kv n kk v w'] ok put x by auto
  have q: "quiet w'" using ok w' by simp
  have "open_sealed C kv bytes_of_json b = Inr v"
    using ok b by (simp add: open_sealed_def cipher_reads_back_def bytes_json)
  then show "(quiet w' \<and> cipher_reads_back C (kv_cipher kv)) \<and>
      fst (get_custom_value C kv (case x of (n, k, v) \<Rightarrow> k) w') = Inr (Some (case x of (n, k, v) \<Rightarrow> v))"
    using get_custom_value_quiet [OF q, of C kv kk] kv_upsert_same [OF up] ok q w' x by simp
  show "k \<noteq> (case x of (n, k, v) \<Rightarrow> k) \<Longrightarrow> fst (get_custom_value C kv k w') = fst (get_custom_value C kv k w)"
    using get_custom_value_quiet [OF q, of C kv k] get_custom_value_quiet [of w C kv k] ok w' x
      kv_upsert_other [OF up, of ?a "custom_prefix @ k"]
    by (simp add: kv_upsert_def)
qed

text \<open>
  The custom values of an account are a map: after any sequence of successful writes, a read gives
  the last bytes written under exactly that key, whatever the bytes and whatever the cipher drew.
\<close>

theorem custom_values_are_a_map:
  assumes "quiet w" and "cipher_reads_back C (kv_cipher kv)"
    and "for_each vs (\<lambda>(n, k, v). set_custom_value C kv n k v) w = (Inr us, w')"
  shows "get_custom_value C kv k w' =
    (case find (\<lambda>(_, k', _). k' = k) (rev vs) of
       Some (_, _, v) \<Rightarrow> Inr (Some v)
     | None \<Rightarrow> fst (get_custom_value C kv k w), w')"
  using custom_values.puts_then_get [of w C kv vs us w' k] assms
  by (simp add: case_prod_beta' split: option.split)

section \<open>Examples\<close>

definition demo_hold :: "bool \<Rightarrow> string" where
  "demo_hold p = (if p then ''b'' else ''a'')"


text \<open>Another process inserts a lease that ends at once; the call then takes it over.\<close>

definition demo_rival :: "sql_tables \<Rightarrow> sql_tables" where
  "demo_rival t = (case lease_insert ''bot'' ''sync'' ''a'' 0 t of Inr (_, t') \<Rightarrow> t' | Inl _ \<Rightarrow> t)"

definition demo_lease_world :: sql_world where
  "demo_lease_world = (demo_world [])\<lparr>env := [\<lparr>others = demo_rival, advance = 0, fails = None\<rparr>]\<rparr>"

lemma demo_env_leases: "env_leases demo_hold True ''bot'' ''sync'' demo_lease_world"
proof -
  have "leases_ok ''bot'' ''sync'' (demo_rival t) \<and>
      (\<exists>s'. (lease_step demo_hold)\<^sup>*\<^sup>* s s' \<and> ls_row s' = lease_at ''bot'' ''sync'' (demo_rival t) \<and> ls_phase s' True = ls_phase s True)"
    if t: "leases_ok ''bot'' ''sync'' t" "ls_row s = lease_at ''bot'' ''sync'' t" for t and s :: "bool lease_sys"
  proof -
    obtain n t' where ins: "lease_insert ''bot'' ''sync'' ''a'' 0 t = Inr (n, t')"
      by (cases "rows_where leases_table (kv_conds ''bot'' ''sync'') t = []") (auto simp: lease_insert_def)
    note i = lease_insert_refines [OF ins t(1)]
    let ?rest = "s\<lparr>ls_phase := (ls_phase s)(False := Resting)\<rparr>"
    have r: "lease_step demo_hold s ?rest" by (rule lease_step.stopped)
    show ?thesis
    proof (cases "n = 1")
      case True
      let ?s = "?rest\<lparr>ls_row := lease_at ''bot'' ''sync'' t', ls_log := grant_of ''a'' 1 0 0 # ls_log s\<rparr>"
      have "lease_step demo_hold ?rest ?s"
        using lease_step.inserted [of ?rest False demo_hold 0 1 "lease_at ''bot'' ''sync'' t'" 0] i t(2) True
        by (simp add: demo_hold_def)
      then have "(lease_step demo_hold)\<^sup>*\<^sup>* s ?s" using r by (meson converse_rtranclp_into_rtranclp rtranclp.rtrancl_refl)
      then show ?thesis using i ins by (intro conjI exI [of _ ?s]) (simp_all add: demo_rival_def)
    next
      case False
      then have "lease_at ''bot'' ''sync'' t' = ls_row s" using i t(2) by (auto simp: spec_insert_def split: option.splits)
      then show ?thesis using i ins by (intro conjI exI [of _ s]) (simp_all add: demo_rival_def)
    qed
  qed
  then show ?thesis unfolding env_leases_def demo_lease_world_def by simp metis
qed


text \<open>A cipher that is a byte, exported in front of the passphrase, and seals bytes as they are.\<close>

definition demo_cipher_lib :: "char cipher_lib" where
  "demo_cipher_lib =
     \<lparr>ci_new = (\<lambda>n. Inr (char_of n)), ci_export = (\<lambda>m c pass. Inr (c # pass)),
      ci_import = (\<lambda>pass b. case b of c # rest \<Rightarrow> if rest = pass then Inr c else Inl ''wrong passphrase''
        | [] \<Rightarrow> Inl ''empty''),
      ci_hash = (\<lambda>c table v. v),
      ci_encrypt = (\<lambda>n c v. case bytes_of_json v of Inl s \<Rightarrow> Inl (Ci_Json s) | Inr b \<Rightarrow> Inr b),
      ci_decrypt = (\<lambda>c b. Inr (bytes_to_json b))\<rparr>"

lemma byte_of_json_Some: "byte_of_json v = Some c \<Longrightarrow> v = JNumber (Int_Num (int (of_char c)))"
proof (cases v)
  case (JNumber x)
  assume "byte_of_json v = Some c"
  then show ?thesis using JNumber by (cases x) (auto simp: byte_of_json_def char_of_def[symmetric] split: if_splits)
qed (auto simp: byte_of_json_def)

lemma demo_reads_back: "cipher_reads_back demo_cipher_lib c"
proof -
  have "bytes_to_json b = v" if dec: "bytes_of_json v = Inr b" for v b
  proof -
    obtain xs where xs: "as_array v = Some xs" "those (map byte_of_json xs) = Some b"
      using dec by (auto simp: bytes_of_json_def split: option.splits)
    then have v: "v = JArray xs" by (cases v) auto
    have "map (\<lambda>c. JNumber (Int_Num (int (of_char c)))) b = xs" using xs(2)
      by (induction xs arbitrary: b) (auto dest: byte_of_json_Some split: option.splits)
    then show ?thesis using v by (simp add: bytes_to_json_def)
  qed
  then show ?thesis by (auto simp: cipher_reads_back_def demo_cipher_lib_def split: sum.splits)
qed

lemma kv_open_fresh:
  assumes q: "quiet w" and no: "kv_row a cipher_key (tabs w) = None"
    and c: "ci_new C n = Inr c" "ci_export C m c pass = Inr b" "ci_import C pass b = Inr c"
  shows "\<exists>w'. kv_open C n m a pass w = (Inr \<lparr>kv_account_key = a, kv_cipher = c\<rparr>, w') \<and> quiet w' \<and> snap w' = snap w \<and>
    kv_row a cipher_key (tabs w') = Some b"
proof -
  let ?vals = "[(''account_key'', VText (Some a)), (''key'', VText (Some cipher_key)), (''value'', VText (Some b))]"
  obtain t' where up: "sql_upsert kv_table ?vals [''account_key'', ''key''] insert_if_absent (tabs w) = Inr ((), t')"
      and st: "statement (sql_upsert kv_table ?vals [''account_key'', ''key''] insert_if_absent) w = (Inr (), set_tabs t' w)"
    using upsert_statement_runs [OF q] by blast
  have row: "kv_row a cipher_key t' = Some b" using kv_insert_if_absent [OF up] no by simp
  have q': "quiet (set_tabs t' w)" using q by simp
  show ?thesis
    using row c
    by (intro exI [of _ "set_tabs t' w"])
       (simp add: kv_open_def act_eval quiet_select_value [OF q] quiet_select_value [OF q'] no insert_row_kv_def st
         import_cipher_def q)
qed

lemma set_custom_value_runs:
  assumes q: "quiet w" and enc: "ci_encrypt C n (kv_cipher kv) (bytes_to_json v) = Inr b"
  shows "\<exists>w'. set_custom_value C kv n k v w = (Inr (), w') \<and> quiet w'"
  using upsert_statement_runs [OF q, of kv_table "[(''account_key'', VText (Some (kv_account_key kv))),
      (''key'', VText (Some (custom_prefix @ k))), (''value'', VText (Some b))]" "[''account_key'', ''key'']" kv_upsert] q enc
  by (auto simp: set_custom_value_def put_sealed_def seal_def kv_put_def insert_row_kv_def act_eval)

theorem custom_values_are_a_map_witness:
  "\<exists>w'. get_custom_value demo_cipher_lib \<lparr>kv_account_key = ''bot'', kv_cipher = CHR ''c''\<rparr> ''a'' w' = (Inr (Some ''3''), w')"
proof -
  let ?kv = "\<lparr>kv_account_key = ''bot'', kv_cipher = CHR ''c''\<rparr>"
  let ?put = "\<lambda>(n, k, v). set_custom_value demo_cipher_lib ?kv n k v"
  have put: "\<exists>w'. set_custom_value demo_cipher_lib ?kv n k v w = (Inr (), w') \<and> quiet w'" if "quiet w" for w n k v
    by (rule set_custom_value_runs [OF that]) (simp add: demo_cipher_lib_def bytes_json)
  obtain w1 where w1: "set_custom_value demo_cipher_lib ?kv 0 ''a'' ''1'' (demo_world []) = (Inr (), w1)" "quiet w1"
    using put by (metis demo_world_simps(1))
  obtain w2 where w2: "set_custom_value demo_cipher_lib ?kv 1 ''b'' ''2'' w1 = (Inr (), w2)" "quiet w2"
    using put [OF w1(2)] by metis
  obtain w3 where w3: "set_custom_value demo_cipher_lib ?kv 2 ''a'' ''3'' w2 = (Inr (), w3)"
    using put [OF w2(2)] by metis
  have "for_each [(0, ''a'', ''1''), (1, ''b'', ''2''), (2, ''a'', ''3'')] ?put (demo_world []) = (Inr [(), (), ()], w3)"
    using w1(1) w2(1) w3 by (simp add: and_then_def return_ok_def)
  from custom_values_are_a_map [OF demo_world_simps(1) demo_reads_back this, of "''a''"]
  show ?thesis by auto
qed

theorem kv_open_converges_witness:
  "\<exists>w1 kv w2. kv_open demo_cipher_lib 65 0 ''bot'' ''secret'' (demo_world []) = (Inr kv, w1) \<and>
     kv_open demo_cipher_lib 66 1 ''bot'' ''secret'' w1 = (Inr kv, w2)"
proof -
  have char_65: "char_of (65 :: nat) = CHR ''A''" by code_simp
  have demo_new: "ci_new demo_cipher_lib 65 = Inr CHR ''A''"
      "ci_export demo_cipher_lib 0 CHR ''A'' ''secret'' = Inr (CHR ''A'' # ''secret'')"
      "ci_import demo_cipher_lib ''secret'' (CHR ''A'' # ''secret'') = Inr CHR ''A''"
    by (simp_all add: demo_cipher_lib_def char_65)
  have no: "kv_row ''bot'' cipher_key (tabs (demo_world [])) = None"
    by (simp add: kv_row_def sql_first_def rows_where_def demo_tables_def)
  obtain w1 kv1 where w1: "kv_open demo_cipher_lib 65 0 ''bot'' ''secret'' (demo_world []) = (Inr kv1, w1)"
      "quiet w1" "snap w1 = None" "kv_row ''bot'' cipher_key (tabs w1) = Some (CHR ''A'' # ''secret'')"
    using kv_open_fresh [OF demo_world_simps(1) no demo_new(1), of 0 "''secret''" "CHR ''A'' # ''secret''"] demo_new(2,3)
    by (auto simp: demo_world_simps)
  obtain kv2 where w2: "kv_open demo_cipher_lib 66 1 ''bot'' ''secret'' w1 = (Inr kv2, w1)"
    using w1(4) by (simp add: kv_open_def act_eval quiet_select_value [OF w1(2)] import_cipher_def demo_cipher_lib_def)
  have env: "env_keeps P w1" "env_keeps P (demo_world [])" for P
    using w1(2) by (simp_all add: env_keeps_def quiet_def)
  have "kv2 = kv1"
    by (rule kv_open_converges [OF env(2) demo_world_simps(2) w1(1) env(1) w1(3) _ w2])
  then show ?thesis using w1(1) w2 by blast
qed

end
