(* ===== verification/Chat_Link.thy ===== *)
theory Chat_Link
  imports Session_Manager Matrix_Store
begin

text \<open>
  The links between Matrix users and accounts (\<open>lymaille/chat/link.rs\<close>): codes to use once, drawn for an
  account over REST and spent by a Matrix user in a room, and the table of links. The counters of wrong codes
  are in the memory of the process (\<open>on_mem\<close>), the codes, as hashes, and the links in the database. A time is
  a number of nanoseconds. \<open>sha\<close> is SHA-256, \<open>draws k\<close> the bytes of the \<open>k\<close>-th call of \<open>getrandom\<close>.
\<close>

section \<open>Constants and counters\<close>

definition links_table :: string where "links_table = ''miryad_lymaille_matrix_links''"
definition codes_table :: string where "codes_table = ''miryad_lymaille_matrix_link_codes''"
definition one_second :: int where "one_second = 1000000000"
definition code_ttl :: int where "code_ttl = 600"
definition max_live_codes :: nat where "max_live_codes = 3"
definition code_alphabet :: string where "code_alphabet = ''23456789ABCDEFGHJKLMNPQRSTUVWXYZ''"
definition invalid_code :: string where "invalid_code = ''invalid or expired link code''"
definition attempt_limit :: u32 where "attempt_limit = 5"
definition attempt_window :: int where "attempt_window = 600"

type_synonym attempts = "string \<Rightarrow> (u32 \<times> int) option"

definition window_fresh :: "int \<Rightarrow> int \<Rightarrow> bool" where
  "window_fresh now start \<longleftrightarrow> (now - start) div one_second < attempt_window"

definition rate_limited :: "string \<Rightarrow> int \<Rightarrow> attempts \<Rightarrow> bool" where
  "rate_limited mxid now a =
     (case a mxid of None \<Rightarrow> False | Some (count, start) \<Rightarrow> window_fresh now start \<and> attempt_limit \<le> count)"

definition record_failure :: "string \<Rightarrow> int \<Rightarrow> attempts \<Rightarrow> attempts" where
  "record_failure mxid now a =
     (case (case a mxid of None \<Rightarrow> (0, now) | Some e \<Rightarrow> e) of (count, start) \<Rightarrow>
        a(mxid \<mapsto> (if window_fresh now start then (sat_add count 1, start) else (1, now))))"

definition clear_attempts :: "string \<Rightarrow> attempts \<Rightarrow> attempts" where
  "clear_attempts mxid a = a(mxid := None)"

section \<open>Codes\<close>

record issued_code =
  ic_code :: string
  ic_expires_at :: int

definition hash_code :: "(string \<Rightarrow> string) \<Rightarrow> string \<Rightarrow> string" where
  "hash_code sha code = hex_encode (sha code)"

definition random_code :: "string + nat list \<Rightarrow> lymaille_error + string" where
  "random_code bytes =
     (case bytes of Inl e \<Rightarrow> Inl (Lym_Store e) | Inr bs \<Rightarrow> Inr (map (\<lambda>b. code_alphabet ! (b mod length code_alphabet)) bs))"

definition purge_expired :: "db_texts \<Rightarrow> int \<Rightarrow> (sql_world, lymaille_error, nat) act" where
  "purge_expired tx now = map_err (store_error tx) (statement (sql_delete codes_table [Col_Lt ''expires_at'' (now + 1)]))"

definition live_codes :: "string \<Rightarrow> int \<Rightarrow> sql_tables \<Rightarrow> row list" where
  "live_codes sub now t =
     sort_key (\<lambda>r. row_int (r ''expires_at''))
       (filter (\<lambda>r. now < row_int (r ''expires_at'')) (rows_where codes_table [Col_Eq ''subject'' (VText (Some sub))] t))"

definition delete_code :: "db_texts \<Rightarrow> string \<Rightarrow> (sql_world, lymaille_error, nat) act" where
  "delete_code tx h = map_err (store_error tx) (statement (sql_delete codes_table [Col_Eq ''code_hash'' (VText (Some h))]))"

text \<open>\<open>INSERT ... ON CONFLICT (code_hash) DO NOTHING\<close> with the rows affected.\<close>

definition insert_code :: "string \<Rightarrow> string \<Rightarrow> int \<Rightarrow> sql_tables \<Rightarrow> dberr + (nat \<times> sql_tables)" where
  "insert_code h sub expires t =
     (if rows_where codes_table [Col_Eq ''code_hash'' (VText (Some h))] t \<noteq> [] then Inr (0, t)
      else map_sum id (\<lambda>(_, t'). (1, t')) (sql_insert codes_table
        [(''code_hash'', VText (Some h)), (''subject'', VText (Some sub)), (''expires_at'', VInt (Some expires))] t))"

fun issue_tries :: "db_texts \<Rightarrow> (string \<Rightarrow> string) \<Rightarrow> (nat \<Rightarrow> string + nat list) \<Rightarrow> string \<Rightarrow> int \<Rightarrow> nat list \<Rightarrow>
    (sql_world, lymaille_error, issued_code) act" where
  "issue_tries tx sha draws sub expires [] = fail_with (Lym_Store ''link code hash keeps colliding'')"
| "issue_tries tx sha draws sub expires (k # ks) =
     and_then (lift_result (random_code (draws k))) (\<lambda>code.
     and_then (map_err (store_error tx) (statement (insert_code (hash_code sha code) sub expires))) (\<lambda>n.
     if 0 < n then return_ok \<lparr>ic_code = code, ic_expires_at = expires\<rparr> else issue_tries tx sha draws sub expires ks))"

definition issue_code ::
    "db_texts \<Rightarrow> (string \<Rightarrow> string) \<Rightarrow> (nat \<Rightarrow> string + nat list) \<Rightarrow> caller_principal \<Rightarrow> int \<Rightarrow>
       (sql_world, lymaille_error, issued_code) act" where
  "issue_code tx sha draws caller now =
     and_then (purge_expired tx now) (\<lambda>_.
     and_then (map_err (store_error tx) (select (live_codes (cp_subject caller) now))) (\<lambda>live.
     and_then (for_each (take (length live - (max_live_codes - 1)) live) (\<lambda>r. delete_code tx (col_text (r ''code_hash'')))) (\<lambda>_.
     issue_tries tx sha draws (cp_subject caller) (now + code_ttl * one_second) [0..<5])))"

section \<open>Links\<close>

type_synonym link_process = "sql_world \<times> attempts shared"

text \<open>The loop over all the codes keeps the last one whose hash is the one sought.\<close>

definition find_code :: "string \<Rightarrow> sql_tables \<Rightarrow> row option" where
  "find_code h t = (case filter (\<lambda>r. col_text (r ''code_hash'') = h) (rows_where codes_table [] t) of [] \<Rightarrow> None | rs \<Rightarrow> Some (last rs))"

definition link_owner :: "string \<Rightarrow> sql_tables \<Rightarrow> string option" where
  "link_owner mxid t = map_option (\<lambda>r. col_text (r ''subject'')) (sql_first links_table [Col_Eq ''mxid'' (VText (Some mxid))] t)"

definition mxid_taken :: dberr where
  "mxid_taken = ExecErr ''UNIQUE constraint failed: miryad_lymaille_matrix_links.mxid''"

definition insert_link :: "string \<Rightarrow> string \<Rightarrow> int \<Rightarrow> sql_tables \<Rightarrow> dberr + (unit \<times> sql_tables)" where
  "insert_link mxid sub now t =
     (if rows_where links_table [Col_Eq ''mxid'' (VText (Some mxid))] t \<noteq> [] then Inl mxid_taken
      else sql_insert links_table [(''mxid'', VText (Some mxid)), (''subject'', VText (Some sub)), (''created_at'', VInt (Some now))] t)"

text \<open>The transaction: the owner of the Matrix user, the code, the link.\<close>

definition spend_code :: "db_texts \<Rightarrow> string \<Rightarrow> string \<Rightarrow> string \<Rightarrow> int \<Rightarrow> (sql_world, lymaille_error, unit) act" where
  "spend_code tx mxid h sub now =
     and_then (map_err (store_error tx) begin_txn) (\<lambda>_.
     in_transaction (
       and_then (map_err (store_error tx) (select (link_owner mxid))) (\<lambda>owner.
       if owner \<noteq> None \<and> owner \<noteq> Some sub then fail_with (Lym_Conflict ''mxid already linked'')
       else and_then (delete_code tx h) (\<lambda>n.
         if n = 0 then fail_with (Lym_Forbidden invalid_code)
         else and_then (if owner = None then map_err (store_error tx) (statement (insert_link mxid sub now)) else return_ok ()) (\<lambda>_.
         map_err (store_error tx) commit_txn)))))"

definition refuse_code :: "string \<Rightarrow> int \<Rightarrow> (link_process, lymaille_error, 'a) act" where
  "refuse_code mxid now =
     and_then (on_mem (\<lambda>a. ((), record_failure mxid now a))) (\<lambda>_. fail_with (Lym_Forbidden invalid_code))"

definition consume_code ::
    "db_texts \<Rightarrow> (string \<Rightarrow> string) \<Rightarrow> string \<Rightarrow> string \<Rightarrow> int \<Rightarrow> (link_process, lymaille_error, string) act" where
  "consume_code tx sha mxid code now =
     and_then (on_mem (\<lambda>a. (rate_limited mxid now a, a))) (\<lambda>limited.
     if limited then fail_with (Lym_Forbidden ''too many attempts'')
     else
     and_then (on_db (map_err (store_error tx) (select (find_code (hash_code sha code))))) (\<lambda>found.
     case found of
       None \<Rightarrow> refuse_code mxid now
     | Some r \<Rightarrow>
         if row_int (r ''expires_at'') \<le> now then refuse_code mxid now
         else
         and_then (on_error (on_db (spend_code tx mxid (col_text (r ''code_hash'')) (col_text (r ''subject'')) now))
           (\<lambda>e. if e = Lym_Forbidden invalid_code then refuse_code mxid now else fail_with e)) (\<lambda>_.
         and_then (on_mem (\<lambda>a. ((), clear_attempts mxid a))) (\<lambda>_.
         return_ok (col_text (r ''subject''))))))"

definition resolve_link :: "db_texts \<Rightarrow> string \<Rightarrow> (sql_world, lymaille_error, string option) act" where
  "resolve_link tx mxid = map_err (store_error tx) (select (link_owner mxid))"

definition unlink :: "db_texts \<Rightarrow> caller_principal \<Rightarrow> string \<Rightarrow> (sql_world, lymaille_error, bool) act" where
  "unlink tx caller mxid =
     and_then (map_err (store_error tx) (statement (sql_delete links_table
        [Col_Eq ''mxid'' (VText (Some mxid)), Col_Eq ''subject'' (VText (Some (cp_subject caller)))]))) (\<lambda>n.
     return_ok (0 < n))"

section \<open>Routes\<close>

fun link_to_rest :: "lymaille_error \<Rightarrow> rest_error" where
  "link_to_rest Lym_UnknownSubject = Forbidden"
| "link_to_rest (Lym_Forbidden _) = Forbidden"
| "link_to_rest (Lym_NotFound _) = NotFound"
| "link_to_rest (Lym_Conflict _) = Conflict"
| "link_to_rest other = Rest_Internal (lymaille_error_text other)"

definition issue_route ::
    "db_texts \<Rightarrow> (string \<Rightarrow> string) \<Rightarrow> (nat \<Rightarrow> string + nat list) \<Rightarrow> (int \<Rightarrow> string) \<Rightarrow> auth_principal \<Rightarrow> int \<Rightarrow>
       (sql_world, rest_error, nat \<times> json) act" where
  "issue_route tx sha draws rfc3339 who now =
     and_then (map_err link_to_rest (resolve_caller tx (subject who))) (\<lambda>caller.
     and_then (map_err link_to_rest (issue_code tx sha draws caller now)) (\<lambda>issued.
     return_ok (201, obj [(''code'', JString (ic_code issued)), (''expires_at'', JString (rfc3339 (ic_expires_at issued)))])))"

definition unlink_route :: "db_texts \<Rightarrow> auth_principal \<Rightarrow> string \<Rightarrow> (sql_world, rest_error, nat) act" where
  "unlink_route tx who mxid =
     and_then (map_err link_to_rest (resolve_caller tx (subject who))) (\<lambda>caller.
     and_then (map_err link_to_rest (unlink tx caller mxid)) (\<lambda>gone.
     if gone then return_ok 204 else fail_with NotFound))"

section \<open>Spending a code\<close>

text \<open>The column of the hash is the primary key, so it is not null.\<close>

definition codes_keyed :: "sql_tables \<Rightarrow> bool" where
  "codes_keyed t \<longleftrightarrow> (\<forall>r. (codes_table, r) \<in> set (rows t) \<longrightarrow> (\<exists>h. r ''code_hash'' = VText (Some h)))"

lemma tables_differ [simp]: "links_table \<noteq> codes_table" "codes_table \<noteq> links_table"
  by (simp_all add: links_table_def codes_table_def)

lemma find_code_Some:
  assumes "find_code h t = Some r"
  shows "(codes_table, r) \<in> set (rows t)" and "col_text (r ''code_hash'') = h"
proof -
  let ?rs = "filter (\<lambda>r. col_text (r ''code_hash'') = h) (rows_where codes_table [] t)"
  have "?rs \<noteq> [] \<and> r = last ?rs" using assms by (cases ?rs) (auto simp: find_code_def)
  then have "r \<in> set ?rs" by (metis last_in_set)
  then show "(codes_table, r) \<in> set (rows t)" and "col_text (r ''code_hash'') = h" by (auto simp: rows_where_set)
qed

lemma find_code_None: "find_code h t = None \<longleftrightarrow> (\<forall>r. (codes_table, r) \<in> set (rows t) \<longrightarrow> col_text (r ''code_hash'') \<noteq> h)"
proof -
  have "find_code h t = None \<longleftrightarrow> filter (\<lambda>r. col_text (r ''code_hash'') = h) (rows_where codes_table [] t) = []"
    by (simp add: find_code_def split: list.split)
  then show ?thesis using rows_where_set [of _ codes_table "[]" t] by (auto simp: filter_empty_conv)
qed

lemma rows_where_delete_other:
  assumes "table \<noteq> table'" and "sql_delete table' conds t = Inr (n, t')"
  shows "rows_where table cs t' = rows_where table cs t"
proof -
  have "filter (sql_match table cs) (filter (\<lambda>x. \<not> sql_match table' conds x) (rows t)) = filter (sql_match table cs) (rows t)"
    unfolding filter_filter using assms(1) by (intro filter_cong refl) (auto simp: sql_match_def)
  then show ?thesis using assms(2) by (auto simp: sql_delete_def rows_where_def)
qed

lemma link_owner_delete: "sql_delete codes_table conds t = Inr (n, t') \<Longrightarrow> link_owner mxid t' = link_owner mxid t"
  using rows_where_delete_other [OF tables_differ(1)] by (metis link_owner_def sql_first_def)

lemma insert_link_Inr:
  assumes "insert_link mxid sub now t = Inr (u, t')"
  shows "link_owner mxid t' = Some sub" and "m \<noteq> mxid \<Longrightarrow> link_owner m t' = link_owner m t"
    and "rows_where codes_table cs t' = rows_where codes_table cs t"
  using assms
  by (auto simp: insert_link_def sql_insert_def link_owner_def sql_first_def rows_where_def sql_match_def sql_new_row_def
      set_columns_def split: if_splits list.splits)

lemma spend_code_Inr:
  assumes q: "quiet w" and run: "spend_code tx mxid h sub now w = (Inr u, w')"
  shows "\<exists>t1 n. sql_delete codes_table [Col_Eq ''code_hash'' (VText (Some h))] (tabs w) = Inr (n, t1) \<and> 0 < n \<and>
    (link_owner mxid (tabs w) = None \<and> insert_link mxid sub now t1 = Inr ((), tabs w') \<or>
     link_owner mxid (tabs w) = Some sub \<and> tabs w' = t1)"
proof -
  let ?w1 = "w\<lparr>snap := Some (tabs w), aborted := False\<rparr>"
  have q1: "quiet ?w1" using q by (simp add: quiet_def)
  obtain n t1 where del: "sql_delete codes_table [Col_Eq ''code_hash'' (VText (Some h))] (tabs w) = Inr (n, t1)"
    by (simp add: sql_delete_def)
  have st: "statement (sql_delete codes_table [Col_Eq ''code_hash'' (VText (Some h))]) ?w1 = (Inr n, set_tabs t1 ?w1)"
    using statement_quiet_Inr [OF q1, of "sql_delete codes_table [Col_Eq ''code_hash'' (VText (Some h))]" n t1] del by simp
  show ?thesis
  proof (cases "insert_link mxid sub now t1")
    case (Inl e)
    then have "statement (insert_link mxid sub now) (set_tabs t1 ?w1) = (Inl e, taint (set_tabs t1 ?w1))"
      using statement_quiet_Inl [of "set_tabs t1 ?w1" "insert_link mxid sub now" e] q1 by simp
    then show ?thesis
      using run q del st q1
      by (auto simp: spend_code_def in_transaction_def delete_code_def act_eval begin_txn_quiet select_quiet commit_txn_quiet
          split: if_splits)
  next
    case (Inr r)
    then obtain t2 where ins: "insert_link mxid sub now t1 = Inr ((), t2)" by (cases r) auto
    then have "statement (insert_link mxid sub now) (set_tabs t1 ?w1) = (Inr (), set_tabs t2 ?w1)"
      using statement_quiet_Inr [of "set_tabs t1 ?w1" "insert_link mxid sub now" "()" t2] q1 by simp
    then show ?thesis
      using run q del st q1 ins
      by (auto simp: spend_code_def in_transaction_def delete_code_def act_eval begin_txn_quiet select_quiet commit_txn_quiet
          split: if_splits)
  qed
qed

lemma refuse_code_Inr [simp]: "refuse_code mxid now p = (Inr x, q) \<longleftrightarrow> False"
  by (auto simp: refuse_code_def act_inv)

lemma consume_code_Inr:
  assumes "sh_others s = []" and "consume_code tx sha mxid code now (w, s) = (Inr sub, (w', s'))" and "quiet w"
  obtains r where "\<not> rate_limited mxid now (sh_mem s)" "find_code (hash_code sha code) (tabs w) = Some r"
    "now < row_int (r ''expires_at'')" "sub = col_text (r ''subject'')"
    "spend_code tx mxid (col_text (r ''code_hash'')) sub now w = (Inr (), w')"
    "s' = s\<lparr>sh_mem := clear_attempts mxid (sh_mem s)\<rparr>"
proof -
  have lim: "\<not> rate_limited mxid now (sh_mem s)"
    using assms by (auto simp: consume_code_def act_inv on_mem_quiet split: if_splits)
  obtain r where r: "find_code (hash_code sha code) (tabs w) = Some r" "now < row_int (r ''expires_at'')"
    using assms lim
    by (auto simp: consume_code_def and_then_eq_Inr on_mem_quiet sh_mem_id on_db_eq map_err_eq_Inr select_quiet split: option.splits if_splits)
  have "sub = col_text (r ''subject'') \<and> s' = s\<lparr>sh_mem := clear_attempts mxid (sh_mem s)\<rparr> \<and>
      spend_code tx mxid (col_text (r ''code_hash'')) (col_text (r ''subject'')) now w = (Inr (), w')"
    using assms lim r
    by (auto simp: consume_code_def and_then_eq_Inr on_mem_quiet sh_mem_id on_db_eq map_err_eq_Inr select_quiet on_error_eq
        return_ok_def fail_with_def split: if_splits)
  then show ?thesis using that lim r by simp
qed

text \<open>
  C11: a Matrix user is linked to an account only with a code of this account: a \<open>consume_code\<close> that answers
  an account found the hash of the code in the table, for this account and not expired; afterwards the code
  is gone, the user is linked to the account, was not linked to another one before, and no other link has
  changed. The user was not over its limit of attempts, and its counter is cleared.
\<close>

theorem link_needs_code:
  assumes "quiet w" and "sh_others s = []" and "codes_keyed (tabs w)"
    and "consume_code tx sha mxid code now (w, s) = (Inr sub, (w', s'))"
  shows "\<exists>r. (codes_table, r) \<in> set (rows (tabs w)) \<and> r ''code_hash'' = VText (Some (hash_code sha code)) \<and>
    col_text (r ''subject'') = sub \<and> now < row_int (r ''expires_at'') \<and>
    find_code (hash_code sha code) (tabs w') = None \<and>
    link_owner mxid (tabs w) \<in> {None, Some sub} \<and> link_owner mxid (tabs w') = Some sub \<and>
    (\<forall>m. m \<noteq> mxid \<longrightarrow> link_owner m (tabs w') = link_owner m (tabs w)) \<and>
    \<not> rate_limited mxid now (sh_mem s) \<and> sh_mem s' mxid = None"
proof -
  let ?h = "hash_code sha code"
  obtain r where lim: "\<not> rate_limited mxid now (sh_mem s)" and r: "find_code ?h (tabs w) = Some r"
    "now < row_int (r ''expires_at'')" "sub = col_text (r ''subject'')"
    and sp: "spend_code tx mxid (col_text (r ''code_hash'')) sub now w = (Inr (), w')"
    and s': "s' = s\<lparr>sh_mem := clear_attempts mxid (sh_mem s)\<rparr>"
    using assms(2,4,1) by (rule consume_code_Inr)
  note row = find_code_Some [OF r(1)]
  then have hash: "r ''code_hash'' = VText (Some ?h)" using assms(3) by (fastforce simp: codes_keyed_def)
  obtain t1 n where del: "sql_delete codes_table [Col_Eq ''code_hash'' (VText (Some ?h))] (tabs w) = Inr (n, t1)"
    and out: "link_owner mxid (tabs w) = None \<and> insert_link mxid sub now t1 = Inr ((), tabs w') \<or>
      link_owner mxid (tabs w) = Some sub \<and> tabs w' = t1"
    using spend_code_Inr [OF assms(1) sp] by (auto simp: row(2))
  have gone: "\<forall>x. (codes_table, x) \<in> set (rows t1) \<longrightarrow> col_text (x ''code_hash'') \<noteq> ?h"
    using del assms(3) by (fastforce simp: sql_delete_def sql_match_def codes_keyed_def)
  note own = link_owner_delete [OF del]
  have "find_code ?h (tabs w') = None"
  proof -
    have "rows_where codes_table [] (tabs w') = rows_where codes_table [] t1"
      using out insert_link_Inr(3) by metis
    then have "find_code ?h (tabs w') = find_code ?h t1" by (simp add: find_code_def)
    then show ?thesis using gone by (simp add: find_code_None)
  qed
  moreover have "link_owner mxid (tabs w') = Some sub" and "\<forall>m. m \<noteq> mxid \<longrightarrow> link_owner m (tabs w') = link_owner m (tabs w)"
    using out insert_link_Inr own by metis+
  ultimately show ?thesis using r row hash lim out s' by (auto simp: clear_attempts_def)
qed

section \<open>Guessing\<close>

lemma consume_unknown:
  assumes "quiet w" and "sh_others s = []" and "find_code (hash_code sha code) (tabs w) = None"
  shows "consume_code tx sha mxid code now (w, s) =
    (if rate_limited mxid now (sh_mem s) then (Inl (Lym_Forbidden ''too many attempts''), (w, s))
     else (Inl (Lym_Forbidden invalid_code), (w, s\<lparr>sh_mem := record_failure mxid now (sh_mem s)\<rparr>)))"
  using assms by (simp add: consume_code_def act_eval on_mem_quiet on_db_def select_quiet refuse_code_def)

text \<open>How many of the codes tried one after the other are compared with the database.\<close>

fun guesses :: "db_texts \<Rightarrow> (string \<Rightarrow> string) \<Rightarrow> string \<Rightarrow> (string \<times> int) list \<Rightarrow> link_process \<Rightarrow> nat" where
  "guesses tx sha mxid [] p = 0"
| "guesses tx sha mxid ((code, now) # cs) p =
     (case consume_code tx sha mxid code now p of (r, p') \<Rightarrow>
        (if r = Inl (Lym_Forbidden invalid_code) then 1 else 0) + guesses tx sha mxid cs p')"

text \<open>What is left of the two windows that a span of ten minutes can meet.\<close>

definition guesses_left :: "int \<Rightarrow> (u32 \<times> int) option \<Rightarrow> nat" where
  "guesses_left start e =
     (case e of None \<Rightarrow> 10 | Some (count, begun) \<Rightarrow> (if begun < start then 5 else 0) + (5 - unat count))"

lemma fresh_since: "start \<le> begun \<Longrightarrow> now < start + attempt_window * one_second \<Longrightarrow> window_fresh now begun"
  by (simp add: window_fresh_def attempt_window_def one_second_def)

lemma sat_add_below_limit: "c < attempt_limit \<Longrightarrow> unat (sat_add c 1) = unat c + 1 \<and> unat c < 5"
proof -
  assume "c < attempt_limit"
  then have "unat c < 5" by (simp add: attempt_limit_def word_less_nat_alt)
  then show ?thesis by (simp add: unat_sat_add)
qed

lemma record_failure_left:
  assumes "\<not> rate_limited mxid now a" and "start \<le> now" and "now < start + attempt_window * one_second"
  shows "1 + guesses_left start (record_failure mxid now a mxid) \<le> guesses_left start (a mxid)"
proof (cases "a mxid")
  case None
  have "window_fresh now now" by (simp add: window_fresh_def attempt_window_def)
  then show ?thesis
    using None assms(2) sat_add_below_limit [of 0] by (simp add: record_failure_def guesses_left_def attempt_limit_def)
next
  case (Some e)
  obtain c begun where e: "e = (c, begun)" by (cases e)
  show ?thesis
  proof (cases "window_fresh now begun")
    case True
    then have "c < attempt_limit" using assms(1) Some e by (auto simp: rate_limited_def)
    then show ?thesis using True Some e sat_add_below_limit [of c] by (auto simp: record_failure_def guesses_left_def)
  next
    case False
    then have "begun < start" using fresh_since [of start begun now] assms(3) by force
    then show ?thesis using False Some e assms(2) by (auto simp: record_failure_def guesses_left_def)
  qed
qed


section \<open>Issuing\<close>

lemma insert_code_total: "\<exists>n t'. insert_code h sub expires t = Inr (n, t')"
  by (cases "rows_where codes_table [Col_Eq ''code_hash'' (VText (Some h))] t = []")
    (auto simp: insert_code_def sql_insert_def)

lemma issue_tries_Inr:
  assumes "issue_tries tx sha draws sub expires ks w = (Inr out, w')" and "quiet w"
  shows "ic_expires_at out = expires \<and> insert_code (hash_code sha (ic_code out)) sub expires (tabs w) = Inr (1, tabs w') \<and>
    quiet w'"
  using assms
proof (induction ks)
  case (Cons k ks)
  show ?case
  proof (cases "random_code (draws k)")
    case (Inr code)
    obtain n t' where ins: "insert_code (hash_code sha code) sub expires (tabs w) = Inr (n, t')"
      using insert_code_total by blast
    then have st: "statement (insert_code (hash_code sha code) sub expires) w = (Inr n, set_tabs t' w)"
      using statement_quiet_Inr [OF Cons.prems(2), of "insert_code (hash_code sha code) sub expires" n t'] by simp
    have n: "n = 1 \<or> n = 0 \<and> t' = tabs w" using ins by (auto simp: insert_code_def sql_insert_def split: if_splits)
    then show ?thesis
    proof
      assume "n = 1"
      then show ?thesis using Cons.prems Inr st ins by (auto simp: act_eval)
    next
      assume "n = 0 \<and> t' = tabs w"
      then show ?thesis using Cons Inr st by (simp add: act_eval)
    qed
  qed (use Cons.prems in \<open>simp add: act_eval\<close>)
qed (simp add: act_eval)

lemma delete_code_quiet:
  assumes "quiet w"
  shows "\<exists>n t'. delete_code tx h w = (Inr n, set_tabs t' w) \<and>
    rows t' = filter (\<lambda>x. \<not> sql_match codes_table [Col_Eq ''code_hash'' (VText (Some h))] x) (rows (tabs w)) \<and> users t' = users (tabs w)"
proof -
  obtain n t' where d: "sql_delete codes_table [Col_Eq ''code_hash'' (VText (Some h))] (tabs w) = Inr (n, t')"
    by (simp add: sql_delete_def)
  then have "statement (sql_delete codes_table [Col_Eq ''code_hash'' (VText (Some h))]) w = (Inr n, set_tabs t' w)"
    using statement_quiet_Inr [OF assms, of "sql_delete codes_table [Col_Eq ''code_hash'' (VText (Some h))]" n t'] by simp
  then show ?thesis using d by (auto simp: delete_code_def map_err_def sql_delete_def)
qed

lemma delete_codes_quiet:
  assumes "quiet w"
  shows "\<exists>us t'. for_each rs (\<lambda>r. delete_code tx (col_text (r ''code_hash''))) w = (Inr us, set_tabs t' w) \<and>
    rows t' = filter (\<lambda>x. \<forall>r \<in> set rs. \<not> sql_match codes_table [Col_Eq ''code_hash'' (VText (Some (col_text (r ''code_hash''))))] x)
      (rows (tabs w))"
  using assms
proof (induction rs arbitrary: w)
  case (Cons r rs)
  obtain n t1 where d: "delete_code tx (col_text (r ''code_hash'')) w = (Inr n, set_tabs t1 w)"
    "rows t1 = filter (\<lambda>x. \<not> sql_match codes_table [Col_Eq ''code_hash'' (VText (Some (col_text (r ''code_hash''))))] x) (rows (tabs w))"
    using delete_code_quiet [OF Cons.prems] by blast
  obtain us t2 where e: "for_each rs (\<lambda>r. delete_code tx (col_text (r ''code_hash''))) (set_tabs t1 w) = (Inr us, set_tabs t2 (set_tabs t1 w))"
    "rows t2 = filter (\<lambda>x. \<forall>r \<in> set rs. \<not> sql_match codes_table [Col_Eq ''code_hash'' (VText (Some (col_text (r ''code_hash''))))] x)
      (rows (tabs (set_tabs t1 w)))"
    using Cons.IH [of "set_tabs t1 w"] Cons.prems by auto
  have "rows t2 = filter (\<lambda>x. \<forall>q \<in> set (r # rs). \<not> sql_match codes_table [Col_Eq ''code_hash'' (VText (Some (col_text (q ''code_hash''))))] x)
      (rows (tabs w))"
    unfolding e(2) by (simp add: d(2) conj_commute)
  then show ?case using d(1) e(1) by (auto simp: act_eval)
next
  case Nil
  show ?case by (intro exI [of _ "[]"] exI [of _ "tabs w"]) (simp add: act_eval)
qed

text \<open>What is left of the codes when the surplus has been deleted.\<close>

definition kept_rows :: "string \<Rightarrow> int \<Rightarrow> sql_tables \<Rightarrow> sql_row list" where
  "kept_rows sub now t =
     (let open_rows = filter (\<lambda>x. \<not> sql_match codes_table [Col_Lt ''expires_at'' (now + 1)] x) (rows t);
          live = live_codes sub now t in
      filter (\<lambda>x. \<forall>r \<in> set (take (length live - 2) live).
        \<not> sql_match codes_table [Col_Eq ''code_hash'' (VText (Some (col_text (r ''code_hash''))))] x) open_rows)"

lemma not_expired: "now < row_int v \<Longrightarrow> \<not> (case col_int v of None \<Rightarrow> False | Some i \<Rightarrow> i < now + 1)"
  by (induction v rule: row_int.induct) auto

lemma live_codes_purged:
  assumes "rows t' = filter (\<lambda>x. \<not> sql_match codes_table [Col_Lt ''expires_at'' (now + 1)] x) (rows t)"
  shows "live_codes sub now t' = live_codes sub now t"
proof -
  have "filter (\<lambda>x. sql_match codes_table cs x \<and> now < row_int (snd x ''expires_at'')) (rows t') =
      filter (\<lambda>x. sql_match codes_table cs x \<and> now < row_int (snd x ''expires_at'')) (rows t)" for cs
    unfolding assms filter_filter
    by (intro filter_cong refl) (auto simp: sql_match_def not_expired)
  then show ?thesis by (simp add: live_codes_def rows_where_def filter_map o_def)
qed

lemma issue_code_quiet:
  assumes "quiet w" and "issue_code tx sha draws caller now w = (Inr out, w')"
  obtains t where "rows t = kept_rows (cp_subject caller) now (tabs w)"
    "ic_expires_at out = now + code_ttl * one_second" "quiet w'"
    "insert_code (hash_code sha (ic_code out)) (cp_subject caller) (ic_expires_at out) t = Inr (1, tabs w')"
proof -
  obtain n t1 where p: "sql_delete codes_table [Col_Lt ''expires_at'' (now + 1)] (tabs w) = Inr (n, t1)"
    by (simp add: sql_delete_def)
  then have r1: "rows t1 = filter (\<lambda>x. \<not> sql_match codes_table [Col_Lt ''expires_at'' (now + 1)] x) (rows (tabs w))"
    by (auto simp: sql_delete_def)
  let ?live = "live_codes (cp_subject caller) now (tabs w)"
  have live: "live_codes (cp_subject caller) now t1 = ?live" using r1 by (rule live_codes_purged)
  obtain us t2 where d: "for_each (take (length ?live - 2) ?live) (\<lambda>r. delete_code tx (col_text (r ''code_hash''))) (set_tabs t1 w) =
      (Inr us, set_tabs t2 (set_tabs t1 w))"
    and r2: "rows t2 = filter (\<lambda>x. \<forall>r \<in> set (take (length ?live - 2) ?live).
      \<not> sql_match codes_table [Col_Eq ''code_hash'' (VText (Some (col_text (r ''code_hash''))))] x) (rows t1)"
    using delete_codes_quiet [of "set_tabs t1 w" "take (length ?live - 2) ?live" tx] assms(1) by auto
  have "statement (sql_delete codes_table [Col_Lt ''expires_at'' (now + 1)]) w = (Inr n, set_tabs t1 w)"
    using statement_quiet_Inr [OF assms(1), of "sql_delete codes_table [Col_Lt ''expires_at'' (now + 1)]" n t1] p by simp
  then have "issue_tries tx sha draws (cp_subject caller) (now + code_ttl * one_second) [0..<5] (set_tabs t2 (set_tabs t1 w)) = (Inr out, w')"
    using assms live d by (simp add: issue_code_def purge_expired_def max_live_codes_def act_eval select_quiet)
  then have "ic_expires_at out = now + code_ttl * one_second \<and>
      insert_code (hash_code sha (ic_code out)) (cp_subject caller) (now + code_ttl * one_second) t2 = Inr (1, tabs w') \<and> quiet w'"
    using issue_tries_Inr [of tx sha draws "cp_subject caller" _ _ "set_tabs t2 (set_tabs t1 w)"] assms(1) by simp
  moreover have "rows t2 = kept_rows (cp_subject caller) now (tabs w)"
    by (simp add: r2 r1 kept_rows_def Let_def)
  ultimately show ?thesis using that by metis
qed

lemma insert_code_Inr:
  assumes "insert_code h sub expires t = Inr (1, t')"
  obtains r where "rows t' = rows t @ [(codes_table, r)]" "r ''code_hash'' = VText (Some h)" "r ''subject'' = VText (Some sub)"
    "r ''expires_at'' = VInt (Some expires)" "rows_where codes_table [Col_Eq ''code_hash'' (VText (Some h))] t = []"
  using assms by (auto simp: insert_code_def sql_insert_def sql_new_row_def set_columns_def split: if_splits)

lemma few_left:
  assumes "\<And>x. x \<in> set (take (length xs - k) xs) \<Longrightarrow> \<not> P x"
  shows "length (filter P xs) \<le> k"
proof -
  have "filter P xs = filter P (take (length xs - k) xs) @ filter P (drop (length xs - k) xs)"
    by (metis append_take_drop_id filter_append)
  also have "filter P (take (length xs - k) xs) = []" using assms by (simp add: filter_empty_conv)
  finally show ?thesis using length_filter_le [of P "drop (length xs - k) xs"] by simp
qed

lemma live_codes_kept:
  assumes "rows t' = kept_rows sub now t" and "codes_keyed t"
  shows "length (live_codes sub now t') \<le> 2"
proof -
  let ?live = "live_codes sub now t"
  let ?P = "\<lambda>r. \<forall>q \<in> set (take (length ?live - 2) ?live). \<not> sql_match codes_table [Col_Eq ''code_hash'' (VText (Some (col_text (q ''code_hash''))))] (codes_table, r)"
  have "filter (\<lambda>x. sql_match codes_table [Col_Eq ''subject'' (VText (Some sub))] x \<and> now < row_int (snd x ''expires_at'')) (rows t') =
      filter (\<lambda>x. (sql_match codes_table [Col_Eq ''subject'' (VText (Some sub))] x \<and> now < row_int (snd x ''expires_at'')) \<and> ?P (snd x)) (rows t)"
    unfolding assms(1) kept_rows_def Let_def filter_filter
    by (intro filter_cong refl) (auto simp: sql_match_def not_expired)
  then have "live_codes sub now t' = filter ?P ?live"
    by (simp add: live_codes_def rows_where_def filter_map o_def filter_sort conj_ac)
  moreover have "\<not> ?P q" if "q \<in> set (take (length ?live - 2) ?live)" for q
  proof -
    have "(codes_table, q) \<in> set (rows t)" using in_set_takeD [OF that] by (simp add: live_codes_def rows_where_set)
    then show ?thesis using that assms(2) by (fastforce simp: codes_keyed_def sql_match_def)
  qed
  ultimately show ?thesis using few_left [of ?live 2 ?P] by simp
qed

lemma live_codes_new:
  assumes "rows t' = rows t @ [(codes_table, r)]" and "r ''subject'' = VText (Some sub)" and "now < row_int (r ''expires_at'')"
  shows "length (live_codes sub now t') = Suc (length (live_codes sub now t))" and "r \<in> set (live_codes sub now t')"
  using assms by (auto simp: live_codes_def rows_where_def sql_match_def)

text \<open>
  An account has at most three live codes once \<open>issue_code\<close> has answered, whatever it had before: the
  codes that expire first give way to the new one, which is live for ten minutes.
\<close>

theorem live_codes_bounded:
  assumes "quiet w" and "codes_keyed (tabs w)" and "issue_code tx sha draws caller now w = (Inr out, w')"
  shows "length (live_codes (cp_subject caller) now (tabs w')) \<le> 3 \<and> ic_expires_at out = now + 600 * one_second \<and>
    (\<exists>r \<in> set (live_codes (cp_subject caller) now (tabs w')). r ''code_hash'' = VText (Some (hash_code sha (ic_code out))))"
proof -
  obtain t where t: "rows t = kept_rows (cp_subject caller) now (tabs w)" "ic_expires_at out = now + code_ttl * one_second"
    and ins: "insert_code (hash_code sha (ic_code out)) (cp_subject caller) (ic_expires_at out) t = Inr (1, tabs w')"
    using assms(1,3) by (rule issue_code_quiet)
  obtain r where r: "rows (tabs w') = rows t @ [(codes_table, r)]" "r ''code_hash'' = VText (Some (hash_code sha (ic_code out)))"
    "r ''subject'' = VText (Some (cp_subject caller))" "r ''expires_at'' = VInt (Some (ic_expires_at out))"
    using ins by (rule insert_code_Inr)
  have "now < row_int (r ''expires_at'')" using r(4) t(2) by (simp add: code_ttl_def one_second_def)
  note new = live_codes_new [OF r(1,3) this]
  show ?thesis using new live_codes_kept [OF t(1) assms(2)] r(2) t(2) by (auto simp: code_ttl_def)
qed

lemma spend_code_quiet:
  assumes "quiet w" and "link_owner mxid (tabs w) \<in> {None, Some sub}"
    and "rows_where codes_table [Col_Eq ''code_hash'' (VText (Some h))] (tabs w) \<noteq> []"
  shows "\<exists>w'. spend_code tx mxid h sub now w = (Inr (), w')"
proof -
  let ?w1 = "w\<lparr>snap := Some (tabs w), aborted := False\<rparr>"
  have q1: "quiet ?w1" using assms(1) by (simp add: quiet_def)
  let ?n = "length (rows_where codes_table [Col_Eq ''code_hash'' (VText (Some h))] (tabs w))"
  obtain t1 where del: "sql_delete codes_table [Col_Eq ''code_hash'' (VText (Some h))] (tabs w) = Inr (?n, t1)"
    by (simp add: sql_delete_def)
  have st: "statement (sql_delete codes_table [Col_Eq ''code_hash'' (VText (Some h))]) ?w1 = (Inr ?n, set_tabs t1 ?w1)"
    using statement_quiet_Inr [OF q1, of "sql_delete codes_table [Col_Eq ''code_hash'' (VText (Some h))]" ?n t1] del by simp
  show ?thesis
  proof (cases "link_owner mxid (tabs w)")
    case None
    then have "link_owner mxid t1 = None" using link_owner_delete [OF del, of mxid] by simp
    then have "rows_where links_table [Col_Eq ''mxid'' (VText (Some mxid))] t1 = []"
      by (simp add: link_owner_def sql_first_None)
    then obtain t2 where "insert_link mxid sub now t1 = Inr ((), t2)" by (simp add: insert_link_def sql_insert_def)
    then have "statement (insert_link mxid sub now) (set_tabs t1 ?w1) = (Inr (), set_tabs t2 ?w1)"
      using statement_quiet_Inr [of "set_tabs t1 ?w1" "insert_link mxid sub now" "()" t2] q1 by simp
    then show ?thesis using None assms st q1
      by (simp add: spend_code_def in_transaction_def delete_code_def act_eval begin_txn_quiet select_quiet commit_txn_quiet)
  next
    case (Some a)
    then show ?thesis using assms st q1
      by (simp add: spend_code_def in_transaction_def delete_code_def act_eval begin_txn_quiet select_quiet commit_txn_quiet)
  qed
qed

lemma consume_code_accepts:
  assumes "quiet w" and "sh_others s = []" and "\<not> rate_limited mxid now (sh_mem s)"
    and "find_code (hash_code sha code) (tabs w) = Some r" and "now < row_int (r ''expires_at'')"
    and "link_owner mxid (tabs w) \<in> {None, Some (col_text (r ''subject''))}"
    and "rows_where codes_table [Col_Eq ''code_hash'' (VText (Some (col_text (r ''code_hash''))))] (tabs w) \<noteq> []"
  shows "\<exists>w'. consume_code tx sha mxid code now (w, s) =
    (Inr (col_text (r ''subject'')), (w', s\<lparr>sh_mem := clear_attempts mxid (sh_mem s)\<rparr>))"
proof -
  obtain w' where "spend_code tx mxid (col_text (r ''code_hash'')) (col_text (r ''subject'')) now w = (Inr (), w')"
    using spend_code_quiet [OF assms(1,6,7)] by blast
  then show ?thesis using assms(1-5) by (simp add: consume_code_def act_eval on_mem_quiet on_db_def select_quiet on_error_eq)
qed

lemma last_found: "(case xs @ [x] of [] \<Rightarrow> None | r # rs \<Rightarrow> Some (last (r # rs))) = Some x"
  by (cases xs) auto

lemma rows_where_kept:
  assumes "rows t' = kept_rows sub now t"
  shows "rows_where links_table cs t' = rows_where links_table cs t"
proof -
  have "filter (sql_match links_table cs) (rows t') = filter (sql_match links_table cs) (rows t)"
    unfolding assms kept_rows_def Let_def filter_filter by (intro filter_cong refl) (auto simp: sql_match_def)
  then show ?thesis by (simp add: rows_where_def)
qed

text \<open>
  C29: issuing and spending round trip: the code \<open>issue_code\<close> answers to an account, presented within ten
  minutes by a Matrix user that is linked to no other account and is not over its limit, is accepted and
  answers this account.
\<close>

theorem issued_code_links:
  assumes "quiet w" and "issue_code tx sha draws caller now w = (Inr out, w')"
    and "sh_others s = []" and "\<not> rate_limited mxid later (sh_mem s)"
    and "link_owner mxid (tabs w) \<in> {None, Some (cp_subject caller)}" and "later < now + 600 * one_second"
  shows "\<exists>w''. consume_code tx sha mxid (ic_code out) later (w', s) =
    (Inr (cp_subject caller), (w'', s\<lparr>sh_mem := clear_attempts mxid (sh_mem s)\<rparr>))"
proof -
  let ?h = "hash_code sha (ic_code out)"
  obtain t where t: "rows t = kept_rows (cp_subject caller) now (tabs w)" "ic_expires_at out = now + code_ttl * one_second"
    and q: "quiet w'" and ins: "insert_code ?h (cp_subject caller) (ic_expires_at out) t = Inr (1, tabs w')"
    using assms(1,2) by (rule issue_code_quiet)
  obtain r where r: "rows (tabs w') = rows t @ [(codes_table, r)]" "r ''code_hash'' = VText (Some ?h)"
    "r ''subject'' = VText (Some (cp_subject caller))" "r ''expires_at'' = VInt (Some (ic_expires_at out))"
    using ins by (rule insert_code_Inr)
  have found: "find_code ?h (tabs w') = Some r"
    by (simp add: find_code_def rows_where_def r(1,2) sql_match_def last_found)
  have "rows_where links_table cs (tabs w') = rows_where links_table cs t" for cs
    by (simp add: rows_where_def r(1) sql_match_def)
  then have "link_owner mxid (tabs w') \<in> {None, Some (cp_subject caller)}"
    using assms(5) by (simp add: link_owner_def sql_first_def rows_where_kept [OF t(1)])
  moreover have "rows_where codes_table [Col_Eq ''code_hash'' (VText (Some ?h))] (tabs w') \<noteq> []"
    by (simp add: rows_where_def r(1,2) sql_match_def)
  moreover have "later < row_int (r ''expires_at'')" using r(4) t(2) assms(6) by (simp add: code_ttl_def)
  ultimately show ?thesis
    using consume_code_accepts [OF q assms(3,4) found, of tx] r(2,3) by simp
qed

section \<open>Witnesses\<close>

definition demo_code_row :: "string \<Rightarrow> string \<Rightarrow> int \<Rightarrow> string \<times> row" where
  "demo_code_row h sub expires = (codes_table, demo_row
     [(''code_hash'', VText (Some h)), (''subject'', VText (Some sub)), (''expires_at'', VInt (Some expires))])"

definition demo_sha :: "string \<Rightarrow> string" where "demo_sha c = c"

definition demo_draws :: "nat \<Rightarrow> string + nat list" where "demo_draws k = Inr [k, 7, 40]"

definition demo_codes :: sql_world where
  "demo_codes = demo_world [demo_code_row ''4142'' ''alice'' 900, demo_code_row ''4344'' ''alice'' 700,
     demo_code_row ''4546'' ''alice'' 800]"

definition demo_counters :: "attempts shared" where
  "demo_counters = \<lparr>sh_mem = (\<lambda>_. None), sh_others = []\<rparr>"

lemma demo_codes_start: "quiet demo_codes" "codes_keyed (tabs demo_codes)" "sh_others demo_counters = []"
  by (auto simp: demo_codes_def codes_keyed_def demo_counters_def demo_code_row_def demo_row_def set_columns_def demo_tables_def)

lemma demo_hash: "hash_code demo_sha ''CD'' = ''4344''" "hash_code demo_sha ''XY'' = ''5859''"
  by (simp_all add: hash_code_def demo_sha_def hex_encode_def hex_digit_def char_of_def bit_0)

lemma demo_rows: "rows (tabs demo_codes) = [demo_code_row ''4142'' ''alice'' 900, demo_code_row ''4344'' ''alice'' 700,
    demo_code_row ''4546'' ''alice'' 800]"
  by (simp add: demo_codes_def demo_tables_def)

lemma demo_code_row_simps:
  "fst (demo_code_row h sub e) = codes_table" "snd (demo_code_row h sub e) ''code_hash'' = VText (Some h)"
  "snd (demo_code_row h sub e) ''subject'' = VText (Some sub)" "snd (demo_code_row h sub e) ''expires_at'' = VInt (Some e)"
  by (simp_all add: demo_code_row_def demo_row_def set_columns_def)

lemmas demo_table = demo_rows demo_code_row_simps rows_where_def sql_match_def

lemma demo_find:
  "find_code ''4344'' (tabs demo_codes) = Some (snd (demo_code_row ''4344'' ''alice'' 700))"
  "find_code ''5859'' (tabs demo_codes) = None"
  by (simp_all add: find_code_def demo_table)

theorem link_needs_code_witness:
  "\<exists>w'. link_owner ''@a:x'' (tabs (w' :: sql_world)) = Some ''alice'' \<and> find_code ''4344'' (tabs w') = None"
proof -
  obtain w' where "consume_code demo_texts demo_sha ''@a:x'' ''CD'' 500 (demo_codes, demo_counters) =
      (Inr ''alice'', (w', demo_counters\<lparr>sh_mem := clear_attempts ''@a:x'' (sh_mem demo_counters)\<rparr>))"
    using consume_code_accepts [of demo_codes demo_counters "''@a:x''" 500 demo_sha "''CD''"] demo_codes_start
    by (force simp: demo_hash demo_find demo_table rate_limited_def demo_counters_def link_owner_def sql_first_def)
  from link_needs_code [OF demo_codes_start(1,3,2) this] show ?thesis by (auto simp: demo_hash)
qed

text \<open>Four wrong codes in the last second of a window, five in the next: nine guesses, of ten codes.\<close>

definition demo_guesses :: "(string \<times> int) list" where
  "demo_guesses =
     [(''XY'', 599 * one_second), (''XY'', 599 * one_second), (''XY'', 599 * one_second), (''XY'', 599 * one_second),
      (''XY'', 600 * one_second), (''XY'', 600 * one_second), (''XY'', 600 * one_second), (''XY'', 600 * one_second), (''XY'', 600 * one_second), (''XY'', 600 * one_second)]"

definition demo_counting :: "attempts shared" where
  "demo_counting = \<lparr>sh_mem = [''@a:x'' \<mapsto> (1, 0)], sh_others = []\<rparr>"


lemma issue_first_try:
  assumes "quiet w" and "draws 0 = Inr bs" and "random_code (draws 0) = Inr code"
    and "rows_where codes_table [Col_Eq ''code_hash'' (VText (Some (hash_code sha code)))] (tabs w) = []"
  shows "\<exists>w'. issue_code tx sha draws caller now w = (Inr \<lparr>ic_code = code, ic_expires_at = now + code_ttl * one_second\<rparr>, w')"
proof -
  obtain n t1 where p: "sql_delete codes_table [Col_Lt ''expires_at'' (now + 1)] (tabs w) = Inr (n, t1)"
    by (simp add: sql_delete_def)
  then have st: "statement (sql_delete codes_table [Col_Lt ''expires_at'' (now + 1)]) w = (Inr n, set_tabs t1 w)"
    using statement_quiet_Inr [OF assms(1), of "sql_delete codes_table [Col_Lt ''expires_at'' (now + 1)]" n t1] by simp
  let ?live = "live_codes (cp_subject caller) now t1"
  obtain us t2 where d: "for_each (take (length ?live - 2) ?live) (\<lambda>r. delete_code tx (col_text (r ''code_hash''))) (set_tabs t1 w) =
      (Inr us, set_tabs t2 (set_tabs t1 w))"
    and r2: "set (rows t2) \<subseteq> set (rows t1)"
    using delete_codes_quiet [of "set_tabs t1 w" "take (length ?live - 2) ?live" tx] assms(1) by auto
  let ?ins = "insert_code (hash_code sha code) (cp_subject caller) (now + code_ttl * one_second)"
  have "rows_where codes_table [Col_Eq ''code_hash'' (VText (Some (hash_code sha code)))] t2 = []"
    using assms(4) p r2 by (fastforce simp: rows_where_def sql_delete_def filter_empty_conv)
  then obtain t3 where "?ins t2 = Inr (1, t3)" by (auto simp: insert_code_def sql_insert_def)
  then have "statement ?ins (set_tabs t2 (set_tabs t1 w)) = (Inr 1, set_tabs t3 (set_tabs t2 (set_tabs t1 w)))"
    using statement_quiet_Inr [of "set_tabs t2 (set_tabs t1 w)" ?ins 1 t3] assms(1) by simp
  moreover have "[0..<5] = 0 # [1, 2, 3, 4]" by (simp add: upt_rec)
  ultimately show ?thesis using assms(1,3) st d
    by (simp add: issue_code_def purge_expired_def max_live_codes_def act_eval select_quiet)
qed

lemma demo_issue: "\<exists>w'. issue_code demo_texts demo_sha demo_draws \<lparr>cp_user_id = 1, cp_subject = ''alice'', cp_is_admin = False\<rparr> 500 demo_codes =
    (Inr \<lparr>ic_code = ''29A'', ic_expires_at = 500 + code_ttl * one_second\<rparr>, w')"
  by (rule issue_first_try [of _ _ "[0, 7, 40]"])
    (simp_all add: demo_codes_start demo_draws_def random_code_def code_alphabet_def demo_table hash_code_def demo_sha_def hex_encode_def
      hex_digit_def char_of_def bit_0)

theorem live_codes_bounded_witness:
  "\<exists>w'. length (live_codes ''alice'' 500 (tabs (w' :: sql_world))) \<le> 3 \<and> live_codes ''alice'' 500 (tabs w') \<noteq> []"
proof -
  obtain w' where run: "issue_code demo_texts demo_sha demo_draws \<lparr>cp_user_id = 1, cp_subject = ''alice'', cp_is_admin = False\<rparr> 500
      demo_codes = (Inr \<lparr>ic_code = ''29A'', ic_expires_at = 500 + code_ttl * one_second\<rparr>, w')"
    using demo_issue by blast
  show ?thesis using live_codes_bounded [OF demo_codes_start(1,2) run] by (intro exI [of _ w']) auto
qed

theorem issued_code_links_witness:
  "\<exists>w' w''. consume_code demo_texts demo_sha ''@a:x'' ''29A'' 501 (w', demo_counters) =
    (Inr ''alice'', (w'', demo_counters\<lparr>sh_mem := clear_attempts ''@a:x'' (sh_mem demo_counters)\<rparr>))"
proof -
  obtain w' where run: "issue_code demo_texts demo_sha demo_draws \<lparr>cp_user_id = 1, cp_subject = ''alice'', cp_is_admin = False\<rparr> 500
      demo_codes = (Inr \<lparr>ic_code = ''29A'', ic_expires_at = 500 + code_ttl * one_second\<rparr>, w')"
    using demo_issue by blast
  have "\<not> rate_limited ''@a:x'' 501 (sh_mem demo_counters)" "link_owner ''@a:x'' (tabs demo_codes) = None"
    by (simp_all add: rate_limited_def demo_counters_def link_owner_def sql_first_def demo_table)
  then show ?thesis
    using issued_code_links [OF demo_codes_start(1) run demo_codes_start(3), of "''@a:x''" 501] by (auto simp: one_second_def)
qed

end
