(* ===== verification/Matrix_Client.thy ===== *)
theory Matrix_Client
  imports Matrix_Store
begin

text \<open>
  The Matrix client: errors (\<open>src/src/matrix/error.rs\<close>), configuration (\<open>config.rs\<close>), the stored session
  (\<open>session.rs\<close>), the login by device code (\<open>device_code.rs\<close>) and the synchronisation
  (\<open>sync.rs\<close>). The HTTP client, URL and JSON parsing, and what \<open>matrix-sdk\<close> does are parameters; the
  login acts on any world \<open>'w\<close> that has a clock, a sleep and a server. The loop of the
  synchronisation is a state machine over what the store and the SDK answer.
\<close>

section \<open>Errors\<close>

datatype matrix_error =
    Mx_Config string
  | Mx_NotLoggedIn
  | Mx_Store mx_store_error
  | Mx_Login string
  | Mx_InvalidId string
  | Mx_RoomUnavailable string
  | Mx_Network string bool
  | Mx_Sdk string

fun matrix_error_text :: "(dberr \<Rightarrow> string) \<Rightarrow> matrix_error \<Rightarrow> string" where
  "matrix_error_text d (Mx_Config s) = ''MRD-MATRIX-001: invalid configuration: '' @ s"
| "matrix_error_text d Mx_NotLoggedIn =
     ''MRD-MATRIX-002: no matrix session for this account (log in or import a session first)''"
| "matrix_error_text d (Mx_Store e) = ''MRD-MATRIX-003: store error: '' @ mx_store_error_text d e"
| "matrix_error_text d (Mx_Login s) = ''MRD-MATRIX-004: login failed: '' @ s"
| "matrix_error_text d (Mx_InvalidId s) = ''MRD-MATRIX-005: invalid matrix identifier: '' @ s"
| "matrix_error_text d (Mx_RoomUnavailable s) = ''MRD-MATRIX-006: room unavailable: '' @ s"
| "matrix_error_text d (Mx_Network s _) = ''MRD-MATRIX-007: network error: '' @ s"
| "matrix_error_text d (Mx_Sdk s) = ''MRD-MATRIX-008: matrix sdk error: '' @ s"

fun matrix_retryable :: "matrix_error \<Rightarrow> bool" where
  "matrix_retryable (Mx_Network _ retry) = retry"
| "matrix_retryable (Mx_Store (Sto_Db _)) = True"
| "matrix_retryable _ = False"

text \<open>
  What the translation reads of an error of the SDK: an HTTP error may be cached, come from the
  transport (timeout, connection, request), or carry the status of the server; each has its text.
\<close>

datatype sdk_http_error =
    Http_Cached sdk_http_error
  | Http_Reqwest bool bool bool string
  | Http_Api nat string
  | Http_Other string

datatype sdk_error = Sdk_Http sdk_http_error | Sdk_Other string

definition from_status :: "nat \<Rightarrow> matrix_error" where
  "from_status status =
     (if status = 429 then Mx_Network ''rate limited (HTTP 429)'' True
      else if 500 \<le> status \<and> status \<le> 599 then Mx_Network (''server error (HTTP '' @ show_nat status @ '')'') True
      else if status = 403 then Mx_RoomUnavailable ''forbidden (HTTP 403)''
      else if status = 404 then Mx_RoomUnavailable ''not found (HTTP 404)''
      else Mx_Sdk (''HTTP '' @ show_nat status))"

fun from_http :: "sdk_http_error \<Rightarrow> matrix_error" where
  "from_http (Http_Cached inner) = from_http inner"
| "from_http (Http_Reqwest is_timeout is_connect is_request text) =
     (if is_timeout \<or> is_connect \<or> is_request then Mx_Network ''connection failed or timed out'' True
      else Mx_Sdk text)"
| "from_http (Http_Api status _) = from_status status"
| "from_http (Http_Other text) = Mx_Sdk text"

fun from_sdk :: "sdk_error \<Rightarrow> matrix_error" where
  "from_sdk (Sdk_Http e) = from_http e"
| "from_sdk (Sdk_Other text) = Mx_Sdk text"

section \<open>Configuration\<close>

record matrix_config =
  homeserver_url :: string
  store_passphrase :: string
  holder_name :: string
  account_key :: string
  device_display_name :: string
  auto_join_from :: "string list"
  sync_timeout_ms :: u64
  ca_cert :: "string option"

definition new_matrix_config :: "string \<Rightarrow> string \<Rightarrow> string \<Rightarrow> matrix_config" where
  "new_matrix_config url pass holder =
     \<lparr>homeserver_url = url, store_passphrase = pass, holder_name = holder, account_key = ''default'',
      device_display_name = ''miryad'', auto_join_from = [], sync_timeout_ms = 30000, ca_cert = None\<rparr>"

definition sync_timeout_min_ms :: u64 where "sync_timeout_min_ms = 1000"
definition sync_timeout_max_ms :: u64 where "sync_timeout_max_ms = 120000"

definition config_error :: "string \<Rightarrow> string \<Rightarrow> matrix_error" where
  "config_error field reason = Mx_Config (field @ '': '' @ reason)"

text \<open>\<open>url_scheme\<close> is \<open>Url::parse\<close> with the scheme of what it parsed, \<open>pem_certificate\<close> whether a PEM text holds a certificate.\<close>

definition validate_homeserver_url :: "(string \<Rightarrow> string option) \<Rightarrow> string \<Rightarrow> matrix_error + unit" where
  "validate_homeserver_url url_scheme raw =
     (case url_scheme raw of
        None \<Rightarrow> Inl (config_error ''homeserver_url'' ''must be a valid URL'')
      | Some s \<Rightarrow> if s = ''http'' \<or> s = ''https'' then Inr ()
          else Inl (config_error ''homeserver_url'' ''scheme must be http or https''))"

definition require_non_blank :: "string \<Rightarrow> string \<Rightarrow> matrix_error + unit" where
  "require_non_blank field v = (if is_blank v then Inl (config_error field ''must not be blank'') else Inr ())"

definition validate_user_id :: "string \<Rightarrow> matrix_error + unit" where
  "validate_user_id entry =
     (let malformed = Inl (config_error ''auto_join_from'' ''each entry must have the form @local:domain'') in
      case strip_prefix ''@'' entry of
        None \<Rightarrow> malformed
      | Some rest \<Rightarrow> (case split_once CHR '':'' rest of
            Some (loc, domn) \<Rightarrow> if loc \<noteq> [] \<and> domn \<noteq> [] then Inr () else malformed
          | None \<Rightarrow> malformed))"

definition validate_ca_cert_pem :: "(string \<Rightarrow> bool) \<Rightarrow> string \<Rightarrow> matrix_error + unit" where
  "validate_ca_cert_pem pem_certificate pem =
     (if pem_certificate pem then Inr ()
      else Inl (config_error ''ca_cert'' ''must contain at least one decodable PEM CERTIFICATE block''))"

fun all_user_ids :: "string list \<Rightarrow> matrix_error + unit" where
  "all_user_ids [] = Inr ()"
| "all_user_ids (e # es) = (case validate_user_id e of Inl x \<Rightarrow> Inl x | Inr _ \<Rightarrow> all_user_ids es)"

definition config_validate ::
    "(string \<Rightarrow> string option) \<Rightarrow> (string \<Rightarrow> bool) \<Rightarrow> matrix_config \<Rightarrow> matrix_error + unit" where
  "config_validate url_scheme pem_certificate c =
     (case validate_homeserver_url url_scheme (homeserver_url c) of Inl e \<Rightarrow> Inl e | Inr _ \<Rightarrow>
      case require_non_blank ''store_passphrase'' (store_passphrase c) of Inl e \<Rightarrow> Inl e | Inr _ \<Rightarrow>
      case require_non_blank ''holder_name'' (holder_name c) of Inl e \<Rightarrow> Inl e | Inr _ \<Rightarrow>
      case require_non_blank ''account_key'' (account_key c) of Inl e \<Rightarrow> Inl e | Inr _ \<Rightarrow>
      case all_user_ids (auto_join_from c) of Inl e \<Rightarrow> Inl e | Inr _ \<Rightarrow>
      if \<not> (sync_timeout_min_ms \<le> sync_timeout_ms c \<and> sync_timeout_ms c \<le> sync_timeout_max_ms)
      then Inl (config_error ''sync_timeout_ms'' ''must be between 1000 and 120000 milliseconds (inclusive)'')
      else case ca_cert c of None \<Rightarrow> Inr () | Some pem \<Rightarrow> validate_ca_cert_pem pem_certificate pem)"

section \<open>The stored session\<close>

definition session_key :: string where "session_key = ''miryad.matrix.session''"

text \<open>\<open>ss_of_bytes\<close> and \<open>ss_to_bytes\<close> are \<open>serde_json\<close> on \<open>StoredSession\<close>, with the text of their errors.\<close>

record 'ss stored_session_lib =
  ss_of_bytes :: "string \<Rightarrow> string + 'ss"
  ss_to_bytes :: "'ss \<Rightarrow> string + string"

definition matrix_session_load ::
    "'c cipher_lib \<Rightarrow> 'ss stored_session_lib \<Rightarrow> 'c kv \<Rightarrow> (sql_world, matrix_error, 'ss option) act" where
  "matrix_session_load C S kv =
     and_then (map_err Mx_Store (get_custom_value C kv session_key)) (\<lambda>stored. case stored of
       None \<Rightarrow> return_ok None
     | Some b \<Rightarrow> (case ss_of_bytes S b of
           Inl e \<Rightarrow> fail_with (Mx_Store (Sto_Corrupt (''session illisible : '' @ e)))
         | Inr x \<Rightarrow> return_ok (Some x)))"

definition matrix_session_save ::
    "'c cipher_lib \<Rightarrow> 'ss stored_session_lib \<Rightarrow> 'c kv \<Rightarrow> nat \<Rightarrow> 'ss \<Rightarrow> (sql_world, matrix_error, unit) act" where
  "matrix_session_save C S kv n x =
     and_then (map_err (\<lambda>e. Mx_Store (Sto_Serialization e)) (lift_result (ss_to_bytes S x)))
       (\<lambda>b. map_err Mx_Store (set_custom_value C kv n session_key b))"

definition matrix_session_clear :: "'c kv \<Rightarrow> (sql_world, matrix_error, unit) act" where
  "matrix_session_clear kv = map_err Mx_Store (remove_custom_value kv session_key)"

section \<open>Login by device code\<close>

definition device_grant :: string where "device_grant = ''urn:ietf:params:oauth:grant-type:device_code''"
definition device_scope :: string where "device_scope = ''urn:matrix:org.matrix.msc2967.client:device:''"
definition api_scope :: string where "api_scope = ''urn:matrix:org.matrix.msc2967.client:api:*''"
definition default_interval_secs :: u64 where "default_interval_secs = 5"
definition slow_down_step_secs :: u64 where "slow_down_step_secs = 5"
definition device_id_len :: nat where "device_id_len = 10"
definition retry_attempts :: nat where "retry_attempts = 3"

text \<open>
  The requests the login makes, and what it reads of a response: the status, the origin of the URL
  that answered, and the body, which may fail to arrive.
\<close>

datatype http_request =
    Get_Request string "string option"
  | Post_Json string json
  | Post_Form string string

record http_response =
  hr_status :: nat
  hr_origin :: string
  hr_body :: "string option"

text \<open>
  \<open>reqwest\<close>, \<open>tokio::time\<close> and \<open>rand\<close>: \<open>nt_now\<close> is the monotone clock in nanoseconds, \<open>nt_send\<close> gives None
  on a transport error, \<open>nt_origin\<close> is the origin of a URL (None if it does not parse), \<open>nt_form\<close> the
  query of \<open>Url::parse_with_params\<close>, \<open>nt_json\<close> a parsed body.
\<close>

record 'w net =
  nt_now :: "'w \<Rightarrow> nat"
  nt_sleep :: "nat \<Rightarrow> 'w \<Rightarrow> 'w"
  nt_send :: "http_request \<Rightarrow> 'w \<Rightarrow> http_response option \<times> 'w"
  nt_draw :: "'w \<Rightarrow> nat \<times> 'w"
  nt_origin :: "string \<Rightarrow> string option"
  nt_form :: "(string \<times> string) list \<Rightarrow> string option"
  nt_json :: "string \<Rightarrow> json option"

record device_prompt =
  dp_verification_uri :: string
  dp_verification_uri_complete :: "string option"
  dp_user_code :: string
  dp_expires_in_secs :: u64

record device_tokens =
  dt_client_id :: string
  dt_user_id :: string
  dt_device_id :: string
  dt_access_token :: string
  dt_refresh_token :: "string option"
  dt_expires_in_secs :: "u64 option"

record auth_metadata =
  am_token :: string
  am_device_authorization :: "string option"
  am_registration :: "string option"

record device_authorization =
  da_device_code :: string
  da_user_code :: string
  da_verification_uri :: string
  da_verification_uri_complete :: "string option"
  da_expires_in :: u64
  da_interval :: "u64 option"

record token_body =
  tb_error :: "string option"
  tb_access_token :: "string option"
  tb_refresh_token :: "string option"
  tb_expires_in :: "u64 option"

record matrix_whoami =
  wh_user_id :: string
  wh_device_id :: "string option"

record granted =
  gt_access_token :: string
  gt_refresh_token :: "string option"
  gt_expires_in_secs :: "u64 option"

datatype 'a poll_outcome = Poll_Pending | Poll_SlowDown | Poll_Expired | Poll_Denied | Poll_Done 'a
  | Poll_Transient | Poll_Failed matrix_error

text \<open>The \<open>Deserialize\<close> of the bodies: a required text, an optional text, an optional \<open>u64\<close>.\<close>

definition req_str :: "json option \<Rightarrow> string option" where
  "req_str v = Option.bind v as_str"

definition json_u64 :: "json \<Rightarrow> u64 option" where
  "json_u64 v = map_option of_nat (json_to_unsigned 64 v)"

definition auth_metadata_of_json :: "json \<Rightarrow> auth_metadata option" where
  "auth_metadata_of_json v =
     (case struct_fields [''token_endpoint'', ''device_authorization_endpoint'', ''registration_endpoint''] v of
        Some [t, d, r] \<Rightarrow>
          (case (req_str t, optional_field as_str d, optional_field as_str r) of
             (Some t', Some d', Some r') \<Rightarrow>
               Some \<lparr>am_token = t', am_device_authorization = d', am_registration = r'\<rparr>
           | _ \<Rightarrow> None)
      | _ \<Rightarrow> None)"

definition registered_of_json :: "json \<Rightarrow> string option" where
  "registered_of_json v = (case struct_fields [''client_id''] v of Some [c] \<Rightarrow> req_str c | _ \<Rightarrow> None)"

definition device_authorization_of_json :: "json \<Rightarrow> device_authorization option" where
  "device_authorization_of_json v =
     (case struct_fields [''device_code'', ''user_code'', ''verification_uri'', ''verification_uri_complete'',
           ''expires_in'', ''interval''] v of
        Some [c, u, vu, vc, e, i] \<Rightarrow>
          (case (req_str c, req_str u, req_str vu, optional_field as_str vc, Option.bind e json_u64,
                 optional_field json_u64 i) of
             (Some c', Some u', Some vu', Some vc', Some e', Some i') \<Rightarrow>
               Some \<lparr>da_device_code = c', da_user_code = u', da_verification_uri = vu',
                     da_verification_uri_complete = vc', da_expires_in = e', da_interval = i'\<rparr>
           | _ \<Rightarrow> None)
      | _ \<Rightarrow> None)"

definition token_body_of_json :: "json \<Rightarrow> token_body option" where
  "token_body_of_json v =
     (case struct_fields [''error'', ''access_token'', ''refresh_token'', ''expires_in''] v of
        Some [e, a, r, x] \<Rightarrow>
          (case (optional_field as_str e, optional_field as_str a, optional_field as_str r, optional_field json_u64 x) of
             (Some e', Some a', Some r', Some x') \<Rightarrow>
               Some \<lparr>tb_error = e', tb_access_token = a', tb_refresh_token = r', tb_expires_in = x'\<rparr>
           | _ \<Rightarrow> None)
      | _ \<Rightarrow> None)"

definition whoami_of_json :: "json \<Rightarrow> matrix_whoami option" where
  "whoami_of_json v =
     (case struct_fields [''user_id'', ''device_id''] v of
        Some [u, d] \<Rightarrow>
          (case (req_str u, optional_field as_str d) of
             (Some u', Some d') \<Rightarrow> Some \<lparr>wh_user_id = u', wh_device_id = d'\<rparr>
           | _ \<Rightarrow> None)
      | _ \<Rightarrow> None)"

definition transport_error :: matrix_error where
  "transport_error = Mx_Network ''connection failed or timed out'' True"

definition is_success_status :: "nat \<Rightarrow> bool" where "is_success_status s \<longleftrightarrow> 200 \<le> s \<and> s < 300"
definition is_server_error :: "nat \<Rightarrow> bool" where "is_server_error s \<longleftrightarrow> 500 \<le> s \<and> s < 600"

definition status_error :: "nat \<Rightarrow> matrix_error" where
  "status_error s =
     (if s = 429 \<or> is_server_error s
      then Mx_Network (''server error (HTTP '' @ show_nat s @ '')'') True
      else Mx_Login (''HTTP '' @ show_nat s))"

definition invalid_response :: matrix_error where
  "invalid_response = Mx_Login (''r'' @ e_acute @ ''ponse invalide du serveur'')"

definition redirect_refused :: matrix_error where
  "redirect_refused = Mx_Login (''redirection hors de l'' @ [CHR 0x27] @ ''h'' @ [CHR 0xC3, CHR 0xB4] @ ''te appel'' @ e_acute @ '' refus'' @ e_acute @ ''e'')"

definition code_expired :: matrix_error where "code_expired = Mx_Login (''code expir'' @ e_acute)"
definition login_denied :: matrix_error where "login_denied = Mx_Login (''refus'' @ e_acute)"

definition http_send :: "'w net \<Rightarrow> http_request \<Rightarrow> string \<Rightarrow> ('w, matrix_error, http_response) act" where
  "http_send N req url =
     (case nt_origin N url of
        None \<Rightarrow> fail_with invalid_response
      | Some expected \<Rightarrow> (\<lambda>w.
          case nt_send N req w of
            (None, w1) \<Rightarrow> (Inl transport_error, w1)
          | (Some resp, w1) \<Rightarrow>
              if hr_origin resp \<noteq> expected then (Inl redirect_refused, w1) else (Inr resp, w1)))"

definition json_ok ::
    "'w net \<Rightarrow> (json \<Rightarrow> 'a option) \<Rightarrow> http_response \<Rightarrow> matrix_error + 'a" where
  "json_ok N decode resp =
     (if \<not> is_success_status (hr_status resp) then Inl (status_error (hr_status resp))
      else case Option.bind (Option.bind (hr_body resp) (nt_json N)) decode of
        None \<Rightarrow> Inl invalid_response
      | Some x \<Rightarrow> Inr x)"

definition form_body :: "'w net \<Rightarrow> (string \<times> string) list \<Rightarrow> matrix_error + string" where
  "form_body N pairs = (case nt_form N pairs of None \<Rightarrow> Inl invalid_response | Some q \<Rightarrow> Inr q)"

text \<open>The loop of \<open>with_retry\<close>: \<open>delay\<close> in seconds, doubled after each retry.\<close>

function with_retry_loop ::
    "'w net \<Rightarrow> ('w, matrix_error, 'a) act \<Rightarrow> nat \<Rightarrow> nat \<Rightarrow> ('w, matrix_error, 'a) act" where
  "with_retry_loop N attempt delay tried w =
     (case attempt w of
        (Inr x, w1) \<Rightarrow> (Inr x, w1)
      | (Inl err, w1) \<Rightarrow>
          if matrix_retryable err \<and> tried < retry_attempts
          then with_retry_loop N attempt (2 * delay) (tried + 1) (nt_sleep N delay w1)
          else (Inl err, w1))"
  by pat_completeness auto
termination
  by (relation "measure (\<lambda>(N, attempt, delay, tried, w). retry_attempts - tried)") auto

definition with_retry :: "'w net \<Rightarrow> ('w, matrix_error, 'a) act \<Rightarrow> ('w, matrix_error, 'a) act" where
  "with_retry N attempt = with_retry_loop N attempt 1 1"

definition discover :: "'w net \<Rightarrow> string \<Rightarrow> ('w, matrix_error, auth_metadata) act" where
  "discover N base =
     (let stable = base @ ''/_matrix/client/v1/auth_metadata'';
          unstable = base @ ''/_matrix/client/unstable/org.matrix.msc2965/auth_metadata'' in
      and_then (http_send N (Get_Request stable None) stable) (\<lambda>resp.
      and_then (if hr_status resp = 404 then http_send N (Get_Request unstable None) unstable
                else return_ok resp) (\<lambda>resp.
      lift_result (json_ok N auth_metadata_of_json resp))))"

definition register_body :: "string \<Rightarrow> string \<Rightarrow> json" where
  "register_body display_name homeserver =
     JObject [(''client_name'', JString display_name),
       (''grant_types'', JArray [JString device_grant, JString ''refresh_token'']),
       (''response_types'', JArray []), (''token_endpoint_auth_method'', JString ''none''),
       (''application_type'', JString ''native''), (''redirect_uris'', JArray []),
       (''client_uri'', JString homeserver)]"

definition register_client :: "'w net \<Rightarrow> string \<Rightarrow> string \<Rightarrow> string \<Rightarrow> ('w, matrix_error, string) act" where
  "register_client N endpoint display_name homeserver =
     and_then (http_send N (Post_Json endpoint (register_body display_name homeserver)) endpoint)
       (\<lambda>resp. lift_result (json_ok N registered_of_json resp))"

definition request_device_code ::
    "'w net \<Rightarrow> string \<Rightarrow> string \<Rightarrow> string \<Rightarrow> ('w, matrix_error, device_authorization) act" where
  "request_device_code N endpoint client_id device_id =
     and_then (lift_result (form_body N [(''client_id'', client_id),
         (''scope'', ''openid '' @ api_scope @ '' '' @ device_scope @ device_id)])) (\<lambda>body.
     and_then (http_send N (Post_Form endpoint body) endpoint)
       (\<lambda>resp. lift_result (json_ok N device_authorization_of_json resp)))"

definition matrix_whoami :: "'w net \<Rightarrow> string \<Rightarrow> string \<Rightarrow> ('w, matrix_error, matrix_whoami) act" where
  "matrix_whoami N base access_token =
     (let url = base @ ''/_matrix/client/v3/account/whoami'' in
      and_then (http_send N (Get_Request url (Some access_token)) url)
        (\<lambda>resp. lift_result (json_ok N whoami_of_json resp)))"

text \<open>What one answer of the token endpoint says; the errors of OAuth are read in the body.\<close>

definition token_answer :: "'w net \<Rightarrow> http_response \<Rightarrow> matrix_error + granted poll_outcome" where
  "token_answer N resp =
     (case hr_body resp of
        None \<Rightarrow> Inl transport_error
      | Some text \<Rightarrow>
     (case Option.bind (nt_json N text) token_body_of_json of
        None \<Rightarrow> Inl (if is_server_error (hr_status resp) then status_error (hr_status resp) else invalid_response)
      | Some body \<Rightarrow>
     (case tb_error body of
        Some err \<Rightarrow>
          if err = ''authorization_pending'' then Inr Poll_Pending
          else if err = ''slow_down'' then Inr Poll_SlowDown
          else if err = ''expired_token'' then Inr Poll_Expired
          else if err = ''access_denied'' then Inr Poll_Denied
          else if is_server_error (hr_status resp) then Inl (status_error (hr_status resp))
          else Inl (Mx_Login (''erreur OAuth : '' @ err))
      | None \<Rightarrow>
          if is_success_status (hr_status resp)
          then case tb_access_token body of
              Some access_token \<Rightarrow> Inr (Poll_Done \<lparr>gt_access_token = access_token,
                gt_refresh_token = tb_refresh_token body, gt_expires_in_secs = tb_expires_in body\<rparr>)
            | None \<Rightarrow> Inl invalid_response
          else Inl (status_error (hr_status resp)))))"

definition poll_token_response ::
    "'w net \<Rightarrow> string \<Rightarrow> string \<Rightarrow> string \<Rightarrow> ('w, matrix_error, granted poll_outcome) act" where
  "poll_token_response N endpoint client_id device_code =
     and_then (lift_result (form_body N [(''grant_type'', device_grant), (''device_code'', device_code),
         (''client_id'', client_id)])) (\<lambda>body.
     and_then (http_send N (Post_Form endpoint body) endpoint) (\<lambda>resp. lift_result (token_answer N resp)))"

definition poll_token :: "'w net \<Rightarrow> string \<Rightarrow> string \<Rightarrow> string \<Rightarrow> 'w \<Rightarrow> granted poll_outcome \<times> 'w" where
  "poll_token N endpoint client_id device_code w =
     (case poll_token_response N endpoint client_id device_code w of
        (Inr outcome, w1) \<Rightarrow> (outcome, w1)
      | (Inl e, w1) \<Rightarrow> (if matrix_retryable e then Poll_Transient else Poll_Failed e, w1))"

text \<open>
  The polling loop, with the number of polls it may make as fuel; \<open>started\<close> and \<open>budget\<close> in
  nanoseconds. It is out of fuel (None) only after that many polls.
\<close>

fun poll_loop ::
    "nat \<Rightarrow> 'w net \<Rightarrow> nat \<Rightarrow> nat \<Rightarrow> u64 \<Rightarrow> ('w \<Rightarrow> 'a poll_outcome \<times> 'w) \<Rightarrow> 'w \<Rightarrow> ((matrix_error + 'a) \<times> 'w) option" where
  "poll_loop 0 N started budget interval_secs poll w = None"
| "poll_loop (Suc polls) N started budget interval_secs poll w =
     (case poll w of (outcome, w1) \<Rightarrow>
        let wait = (\<lambda>interval_secs.
              let remaining = (budget - (nt_now N w1 - started)) div 10 ^ 9 in
              if remaining < unat interval_secs then Some (Inl code_expired, w1)
              else poll_loop polls N started budget interval_secs poll (nt_sleep N (unat interval_secs) w1)) in
        case outcome of
          Poll_Done x \<Rightarrow> Some (Inr x, w1)
        | Poll_Pending \<Rightarrow> wait interval_secs
        | Poll_Transient \<Rightarrow> wait interval_secs
        | Poll_SlowDown \<Rightarrow> wait (sat_add interval_secs slow_down_step_secs)
        | Poll_Expired \<Rightarrow> Some (Inl code_expired, w1)
        | Poll_Denied \<Rightarrow> Some (Inl login_denied, w1)
        | Poll_Failed e \<Rightarrow> Some (Inl e, w1))"

definition poll_until_done ::
    "nat \<Rightarrow> 'w net \<Rightarrow> u64 \<Rightarrow> u64 \<Rightarrow> ('w \<Rightarrow> 'a poll_outcome \<times> 'w) \<Rightarrow> 'w \<Rightarrow> ((matrix_error + 'a) \<times> 'w) option" where
  "poll_until_done polls N expires_in_secs interval_secs poll w =
     poll_loop polls N (nt_now N w) (unat expires_in_secs * 10 ^ 9) interval_secs poll w"

text \<open>\<open>rng.gen_range('A'..='Z')\<close>, ten times.\<close>

fun draw_letters :: "nat \<Rightarrow> 'w net \<Rightarrow> 'w \<Rightarrow> string \<times> 'w" where
  "draw_letters 0 N w = ([], w)"
| "draw_letters (Suc n) N w =
     (let (d, w1) = nt_draw N w; (rest, w2) = draw_letters n N w1 in
      (char_of (65 + d mod 26) # rest, w2))"

definition new_device_id :: "'w net \<Rightarrow> 'w \<Rightarrow> string \<times> 'w" where
  "new_device_id N = draw_letters device_id_len N"

definition trim_end_slashes :: "string \<Rightarrow> string" where
  "trim_end_slashes s = rev (dropWhile (\<lambda>c. c = CHR ''/'') (rev s))"

definition no_device_code :: matrix_error where
  "no_device_code = Mx_Login (''le serveur n'' @ [CHR 0x27] @ ''annonce pas le device code'')"
definition no_registration :: matrix_error where
  "no_registration = Mx_Login (''le serveur n'' @ [CHR 0x27] @ ''annonce pas l'' @ [CHR 0x27] @ ''enregistrement dynamique'')"
definition unexpected_device :: matrix_error where
  "unexpected_device = Mx_Login (''appareil inattendu'')"

text \<open>\<open>login\<close>, up to the prompt, and after the grant.\<close>

definition login_start ::
    "'w net \<Rightarrow> string \<Rightarrow> string \<Rightarrow> string option \<Rightarrow>
       ('w, matrix_error, auth_metadata \<times> string \<times> string \<times> device_authorization) act" where
  "login_start N base display_name existing_client_id =
     and_then (with_retry N (discover N base)) (\<lambda>meta.
     case am_device_authorization meta of
       None \<Rightarrow> fail_with no_device_code
     | Some device_endpoint \<Rightarrow>
     and_then (case existing_client_id of
         Some i \<Rightarrow> return_ok i
       | None \<Rightarrow> (case am_registration meta of
           None \<Rightarrow> fail_with no_registration
         | Some endpoint \<Rightarrow> with_retry N (register_client N endpoint display_name base))) (\<lambda>client_id.
     and_then (\<lambda>w. case new_device_id N w of (d, w1) \<Rightarrow> (Inr d, w1)) (\<lambda>device_id.
     and_then (with_retry N (request_device_code N device_endpoint client_id device_id)) (\<lambda>auth.
     return_ok (meta, client_id, device_id, auth)))))"

definition login_finish ::
    "'w net \<Rightarrow> string \<Rightarrow> string \<Rightarrow> string \<Rightarrow> granted \<Rightarrow> ('w, matrix_error, device_tokens) act" where
  "login_finish N base client_id device_id granted =
     and_then (with_retry N (matrix_whoami N base (gt_access_token granted))) (\<lambda>me.
     if wh_device_id me \<noteq> Some device_id then fail_with unexpected_device
     else return_ok \<lparr>dt_client_id = client_id, dt_user_id = wh_user_id me, dt_device_id = device_id,
       dt_access_token = gt_access_token granted, dt_refresh_token = gt_refresh_token granted,
       dt_expires_in_secs = gt_expires_in_secs granted\<rparr>)"

definition poll_interval :: "device_authorization \<Rightarrow> u64" where
  "poll_interval auth = max 1 (case da_interval auth of Some i \<Rightarrow> i | None \<Rightarrow> default_interval_secs)"

definition device_login ::
    "nat \<Rightarrow> 'w net \<Rightarrow> string \<Rightarrow> string \<Rightarrow> string option \<Rightarrow> (device_prompt \<Rightarrow> 'w \<Rightarrow> 'w) \<Rightarrow> 'w \<Rightarrow>
       ((matrix_error + device_tokens) \<times> 'w) option" where
  "device_login polls N homeserver display_name existing_client_id on_prompt w =
     (let base = trim_end_slashes homeserver in
      case login_start N base display_name existing_client_id w of
        (Inl e, w1) \<Rightarrow> Some (Inl e, w1)
      | (Inr (meta, client_id, device_id, auth), w1) \<Rightarrow>
          let w2 = on_prompt \<lparr>dp_verification_uri = da_verification_uri auth,
                dp_verification_uri_complete = da_verification_uri_complete auth,
                dp_user_code = da_user_code auth, dp_expires_in_secs = da_expires_in auth\<rparr> w1 in
          (case poll_until_done polls N (da_expires_in auth) (poll_interval auth)
                 (poll_token N (am_token meta) client_id (da_device_code auth)) w2 of
             None \<Rightarrow> None
           | Some (Inl e, w3) \<Rightarrow> Some (Inl e, w3)
           | Some (Inr granted, w3) \<Rightarrow> Some (login_finish N base client_id device_id granted w3)))"

section \<open>The polling ends\<close>

text \<open>What \<open>tokio::time\<close> guarantees: the clock never goes back, and a sleep lasts at least its duration.\<close>

definition time_passes :: "'w net \<Rightarrow> ('w \<Rightarrow> 'a \<times> 'w) \<Rightarrow> bool" where
  "time_passes N poll \<longleftrightarrow> (\<forall>w. nt_now N w \<le> nt_now N (snd (poll w))) \<and>
     (\<forall>n w. nt_now N w + n * 10 ^ 9 \<le> nt_now N (nt_sleep N n w))"

lemma sat_add_ge: "unat x \<le> unat (sat_add x (y :: u64))"
proof -
  have "unat x \<le> 2 ^ 64 - 1" using unsigned_less [of x, where ?'a = nat] by simp
  then show ?thesis by (simp add: unat_sat_add)
qed

lemma budget_overrun: "(b :: nat) < d0 + x \<Longrightarrow> d0 \<le> d1 \<Longrightarrow> 0 < x \<Longrightarrow> x \<le> b - d1 \<Longrightarrow> False"
  by arith

text \<open>
  With \<open>k\<close> the polls left, the loop returns as soon as \<open>k\<close> intervals exceed what is left of the budget.
\<close>

lemma poll_loop_returns:
  assumes time: "time_passes N poll" and pos: "0 < i0"
  shows "i0 \<le> unat interval \<Longrightarrow> started \<le> nt_now N w \<Longrightarrow> 0 < polls \<Longrightarrow>
    budget < (nt_now N w - started) + polls * i0 * 10 ^ 9 \<Longrightarrow>
    \<exists>r. poll_loop polls N started budget interval poll w = Some r"
proof (induction polls arbitrary: interval w)
  case (Suc polls)
  obtain outcome w1 where p: "poll w = (outcome, w1)" by fastforce
  have now1: "nt_now N w \<le> nt_now N w1" using time p unfolding time_passes_def by (metis snd_conv)
  have wait: "\<exists>r. (if (budget - (nt_now N w1 - started)) div 10 ^ 9 < unat i then Some (Inl code_expired, w1)
      else poll_loop polls N started budget i poll (nt_sleep N (unat i) w1)) = Some r" if i: "i0 \<le> unat i" for i
  proof (cases "(budget - (nt_now N w1 - started)) div 10 ^ 9 < unat i")
    case False
    let ?w2 = "nt_sleep N (unat i) w1"
    have now2: "nt_now N w1 + unat i * 10 ^ 9 \<le> nt_now N ?w2" using time by (simp add: time_passes_def)
    have "unat i * 10 ^ 9 \<le> budget - (nt_now N w1 - started)"
      using False by (simp add: not_less less_eq_div_iff_mult_less_eq)
    moreover have i0: "i0 * 10 ^ 9 \<le> unat i * 10 ^ 9" using i by simp
    ultimately have left: "i0 * 10 ^ 9 \<le> budget - (nt_now N w1 - started)" by simp
    have "0 < polls"
    proof (rule ccontr)
      assume "\<not> 0 < polls"
      then have "budget < (nt_now N w - started) + i0 * 10 ^ 9" using Suc.prems(4) by simp
      moreover have "(nt_now N w - started) \<le> nt_now N w1 - started" using now1 by simp
      moreover have "0 < i0 * 10 ^ 9" using pos by simp
      ultimately show False using left budget_overrun by blast
    qed
    moreover have "budget < (nt_now N ?w2 - started) + polls * i0 * 10 ^ 9"
      using Suc.prems(2,4) now1 now2 i0 by (simp add: algebra_simps)
    moreover have "started \<le> nt_now N ?w2" using Suc.prems(2) now1 now2 by simp
    ultimately show ?thesis using Suc.IH [of i ?w2] i False by simp
  qed simp
  have slow: "i0 \<le> unat (sat_add interval slow_down_step_secs)"
    using Suc.prems(1) sat_add_ge [of interval] by (rule order_trans)
  show ?case
    using wait [OF Suc.prems(1)] wait [OF slow] by (cases outcome) (simp_all add: p Let_def)
qed simp

lemma polling_returns:
  assumes "time_passes N poll" and "0 < unat interval_secs"
  shows "\<exists>r. poll_until_done (unat expires_in_secs div unat interval_secs + 1) N expires_in_secs interval_secs poll w = Some r"
proof -
  let ?e = "unat expires_in_secs" and ?i = "unat interval_secs"
  have "?e < (?e div ?i + 1) * ?i" using assms(2) by (metis Suc_eq_plus1 div_less_iff_less_mult lessI)
  then have "?e * 10 ^ 9 < (?e div ?i + 1) * ?i * 10 ^ 9" by simp
  then show ?thesis
    unfolding poll_until_done_def by (intro poll_loop_returns [OF assms]) simp_all
qed

text \<open>
  Whatever the server answers, polling returns: at most one poll more than the intervals the
  lifetime of the code holds, then the code has expired.
\<close>

theorem polling_ends:
  assumes "time_passes N poll" and "0 < unat interval_secs"
  shows "\<exists>r. poll_until_done (unat expires_in_secs div unat interval_secs + 1) N expires_in_secs interval_secs poll w = Some r"
  by (rule polling_returns [OF assms])

lemma poll_interval_pos: "0 < unat (poll_interval auth)"
proof -
  have "1 \<le> poll_interval auth" by (simp add: poll_interval_def)
  then have "unat (1 :: u64) \<le> unat (poll_interval auth)" by (simp only: word_le_nat_alt)
  then show ?thesis by simp
qed

text \<open>A fuel of every second of the lifetime is enough for the whole login.\<close>

lemma poll_loop_more:
  "poll_loop n N started budget i poll w = Some r \<Longrightarrow> n \<le> m \<Longrightarrow> poll_loop m N started budget i poll w = Some r"
proof (induction n arbitrary: m i w)
  case (Suc n)
  then obtain m' where m: "m = Suc m'" "n \<le> m'" by (cases m) auto
  obtain outcome w1 where p: "poll w = (outcome, w1)" by fastforce
  show ?case
    using Suc.prems(1) m Suc.IH by (cases outcome) (auto simp: p Let_def split: if_splits)
qed simp

definition clock_runs :: "'w net \<Rightarrow> bool" where
  "clock_runs N \<longleftrightarrow> (\<forall>req w. nt_now N w \<le> nt_now N (snd (nt_send N req w))) \<and>
     (\<forall>n w. nt_now N w + n * 10 ^ 9 \<le> nt_now N (nt_sleep N n w))"

lemma poll_token_time: "clock_runs N \<Longrightarrow> time_passes N (poll_token N endpoint client_id code)"
proof -
  assume c: "clock_runs N"
  have "nt_now N w \<le> nt_now N (snd (poll_token N endpoint client_id code w))" for w
  proof (cases "nt_origin N endpoint")
    case None
    then show ?thesis
      by (simp add: poll_token_def poll_token_response_def http_send_def act_eval split: sum.splits)
  next
    case (Some o')
    have send: "nt_now N w \<le> nt_now N w1" if "nt_send N req w = (r, w1)" for req r w1
      using c that unfolding clock_runs_def by (metis snd_conv)
    show ?thesis
      by (auto simp: poll_token_def poll_token_response_def http_send_def act_eval Some
          split: sum.splits option.splits prod.splits if_splits dest: send)
  qed
  then show ?thesis using c by (simp add: time_passes_def clock_runs_def)
qed

lemma device_login_runs:
  assumes polls: "\<And>auth endpoint cid code w1. \<exists>r. poll_until_done polls N (da_expires_in auth) (poll_interval auth)
      (poll_token N endpoint cid code) w1 = Some r"
  shows "\<exists>r. device_login polls N homeserver display_name client_id on_prompt w = Some r"
proof (cases "login_start N (trim_end_slashes homeserver) display_name client_id w")
  case (Pair r1 w1)
  show ?thesis
  proof (cases r1)
    case (Inl e)
    then show ?thesis using Pair by (simp add: device_login_def)
  next
    case (Inr x)
    obtain meta cid device_id auth where x: "x = (meta, cid, device_id, auth)" by (cases x)
    obtain r2 w3 where "poll_until_done polls N (da_expires_in auth) (poll_interval auth)
        (poll_token N (am_token meta) cid (da_device_code auth))
        (on_prompt \<lparr>dp_verification_uri = da_verification_uri auth,
          dp_verification_uri_complete = da_verification_uri_complete auth,
          dp_user_code = da_user_code auth, dp_expires_in_secs = da_expires_in auth\<rparr> w1) = Some (r2, w3)"
      using polls by (metis surj_pair)
    then show ?thesis using Pair Inr x by (cases r2) (simp_all add: device_login_def Let_def)
  qed
qed

text \<open>
  C36: The login returns: whatever the server answers, as long as waiting advances the clock, \<open>2 ^ 64\<close>
  polls are more than the code can make before it gives up.
\<close>

theorem login_returns:
  assumes "clock_runs N"
  shows "\<exists>r. device_login (2 ^ 64) N homeserver display_name client_id on_prompt w = Some r"
proof -
  have "\<exists>r. poll_until_done (2 ^ 64) N (da_expires_in auth) (poll_interval auth) (poll_token N endpoint cid code) w1 = Some r"
    for auth endpoint cid code w1
  proof -
    have "unat (da_expires_in auth) < 2 ^ 64"
      using unsigned_less [of "da_expires_in auth", where ?'a = nat] by simp
    then have "unat (da_expires_in auth) div unat (poll_interval auth) < 2 ^ 64"
      using div_le_dividend by (rule le_less_trans [rotated])
    then have le: "unat (da_expires_in auth) div unat (poll_interval auth) + 1 \<le> 2 ^ 64" by simp
    obtain r where "poll_until_done (unat (da_expires_in auth) div unat (poll_interval auth) + 1) N
        (da_expires_in auth) (poll_interval auth) (poll_token N endpoint cid code) w1 = Some r"
      using polling_returns [OF poll_token_time [OF assms] poll_interval_pos] by blast
    then have "poll_until_done (2 ^ 64) N (da_expires_in auth) (poll_interval auth) (poll_token N endpoint cid code) w1 = Some r"
      unfolding poll_until_done_def using le by (rule poll_loop_more)
    then show ?thesis by (rule exI)
  qed
  then show ?thesis by (rule device_login_runs)
qed

section \<open>What a login gives\<close>

declare with_retry_loop.simps [simp del]

lemma with_retry_Inr:
  "with_retry_loop N attempt delay tried w = (Inr x, w') \<Longrightarrow> \<exists>w0. attempt w0 = (Inr x, w')"
proof (induction N attempt delay tried w rule: with_retry_loop.induct)
  case (1 N attempt delay tried w)
  then show ?case
    by (subst (asm) (2) with_retry_loop.simps) (auto split: prod.splits sum.splits if_splits)
qed

lemma poll_loop_Done:
  "poll_loop polls N started budget i poll w = Some (Inr x, w') \<Longrightarrow> \<exists>w0. poll w0 = (Poll_Done x, w')"
proof (induction polls arbitrary: i w)
  case (Suc polls)
  obtain outcome w1 where p: "poll w = (outcome, w1)" by fastforce
  show ?case using Suc p by (cases outcome) (auto simp: Let_def split: if_splits)
qed simp

lemma http_send_Inr:
  "http_send N req url w = (Inr resp, w') \<Longrightarrow>
     nt_send N req w = (Some resp, w') \<and> nt_origin N url = Some (hr_origin resp)"
  by (auto simp: http_send_def fail_with_def split: option.splits prod.splits if_splits)

lemma json_ok_Inr:
  "json_ok N decode resp = Inr x \<longleftrightarrow> is_success_status (hr_status resp) \<and>
     Option.bind (Option.bind (hr_body resp) (nt_json N)) decode = Some x"
  by (auto simp: json_ok_def split: option.splits)

definition answers :: "'w net \<Rightarrow> http_request \<Rightarrow> string \<Rightarrow> (json \<Rightarrow> 'a option) \<Rightarrow> 'a \<Rightarrow> bool" where
  "answers N req url decode x \<longleftrightarrow> (\<exists>w resp w'. nt_send N req w = (Some resp, w') \<and>
     nt_origin N url = Some (hr_origin resp) \<and> is_success_status (hr_status resp) \<and>
     Option.bind (Option.bind (hr_body resp) (nt_json N)) decode = Some x)"

lemma poll_token_Done:
  assumes "poll_token N endpoint cid code w = (Poll_Done g, w')"
  shows "\<exists>q b. answers N (Post_Form endpoint q) endpoint token_body_of_json b \<and> tb_error b = None \<and>
    tb_access_token b = Some (gt_access_token g)"
proof -
  obtain q w0 resp w1 where send: "http_send N (Post_Form endpoint q) endpoint w0 = (Inr resp, w1)"
      and ans: "token_answer N resp = Inr (Poll_Done g)"
    using assms by (auto simp: poll_token_def poll_token_response_def act_inv split: prod.splits sum.splits if_splits)
  obtain str b where b: "hr_body resp = Some str" "Option.bind (nt_json N str) token_body_of_json = Some b"
      "tb_error b = None" "is_success_status (hr_status resp)" "tb_access_token b = Some (gt_access_token g)"
    using ans by (auto simp: token_answer_def split: option.splits if_splits)
  then have "answers N (Post_Form endpoint q) endpoint token_body_of_json b"
    using http_send_Inr [OF send] unfolding answers_def by fastforce
  then show ?thesis using b by blast
qed

lemma draw_letters_shape: "draw_letters n N w = (s, w') \<Longrightarrow> length s = n \<and> (\<forall>c\<in>set s. of_char c \<in> {65..90 :: nat})"
proof (induction n arbitrary: w s w')
  case (Suc n)
  obtain d w1 where d: "nt_draw N w = (d, w1)" by fastforce
  obtain rest w2 where r: "draw_letters n N w1 = (rest, w2)" by fastforce
  have "(65 + d mod 26) mod 256 = 65 + d mod 26" by simp
  then have "of_char (char_of (65 + d mod 26) :: char) = 65 + d mod 26" by (simp add: of_char_mod_256)
  then show ?case using Suc.IH [OF r] Suc.prems d r by (auto simp: less_Suc_eq_le [symmetric])
qed simp


section \<open>Synchronisation\<close>

record matrix_message =
  mm_room_id :: string
  mm_event_id :: string
  mm_sender :: string
  mm_body :: string
  mm_formatted_body :: "string option"
  mm_msgtype :: string
  mm_timestamp_ms :: u64
  mm_encrypted :: bool

definition should_deliver :: "string \<Rightarrow> string \<Rightarrow> string \<Rightarrow> bool \<Rightarrow> bool" where
  "should_deliver own_user sender msgtype is_replacement \<longleftrightarrow>
     sender \<noteq> own_user \<and> msgtype \<in> {''m.text'', ''m.emote''} \<and> \<not> is_replacement"

definition invite_allowed :: "string list \<Rightarrow> string \<Rightarrow> bool" where
  "invite_allowed auto_join inviter \<longleftrightarrow> inviter \<in> set auto_join"

text \<open>A message event of a room: redacted, or original with a type, a body, its HTML, a relation.\<close>

datatype room_message_type = Msg_Text | Msg_Emote | Msg_Notice | Msg_Other

record original_event =
  oe_event_id :: string
  oe_sender :: string
  oe_type :: room_message_type
  oe_body :: string
  oe_formatted :: "string option"
  oe_replacement :: bool
  oe_timestamp :: u64

datatype room_event = Redacted_Event | Original_Event original_event

fun msgtype_text :: "room_message_type \<Rightarrow> string option" where
  "msgtype_text Msg_Text = Some ''m.text''"
| "msgtype_text Msg_Emote = Some ''m.emote''"
| "msgtype_text Msg_Notice = Some ''m.notice''"
| "msgtype_text Msg_Other = None"

definition to_message :: "string \<Rightarrow> string \<Rightarrow> bool \<Rightarrow> original_event \<Rightarrow> matrix_message" where
  "to_message room msgtype encrypted e =
     \<lparr>mm_room_id = room, mm_event_id = oe_event_id e, mm_sender = oe_sender e, mm_body = oe_body e,
      mm_formatted_body = oe_formatted e, mm_msgtype = msgtype, mm_timestamp_ms = oe_timestamp e,
      mm_encrypted = encrypted\<rparr>"

text \<open>The message \<open>deliver_message\<close> hands to the handler, if any.\<close>

definition deliver_message :: "string \<Rightarrow> string \<Rightarrow> room_event \<Rightarrow> bool \<Rightarrow> matrix_message option" where
  "deliver_message own room ev encrypted =
     (case ev of
        Redacted_Event \<Rightarrow> None
      | Original_Event e \<Rightarrow>
          (case msgtype_text (oe_type e) of
             None \<Rightarrow> None
           | Some msgtype \<Rightarrow>
               if \<not> should_deliver own (oe_sender e) msgtype (oe_replacement e) then None
               else Some (to_message room msgtype encrypted e)))"

definition join_retry_delays :: "nat list" where "join_retry_delays = [1, 2, 4]"

text \<open>
  \<open>accept_invite\<close>: \<open>join\<close> is the call of the SDK (True when it joined). The result is the number of
  calls made and whether one of them succeeded.
\<close>

fun join_with_retries :: "'w net \<Rightarrow> ('w \<Rightarrow> bool \<times> 'w) \<Rightarrow> nat list \<Rightarrow> 'w \<Rightarrow> (nat \<times> bool) \<times> 'w" where
  "join_with_retries N join [] w = (case join w of (ok, w1) \<Rightarrow> ((1, ok), w1))"
| "join_with_retries N join (d # ds) w =
     (case join w of
        (True, w1) \<Rightarrow> ((1, True), w1)
      | (False, w1) \<Rightarrow>
          (case join_with_retries N join ds (nt_sleep N d w1) of ((n, ok), w2) \<Rightarrow> ((Suc n, ok), w2)))"

definition accept_invite ::
    "'w net \<Rightarrow> ('w \<Rightarrow> bool \<times> 'w) \<Rightarrow> string \<Rightarrow> string list \<Rightarrow> 'w \<Rightarrow> (nat \<times> bool) \<times> 'w" where
  "accept_invite N join inviter auto_join w =
     (if \<not> invite_allowed auto_join inviter then ((0, False), w)
      else join_with_retries N join join_retry_delays w)"

definition sat_mul :: "'a::len word \<Rightarrow> 'a word \<Rightarrow> 'a word" where
  "sat_mul x y = (if unat x * unat y < 2 ^ LENGTH('a) then x * y else - 1)"

text \<open>\<open>u32::try_from(ms).unwrap_or(u32::MAX)\<close>\<close>

definition lease_ms :: "u64 \<Rightarrow> u32" where
  "lease_ms sync_timeout =
     (let ms = unat (sat_add (sat_mul sync_timeout 2) 15000) in
      if ms < 2 ^ 32 then of_nat ms else - 1)"

text \<open>\<open>1_u64.checked_shl(attempt)\<close> is None from 64 on.\<close>

definition backoff :: "u32 \<Rightarrow> u64" where
  "backoff attempt = min (if attempt < 64 then push_bit (unat attempt) 1 else - 1) 60"

datatype sync_failure = Sync_UnknownToken | Sync_Retryable | Sync_Fatal matrix_error

text \<open>\<open>unknown_token\<close>: whether the kind of the API error is \<open>UnknownToken\<close>.\<close>

definition classify_sync_error :: "bool \<Rightarrow> sdk_error \<Rightarrow> sync_failure" where
  "classify_sync_error unknown_token err =
     (if unknown_token then Sync_UnknownToken
      else if matrix_retryable (from_sdk err) then Sync_Retryable else Sync_Fatal (from_sdk err))"

text \<open>
  The loops of \<open>drive\<close> and \<open>sync_while_leased\<close> as a machine. A state is where the code waits, with the
  counter of attempts; an event is what it waited for: the answer of \<open>try_lease\<close>, of the first
  synchronisation, one response of \<open>sync_with_callback\<close> (its messages are delivered, then its callback
  renews the lease: True when it was granted), or its failure.
\<close>

datatype drive_state = D_Lease u32 | D_Initial u32 | D_Sync u32 | D_Retake u32 | D_End "matrix_error + unit"

datatype drive_event = E_Lease "matrix_error + bool" | E_Initial "sync_failure option" | E_Response bool
  | E_Failure sync_failure

fun drive_next :: "drive_state \<Rightarrow> drive_event \<Rightarrow> drive_state option" where
  "drive_next (D_Lease n) (E_Lease (Inl e)) = Some (D_End (Inl e))"
| "drive_next (D_Lease n) (E_Lease (Inr taken)) = Some (if taken then D_Initial n else D_Lease n)"
| "drive_next (D_Initial n) (E_Initial None) = Some (D_Sync 0)"
| "drive_next (D_Initial n) (E_Initial (Some Sync_UnknownToken)) = Some (D_End (Inl Mx_NotLoggedIn))"
| "drive_next (D_Initial n) (E_Initial (Some (Sync_Fatal e))) = Some (D_End (Inl e))"
| "drive_next (D_Initial n) (E_Initial (Some Sync_Retryable)) = Some (D_Lease (sat_add n 1))"
| "drive_next (D_Sync n) (E_Response renewed) = Some (if renewed then D_Sync 0 else D_Lease 0)"
| "drive_next (D_Sync n) (E_Failure Sync_UnknownToken) = Some (D_End (Inl Mx_NotLoggedIn))"
| "drive_next (D_Sync n) (E_Failure (Sync_Fatal e)) = Some (D_End (Inl e))"
| "drive_next (D_Sync n) (E_Failure Sync_Retryable) = Some (D_Retake (sat_add n 1))"
| "drive_next (D_Retake n) (E_Lease (Inl e)) = Some (D_End (Inl e))"
| "drive_next (D_Retake n) (E_Lease (Inr taken)) = Some (if taken then D_Sync n else D_Lease n)"
| "drive_next _ _ = None"

fun drive_run :: "drive_state \<Rightarrow> drive_event list \<Rightarrow> drive_state option" where
  "drive_run s [] = Some s"
| "drive_run s (e # es) = Option.bind (drive_next s e) (\<lambda>s'. drive_run s' es)"

text \<open>\<open>drive\<close> refuses an account that is not logged in, and starts by the lease.\<close>

definition drive_start :: "string \<Rightarrow> drive_state" where
  "drive_start own = (if own = [] then D_End (Inl Mx_NotLoggedIn) else D_Lease 0)"

text \<open>
  \<open>run_sync\<close>: one synchronisation at a time per client, by the flag \<open>sync_started\<close>; the body sees the
  flag set, and the flag is released when it ends, after the lease.
\<close>

definition sync_already_started :: matrix_error where
  "sync_already_started = Mx_Config (''sync d'' @ e_acute @ ''j'' @ a_grave @ '' d'' @ e_acute @ ''marr'' @ e_acute)"

definition run_sync_enter :: "bool \<Rightarrow> matrix_error + bool" where
  "run_sync_enter sync_started = (if sync_started then Inl sync_already_started else Inr True)"

text \<open>Whether a lease answer grants it; the other events are not answers of the lease.\<close>

fun lease_answer :: "drive_event \<Rightarrow> bool option" where
  "lease_answer (E_Lease (Inr taken)) = Some taken"
| "lease_answer (E_Lease (Inl e)) = Some False"
| "lease_answer (E_Response renewed) = Some renewed"
| "lease_answer _ = None"

definition last_answer :: "drive_event list \<Rightarrow> bool" where
  "last_answer es = (case rev (List.map_filter lease_answer es) of [] \<Rightarrow> False | b # _ \<Rightarrow> b)"

fun holds_lease :: "drive_state \<Rightarrow> bool" where
  "holds_lease (D_Initial n) = True" | "holds_lease (D_Sync n) = True" | "holds_lease _ = False"

lemma last_answer_snoc:
  "last_answer (es @ [e]) = (case lease_answer e of None \<Rightarrow> last_answer es | Some b \<Rightarrow> b)"
  by (auto simp: last_answer_def map_filter_def split: option.split)

lemma drive_run_append: "drive_run s (es @ fs) = Option.bind (drive_run s es) (\<lambda>s'. drive_run s' fs)"
  by (induction es arbitrary: s) (auto split: bind_splits)

lemma drive_run_lease: "drive_run (D_Lease 0) es = Some s \<Longrightarrow> holds_lease s \<Longrightarrow> last_answer es"
proof (induction es arbitrary: s rule: rev_induct)
  case (snoc e es)
  then obtain s' where s': "drive_run (D_Lease 0) es = Some s'" "drive_next s' e = Some s"
    by (auto simp: drive_run_append bind_eq_Some_conv)
  show ?case
    using s'(2) snoc.IH [OF s'(1)] snoc.prems(2)
    by (cases "(s', e)" rule: drive_next.cases) (auto simp: last_answer_snoc split: if_splits)
qed simp

text \<open>
  Messages are delivered only under the lease: in every run, the last answer of the lease before a
  response is processed is a grant, so each response, and the first synchronisation, has a grant of
  its own; after a refusal nothing is processed until the lease is granted again.
\<close>

theorem sync_needs_lease:
  assumes "drive_run (drive_start own) (es @ e # fs) = Some s" and "e = E_Response renewed \<or> e = E_Initial outcome"
  shows "last_answer es \<and> own \<noteq> []"
proof -
  obtain s1 s2 where s1: "drive_run (drive_start own) es = Some s1" "drive_next s1 e = Some s2"
    using assms(1) by (auto simp: drive_run_append bind_eq_Some_conv)
  have own: "own \<noteq> []"
  proof
    assume "own = []"
    then have "drive_start own = D_End (Inl Mx_NotLoggedIn)" by (simp add: drive_start_def)
    then show False using assms(1) by (cases es) auto
  qed
  have "holds_lease s1" using s1(2) assms(2) by (cases s1) auto
  then show ?thesis using drive_run_lease s1(1) own by (simp add: drive_start_def)
qed

lemma unat_min: "unat (min x (y :: 'a::len word)) = min (unat x) (unat y)"
  by (auto simp: min_def word_le_nat_alt)

text \<open>
  Back-offs: one second doubled at each failure up to a minute, whatever the counter.
\<close>

theorem backoff_bounds: "unat (backoff n) = min (2 ^ unat n) 60"
proof (cases "n < 64")
  case True
  then have "unat n < 64" by (simp add: word_less_nat_alt)
  then have "unat (push_bit (unat n) (1 :: u64)) = 2 ^ unat n"
    using unsigned_push_bit_eq [of "unat n" "1 :: u64", where ?'a = nat] take_bit_nat_eq_self [of "2 ^ unat n" 64]
    by (simp add: push_bit_nat_def)
  then show ?thesis using True by (simp add: backoff_def unat_min)
next
  case False
  then have "64 \<le> unat n" by (simp add: not_less word_le_nat_alt)
  then have "(2 :: nat) ^ 64 \<le> 2 ^ unat n" by (rule power_increasing) simp
  then show ?thesis using False by (simp add: backoff_def unat_min unat_minus_one_word)
qed

text \<open>An invitation is answered by at most four calls, none for an inviter that is not configured.\<close>

lemma join_calls: "fst (fst (join_with_retries N join delays w)) \<le> Suc (length delays)"
proof (induction delays arbitrary: w)
  case (Cons d ds)
  obtain ok w1 where j: "join w = (ok, w1)" by fastforce
  show ?case using Cons [of "nt_sleep N d w1"] j by (cases ok) (auto split: prod.split)
qed (auto split: prod.split)

theorem invitations_bounded:
  "fst (fst (accept_invite N join inviter auto_join w)) \<le> (if inviter \<in> set auto_join then 4 else 0)"
  using join_calls [of N join join_retry_delays w]
  by (simp add: accept_invite_def invite_allowed_def join_retry_delays_def)

section \<open>Examples\<close>

text \<open>
  A server at one origin, whose world is its clock: it announces its endpoints, asks the first poll
  to wait and grants the second.
\<close>

definition demo_reply :: "http_request \<Rightarrow> nat \<Rightarrow> string" where
  "demo_reply req now =
     (case req of
        Get_Request url None \<Rightarrow> ''meta''
      | Get_Request url (Some t) \<Rightarrow> ''me''
      | Post_Json url v \<Rightarrow> ''client''
      | Post_Form url q \<Rightarrow> if q = ''client_id'' then ''code''
          else if now < 5 * 10 ^ 9 then ''wait'' else ''token'')"

definition demo_bodies :: "(string \<times> json) list" where
  "demo_bodies =
     [(''meta'', JObject [(''token_endpoint'', JString ''/t''), (''device_authorization_endpoint'', JString ''/d''),
        (''registration_endpoint'', JString ''/r'')]),
      (''client'', JObject [(''client_id'', JString ''c'')]),
      (''code'', JObject [(''device_code'', JString ''dc''), (''user_code'', JString ''uc''),
        (''verification_uri'', JString ''/v''), (''expires_in'', JNumber (Int_Num 60))]),
      (''wait'', JObject [(''error'', JString ''authorization_pending'')]),
      (''token'', JObject [(''access_token'', JString ''at'')]),
      (''me'', JObject [(''user_id'', JString ''@bot:hs''), (''device_id'', JString ''AAAAAAAAAA'')])]"

definition demo_net :: "nat net" where
  "demo_net =
     \<lparr>nt_now = (\<lambda>w. w), nt_sleep = (\<lambda>n w. w + n * 10 ^ 9),
      nt_send = (\<lambda>req w. (Some \<lparr>hr_status = 200, hr_origin = ''o'', hr_body = Some (demo_reply req w)\<rparr>, w)),
      nt_draw = (\<lambda>w. (0, w)), nt_origin = (\<lambda>url. Some ''o''),
      nt_form = (\<lambda>pairs. Some (fst (hd pairs))), nt_json = map_of demo_bodies\<rparr>"

lemma demo_clock: "clock_runs demo_net"
  by (simp add: clock_runs_def demo_net_def)

theorem polling_ends_witness:
  "\<exists>r. poll_until_done 13 demo_net 60 5 (\<lambda>w. (Poll_Pending :: unit poll_outcome, w)) 0 = Some r"
  using polling_ends [of demo_net "\<lambda>w. (Poll_Pending :: unit poll_outcome, w)" 5 60 0]
  by (simp add: time_passes_def demo_net_def)

theorem login_returns_witness:
  "\<exists>r. device_login (2 ^ 64) demo_net ''h/'' ''bot'' None (\<lambda>p w. w) 0 = Some r"
  by (rule login_returns [OF demo_clock])

lemma with_retry_first: "attempt w = (Inr x, w1) \<Longrightarrow> with_retry N attempt w = (Inr x, w1)"
  by (simp add: with_retry_def with_retry_loop.simps)

lemma demo_letter: "char_of (65 :: nat) = CHR ''A''"
  by code_simp

lemma demo_letters: "draw_letters n demo_net w = (replicate n (CHR ''A''), w)"
  by (induction n) (simp_all add: demo_net_def demo_letter)

lemma demo_ten_letters: "replicate 10 (CHR ''A'') = ''AAAAAAAAAA''"
  by code_simp

lemma demo_start:
  "login_start demo_net ''h'' ''bot'' None 0 =
     (Inr (\<lparr>am_token = ''/t'', am_device_authorization = Some ''/d'', am_registration = Some ''/r''\<rparr>, ''c'', ''AAAAAAAAAA'',
       \<lparr>da_device_code = ''dc'', da_user_code = ''uc'', da_verification_uri = ''/v'',
        da_verification_uri_complete = None, da_expires_in = 60, da_interval = None\<rparr>), 0)"
proof -
  have d: "with_retry demo_net (discover demo_net ''h'') 0 =
      (Inr \<lparr>am_token = ''/t'', am_device_authorization = Some ''/d'', am_registration = Some ''/r''\<rparr>, 0)"
    by (rule with_retry_first) (simp add: discover_def demo_net_def http_send_def json_ok_def act_eval Let_def
        is_success_status_def demo_reply_def demo_bodies_def auth_metadata_of_json_def req_str_def)
  have r: "with_retry demo_net (register_client demo_net ''/r'' ''bot'' ''h'') 0 = (Inr ''c'', 0)"
    by (rule with_retry_first) (simp add: register_client_def demo_net_def http_send_def json_ok_def act_eval
        is_success_status_def demo_reply_def demo_bodies_def registered_of_json_def req_str_def)
  have i: "new_device_id demo_net 0 = (''AAAAAAAAAA'', 0)"
    by (simp add: new_device_id_def device_id_len_def demo_letters demo_ten_letters)
  have c: "with_retry demo_net (request_device_code demo_net ''/d'' ''c'' ''AAAAAAAAAA'') 0 =
      (Inr \<lparr>da_device_code = ''dc'', da_user_code = ''uc'', da_verification_uri = ''/v'',
        da_verification_uri_complete = None, da_expires_in = 60, da_interval = None\<rparr>, 0)"
    by (rule with_retry_first) (simp add: request_device_code_def form_body_def demo_net_def http_send_def json_ok_def act_eval
        is_success_status_def demo_reply_def demo_bodies_def device_authorization_of_json_def req_str_def json_u64_def)
  show ?thesis using d r i c by (simp add: login_start_def act_eval)
qed

lemma demo_poll:
  "poll_token demo_net ''/t'' ''c'' ''dc'' w =
     (if w < 5 * 10 ^ 9 then Poll_Pending
      else Poll_Done \<lparr>gt_access_token = ''at'', gt_refresh_token = None, gt_expires_in_secs = None\<rparr>, w)"
  by (simp add: poll_token_def poll_token_response_def form_body_def demo_net_def http_send_def act_eval token_answer_def
      demo_reply_def demo_bodies_def token_body_of_json_def is_success_status_def)

lemma demo_three: "poll_loop 3 = poll_loop (Suc (Suc (Suc 0)))"
  by (simp add: numeral_3_eq_3)

lemma demo_login_run:
  "device_login 3 demo_net ''h/'' ''bot'' None (\<lambda>p w. w) 0 =
     Some (Inr \<lparr>dt_client_id = ''c'', dt_user_id = ''@bot:hs'', dt_device_id = ''AAAAAAAAAA'',
       dt_access_token = ''at'', dt_refresh_token = None, dt_expires_in_secs = None\<rparr>, 5 * 10 ^ 9)"
proof -
  have base: "trim_end_slashes ''h/'' = ''h''" by (simp add: trim_end_slashes_def)
  have me: "with_retry demo_net (matrix_whoami demo_net ''h'' ''at'') (5 * 10 ^ 9) =
      (Inr \<lparr>wh_user_id = ''@bot:hs'', wh_device_id = Some ''AAAAAAAAAA''\<rparr>, 5 * 10 ^ 9)"
    by (rule with_retry_first) (simp add: matrix_whoami_def demo_net_def http_send_def json_ok_def act_eval Let_def
        is_success_status_def demo_reply_def demo_bodies_def whoami_of_json_def req_str_def)
  have polled: "poll_until_done 3 demo_net 60 5 (poll_token demo_net ''/t'' ''c'' ''dc'') 0 =
      Some (Inr \<lparr>gt_access_token = ''at'', gt_refresh_token = None, gt_expires_in_secs = None\<rparr>, 5 * 10 ^ 9)"
    by (simp only: poll_until_done_def demo_three poll_loop.simps demo_poll Let_def) (simp add: demo_net_def)
  show ?thesis
    using me polled by (simp add: device_login_def base demo_start Let_def poll_interval_def default_interval_secs_def login_finish_def act_eval)
qed


theorem sync_needs_lease_witness:
  "drive_run (drive_start ''@bot:hs'') [E_Lease (Inr False), E_Lease (Inr True), E_Initial None, E_Response False] =
     Some (D_Lease 0) \<and> last_answer [E_Lease (Inr False), E_Lease (Inr True), E_Initial None]"
proof -
  have run: "drive_run (drive_start ''@bot:hs'')
      ([E_Lease (Inr False), E_Lease (Inr True), E_Initial None] @ E_Response False # []) = Some (D_Lease 0)"
    by (simp add: drive_start_def)
  show ?thesis using sync_needs_lease [OF run, of False None] run by simp
qed

end
