(* ===== verification/Chat_Bridge.thy ===== *)
theory Chat_Bridge
  imports Session_Calls Chat_Render Chat_Link Matrix_Client
begin

text \<open>
  The bridge between Matrix rooms and interactive sessions (\<open>lymaille/chat/bridge.rs\<close>): what becomes of a
  message of a room, command by command. The process of the manager, the counters of the link codes, the
  memory of the bridge and the messages sent are one state; other tasks may change each memory before every
  section and the tables before every statement, as in the theories this one builds on. A turn that
  \<open>send\<close> starts is noted in \<open>cs_turns\<close>; its events arrive through the steps of others.
\<close>

section \<open>Texts\<close>

definition e_aigu :: uchar where "e_aigu = [CHR 0xC3, CHR 0xA9]"

definition rooms_table :: string where "rooms_table = ''miryad_lymaille_matrix_rooms''"
definition events_table :: string where "events_table = ''miryad_lymaille_matrix_events''"

definition invite_text :: string where
  "invite_text = ''Ce compte n'' @ [CHR 0x27] @ ''est pas li'' @ e_aigu @ '' : demandez un code sur l'' @ [CHR 0x27] @
     ''API, puis `!link <code>`.''"

definition link_refused :: string where "link_refused = ''Liaison refus'' @ e_aigu @ ''e.''"
definition room_taken :: string where
  "room_taken = ''Cette salle est li'' @ e_aigu @ ''e '' @ [CHR 0xC3, CHR 0xA0] @ '' un autre utilisateur.''"
definition turn_active_text :: string where "turn_active_text = ''Un tour est en cours.''"
definition context_unavailable :: string where "context_unavailable = ''Contexte inconnu ou inaccessible.''"
definition agent_refused :: string where
  "agent_refused = ''Agent non autoris'' @ e_aigu @ '' pour ce contexte.''"
definition no_context :: string where
  "no_context = ''Aucun contexte pour cette salle : utilisez `!new <contexte>`.''"
definition cancelled_text :: string where "cancelled_text = ''Annul'' @ e_aigu @ ''.''"
definition nothing_to_report :: string where
  "nothing_to_report = ''Rien '' @ [CHR 0xC3, CHR 0xA0] @ '' signaler.''"
definition no_turn :: string where "no_turn = ''Aucun tour en cours.''"
definition nothing_to_resume :: string where
  "nothing_to_resume = ''Aucune session '' @ [CHR 0xC3, CHR 0xA0] @ '' reprendre.''"
definition new_session_text :: string where "new_session_text = ''Nouvelle session ouverte.''"
definition account_linked :: string where "account_linked = ''Compte li'' @ e_aigu @ ''.''"
definition activate_usage :: string where "activate_usage = ''Usage : !activate <toolset>''"
definition run_failed_code :: string where "run_failed_code = ''MRD-LYMAILLE-007''"

definition purge_every_secs :: u64 where "purge_every_secs = 3600"
definition invite_period_ms :: u64 where "invite_period_ms = 3600000"
definition warned_max :: nat where "warned_max = 4096"

fun code_de :: "lymaille_error \<Rightarrow> string" where
  "code_de Lym_UnknownSubject = ''MRD-LYMAILLE-001''"
| "code_de (Lym_Forbidden _) = ''MRD-LYMAILLE-002''"
| "code_de (Lym_ReservedPrefix _) = ''MRD-LYMAILLE-003''"
| "code_de (Lym_InvalidDefinition _) = ''MRD-LYMAILLE-004''"
| "code_de (Lym_SecretUnresolved _) = ''MRD-LYMAILLE-005''"
| "code_de (Lym_Inference _) = ''MRD-LYMAILLE-006''"
| "code_de (Lym_Run _ _) = ''MRD-LYMAILLE-007''"
| "code_de (Lym_Config _) = ''MRD-LYMAILLE-008''"
| "code_de (Lym_Store _) = ''MRD-LYMAILLE-009''"
| "code_de (Lym_NotFound _) = ''MRD-LYMAILLE-010''"
| "code_de (Lym_Conflict _) = ''MRD-LYMAILLE-011''"
| "code_de (Lym_Serialization _) = ''MRD-LYMAILLE-012''"

definition texte_erreur :: "lymaille_error \<Rightarrow> string" where
  "texte_erreur e =
     (case e of Lym_NotFound _ \<Rightarrow> context_unavailable
      | Lym_Forbidden _ \<Rightarrow> agent_refused
      | _ \<Rightarrow> format_error (code_de e))"

section \<open>State\<close>

text \<open>
  \<open>ChatBridge\<close> and \<open>ChatConfig\<close>: \<open>br_rooms\<close> is the resolver of the host, \<open>br_session_id\<close> the parser
  \<open>SessionId::new\<close>, the durations are in milliseconds, \<open>br_now\<close> is \<open>Utc::now()\<close> in nanoseconds.
\<close>

record ('ts, 'sk, 'ct, 'cx, 'ag, 'pf, 'pv, 'rp, 'st, 'rc, 'gr, 'en, 'g, 'c, 'su) bridge =
  br_manager :: "('ts, 'sk, 'ct, 'cx, 'ag, 'pf, 'pv, 'rp, 'st, 'rc, 'gr, 'en, 'g, 'c, 'su) manager"
  br_sha :: "string \<Rightarrow> string"
  br_rooms :: "string \<Rightarrow> string option"
  br_max_event_age :: nat
  br_dedupe_window :: nat
  br_own_user :: string
  br_session_id :: "string \<Rightarrow> string option"
  br_now :: "sql_world \<Rightarrow> int"
  br_clock_ms :: "sql_world \<Rightarrow> u64"
  br_calendar :: calendar

definition default_max_event_age :: nat where "default_max_event_age = 5 * 60 * 1000"
definition default_dedupe_window :: nat where "default_dedupe_window = 168 * 60 * 60 * 1000"

abbreviation br_texts where "br_texts B \<equiv> ad_texts (md_assemble (br_manager B))"

record bridge_memory =
  bm_warned :: "string set"
  bm_invited :: "string \<Rightarrow> u64 option"
  bm_last_purge :: u64

record chat_message =
  ch_room :: string
  ch_body :: string
  ch_txn :: "string option"

text \<open>\<open>cs_answers\<close> is what the home server answers to the next messages: an error, or nothing.\<close>

record ('g, 'c) chat_state =
  cs_process :: "('g, 'c) process"
  cs_attempts :: "attempts shared"
  cs_bridge :: "bridge_memory shared"
  cs_answers :: "string option list"
  cs_sent :: "chat_message list"
  cs_turns :: "(string \<times> string \<times> string) list"

definition in_process :: "(('g, 'c) process, 'e, 'a) act \<Rightarrow> (('g, 'c) chat_state, 'e, 'a) act" where
  "in_process m = (\<lambda>s. case m (cs_process s) of (r, p) \<Rightarrow> (r, s\<lparr>cs_process := p\<rparr>))"

abbreviation in_db :: "(sql_world, 'e, 'a) act \<Rightarrow> (('g, 'c) chat_state, 'e, 'a) act" where
  "in_db m \<equiv> in_process (on_db m)"

definition in_links :: "(link_process, 'e, 'a) act \<Rightarrow> (('g, 'c) chat_state, 'e, 'a) act" where
  "in_links m = (\<lambda>s. case m (fst (cs_process s), cs_attempts s) of
     (r, (w, a)) \<Rightarrow> (r, s\<lparr>cs_process := (w, snd (cs_process s)), cs_attempts := a\<rparr>))"

definition in_bridge :: "(bridge_memory \<Rightarrow> 'a \<times> bridge_memory) \<Rightarrow> (('g, 'c) chat_state, 'e, 'a) act" where
  "in_bridge f = (\<lambda>s. let b = sh_arrive (cs_bridge s) in
     case f (sh_mem b) of (x, m) \<Rightarrow> (Inr x, s\<lparr>cs_bridge := b\<lparr>sh_mem := m\<rparr>\<rparr>))"

definition chat_send :: "string \<Rightarrow> string \<Rightarrow> string option \<Rightarrow> (('g, 'c) chat_state, string, unit) act" where
  "chat_send room body txn = (\<lambda>s.
     let s1 = s\<lparr>cs_sent := cs_sent s @ [\<lparr>ch_room = room, ch_body = body, ch_txn = txn\<rparr>], cs_answers := tl (cs_answers s)\<rparr> in
     case cs_answers s of Some e # _ \<Rightarrow> (Inl (''envoi Matrix: '' @ e), s1) | _ \<Rightarrow> (Inr (), s1))"

definition dire :: "string \<Rightarrow> string \<Rightarrow> (('g, 'c) chat_state, string, unit) act" where
  "dire room t = chat_send room t None"

text \<open>\<open>tracer\<close> keeps the text of the error.\<close>

abbreviation traced where "traced m \<equiv> map_err lymaille_error_text m"

section \<open>Tables\<close>

definition insert_event :: "string \<Rightarrow> int \<Rightarrow> sql_tables \<Rightarrow> dberr + (nat \<times> sql_tables)" where
  "insert_event ev seen t =
     (if rows_where events_table [Col_Eq ''event_id'' (VText (Some ev))] t \<noteq> [] then Inr (0, t)
      else map_sum id (\<lambda>(_, t'). (1, t')) (sql_insert events_table
        [(''event_id'', VText (Some ev)), (''seen_at'', VInt (Some seen))] t))"

definition sql_text :: "db_texts \<Rightarrow> string \<Rightarrow> dberr \<Rightarrow> string" where
  "sql_text tx prefix e = prefix @ display_text tx e"

definition event_time :: "('ts, 'sk, 'ct, 'cx, 'ag, 'pf, 'pv, 'rp, 'st, 'rc, 'gr, 'en, 'g, 'c, 'su) bridge \<Rightarrow> u64 \<Rightarrow> int \<Rightarrow> int" where
  "event_time B now1 now =
     (let millis = min (2 ^ 63 - 1) (uint now1) in if cal_holds (br_calendar B) millis then millis * 1000000 else now)"

definition marquer_vu :: "('ts, 'sk, 'ct, 'cx, 'ag, 'pf, 'pv, 'rp, 'st, 'rc, 'gr, 'en, 'g, 'c, 'su) bridge \<Rightarrow> string \<Rightarrow> u64 \<Rightarrow>
    (('g, 'c) chat_state, string, bool) act" where
  "marquer_vu B ev now1 =
     in_db (and_then (\<lambda>w. (Inr (br_now B w), w)) (\<lambda>now.
       and_then (map_err (sql_text (br_texts B) (''d'' @ e_aigu @ ''doublonnage Matrix: '')) (statement (insert_event ev (event_time B now1 now)))) (\<lambda>n.
       return_ok (0 < n))))"

text \<open>
  The purge of the events seen and of the expired codes, at most once in an hour: the time of the last one is
  read and then exchanged atomically. Errors are only traced. The window is below the range of
  \<open>chrono::Duration\<close>, which panics beyond.
\<close>

definition purge_due :: "u64 \<Rightarrow> (('g, 'c) chat_state, 'e, bool) act" where
  "purge_due now1 =
     and_then (in_bridge (\<lambda>m. (bm_last_purge m, m))) (\<lambda>last1.
     if sat_sub now1 (purge_every_secs * 1000) < last1 then return_ok False
     else in_bridge (\<lambda>m. if bm_last_purge m = last1 then (True, m\<lparr>bm_last_purge := now1\<rparr>) else (False, m)))"

definition purge_events :: "('ts, 'sk, 'ct, 'cx, 'ag, 'pf, 'pv, 'rp, 'st, 'rc, 'gr, 'en, 'g, 'c, 'su) bridge \<Rightarrow>
    (sql_world, dberr, nat) act" where
  "purge_events B = (\<lambda>w.
     let now = br_now B w; secs = int (br_dedupe_window B) div 1000;
         before = (if cal_holds (br_calendar B) ((now - secs * one_second) div 1000000) then now - secs * one_second else now) in
     statement (sql_delete events_table [Col_Lt ''seen_at'' before]) w)"

abbreviation quietly :: "('w, 'e, 'a) act \<Rightarrow> ('w, 'f, unit) act" where
  "quietly m \<equiv> on_error (map_err (\<lambda>_. ()) (and_then m (\<lambda>_. return_ok ()))) (\<lambda>_. return_ok ())"

definition purge_opportune :: "('ts, 'sk, 'ct, 'cx, 'ag, 'pf, 'pv, 'rp, 'st, 'rc, 'gr, 'en, 'g, 'c, 'su) bridge \<Rightarrow> u64 \<Rightarrow>
    (('g, 'c) chat_state, string, unit) act" where
  "purge_opportune B now1 =
     and_then (purge_due now1) (\<lambda>due.
     if \<not> due then return_ok ()
     else and_then (quietly (in_db (purge_events B))) (\<lambda>_.
       quietly (in_db (\<lambda>w. purge_expired (br_texts B) (br_now B w) w))))"

record salle =
  sa_sujet :: string
  sa_session :: "string option"

definition room_row :: "string \<Rightarrow> sql_tables \<Rightarrow> row option" where
  "room_row room t = sql_first rooms_table [Col_Eq ''room_id'' (VText (Some room))] t"

definition salle_of :: "(string \<Rightarrow> string option) \<Rightarrow> row \<Rightarrow> salle option" where
  "salle_of parse r =
     map_option (\<lambda>sub. \<lparr>sa_sujet = sub, sa_session = Option.bind (col_opt_text (r ''session_id'')) parse\<rparr>) (col_opt_text (r ''subject''))"

definition lire_salle :: "('ts, 'sk, 'ct, 'cx, 'ag, 'pf, 'pv, 'rp, 'st, 'rc, 'gr, 'en, 'g, 'c, 'su) bridge \<Rightarrow> string \<Rightarrow>
    (('g, 'c) chat_state, string, salle option) act" where
  "lire_salle B room = in_db (map_err (sql_text (br_texts B) ''lecture de salle: '')
     (select (\<lambda>t. Option.bind (room_row room t) (salle_of (br_session_id B)))))"

definition contexte_session :: "('ts, 'sk, 'ct, 'cx, 'ag, 'pf, 'pv, 'rp, 'st, 'rc, 'gr, 'en, 'g, 'c, 'su) bridge \<Rightarrow> string \<Rightarrow> string \<Rightarrow>
    (('g, 'c) chat_state, string, string option) act" where
  "contexte_session B sub i = in_db (map_err (sql_text (br_texts B) ''lecture de contexte: '')
     (select (\<lambda>t. Option.bind (sql_first sessions_table (session_key_conds sub i) t) (\<lambda>r. col_opt_text (r ''context'')))))"

definition room_claimed :: dberr where
  "room_claimed = ExecErr ''UNIQUE constraint failed: miryad_lymaille_matrix_rooms.room_id''"

definition room_values :: "string \<Rightarrow> string \<Rightarrow> string \<Rightarrow> int \<Rightarrow> (string \<times> db_value) list" where
  "room_values sub i agent now =
     [(''subject'', VText (Some sub)), (''session_id'', VText (Some i)), (''agent_id'', VText (Some agent)), (''updated_at'', VInt (Some now))]"

definition insert_room :: "string \<Rightarrow> string \<Rightarrow> string \<Rightarrow> string \<Rightarrow> int \<Rightarrow> sql_tables \<Rightarrow> dberr + (unit \<times> sql_tables)" where
  "insert_room room sub i agent now t =
     (if room_row room t \<noteq> None then Inl room_claimed
      else sql_insert rooms_table ((''room_id'', VText (Some room)) # room_values sub i agent now) t)"

text \<open>Every call gives a session and an agent. The time is read anew for the insertion.\<close>

definition ecrire_salle :: "('ts, 'sk, 'ct, 'cx, 'ag, 'pf, 'pv, 'rp, 'st, 'rc, 'gr, 'en, 'g, 'c, 'su) bridge \<Rightarrow> string \<Rightarrow> string \<Rightarrow> string \<Rightarrow> string \<Rightarrow>
    (('g, 'c) chat_state, string, unit) act" where
  "ecrire_salle B room sub i agent =
     and_then (in_db (\<lambda>w. map_err (sql_text (br_texts B) (''mise '' @ [CHR 0xC3, CHR 0xA0] @ '' jour de salle: ''))
       (statement (sql_update rooms_table (room_values sub i agent (br_now B w)) [Col_Eq ''room_id'' (VText (Some room))])) w)) (\<lambda>n.
     if 0 < n then return_ok ()
     else in_db (\<lambda>w. map_err (sql_text (br_texts B) ''revendication de salle: '') (statement (insert_room room sub i agent (br_now B w))) w))"

section \<open>The end of a turn\<close>

text \<open>
  \<open>collecte\<close> waits for the end of a turn on a subscription. \<open>patience\<close> bounds the number of looks at the
  channel, each after a step of others; \<open>Still_Waiting\<close> is a bridge that has not been answered yet.
\<close>

datatype turn_reply = Turn_Reply session_outcome string | Hub_Closed | Still_Waiting

fun await_end :: "'c broadcast \<Rightarrow> nat \<times> nat \<Rightarrow> nat \<Rightarrow> (('g, 'c) process, 'e, turn_reply) act" where
  "await_end B sub 0 = return_ok Still_Waiting"
| "await_end B sub (Suc patience) =
     and_then (on_mem (on_hub (hub_recv B (fst sub) (snd sub)))) (\<lambda>out.
     case out of
       None \<Rightarrow> await_end B sub patience
     | Some (Rv_Event e) \<Rightarrow>
         (case se_kind e of
            Turn_Ended _ outcome response \<Rightarrow> return_ok (Turn_Reply outcome response)
          | _ \<Rightarrow> await_end B sub patience)
     | Some (Rv_Lagged _) \<Rightarrow> await_end B sub patience
     | Some Rv_Closed \<Rightarrow> return_ok Hub_Closed)"

definition part_txn :: "string \<Rightarrow> nat \<Rightarrow> string" where
  "part_txn ev rank = ev @ ''-'' @ show_nat rank"

definition send_parts :: "string \<Rightarrow> string \<Rightarrow> string \<Rightarrow> (('g, 'c) chat_state, string, unit) act" where
  "send_parts room ev response =
     and_then (for_each (enumerate 0 (split_message response)) (\<lambda>(rank, part). chat_send room part (Some (part_txn ev rank)))) (\<lambda>_.
     return_ok ())"

definition hub_closed_text :: string where
  "hub_closed_text = ''abonnement au hub ferm'' @ e_aigu @ '' sans fin de tour''"

definition collecte :: "('ts, 'sk, 'ct, 'cx, 'ag, 'pf, 'pv, 'rp, 'st, 'rc, 'gr, 'en, 'g, 'c, 'su) bridge \<Rightarrow> nat \<Rightarrow> nat \<times> nat \<Rightarrow>
    string \<Rightarrow> string \<Rightarrow> (('g, 'c) chat_state, string, bool) act" where
  "collecte B patience sub room ev =
     and_then (in_process (await_end (md_broadcast (br_manager B)) sub patience)) (\<lambda>reply.
     case reply of
       Still_Waiting \<Rightarrow> return_ok False
     | Turn_Reply Out_Valid response \<Rightarrow> and_then (send_parts room ev response) (\<lambda>_. return_ok True)
     | Turn_Reply Out_Failed _ \<Rightarrow> and_then (dire room (format_error run_failed_code)) (\<lambda>_. return_ok True)
     | Turn_Reply Out_Cancelled _ \<Rightarrow> and_then (dire room cancelled_text) (\<lambda>_. return_ok True)
     | Hub_Closed \<Rightarrow> fail_with hub_closed_text)"

text \<open>The subscription is dropped when the function that holds it returns.\<close>

definition with_subscription :: "('ts, 'sk, 'ct, 'cx, 'ag, 'pf, 'pv, 'rp, 'st, 'rc, 'gr, 'en, 'g, 'c, 'su) bridge \<Rightarrow> nat \<times> nat \<Rightarrow>
    (('g, 'c) chat_state, string, bool) act \<Rightarrow> (('g, 'c) chat_state, string, bool) act" where
  "with_subscription B sub m =
     (\<lambda>s. case m s of (r, s1) \<Rightarrow>
        if r = Inr False then (r, s1)
        else case in_process (mem_do (\<lambda>m. m\<lparr>mm_hub := drop_subscription (md_broadcast (br_manager B)) (fst sub) (snd sub) (mm_hub m)\<rparr>)) s1 of
          (_ :: string + unit, s2) \<Rightarrow> (r, s2))"

section \<open>Free text\<close>

definition bridge_send :: "('ts, 'sk, 'ct, 'cx, 'ag, 'pf, 'pv, 'rp, 'st, 'rc, 'gr, 'en, 'g, 'c, 'su) bridge \<Rightarrow> string \<Rightarrow> string \<Rightarrow> string \<Rightarrow>
    (('g, 'c) chat_state, lymaille_error, unit) act" where
  "bridge_send B sub i t =
     and_then (in_process (send_message (br_manager B) sub i)) (\<lambda>_.
     (\<lambda>s. (Inr (), s\<lparr>cs_turns := cs_turns s @ [(sub, i, t)]\<rparr>)))"

text \<open>
  Every handler answers whether it is done; only \<open>collecte\<close> may still be waiting. \<open>draw\<close> is the identify
  \<open>open\<close> generates. A \<open>match\<close> on a result becomes \<open>try_then\<close>, which hands error and value on.
\<close>

definition try_then :: "('w, 'e, 'a) act \<Rightarrow> ('e + 'a \<Rightarrow> ('w, 'f, 'b) act) \<Rightarrow> ('w, 'f, 'b) act" where
  "try_then m k = (\<lambda>w. case m w of (r, w') \<Rightarrow> k r w')"

definition say :: "string \<Rightarrow> string \<Rightarrow> (('g, 'c) chat_state, string, bool) act" where
  "say room t = and_then (dire room t) (\<lambda>_. return_ok True)"

definition ouvrir_a_la_demande :: "('ts, 'sk, 'ct, 'cx, 'ag, 'pf, 'pv, 'rp, 'st, 'rc, 'gr, 'en, 'g, 'c, 'su) bridge \<Rightarrow> string \<Rightarrow> nat \<Rightarrow> string \<Rightarrow>
    matrix_message \<Rightarrow> (('g, 'c) chat_state, string, bool) act" where
  "ouvrir_a_la_demande B draw patience sub msg =
     (case br_rooms B (mm_room_id msg) of
        None \<Rightarrow> say (mm_room_id msg) no_context
      | Some context_name \<Rightarrow>
          try_then (in_process (open_session (br_manager B) draw sub context_name None)) (\<lambda>opened.
          case opened of
            Inl e \<Rightarrow> say (mm_room_id msg) (texte_erreur e)
          | Inr handle \<Rightarrow>
              and_then (ecrire_salle B (mm_room_id msg) sub (sh_id handle) (sh_agent_id handle)) (\<lambda>_.
              and_then (traced (in_process (subscribe_session (br_manager B) sub (sh_id handle)))) (\<lambda>subscription.
              with_subscription B subscription (
              and_then (traced (bridge_send B sub (sh_id handle) (mm_body msg))) (\<lambda>_.
              collecte B patience subscription (mm_room_id msg) (mm_event_id msg)))))))"

definition refused_send :: "string \<Rightarrow> lymaille_error \<Rightarrow> (('g, 'c) chat_state, string, bool) act" where
  "refused_send room e = say room (case e of Lym_Conflict _ \<Rightarrow> turn_active_text | _ \<Rightarrow> texte_erreur e)"

definition texte_libre :: "('ts, 'sk, 'ct, 'cx, 'ag, 'pf, 'pv, 'rp, 'st, 'rc, 'gr, 'en, 'g, 'c, 'su) bridge \<Rightarrow> string \<Rightarrow> nat \<Rightarrow> string \<Rightarrow>
    string option \<Rightarrow> matrix_message \<Rightarrow> (('g, 'c) chat_state, string, bool) act" where
  "texte_libre B draw patience sub session msg =
     (case session of
        None \<Rightarrow> ouvrir_a_la_demande B draw patience sub msg
      | Some i \<Rightarrow>
          and_then (traced (in_process (subscribe_session (br_manager B) sub i))) (\<lambda>subscription.
          let collect = collecte B patience subscription (mm_room_id msg) (mm_event_id msg) in
          with_subscription B subscription (
          try_then (bridge_send B sub i (mm_body msg)) (\<lambda>sent. case sent of
            Inr _ \<Rightarrow> collect
          | Inl (Lym_NotFound _) \<Rightarrow>
              try_then (in_process (resume_session (br_manager B) sub i)) (\<lambda>resumed. case resumed of
                Inl _ \<Rightarrow> ouvrir_a_la_demande B draw patience sub msg
              | Inr _ \<Rightarrow>
                  try_then (bridge_send B sub i (mm_body msg)) (\<lambda>again. case again of
                    Inr _ \<Rightarrow> collect
                  | Inl e \<Rightarrow> refused_send (mm_room_id msg) e))
          | Inl e \<Rightarrow> refused_send (mm_room_id msg) e))))"

section \<open>Commands\<close>

definition liaison :: "('ts, 'sk, 'ct, 'cx, 'ag, 'pf, 'pv, 'rp, 'st, 'rc, 'gr, 'en, 'g, 'c, 'su) bridge \<Rightarrow> string \<Rightarrow> string \<Rightarrow> string \<Rightarrow>
    (('g, 'c) chat_state, string, bool) act" where
  "liaison B room mxid code =
     try_then (if code = [] then fail_with (Lym_Forbidden ''no code presented'')
       else in_links (\<lambda>p. consume_code (br_texts B) (br_sha B) mxid code (br_now B (fst p)) p))
       (\<lambda>r. say room (case r of Inr _ \<Rightarrow> account_linked | Inl _ \<Rightarrow> link_refused))"

definition inviter :: "string \<Rightarrow> u64 \<Rightarrow> (('g, 'c) chat_state, string, bool) act" where
  "inviter room now1 =
     and_then (in_bridge (\<lambda>m.
       if (case bm_invited m room of None \<Rightarrow> False | Some t \<Rightarrow> sat_sub now1 t < invite_period_ms) then (False, m)
       else (True, m\<lparr>bm_invited := (bm_invited m)(room \<mapsto> now1)\<rparr>))) (\<lambda>allowed.
     if allowed then say room invite_text else return_ok True)"

text \<open>\<open>split_whitespace().next()\<close> and what is left\<close>

definition next_word :: "uchar list \<Rightarrow> string option \<times> uchar list" where
  "next_word s =
     (let s1 = dropWhile is_blank s in
      if s1 = [] then (None, []) else (Some (concat (takeWhile (Not \<circ> is_blank) s1)), dropWhile (Not \<circ> is_blank) s1))"

definition nouvelle_session :: "('ts, 'sk, 'ct, 'cx, 'ag, 'pf, 'pv, 'rp, 'st, 'rc, 'gr, 'en, 'g, 'c, 'su) bridge \<Rightarrow> string \<Rightarrow> string \<Rightarrow>
    string \<Rightarrow> uchar list \<Rightarrow> string option \<Rightarrow> (('g, 'c) chat_state, string, bool) act" where
  "nouvelle_session B draw sub room rest session =
     (case next_word rest of (explicit1, rest1) \<Rightarrow>
      let agent = fst (next_word rest1) in
      and_then (case explicit1 of
          Some c \<Rightarrow> return_ok (Some c)
        | None \<Rightarrow>
            and_then (case session of Some i \<Rightarrow> contexte_session B sub i | None \<Rightarrow> return_ok None) (\<lambda>closed.
            return_ok (case closed of Some c \<Rightarrow> Some c | None \<Rightarrow> br_rooms B room))) (\<lambda>context1.
      and_then (case session of
          Some i \<Rightarrow> map_err (\<lambda>_. []) (in_process (close_session (br_manager B) sub i))
        | None \<Rightarrow> return_ok ()) (\<lambda>_.
      case context1 of
        None \<Rightarrow> say room no_context
      | Some c \<Rightarrow>
          try_then (in_process (open_session (br_manager B) draw sub c agent)) (\<lambda>opened. case opened of
            Inl e \<Rightarrow> say room (texte_erreur e)
          | Inr handle \<Rightarrow> and_then (ecrire_salle B room sub (sh_id handle) (sh_agent_id handle)) (\<lambda>_. say room new_session_text)))))"

definition annuler :: "('ts, 'sk, 'ct, 'cx, 'ag, 'pf, 'pv, 'rp, 'st, 'rc, 'gr, 'en, 'g, 'c, 'su) bridge \<Rightarrow> string \<Rightarrow> string \<Rightarrow>
    string option \<Rightarrow> (('g, 'c) chat_state, string, bool) act" where
  "annuler B sub room session =
     and_then (case session of
         Some i \<Rightarrow> traced (in_process (cancel_turn (br_manager B) sub i))
       | None \<Rightarrow> return_ok False) (\<lambda>active.
     if active then return_ok True else say room no_turn)"

definition reprendre :: "('ts, 'sk, 'ct, 'cx, 'ag, 'pf, 'pv, 'rp, 'st, 'rc, 'gr, 'en, 'g, 'c, 'su) bridge \<Rightarrow> string \<Rightarrow> string \<Rightarrow>
    string option \<Rightarrow> (('g, 'c) chat_state, string, bool) act" where
  "reprendre B sub room session =
     (case session of
        None \<Rightarrow> say room nothing_to_resume
      | Some i \<Rightarrow>
          try_then (in_process (resume_session (br_manager B) sub i)) (\<lambda>resumed. case resumed of
            Inl e \<Rightarrow> say room (texte_erreur e)
          | Inr handle \<Rightarrow>
              and_then (ecrire_salle B room sub (sh_id handle) (sh_agent_id handle)) (\<lambda>_.
              say room (case format_notice (sh_notices handle) of Some t \<Rightarrow> t | None \<Rightarrow> nothing_to_report))))"

definition activation_line :: "activation_report \<Rightarrow> string" where
  "activation_line r =
     ''Toolset '' @ ar_name r @ '' : version '' @ ar_version r @
       (case ar_previous_version r of Some before \<Rightarrow> '' (remplace '' @ before @ '').'' | None \<Rightarrow> ''.'')"

definition activer :: "('ts, 'sk, 'ct, 'cx, 'ag, 'pf, 'pv, 'rp, 'st, 'rc, 'gr, 'en, 'g, 'c, 'su) bridge \<Rightarrow> string \<Rightarrow> caller_principal \<Rightarrow>
    string \<Rightarrow> (('g, 'c) chat_state, string, bool) act" where
  "activer B room caller toolset =
     (if toolset = [] then say room activate_usage
      else try_then (in_db (activate_toolset (br_texts B) (ad_toolsets (md_assemble (br_manager B))) caller toolset)) (\<lambda>r.
        say room (case r of Inr report \<Rightarrow> activation_line report | Inl e \<Rightarrow> texte_erreur e)))"

section \<open>The dispatcher\<close>

definition trim_text :: "string \<Rightarrow> string" where
  "trim_text t = concat (trim_chars (utf8_chars t))"

text \<open>The rest after \<open>!link\<close>, trimmed, in a trimmed body.\<close>

definition link_code :: "string \<Rightarrow> string option" where
  "link_code body = map_option trim_text (strip_prefix ''!link'' body)"

text \<open>\<open>split_once(char::is_whitespace)\<close> with the rest trimmed.\<close>

definition command_of :: "string \<Rightarrow> string \<times> uchar list" where
  "command_of c =
     (let cs = utf8_chars c in (concat (takeWhile (Not \<circ> is_blank) cs), trim_chars (drop 1 (dropWhile (Not \<circ> is_blank) cs))))"

text \<open>\<open>warned\<close>: whether this is the first message of a stranger in the room.\<close>

definition warn_first :: "string \<Rightarrow> bridge_memory \<Rightarrow> bool \<times> bridge_memory" where
  "warn_first room m =
     (let marks = (if warned_max \<le> card (bm_warned m) then {} else bm_warned m) in
      (room \<notin> marks, m\<lparr>bm_warned := insert room marks\<rparr>))"

definition commande :: "('ts, 'sk, 'ct, 'cx, 'ag, 'pf, 'pv, 'rp, 'st, 'rc, 'gr, 'en, 'g, 'c, 'su) bridge \<Rightarrow> string \<Rightarrow> string \<Rightarrow> caller_principal \<Rightarrow>
    string option \<Rightarrow> matrix_message \<Rightarrow> string \<Rightarrow> (('g, 'c) chat_state, string, bool) act" where
  "commande B draw sub caller session msg c =
     (case command_of c of (name, rest) \<Rightarrow>
      if name = ''help'' then say (mm_room_id msg) help_text
      else if name = ''new'' then nouvelle_session B draw sub (mm_room_id msg) rest session
      else if name = ''cancel'' then annuler B sub (mm_room_id msg) session
      else if name = ''resume'' then reprendre B sub (mm_room_id msg) session
      else if name = ''activate'' then activer B (mm_room_id msg) caller (concat rest)
      else return_ok True)"

definition servir :: "('ts, 'sk, 'ct, 'cx, 'ag, 'pf, 'pv, 'rp, 'st, 'rc, 'gr, 'en, 'g, 'c, 'su) bridge \<Rightarrow> string \<Rightarrow> nat \<Rightarrow> string \<Rightarrow> caller_principal \<Rightarrow>
    matrix_message \<Rightarrow> (('g, 'c) chat_state, string, bool) act" where
  "servir B draw patience sub caller msg =
     and_then (lire_salle B (mm_room_id msg)) (\<lambda>room.
     case room of
       Some a \<Rightarrow>
         if sa_sujet a \<noteq> sub then
           and_then (in_bridge (warn_first (mm_room_id msg))) (\<lambda>first.
           if first then say (mm_room_id msg) room_taken else return_ok True)
         else (case strip_prefix ''!'' (trim_text (mm_body msg)) of
             Some c \<Rightarrow> commande B draw sub caller (sa_session a) msg c
           | None \<Rightarrow> texte_libre B draw patience sub (sa_session a) msg)
     | None \<Rightarrow> (case strip_prefix ''!'' (trim_text (mm_body msg)) of
             Some c \<Rightarrow> commande B draw sub caller None msg c
           | None \<Rightarrow> texte_libre B draw patience sub None msg))"

definition identify :: "('ts, 'sk, 'ct, 'cx, 'ag, 'pf, 'pv, 'rp, 'st, 'rc, 'gr, 'en, 'g, 'c, 'su) bridge \<Rightarrow> string \<Rightarrow> nat \<Rightarrow> u64 \<Rightarrow>
    matrix_message \<Rightarrow> (('g, 'c) chat_state, string, bool) act" where
  "identify B draw patience now1 msg =
     and_then (traced (in_db (resolve_link (br_texts B) (mm_sender msg)))) (\<lambda>owner.
     case owner of
       None \<Rightarrow> inviter (mm_room_id msg) now1
     | Some sub \<Rightarrow>
         try_then (in_db (resolve_caller (br_texts B) sub)) (\<lambda>caller.
         case caller of
           Inl _ \<Rightarrow> inviter (mm_room_id msg) now1
         | Inr c \<Rightarrow> servir B draw patience sub c msg))"

definition too_old :: "('ts, 'sk, 'ct, 'cx, 'ag, 'pf, 'pv, 'rp, 'st, 'rc, 'gr, 'en, 'g, 'c, 'su) bridge \<Rightarrow> u64 \<Rightarrow> matrix_message \<Rightarrow> bool" where
  "too_old B now1 msg \<longleftrightarrow> min (2 ^ 64 - 1) (br_max_event_age B) < unat (sat_sub now1 (mm_timestamp_ms msg))"

definition dispatcher :: "('ts, 'sk, 'ct, 'cx, 'ag, 'pf, 'pv, 'rp, 'st, 'rc, 'gr, 'en, 'g, 'c, 'su) bridge \<Rightarrow> string \<Rightarrow> nat \<Rightarrow>
    matrix_message \<Rightarrow> (('g, 'c) chat_state, string, bool) act" where
  "dispatcher B draw patience msg =
     (if mm_sender msg = br_own_user B then return_ok True
      else
      and_then (in_db (\<lambda>w. (Inr (br_clock_ms B w), w))) (\<lambda>now1.
      and_then (marquer_vu B (mm_event_id msg) now1) (\<lambda>fresh.
      if \<not> fresh then return_ok True
      else
      and_then (purge_opportune B now1) (\<lambda>_.
      if too_old B now1 msg then return_ok True
      else (case link_code (trim_text (mm_body msg)) of
          Some code \<Rightarrow> liaison B (mm_room_id msg) (mm_sender msg) code
        | None \<Rightarrow> identify B draw patience now1 msg)))))"

definition on_message :: "('ts, 'sk, 'ct, 'cx, 'ag, 'pf, 'pv, 'rp, 'st, 'rc, 'gr, 'en, 'g, 'c, 'su) bridge \<Rightarrow> string \<Rightarrow> nat \<Rightarrow>
    matrix_message \<Rightarrow> ('g, 'c) chat_state \<Rightarrow> ('g, 'c) chat_state" where
  "on_message B draw patience msg s = snd (dispatcher B draw patience msg s)"

section \<open>Before the command\<close>

lemma chat_tables_differ [simp]:
  "rooms_table \<noteq> events_table" "events_table \<noteq> rooms_table" "rooms_table \<noteq> codes_table" "codes_table \<noteq> rooms_table"
  "links_table \<noteq> events_table" "events_table \<noteq> links_table" "events_table \<noteq> codes_table" "codes_table \<noteq> events_table"
  "sessions_table \<noteq> events_table" "sessions_table \<noteq> codes_table"
  by (simp_all add: rooms_table_def events_table_def codes_table_def links_table_def sessions_table_def)

text \<open>What the marks and the purges may change: the tables of events and codes.\<close>

definition db_frame :: "sql_world \<Rightarrow> sql_world \<Rightarrow> bool" where
  "db_frame w w' \<longleftrightarrow> quiet w' \<and> tabs w'\<lparr>rows := []\<rparr> = tabs w\<lparr>rows := []\<rparr> \<and>
     (\<forall>table cs. table \<noteq> events_table \<and> table \<noteq> codes_table \<longrightarrow> rows_where table cs (tabs w') = rows_where table cs (tabs w))"

lemma db_frame_refl: "quiet w \<Longrightarrow> db_frame w w"
  by (simp add: db_frame_def)

lemma db_frame_trans: "db_frame w w1 \<Longrightarrow> db_frame w1 w2 \<Longrightarrow> db_frame w w2"
  by (simp add: db_frame_def)

lemma db_frame_delete:
  assumes "quiet w" and "table = events_table \<or> table = codes_table" and "sql_delete table conds (tabs w) = Inr (n, t')"
  shows "db_frame w (set_tabs t' w)"
  using assms rows_where_delete_other [OF _ assms(3)] by (auto simp: db_frame_def sql_delete_def)

lemma insert_event_total: "\<exists>n t'. insert_event ev seen t = Inr (n, t')"
  by (cases "rows_where events_table [Col_Eq ''event_id'' (VText (Some ev))] t = []") (auto simp: insert_event_def sql_insert_def)

lemma insert_event_Inr:
  assumes "insert_event ev seen t = Inr (n, t')"
  shows "0 < n \<longleftrightarrow> rows_where events_table [Col_Eq ''event_id'' (VText (Some ev))] t = []"
    and "rows_where events_table [Col_Eq ''event_id'' (VText (Some ev))] t' \<noteq> []"
    and "table \<noteq> events_table \<Longrightarrow> rows_where table cs t' = rows_where table cs t" and "t'\<lparr>rows := []\<rparr> = t\<lparr>rows := []\<rparr>"
  using assms
  by (auto simp: insert_event_def sql_insert_def rows_where_def sql_match_def sql_new_row_def set_columns_def split: if_splits)

lemma marquer_vu_quiet:
  assumes "quiet (fst (cs_process s))"
  shows "\<exists>w'. marquer_vu B ev now1 s =
      (Inr (rows_where events_table [Col_Eq ''event_id'' (VText (Some ev))] (tabs (fst (cs_process s))) = []),
       s\<lparr>cs_process := (w', snd (cs_process s))\<rparr>) \<and> db_frame (fst (cs_process s)) w' \<and>
    rows_where events_table [Col_Eq ''event_id'' (VText (Some ev))] (tabs w') \<noteq> []"
proof -
  obtain w m where p: "cs_process s = (w, m)" by (cases "cs_process s")
  let ?seen = "event_time B now1 (br_now B w)"
  obtain n t' where i: "insert_event ev ?seen (tabs w) = Inr (n, t')" using insert_event_total by blast
  then have "statement (insert_event ev ?seen) w = (Inr n, set_tabs t' w)"
    using assms p statement_quiet_Inr [of w "insert_event ev ?seen" n t'] by simp
  then have "marquer_vu B ev now1 s = (Inr (0 < n), s\<lparr>cs_process := (set_tabs t' w, m)\<rparr>)"
    by (simp add: marquer_vu_def in_process_def on_db_def p act_eval Let_def)
  moreover have "db_frame w (set_tabs t' w)"
    using assms p insert_event_Inr(3,4) [OF i] by (auto simp: db_frame_def)
  ultimately show ?thesis using insert_event_Inr(1,2) [OF i] p by (intro exI [of _ "set_tabs t' w"]) simp
qed

definition bridge_frame :: "bridge_memory shared \<Rightarrow> bridge_memory shared \<Rightarrow> bool" where
  "bridge_frame b b' \<longleftrightarrow> (sh_others b = [] \<longrightarrow> sh_others b' = [] \<and> bm_invited (sh_mem b') = bm_invited (sh_mem b) \<and>
     bm_warned (sh_mem b') = bm_warned (sh_mem b))"

lemma purge_due_runs: "\<exists>due b. purge_due now1 s = (Inr due, s\<lparr>cs_bridge := b\<rparr>) \<and> bridge_frame (cs_bridge s) b"
proof -
  let ?b = "sh_arrive (cs_bridge s)"
  have a: "in_bridge (\<lambda>m. (bm_last_purge m, m)) s = (Inr (bm_last_purge (sh_mem ?b)), s\<lparr>cs_bridge := ?b\<rparr>)"
    by (simp add: in_bridge_def Let_def)
  have f: "bridge_frame (cs_bridge s) ?b" by (simp add: bridge_frame_def sh_arrive_def)
  have "\<exists>x b. in_bridge (\<lambda>m. if bm_last_purge m = l then (True, m\<lparr>bm_last_purge := now1\<rparr>) else (False, m)) s' =
      (Inr x, s'\<lparr>cs_bridge := b\<rparr>) \<and> bridge_frame (cs_bridge s') b" for s' and l
    by (auto simp: in_bridge_def Let_def bridge_frame_def sh_arrive_def)
  from this [of "bm_last_purge (sh_mem ?b)" "s\<lparr>cs_bridge := ?b\<rparr>"]
  show ?thesis using f by (auto simp: purge_due_def and_then_def a return_ok_def bridge_frame_def)
qed

lemma delete_statement:
  assumes "quiet w" and "table = events_table \<or> table = codes_table"
  shows "\<exists>n w'. statement (sql_delete table conds) w = (Inr n, w') \<and> db_frame w w'"
proof -
  obtain n t' where d: "sql_delete table conds (tabs w) = Inr (n, t')" by (simp add: sql_delete_def)
  then show ?thesis
    using statement_quiet_Inr [OF assms(1), of "sql_delete table conds" n t'] db_frame_delete [OF assms d] by auto
qed

lemma purge_opportune_quiet:
  assumes "quiet (fst (cs_process s))"
  shows "\<exists>w' b. purge_opportune B now1 s = (Inr (), s\<lparr>cs_bridge := b, cs_process := (w', snd (cs_process s))\<rparr>) \<and>
    db_frame (fst (cs_process s)) w' \<and> bridge_frame (cs_bridge s) b"
proof -
  obtain w m where p: "cs_process s = (w, m)" by (cases "cs_process s")
  obtain due b where due: "purge_due now1 s = (Inr due :: string + bool, s\<lparr>cs_bridge := b\<rparr>)" "bridge_frame (cs_bridge s) b"
    using purge_due_runs by blast
  obtain n1 w1 where d1: "purge_events B w = (Inr n1, w1)" "db_frame w w1"
    using delete_statement [of w events_table] assms p by (fastforce simp: purge_events_def Let_def)
  then have q1: "quiet w1" by (simp add: db_frame_def)
  obtain n2 w2 where d2: "statement (sql_delete codes_table [Col_Lt ''expires_at'' (br_now B w1 + 1)]) w1 = (Inr n2, w2)" "db_frame w1 w2"
    using delete_statement [OF q1, of codes_table] by blast
  show ?thesis
  proof (cases due)
    case False
    then show ?thesis using due db_frame_refl assms
      by (intro exI [of _ "fst (cs_process s)"] exI [of _ b]) (simp add: purge_opportune_def act_eval)
  next
    case True
    then show ?thesis using due p d1 d2 db_frame_trans
      by (intro exI [of _ w2] exI [of _ b]) (auto simp: purge_opportune_def purge_expired_def act_eval in_process_def on_db_def)
  qed
qed

lemma chat_same [simp]: "cs_process s = p \<Longrightarrow> s\<lparr>cs_process := p\<rparr> = s"
  by auto

lemma read_clock: "in_db (\<lambda>w. (Inr (f w), w)) s = (Inr (f (fst (cs_process s))), s)"
  by (cases "cs_process s") (simp add: in_process_def on_db_def)

lemma dispatcher_steps:
  assumes "quiet (fst (cs_process s))" and "mm_sender msg \<noteq> br_own_user B"
    and "rows_where events_table [Col_Eq ''event_id'' (VText (Some (mm_event_id msg)))] (tabs (fst (cs_process s))) = []"
  shows "\<exists>w' b. db_frame (fst (cs_process s)) w' \<and> bridge_frame (cs_bridge s) b \<and>
    dispatcher B draw patience msg s =
      (if too_old B (br_clock_ms B (fst (cs_process s))) msg then return_ok True
       else case link_code (trim_text (mm_body msg)) of
          Some code \<Rightarrow> liaison B (mm_room_id msg) (mm_sender msg) code
        | None \<Rightarrow> identify B draw patience (br_clock_ms B (fst (cs_process s))) msg)
      (s\<lparr>cs_bridge := b, cs_process := (w', snd (cs_process s))\<rparr>)"
proof -
  let ?now = "br_clock_ms B (fst (cs_process s))"
  obtain w1 where mark: "marquer_vu B (mm_event_id msg) ?now s = (Inr True, s\<lparr>cs_process := (w1, snd (cs_process s))\<rparr>)"
    and f1: "db_frame (fst (cs_process s)) w1"
    using marquer_vu_quiet [OF assms(1), of B "mm_event_id msg" ?now] assms(3) by auto
  obtain w2 b where purge: "purge_opportune B ?now (s\<lparr>cs_process := (w1, snd (cs_process s))\<rparr>) =
      (Inr (), s\<lparr>cs_bridge := b, cs_process := (w2, snd (cs_process s))\<rparr>)" and f2: "db_frame w1 w2" "bridge_frame (cs_bridge s) b"
    using purge_opportune_quiet [of "s\<lparr>cs_process := (w1, snd (cs_process s))\<rparr>" B ?now] f1 by (auto simp: db_frame_def)
  show ?thesis
    using assms(2) mark purge db_frame_trans [OF f1 f2(1)] f2(2)
    by (intro exI [of _ w2] exI [of _ b]) (simp add: dispatcher_def and_then_def read_clock)
qed

lemma dispatcher_own: "mm_sender msg = br_own_user B \<Longrightarrow> dispatcher B draw patience msg s = (Inr True, s)"
  by (simp add: dispatcher_def return_ok_def)

lemma dispatcher_seen:
  assumes "quiet (fst (cs_process s))"
    and "rows_where events_table [Col_Eq ''event_id'' (VText (Some (mm_event_id msg)))] (tabs (fst (cs_process s))) \<noteq> []"
  shows "dispatcher B draw patience msg s = (Inr True, s)"
proof (cases "mm_sender msg = br_own_user B")
  case False
  let ?now = "br_clock_ms B (fst (cs_process s))"
  have "marquer_vu B (mm_event_id msg) ?now s = (Inr False, s)"
  proof -
    obtain w m where p: "cs_process s = (w, m)" by (cases "cs_process s")
    have "statement (insert_event (mm_event_id msg) x) w = (Inr 0, w)" for x
      using assms p statement_quiet_Inr [of w "insert_event (mm_event_id msg) x" 0 "tabs w"] by (simp add: insert_event_def)
    then show ?thesis using p by (simp add: marquer_vu_def in_process_def on_db_def act_eval)
  qed
  then show ?thesis using False by (simp add: dispatcher_def and_then_def return_ok_def read_clock)
qed (simp add: dispatcher_def return_ok_def)

text \<open>
  C14: an event is handled once: after \<open>marquer_vu\<close> has run for it, whatever it answered, any later delivery of the
  event, in any state whose table of events still has the rows of then, does nothing at all: no message, no turn,
  no change of the tables or of a memory.
\<close>

theorem event_handled_once:
  assumes "quiet (fst (cs_process s))" and "marquer_vu B (mm_event_id msg) now1 s = (Inr fresh, s1)"
    and "quiet (fst (cs_process s2))"
    and "set (rows_where events_table [] (tabs (fst (cs_process s1)))) \<subseteq> set (rows_where events_table [] (tabs (fst (cs_process s2))))"
  shows "dispatcher B draw patience msg s2 = (Inr True, s2)"
proof -
  have "rows_where events_table [Col_Eq ''event_id'' (VText (Some (mm_event_id msg)))] (tabs (fst (cs_process s1))) \<noteq> []"
    using marquer_vu_quiet [OF assms(1), of B "mm_event_id msg" now1] assms(2) by auto
  then obtain r where "r \<in> set (rows_where events_table [Col_Eq ''event_id'' (VText (Some (mm_event_id msg)))] (tabs (fst (cs_process s1))))"
    using list.set_sel(1) by blast
  then have "r \<in> set (rows_where events_table [Col_Eq ''event_id'' (VText (Some (mm_event_id msg)))] (tabs (fst (cs_process s2))))"
    using assms(4) by (auto simp: rows_where_set)
  then show ?thesis using dispatcher_seen [OF assms(3)] by force
qed

section \<open>Strangers\<close>

lemma db_frameD:
  assumes "db_frame w w'"
  shows "quiet w'" and "find_user sub (tabs w') = find_user sub (tabs w)" and "link_owner mxid (tabs w') = link_owner mxid (tabs w)"
    and "room_row room (tabs w') = room_row room (tabs w)"
    and "sql_first sessions_table cs (tabs w') = sql_first sessions_table cs (tabs w)"
    and "in_group u g (tabs w') = in_group u g (tabs w)"
proof -
  have t: "tabs w'\<lparr>rows := []\<rparr> = tabs w\<lparr>rows := []\<rparr>" using assms by (simp add: db_frame_def)
  have "users (tabs w'\<lparr>rows := []\<rparr>) = users (tabs w\<lparr>rows := []\<rparr>)" "groups (tabs w'\<lparr>rows := []\<rparr>) = groups (tabs w\<lparr>rows := []\<rparr>)"
    "memberships (tabs w'\<lparr>rows := []\<rparr>) = memberships (tabs w\<lparr>rows := []\<rparr>)"
    unfolding t by (rule refl)+
  then show "find_user sub (tabs w') = find_user sub (tabs w)" "in_group u g (tabs w') = in_group u g (tabs w)"
    by (simp_all add: find_user_def in_group_def find_group_def find_membership_def split: option.split)
  show "quiet w'" "link_owner mxid (tabs w') = link_owner mxid (tabs w)" "room_row room (tabs w') = room_row room (tabs w)"
    "sql_first sessions_table cs (tabs w') = sql_first sessions_table cs (tabs w)"
    using assms by (simp_all add: db_frame_def link_owner_def room_row_def sql_first_def)
qed

lemma inviter_run:
  assumes "sh_others (cs_bridge s) = []" and "inviter room now1 s = (r, s')"
  shows "\<exists>b. s' = s\<lparr>cs_bridge := b, cs_sent := cs_sent s', cs_answers := cs_answers s'\<rparr> \<and>
    (cs_sent s' = cs_sent s \<or> cs_sent s' = cs_sent s @ [\<lparr>ch_room = room, ch_body = invite_text, ch_txn = None\<rparr>] \<and>
       (case bm_invited (sh_mem (cs_bridge s)) room of None \<Rightarrow> True | Some t \<Rightarrow> invite_period_ms \<le> sat_sub now1 t) \<and>
       bm_invited (sh_mem b) room = Some now1)"
  using assms
  by (intro exI [of _ "cs_bridge s'"]) (auto simp: inviter_def act_eval in_bridge_def sh_arrive_def Let_def say_def dire_def chat_send_def
      split: if_splits option.splits list.splits prod.splits)

lemma identify_unlinked:
  assumes "quiet (fst (cs_process s))" and "link_owner (mm_sender msg) (tabs (fst (cs_process s))) = None"
  shows "identify B draw patience now1 msg s = inviter (mm_room_id msg) now1 s"
  using assms by (cases "cs_process s") (simp add: identify_def resolve_link_def act_eval in_process_def on_db_def select_quiet)


section \<open>Turns\<close>

text \<open>Actions that start no turn, and those that start at most one, which \<open>T\<close> holds of.\<close>

definition starts_none :: "(('g, 'c) chat_state, 'e, 'a) act \<Rightarrow> bool" where
  "starts_none m \<longleftrightarrow> (\<forall>s. cs_turns (snd (m s)) = cs_turns s)"

definition starts_one :: "(string \<times> string \<times> string \<Rightarrow> bool) \<Rightarrow> (('g, 'c) chat_state, 'e, 'a) act \<Rightarrow> bool" where
  "starts_one T m \<longleftrightarrow> (\<forall>s. cs_turns (snd (m s)) = cs_turns s \<or> (\<exists>x. T x \<and> cs_turns (snd (m s)) = cs_turns s @ [x]))"

named_theorems starts \<open>which actions start turns\<close>

lemma starts_none_basic [starts]:
  "starts_none (return_ok x)" "starts_none (fail_with e)" "starts_none (in_process m)" "starts_none (in_links k)"
  "starts_none (in_bridge f)" "starts_none (chat_send room t txn)"
  by (auto simp: starts_none_def return_ok_def fail_with_def in_process_def in_links_def in_bridge_def chat_send_def Let_def
      split: prod.split list.split option.split)

lemma starts_none_and_then [starts]: "starts_none m \<Longrightarrow> (\<And>x. starts_none (k x)) \<Longrightarrow> starts_none (and_then m k)"
  unfolding starts_none_def and_then_def by (auto split: prod.split sum.split) (metis snd_conv)+

lemma starts_none_try_then [starts]: "starts_none m \<Longrightarrow> (\<And>x. starts_none (k x)) \<Longrightarrow> starts_none (try_then m k)"
  unfolding starts_none_def try_then_def by (auto split: prod.split) (metis snd_conv)+

lemma starts_none_map_err [starts]: "starts_none m \<Longrightarrow> starts_none (map_err f m)"
  unfolding starts_none_def map_err_def by (auto split: prod.split sum.split) (metis snd_conv)+

lemma starts_none_for_each [starts]: "(\<And>x. starts_none (f x)) \<Longrightarrow> starts_none (for_each xs f)"
  by (induction xs) (simp_all add: starts)

lemma starts_none_with_subscription [starts]: "starts_none m \<Longrightarrow> starts_none (with_subscription B sub m)"
  unfolding starts_none_def with_subscription_def in_process_def by (auto split: prod.split) (metis snd_conv)+

lemma starts_none_say [starts]: "starts_none (say room t)" "starts_none (dire room t)"
  by (simp_all add: say_def dire_def starts)

lemma starts_none_collecte [starts]: "starts_none (collecte B patience sub room ev)"
  unfolding collecte_def send_parts_def
  by (rule starts_none_and_then [OF starts_none_basic(3)])
    (auto simp: starts split: turn_reply.split session_outcome.split prod.split intro!: starts)

lemma starts_noneD: "starts_none m \<Longrightarrow> m s = (r, s') \<Longrightarrow> cs_turns s' = cs_turns s"
  by (metis snd_conv starts_none_def)

lemma starts_oneD: "starts_one T m \<Longrightarrow> m s = (r, s') \<Longrightarrow> cs_turns s' = cs_turns s \<or> (\<exists>x. T x \<and> cs_turns s' = cs_turns s @ [x])"
  by (metis snd_conv starts_one_def)

lemma starts_oneI:
  "(\<And>s r s'. m s = (r, s') \<Longrightarrow> cs_turns s' = cs_turns s \<or> (\<exists>x. T x \<and> cs_turns s' = cs_turns s @ [x])) \<Longrightarrow> starts_one T m"
  unfolding starts_one_def by (metis prod.collapse)

lemma starts_one_none: "starts_none m \<Longrightarrow> starts_one T m"
  by (simp add: starts_none_def starts_one_def)

lemma starts_one_and_then:
  assumes "starts_one T m" and "\<And>x. starts_none (k x)"
  shows "starts_one T (and_then m k)"
proof (rule starts_oneI)
  fix s r s' assume run: "and_then m k s = (r, s')"
  obtain r1 s1 where m: "m s = (r1, s1)" by fastforce
  note T = starts_oneD [OF assms(1) m]
  show "cs_turns s' = cs_turns s \<or> (\<exists>x. T x \<and> cs_turns s' = cs_turns s @ [x])"
  proof (cases r1)
    case (Inl e)
    then show ?thesis using run m T by (simp add: and_then_def)
  next
    case (Inr x)
    then have "k x s1 = (r, s')" using run m by (simp add: and_then_def)
    then show ?thesis using starts_noneD [OF assms(2)] T by metis
  qed
qed

lemma starts_one_after:
  assumes "starts_none m" and "\<And>x. starts_one T (k x)"
  shows "starts_one T (and_then m k)"
proof (rule starts_oneI)
  fix s r s' assume run: "and_then m k s = (r, s')"
  obtain r1 s1 where m: "m s = (r1, s1)" by fastforce
  note T = starts_noneD [OF assms(1) m]
  show "cs_turns s' = cs_turns s \<or> (\<exists>x. T x \<and> cs_turns s' = cs_turns s @ [x])"
  proof (cases r1)
    case (Inl e)
    then show ?thesis using run m T by (simp add: and_then_def)
  next
    case (Inr x)
    then have "k x s1 = (r, s')" using run m by (simp add: and_then_def)
    then show ?thesis using starts_oneD [OF assms(2)] T by metis
  qed
qed

lemma starts_one_try:
  assumes "starts_none m" and "\<And>x. starts_one T (k x)"
  shows "starts_one T (try_then m k)"
proof (rule starts_oneI)
  fix s r s' assume run: "try_then m k s = (r, s')"
  obtain r1 s1 where m: "m s = (r1, s1)" by fastforce
  then have "k r1 s1 = (r, s')" using run by (simp add: try_then_def)
  then show "cs_turns s' = cs_turns s \<or> (\<exists>x. T x \<and> cs_turns s' = cs_turns s @ [x])"
    using starts_oneD [OF assms(2)] starts_noneD [OF assms(1) m] by metis
qed

lemma starts_one_map_err: "starts_one T m \<Longrightarrow> starts_one T (map_err f m)"
  unfolding starts_one_def map_err_def by (auto split: prod.split sum.split) (metis snd_conv)+

lemma starts_one_with_subscription:
  assumes "starts_one T m"
  shows "starts_one T (with_subscription B sub m)"
proof (rule starts_oneI)
  fix s r s' assume run: "with_subscription B sub m s = (r, s')"
  obtain r1 s1 where m: "m s = (r1, s1)" by fastforce
  have "cs_turns s' = cs_turns s1"
    using run m by (auto simp: with_subscription_def in_process_def split: if_splits prod.splits)
  then show "cs_turns s' = cs_turns s \<or> (\<exists>x. T x \<and> cs_turns s' = cs_turns s @ [x])"
    using starts_oneD [OF assms m] by simp
qed

lemma bridge_send_starts:
  "bridge_send B sub i t s = (r, s') \<Longrightarrow> cs_turns s' = (if \<exists>e. r = Inl e then cs_turns s else cs_turns s @ [(sub, i, t)])"
  by (auto simp: bridge_send_def and_then_def in_process_def split: prod.splits sum.splits)

lemma starts_one_bridge_send: "T (sub, i, t) \<Longrightarrow> starts_one T (bridge_send B sub i t)"
  unfolding starts_one_def using bridge_send_starts by (metis prod.collapse)

lemma starts_one_try_send:
  assumes "T (sub, i, t)" and "\<And>x. starts_none (k (Inr x))" and "\<And>e. starts_one T (k (Inl e))"
  shows "starts_one T (try_then (bridge_send B sub i t) k)"
proof (rule starts_oneI)
  fix s r s' assume run: "try_then (bridge_send B sub i t) k s = (r, s')"
  obtain r1 s1 where m: "bridge_send B sub i t s = (r1, s1)" by fastforce
  note T = bridge_send_starts [OF m]
  have k: "k r1 s1 = (r, s')" using run m by (simp add: try_then_def)
  show "cs_turns s' = cs_turns s \<or> (\<exists>x. T x \<and> cs_turns s' = cs_turns s @ [x])"
  proof (cases r1)
    case (Inl e)
    then have "k (Inl e) s1 = (r, s')" using k by simp
    then show ?thesis using starts_oneD [OF assms(3)] T Inl by fastforce
  next
    case (Inr x)
    then show ?thesis using starts_noneD [OF assms(2)] k T assms(1) by auto
  qed
qed

lemma starts_none_ecrire [starts]: "starts_none (ecrire_salle B room sub i agent)"
  unfolding ecrire_salle_def by (intro starts_none_and_then starts_none_basic) (simp add: starts)

definition message_turn :: "string \<Rightarrow> matrix_message \<Rightarrow> string \<times> string \<times> string \<Rightarrow> bool" where
  "message_turn sub msg x \<longleftrightarrow> fst x = sub \<and> snd (snd x) = mm_body msg"

lemma message_turn_simp [simp]: "message_turn sub msg (sub, i, mm_body msg)"
  by (simp add: message_turn_def)

lemma starts_one_ouvrir: "starts_one (message_turn sub msg) (ouvrir_a_la_demande B draw patience sub msg)"
proof (cases "br_rooms B (mm_room_id msg)")
  case None
  then show ?thesis by (simp add: ouvrir_a_la_demande_def starts_one_none starts)
next
  case (Some c)
  show ?thesis
    unfolding ouvrir_a_la_demande_def Some option.case
  proof (rule starts_one_try [OF starts_none_basic(3)])
    fix opened :: "lymaille_error + session_handle"
    show "starts_one (message_turn sub msg) (case opened of
            Inl e \<Rightarrow> say (mm_room_id msg) (texte_erreur e)
          | Inr handle \<Rightarrow>
              and_then (ecrire_salle B (mm_room_id msg) sub (sh_id handle) (sh_agent_id handle)) (\<lambda>_.
              and_then (traced (in_process (subscribe_session (br_manager B) sub (sh_id handle)))) (\<lambda>subscription.
              with_subscription B subscription (
              and_then (traced (bridge_send B sub (sh_id handle) (mm_body msg))) (\<lambda>_.
              collecte B patience subscription (mm_room_id msg) (mm_event_id msg))))))"
    proof (cases opened)
      case (Inl e)
      then show ?thesis by (simp add: starts_one_none starts)
    next
      case (Inr handle)
      show ?thesis
        unfolding Inr sum.case
        by (intro starts_one_after starts_one_with_subscription starts starts_one_and_then starts_one_map_err starts_one_bridge_send)
          simp
    qed
  qed
qed

lemma starts_none_refused [starts]: "starts_none (refused_send room e)"
  by (simp add: refused_send_def starts)


lemma starts_one_texte_libre: "starts_one (message_turn sub msg) (texte_libre B draw patience sub session msg)"
proof (cases session)
  case None
  then show ?thesis using starts_one_ouvrir by (simp add: texte_libre_def)
next
  case (Some i)
  let ?T = "message_turn sub msg"
  have again: "starts_one ?T (try_then (bridge_send B sub i (mm_body msg)) (\<lambda>again. case again of
      Inr _ \<Rightarrow> collecte B patience subscription (mm_room_id msg) (mm_event_id msg)
    | Inl e \<Rightarrow> refused_send (mm_room_id msg) e))" for subscription
    by (rule starts_one_try_send) (simp_all add: starts starts_one_none)
  have resumed: "starts_one ?T (try_then (in_process (resume_session (br_manager B) sub i)) (\<lambda>resumed. case resumed of
      Inl _ \<Rightarrow> ouvrir_a_la_demande B draw patience sub msg
    | Inr _ \<Rightarrow> try_then (bridge_send B sub i (mm_body msg)) (\<lambda>again. case again of
        Inr _ \<Rightarrow> collecte B patience subscription (mm_room_id msg) (mm_event_id msg)
      | Inl e \<Rightarrow> refused_send (mm_room_id msg) e)))" for subscription
    by (rule starts_one_try [OF starts_none_basic(3)]) (simp split: sum.split add: starts_one_ouvrir again)
  show ?thesis
    unfolding texte_libre_def Some option.case Let_def
  proof (rule starts_one_after)
    fix subscription :: "nat \<times> nat"
    show "starts_one ?T (with_subscription B subscription (try_then (bridge_send B sub i (mm_body msg)) (\<lambda>sent. case sent of
            Inr _ \<Rightarrow> collecte B patience subscription (mm_room_id msg) (mm_event_id msg)
          | Inl (Lym_NotFound _) \<Rightarrow>
              try_then (in_process (resume_session (br_manager B) sub i)) (\<lambda>resumed. case resumed of
                Inl _ \<Rightarrow> ouvrir_a_la_demande B draw patience sub msg
              | Inr _ \<Rightarrow> try_then (bridge_send B sub i (mm_body msg)) (\<lambda>again. case again of
                  Inr _ \<Rightarrow> collecte B patience subscription (mm_room_id msg) (mm_event_id msg)
                | Inl e \<Rightarrow> refused_send (mm_room_id msg) e))
          | Inl e \<Rightarrow> refused_send (mm_room_id msg) e)))"
      by (intro starts_one_with_subscription starts_one_try_send)
        (auto simp: starts starts_one_none resumed split: lymaille_error.split)
  qed (simp add: starts)
qed

lemma starts_none_commands [starts]:
  "starts_none (liaison B room mxid code)" "starts_none (inviter room now1)"
  "starts_none (annuler B sub room session)" "starts_none (activer B room caller toolset)"
  by (auto simp: liaison_def inviter_def annuler_def activer_def starts split: option.split intro!: starts)

lemma starts_none_reprendre [starts]: "starts_none (reprendre B sub room session)"
  by (auto simp: reprendre_def starts split: option.split sum.split intro!: starts)

lemma starts_none_nouvelle [starts]: "starts_none (nouvelle_session B draw sub room rest session)"
  unfolding nouvelle_session_def Let_def contexte_session_def
  by (auto simp: starts split: option.split sum.split prod.split intro!: starts)

lemma starts_none_commande [starts]: "starts_none (commande B draw sub caller session msg c)"
  by (simp add: commande_def starts split: prod.split)

definition room_owner :: "string \<Rightarrow> sql_tables \<Rightarrow> string option" where
  "room_owner room t = Option.bind (room_row room t) (\<lambda>r. col_opt_text (r ''subject''))"

lemma lire_salle_quiet:
  assumes "quiet (fst (cs_process s))"
  shows "lire_salle B room s = (Inr (Option.bind (room_row room (tabs (fst (cs_process s)))) (salle_of (br_session_id B))), s)"
  using assms by (cases "cs_process s") (simp add: lire_salle_def in_process_def on_db_def map_err_def select_quiet)

lemma salle_of_owner:
  "map_option sa_sujet (Option.bind (room_row room t) (salle_of parse)) = room_owner room t"
  by (cases "room_row room t") (auto simp: room_owner_def salle_of_def option.map_comp o_def intro: option.map_ident)

lemma servir_turns:
  assumes "quiet (fst (cs_process s))" and "servir B draw patience sub caller msg s = (r, s')"
  shows "cs_turns s' = cs_turns s \<or> (\<exists>x. message_turn sub msg x \<and> cs_turns s' = cs_turns s @ [x] \<and>
    room_owner (mm_room_id msg) (tabs (fst (cs_process s))) \<in> {None, Some sub} \<and> strip_prefix ''!'' (trim_text (mm_body msg)) = None)"
proof -
  let ?room = "Option.bind (room_row (mm_room_id msg) (tabs (fst (cs_process s)))) (salle_of (br_session_id B))"
  have own: "room_owner (mm_room_id msg) (tabs (fst (cs_process s))) = map_option sa_sujet ?room"
    using salle_of_owner by metis
  note defs = servir_def and_then_def lire_salle_quiet [OF assms(1)]
  have cmd: "commande B draw sub caller session msg c s = (r, s') \<Longrightarrow> cs_turns s' = cs_turns s" for session c
    using starts_noneD [OF starts_none_commande] by metis
  have free: "texte_libre B draw patience sub session msg s = (r, s') \<Longrightarrow>
      cs_turns s' = cs_turns s \<or> (\<exists>x. message_turn sub msg x \<and> cs_turns s' = cs_turns s @ [x])" for session
    using starts_oneD [OF starts_one_texte_libre] by metis
  show ?thesis
  proof (cases ?room)
    case None
    then show ?thesis using assms(2) own cmd free by (auto simp: defs split: option.splits)
  next
    case (Some a)
    show ?thesis
    proof (cases "sa_sujet a = sub")
      case True
      then show ?thesis using assms(2) own cmd free Some by (auto simp: defs split: option.splits)
    next
      case False
      have "starts_none (and_then (in_bridge (warn_first (mm_room_id msg))) (\<lambda>first.
           if first then say (mm_room_id msg) room_taken else return_ok True) :: (('a, 'b) chat_state, string, bool) act)"
        by (auto simp: starts intro!: starts_none_and_then)
      then show ?thesis using assms(2) Some False starts_noneD by (auto simp: servir_def and_then_def [of "lire_salle B (mm_room_id msg)"] lire_salle_quiet [OF assms(1)])
    qed
  qed
qed

text \<open>
  C12: a message starts a turn only for the account its sender is linked to, with its own text, in a room that no other
  account holds; it is not a message of the bridge, not a command, not too old and not one seen before, and it
  starts at most one turn.
\<close>

theorem turn_needs_link:
  assumes "quiet (fst (cs_process s))" and "dispatcher B draw patience msg s = (r, s')" and "cs_turns s' \<noteq> cs_turns s"
  shows "\<exists>sub i. link_owner (mm_sender msg) (tabs (fst (cs_process s))) = Some sub \<and>
    cs_turns s' = cs_turns s @ [(sub, i, mm_body msg)] \<and>
    find_user sub (tabs (fst (cs_process s))) \<noteq> None \<and>
    room_owner (mm_room_id msg) (tabs (fst (cs_process s))) \<in> {None, Some sub} \<and>
    strip_prefix ''!'' (trim_text (mm_body msg)) = None \<and> mm_sender msg \<noteq> br_own_user B \<and>
    \<not> too_old B (br_clock_ms B (fst (cs_process s))) msg \<and>
    rows_where events_table [Col_Eq ''event_id'' (VText (Some (mm_event_id msg)))] (tabs (fst (cs_process s))) = []"
proof -
  let ?w = "fst (cs_process s)" and ?now = "br_clock_ms B (fst (cs_process s))"
  have new: "mm_sender msg \<noteq> br_own_user B"
    "rows_where events_table [Col_Eq ''event_id'' (VText (Some (mm_event_id msg)))] (tabs ?w) = []"
    using assms dispatcher_own [of msg B draw patience s] dispatcher_seen [OF assms(1), of msg B draw patience] by auto
  obtain w' b where f: "db_frame ?w w'" and run: "dispatcher B draw patience msg s =
      (if too_old B ?now msg then return_ok True
       else case link_code (trim_text (mm_body msg)) of
          Some code \<Rightarrow> liaison B (mm_room_id msg) (mm_sender msg) code
        | None \<Rightarrow> identify B draw patience ?now msg) (s\<lparr>cs_bridge := b, cs_process := (w', snd (cs_process s))\<rparr>)"
    using dispatcher_steps [OF assms(1) new] by blast
  let ?s = "s\<lparr>cs_bridge := b, cs_process := (w', snd (cs_process s))\<rparr>"
  have young: "\<not> too_old B ?now msg" using run assms(2,3) by (auto simp: return_ok_def)
  have "link_code (trim_text (mm_body msg)) = None"
  proof (rule ccontr)
    assume "\<not> ?thesis"
    then obtain code where "liaison B (mm_room_id msg) (mm_sender msg) code ?s = (r, s')" using run young assms(2) by auto
    then show False using assms(3) starts_noneD [OF starts_none_commands(1)] by fastforce
  qed
  then have id: "identify B draw patience ?now msg ?s = (r, s')" using run young assms(2) by simp
  have inv: "inviter (mm_room_id msg) ?now ?s = (r, s') \<Longrightarrow> False"
    using assms(3) starts_noneD [OF starts_none_commands(2)] by fastforce
  note q = db_frameD(1) [OF f] and same = db_frameD(2-) [OF f]
  have link: "in_db (resolve_link (br_texts B) (mm_sender msg)) ?s = (Inr (link_owner (mm_sender msg) (tabs ?w)), ?s)"
    using q same by (simp add: resolve_link_def in_process_def on_db_def map_err_def select_quiet)
  then obtain sub where sub: "link_owner (mm_sender msg) (tabs ?w) = Some sub"
    using id inv by (cases "link_owner (mm_sender msg) (tabs ?w)") (auto simp: identify_def and_then_def map_err_def)
  have caller: "in_db (resolve_caller (br_texts B) sub) ?s = (fst (resolve_caller (br_texts B) sub w'), ?s)"
    using q by (simp add: in_process_def on_db_def resolve_caller_quiet split: option.split)
  have known: "find_user sub (tabs ?w) \<noteq> None"
    using id inv sub link caller q same
    by (cases "find_user sub (tabs ?w)") (auto simp: identify_def and_then_def map_err_def try_then_def resolve_caller_quiet)
  then obtain c where "servir B draw patience sub c msg ?s = (r, s')"
    using id sub link caller q same by (auto simp: identify_def and_then_def map_err_def try_then_def resolve_caller_quiet)
  moreover have "room_owner (mm_room_id msg) (tabs w') = room_owner (mm_room_id msg) (tabs ?w)"
    by (simp add: room_owner_def same)
  ultimately show ?thesis
    using servir_turns [of ?s] sub known new young assms(3) q by (fastforce simp: message_turn_def)
qed

section \<open>Free text\<close>

lemma link_is_command: "strip_prefix ''!'' body = None \<Longrightarrow> link_code body = None"
proof (rule ccontr)
  assume n: "strip_prefix ''!'' body = None" and "link_code body \<noteq> None"
  then obtain r where "strip_prefix ''!link'' body = Some r" by (auto simp: link_code_def)
  then have "body = ''!link'' @ r" by (simp only: strip_prefix_Some)
  then show False using n by (simp add: strip_prefix_def starts_with_def)
qed

text \<open>The way of a free text of the owner of a room to \<open>texte_libre\<close>.\<close>

definition free_text :: "('ts, 'sk, 'ct, 'cx, 'ag, 'pf, 'pv, 'rp, 'st, 'rc, 'gr, 'en, 'g, 'c, 'su) bridge \<Rightarrow> ('g, 'c) chat_state \<Rightarrow> matrix_message \<Rightarrow>
    string \<Rightarrow> user_row \<Rightarrow> string \<Rightarrow> bool" where
  "free_text B s msg sub u i \<longleftrightarrow>
     (let w = fst (cs_process s); t = tabs w in
      quiet w \<and> mm_sender msg \<noteq> br_own_user B \<and> strip_prefix ''!'' (trim_text (mm_body msg)) = None \<and>
      rows_where events_table [Col_Eq ''event_id'' (VText (Some (mm_event_id msg)))] t = [] \<and> \<not> too_old B (br_clock_ms B w) msg \<and>
      link_owner (mm_sender msg) t = Some sub \<and> find_user sub t = Some u \<and>
      Option.bind (room_row (mm_room_id msg) t) (salle_of (br_session_id B)) = Some \<lparr>sa_sujet = sub, sa_session = Some i\<rparr>)"

lemma dispatcher_free_text:
  assumes "free_text B s msg sub u i"
  shows "\<exists>w' b. db_frame (fst (cs_process s)) w' \<and> dispatcher B draw patience msg s =
    texte_libre B draw patience sub (Some i) msg (s\<lparr>cs_bridge := b, cs_process := (w', snd (cs_process s))\<rparr>)"
proof -
  let ?w = "fst (cs_process s)" and ?now = "br_clock_ms B (fst (cs_process s))"
  have a: "quiet ?w" "mm_sender msg \<noteq> br_own_user B" "strip_prefix ''!'' (trim_text (mm_body msg)) = None"
    "rows_where events_table [Col_Eq ''event_id'' (VText (Some (mm_event_id msg)))] (tabs ?w) = []" "\<not> too_old B ?now msg"
    "link_owner (mm_sender msg) (tabs ?w) = Some sub" "find_user sub (tabs ?w) = Some u"
    "Option.bind (room_row (mm_room_id msg) (tabs ?w)) (salle_of (br_session_id B)) = Some \<lparr>sa_sujet = sub, sa_session = Some i\<rparr>"
    using assms by (simp_all add: free_text_def Let_def)
  obtain w' b where f: "db_frame ?w w'" and run: "dispatcher B draw patience msg s =
      (if too_old B ?now msg then return_ok True
       else case link_code (trim_text (mm_body msg)) of
          Some code \<Rightarrow> liaison B (mm_room_id msg) (mm_sender msg) code
        | None \<Rightarrow> identify B draw patience ?now msg) (s\<lparr>cs_bridge := b, cs_process := (w', snd (cs_process s))\<rparr>)"
    using dispatcher_steps [OF a(1,2,4)] by blast
  let ?s = "s\<lparr>cs_bridge := b, cs_process := (w', snd (cs_process s))\<rparr>"
  note q = db_frameD(1) [OF f] and same = db_frameD(2-) [OF f]
  have "dispatcher B draw patience msg s = identify B draw patience ?now msg ?s" using run a(5) link_is_command [OF a(3)] by simp
  also have "\<dots> = servir B draw patience sub \<lparr>cp_user_id = u_id u, cp_subject = u_subject u,
      cp_is_admin = in_group (u_id u) admin_group_name (tabs ?w)\<rparr> msg ?s"
    using q same a(6,7)
    by (simp add: identify_def resolve_link_def and_then_def map_err_def try_then_def in_process_def on_db_def select_quiet resolve_caller_quiet)
  also have "\<dots> = texte_libre B draw patience sub (Some i) msg ?s"
    using lire_salle_quiet [of ?s B "mm_room_id msg"] q same a(3,8) by (simp add: servir_def and_then_def)
  finally show ?thesis using f by blast
qed

text \<open>
  C32: a room whose session has been purged stays mute: every free text of its owner ends in a traced error, with no
  answer, no turn and no new session, although the specification has a session opened on demand when the one of
  the room cannot be restored.
\<close>

theorem purged_session_mutes_room:
  assumes "free_text B s msg sub u i" and "sql_first sessions_table (session_conds (sub, i)) (tabs (fst (cs_process s))) = None"
  shows "\<exists>s'. dispatcher B draw patience msg s = (Inl (lymaille_error_text (Lym_NotFound ''session not found'')), s') \<and>
    cs_sent s' = cs_sent s \<and> cs_turns s' = cs_turns s \<and> snd (cs_process s') = snd (cs_process s)"
proof -
  obtain w' b where f: "db_frame (fst (cs_process s)) w'" and run: "dispatcher B draw patience msg s =
      texte_libre B draw patience sub (Some i) msg (s\<lparr>cs_bridge := b, cs_process := (w', snd (cs_process s))\<rparr>)"
    using dispatcher_free_text [OF assms(1)] by blast
  have q: "quiet w'" and u: "find_user sub (tabs w') = Some u" and a: "sql_first sessions_table (session_conds (sub, i)) (tabs w') = None"
    using db_frameD [OF f] assms by (simp_all add: free_text_def Let_def)
  show ?thesis
    by (simp add: run texte_libre_def call_defs act_eval in_process_def on_db_def manager_principal_quiet [OF q u] readable_absent [OF q a]
        session_not_found_def)
qed

lemma readable_present:
  assumes "quiet w" and "session_load (ad_texts D) (ad_sessions D) sub i w = (Inr (Some st), w)"
  shows "readable D sub i w = (Inr st, w)"
  using assms by (simp add: readable_def act_eval)

lemma subscribe_session_quiet:
  assumes "sh_others s = []" and "quiet w" and "find_user sub (tabs w) = Some u" and "readable (md_assemble M) sub i w = (Inr st, w)"
  shows "\<exists>out h. subscribe_session M sub i (w, s) = (Inr out, (w, s\<lparr>sh_mem := (sh_mem s)\<lparr>mm_hub := h\<rparr>\<rparr>))"
  using assms(1)
  by (auto simp: subscribe_session_def Let_def act_eval on_db_def manager_principal_quiet [OF assms(2,3)] assms(4) on_mem_quiet on_hub_def
      split: prod.split)

lemma send_message_quiet:
  assumes "sh_others s = []" and "quiet w" and "find_user sub (tabs w) = Some u" and "readable (md_assemble M) sub i w = (Inr st, w)"
    and "\<not> table_is_closed i (sh_mem s)" and "tg_begin (md_gate M) i (mm_gate (sh_mem s)) = Inr g"
  shows "\<exists>out p. send_message M sub i (w, s) = (Inr out, p)"
  using assms(1,5,6)
  by (auto simp: send_message_def do_touch_def manager_clock_def Let_def act_eval on_db_def manager_principal_quiet [OF assms(2,3)] assms(4)
      on_mem_quiet gate_begin_def split: prod.split)

lemma with_subscription_turns: "cs_turns (snd (with_subscription B sub m s)) = cs_turns (snd (m s))"
  by (simp add: with_subscription_def in_process_def split: prod.split)

lemma try_send_turns:
  assumes "bridge_send B sub i t s = (Inr (), s1)" and "starts_none (k (Inr ()))"
  shows "cs_turns (snd (try_then (bridge_send B sub i t) k s)) = cs_turns s @ [(sub, i, t)]"
  using assms(2) bridge_send_starts [OF assms(1)] by (simp add: try_then_def assms(1) starts_none_def)

text \<open>
  A free text of the owner of a room starts a turn: when its session is there, open, and has no turn, one turn with
  the text of the message begins.
\<close>

lemma owner_message_starts_turn:
  assumes "free_text B s msg sub u i" and "sh_others (snd (cs_process s)) = []"
    and "\<forall>w'. db_frame (fst (cs_process s)) w' \<longrightarrow> readable (md_assemble (br_manager B)) sub i w' = (Inr st, w')"
    and "\<not> table_is_closed i (sh_mem (snd (cs_process s)))"
    and "tg_begin (md_gate (br_manager B)) i (mm_gate (sh_mem (snd (cs_process s)))) = Inr g"
  shows "cs_turns (snd (dispatcher B draw patience msg s)) = cs_turns s @ [(sub, i, mm_body msg)]"
proof -
  obtain w' b where f: "db_frame (fst (cs_process s)) w'" and run: "dispatcher B draw patience msg s =
      texte_libre B draw patience sub (Some i) msg (s\<lparr>cs_bridge := b, cs_process := (w', snd (cs_process s))\<rparr>)"
    using dispatcher_free_text [OF assms(1)] by blast
  let ?s = "s\<lparr>cs_bridge := b, cs_process := (w', snd (cs_process s))\<rparr>" and ?m = "snd (cs_process s)"
  have q: "quiet w'" and u: "find_user sub (tabs w') = Some u" and st: "readable (md_assemble (br_manager B)) sub i w' = (Inr st, w')"
    using db_frameD [OF f] assms(1,3) f by (simp_all add: free_text_def Let_def)
  obtain out h where sub: "subscribe_session (br_manager B) sub i (w', ?m) = (Inr out, (w', ?m\<lparr>sh_mem := (sh_mem ?m)\<lparr>mm_hub := h\<rparr>\<rparr>))"
    using subscribe_session_quiet [OF assms(2) q u st] by blast
  let ?m1 = "?m\<lparr>sh_mem := (sh_mem ?m)\<lparr>mm_hub := h\<rparr>\<rparr>"
  let ?s1 = "s\<lparr>cs_bridge := b, cs_process := (w', ?m1)\<rparr>"
  obtain x p where "send_message (br_manager B) sub i (w', ?m1) = (Inr x, p)"
    using send_message_quiet [OF _ q u st, of ?m1 g] assms(2,4,5) by (auto simp: table_is_closed_def)
  then obtain s2 where send: "bridge_send B sub i (mm_body msg) ?s1 = (Inr (), s2)"
    by (simp add: bridge_send_def and_then_def in_process_def)
  have "traced (in_process (subscribe_session (br_manager B) sub i)) ?s = (Inr out, ?s1)"
    by (simp add: in_process_def map_err_def sub)
  moreover have "cs_turns (snd (try_then (bridge_send B sub i (mm_body msg)) k ?s1)) = cs_turns s @ [(sub, i, mm_body msg)]"
    if "starts_none (k (Inr ()))" for k :: "_ \<Rightarrow> (_, string, bool) act"
    using try_send_turns [OF send, of k] that by simp
  ultimately show ?thesis
    unfolding run texte_libre_def option.case Let_def and_then_def by (simp add: with_subscription_turns starts)
qed

section \<open>Claims\<close>

lemma room_row_update:
  assumes "sql_update rooms_table (room_values sub i agent now) [Col_Eq ''room_id'' (VText (Some room))] t = Inr (n, t')"
  shows "room_row other t' = (if other = room then map_option (set_columns (room_values sub i agent now)) (room_row room t) else room_row other t)"
    and "0 < n \<longleftrightarrow> room_row room t \<noteq> None"
proof -
  let ?f = "\<lambda>x. if sql_match rooms_table [Col_Eq ''room_id'' (VText (Some room))] x then (fst x, set_columns (room_values sub i agent now) (snd x)) else x"
  have t': "rows t' = map ?f (rows t)" "n = length (rows_where rooms_table [Col_Eq ''room_id'' (VText (Some room))] t)"
    using assms by (auto simp: sql_update_def)
  have m: "sql_match rooms_table [Col_Eq ''room_id'' (VText (Some other))] (?f x) = sql_match rooms_table [Col_Eq ''room_id'' (VText (Some other))] x" for x
    by (auto simp: sql_match_def set_columns_def room_values_def)
  have "rows_where rooms_table [Col_Eq ''room_id'' (VText (Some other))] t' =
      map (snd \<circ> ?f) (filter (sql_match rooms_table [Col_Eq ''room_id'' (VText (Some other))]) (rows t))"
    by (simp add: rows_where_def t' filter_map o_def m)
  also have "\<dots> = map ((if other = room then set_columns (room_values sub i agent now) else id) \<circ> snd)
      (filter (sql_match rooms_table [Col_Eq ''room_id'' (VText (Some other))]) (rows t))"
    by (intro map_cong refl) (auto simp: sql_match_def)
  also have "\<dots> = map (if other = room then set_columns (room_values sub i agent now) else id)
      (rows_where rooms_table [Col_Eq ''room_id'' (VText (Some other))] t)"
    by (simp add: rows_where_def)
  finally show "room_row other t' = (if other = room then map_option (set_columns (room_values sub i agent now)) (room_row room t) else room_row other t)"
    by (auto simp: room_row_def sql_first_def split: list.split)
  show "0 < n \<longleftrightarrow> room_row room t \<noteq> None" by (simp add: t' room_row_def sql_first_None)
qed

lemma insert_room_row:
  assumes "room_row room t = None"
  shows "\<exists>t'. insert_room room sub i agent now t = Inr ((), t') \<and> room_owner room t' = Some sub \<and>
    (\<forall>other. other \<noteq> room \<longrightarrow> room_owner other t' = room_owner other t)"
proof -
  let ?r = "sql_new_row ((''room_id'', VText (Some room)) # room_values sub i agent now) rooms_table t"
  let ?t = "t\<lparr>rows := rows t @ [(rooms_table, ?r)]\<rparr>"
  have r: "?r ''room_id'' = VText (Some room)" "?r ''subject'' = VText (Some sub)"
    by (simp_all add: sql_new_row_def set_columns_def room_values_def)
  have w: "rows_where rooms_table [Col_Eq ''room_id'' (VText (Some other))] ?t =
      rows_where rooms_table [Col_Eq ''room_id'' (VText (Some other))] t @ (if other = room then [?r] else [])" for other
    by (simp add: rows_where_def sql_match_def r)
  have "rows_where rooms_table [Col_Eq ''room_id'' (VText (Some room))] t = []"
    using assms by (simp add: room_row_def sql_first_None)
  then have "room_owner room ?t = Some sub" by (simp add: room_owner_def room_row_def sql_first_def w r)
  moreover have "other \<noteq> room \<Longrightarrow> room_owner other ?t = room_owner other t" for other
    by (simp add: room_owner_def room_row_def sql_first_def w)
  moreover have "insert_room room sub i agent now t = Inr ((), ?t)" using assms by (simp add: insert_room_def sql_insert_def)
  ultimately show ?thesis by blast
qed

text \<open>
  \<open>ecrire_salle\<close> asks nobody: in every state, also when the row of the room has come to belong to another account since
  \<open>lire_salle\<close> looked, the room belongs to the caller afterwards. Of two accounts whose first messages meet in a
  new room the second takes the room, and the first is a stranger in it, although the specification gives a room to a
  single linked user.
\<close>

theorem claim_overwrites_owner:
  assumes "quiet (fst (cs_process s))"
  shows "\<exists>s'. ecrire_salle B room sub i agent s = (Inr (), s') \<and> room_owner room (tabs (fst (cs_process s'))) = Some sub \<and>
    (\<forall>other. other \<noteq> room \<longrightarrow> room_owner other (tabs (fst (cs_process s'))) = room_owner other (tabs (fst (cs_process s))))"
proof -
  obtain w m where p: "cs_process s = (w, m)" by (cases "cs_process s")
  have q: "quiet w" using assms p by simp
  let ?up = "sql_update rooms_table (room_values sub i agent (br_now B w)) [Col_Eq ''room_id'' (VText (Some room))]"
  obtain n t1 where up: "?up (tabs w) = Inr (n, t1)" by (simp add: sql_update_def)
  have st: "statement ?up w = (Inr n, set_tabs t1 w)" using statement_quiet_Inr [OF q, of ?up n t1] up by simp
  note row = room_row_update [OF up]
  show ?thesis
  proof (cases "room_row room (tabs w)")
    case (Some r)
    have "room_owner room t1 = Some sub" by (simp add: room_owner_def row(1) Some set_columns_def room_values_def)
    moreover have "other \<noteq> room \<Longrightarrow> room_owner other t1 = room_owner other (tabs w)" for other by (simp add: room_owner_def row(1))
    ultimately show ?thesis using Some row(2) st p by (auto simp: ecrire_salle_def act_eval in_process_def on_db_def)
  next
    case None
    then have n: "n = 0" and t1: "room_row other t1 = room_row other (tabs w)" for other using row by auto
    obtain t2 where ins: "insert_room room sub i agent (br_now B (set_tabs t1 w)) t1 = Inr ((), t2)" "room_owner room t2 = Some sub"
      "\<And>other. other \<noteq> room \<Longrightarrow> room_owner other t2 = room_owner other t1"
      using insert_room_row [of room t1 sub i agent "br_now B (set_tabs t1 w)"] None t1 by auto
    then have "statement (insert_room room sub i agent (br_now B (set_tabs t1 w))) (set_tabs t1 w) = (Inr (), set_tabs t2 (set_tabs t1 w))"
      using statement_quiet_Inr [of "set_tabs t1 w" "insert_room room sub i agent (br_now B (set_tabs t1 w))" "()" t2] q by simp
    then show ?thesis using n st p ins(2,3) t1 by (auto simp: ecrire_salle_def act_eval in_process_def on_db_def room_owner_def)
  qed
qed

section \<open>Answers\<close>

fun first_end :: "session_event list \<Rightarrow> turn_reply option" where
  "first_end [] = None"
| "first_end (e # es) = (case se_kind e of Turn_Ended _ outcome response \<Rightarrow> Some (Turn_Reply outcome response) | _ \<Rightarrow> first_end es)"

fun answer_messages :: "string \<Rightarrow> string \<Rightarrow> turn_reply \<Rightarrow> chat_message list" where
  "answer_messages room ev (Turn_Reply Out_Valid response) =
     map (\<lambda>(rank, part). \<lparr>ch_room = room, ch_body = part, ch_txn = Some (part_txn ev rank)\<rparr>) (enumerate 0 (split_message response))"
| "answer_messages room ev (Turn_Reply Out_Failed _) = [\<lparr>ch_room = room, ch_body = format_error run_failed_code, ch_txn = None\<rparr>]"
| "answer_messages room ev (Turn_Reply Out_Cancelled _) = [\<lparr>ch_room = room, ch_body = cancelled_text, ch_txn = None\<rparr>]"
| "answer_messages room ev _ = []"

lemma await_end_step:
  assumes "sh_others s = []" and "bc_recv B r (hb_chans (mm_hub (sh_mem s)) ch) = (out, c)"
  shows "(await_end B (ch, r) (Suc n) :: (('g, 'c) process, string, turn_reply) act) (w, s) =
    (let s1 = s\<lparr>sh_mem := (sh_mem s)\<lparr>mm_hub := (mm_hub (sh_mem s))\<lparr>hb_chans := (hb_chans (mm_hub (sh_mem s)))(ch := c)\<rparr>\<rparr>\<rparr> in
     case out of
       None \<Rightarrow> await_end B (ch, r) n (w, s1)
     | Some (Rv_Event e) \<Rightarrow>
         (case se_kind e of
            Turn_Ended _ outcome response \<Rightarrow> (Inr (Turn_Reply outcome response), (w, s1))
          | _ \<Rightarrow> await_end B (ch, r) n (w, s1))
     | Some (Rv_Lagged _) \<Rightarrow> await_end B (ch, r) n (w, s1)
     | Some Rv_Closed \<Rightarrow> (Inr Hub_Closed, (w, s1)))"
  using assms
  by (simp add: act_eval on_mem_quiet on_hub_def hub_recv_def Let_def split: option.split recv_outcome.split session_event_kind.split)

lemma await_first_end:
  assumes "broadcast_laws B view" and "first_end (drop p (cv_log (view c))) = Some reply" and "cv_kept (view c) \<le> p"
    and "cv_pos (view c) r = Some p" and "hb_chans (mm_hub (sh_mem s)) ch = c" and "sh_others s = []"
    and "length (cv_log (view c)) \<le> p + n"
  shows "\<exists>q. (await_end B (ch, r) n :: (('g, 'c) process, string, turn_reply) act) (w, s) = (Inr reply, q)"
  using assms(2-)
proof (induction n arbitrary: p c s)
  case (Suc n)
  let ?v = "view c"
  have p: "p < length (cv_log ?v)" using Suc.prems(1) by (cases "p < length (cv_log ?v)") auto
  obtain out c' where rc: "bc_recv B r c = (out, c')" by fastforce
  have recv: "recv_view r ?v = (Some (Rv_Event (cv_log ?v ! p)), ?v\<lparr>cv_pos := (cv_pos ?v)(r \<mapsto> p + 1)\<rparr>)"
    using p Suc.prems(2,3) by (simp add: recv_view_def)
  have law: "out = Some (Rv_Event (cv_log ?v ! p))" "view c' = ?v\<lparr>cv_pos := (cv_pos ?v)(r \<mapsto> p + 1)\<rparr>"
    using laws_recv [OF assms(1) rc] recv by simp_all
  have d: "drop p (cv_log ?v) = cv_log ?v ! p # drop (p + 1) (cv_log ?v)" using p by (simp add: Cons_nth_drop_Suc)
  let ?s = "s\<lparr>sh_mem := (sh_mem s)\<lparr>mm_hub := (mm_hub (sh_mem s))\<lparr>hb_chans := (hb_chans (mm_hub (sh_mem s)))(ch := c')\<rparr>\<rparr>\<rparr>"
  note step = await_end_step [OF Suc.prems(5), of B r ch out c' n w, unfolded Suc.prems(4), OF rc]
  show ?case
  proof (cases "\<exists>k out1 t. se_kind (cv_log ?v ! p) = Turn_Ended k out1 t")
    case True
    then show ?thesis using Suc.prems(1) step law(1) d by (auto simp: Let_def simp del: await_end.simps)
  next
    case False
    have first: "first_end (drop (p + 1) (cv_log ?v)) = Some reply"
      using False Suc.prems(1) d by (simp split: session_event_kind.splits)
    have "\<exists>q. (await_end B (ch, r) n :: (('g, 'c) process, string, turn_reply) act) (w, ?s) = (Inr reply, q)"
      by (rule Suc.IH [of "p + 1" c']) (use first Suc.prems law(2) in \<open>simp_all add: cv_kept_def\<close>)
    then show ?thesis using False step law(1) by (auto simp: Let_def simp del: await_end.simps split: session_event_kind.split)
  qed
qed simp

lemma for_each_send:
  assumes "cs_answers s = []"
  shows "for_each xs (\<lambda>(rank, part). chat_send room part (Some (part_txn ev rank))) s =
    (Inr (map (\<lambda>_. ()) xs), s\<lparr>cs_sent := cs_sent s @ map (\<lambda>(rank, part). \<lparr>ch_room = room, ch_body = part, ch_txn = Some (part_txn ev rank)\<rparr>) xs\<rparr>)"
  using assms
proof (induction xs arbitrary: s)
  case (Cons x xs)
  obtain rank part where x: "x = (rank, part)" by (cases x)
  let ?s = "s\<lparr>cs_sent := cs_sent s @ [\<lparr>ch_room = room, ch_body = part, ch_txn = Some (part_txn ev rank)\<rparr>]\<rparr>"
  have "chat_send room part (Some (part_txn ev rank)) s = (Inr (), ?s)" using Cons.prems by (simp add: chat_send_def Let_def)
  then show ?case using Cons.IH [of ?s] Cons.prems x by (simp add: act_eval)
qed (simp add: act_eval)

lemma distinct_txns:
  "distinct (map (ch_txn \<circ> (\<lambda>(rank, part). \<lparr>ch_room = room, ch_body = part, ch_txn = Some (part_txn ev rank)\<rparr>)) (enumerate n xs))"
  by (induction xs arbitrary: n) (auto simp: part_txn_def in_set_enumerate_eq show_nat_inj)

lemma first_end_reply: "first_end es = Some reply \<Longrightarrow> reply \<noteq> Hub_Closed \<and> reply \<noteq> Still_Waiting"
  by (induction es) (auto split: session_event_kind.splits)

text \<open>
  C15: the answer to a message is the one of the first turn that ends after the subscription, which was made before the turn
  began: if this end is still in the channel of the subscriber, the bridge sends to the room exactly the parts of
  the response in order, each with the transaction identifier made of the event and its rank, which differ, or the fixed
  text of a failed or cancelled turn.
\<close>

theorem answer_is_first_end:
  assumes "broadcast_laws (md_broadcast (br_manager B)) view" and "sh_others (snd (cs_process s)) = []" and "cs_answers s = []"
    and "cv_pos (view (hb_chans (mm_hub (sh_mem (snd (cs_process s)))) ch)) r = Some p"
    and "cv_kept (view (hb_chans (mm_hub (sh_mem (snd (cs_process s)))) ch)) \<le> p"
    and "first_end (drop p (cv_log (view (hb_chans (mm_hub (sh_mem (snd (cs_process s)))) ch)))) = Some reply"
    and "length (cv_log (view (hb_chans (mm_hub (sh_mem (snd (cs_process s)))) ch))) \<le> p + patience"
  shows "\<exists>s'. collecte B patience (ch, r) room ev s = (Inr True, s') \<and> cs_sent s' = cs_sent s @ answer_messages room ev reply \<and>
    distinct (map ch_txn (answer_messages room ev reply))"
proof -
  obtain w m where p: "cs_process s = (w, m)" by (cases "cs_process s")
  obtain q where run: "await_end (md_broadcast (br_manager B)) (ch, r) patience (cs_process s) = (Inr reply :: string + turn_reply, q)"
    using await_first_end [OF assms(1,6,5,4) refl assms(2,7), of w] p by auto
  let ?s = "s\<lparr>cs_process := q\<rparr>"
  have wait: "in_process (await_end (md_broadcast (br_manager B)) (ch, r) patience) s = (Inr reply :: string + turn_reply, ?s)"
    by (simp add: in_process_def run)
  have parts: "send_parts room ev t ?s = (Inr (), ?s\<lparr>cs_sent := cs_sent s @ answer_messages room ev (Turn_Reply Out_Valid t)\<rparr>)" for t
    using for_each_send [of ?s "enumerate 0 (split_message t)" room ev] assms(3) by (simp add: send_parts_def act_eval)
  have one: "dire room t ?s = (Inr (), ?s\<lparr>cs_sent := cs_sent s @ [\<lparr>ch_room = room, ch_body = t, ch_txn = None\<rparr>]\<rparr>)" for t
    using assms(3) by (simp add: dire_def chat_send_def Let_def)
  have txns: "distinct (map ch_txn (answer_messages room ev (Turn_Reply Out_Valid t)))" for t
    by (simp add: distinct_txns)
  show ?thesis
  proof (cases reply)
    case (Turn_Reply outcome t)
    then show ?thesis using wait parts one txns by (cases outcome) (simp_all add: collecte_def act_eval)
  qed (use assms(6) first_end_reply in auto)
qed

section \<open>Examples\<close>

definition demo_bridge ::
    "(json, unit, unit, json, json, json, json, json, string, unit, unit, unit, string set, demo_chan, string) bridge" where
  "demo_bridge =
     \<lparr>br_manager = demo_manager, br_sha = demo_sha, br_rooms = (\<lambda>_. Some ''mine''), br_max_event_age = default_max_event_age,
      br_dedupe_window = default_dedupe_window, br_own_user = ''@bot:x'', br_session_id = Some, br_now = (\<lambda>_. 0),
      br_clock_ms = (\<lambda>_. 5000000), br_calendar = \<lparr>cal_holds = (\<lambda>_. True), cal_rfc3339 = (\<lambda>_. [])\<rparr>\<rparr>"

definition demo_link :: "string \<Rightarrow> string \<Rightarrow> string \<times> row" where
  "demo_link mxid sub = (links_table, demo_row [(''mxid'', VText (Some mxid)), (''subject'', VText (Some sub))])"

definition demo_chat :: "sql_world \<Rightarrow> (string set, demo_chan) chat_state" where
  "demo_chat w =
     \<lparr>cs_process = (w, demo_memory), cs_attempts = demo_counters,
      cs_bridge = \<lparr>sh_mem = \<lparr>bm_warned = {}, bm_invited = Map.empty, bm_last_purge = 0\<rparr>, sh_others = []\<rparr>,
      cs_answers = [], cs_sent = [], cs_turns = []\<rparr>"

definition demo_message :: "string \<Rightarrow> string \<Rightarrow> matrix_message" where
  "demo_message sender body =
     \<lparr>mm_room_id = ''!r'', mm_event_id = ''$e'', mm_sender = sender, mm_body = body, mm_formatted_body = None, mm_msgtype = ''m.text'',
      mm_timestamp_ms = 4999000, mm_encrypted = False\<rparr>"

definition demo_room :: "string \<Rightarrow> string \<times> row" where
  "demo_room i = (rooms_table, demo_row [(''room_id'', VText (Some ''!r'')), (''subject'', VText (Some ''bob'')), (''session_id'', VText (Some i))])"

definition chat_rows :: "string \<Rightarrow> (string \<times> row) list" where
  "chat_rows i = demo_link ''@bob:x'' ''bob'' # demo_room i # open_rows"

lemma demo_chat_simps [simp]:
  "cs_process (demo_chat w) = (w, demo_memory)" "sh_others (cs_bridge (demo_chat w)) = []" "cs_answers (demo_chat w) = []"
  "cs_turns (demo_chat w) = []" "cs_sent (demo_chat w) = []"
  by (simp_all add: demo_chat_def)

lemma demo_trim: "trim_text ''hi'' = ''hi''"
  by code_simp

lemma chat_rows_events: "rows_where events_table [Col_Eq ''event_id'' (VText (Some ev))] (tabs (demo_world (chat_rows i))) = []"
proof -
  have "list_all (\<lambda>r. fst r \<noteq> events_table) (chat_rows [])" by code_simp
  then have "list_all (\<lambda>r. fst r \<noteq> events_table) (chat_rows i)" by (simp add: chat_rows_def demo_room_def)
  then show ?thesis by (auto simp: rows_where_def demo_tables_def sql_match_def list_all_iff filter_empty_conv)
qed

lemma chat_rows_read:
  "link_owner ''@bob:x'' (tabs (demo_world (chat_rows i))) = Some ''bob''"
  "find_user ''bob'' (tabs (demo_world (chat_rows i))) = Some (demo_user 2)"
  "Option.bind (room_row ''!r'' (tabs (demo_world (chat_rows i)))) (salle_of (br_session_id demo_bridge)) =
     Some \<lparr>sa_sujet = ''bob'', sa_session = Some i\<rparr>"
  by (simp_all add: chat_rows_def demo_link_def demo_room_def link_owner_def room_row_def sql_first_def rows_where_def sql_match_def demo_tables_def
      demo_row_def set_columns_def null_row_def salle_of_def demo_bridge_def find_user_def demo_user_def)

lemma demo_free_text: "free_text demo_bridge (demo_chat (demo_world (chat_rows i))) (demo_message ''@bob:x'' ''hi'') ''bob'' (demo_user 2) i"
  using chat_rows_read chat_rows_events
  by (simp add: free_text_def Let_def demo_message_def demo_trim strip_prefix_def starts_with_def too_old_def demo_bridge_def
      default_max_event_age_def unat_sat_sub)

theorem purged_session_mutes_room_witness:
  "\<exists>s'. dispatcher demo_bridge ''s1'' 1 (demo_message ''@bob:x'' ''hi'') (demo_chat (demo_world (chat_rows ''gone''))) =
    (Inl (lymaille_error_text (Lym_NotFound ''session not found'')), s') \<and> cs_sent s' = []"
proof -
  have "Option.is_none (sql_first sessions_table (session_conds (''bob'', ''gone'')) (tabs (demo_world (chat_rows ''gone''))))"
    by code_simp
  then have "sql_first sessions_table (session_conds (''bob'', ''gone'')) (tabs (demo_world (chat_rows ''gone''))) = None"
    by (simp add: Option.is_none_def split: option.splits)
  then show ?thesis using purged_session_mutes_room [OF demo_free_text, of "''gone''" "''s1''" 1] by auto
qed

theorem event_handled_once_witness:
  "\<exists>s1. marquer_vu demo_bridge ''$e'' 7 (demo_chat (demo_world (chat_rows ''s''))) = (Inr True, s1) \<and>
    dispatcher demo_bridge ''s1'' 1 (demo_message ''@bob:x'' ''hi'') s1 = (Inr True, s1)"
proof -
  let ?s = "demo_chat (demo_world (chat_rows ''s''))" and ?m = "demo_message ''@bob:x'' ''hi''"
  have ev: "mm_event_id ?m = ''$e''" by (simp add: demo_message_def)
  have q: "quiet (fst (cs_process ?s))" by simp
  obtain w' where run: "marquer_vu demo_bridge (mm_event_id ?m) 7 ?s = (Inr True, ?s\<lparr>cs_process := (w', snd (cs_process ?s))\<rparr>)"
    and f: "db_frame (fst (cs_process ?s)) w'"
    using marquer_vu_quiet [OF q, of demo_bridge "mm_event_id ?m" 7] chat_rows_events by auto
  have "quiet (fst (cs_process (?s\<lparr>cs_process := (w', snd (cs_process ?s))\<rparr>)))" using f by (simp add: db_frame_def)
  from event_handled_once [OF q run this] run show ?thesis by (simp add: ev)
qed


theorem claim_overwrites_owner_witness:
  "\<exists>s'. ecrire_salle demo_bridge ''!r'' ''ana'' ''s9'' ''G_dev'' (demo_chat (demo_world (chat_rows ''s''))) = (Inr (), s') \<and>
    room_owner ''!r'' (tabs (fst (cs_process s'))) = Some ''ana''"
  using claim_overwrites_owner [of "demo_chat (demo_world (chat_rows ''s''))" demo_bridge "''!r''" "''ana''" "''s9''" "''G_dev''"] by auto

lemma readable_frame:
  assumes "quiet w" and "db_frame w w'"
  shows "readable D sub i w' = (fst (readable D sub i w), w')"
  using db_frameD [OF assms(2)] assms(1)
  by (simp add: readable_def session_load_quiet act_eval split: option.split sum.split)

lemma demo_readable: "fst (readable (md_assemble (br_manager demo_bridge)) ''bob'' ''s'' (demo_world (chat_rows ''s''))) = Inr ''s''"
proof -
  have "md_assemble (br_manager demo_bridge) = demo_assemble_deps" by (simp add: demo_bridge_def demo_manager_def)
  moreover have "fst (readable demo_assemble_deps ''bob'' ''s'' (demo_world (chat_rows ''s''))) = Inr ''s''" by code_simp
  ultimately show ?thesis by simp
qed

lemma demo_turn: "cs_turns (snd (dispatcher demo_bridge ''s1'' 2 (demo_message ''@bob:x'' ''hi'') (demo_chat (demo_world (chat_rows ''s''))))) =
    [(''bob'', ''s'', ''hi'')]"
proof -
  let ?s = "demo_chat (demo_world (chat_rows ''s''))"
  have g: "\<not> table_is_closed ''s'' (sh_mem (snd (cs_process ?s)))"
    "tg_begin (md_gate (br_manager demo_bridge)) ''s'' (mm_gate (sh_mem (snd (cs_process ?s)))) = Inr {''s''}"
    by (simp_all add: demo_bridge_def demo_manager_def demo_gate_def demo_memory_def demo_start_def mg_init_def table_is_closed_def)
  have "\<forall>w'. db_frame (fst (cs_process ?s)) w' \<longrightarrow> readable (md_assemble (br_manager demo_bridge)) ''bob'' ''s'' w' = (Inr ''s'', w')"
    using readable_frame [of "demo_world (chat_rows ''s'')" _ "md_assemble (br_manager demo_bridge)"] demo_readable by auto
  from owner_message_starts_turn [OF demo_free_text _ this g, of "''s1''" 2] demo_others show ?thesis
    by (simp add: demo_message_def)
qed

theorem turn_needs_link_witness:
  "\<exists>i. cs_turns (snd (dispatcher demo_bridge ''s1'' 2 (demo_message ''@bob:x'' ''hi'') (demo_chat (demo_world (chat_rows ''s''))))) =
    [(''bob'', i, ''hi'')]"
proof -
  let ?s = "demo_chat (demo_world (chat_rows ''s''))" and ?m = "demo_message ''@bob:x'' ''hi''"
  have "cs_turns (snd (dispatcher demo_bridge ''s1'' 2 ?m ?s)) \<noteq> cs_turns ?s" by (simp add: demo_turn)
  from turn_needs_link [OF _ surjective_pairing this] show ?thesis
    using chat_rows_read(1) [of "''s''"] by (auto simp: demo_message_def)
qed

definition ended_event :: "u64 \<Rightarrow> session_outcome \<Rightarrow> string \<Rightarrow> session_event" where
  "ended_event n outcome response = \<lparr>se_session = ''s'', se_at = ''t'', se_kind = Turn_Ended n outcome response\<rparr>"

definition ended_chat :: "session_event list \<Rightarrow> (string set, demo_chan) chat_state" where
  "ended_chat es =
     (let m = sh_mem demo_memory in
      (demo_chat (demo_world []))\<lparr>cs_process := (demo_world [], \<lparr>sh_mem = m\<lparr>mm_hub := (mm_hub m)\<lparr>hb_chans :=
        (\<lambda>_. \<lparr>dc_log = es, dc_cap = 8, dc_pos = [(0, 0)], dc_open = True\<rparr>)\<rparr>\<rparr>, sh_others = []\<rparr>)\<rparr>)"

theorem answer_is_first_end_witness:
  "\<exists>s'. collecte demo_bridge 2 (0, 0) ''!r'' ''$e'' (ended_chat [ended_event 1 Out_Cancelled [], ended_event 2 Out_Valid ''late'']) = (Inr True, s') \<and>
    cs_sent s' = [\<lparr>ch_room = ''!r'', ch_body = cancelled_text, ch_txn = None\<rparr>]"
proof -
  let ?s = "ended_chat [ended_event 1 Out_Cancelled [], ended_event 2 Out_Valid ''late'']"
  have laws: "broadcast_laws (md_broadcast (br_manager demo_bridge)) demo_view"
    using demo_laws by (simp add: demo_bridge_def demo_manager_def)
  have s: "sh_others (snd (cs_process ?s)) = []" "cs_answers ?s = []" "cs_sent ?s = []"
    "cv_pos (demo_view (hb_chans (mm_hub (sh_mem (snd (cs_process ?s)))) 0)) 0 = Some 0"
    "cv_kept (demo_view (hb_chans (mm_hub (sh_mem (snd (cs_process ?s)))) 0)) \<le> 0"
    "first_end (drop 0 (cv_log (demo_view (hb_chans (mm_hub (sh_mem (snd (cs_process ?s)))) 0)))) = Some (Turn_Reply Out_Cancelled [])"
    "length (cv_log (demo_view (hb_chans (mm_hub (sh_mem (snd (cs_process ?s)))) 0))) \<le> 0 + 2"
    by (simp_all add: ended_chat_def Let_def demo_view_def cv_kept_def ended_event_def)
  show ?thesis using answer_is_first_end [OF laws s(1,2,4-7), of "''!r''" "''$e''"] by (auto simp: s(3))
qed

end
