(* ===== verification/Lymaille_Http.thy ===== *)
theory Lymaille_Http
  imports Session_Calls
begin

text \<open>
  The JSON handlers of the interactive sessions (\<open>lymaille/http/routes.rs\<close>), as functions of the principal that
  axum extracts, the path and the decoded body; a body or a query that axum refuses is \<open>None\<close>. A response is its
  status and the value that is serialized. The history of a session is rendered with the events of the stream.
\<close>

section \<open>Translation\<close>

definition max_text_bytes :: nat where "max_text_bytes = 32 * 1024"

fun routes_to_rest :: "lymaille_error \<Rightarrow> rest_error" where
  "routes_to_rest Lym_UnknownSubject = Forbidden"
| "routes_to_rest (Lym_Forbidden _) = Forbidden"
| "routes_to_rest (Lym_NotFound _) = NotFound"
| "routes_to_rest (Lym_Conflict _) = Conflict"
| "routes_to_rest (Lym_InvalidDefinition _) = InvalidInput ''invalid conversation definition''"
| "routes_to_rest other = Rest_Internal (lymaille_error_text other)"

definition json_body :: "'a option \<Rightarrow> ('w, rest_error, 'a) act" where
  "json_body body = (case body of Some v \<Rightarrow> return_ok v | None \<Rightarrow> fail_with (InvalidInput ''invalid JSON body''))"

text \<open>\<open>SessionId::new\<close> is a parameter.\<close>

definition parse_session :: "(string \<Rightarrow> string option) \<Rightarrow> string \<Rightarrow> ('w, rest_error, string) act" where
  "parse_session parse t = (case parse t of Some i \<Rightarrow> return_ok i | None \<Rightarrow> fail_with NotFound)"

fun forward_token :: "principal_source \<Rightarrow> string option" where
  "forward_token (Bearer jwt) = Some jwt"
| "forward_token _ = None"

section \<open>Bodies\<close>

record session_body =
  sb_id :: string
  sb_kind :: session_kind
  sb_agent_id :: string
  sb_context :: string

record resume_body = session_body +
  rb_notices :: "string list"

record create_body =
  cb_context :: string
  cb_agent :: "string option"

record list_query =
  lq_agent :: "string option"
  lq_kind :: "string option"
  lq_limit :: "string option"

datatype review_state = Review_Done | Review_Requested_By string | Review_Other

record session_item =
  si_id :: string
  si_title :: string
  si_agent :: string
  si_kind :: session_kind
  si_turns :: u64
  si_review :: "string option"

text \<open>The accessors of \<open>SessionSummary\<close> and what \<open>with_kind\<close> filters on.\<close>

record 'su summary_lib =
  sm_id :: "'su \<Rightarrow> string"
  sm_title :: "'su \<Rightarrow> string"
  sm_agent :: "'su \<Rightarrow> string"
  sm_kind :: "'su \<Rightarrow> session_kind"
  sm_turns :: "'su \<Rightarrow> u64"
  sm_review :: "'su \<Rightarrow> review_state option"
  sm_kind_filter :: "session_kind \<Rightarrow> json option \<times> string"

definition session_body_of :: "session_handle \<Rightarrow> session_body" where
  "session_body_of h = \<lparr>sb_id = sh_id h, sb_kind = sh_kind h, sb_agent_id = sh_agent_id h, sb_context = sh_context h\<rparr>"

definition resume_body_of :: "session_handle \<Rightarrow> resume_body" where
  "resume_body_of h = \<lparr>sb_id = sh_id h, sb_kind = sh_kind h, sb_agent_id = sh_agent_id h, sb_context = sh_context h,
     rb_notices = sh_notices h\<rparr>"

fun render_review :: "review_state option \<Rightarrow> string option" where
  "render_review (Some Review_Done) = Some ''done''"
| "render_review (Some (Review_Requested_By _)) = Some ''requested''"
| "render_review _ = None"

definition session_item_of :: "'su summary_lib \<Rightarrow> 'su \<Rightarrow> session_item" where
  "session_item_of L s = \<lparr>si_id = sm_id L s, si_title = sm_title L s, si_agent = sm_agent L s, si_kind = sm_kind L s,
     si_turns = sm_turns L s, si_review = render_review (sm_review L s)\<rparr>"

section \<open>History\<close>

text \<open>
  \<open>Message\<close> of the library, as far as the code reads it: the content of a user message, content and tool calls
  (name, identifier) of an assistant message, the call a result answers.
\<close>

datatype lib_message =
    Lib_User string
  | Lib_Assistant string "(string \<times> string) list"
  | Lib_System
  | Lib_Tool_Result string
  | Lib_Boundary
  | Lib_Discarded
  | Lib_Unknown_Message

record 'st history_lib =
  hl_created_at :: "'st \<Rightarrow> nat"
  hl_messages :: "'st \<Rightarrow> lib_message list"
  hl_redact :: "string \<Rightarrow> string"

definition has_result :: "string \<Rightarrow> lib_message list \<Rightarrow> bool" where
  "has_result call later \<longleftrightarrow> list_ex (\<lambda>m. m = Lib_Tool_Result call) later"

definition assistant_kinds :: "(string \<Rightarrow> string) \<Rightarrow> u64 \<Rightarrow> string \<Rightarrow> (string \<times> string) list \<Rightarrow> lib_message list \<Rightarrow> session_event_kind list" where
  "assistant_kinds redact turn content calls later =
     map (\<lambda>(name, call). Tool_Call_Summary (max turn 1) name call (has_result call later)) calls @
     (if content = [] then [] else [Turn_Ended (max turn 1) Out_Valid (redact content)])"

fun history_kinds :: "(string \<Rightarrow> string) \<Rightarrow> u64 \<Rightarrow> lib_message list \<Rightarrow> session_event_kind list" where
  "history_kinds redact turn [] = []"
| "history_kinds redact turn (m # ms) =
     (case m of
        Lib_User content \<Rightarrow> User_Message (sat_add turn 1) (redact content) # history_kinds redact (sat_add turn 1) ms
      | Lib_Assistant content calls \<Rightarrow> assistant_kinds redact turn content calls ms @ history_kinds redact turn ms
      | _ \<Rightarrow> history_kinds redact turn ms)"

definition render_history :: "calendar \<Rightarrow> int \<Rightarrow> 'st session_lib \<Rightarrow> 'st history_lib \<Rightarrow> 'st \<Rightarrow> session_event list" where
  "render_history cal now_millis S H st =
     map (\<lambda>k. \<lparr>se_session = st_id S st, se_at = timestamp_rfc3339 cal now_millis (hl_created_at H st), se_kind = k\<rparr>)
       (history_kinds (hl_redact H) 0 (hl_messages H st))"

section \<open>Handlers\<close>

definition create_conversation ::
    "('ts, 'sk, 'ct, 'cx, 'ag, 'pf, 'pv, 'rp, 'st, 'rc, 'gr, 'en, 'g, 'c, 'su) manager \<Rightarrow> string \<Rightarrow> auth_principal \<Rightarrow> create_body option \<Rightarrow>
       (('g, 'c) process, rest_error, nat \<times> session_body) act" where
  "create_conversation M draw who body =
     and_then (json_body body) (\<lambda>b.
     and_then (map_err routes_to_rest (open_session M draw (subject who) (cb_context b) (cb_agent b))) (\<lambda>h.
     return_ok (201, session_body_of h)))"

definition list_filter :: "'su summary_lib \<Rightarrow> list_query \<Rightarrow> rest_error + session_filter" where
  "list_filter L q =
     (let base = \<lparr>sf_kind = None, sf_agent = lq_agent q, sf_review = False, sf_limit = None\<rparr>;
          with_kind = (\<lambda>k. base\<lparr>sf_kind := Some (sm_kind_filter L k)\<rparr>) in
      case (case lq_kind q of
          None \<Rightarrow> Some base
        | Some k \<Rightarrow> if k = ''work'' then Some (with_kind Session_Work) else if k = ''config'' then Some (with_kind Session_Config) else None) of
        None \<Rightarrow> Inl (InvalidInput ''invalid kind filter'')
      | Some f \<Rightarrow>
          (case lq_limit q of
             None \<Rightarrow> Inr f
           | Some limit \<Rightarrow>
               (case parse_unsigned 64 limit of
                  None \<Rightarrow> Inl (InvalidInput ''invalid limit filter'')
                | Some n \<Rightarrow> Inr (f\<lparr>sf_limit := Some n\<rparr>))))"

definition list_conversations ::
    "('ts, 'sk, 'ct, 'cx, 'ag, 'pf, 'pv, 'rp, 'st, 'rc, 'gr, 'en, 'g, 'c, 'su) manager \<Rightarrow> 'su summary_lib \<Rightarrow> auth_principal \<Rightarrow> list_query \<Rightarrow>
       (('g, 'c) process, rest_error, session_item list) act" where
  "list_conversations M L who q =
     and_then (lift_result (list_filter L q)) (\<lambda>f.
     and_then (map_err routes_to_rest (list_sessions M (subject who) f)) (\<lambda>found.
     return_ok (map (session_item_of L) found)))"

text \<open>The answer of \<open>send\<close> and the token its turn gets.\<close>

definition send_route ::
    "('ts, 'sk, 'ct, 'cx, 'ag, 'pf, 'pv, 'rp, 'st, 'rc, 'gr, 'en, 'g, 'c, 'su) manager \<Rightarrow> (string \<Rightarrow> string option) \<Rightarrow> auth_principal \<Rightarrow>
       string \<Rightarrow> string option \<Rightarrow> (('g, 'c) process, rest_error, nat \<times> (nat \<times> caller_principal \<times> 'st) \<times> string \<times> string option) act" where
  "send_route M parse who path body =
     and_then (parse_session parse path) (\<lambda>i.
     and_then (json_body body) (\<lambda>t.
     if t = [] \<or> max_text_bytes < length t then fail_with (InvalidInput ''message text must be non-empty and at most 32 KiB'')
     else and_then (map_err routes_to_rest (send_message M (subject who) i)) (\<lambda>started.
       return_ok (202, started, t, forward_token (source who)))))"

definition cancel_conversation ::
    "('ts, 'sk, 'ct, 'cx, 'ag, 'pf, 'pv, 'rp, 'st, 'rc, 'gr, 'en, 'g, 'c, 'su) manager \<Rightarrow> (string \<Rightarrow> string option) \<Rightarrow> auth_principal \<Rightarrow>
       string \<Rightarrow> (('g, 'c) process, rest_error, bool) act" where
  "cancel_conversation M parse who path =
     and_then (parse_session parse path) (\<lambda>i. map_err routes_to_rest (cancel_turn M (subject who) i))"

definition resume_conversation ::
    "('ts, 'sk, 'ct, 'cx, 'ag, 'pf, 'pv, 'rp, 'st, 'rc, 'gr, 'en, 'g, 'c, 'su) manager \<Rightarrow> (string \<Rightarrow> string option) \<Rightarrow> auth_principal \<Rightarrow>
       string \<Rightarrow> (('g, 'c) process, rest_error, resume_body) act" where
  "resume_conversation M parse who path =
     and_then (parse_session parse path) (\<lambda>i.
     and_then (map_err routes_to_rest (resume_session M (subject who) i)) (\<lambda>h. return_ok (resume_body_of h)))"

definition load_state ::
    "('ts, 'sk, 'ct, 'cx, 'ag, 'pf, 'pv, 'rp, 'st, 'rc, 'gr, 'en) assemble_deps \<Rightarrow> string \<Rightarrow> string \<Rightarrow> (sql_world, rest_error, 'st) act" where
  "load_state D sub i =
     and_then (map_err (\<lambda>e. routes_to_rest (Lym_Store (al_session_text (ad_lib D) e))) (session_load (ad_texts D) (ad_sessions D) sub i)) (\<lambda>found.
     case found of None \<Rightarrow> fail_with NotFound | Some st \<Rightarrow> return_ok st)"

text \<open>\<open>now\<close> is \<open>Utc::now()\<close> in milliseconds.\<close>

definition history ::
    "('ts, 'sk, 'ct, 'cx, 'ag, 'pf, 'pv, 'rp, 'st, 'rc, 'gr, 'en) assemble_deps \<Rightarrow> (string \<Rightarrow> string option) \<Rightarrow> calendar \<Rightarrow> (sql_world \<Rightarrow> int) \<Rightarrow> 'st history_lib \<Rightarrow>
       auth_principal \<Rightarrow> string \<Rightarrow> (sql_world, rest_error, session_event list) act" where
  "history D parse cal now H who path =
     and_then (parse_session parse path) (\<lambda>i.
     and_then (load_state D (subject who) i) (\<lambda>st.
     (\<lambda>w. (Inr (render_history cal (now w) (ad_sessions D) H st), w))))"

definition close_conversation ::
    "('ts, 'sk, 'ct, 'cx, 'ag, 'pf, 'pv, 'rp, 'st, 'rc, 'gr, 'en, 'g, 'c, 'su) manager \<Rightarrow> (string \<Rightarrow> string option) \<Rightarrow> auth_principal \<Rightarrow>
       string \<Rightarrow> (('g, 'c) process, rest_error, nat) act" where
  "close_conversation M parse who path =
     and_then (parse_session parse path) (\<lambda>i.
     and_then (on_db (load_state (md_assemble M) (subject who) i)) (\<lambda>_.
     and_then (map_err (\<lambda>_. NotFound) (close_session M (subject who) i)) (\<lambda>_. return_ok 204)))"

definition activate_toolset_route ::
    "('ts, 'sk, 'ct, 'cx, 'ag, 'pf, 'pv, 'rp, 'st, 'rc, 'gr, 'en) assemble_deps \<Rightarrow> auth_principal \<Rightarrow> string \<Rightarrow>
       (sql_world, rest_error, activation_report) act" where
  "activate_toolset_route D who name =
     and_then (map_err routes_to_rest (resolve_caller (ad_texts D) (subject who))) (\<lambda>caller.
     map_err routes_to_rest (activate_toolset (ad_texts D) (ad_toolsets D) caller name))"

definition discard_draft_route ::
    "('ts, 'sk, 'ct, 'cx, 'ag, 'pf, 'pv, 'rp, 'st, 'rc, 'gr, 'en) assemble_deps \<Rightarrow> auth_principal \<Rightarrow> string \<Rightarrow> (sql_world, rest_error, nat) act" where
  "discard_draft_route D who name =
     and_then (map_err routes_to_rest (resolve_caller (ad_texts D) (subject who))) (\<lambda>caller.
     and_then (map_err routes_to_rest (discard_draft (ad_texts D) (ad_toolsets D) caller Draft_Toolset name)) (\<lambda>gone.
     if gone then return_ok 204 else fail_with NotFound))"

section \<open>What a history holds\<close>

fun users_of :: "lib_message list \<Rightarrow> string list" where
  "users_of [] = []"
| "users_of (m # ms) = (case m of Lib_User content \<Rightarrow> [content] | _ \<Rightarrow> []) @ users_of ms"

fun answers_of :: "lib_message list \<Rightarrow> string list" where
  "answers_of [] = []"
| "answers_of (m # ms) = (case m of Lib_Assistant content _ \<Rightarrow> if content = [] then [] else [content] | _ \<Rightarrow> []) @ answers_of ms"

fun user_turns :: "session_event_kind list \<Rightarrow> (u64 \<times> string) list" where
  "user_turns [] = []"
| "user_turns (k # ks) = (case k of User_Message turn t \<Rightarrow> [(turn, t)] | _ \<Rightarrow> []) @ user_turns ks"

fun responses :: "session_event_kind list \<Rightarrow> string list" where
  "responses [] = []"
| "responses (k # ks) = (case k of Turn_Ended _ _ t \<Rightarrow> [t] | _ \<Rightarrow> []) @ responses ks"

lemma projections_append [simp]:
  "user_turns (ks @ ls) = user_turns ks @ user_turns ls" "responses (ks @ ls) = responses ks @ responses ls"
  by (induction ks) auto

lemma projections_assistant [simp]:
  "user_turns (assistant_kinds redact turn content calls later) = []"
  "responses (assistant_kinds redact turn content calls later) = (if content = [] then [] else [redact content])"
proof -
  have "user_turns (map (\<lambda>(name, call). Tool_Call_Summary t name call (has_result call later)) cs) = []"
    "responses (map (\<lambda>(name, call). Tool_Call_Summary t name call (has_result call later)) cs) = []" for t cs
    by (induction cs) auto
  then show "user_turns (assistant_kinds redact turn content calls later) = []"
    "responses (assistant_kinds redact turn content calls later) = (if content = [] then [] else [redact content])"
    by (simp_all add: assistant_kinds_def)
qed

lemma sat_add_of_nat: "Suc n < 2 ^ 64 \<Longrightarrow> sat_add (of_nat n :: u64) 1 = of_nat (Suc n)"
proof -
  assume n: "Suc n < 2 ^ 64"
  have a: "unat (of_nat n :: u64) = n" by (rule of_nat_inverse [OF refl]) (use n in simp)
  have b: "unat (of_nat (Suc n) :: u64) = Suc n" by (rule of_nat_inverse [OF refl]) (use n in simp)
  show ?thesis by (simp only: word_unat_eq_iff unat_sat_add a b) (use n in simp)
qed

lemma history_users:
  "n + length ms < 2 ^ 64 \<Longrightarrow> user_turns (history_kinds redact (of_nat n) ms) =
     zip (map of_nat [Suc n..<Suc n + length (users_of ms)]) (map redact (users_of ms))"
proof (induction ms arbitrary: n)
  case (Cons m ms)
  show ?case
  proof (cases m)
    case (Lib_User content)
    then show ?thesis using Cons.IH [of "Suc n"] Cons.prems sat_add_of_nat [of n] by (simp add: upt_conv_Cons del: upt_Suc of_nat_Suc)
  qed (use Cons in simp_all)
qed simp

lemma history_responses: "responses (history_kinds redact turn ms) = map redact (answers_of ms)"
  by (induction ms arbitrary: turn) (auto split: lib_message.split)

lemma later_Cons:
  "(\<exists>j. Suc k < j \<and> j < length (m # ms) \<and> (m # ms) ! j = x) \<longleftrightarrow> (\<exists>j. k < j \<and> j < length ms \<and> ms ! j = x)"
proof
  assume "\<exists>j. Suc k < j \<and> j < length (m # ms) \<and> (m # ms) ! j = x"
  then obtain j where j: "Suc k < j" "j < length (m # ms)" "(m # ms) ! j = x" by blast
  then obtain i where "j = Suc i" by (cases j) auto
  then show "\<exists>j. k < j \<and> j < length ms \<and> ms ! j = x" using j by (intro exI [of _ i]) simp
next
  assume "\<exists>j. k < j \<and> j < length ms \<and> ms ! j = x"
  then obtain j where "k < j" "j < length ms" "ms ! j = x" by blast
  then show "\<exists>j. Suc k < j \<and> j < length (m # ms) \<and> (m # ms) ! j = x" by (intro exI [of _ "Suc j"]) simp
qed

lemma history_calls:
  assumes "Tool_Call_Summary turn name call found \<in> set (history_kinds redact t ms)"
  shows "\<exists>k content calls. k < length ms \<and> ms ! k = Lib_Assistant content calls \<and> (name, call) \<in> set calls \<and>
    (found \<longleftrightarrow> (\<exists>j. k < j \<and> j < length ms \<and> ms ! j = Lib_Tool_Result call))"
  using assms
proof (induction ms arbitrary: t)
  case (Cons m ms)
  have later: "\<exists>k content calls. k < length (m # ms) \<and> (m # ms) ! k = Lib_Assistant content calls \<and> (name, call) \<in> set calls \<and>
      (found \<longleftrightarrow> (\<exists>j. k < j \<and> j < length (m # ms) \<and> (m # ms) ! j = Lib_Tool_Result call))"
    if in_rest: "Tool_Call_Summary turn name call found \<in> set (history_kinds redact t' ms)" for t'
  proof -
    obtain k content calls where k: "k < length ms" "ms ! k = Lib_Assistant content calls" "(name, call) \<in> set calls"
      "found \<longleftrightarrow> (\<exists>j. k < j \<and> j < length ms \<and> ms ! j = Lib_Tool_Result call)"
      using Cons.IH [OF in_rest] by blast
    then show ?thesis by (intro exI [of _ "Suc k"] exI [of _ content] exI [of _ calls]) (simp only: later_Cons, simp)
  qed
  have skip: ?case if "\<And>c. m \<noteq> Lib_User c" and "\<And>c cs. m \<noteq> Lib_Assistant c cs"
  proof -
    have "history_kinds redact t (m # ms) = history_kinds redact t ms" using that by (cases m) auto
    then show ?thesis using Cons.prems by (intro later [of t]) simp
  qed
  show ?case
  proof (cases m)
    case (Lib_Assistant content calls)
    show ?thesis
    proof (cases "Tool_Call_Summary turn name call found \<in> set (assistant_kinds redact t content calls ms)")
      case True
      then have "(name, call) \<in> set calls" "found = has_result call ms"
        by (auto simp: assistant_kinds_def split: if_splits)
      moreover have "has_result call ms \<longleftrightarrow> (\<exists>j. 0 < j \<and> j < length (m # ms) \<and> (m # ms) ! j = Lib_Tool_Result call)"
        by (auto simp: has_result_def list_ex_iff in_set_conv_nth gr0_conv_Suc)
      ultimately show ?thesis using Lib_Assistant by (intro exI [of _ 0]) auto
    next
      case False
      then show ?thesis using Cons.prems Lib_Assistant by (intro later [of t]) simp
    qed
  next
    case (Lib_User content)
    then show ?thesis using Cons.prems by (intro later [of "sat_add t 1"]) simp
  qed (rule skip; simp)+
qed simp

text \<open>
  C37: a history says what the persisted messages say: its user messages are those of the session in order, numbered from
  one without a gap, its responses the contents of the assistant that are not empty, in order, and every tool call
  it sums up is a call of an assistant message, declared to have a result exactly when a later message is the
  result of this call. Nothing else of a tool call or result is shown.
\<close>

theorem history_faithful:
  assumes "length ms < 2 ^ 64" and "kinds = history_kinds redact 0 ms"
  shows "user_turns kinds = zip (map of_nat [1..<Suc (length (users_of ms))]) (map redact (users_of ms)) \<and>
    responses kinds = map redact (answers_of ms) \<and>
    (\<forall>turn name call found. Tool_Call_Summary turn name call found \<in> set kinds \<longrightarrow>
      (\<exists>k content calls. k < length ms \<and> ms ! k = Lib_Assistant content calls \<and> (name, call) \<in> set calls \<and>
        (found \<longleftrightarrow> (\<exists>j. k < j \<and> j < length ms \<and> ms ! j = Lib_Tool_Result call))))"
proof (intro conjI allI impI)
  show "user_turns kinds = zip (map of_nat [1..<Suc (length (users_of ms))]) (map redact (users_of ms))"
    using history_users [of 0 ms redact] assms by simp
  show "responses kinds = map redact (answers_of ms)" by (simp add: assms(2) history_responses)
qed (use assms(2) history_calls in blast)

theorem history_faithful_witness:
  "user_turns (history_kinds id 0 [Lib_User ''a'', Lib_Assistant [] [(''find'', ''1'')], Lib_Tool_Result ''1'', Lib_Assistant ''b'' [], Lib_User ''c'']) =
    [(1, ''a''), (2, ''c'')]"
proof -
  let ?ms = "[Lib_User ''a'', Lib_Assistant [] [(''find'', ''1'')], Lib_Tool_Result ''1'', Lib_Assistant ''b'' [], Lib_User ''c'']"
  have l: "length ?ms < 2 ^ 64" by simp
  have "user_turns (history_kinds id 0 ?ms) = zip (map of_nat [1..<Suc (length (users_of ?ms))]) (map id (users_of ?ms))"
    using history_faithful [OF l refl, of id] by blast
  also have "\<dots> = [(1, ''a''), (2, ''c'')]" by (simp add: upt_rec)
  finally show ?thesis .
qed

section \<open>Sessions of others\<close>

lemma parse_session_run: "parse_session parse path w = (case parse path of Some i \<Rightarrow> Inr i | None \<Rightarrow> Inl NotFound, w)"
  by (simp add: parse_session_def return_ok_def fail_with_def split: option.split)

lemma load_state_absent:
  "quiet w \<Longrightarrow> sql_first sessions_table (session_conds (sub, i)) (tabs w) = None \<Longrightarrow> load_state D sub i w = (Inl NotFound, w)"
  by (simp add: load_state_def session_load_quiet act_eval)

text \<open>
  No route tells a session of another account from one that does not exist or from an identifier that is none: sending a
  valid text, cancelling, resuming, reading the history and closing all answer 404 with the same body, and change
  neither the tables nor the memory.
\<close>

theorem routes_hide_foreign:
  assumes "quiet w" and "find_user (subject who) (tabs w) = Some u" and "t \<noteq> []" and "length t \<le> max_text_bytes"
    and "\<forall>i. parse path = Some i \<longrightarrow> sql_first sessions_table (session_conds (subject who, i)) (tabs w) = None"
  shows "send_route M parse who path (Some t) (w, s) = (Inl NotFound, (w, s)) \<and>
    cancel_conversation M parse who path (w, s) = (Inl NotFound, (w, s)) \<and>
    resume_conversation M parse who path (w, s) = (Inl NotFound, (w, s)) \<and>
    close_conversation M parse who path (w, s) = (Inl NotFound, (w, s)) \<and>
    history (md_assemble M) parse cal now H who path w = (Inl NotFound, w)"
proof (cases "parse path")
  case None
  then show ?thesis
    by (simp add: send_route_def cancel_conversation_def resume_conversation_def close_conversation_def history_def and_then_def
        parse_session_run)
next
  case (Some i)
  have a: "sql_first sessions_table (session_conds (subject who, i)) (tabs w) = None" using assms(5) Some by blast
  note run = manager_principal_quiet [OF assms(1,2)] readable_absent [OF assms(1) a] load_state_absent [OF assms(1) a]
  have "send_message M (subject who) i (w, s) = (Inl (Lym_NotFound session_not_found), (w, s))"
    "cancel_turn M (subject who) i (w, s) = (Inl (Lym_NotFound session_not_found), (w, s))"
    "resume_session M (subject who) i (w, s) = (Inl (Lym_NotFound session_not_found), (w, s))"
    by (simp_all add: call_defs act_eval on_db_def run)
  then show ?thesis
    using Some assms(3,4)
    by (simp add: send_route_def cancel_conversation_def resume_conversation_def close_conversation_def history_def and_then_def map_err_def
        parse_session_run json_body_def return_ok_def on_db_def run)
qed

text \<open>
  An accepted message is the one of the body, of 1 to 32768 bytes, sent by the manager to the session of the path for
  the subject of the principal; its turn gets a token only from a request authenticated by a bearer JWT, and then
  this one. The answer does not wait for the turn.
\<close>

theorem accepted_message:
  assumes "send_route M parse who path body p = (Inr (status, started, t, token), p')"
  shows "status = 202 \<and> body = Some t \<and> 0 < length t \<and> length t \<le> 32768 \<and> token = forward_token (source who) \<and>
    (\<forall>jwt. token = Some jwt \<longleftrightarrow> source who = Bearer jwt) \<and>
    (\<exists>i. parse path = Some i \<and> send_message M (subject who) i p = (Inr started, p'))"
proof -
  have "forward_token (source who) = Some jwt \<longleftrightarrow> source who = Bearer jwt" for jwt
    by (cases "source who") auto
  then show ?thesis
    using assms
    by (auto simp: send_route_def act_inv parse_session_run json_body_def max_text_bytes_def return_ok_def fail_with_def
        split: if_splits option.splits)
qed

section \<open>Examples\<close>

definition demo_who :: "principal_source \<Rightarrow> auth_principal" where
  "demo_who src = \<lparr>subject = ''bob'', email = None, preferred_username = None, source = src\<rparr>"

theorem routes_hide_foreign_witness:
  "cancel_conversation demo_manager Some (demo_who Agent) ''other'' (demo_world open_rows, demo_memory) =
     (Inl NotFound, (demo_world open_rows, demo_memory))"
proof -
  have "find_user (subject (demo_who Agent)) (tabs (demo_world open_rows)) = Some (demo_user 2)"
    using demo_rows_bob by (simp add: demo_who_def)
  moreover have "\<forall>i. Some ''other'' = Some i \<longrightarrow>
      sql_first sessions_table (session_conds (subject (demo_who Agent), i)) (tabs (demo_world open_rows)) = None"
    using demo_no_session by (simp add: demo_who_def)
  ultimately show ?thesis
    using routes_hide_foreign [of "demo_world open_rows" "demo_who Agent" "demo_user 2" "''hi''" Some "''other''" demo_manager demo_memory]
    by (simp add: max_text_bytes_def)
qed

theorem accepted_message_witness:
  "\<exists>started p'. send_route demo_manager Some (demo_who (Bearer ''j'')) ''s'' (Some ''hi'') (demo_world open_rows, demo_memory) =
     (Inr (202, started, ''hi'', Some ''j''), p')"
proof -
  obtain started p' where "send_message demo_manager ''bob'' ''s'' (demo_world open_rows, demo_memory) = (Inr started, p')"
    using send_run by (cases "send_message demo_manager ''bob'' ''s'' (demo_world open_rows, demo_memory)") (auto split: sum.splits)
  then have "send_route demo_manager Some (demo_who (Bearer ''j'')) ''s'' (Some ''hi'') (demo_world open_rows, demo_memory) =
      (Inr (202, started, ''hi'', forward_token (source (demo_who (Bearer ''j'')))), p')"
    by (simp add: send_route_def and_then_def parse_session_run json_body_def return_ok_def max_text_bytes_def map_err_def demo_who_def)
  note run = this
  from accepted_message [OF run]
  have "\<forall>jwt. forward_token (source (demo_who (Bearer ''j''))) = Some jwt \<longleftrightarrow> source (demo_who (Bearer ''j'')) = Bearer jwt" by blast
  then have tok: "forward_token (source (demo_who (Bearer ''j''))) = Some ''j''" by (simp add: demo_who_def del: forward_token.simps)
  show ?thesis using run unfolding tok by blast
qed

end
