(* ===== verification/Spec2Isabelle.thy ===== *)
theory Spec2Isabelle
  imports Mcp Sessions Workflow_Run Resource_Module Chat_Bridge Lymaille_Http
begin

text \<open>
  A verification library for the crate \<open>miryad-core\<close> (Rust sources under \<open>src/src\<close>): a server that
  gives declared entities a REST and an MCP surface with row-level access control, accounts and
  sessions over OIDC, durable workflows, and a host for agents of the \<open>lymaille\<close> library.

  \<^bold>\<open>Parts and theories\<close>

  The program is layered, and the theories follow its layers; each models the files it names in
  its own opening text, definition by definition, under the names of the source where HOL allows.

  \<^item> \<open>Prelude\<close>: strings as UTF-8 bytes with the operations of \<open>str\<close>, decimal numbers, saturating
    arithmetic on words, \<open>serde_json::Value\<close>, and the action type \<open>('w, 'e, 'a) act\<close>, a function of
    the state that returns an error or a value and the new state; \<open>and_then\<close> is \<open>?\<close>.
  \<^item> \<open>Database\<close>: the world of a request. Tables, open transaction, clock, and the list of
    environment steps: before each statement other sessions may change the tables arbitrarily, time
    passes, and the statement may fail. A theorem about every world is a theorem about every
    interleaving with other requests and every failure of the infrastructure. \<open>quiet\<close> worlds have
    neither. The locale \<open>get_or_create\<close> is the select, insert, select-again idiom.
  \<^item> \<open>Accounts\<close> (\<open>users/*.rs\<close>), \<open>Auth_Tokens\<close> (\<open>auth/token.rs\<close>, \<open>auth/principal.rs\<close>,
    \<open>auth/error.rs\<close>, \<open>users/service_account.rs\<close>), \<open>Sessions\<close> (\<open>auth/cookie.rs\<close>, \<open>dual.rs\<close>,
    \<open>middleware.rs\<close>, \<open>oidc.rs\<close>, \<open>mod.rs\<close>, \<open>state.rs\<close>): who the caller is.
  \<^item> \<open>Resource\<close> (\<open>resource.rs\<close>, \<open>query.rs\<close>, \<open>rest/error.rs\<close>), \<open>Rbac\<close> (\<open>rbac.rs\<close>), \<open>Rest_Core\<close>
    (\<open>rest/core.rs\<close>, \<open>rest/mod.rs\<close>), \<open>Rest_Accounts\<close> (\<open>rest/tokens.rs\<close>, \<open>me.rs\<close>, \<open>admin.rs\<close>), \<open>Mcp\<close>
    (\<open>mcp/*.rs\<close>), \<open>Entity_Ir\<close> (\<open>ir.rs\<close>): the generic CRUD and its two surfaces. A resource is a record
    of its methods, as the trait is.
  \<^item> \<open>Workflow_Definition\<close>, \<open>Workflow_Steps\<close>, \<open>Workflow_Run\<close> (\<open>workflow/*.rs\<close>): validation of a DAG,
    the registry and rendering of steps, and the interpreter as a step relation (\<open>run_walk\<close>) in which
    the futures of the ready steps resolve in any order.
  \<^item> \<open>Sql_Tables\<close>: the statements the Lymaille stores build. \<open>Lymaille_Access\<close> (\<open>lymaille/error.rs\<close>,
    \<open>identity.rs\<close>, \<open>secret.rs\<close>, \<open>host.rs\<close>, \<open>mcp_access.rs\<close>), \<open>Lymaille_Definitions\<close>
    (\<open>lymaille/definitions/*.rs\<close>), \<open>Toolset_Store\<close> (\<open>store/toolset.rs\<close>, \<open>store/draft.rs\<close>,
    \<open>interactive/activation.rs\<close>), \<open>Lymaille_Stores\<close> (the other stores), \<open>Write_Journal\<close>
    (\<open>store/write_journal.rs\<close>, \<open>store/purge.rs\<close>), \<open>Resource_Module\<close> (\<open>resource_module.rs\<close>).
  \<^item> \<open>Matrix_Store\<close> (\<open>matrix/store/kv.rs\<close>, \<open>crypto_account.rs\<close>, \<open>error.rs\<close>), \<open>Matrix_Client\<close>
    (\<open>matrix/error.rs\<close>, \<open>config.rs\<close>, \<open>session.rs\<close>, \<open>device_code.rs\<close>, \<open>sync.rs\<close>): the sealed store of a
    Matrix account with the lease of its replicas, the login by device code, the synchronisation.
  \<^item> \<open>Session_Hub\<close> (\<open>lymaille/interactive/event.rs\<close>, \<open>hub.rs\<close>, \<open>http/sse.rs\<close>): typed events, their
    subscribers and the streams of the browser. \<open>Session_Assemble\<close> (\<open>assemble.rs\<close>): the modules, roles and
    inference of a session. \<open>Session_Manager\<close> (\<open>manager.rs\<close>): the operations on sessions, as reads of the
    database and sections of the memory under a lock. \<open>Session_Turns\<close>: the same sections as a step relation
    over any number of calls and turns. \<open>Session_Calls\<close>: the operations as a whole.
    \<open>Lymaille_Http\<close> (\<open>http/routes.rs\<close>): the handlers over them and the rendering of a history.
  \<^item> \<open>Chat_Render\<close> (\<open>lymaille/chat/render.rs\<close>): the parts of a long answer. \<open>Chat_Link\<close> (\<open>link.rs\<close>): codes and
    links between Matrix users and accounts. \<open>Chat_Bridge\<close> (\<open>bridge.rs\<close>): what a message of a room does, over the
    manager, the links and the memory of the bridge as one state.

  \<^bold>\<open>How state and operations correspond\<close>

  An \<open>async fn\<close> is an action of the world, an early return an \<open>Inl\<close>, a \<open>for\<close> loop with \<open>?\<close> the
  combinator \<open>for_each\<close>. Rows of generic entities are functions from column names to values; the
  accounts have records. A statement is a function on the tables run by \<open>statement\<close>, which is where
  interference, failure and the abort of a Postgres transaction happen. Integers are words where
  their width matters (\<open>u64\<close> pages and offsets, \<open>u32\<close> counters), and ids are checked against \<open>i32\<close>.

  Code that is not under \<open>src/\<close> is a parameter, and what a theorem needs of it a named hypothesis:
  the text of an error (\<open>db_texts\<close>), HMAC, SHA-256, base64 and random bytes, the cookie jar, the
  verification of a JWT and the exchange of a code, Handlebars, the Rhai engine, Restate, the
  serialization of a number, and the definitions of the \<open>lymaille\<close> library. Each such theorem has a
  witness in which the parameters are concrete functions.

  \<^bold>\<open>What the theorems show\<close>

  \<^item> Accounts and authentication: the reconciliation of groups is exact and atomic; every
    authenticated principal comes from a checked credential; tokens and sessions live exactly as long
    as they should; the callback accepts only the login it belongs to.
  \<^item> Access control: one decision table for reading, writing and listing; refusals reveal nothing;
    every branch of create, update and delete, with the frame of the rows it does not touch; pages
    cover a listing; MCP tools and scripts have exactly the decisions of REST.
  \<^item> Workflows: validation accepts exactly the closed acyclic lists; in every reachable state of a
    run steps are called after their dependencies with their outputs; runs end, and their results do
    not depend on the order of completion; child runs are bounded in depth.
  \<^item> Lymaille host: stored definitions stay valid under REST; the activation of a toolset implements
    an abstract shelf and is all or nothing; the stores are maps; the journal key identifies a write
    and a batch write is executed once; purges keep what is recent.
  \<^item> Matrix: the replicas that contend for a lease are fenced, and each call implements the protocol
    of the lease; opening the store converges on one cipher; a login returns, and only with the device
    it asked for; nothing is synchronised without the lease.
  \<^item> Interactive sessions: a session has at most one turn in every interleaving, a cancel that finds a
    begun turn reaches it, a session of another account is invisible, an opened session has an agent
    its context allows, subscribers miss only what is declared lagged, the modules of a session
    are those its caller is entitled to, and its history shows what its messages say.
  \<^item> Matrix chat: a user is linked only by spending a code of the account, guesses are limited; a message starts a turn
    only for the linked account and once; the answer is the first turn that ends after the subscription, sent in
    parts that hold its whole text.
  \<^item> Some theorems state defects, on every branch they concern: they are the findings of the manifest.

  \<^bold>\<open>Bounds\<close>

  The polling of a device code has fuel, its number of polls: \<open>2 ^ 64\<close> always suffice, since the
  code expires after at most that many seconds and every poll waits one. The bridge waits for the end of a turn with
  a patience, its number of looks at the channel: as many as there are events to read suffice, and a result says
  when it is still waiting. \<open>validate_dag\<close> is a \<open>while_option\<close> loop, proved to return (each turn consumes one
  identifier of the queue, each enters it once). A run of \<open>n\<close> steps makes at most \<open>3 * n + 2\<close>
  transitions, by a rank that every transition decreases. The limits of the code are its constants:
  100 writes per module instance, 64 KiB per journaled result, 20 and 50 items per page, 200 sessions
  per listing, a depth of child runs.

  \<^bold>\<open>Not modelled\<close>

  HTTP routing and extraction (axum), the DDL of the migrations (the constraints they declare are in
  the statements), discovery and transport of OIDC, the Matrix SDK, tracing, the masking \<open>Debug\<close> implementations, the
  adapters of workflow steps around external engines, and the start of the binary. The manifest lists
  every part with its status and the reason.
\<close>

end
